(* ===== verification/Prelude.thy ===== *)
theory Prelude
  imports Main "HOL-Library.Word" "HOL-Library.Sublist" "HOL-Library.List_Lexorder" "HOL-Library.Char_ord"
begin

text \<open>
  The vocabulary every component of the development shares.

  A Rust \<open>str\<close> is modelled as the list of its UTF-8 bytes, so \<open>s.len()\<close> is
  \<^term>\<open>length s\<close> and a literal is an ordinary HOL string; a Rust \<open>char\<close> is the
  byte list of one encoded character, and \<open>s.chars()\<close> is \<open>str_chars s\<close>. The
  functions below are those of \<open>core::str\<close> the source calls, with the standard
  library's behaviour (Unicode white space and control characters included). A fallible
  Rust function returns a sum: \<open>Inl\<close> the error, \<open>Inr\<close> the value; \<open>r_bind\<close>
  is the \<open>?\<close> operator.
\<close>

named_theorems result_simps \<open>how the result combinators reduce\<close>
named_theorems str_simps \<open>facts on the string functions of the standard library\<close>

type_synonym str = "char list"
type_synonym u8 = "8 word"
type_synonym u16 = "16 word"
type_synonym u32 = "32 word"
type_synonym u64 = "64 word"

section \<open>Results\<close>

fun r_bind :: "'e + 'a \<Rightarrow> ('a \<Rightarrow> 'e + 'b) \<Rightarrow> 'e + 'b" where
  "r_bind (Inl e) f = Inl e"
| "r_bind (Inr v) f = f v"

fun r_map_err :: "('e \<Rightarrow> 'f) \<Rightarrow> 'e + 'a \<Rightarrow> 'f + 'a" where
  "r_map_err g (Inl e) = Inl (g e)"
| "r_map_err g (Inr v) = Inr v"

definition ok_or :: "'e \<Rightarrow> 'a option \<Rightarrow> 'e + 'a" where
  "ok_or e x = (case x of None \<Rightarrow> Inl e | Some v \<Rightarrow> Inr v)"

definition ensure :: "bool \<Rightarrow> 'e \<Rightarrow> 'e + unit" where
  "ensure b e = (if b then Inr () else Inl e)"

fun is_ok :: "'e + 'a \<Rightarrow> bool" where
  "is_ok (Inl e) = False"
| "is_ok (Inr v) = True"

lemma is_ok_iff: "is_ok r \<longleftrightarrow> (\<exists>v. r = Inr v)"
  by (cases r) auto

lemma r_bind_Inr [result_simps]: "r_bind x f = Inr y \<longleftrightarrow> (\<exists>v. x = Inr v \<and> f v = Inr y)"
  by (cases x) auto

lemma r_bind_Inl [result_simps]:
  "r_bind x f = Inl e \<longleftrightarrow> x = Inl e \<or> (\<exists>v. x = Inr v \<and> f v = Inl e)"
  by (cases x) auto

lemma r_map_err_Inr [result_simps]: "r_map_err g x = Inr y \<longleftrightarrow> x = Inr y"
  by (cases x) auto

lemma r_map_err_Inl [result_simps]: "r_map_err g x = Inl e \<longleftrightarrow> (\<exists>e'. x = Inl e' \<and> e = g e')"
  by (cases x) auto

lemma ensure_Inr [result_simps]: "ensure b e = Inr u \<longleftrightarrow> b"
  by (simp add: ensure_def)

lemma ensure_Inl [result_simps]: "ensure b e = Inl e' \<longleftrightarrow> \<not> b \<and> e' = e"
  by (auto simp: ensure_def)

lemma ok_or_Inr [result_simps]: "ok_or e x = Inr v \<longleftrightarrow> x = Some v"
  by (auto simp: ok_or_def split: option.splits)

lemma ok_or_Inl [result_simps]: "ok_or e x = Inl e' \<longleftrightarrow> x = None \<and> e' = e"
  by (auto simp: ok_or_def split: option.splits)

text \<open>\<open>iter.map(f).collect::<Result<Vec<_>>>()\<close>: the first error, or every value.\<close>

fun collect_results :: "('e + 'a) list \<Rightarrow> 'e + 'a list" where
  "collect_results [] = Inr []"
| "collect_results (r # rs) = r_bind r (\<lambda>v. r_bind (collect_results rs) (\<lambda>vs. Inr (v # vs)))"

lemma collect_results_Inr:
  "collect_results rs = Inr vs \<longleftrightarrow> rs = map Inr vs"
  by (induction rs arbitrary: vs) (auto simp: result_simps)

text \<open>Searching a table that has grown at its end.\<close>

lemma find_append_new: "list_all (\<lambda>x. \<not> P x) xs \<Longrightarrow> P x \<Longrightarrow> find P (xs @ [x]) = Some x"
  by (induction xs) auto

lemma filter_unique_key:
  "distinct (map f xs) \<Longrightarrow> x \<in> set xs \<Longrightarrow> filter (\<lambda>y. f y = f x) xs = [x]"
proof (induction xs)
  case (Cons y ys)
  have "filter (\<lambda>z. f z = f y) ys = []"
    using Cons.prems(1) by (auto simp: filter_empty_conv image_iff)
  with Cons show ?case by (auto simp: image_iff)
qed simp

section \<open>Bytes and characters\<close>

definition byte :: "char \<Rightarrow> nat" where
  "byte c = of_char c"

lemma byte_bound: "byte c < 256"
  by (simp add: byte_def)

lemma byte_eq_iff: "byte c = byte d \<longleftrightarrow> c = d"
  by (simp add: byte_def)

definition is_ascii_lowercase :: "char \<Rightarrow> bool" where
  "is_ascii_lowercase c \<longleftrightarrow> 97 \<le> byte c \<and> byte c \<le> 122"

definition is_ascii_uppercase :: "char \<Rightarrow> bool" where
  "is_ascii_uppercase c \<longleftrightarrow> 65 \<le> byte c \<and> byte c \<le> 90"

definition is_ascii_digit :: "char \<Rightarrow> bool" where
  "is_ascii_digit c \<longleftrightarrow> 48 \<le> byte c \<and> byte c \<le> 57"

definition is_ascii_alphabetic :: "char \<Rightarrow> bool" where
  "is_ascii_alphabetic c \<longleftrightarrow> is_ascii_lowercase c \<or> is_ascii_uppercase c"

definition is_ascii_alphanumeric :: "char \<Rightarrow> bool" where
  "is_ascii_alphanumeric c \<longleftrightarrow> is_ascii_alphabetic c \<or> is_ascii_digit c"

definition is_ascii_hexdigit :: "char \<Rightarrow> bool" where
  "is_ascii_hexdigit c \<longleftrightarrow> is_ascii_digit c \<or> (97 \<le> byte c \<and> byte c \<le> 102)
     \<or> (65 \<le> byte c \<and> byte c \<le> 70)"

definition is_ascii_control :: "char \<Rightarrow> bool" where
  "is_ascii_control c \<longleftrightarrow> byte c < 32 \<or> byte c = 127"

definition to_lower_char :: "char \<Rightarrow> char" where
  "to_lower_char c = (if is_ascii_uppercase c then char_of (byte c + 32) else c)"

definition to_upper_char :: "char \<Rightarrow> char" where
  "to_upper_char c = (if is_ascii_lowercase c then char_of (byte c - 32) else c)"

definition to_ascii_lowercase :: "str \<Rightarrow> str" where
  "to_ascii_lowercase s = map to_lower_char s"

definition to_ascii_uppercase :: "str \<Rightarrow> str" where
  "to_ascii_uppercase s = map to_upper_char s"

lemmas ascii_defs = is_ascii_lowercase_def is_ascii_uppercase_def is_ascii_digit_def
  is_ascii_alphabetic_def is_ascii_alphanumeric_def is_ascii_hexdigit_def is_ascii_control_def

lemma byte_char_of: "n < 256 \<Longrightarrow> byte (char_of n) = n"
  by (simp add: byte_def)

lemma byte_to_lower_char:
  "byte (to_lower_char c) = (if is_ascii_uppercase c then byte c + 32 else byte c)"
  by (simp add: to_lower_char_def byte_char_of ascii_defs)

lemma not_upper_to_lower_char [simp]: "\<not> is_ascii_uppercase (to_lower_char c)"
  by (simp add: ascii_defs byte_to_lower_char)

lemma to_lower_char_id: "\<not> is_ascii_uppercase c \<Longrightarrow> to_lower_char c = c"
  by (simp add: to_lower_char_def)

lemma to_lower_char_idem [simp]: "to_lower_char (to_lower_char c) = to_lower_char c"
  by (simp add: to_lower_char_id)

lemma length_to_ascii_lowercase [simp, str_simps]: "length (to_ascii_lowercase s) = length s"
  by (simp add: to_ascii_lowercase_def)

lemma to_ascii_lowercase_Nil_iff [simp, str_simps]: "to_ascii_lowercase s = [] \<longleftrightarrow> s = []"
  by (simp add: to_ascii_lowercase_def)

lemma to_ascii_lowercase_idem [simp, str_simps]:
  "to_ascii_lowercase (to_ascii_lowercase s) = to_ascii_lowercase s"
  by (simp add: to_ascii_lowercase_def)

lemma to_ascii_lowercase_append [str_simps]:
  "to_ascii_lowercase (s @ t) = to_ascii_lowercase s @ to_ascii_lowercase t"
  by (simp add: to_ascii_lowercase_def)

lemma to_ascii_lowercase_id: "(\<And>c. c \<in> set s \<Longrightarrow> \<not> is_ascii_uppercase c) \<Longrightarrow> to_ascii_lowercase s = s"
  by (simp add: to_ascii_lowercase_def map_idI to_lower_char_id)

section \<open>UTF-8 characters\<close>

definition is_continuation :: "char \<Rightarrow> bool" where
  "is_continuation c \<longleftrightarrow> 128 \<le> byte c \<and> byte c < 192"

function str_chars :: "str \<Rightarrow> str list" where
  "str_chars [] = []"
| "str_chars (c # cs) = (c # takeWhile is_continuation cs) # str_chars (dropWhile is_continuation cs)"
  by pat_completeness auto
termination
  by (relation "measure length") (auto simp: length_dropWhile_le le_imp_less_Suc)

lemma concat_str_chars [simp, str_simps]: "concat (str_chars s) = s"
  by (induction s rule: str_chars.induct) auto

lemma str_chars_Nil_iff [simp]: "str_chars s = [] \<longleftrightarrow> s = []"
  by (cases s) auto

definition ascii :: "str \<Rightarrow> bool" where
  "ascii s \<longleftrightarrow> list_all (\<lambda>c. byte c < 128) s"

lemma str_chars_ascii: "ascii s \<Longrightarrow> str_chars s = map (\<lambda>c. [c]) s"
proof (induction s rule: str_chars.induct)
  case 1
  show ?case by simp
next
  case (2 c cs)
  then have "takeWhile is_continuation cs = []" "dropWhile is_continuation cs = cs"
    by (cases cs; auto simp: ascii_def is_continuation_def)+
  with 2 show ?case by (simp add: ascii_def)
qed

text \<open>The characters of Unicode's \<open>White_Space\<close> property, as \<open>char::is_whitespace\<close> has them.\<close>

definition bytes_of :: "nat list \<Rightarrow> str" where
  "bytes_of ns = map char_of ns"

definition whitespace_chars :: "str list" where
  "whitespace_chars =
     map bytes_of ([[9], [10], [11], [12], [13], [32], [194, 133], [194, 160], [225, 154, 128]]
       @ map (\<lambda>n. [226, 128, n]) [128, 129, 130, 131, 132, 133, 134, 135, 136, 137, 138, 168, 169, 175]
       @ [[226, 129, 159], [227, 128, 128]])"

definition is_whitespace :: "str \<Rightarrow> bool" where
  "is_whitespace ch \<longleftrightarrow> ch \<in> set whitespace_chars"

text \<open>Unicode's category Cc: U+0000 to U+001F, U+007F to U+009F.\<close>

definition is_control :: "str \<Rightarrow> bool" where
  "is_control ch \<longleftrightarrow>
     (case ch of
        [c] \<Rightarrow> is_ascii_control c
      | [c, d] \<Rightarrow> byte c = 194 \<and> 128 \<le> byte d \<and> byte d < 160
      | _ \<Rightarrow> False)"

definition is_ascii_whitespace :: "char \<Rightarrow> bool" where
  "is_ascii_whitespace c \<longleftrightarrow> (9 \<le> byte c \<and> byte c \<le> 13) \<or> byte c = 32"

lemma is_whitespace_single: "is_whitespace [c] \<longleftrightarrow> is_ascii_whitespace c"
proof -
  have "is_whitespace [c] \<longleftrightarrow> c \<in> char_of ` {9, 10, 11, 12, 13, 32 :: nat}"
    by (auto simp: is_whitespace_def whitespace_chars_def bytes_of_def)
  also have "\<dots> \<longleftrightarrow> byte c \<in> {9, 10, 11, 12, 13, 32}"
    by (auto simp: byte_def image_iff) (metis char_of_char)+
  also have "\<dots> \<longleftrightarrow> is_ascii_whitespace c"
    by (auto simp: is_ascii_whitespace_def)
  finally show ?thesis .
qed

section \<open>Operations on \<open>str\<close>\<close>

definition str_trim_start :: "str \<Rightarrow> str" where
  "str_trim_start s = concat (dropWhile is_whitespace (str_chars s))"

definition str_trim_end :: "str \<Rightarrow> str" where
  "str_trim_end s = concat (rev (dropWhile is_whitespace (rev (str_chars s))))"

definition str_trim :: "str \<Rightarrow> str" where
  "str_trim s =
     concat (rev (dropWhile is_whitespace (rev (dropWhile is_whitespace (str_chars s)))))"

definition str_trim_end_matches :: "char \<Rightarrow> str \<Rightarrow> str" where
  "str_trim_end_matches c s = rev (dropWhile (\<lambda>d. d = c) (rev s))"

definition str_trim_matches :: "char \<Rightarrow> str \<Rightarrow> str" where
  "str_trim_matches c s = rev (dropWhile (\<lambda>d. d = c) (rev (dropWhile (\<lambda>d. d = c) s)))"

definition starts_with :: "str \<Rightarrow> str \<Rightarrow> bool" where
  "starts_with p s \<longleftrightarrow> prefix p s"

definition ends_with :: "str \<Rightarrow> str \<Rightarrow> bool" where
  "ends_with p s \<longleftrightarrow> suffix p s"

fun strip_prefix :: "str \<Rightarrow> str \<Rightarrow> str option" where
  "strip_prefix [] s = Some s"
| "strip_prefix (p # ps) [] = None"
| "strip_prefix (p # ps) (c # cs) = (if p = c then strip_prefix ps cs else None)"

fun str_split :: "char \<Rightarrow> str \<Rightarrow> str list" where
  "str_split sep [] = [[]]"
| "str_split sep (c # cs) =
     (if c = sep then [] # str_split sep cs
      else (case str_split sep cs of
              [] \<Rightarrow> [[c]]
            | p # ps \<Rightarrow> (c # p) # ps))"

fun str_join :: "str \<Rightarrow> str list \<Rightarrow> str" where
  "str_join sep [] = []"
| "str_join sep [p] = p"
| "str_join sep (p # q # ps) = p @ sep @ str_join sep (q # ps)"

fun split_once :: "char \<Rightarrow> str \<Rightarrow> (str \<times> str) option" where
  "split_once sep [] = None"
| "split_once sep (c # cs) =
     (if c = sep then Some ([], cs)
      else map_option (\<lambda>(a, b). (c # a, b)) (split_once sep cs))"

fun str_find :: "str \<Rightarrow> str \<Rightarrow> nat option" where
  "str_find pat [] = (if pat = [] then Some 0 else None)"
| "str_find pat (c # cs) =
     (if prefix pat (c # cs) then Some 0 else map_option Suc (str_find pat cs))"

definition str_contains :: "str \<Rightarrow> str \<Rightarrow> bool" where
  "str_contains pat s \<longleftrightarrow> str_find pat s \<noteq> None"

text \<open>\<open>str::lines\<close>: the last line needs no line feed, a carriage return before one is dropped.\<close>

definition line_end :: "str \<Rightarrow> str" where
  "line_end l = (if l \<noteq> [] \<and> last l = CHR 0x0D then butlast l else l)"

definition str_lines :: "str \<Rightarrow> str list" where
  "str_lines s =
     (let ps = str_split CHR 0x0A s
      in map line_end (butlast ps) @ (if last ps = [] then [] else [last ps]))"

definition str_replace_char :: "char \<Rightarrow> str \<Rightarrow> str \<Rightarrow> str" where
  "str_replace_char c t s = concat (map (\<lambda>d. if d = c then t else [d]) s)"

lemma strip_prefix_Some [str_simps]: "strip_prefix p s = Some r \<longleftrightarrow> s = p @ r"
  by (induction p s rule: strip_prefix.induct) auto

lemma strip_prefix_None [str_simps]: "strip_prefix p s = None \<longleftrightarrow> \<not> prefix p s"
  by (induction p s rule: strip_prefix.induct) auto

lemma str_split_nonempty [simp]: "str_split sep s \<noteq> []"
  by (induction s) (auto split: list.splits)

lemma str_join_Cons: "ps \<noteq> [] \<Longrightarrow> str_join sep (p # ps) = p @ sep @ str_join sep ps"
  by (cases ps) auto

lemma str_join_split [simp, str_simps]: "str_join [sep] (str_split sep s) = s"
proof (induction s)
  case Nil
  show ?case by simp
next
  case (Cons c s)
  show ?case
  proof (cases "str_split sep s")
    case Nil
    then show ?thesis by simp
  next
    case (Cons p ps)
    with Cons.IH show ?thesis by (cases ps) auto
  qed
qed

lemma str_split_no_sep: "p \<in> set (str_split sep s) \<Longrightarrow> sep \<notin> set p"
  by (induction s arbitrary: p) (auto split: list.splits if_splits)

lemma str_split_fresh: "sep \<notin> set s \<Longrightarrow> str_split sep s = [s]"
  by (induction s) auto

lemma str_split_append:
  "sep \<notin> set p \<Longrightarrow> str_split sep (p @ sep # s) = p # str_split sep s"
  by (induction p) auto

lemma str_split_join:
  "ps \<noteq> [] \<Longrightarrow> (\<And>p. p \<in> set ps \<Longrightarrow> sep \<notin> set p) \<Longrightarrow> str_split sep (str_join [sep] ps) = ps"
proof (induction ps rule: induct_list012)
  case 1
  then show ?case by simp
next
  case (2 p)
  then show ?case by (simp add: str_split_fresh)
next
  case (3 p q ps)
  then show ?case by (simp add: str_split_append)
qed

lemma last_str_join: "ps \<noteq> [] \<Longrightarrow> last ps \<noteq> [] \<Longrightarrow> last (str_join sep ps) = last (last ps)"
proof (induction ps)
  case (Cons p ps)
  show ?case
  proof (cases "ps = []")
    case False
    then have "str_join sep ps \<noteq> []"
      using Cons.prems by (induction ps rule: induct_list012) (auto simp: str_join_Cons)
    with Cons False show ?thesis by (simp add: str_join_Cons)
  qed simp
qed simp

lemma hd_str_join: "ps \<noteq> [] \<Longrightarrow> hd ps \<noteq> [] \<Longrightarrow> hd (str_join sep ps) = hd (hd ps)"
  by (induction sep ps rule: str_join.induct) auto

lemma set_str_join: "set (str_join sep ps) \<subseteq> set sep \<union> (\<Union>p \<in> set ps. set p)"
  by (induction sep ps rule: str_join.induct) auto

lemma set_str_split: "(\<Union>p \<in> set (str_split sep s). set p) = set s - {sep}"
proof (induction s)
  case (Cons c s)
  then show ?case by (cases "str_split sep s") auto
qed simp

lemma str_split_chars: "p \<in> set (str_split sep s) \<Longrightarrow> c \<in> set p \<Longrightarrow> c \<in> set s \<and> c \<noteq> sep"
  using set_str_split [of sep s] by blast

lemma split_once_Some [str_simps]:
  "split_once sep s = Some (a, b) \<longleftrightarrow> s = a @ sep # b \<and> sep \<notin> set a"
proof (induction s arbitrary: a)
  case Nil
  show ?case by simp
next
  case (Cons c s)
  show ?case
    by (cases a) (auto simp: Cons.IH)
qed

lemma split_once_None [str_simps]: "split_once sep s = None \<longleftrightarrow> sep \<notin> set s"
  by (induction s) auto

lemma str_find_bound: "str_find pat s = Some i \<Longrightarrow> i + length pat \<le> length s"
  by (induction s arbitrary: i) (auto dest: prefix_length_le split: if_splits)

lemma str_find_Some: "str_find pat s = Some i \<Longrightarrow> take (length pat) (drop i s) = pat"
  by (induction s arbitrary: i) (auto simp: prefix_def split: if_splits)

lemma str_contains_iff: "str_contains pat s \<longleftrightarrow> sublist pat s"
proof (induction s)
  case Nil
  show ?case by (auto simp: str_contains_def)
next
  case (Cons c s)
  then show ?case
    by (auto simp: str_contains_def sublist_Cons_right)
qed

text \<open>White space never starts or ends a trimmed string of ASCII bytes.\<close>

lemma str_trim_ascii:
  assumes "ascii s"
  shows "str_trim s = rev (dropWhile is_ascii_whitespace (rev (dropWhile is_ascii_whitespace s)))"
proof -
  have *: "dropWhile is_whitespace (map (\<lambda>c. [c]) t) = map (\<lambda>c. [c]) (dropWhile is_ascii_whitespace t)"
    for t :: str
    by (induction t) (auto simp: is_whitespace_single)
  show ?thesis
    using assms by (simp add: str_trim_def str_chars_ascii * rev_map concat_map_singleton flip: map_map)
qed

section \<open>Decimal numbers\<close>

definition digit_char :: "nat \<Rightarrow> char" where
  "digit_char n = char_of (48 + n)"

text \<open>\<open>to_string\<close> of an unsigned integer.\<close>

fun show_nat :: "nat \<Rightarrow> str" where
  "show_nat n = (if n < 10 then [digit_char n] else show_nat (n div 10) @ [digit_char (n mod 10)])"

declare show_nat.simps [simp del]

definition show_int :: "int \<Rightarrow> str" where
  "show_int i = (if i < 0 then ''-'' @ show_nat (nat (- i)) else show_nat (nat i))"

definition digit_val :: "char \<Rightarrow> nat" where
  "digit_val c = byte c - 48"

definition digits_value :: "str \<Rightarrow> nat" where
  "digits_value s = foldl (\<lambda>acc c. 10 * acc + digit_val c) 0 s"

text \<open>
  \<open>str::parse\<close> at an unsigned type whose largest value is \<open>mx\<close>: an optional \<open>+\<close>,
  then one or more ASCII digits, and no overflow.
\<close>

definition parse_unsigned :: "nat \<Rightarrow> str \<Rightarrow> nat option" where
  "parse_unsigned mx s =
     (let t = (case s of [] \<Rightarrow> [] | c # cs \<Rightarrow> if c = CHR ''+'' then cs else s)
      in if t \<noteq> [] \<and> list_all is_ascii_digit t \<and> digits_value t \<le> mx
         then Some (digits_value t) else None)"

lemma digit_char_props [simp]:
  "n < 10 \<Longrightarrow> is_ascii_digit (digit_char n)"
  "n < 10 \<Longrightarrow> digit_val (digit_char n) = n"
  "n < 10 \<Longrightarrow> byte (digit_char n) = 48 + n"
  by (simp_all add: digit_char_def digit_val_def is_ascii_digit_def byte_char_of)

lemma show_nat_nonempty [simp]: "show_nat n \<noteq> []"
  by (subst show_nat.simps) simp

lemma show_nat_digits: "list_all is_ascii_digit (show_nat n)"
proof (induction n rule: show_nat.induct)
  case (1 n)
  then show ?case by (subst show_nat.simps) (simp add: list_all_iff)
qed

lemma digits_value_snoc: "digits_value (s @ [c]) = 10 * digits_value s + digit_val c"
  by (simp add: digits_value_def)

lemma digits_value_show_nat [simp]: "digits_value (show_nat n) = n"
proof (induction n rule: show_nat.induct)
  case (1 n)
  show ?case
  proof (cases "n < 10")
    case True
    then show ?thesis by (subst show_nat.simps) (simp add: digits_value_def)
  next
    case False
    with 1 show ?thesis by (subst show_nat.simps) (simp add: digits_value_snoc)
  qed
qed

lemma show_nat_inject [simp]: "show_nat m = show_nat n \<longleftrightarrow> m = n"
  by (metis digits_value_show_nat)

lemma parse_unsigned_show_nat: "n \<le> mx \<Longrightarrow> parse_unsigned mx (show_nat n) = Some n"
proof -
  assume "n \<le> mx"
  moreover obtain c cs where c: "show_nat n = c # cs"
    by (cases "show_nat n") auto
  moreover have "is_ascii_digit c"
    using show_nat_digits [of n] c by simp
  then have "c \<noteq> CHR ''+''"
    by (auto simp: is_ascii_digit_def byte_def)
  ultimately show ?thesis
    using show_nat_digits [of n] digits_value_show_nat [of n]
    by (simp add: parse_unsigned_def Let_def)
qed

lemma parse_unsigned_bound: "parse_unsigned mx s = Some n \<Longrightarrow> n \<le> mx"
  by (auto simp: parse_unsigned_def Let_def split: if_splits)

definition parse_u16 :: "str \<Rightarrow> u16 option" where
  "parse_u16 s = map_option of_nat (parse_unsigned (2 ^ 16 - 1) s)"

definition parse_u32 :: "str \<Rightarrow> u32 option" where
  "parse_u32 s = map_option of_nat (parse_unsigned (2 ^ 32 - 1) s)"

definition parse_u64 :: "str \<Rightarrow> u64 option" where
  "parse_u64 s = map_option of_nat (parse_unsigned (2 ^ 64 - 1) s)"

definition show_word :: "'a::len word \<Rightarrow> str" where
  "show_word w = show_nat (unat w)"

section \<open>Trimming and decoding\<close>

text \<open>
  Character lists that come out of the decoder: every element holds continuation bytes after
  its first byte, and only the first element may start with one (a string that is valid UTF-8
  never does).
\<close>

fun wf_chars :: "str list \<Rightarrow> bool" where
  "wf_chars [] = True"
| "wf_chars (x # xs) = (x \<noteq> [] \<and> list_all is_continuation (tl x)
     \<and> (case xs of [] \<Rightarrow> True | y # _ \<Rightarrow> y \<noteq> [] \<and> \<not> is_continuation (hd y)) \<and> wf_chars xs)"

lemma hd_dropWhile_not: "dropWhile P xs = y # ys \<Longrightarrow> \<not> P y"
  by (metis hd_dropWhile list.sel(1) list.simps(3))

lemma wf_chars_str_chars [simp]: "wf_chars (str_chars s)"
proof (induction s rule: str_chars.induct)
  case (2 c cs)
  have t: "list_all is_continuation (takeWhile is_continuation cs)"
    by (auto simp: list_all_iff dest: set_takeWhileD)
  show ?case
  proof (cases "dropWhile is_continuation cs")
    case Nil
    then show ?thesis using t by (simp del: dropWhile_eq_Nil_conv)
  next
    case (Cons y ys)
    then have "\<not> is_continuation y" by (rule hd_dropWhile_not)
    with 2 t Cons show ?thesis by simp
  qed
qed simp

lemma wf_chars_Cons_hd: "wf_chars (x # xs) \<Longrightarrow> concat xs = [] \<or> \<not> is_continuation (hd (concat xs))"
  by (cases xs) (simp_all add: hd_append)

lemma while_stops:
  assumes "ys = [] \<or> \<not> P (hd ys)"
  shows "takeWhile P ys = []" "dropWhile P ys = ys"
  using assms by (cases ys; simp)+

lemma str_chars_concat: "wf_chars xs \<Longrightarrow> str_chars (concat xs) = xs"
proof (induction xs)
  case (Cons x xs)
  then have IH: "str_chars (concat xs) = xs" by (simp only: wf_chars.simps)
  obtain c r where x: "x = c # r"
    using Cons.prems by (cases x) simp_all
  have r: "\<And>d. d \<in> set r \<Longrightarrow> is_continuation d"
    using Cons.prems x by (simp add: list_all_iff)
  have "concat xs = [] \<or> \<not> is_continuation (hd (concat xs))"
    using Cons.prems by (rule wf_chars_Cons_hd)
  then have t: "takeWhile is_continuation (concat xs) = []"
    and d: "dropWhile is_continuation (concat xs) = concat xs"
    by (rule while_stops)+
  have "takeWhile is_continuation (r @ concat xs) = r @ takeWhile is_continuation (concat xs)"
    by (rule takeWhile_append2) (rule r)
  moreover have "dropWhile is_continuation (r @ concat xs) = dropWhile is_continuation (concat xs)"
    by (rule dropWhile_append2) (rule r)
  ultimately show ?case
    unfolding x by (simp add: t d IH del: takeWhile_append dropWhile_append)
qed simp

lemma wf_chars_append_iff:
  "wf_chars (xs @ ys) \<Longrightarrow> wf_chars xs \<and> wf_chars ys"
proof (induction xs)
  case (Cons x xs)
  then show ?case by (cases xs) simp_all
qed simp

lemma wf_chars_sub: "wf_chars (xs @ ys @ zs) \<Longrightarrow> wf_chars ys"
  by (blast dest: wf_chars_append_iff)

definition trim_list :: "('a \<Rightarrow> bool) \<Rightarrow> 'a list \<Rightarrow> 'a list" where
  "trim_list P xs = rev (dropWhile P (rev (dropWhile P xs)))"

lemma trim_list_sub: "\<exists>ys zs. xs = ys @ trim_list P xs @ zs"
proof -
  have "xs = takeWhile P xs @ dropWhile P xs" by simp
  moreover have "dropWhile P xs
      = rev (dropWhile P (rev (dropWhile P xs))) @ rev (takeWhile P (rev (dropWhile P xs)))"
    by (metis rev_append rev_rev_ident takeWhile_dropWhile_id)
  ultimately show ?thesis
    unfolding trim_list_def by metis
qed

lemma trim_list_id:
  assumes "xs = [] \<or> (\<not> P (hd xs) \<and> \<not> P (last xs))"
  shows "trim_list P xs = xs"
proof (cases "xs = []")
  case False
  have keep: "dropWhile P ys = ys" if "ys \<noteq> []" "\<not> P (hd ys)" for ys
    using that by (cases ys) simp_all
  show ?thesis
    using False assms by (simp add: trim_list_def keep hd_rev)
qed (simp add: trim_list_def)

lemma last_dropWhile_eq: "dropWhile P xs \<noteq> [] \<Longrightarrow> last (dropWhile P xs) = last xs"
  by (metis last_appendR takeWhile_dropWhile_id)

lemma trim_list_ends: "trim_list P xs = [] \<or> (\<not> P (hd (trim_list P xs)) \<and> \<not> P (last (trim_list P xs)))"
proof (cases "trim_list P xs = []")
  case False
  define zs where "zs = dropWhile P (rev (dropWhile P xs))"
  have t: "trim_list P xs = rev zs" and ne: "zs \<noteq> []"
    using False by (simp_all add: trim_list_def zs_def)
  have yne: "dropWhile P xs \<noteq> []"
    using ne unfolding zs_def by (metis dropWhile.simps(1) rev.simps(1))
  have "\<not> P (last (trim_list P xs))"
    using ne hd_dropWhile [of P "rev (dropWhile P xs)"] by (simp add: t last_rev zs_def)
  moreover have "last zs = hd (dropWhile P xs)"
    using ne last_dropWhile_eq [of P "rev (dropWhile P xs)"] by (simp add: zs_def last_rev)
  ultimately show ?thesis
    using ne hd_dropWhile [OF yne] by (simp add: t hd_rev)
qed simp

lemma trim_list_idem [simp]: "trim_list P (trim_list P xs) = trim_list P xs"
  by (rule trim_list_id) (rule trim_list_ends)

lemma str_trim_alt: "str_trim s = concat (trim_list is_whitespace (str_chars s))"
  by (simp add: str_trim_def trim_list_def)

lemma str_chars_trim: "str_chars (str_trim s) = trim_list is_whitespace (str_chars s)"
proof -
  obtain ys zs where "str_chars s = ys @ trim_list is_whitespace (str_chars s) @ zs"
    using trim_list_sub by metis
  then have "wf_chars (trim_list is_whitespace (str_chars s))"
    by (metis wf_chars_str_chars wf_chars_sub)
  then show ?thesis
    by (simp add: str_trim_alt str_chars_concat)
qed

lemma str_trim_idem [simp, str_simps]: "str_trim (str_trim s) = str_trim s"
  by (simp add: str_trim_alt [of "str_trim s"] str_chars_trim) (simp add: str_trim_alt)

definition plain_char :: "char \<Rightarrow> bool" where
  "plain_char c \<longleftrightarrow> byte c < 128 \<and> \<not> is_ascii_whitespace c"

lemma str_trim_plain_ends:
  assumes "ascii s" "s = [] \<or> plain_char (hd s) \<and> plain_char (last s)"
  shows "str_trim s = s"
proof -
  have "str_trim s = trim_list is_ascii_whitespace s"
    using assms(1) by (simp add: str_trim_ascii trim_list_def)
  then show ?thesis
    using assms(2) by (auto simp: plain_char_def intro!: trim_list_id)
qed

lemma str_trim_plain: "list_all plain_char s \<Longrightarrow> str_trim s = s"
  by (rule str_trim_plain_ends) (auto simp: list_all_iff ascii_def plain_char_def)

text \<open>Lowercasing commutes with decoding and trimming.\<close>

lemma is_continuation_lower [simp]: "is_continuation (to_lower_char c) = is_continuation c"
  by (auto simp: is_continuation_def byte_to_lower_char ascii_defs)

lemma str_chars_lower: "str_chars (to_ascii_lowercase s) = map to_ascii_lowercase (str_chars s)"
proof (induction s rule: str_chars.induct)
  case (2 c cs)
  have "takeWhile is_continuation (map to_lower_char cs) = map to_lower_char (takeWhile is_continuation cs)"
    "dropWhile is_continuation (map to_lower_char cs) = map to_lower_char (dropWhile is_continuation cs)"
    by (simp_all add: takeWhile_map dropWhile_map comp_def)
  with 2 show ?case by (simp add: to_ascii_lowercase_def)
qed (simp add: to_ascii_lowercase_def)

lemma whitespace_no_letters: "ch \<in> set whitespace_chars \<Longrightarrow> c \<in> set ch \<Longrightarrow> \<not> is_ascii_alphabetic c"
  by (auto simp: whitespace_chars_def bytes_of_def ascii_defs byte_def)

lemma is_whitespace_lower [simp]: "is_whitespace (to_ascii_lowercase ch) = is_whitespace ch"
proof -
  have id: "to_ascii_lowercase ch = ch" if "\<And>c. c \<in> set ch \<Longrightarrow> \<not> is_ascii_uppercase c"
    using that by (rule to_ascii_lowercase_id)
  show ?thesis
  proof
    assume w: "is_whitespace (to_ascii_lowercase ch)"
    have "\<not> is_ascii_uppercase c" if c: "c \<in> set ch" for c
    proof
      assume u: "is_ascii_uppercase c"
      have "to_lower_char c \<in> set (to_ascii_lowercase ch)"
        using c by (simp add: to_ascii_lowercase_def)
      then have "\<not> is_ascii_alphabetic (to_lower_char c)"
        using w whitespace_no_letters by (auto simp: is_whitespace_def)
      then show False
        using u by (simp add: ascii_defs byte_to_lower_char)
    qed
    with w id show "is_whitespace ch" by simp
  next
    assume w: "is_whitespace ch"
    then have "\<not> is_ascii_uppercase c" if "c \<in> set ch" for c
      using that whitespace_no_letters by (auto simp: is_whitespace_def is_ascii_alphabetic_def)
    with w id show "is_whitespace (to_ascii_lowercase ch)" by simp
  qed
qed

lemma concat_map_lower: "concat (map to_ascii_lowercase xs) = to_ascii_lowercase (concat xs)"
  by (induction xs) (simp_all add: to_ascii_lowercase_def)

lemma trim_list_map: "(\<And>x. P (f x) = P x) \<Longrightarrow> trim_list P (map f xs) = map f (trim_list P xs)"
  by (simp add: trim_list_def dropWhile_map comp_def rev_map)

lemma str_trim_lower: "str_trim (to_ascii_lowercase s) = to_ascii_lowercase (str_trim s)"
  by (simp add: str_trim_alt str_chars_lower trim_list_map concat_map_lower)

text \<open>A cut in front of a byte that starts a character cuts between characters.\<close>

lemma take_char_prefix:
  assumes "i = 0 \<or> i = length s \<or> (i < length s \<and> \<not> is_continuation (s ! i))"
  shows "\<exists>k. take i s = concat (take k (str_chars s))"
  using assms
proof (induction s arbitrary: i rule: str_chars.induct)
  case 1
  show ?case by simp
next
  case (2 c cs)
  define t where "t = takeWhile is_continuation cs"
  define d where "d = dropWhile is_continuation cs"
  have cs: "cs = t @ d" by (simp add: t_def d_def)
  have tc: "\<And>x. x \<in> set t \<Longrightarrow> is_continuation x"
    unfolding t_def by (rule set_takeWhileD [THEN conjunct2])
  show ?case
  proof (cases "i \<le> length t")
    case True
    have "i = 0 \<or> (i = length (c # cs)) "
    proof (rule ccontr)
      assume n: "\<not> (i = 0 \<or> i = length (c # cs))"
      with 2 have "\<not> is_continuation ((c # cs) ! i)" by blast
      moreover have "(c # cs) ! i = t ! (i - 1)" "i - 1 < length t"
        using n True by (auto simp: cs nth_Cons' nth_append)
      ultimately show False using tc by simp
    qed
    then show ?thesis
    proof
      assume "i = 0"
      then show ?thesis by (intro exI [of _ 0]) simp
    next
      assume "i = length (c # cs)"
      then show ?thesis by (intro exI [of _ "length (str_chars (c # cs))"]) (simp del: str_chars.simps)
    qed
  next
    case False
    define j where "j = i - Suc (length t)"
    have i: "i = Suc (length t) + j" using False by (simp add: j_def)
    have "j = 0 \<or> j = length d \<or> (j < length d \<and> \<not> is_continuation (d ! j))"
      using 2(2) by (auto simp: i cs nth_append)
    then obtain k where k: "take j d = concat (take k (str_chars d))"
      using 2(1) [of j] by (auto simp: d_def)
    have "take i (c # cs) = (c # t) @ take j d"
      by (simp add: i cs)
    then show ?thesis
      using k by (intro exI [of _ "Suc k"]) (simp add: t_def d_def)
  qed
qed

end
