(* ===== verification/Errors.thy ===== *)
theory Errors
  imports Prelude
begin

text \<open>
  The stable error taxonomy of \<open>unihelm-core/src/error.rs\<close>: the codes, their numbers,
  slugs and HTTP statuses, the generated documentation table and the panel's error value.
  The lemmas show that the wire forms identify a code and that the table is complete.
\<close>

datatype error_code =
    Internal | NotImplemented | ServiceUnavailable | RateLimited | InvalidCredentials |
    SessionExpired | SessionInvalid | TotpRequired | TotpInvalid | AccountSuspended |
    AccountLocked | CsrfInvalid | InvalidInput | InvalidDomain | InvalidDbName |
    InvalidUsername | InvalidPath | InvalidPhpVersion | InvalidPort | PasswordTooWeak |
    PermissionDenied | TenantScopeViolation | QuotaExceeded | PlanFeatureDisabled |
    ResellerAllocationExceeded | NotFound | AlreadyExists | DomainAlreadyExists |
    Conflict | DependentsExist | AgentUnavailable | AgentProtocol | AgentTimeout |
    PeerCredentialRejected | UnknownOperation | UnsupportedDistro | PackageBackendFailed |
    ServiceActionFailed | CommandFailed | TaskNotFound | TaskNotCancellable | TaskFailed |
    ConfigDrift | ConfigValidationFailed | ConfigRollback

text \<open>\<open>ErrorCode::number\<close>, \<open>slug\<close> and \<open>http_status\<close>.\<close>

fun number :: "error_code \<Rightarrow> nat" where
  "number Internal = 1000"
| "number NotImplemented = 1001"
| "number ServiceUnavailable = 1002"
| "number RateLimited = 1003"
| "number InvalidCredentials = 1100"
| "number SessionExpired = 1101"
| "number SessionInvalid = 1102"
| "number TotpRequired = 1103"
| "number TotpInvalid = 1104"
| "number AccountSuspended = 1105"
| "number AccountLocked = 1106"
| "number CsrfInvalid = 1107"
| "number InvalidInput = 1200"
| "number InvalidDomain = 1201"
| "number InvalidDbName = 1202"
| "number InvalidUsername = 1203"
| "number InvalidPath = 1204"
| "number InvalidPhpVersion = 1205"
| "number InvalidPort = 1206"
| "number PasswordTooWeak = 1207"
| "number PermissionDenied = 1300"
| "number TenantScopeViolation = 1301"
| "number QuotaExceeded = 1302"
| "number PlanFeatureDisabled = 1303"
| "number ResellerAllocationExceeded = 1304"
| "number NotFound = 1400"
| "number AlreadyExists = 1401"
| "number DomainAlreadyExists = 1402"
| "number Conflict = 1403"
| "number DependentsExist = 1404"
| "number AgentUnavailable = 1500"
| "number AgentProtocol = 1501"
| "number AgentTimeout = 1502"
| "number PeerCredentialRejected = 1503"
| "number UnknownOperation = 1504"
| "number UnsupportedDistro = 1600"
| "number PackageBackendFailed = 1601"
| "number ServiceActionFailed = 1602"
| "number CommandFailed = 1603"
| "number TaskNotFound = 1700"
| "number TaskNotCancellable = 1701"
| "number TaskFailed = 1702"
| "number ConfigDrift = 1800"
| "number ConfigValidationFailed = 1801"
| "number ConfigRollback = 1802"

fun slug :: "error_code \<Rightarrow> str" where
  "slug Internal = ''internal''"
| "slug NotImplemented = ''not_implemented''"
| "slug ServiceUnavailable = ''service_unavailable''"
| "slug RateLimited = ''rate_limited''"
| "slug InvalidCredentials = ''invalid_credentials''"
| "slug SessionExpired = ''session_expired''"
| "slug SessionInvalid = ''session_invalid''"
| "slug TotpRequired = ''totp_required''"
| "slug TotpInvalid = ''totp_invalid''"
| "slug AccountSuspended = ''account_suspended''"
| "slug AccountLocked = ''account_locked''"
| "slug CsrfInvalid = ''csrf_invalid''"
| "slug InvalidInput = ''invalid_input''"
| "slug InvalidDomain = ''invalid_domain''"
| "slug InvalidDbName = ''invalid_db_name''"
| "slug InvalidUsername = ''invalid_username''"
| "slug InvalidPath = ''invalid_path''"
| "slug InvalidPhpVersion = ''invalid_php_version''"
| "slug InvalidPort = ''invalid_port''"
| "slug PasswordTooWeak = ''password_too_weak''"
| "slug PermissionDenied = ''permission_denied''"
| "slug TenantScopeViolation = ''tenant_scope_violation''"
| "slug QuotaExceeded = ''quota_exceeded''"
| "slug PlanFeatureDisabled = ''plan_feature_disabled''"
| "slug ResellerAllocationExceeded = ''reseller_allocation_exceeded''"
| "slug NotFound = ''not_found''"
| "slug AlreadyExists = ''already_exists''"
| "slug DomainAlreadyExists = ''domain_already_exists''"
| "slug Conflict = ''conflict''"
| "slug DependentsExist = ''dependents_exist''"
| "slug AgentUnavailable = ''agent_unavailable''"
| "slug AgentProtocol = ''agent_protocol''"
| "slug AgentTimeout = ''agent_timeout''"
| "slug PeerCredentialRejected = ''peer_credential_rejected''"
| "slug UnknownOperation = ''unknown_operation''"
| "slug UnsupportedDistro = ''unsupported_distro''"
| "slug PackageBackendFailed = ''package_backend_failed''"
| "slug ServiceActionFailed = ''service_action_failed''"
| "slug CommandFailed = ''command_failed''"
| "slug TaskNotFound = ''task_not_found''"
| "slug TaskNotCancellable = ''task_not_cancellable''"
| "slug TaskFailed = ''task_failed''"
| "slug ConfigDrift = ''config_drift''"
| "slug ConfigValidationFailed = ''config_validation_failed''"
| "slug ConfigRollback = ''config_rollback''"

fun http_status :: "error_code \<Rightarrow> nat" where
  "http_status Internal = 500"
| "http_status CommandFailed = 500"
| "http_status PackageBackendFailed = 500"
| "http_status ServiceActionFailed = 500"
| "http_status ConfigRollback = 500"
| "http_status TaskFailed = 500"
| "http_status NotImplemented = 501"
| "http_status ServiceUnavailable = 503"
| "http_status AgentUnavailable = 503"
| "http_status AgentTimeout = 504"
| "http_status RateLimited = 429"
| "http_status InvalidCredentials = 401"
| "http_status SessionExpired = 401"
| "http_status SessionInvalid = 401"
| "http_status TotpRequired = 401"
| "http_status TotpInvalid = 401"
| "http_status AccountSuspended = 403"
| "http_status AccountLocked = 403"
| "http_status CsrfInvalid = 403"
| "http_status PermissionDenied = 403"
| "http_status TenantScopeViolation = 403"
| "http_status PlanFeatureDisabled = 403"
| "http_status PeerCredentialRejected = 403"
| "http_status QuotaExceeded = 402"
| "http_status ResellerAllocationExceeded = 402"
| "http_status NotFound = 404"
| "http_status TaskNotFound = 404"
| "http_status UnknownOperation = 404"
| "http_status AlreadyExists = 409"
| "http_status DomainAlreadyExists = 409"
| "http_status Conflict = 409"
| "http_status DependentsExist = 409"
| "http_status ConfigDrift = 409"
| "http_status TaskNotCancellable = 409"
| "http_status InvalidInput = 400"
| "http_status InvalidDomain = 400"
| "http_status InvalidDbName = 400"
| "http_status InvalidUsername = 400"
| "http_status InvalidPath = 400"
| "http_status InvalidPhpVersion = 400"
| "http_status InvalidPort = 400"
| "http_status PasswordTooWeak = 400"
| "http_status AgentProtocol = 400"
| "http_status UnsupportedDistro = 400"
| "http_status ConfigValidationFailed = 400"

definition code :: "error_code \<Rightarrow> str" where
  "code c = ''UNI-'' @ show_nat (number c)"

text \<open>\<open>ErrorCode::ALL\<close>, in the order of the constant.\<close>

definition all_codes :: "error_code list" where
  "all_codes =
    [Internal, NotImplemented, ServiceUnavailable, RateLimited, InvalidCredentials,
     SessionExpired, SessionInvalid, TotpRequired, TotpInvalid, AccountSuspended,
     AccountLocked, CsrfInvalid, InvalidInput, InvalidDomain, InvalidDbName,
     InvalidUsername, InvalidPath, InvalidPhpVersion, InvalidPort, PasswordTooWeak,
     PermissionDenied, TenantScopeViolation, QuotaExceeded, PlanFeatureDisabled,
     ResellerAllocationExceeded, NotFound, AlreadyExists, DomainAlreadyExists, Conflict,
     DependentsExist, AgentUnavailable, AgentProtocol, AgentTimeout,
     PeerCredentialRejected, UnknownOperation, UnsupportedDistro, PackageBackendFailed,
     ServiceActionFailed, CommandFailed, TaskNotFound, TaskNotCancellable, TaskFailed,
     ConfigDrift, ConfigValidationFailed, ConfigRollback]"

lemma set_all_codes: "set all_codes = UNIV"
proof -
  have "c \<in> set all_codes" for c
    by (cases c) (simp_all add: all_codes_def)
  then show ?thesis by auto
qed

lemma distinct_numbers: "distinct (map number all_codes)"
  by (simp add: all_codes_def)

lemma distinct_slugs: "distinct (map slug all_codes)"
  by (simp add: all_codes_def)

lemma inj_number: "inj number"
  using distinct_numbers by (simp add: distinct_map set_all_codes)

lemma inj_slug: "inj slug"
  using distinct_slugs by (simp add: distinct_map set_all_codes)

lemma inj_code: "inj code"
  using inj_number by (auto simp: inj_def code_def)

section \<open>The documentation table\<close>

definition area_of :: "nat \<Rightarrow> str" where
  "area_of n =
     (if 1000 \<le> n \<and> n \<le> 1099 then ''generic''
      else if 1100 \<le> n \<and> n \<le> 1199 then ''authentication''
      else if 1200 \<le> n \<and> n \<le> 1299 then ''validation''
      else if 1300 \<le> n \<and> n \<le> 1399 then ''authorization''
      else if 1400 \<le> n \<and> n \<le> 1499 then ''resource state''
      else if 1500 \<le> n \<and> n \<le> 1599 then ''agent IPC''
      else if 1600 \<le> n \<and> n \<le> 1699 then ''system''
      else if 1700 \<le> n \<and> n \<le> 1799 then ''tasks''
      else if 1800 \<le> n \<and> n \<le> 1899 then ''config management''
      else ''unassigned'')"

abbreviation nl :: str where
  "nl \<equiv> ''\<newline>''"

abbreviation backtick :: str where
  "backtick \<equiv> ''`''"

definition docs_head :: str where
  "docs_head =
     ''# Error codes'' @ nl @ nl
     @ ''Every error the API returns carries a stable code and slug. Clients should ''
     @ ''branch on the **slug**; the message is free to change with translations.'' @ nl @ nl
     @ ''This file is generated from `unihelm_core::error::ErrorCode`. ''
     @ ''Regenerate it with:'' @ nl @ nl
     @ ''```'' @ nl
     @ ''cargo run -p unihelm-core --bin gen-error-docs > docs/api/errors.md'' @ nl
     @ ''```'' @ nl @ nl
     @ ''| Code | Slug | HTTP | Area |'' @ nl
     @ ''|------|------|------|------|'' @ nl"

definition docs_row :: "error_code \<Rightarrow> str" where
  "docs_row c =
     ''| `'' @ code c @ ''` | `'' @ slug c @ ''` | '' @ show_nat (http_status c)
     @ '' | '' @ area_of (number c) @ '' |'' @ nl"

definition docs_table :: str where
  "docs_table = docs_head @ concat (map docs_row (sort_key number all_codes))"

lemma sort_all_codes: "sort_key number all_codes = all_codes"
  by (rule sort_key_id_if_sorted) (simp add: all_codes_def)

text \<open>
  The error taxonomy is a set of stable identifiers. Every variant is listed exactly once
  in \<open>ALL\<close>, no two variants share a wire code or a slug, every number lies in a documented
  area, and every HTTP status is a client or server error no larger than 504.
\<close>

theorem taxonomy_is_stable:
  "set all_codes = UNIV \<and> distinct all_codes \<and> inj code \<and> inj slug
   \<and> (\<forall>c. area_of (number c) \<noteq> ''unassigned'')
   \<and> (\<forall>c. 400 \<le> http_status c \<and> http_status c \<le> 504)"
proof (intro conjI)
  show "distinct all_codes"
    using distinct_numbers by (simp add: distinct_map)
  show "\<forall>c. area_of (number c) \<noteq> ''unassigned''"
  proof
    fix c
    show "area_of (number c) \<noteq> ''unassigned''"
      by (cases c) (simp_all add: area_of_def)
  qed
  show "\<forall>c. 400 \<le> http_status c \<and> http_status c \<le> 504"
  proof
    fix c
    show "400 \<le> http_status c \<and> http_status c \<le> 504"
      by (cases c) simp_all
  qed
qed (rule set_all_codes inj_code inj_slug)+

section \<open>The error value\<close>

record uni_error =
  err_code :: error_code
  detail :: str
  field :: "str option"

definition new_error :: "error_code \<Rightarrow> str \<Rightarrow> uni_error" where
  "new_error c d = \<lparr>err_code = c, detail = d, field = None\<rparr>"

definition with_field :: "uni_error \<Rightarrow> str \<Rightarrow> uni_error" where
  "with_field e f = e\<lparr>field := Some f\<rparr>"

definition internal_error :: "str \<Rightarrow> uni_error" where
  "internal_error d = new_error Internal d"

definition not_found_error :: "str \<Rightarrow> uni_error" where
  "not_found_error what = new_error NotFound (what @ '' not found'')"

definition denied_error :: "str \<Rightarrow> uni_error" where
  "denied_error d = new_error PermissionDenied d"

definition invalid_error :: "str \<Rightarrow> uni_error" where
  "invalid_error d = new_error InvalidInput d"

definition error_status :: "uni_error \<Rightarrow> nat" where
  "error_status e = http_status (err_code e)"

definition display_error :: "uni_error \<Rightarrow> str" where
  "display_error e = ''['' @ code (err_code e) @ ''] '' @ detail e"

definition display_code :: "error_code \<Rightarrow> str" where
  "display_code c = ''UNI-'' @ show_nat (number c) @ '' '' @ slug c"

type_synonym 'a res = "uni_error + 'a"

lemma error_fields [simp]:
  "err_code (new_error c d) = c" "detail (new_error c d) = d" "field (new_error c d) = None"
  "err_code (with_field e f) = err_code e" "detail (with_field e f) = detail e"
  "field (with_field e f) = Some f"
  by (simp_all add: new_error_def with_field_def)

end
