(* ===== verification/Newtypes.thy ===== *)
theory Newtypes
  imports Errors
begin

text \<open>
  The validated input types of \<open>unihelm-core/src/newtypes.rs\<close>. Every type is a
  datatype around its string, built by a \<open>parse\<close> function whose checks stand in the
  source's order with the source's error values. \<open>TryFrom\<close>, \<open>FromStr\<close> and
  the serde form of a type are its \<open>parse\<close>; \<open>Display\<close> and \<open>Into<String>\<close> are its
  \<open>as_str\<close>. The locale \<open>string_newtype\<close> states the contract the rest of the panel
  relies on (a value read back from its own text is the same value) and is interpreted on every
  type; \<open>safe_newtype\<close> adds an alphabet and is what quoting-free rendering rests on.
\<close>

section \<open>The contract of a validated string\<close>

locale string_newtype =
  fixes parse :: "str \<Rightarrow> 'v res"
    and as_str :: "'v \<Rightarrow> str"
  assumes reparse: "parse s = Inr v \<Longrightarrow> parse (as_str v) = Inr v"
begin

lemma value_determined:
  assumes "parse s = Inr v" "parse t = Inr w" "as_str v = as_str w"
  shows "v = w"
  using reparse [OF assms(1)] reparse [OF assms(2)] assms(3) by (metis sum.inject(2))

lemma normalise_idem:
  assumes "parse s = Inr v"
  shows "parse (as_str v) = parse s"
  using reparse [OF assms] assms by simp

lemma deserialize_list:
  assumes "list_all (\<lambda>v. \<exists>s. parse s = Inr v) vs"
  shows "collect_results (map (\<lambda>v. parse (as_str v)) vs) = Inr vs"
  using assms by (induction vs) (auto simp: dest: reparse)

end

locale safe_newtype = string_newtype parse as_str
  for parse :: "str \<Rightarrow> 'v res" and as_str :: "'v \<Rightarrow> str" +
  fixes safe :: "char \<Rightarrow> bool"
  assumes alphabet: "parse s = Inr v \<Longrightarrow> as_str v \<noteq> [] \<and> list_all safe (as_str v)"
begin

lemma never_contains:
  assumes "parse s = Inr v" "\<not> safe c"
  shows "c \<notin> set (as_str v)"
  using alphabet [OF assms(1)] assms(2) by (auto simp: list_all_iff)

lemma starts_safe:
  assumes "parse s = Inr v"
  shows "safe (hd (as_str v))"
  using alphabet [OF assms] by (cases "as_str v") auto

lemma join_split:
  assumes "vs \<noteq> []" "list_all (\<lambda>v. \<exists>s. parse s = Inr v) vs" "\<not> safe sep"
  shows "str_split sep (str_join [sep] (map as_str vs)) = map as_str vs"
  using assms never_contains by (intro str_split_join) (auto simp: list_all_iff)

end

text \<open>An enumeration with a text form: every value parses back.\<close>

locale string_enum = string_newtype parse as_str
  for parse :: "str \<Rightarrow> 'v res" and as_str :: "'v \<Rightarrow> str" +
  assumes parse_as_str: "parse (as_str v) = Inr v"
begin

lemma as_str_eq_iff: "as_str v = as_str w \<longleftrightarrow> v = w"
  using parse_as_str by (metis sum.inject(2))

lemma read_written: "map (\<lambda>v. parse (as_str v)) vs = map Inr vs"
  by (simp add: parse_as_str)

end

section \<open>Domain\<close>

definition reserved_system_users :: "str list" where
  "reserved_system_users =
     [''root'', ''daemon'', ''bin'', ''sys'', ''sync'', ''games'', ''man'', ''lp'', ''mail'',
      ''news'', ''uucp'', ''proxy'', ''www-data'', ''backup'', ''list'', ''irc'', ''nobody'',
      ''systemd-network'', ''systemd-resolve'', ''messagebus'', ''sshd'', ''nginx'', ''apache'',
      ''httpd'', ''mysql'', ''mariadb'', ''postgres'', ''redis'', ''valkey'', ''docker'',
      ''unihelm'', ''unihelm-web'', ''unihelm-agent'', ''adm'', ''operator'', ''ftp'', ''dbus'',
      ''polkitd'', ''chrony'']"

definition reserved_db_names :: "str list" where
  "reserved_db_names =
     [''information_schema'', ''mysql'', ''performance_schema'', ''sys'', ''postgres'',
      ''template0'', ''template1'']"

datatype domain = Domain (domain_as_str: str)

definition check_label :: "str \<Rightarrow> unit res" where
  "check_label label =
     (if label = [] then Inl (new_error InvalidDomain ''domain has an empty label'')
      else if length label > 63 then
        Inl (new_error InvalidDomain ''domain label exceeds 63 characters'')
      else if starts_with ''-'' label \<or> ends_with ''-'' label then
        Inl (new_error InvalidDomain ''domain label may not start or end with a hyphen'')
      else if \<not> list_all (\<lambda>b. is_ascii_alphanumeric b \<or> b = CHR ''-'') label then
        Inl (new_error InvalidDomain
          ''domain may only contain a-z, 0-9 and hyphen (punycode IDNs first)'')
      else Inr ())"

fun check_labels :: "str list \<Rightarrow> unit res" where
  "check_labels [] = Inr ()"
| "check_labels (l # ls) = r_bind (check_label l) (\<lambda>_. check_labels ls)"

definition domain_normalise :: "str \<Rightarrow> str" where
  "domain_normalise input = to_ascii_lowercase (str_trim_end_matches CHR ''.'' (str_trim input))"

definition domain_parse :: "str \<Rightarrow> domain res" where
  "domain_parse input =
     (let s = domain_normalise input in
      if s = [] then Inl (new_error InvalidDomain ''domain is empty'')
      else if length s > 253 then
        Inl (new_error InvalidDomain ''domain exceeds 253 characters'')
      else
        (let labels = str_split CHR ''.'' s in
         if length labels < 2 then
           Inl (new_error InvalidDomain
             ''domain must contain at least one dot (e.g. example.com)'')
         else r_bind (check_labels labels) (\<lambda>_.
           let tld = labels ! (length labels - 1) in
           if list_all is_ascii_digit tld then
             Inl (new_error InvalidDomain ''expected a domain name, not an IP address'')
           else Inr (Domain s))))"

definition domain_parse_wildcard :: "str \<Rightarrow> (str \<times> domain) res" where
  "domain_parse_wildcard input =
     (case strip_prefix ''*.'' (str_trim input) of
        Some base \<Rightarrow>
          r_bind (domain_parse base) (\<lambda>b. Inr (''*.'' @ domain_as_str b, b))
      | None \<Rightarrow>
          Inl (new_error InvalidDomain ''expected a wildcard of the form *.example.com''))"

definition with_www :: "domain \<Rightarrow> domain res" where
  "with_www d = domain_parse (''www.'' @ domain_as_str d)"

text \<open>What a host name is: dot-separated labels of the DNS alphabet, the last not a number.\<close>

definition ldh :: "char \<Rightarrow> bool" where
  "ldh c \<longleftrightarrow> is_ascii_lowercase c \<or> is_ascii_digit c \<or> c = CHR ''-''"

definition valid_label :: "str \<Rightarrow> bool" where
  "valid_label l \<longleftrightarrow> l \<noteq> [] \<and> length l \<le> 63 \<and> hd l \<noteq> CHR ''-'' \<and> last l \<noteq> CHR ''-''
     \<and> list_all ldh l"

definition valid_hostname :: "str \<Rightarrow> bool" where
  "valid_hostname s \<longleftrightarrow> length s \<le> 253
     \<and> (\<exists>labels. s = str_join ''.'' labels \<and> 2 \<le> length labels \<and> list_all valid_label labels
          \<and> \<not> list_all is_ascii_digit (last labels))"

lemma starts_with_single: "starts_with [c] l \<longleftrightarrow> l \<noteq> [] \<and> hd l = c"
  by (cases l) (auto simp: starts_with_def)

lemma ends_with_single: "ends_with [c] l \<longleftrightarrow> l \<noteq> [] \<and> last l = c"
  by (cases l rule: rev_cases) (auto simp: ends_with_def)

lemma check_label_ok:
  "check_label l = Inr () \<longleftrightarrow>
     l \<noteq> [] \<and> length l \<le> 63 \<and> hd l \<noteq> CHR ''-'' \<and> last l \<noteq> CHR ''-''
     \<and> list_all (\<lambda>b. is_ascii_alphanumeric b \<or> b = CHR ''-'') l"
  by (auto simp: check_label_def starts_with_single ends_with_single)

lemma check_labels_ok: "check_labels ls = Inr () \<longleftrightarrow> (\<forall>l \<in> set ls. check_label l = Inr ())"
  by (induction ls) (auto simp: result_simps)

lemma lower_not_upper: "c \<in> set (to_ascii_lowercase s) \<Longrightarrow> \<not> is_ascii_uppercase c"
  by (auto simp: to_ascii_lowercase_def)

lemma check_label_lower:
  assumes "\<And>c. c \<in> set l \<Longrightarrow> \<not> is_ascii_uppercase c"
  shows "check_label l = Inr () \<longleftrightarrow> valid_label l"
  using assms
  by (auto simp: check_label_ok valid_label_def list_all_iff ldh_def is_ascii_alphanumeric_def
      is_ascii_alphabetic_def)

lemma dot_not_ldh: "\<not> ldh CHR ''.''"
  by (simp add: ldh_def ascii_defs byte_def)

lemma valid_label_no_dot: "valid_label l \<Longrightarrow> CHR ''.'' \<notin> set l"
  using dot_not_ldh by (auto simp: valid_label_def list_all_iff)

lemma split_valid_hostname:
  "valid_hostname s \<longleftrightarrow> length s \<le> 253 \<and> 2 \<le> length (str_split CHR ''.'' s)
     \<and> list_all valid_label (str_split CHR ''.'' s)
     \<and> \<not> list_all is_ascii_digit (last (str_split CHR ''.'' s))"
proof
  assume v: "valid_hostname s"
  then obtain ls where ls: "s = str_join ''.'' ls" "2 \<le> length ls" "list_all valid_label ls"
    "\<not> list_all is_ascii_digit (last ls)" "length s \<le> 253"
    by (auto simp: valid_hostname_def)
  have "str_split CHR ''.'' (str_join [CHR ''.''] ls) = ls"
    using ls(2,3) valid_label_no_dot by (intro str_split_join) (auto simp: list_all_iff)
  with ls show "length s \<le> 253 \<and> 2 \<le> length (str_split CHR ''.'' s)
     \<and> list_all valid_label (str_split CHR ''.'' s)
     \<and> \<not> list_all is_ascii_digit (last (str_split CHR ''.'' s))"
    by simp
next
  assume a: "length s \<le> 253 \<and> 2 \<le> length (str_split CHR ''.'' s)
     \<and> list_all valid_label (str_split CHR ''.'' s)
     \<and> \<not> list_all is_ascii_digit (last (str_split CHR ''.'' s))"
  then show "valid_hostname s"
    unfolding valid_hostname_def
    by (intro conjI exI [of _ "str_split CHR ''.'' s"]) simp_all
qed

lemma domain_parse_iff:
  "domain_parse input = Inr d \<longleftrightarrow>
     d = Domain (domain_normalise input) \<and> valid_hostname (domain_normalise input)"
proof -
  define s where "s = domain_normalise input"
  have up: "\<not> is_ascii_uppercase c" if "l \<in> set (str_split CHR ''.'' s)" "c \<in> set l" for l c
  proof -
    have "c \<in> set s"
      using that str_split_chars by fast
    then show ?thesis
      unfolding s_def domain_normalise_def by (rule lower_not_upper)
  qed
  have lab: "check_labels (str_split CHR ''.'' s) = Inr () \<longleftrightarrow> list_all valid_label (str_split CHR ''.'' s)"
    using up by (auto simp: check_labels_ok list_all_iff check_label_lower)
  have lst: "str_split CHR ''.'' s ! (length (str_split CHR ''.'' s) - 1) = last (str_split CHR ''.'' s)"
    by (simp add: last_conv_nth)
  have ne: "s \<noteq> []" if "2 \<le> length (str_split CHR ''.'' s)"
    using that by auto
  show ?thesis
    unfolding domain_parse_def Let_def s_def [symmetric] split_valid_hostname lst
    using lab ne by (auto simp: result_simps not_less)
qed

lemma valid_hostname_chars:
  assumes "valid_hostname s"
  shows "list_all (\<lambda>c. ldh c \<or> c = CHR ''.'') s"
proof -
  obtain ls where s: "s = str_join ''.'' ls" and ls: "list_all valid_label ls"
    using assms by (auto simp: valid_hostname_def)
  have "\<forall>c \<in> set l. ldh c" if "l \<in> set ls" for l
    using that ls by (auto simp: list_all_iff valid_label_def)
  then show ?thesis
    using set_str_join [of "''.''" ls] unfolding s list_all_iff by fastforce
qed

lemma valid_hostname_last:
  assumes "valid_hostname s"
  shows "s \<noteq> [] \<and> ldh (hd s) \<and> hd s \<noteq> CHR ''-'' \<and> ldh (last s)"
proof -
  obtain ls where s: "s = str_join ''.'' ls" and ls: "list_all valid_label ls" "2 \<le> length ls"
    using assms by (auto simp: valid_hostname_def)
  have "valid_label (hd ls)" "valid_label (last ls)" "ls \<noteq> []"
    using ls by (cases ls; auto simp: list_all_iff)+
  then have "last s = last (last ls)" "hd s = hd (hd ls)"
      "ldh (last (last ls))" "ldh (hd (hd ls))" "hd (hd ls) \<noteq> CHR ''-''"
    by (auto simp: s last_str_join hd_str_join valid_label_def list_all_iff)
  moreover have "s \<noteq> []"
    unfolding s using ls by (cases ls; cases "tl ls") auto
  ultimately show ?thesis by simp
qed

lemma ldh_dot_lower: "ldh c \<or> c = CHR ''.'' \<Longrightarrow> \<not> is_ascii_uppercase c"
  by (auto simp: ldh_def ascii_defs byte_def)

lemma ldh_plain: "ldh c \<or> c = CHR ''.'' \<Longrightarrow> plain_char c"
  by (auto simp: ldh_def plain_char_def ascii_defs is_ascii_whitespace_def byte_def)

lemma str_trim_end_matches_id: "s = [] \<or> last s \<noteq> c \<Longrightarrow> str_trim_end_matches c s = s"
  by (cases s rule: rev_cases) (auto simp: str_trim_end_matches_def)

lemma domain_normalise_valid:
  assumes v: "valid_hostname s"
  shows "domain_normalise s = s"
proof -
  have all: "\<And>c. c \<in> set s \<Longrightarrow> ldh c \<or> c = CHR ''.''"
    using valid_hostname_chars [OF v] by (simp add: list_all_iff)
  have "str_trim s = s"
    by (rule str_trim_plain) (use all ldh_plain in \<open>auto simp: list_all_iff\<close>)
  moreover have "str_trim_end_matches CHR ''.'' s = s"
    using valid_hostname_last [OF v] dot_not_ldh by (intro str_trim_end_matches_id) auto
  moreover have "to_ascii_lowercase s = s"
    using all ldh_dot_lower by (intro to_ascii_lowercase_id) auto
  ultimately show ?thesis by (simp add: domain_normalise_def)
qed

interpretation dom: safe_newtype domain_parse domain_as_str "\<lambda>c. ldh c \<or> c = CHR ''.''"
proof
  fix s d
  assume "domain_parse s = Inr d"
  then have d: "d = Domain (domain_normalise s)" and v: "valid_hostname (domain_normalise s)"
    by (simp_all add: domain_parse_iff)
  show "domain_parse (domain_as_str d) = Inr d"
    using domain_normalise_valid [OF v] v by (simp add: d domain_parse_iff)
  show "domain_as_str d \<noteq> [] \<and> list_all (\<lambda>c. ldh c \<or> c = CHR ''.'') (domain_as_str d)"
    using valid_hostname_chars [OF v] valid_hostname_last [OF v] by (simp add: d)
qed

section \<open>LinuxUser, Username and Email\<close>

datatype linux_user = LinuxUser (linux_user_as_str: str)

definition linux_user_parse :: "str \<Rightarrow> linux_user res" where
  "linux_user_parse input =
     (let s = str_trim input in
      if s = [] \<or> length s > 32 then
        Inl (new_error InvalidUsername ''linux user must be 1-32 characters'')
      else if \<not> (is_ascii_lowercase (hd s) \<or> hd s = CHR ''_'') then
        Inl (new_error InvalidUsername ''linux user must start with a lowercase letter or underscore'')
      else if \<not> list_all (\<lambda>b. is_ascii_lowercase b \<or> is_ascii_digit b \<or> b = CHR ''_'' \<or> b = CHR ''-'') (tl s) then
        Inl (new_error InvalidUsername ''linux user may only contain a-z, 0-9, underscore and hyphen'')
      else if s \<in> set reserved_system_users then
        Inl (new_error InvalidUsername (''`'' @ s @ ''` is a reserved system user''))
      else Inr (LinuxUser s))"

datatype username = Username (username_as_str: str)

definition username_parse :: "str \<Rightarrow> username res" where
  "username_parse input =
     (let s = to_ascii_lowercase (str_trim input) in
      if length s < 3 \<or> length s > 32 then
        Inl (new_error InvalidUsername ''username must be 3-32 characters'')
      else if \<not> is_ascii_alphanumeric (hd s) then
        Inl (new_error InvalidUsername ''username must start with a letter or digit'')
      else if \<not> list_all (\<lambda>b. is_ascii_lowercase b \<or> is_ascii_digit b \<or> b = CHR ''.''
                \<or> b = CHR ''_'' \<or> b = CHR ''-'') s then
        Inl (new_error InvalidUsername
          ''username may only contain a-z, 0-9, dot, underscore and hyphen'')
      else Inr (Username s))"

datatype email = Email (email_as_str: str)

definition email_error :: "str \<Rightarrow> uni_error" where
  "email_error d = with_field (new_error InvalidInput d) ''email''"

definition email_parse :: "str \<Rightarrow> email res" where
  "email_parse input =
     (let s = to_ascii_lowercase (str_trim input) in
      if length s < 3 \<or> length s > 254 then
        Inl (email_error ''email must be 3-254 characters'')
      else if list_ex (\<lambda>b. is_ascii_control b \<or> b = CHR '' '' \<or> b = CHR '','' \<or> b = CHR '';'') s then
        Inl (email_error ''email contains illegal characters'')
      else (case split_once CHR ''@'' s of
          None \<Rightarrow> Inl (email_error ''email must contain @'')
        | Some (loc, host) \<Rightarrow>
            if loc = [] \<or> length loc > 64 then
              Inl (email_error ''email local part must be 1-64 characters'')
            else
              r_bind (r_map_err (\<lambda>_. email_error ''email domain is not a valid domain name'')
                        (domain_parse host))
                (\<lambda>_. Inr (Email s))))"

definition user_char :: "char \<Rightarrow> bool" where
  "user_char c \<longleftrightarrow> is_ascii_lowercase c \<or> is_ascii_digit c \<or> c = CHR ''_'' \<or> c = CHR ''-''"

lemma linux_user_parse_iff:
  "linux_user_parse input = Inr u \<longleftrightarrow>
     (let s = str_trim input in
      u = LinuxUser s \<and> s \<noteq> [] \<and> length s \<le> 32 \<and> (is_ascii_lowercase (hd s) \<or> hd s = CHR ''_'')
      \<and> list_all user_char s \<and> s \<notin> set reserved_system_users)"
  by (cases "str_trim input")
    (auto simp: linux_user_parse_def Let_def user_char_def list_all_iff)

lemma username_parse_iff:
  "username_parse input = Inr u \<longleftrightarrow>
     (let s = to_ascii_lowercase (str_trim input) in
      u = Username s \<and> 3 \<le> length s \<and> length s \<le> 32 \<and> is_ascii_alphanumeric (hd s)
      \<and> list_all (\<lambda>b. user_char b \<or> b = CHR ''.'') s)"
  by (auto simp: username_parse_def Let_def user_char_def list_all_iff)

definition email_char_ok :: "char \<Rightarrow> bool" where
  "email_char_ok b \<longleftrightarrow> \<not> is_ascii_control b \<and> b \<noteq> CHR '' '' \<and> b \<noteq> CHR '','' \<and> b \<noteq> CHR '';''"

lemma email_parse_iff:
  "email_parse input = Inr e \<longleftrightarrow>
     (let s = to_ascii_lowercase (str_trim input) in
      e = Email s \<and> 3 \<le> length s \<and> length s \<le> 254 \<and> list_all email_char_ok s
      \<and> (\<exists>loc host. s = loc @ CHR ''@'' # host \<and> CHR ''@'' \<notin> set loc \<and> loc \<noteq> [] \<and> length loc \<le> 64
           \<and> valid_hostname (domain_normalise host)))"
proof -
  define s where "s = to_ascii_lowercase (str_trim input)"
  have bad: "list_ex (\<lambda>b. is_ascii_control b \<or> b = CHR '' '' \<or> b = CHR '','' \<or> b = CHR '';'') s
      \<longleftrightarrow> \<not> list_all email_char_ok s"
    by (auto simp: list_ex_iff list_all_iff email_char_ok_def)
  show ?thesis
  proof (cases "split_once CHR ''@'' s")
    case None
    then have "CHR ''@'' \<notin> set s" by (simp add: str_simps)
    then show ?thesis
      unfolding email_parse_def Let_def s_def [symmetric] bad None by auto
  next
    case (Some p)
    then obtain l d where p: "p = (l, d)" "s = l @ CHR ''@'' # d" "CHR ''@'' \<notin> set l"
      by (cases p) (auto simp: str_simps)
    have "s = loc @ CHR ''@'' # host \<and> CHR ''@'' \<notin> set loc \<longleftrightarrow> loc = l \<and> host = d" for loc host
      using split_once_Some [of "CHR ''@''" s loc host] Some p(1) by auto
    then have ex: "(\<exists>loc host. s = loc @ CHR ''@'' # host \<and> CHR ''@'' \<notin> set loc \<and> loc \<noteq> []
        \<and> length loc \<le> 64 \<and> valid_hostname (domain_normalise host))
      \<longleftrightarrow> l \<noteq> [] \<and> length l \<le> 64 \<and> valid_hostname (domain_normalise d)"
      by (metis (no_types, lifting))
    show ?thesis
      unfolding email_parse_def Let_def s_def [symmetric] bad ex Some p(1)
      by (auto simp: result_simps domain_parse_iff not_less)
  qed
qed

lemma user_char_lower: "user_char c \<or> c = CHR ''.'' \<Longrightarrow> \<not> is_ascii_uppercase c"
  by (auto simp: user_char_def ascii_defs byte_def)

lemma user_char_plain: "user_char c \<or> c = CHR ''.'' \<Longrightarrow> plain_char c"
  by (auto simp: user_char_def plain_char_def ascii_defs is_ascii_whitespace_def byte_def)

interpretation lu: safe_newtype linux_user_parse linux_user_as_str user_char
  by unfold_locales (auto simp: linux_user_parse_iff Let_def)

interpretation un: safe_newtype username_parse username_as_str "\<lambda>c. user_char c \<or> c = CHR ''.''"
  by unfold_locales (auto simp: username_parse_iff Let_def str_trim_lower)

interpretation em: safe_newtype email_parse email_as_str email_char_ok
  by unfold_locales (auto simp: email_parse_iff Let_def str_trim_lower)

section \<open>DbName\<close>

datatype db_name = DbName (db_name_as_str: str)

definition db_name_parse :: "str \<Rightarrow> db_name res" where
  "db_name_parse input =
     (let s = str_trim input in
      if s = [] \<or> length s > 63 then
        Inl (new_error InvalidDbName ''database name must be 1-63 characters'')
      else if \<not> (is_ascii_alphabetic (hd s) \<or> hd s = CHR ''_'') then
        Inl (new_error InvalidDbName ''database name must start with a letter or underscore'')
      else if \<not> list_all (\<lambda>b. is_ascii_alphanumeric b \<or> b = CHR ''_'') s then
        Inl (new_error InvalidDbName
          ''database name may only contain letters, digits and underscore'')
      else
        (let lower = to_ascii_lowercase s in
         if lower \<in> set reserved_db_names \<or> starts_with ''pg_'' lower then
           Inl (new_error InvalidDbName (''`'' @ s @ ''` is reserved by the database engine''))
         else Inr (DbName s)))"

definition ident_char :: "char \<Rightarrow> bool" where
  "ident_char c \<longleftrightarrow> is_ascii_alphanumeric c \<or> c = CHR ''_''"

lemma db_name_parse_iff:
  "db_name_parse input = Inr d \<longleftrightarrow>
     (let s = str_trim input in
      d = DbName s \<and> s \<noteq> [] \<and> length s \<le> 63 \<and> (is_ascii_alphabetic (hd s) \<or> hd s = CHR ''_'')
      \<and> list_all ident_char s \<and> to_ascii_lowercase s \<notin> set reserved_db_names
      \<and> \<not> prefix ''pg_'' (to_ascii_lowercase s))"
  by (auto simp: db_name_parse_def Let_def ident_char_def list_all_iff starts_with_def)

interpretation dbn: safe_newtype db_name_parse db_name_as_str ident_char
  by unfold_locales (auto simp: db_name_parse_iff Let_def)

section \<open>TenantPath\<close>

datatype tenant_path = TenantPath (tenant_path_as_str: str)

definition tenant_root :: tenant_path where
  "tenant_root = TenantPath []"

fun tenant_parts :: "str list \<Rightarrow> str list \<Rightarrow> str list res" where
  "tenant_parts parts [] = Inr parts"
| "tenant_parts parts (part # rest) =
     (if part = [] then Inl (new_error InvalidPath ''path contains an empty component'')
      else if part = ''.'' then Inl (new_error InvalidPath ''path contains a `.` component'')
      else if part = ''..'' then
        Inl (new_error InvalidPath ''path traversal (`..`) is not allowed'')
      else if length part > 255 then
        Inl (new_error InvalidPath ''path component exceeds 255 characters'')
      else tenant_parts (parts @ [part]) rest)"

definition tenant_path_parse :: "str \<Rightarrow> tenant_path res" where
  "tenant_path_parse input =
     (let s = str_trim input in
      if s = [] then Inr tenant_root
      else if length s > 4096 then Inl (new_error InvalidPath ''path exceeds 4096 characters'')
      else if starts_with ''/'' s then
        Inl (new_error InvalidPath ''path must be relative to the tenant home'')
      else if CHR 0x00 \<in> set s then Inl (new_error InvalidPath ''path contains a NUL byte'')
      else if list_ex is_control (str_chars s) then
        Inl (new_error InvalidPath ''path contains control characters'')
      else if CHR 0x5C \<in> set s then
        Inl (new_error InvalidPath ''path may not contain backslashes'')
      else
        r_bind (tenant_parts [] (str_split CHR ''/'' s)) (\<lambda>parts.
          Inr (TenantPath (str_join ''/'' parts))))"

definition valid_component :: "str \<Rightarrow> bool" where
  "valid_component p \<longleftrightarrow> p \<noteq> [] \<and> p \<noteq> ''.'' \<and> p \<noteq> ''..'' \<and> length p \<le> 255"

lemma tenant_parts_Inr:
  "tenant_parts acc ps = Inr qs \<longleftrightarrow> list_all valid_component ps \<and> qs = acc @ ps"
  by (induction acc ps rule: tenant_parts.induct) (auto simp: valid_component_def)

lemma tenant_path_parse_iff:
  "tenant_path_parse input = Inr p \<longleftrightarrow>
     (let s = str_trim input in
      p = TenantPath s \<and> (s = [] \<or> length s \<le> 4096 \<and> \<not> starts_with ''/'' s \<and> CHR 0x00 \<notin> set s
        \<and> \<not> list_ex is_control (str_chars s) \<and> CHR 0x5C \<notin> set s
        \<and> list_all valid_component (str_split CHR ''/'' s)))"
proof -
  define s where "s = str_trim input"
  show ?thesis
    unfolding tenant_path_parse_def Let_def s_def [symmetric]
    by (auto simp: tenant_root_def tenant_parts_Inr result_simps)
qed

interpretation tp: string_newtype tenant_path_parse tenant_path_as_str
  by unfold_locales (auto simp: tenant_path_parse_iff Let_def)

text \<open>
  What the kernel does with a relative path, as a stack of directories below the home:
  \<open>..\<close> pops, and \<open>None\<close> is a step above the home directory.
\<close>

fun resolve_below :: "str list \<Rightarrow> str list \<Rightarrow> str list option" where
  "resolve_below stack [] = Some stack"
| "resolve_below stack (p # ps) =
     (if p = [] \<or> p = ''.'' then resolve_below stack ps
      else if p = ''..'' then (if stack = [] then None else resolve_below (butlast stack) ps)
      else resolve_below (stack @ [p]) ps)"

lemma resolve_below_valid:
  "list_all valid_component ps \<Longrightarrow> resolve_below stack ps = Some (stack @ ps)"
  by (induction ps arbitrary: stack) (auto simp: valid_component_def)

section \<open>PhpVersion, Port and AppName\<close>

datatype php_version = V74 | V80 | V81 | V82 | V83 | V84 | V85

definition php_all :: "php_version list" where
  "php_all = [V74, V80, V81, V82, V83, V84, V85]"

fun php_as_str :: "php_version \<Rightarrow> str" where
  "php_as_str V74 = ''7.4''"
| "php_as_str V80 = ''8.0''"
| "php_as_str V81 = ''8.1''"
| "php_as_str V82 = ''8.2''"
| "php_as_str V83 = ''8.3''"
| "php_as_str V84 = ''8.4''"
| "php_as_str V85 = ''8.5''"

fun php_compact :: "php_version \<Rightarrow> str" where
  "php_compact V74 = ''74''"
| "php_compact V80 = ''80''"
| "php_compact V81 = ''81''"
| "php_compact V82 = ''82''"
| "php_compact V83 = ''83''"
| "php_compact V84 = ''84''"
| "php_compact V85 = ''85''"

fun php_is_eol :: "php_version \<Rightarrow> bool" where
  "php_is_eol v = (v \<in> {V74, V80, V81, V82})"

definition php_parse :: "str \<Rightarrow> php_version res" where
  "php_parse input =
     (let other = str_trim input in
      if other = ''7.4'' \<or> other = ''74'' then Inr V74
      else if other = ''8.0'' \<or> other = ''80'' then Inr V80
      else if other = ''8.1'' \<or> other = ''81'' then Inr V81
      else if other = ''8.2'' \<or> other = ''82'' then Inr V82
      else if other = ''8.3'' \<or> other = ''83'' then Inr V83
      else if other = ''8.4'' \<or> other = ''84'' then Inr V84
      else if other = ''8.5'' \<or> other = ''85'' then Inr V85
      else Inl (new_error InvalidPhpVersion
             (''`'' @ other @ ''` is not a supported PHP version (7.4-8.5)'')))"

lemma php_str_trim [simp]: "str_trim (php_as_str v) = php_as_str v" "str_trim (php_compact v) = php_compact v"
  by (rule str_trim_plain; cases v; simp add: plain_char_def is_ascii_whitespace_def byte_def)+

lemma php_reparse: "php_parse (php_as_str v) = Inr v" "php_parse (php_compact v) = Inr v"
  unfolding php_parse_def Let_def php_str_trim by (cases v; simp)+

lemma php_parse_Inr:
  "php_parse s = Inr v \<longleftrightarrow> str_trim s = php_as_str v \<or> str_trim s = php_compact v"
  by (cases v) (simp_all add: php_parse_def Let_def split: if_splits)

interpretation php: string_enum php_parse php_as_str
  by unfold_locales (rule php_reparse)+

datatype port = Port (port_get: u16)

definition port_parse :: "u16 \<Rightarrow> port res" where
  "port_parse v = (if v = 0 then Inl (new_error InvalidPort ''port 0 is not valid'') else Inr (Port v))"

definition parse_app_port :: "u16 \<Rightarrow> port res" where
  "parse_app_port v =
     (if \<not> (1024 \<le> v \<and> v \<le> 61000) then
        Inl (new_error InvalidPort ''app ports must be between 1024 and 61000'')
      else Inr (Port v))"

datatype app_name = AppName (app_name_as_str: str)

definition app_name_error :: "str \<Rightarrow> uni_error" where
  "app_name_error d = with_field (new_error InvalidInput d) ''name''"

definition app_name_parse :: "str \<Rightarrow> app_name res" where
  "app_name_parse input =
     (let s = to_ascii_lowercase (str_trim input) in
      if s = [] \<or> length s > 32 then Inl (app_name_error ''app name must be 1-32 characters'')
      else if \<not> is_ascii_alphanumeric (hd s) then
        Inl (app_name_error ''app name must start with a letter or digit'')
      else if \<not> list_all (\<lambda>b. is_ascii_lowercase b \<or> is_ascii_digit b \<or> b = CHR ''_'' \<or> b = CHR ''-'') s then
        Inl (app_name_error ''app name may only contain a-z, 0-9, underscore and hyphen'')
      else Inr (AppName s))"

lemma app_name_parse_iff:
  "app_name_parse input = Inr a \<longleftrightarrow>
     (let s = to_ascii_lowercase (str_trim input) in
      a = AppName s \<and> s \<noteq> [] \<and> length s \<le> 32 \<and> is_ascii_alphanumeric (hd s) \<and> list_all user_char s)"
  by (auto simp: app_name_parse_def Let_def user_char_def list_all_iff)

interpretation app: safe_newtype app_name_parse app_name_as_str user_char
  by unfold_locales (auto simp: app_name_parse_iff Let_def str_trim_lower)

section \<open>Properties\<close>

text \<open>
  The values of \<open>Domain\<close> are exactly the host names: every host name is the text of a
  parsed domain, \<open>parse\<close> accepts an input exactly when its normal form (trimmed, without
  trailing dots, lowercased) is a host name, what it then holds is that normal form, and every
  refusal carries the code \<open>InvalidDomain\<close>.
\<close>

theorem domain_values_are_hostnames:
  "((\<exists>s. domain_parse s = Inr d) \<longleftrightarrow> valid_hostname (domain_as_str d))
   \<and> is_ok (domain_parse input) = valid_hostname (domain_normalise input)
   \<and> (case domain_parse input of
         Inr v \<Rightarrow> domain_as_str v = domain_normalise input
       | Inl e \<Rightarrow> err_code e = InvalidDomain)"
proof (intro conjI)
  show "(\<exists>s. domain_parse s = Inr d) \<longleftrightarrow> valid_hostname (domain_as_str d)"
  proof
    assume "valid_hostname (domain_as_str d)"
    then have "domain_parse (domain_as_str d) = Inr d"
      by (cases d) (simp add: domain_parse_iff domain_normalise_valid)
    then show "\<exists>s. domain_parse s = Inr d" ..
  qed (auto simp: domain_parse_iff)
  show "is_ok (domain_parse input) = valid_hostname (domain_normalise input)"
    by (simp add: is_ok_iff domain_parse_iff)
  have lab: "check_labels ls = Inl e \<Longrightarrow> err_code e = InvalidDomain" for ls e
    by (induction ls) (auto simp: result_simps check_label_def split: if_splits)
  have bad: "domain_parse input = Inl e \<Longrightarrow> err_code e = InvalidDomain" for e
    by (auto simp: domain_parse_def Let_def result_simps dest: lab split: if_splits)
  show "case domain_parse input of Inr v \<Rightarrow> domain_as_str v = domain_normalise input
      | Inl e \<Rightarrow> err_code e = InvalidDomain"
  proof (cases "domain_parse input")
    case (Inr v)
    then have "v = Domain (domain_normalise input)" by (simp only: domain_parse_iff)
    with Inr show ?thesis by simp
  qed (simp add: bad)
qed

text \<open>
  C38: a tenant path never leaves the tenant's home. Whatever directory it is joined to, resolving
  its components goes down from that directory and never above it; the text is the list of those
  components, and it holds no NUL byte, no backslash and no leading slash.
\<close>

theorem tenant_path_confined:
  assumes "tenant_path_parse input = Inr p"
  shows "(\<forall>home. \<exists>rest. resolve_below home (str_split CHR ''/'' (tenant_path_as_str p)) = Some (home @ rest)
            \<and> str_join ''/'' rest = tenant_path_as_str p)
         \<and> CHR 0x00 \<notin> set (tenant_path_as_str p) \<and> CHR 0x5C \<notin> set (tenant_path_as_str p)
         \<and> \<not> starts_with ''/'' (tenant_path_as_str p)"
proof -
  have p: "tenant_path_as_str p = [] \<or> \<not> starts_with ''/'' (tenant_path_as_str p)
      \<and> CHR 0x00 \<notin> set (tenant_path_as_str p) \<and> CHR 0x5C \<notin> set (tenant_path_as_str p)
      \<and> list_all valid_component (str_split CHR ''/'' (tenant_path_as_str p))"
    using assms by (auto simp: tenant_path_parse_iff Let_def)
  then show ?thesis
    by (auto simp: resolve_below_valid starts_with_def)
qed

lemma tenant_path_confined_witness:
  "tenant_path_parse ''sites/a.b/public'' = Inr (TenantPath ''sites/a.b/public'')
   \<and> \<not> starts_with ''/'' (tenant_path_as_str (TenantPath ''sites/a.b/public''))"
proof -
  have t: "str_trim ''sites/a.b/public'' = ''sites/a.b/public''"
    by (rule str_trim_plain) (simp add: plain_char_def is_ascii_whitespace_def byte_def)
  have a: "str_chars ''sites/a.b/public'' = map (\<lambda>c. [c]) ''sites/a.b/public''"
    by (rule str_chars_ascii) (simp add: ascii_def byte_def)
  have *: "tenant_path_parse ''sites/a.b/public'' = Inr (TenantPath ''sites/a.b/public'')"
    unfolding tenant_path_parse_def t a
    by (simp add: starts_with_def is_control_def is_ascii_control_def byte_def)
  then show ?thesis
    using tenant_path_confined [OF *] by blast
qed

text \<open>
  Every validated string reads back from its own text as the same value, so a value that
  crosses the socket or the database is unchanged, and parsing is idempotent on every type.
\<close>

theorem newtypes_round_trip:
  assumes "domain_parse s1 = Inr d" "linux_user_parse s2 = Inr u" "username_parse s3 = Inr n"
    "email_parse s4 = Inr e" "db_name_parse s5 = Inr b" "tenant_path_parse s6 = Inr p"
    "app_name_parse s7 = Inr a"
  shows "domain_parse (domain_as_str d) = Inr d \<and> linux_user_parse (linux_user_as_str u) = Inr u
    \<and> username_parse (username_as_str n) = Inr n \<and> email_parse (email_as_str e) = Inr e
    \<and> db_name_parse (db_name_as_str b) = Inr b \<and> tenant_path_parse (tenant_path_as_str p) = Inr p
    \<and> app_name_parse (app_name_as_str a) = Inr a"
  using assms dom.reparse lu.reparse un.reparse em.reparse dbn.reparse tp.reparse app.reparse
  by blast

lemma trim_bob: "str_trim ''Bob_1'' = ''Bob_1''" "str_trim ''bob_1'' = ''bob_1''"
    "str_trim ''bob@x.io'' = ''bob@x.io''" "str_trim ''X.io.'' = ''X.io.''" "str_trim ''x.io'' = ''x.io''"
  by (rule str_trim_plain; simp add: plain_char_def is_ascii_whitespace_def byte_def)+

lemma parse_examples:
  "domain_parse ''X.io.'' = Inr (Domain ''x.io'')"
  "linux_user_parse ''bob_1'' = Inr (LinuxUser ''bob_1'')"
  "username_parse ''Bob_1'' = Inr (Username ''bob_1'')"
  "email_parse ''bob@x.io'' = Inr (Email ''bob@x.io'')"
  "db_name_parse ''Bob_1'' = Inr (DbName ''Bob_1'')"
  "app_name_parse ''Bob_1'' = Inr (AppName ''bob_1'')"
  unfolding domain_parse_def linux_user_parse_def username_parse_def email_parse_def
    db_name_parse_def app_name_parse_def domain_normalise_def trim_bob
  by (simp_all add: str_trim_end_matches_def to_ascii_lowercase_def to_lower_char_def ascii_defs
      byte_def check_label_def starts_with_single ends_with_single char_of_def bit_0 reserved_system_users_def
      reserved_db_names_def starts_with_def domain_parse_def domain_normalise_def trim_bob)

lemma newtypes_round_trip_witness:
  "domain_parse ''x.io'' = Inr (Domain ''x.io'') \<and> db_name_parse ''Bob_1'' = Inr (DbName ''Bob_1'')"
proof -
  have t: "tenant_path_parse [] = Inr tenant_root"
    by (simp add: tenant_path_parse_def str_trim_def)
  show ?thesis
    using newtypes_round_trip [OF parse_examples(1,2,3,4,5) t parse_examples(6)] by simp
qed

text \<open>
  A Linux account name is never one of the system's own accounts, and it is safe as a
  command-line word: 1 to 32 characters of the account alphabet, not starting with a hyphen.
\<close>

theorem linux_user_safe:
  assumes "linux_user_parse input = Inr u"
  shows "linux_user_as_str u \<notin> set reserved_system_users
    \<and> list_all user_char (linux_user_as_str u) \<and> hd (linux_user_as_str u) \<noteq> CHR ''-''
    \<and> 1 \<le> length (linux_user_as_str u) \<and> length (linux_user_as_str u) \<le> 32"
  using assms by (auto simp: linux_user_parse_iff Let_def Suc_le_eq is_ascii_lowercase_def byte_def)

lemma linux_user_safe_witness:
  "linux_user_as_str (LinuxUser ''bob_1'') \<notin> set reserved_system_users"
  using linux_user_safe [OF parse_examples(2)] by blast

text \<open>
  A database name needs no quoting in either engine: it matches
  \<open>[A-Za-z_][A-Za-z0-9_]{0,62}\<close>, and in no letter case is it a name the engine owns or one
  that starts with \<open>pg_\<close>.
\<close>

theorem db_name_is_plain_identifier:
  assumes "db_name_parse input = Inr d"
  shows "list_all ident_char (db_name_as_str d) \<and> \<not> is_ascii_digit (hd (db_name_as_str d))
    \<and> 1 \<le> length (db_name_as_str d) \<and> length (db_name_as_str d) \<le> 63
    \<and> (\<forall>r \<in> set reserved_db_names. to_ascii_lowercase (db_name_as_str d) \<noteq> r)
    \<and> \<not> prefix ''pg_'' (to_ascii_lowercase (db_name_as_str d))"
  using assms
  by (auto simp: db_name_parse_iff Let_def Suc_le_eq ascii_defs byte_def)

lemma db_name_is_plain_identifier_witness:
  "list_all ident_char (db_name_as_str (DbName ''Bob_1''))"
  using db_name_is_plain_identifier [OF parse_examples(5)] by blast

end
