(* ===== verification/Units.thy ===== *)
theory Units
  imports Newtypes
begin

text \<open>
  The names and states of systemd units: \<open>unihelm-distro/src/svc.rs\<close> (unit names, the
  whitelist of managed units, the reading of \<open>systemctl show\<close>), the unit and container names
  of \<open>unihelm-ops/src/nodeapp.rs\<close>, and the tenant slices of \<open>unihelm-ops/src/slices.rs\<close>.
  The lemmas show that every name the panel builds is a valid unit name, when such names identify
  their tenant, and the bounds of the limits a slice renders. Running \<open>systemctl\<close> is outside
  the model; its output is an argument.
\<close>

datatype family = Debian | Rhel

datatype distro_error =
    UnsupportedDistroErr str
  | OsRelease str
  | ProgramNotFound str
  | Spawn str str
  | CommandFailedErr str int str
  | TimeoutErr str u64
  | InvalidName str
  | ServiceFailed str str str
  | PackageFailed str

section \<open>Unit names\<close>

datatype unit_name = UnitName (unit_name_as_str: str)

definition unit_suffixes :: "str list" where
  "unit_suffixes =
     [''.service'', ''.socket'', ''.timer'', ''.slice'', ''.target'', ''.path'', ''.mount'']"

definition unit_suffixes_debug :: str where
  "unit_suffixes_debug = ''['' @ str_join '', '' (map (\<lambda>s. [CHR 0x22] @ s @ [CHR 0x22]) unit_suffixes) @ '']''"

definition unit_char :: "char \<Rightarrow> bool" where
  "unit_char b \<longleftrightarrow> is_ascii_alphanumeric b
     \<or> b \<in> {CHR ''-'', CHR ''_'', CHR ''.'', CHR ''@'', CHR 0x5C, CHR '':''}"

definition unit_name_parse :: "str \<Rightarrow> distro_error + unit_name" where
  "unit_name_parse input =
     (let s = str_trim input in
      if s = [] \<or> length s > 255 then Inl (InvalidName ''unit name must be 1-255 characters'')
      else if \<not> list_ex (\<lambda>suffix. ends_with suffix s) unit_suffixes then
        Inl (InvalidName (''unit `'' @ s @ ''` must end with one of '' @ unit_suffixes_debug))
      else if \<not> list_all unit_char s then
        Inl (InvalidName (''unit `'' @ s @ ''` contains illegal characters''))
      else if str_contains ''..'' s \<or> starts_with ''-'' s then
        Inl (InvalidName (''unit `'' @ s @ ''` is not a plausible unit name''))
      else Inr (UnitName s))"

definition valid_unit_name :: "str \<Rightarrow> bool" where
  "valid_unit_name s \<longleftrightarrow> length s \<le> 255 \<and> list_ex (\<lambda>suffix. ends_with suffix s) unit_suffixes
     \<and> list_all unit_char s \<and> \<not> sublist ''..'' s \<and> s \<noteq> [] \<and> hd s \<noteq> CHR ''-''"

lemma unit_name_parse_iff:
  "unit_name_parse input = Inr u \<longleftrightarrow> u = UnitName (str_trim input) \<and> valid_unit_name (str_trim input)"
  by (auto simp: unit_name_parse_def Let_def valid_unit_name_def str_contains_iff starts_with_single)

lemma unit_char_plain: "unit_char c \<Longrightarrow> plain_char c"
  by (auto simp: unit_char_def plain_char_def ascii_defs is_ascii_whitespace_def byte_def)

lemma trim_unit_name: "valid_unit_name s \<Longrightarrow> str_trim s = s"
  using unit_char_plain by (auto simp: valid_unit_name_def list_all_iff intro!: str_trim_plain)

section \<open>Managed units\<close>

datatype managed_unit =
    Nginx | Apache | PhpFpm php_version | MariaDb | PostgreSql | KvStore | Docker | Sshd
  | Postfix | UnihelmWeb | UnihelmAgentd

definition postgres_major :: nat where
  "postgres_major = 17"

fun managed_name :: "managed_unit \<Rightarrow> family \<Rightarrow> str" where
  "managed_name Nginx _ = ''nginx.service''"
| "managed_name Apache Debian = ''apache2.service''"
| "managed_name Apache Rhel = ''httpd.service''"
| "managed_name (PhpFpm version) Debian = ''php'' @ php_as_str version @ ''-fpm.service''"
| "managed_name (PhpFpm version) Rhel = ''php'' @ php_compact version @ ''-php-fpm.service''"
| "managed_name MariaDb _ = ''mariadb.service''"
| "managed_name PostgreSql Debian = ''postgresql.service''"
| "managed_name PostgreSql Rhel = ''postgresql-'' @ show_nat postgres_major @ ''.service''"
| "managed_name KvStore Debian = ''redis-server.service''"
| "managed_name KvStore Rhel = ''redis.service''"
| "managed_name Docker _ = ''docker.service''"
| "managed_name Sshd Debian = ''ssh.service''"
| "managed_name Sshd Rhel = ''sshd.service''"
| "managed_name Postfix _ = ''postfix.service''"
| "managed_name UnihelmWeb _ = ''unihelm-web.service''"
| "managed_name UnihelmAgentd _ = ''unihelm-agentd.service''"

definition managed_unit_name :: "managed_unit \<Rightarrow> family \<Rightarrow> unit_name" where
  "managed_unit_name u f = UnitName (managed_name u f)"

fun unit_display_name :: "managed_unit \<Rightarrow> str" where
  "unit_display_name Nginx = ''Nginx''"
| "unit_display_name Apache = ''Apache''"
| "unit_display_name (PhpFpm version) = ''PHP '' @ php_as_str version @ '' FPM''"
| "unit_display_name MariaDb = ''MariaDB''"
| "unit_display_name PostgreSql = ''PostgreSQL''"
| "unit_display_name KvStore = ''Redis''"
| "unit_display_name Docker = ''Docker''"
| "unit_display_name Sshd = ''OpenSSH''"
| "unit_display_name Postfix = ''Postfix''"
| "unit_display_name UnihelmWeb = ''Unihelm panel''"
| "unit_display_name UnihelmAgentd = ''Unihelm agent''"

fun is_critical :: "managed_unit \<Rightarrow> bool" where
  "is_critical UnihelmAgentd = True"
| "is_critical Sshd = True"
| "is_critical _ = False"

datatype svc_action = Start | Stop | Restart | Reload

fun svc_action_as_str :: "svc_action \<Rightarrow> str" where
  "svc_action_as_str Start = ''start''"
| "svc_action_as_str Stop = ''stop''"
| "svc_action_as_str Restart = ''restart''"
| "svc_action_as_str Reload = ''reload''"

section \<open>Reading \<open>systemctl show\<close>\<close>

datatype unit_state =
    StActive | StInactive | StFailed | StActivating | StDeactivating | StNotFound | StUnknown

definition from_systemd :: "str \<Rightarrow> str \<Rightarrow> unit_state" where
  "from_systemd active_state load_state =
     (if load_state = ''not-found'' then StNotFound
      else if active_state = ''active'' then StActive
      else if active_state = ''inactive'' then StInactive
      else if active_state = ''failed'' then StFailed
      else if active_state = ''activating'' then StActivating
      else if active_state = ''deactivating'' then StDeactivating
      else StUnknown)"

datatype memory_source = Anonymous | CgroupTotal

record unit_status =
  us_unit :: str
  us_state :: unit_state
  us_sub_state :: str
  us_enabled :: "str option"
  us_main_pid :: "u32 option"
  us_memory_bytes :: "u64 option"
  us_memory_source :: "memory_source option"
  us_since :: "str option"

definition us_is_active :: "unit_status \<Rightarrow> bool" where
  "us_is_active st \<longleftrightarrow> us_state st = StActive"

definition us_is_installed :: "unit_status \<Rightarrow> bool" where
  "us_is_installed st \<longleftrightarrow> us_state st \<noteq> StNotFound"

fun show_property :: "str list \<Rightarrow> str \<Rightarrow> str option" where
  "show_property [] key = None"
| "show_property (line # lines) key =
     (case split_once CHR ''='' line of
        Some (k, v) \<Rightarrow> if k = key \<and> v \<noteq> [] then Some v else show_property lines key
      | None \<Rightarrow> show_property lines key)"

definition memory_stat_path :: "str \<Rightarrow> str option" where
  "memory_stat_path control_group =
     (let relative = dropWhile (\<lambda>c. c = CHR ''/'') (str_trim control_group) in
      if relative = [] \<or> list_ex (\<lambda>seg. seg = [] \<or> seg = ''..'') (str_split CHR ''/'' relative)
      then None else Some (''/sys/fs/cgroup/'' @ relative @ ''/memory.stat''))"

fun anon_bytes_lines :: "str list \<Rightarrow> u64 option" where
  "anon_bytes_lines [] = None"
| "anon_bytes_lines (line # lines) =
     (case split_once CHR '' '' line of
        Some (k, value) \<Rightarrow>
          if k = ''anon'' then
            (case parse_u64 (str_trim value) of Some n \<Rightarrow> Some n | None \<Rightarrow> anon_bytes_lines lines)
          else anon_bytes_lines lines
      | None \<Rightarrow> anon_bytes_lines lines)"

definition anon_bytes :: "str \<Rightarrow> u64 option" where
  "anon_bytes memory_stat = anon_bytes_lines (str_lines memory_stat)"

definition apply_memory_stat :: "unit_status \<Rightarrow> str option \<Rightarrow> unit_status" where
  "apply_memory_stat st memory_stat =
     (case Option.bind memory_stat anon_bytes of
        Some anon \<Rightarrow> st\<lparr>us_memory_bytes := Some anon, us_memory_source := Some Anonymous\<rparr>
      | None \<Rightarrow> st)"

record show_acc =
  sa_load :: str
  sa_active :: str
  sa_sub :: str
  sa_file :: str
  sa_pid :: "u32 option"
  sa_mem :: "u64 option"
  sa_since :: "str option"

definition show_line :: "show_acc \<Rightarrow> str \<Rightarrow> show_acc" where
  "show_line acc line =
     (case split_once CHR ''='' line of
        None \<Rightarrow> acc
      | Some (k, v) \<Rightarrow>
          if k = ''LoadState'' then acc\<lparr>sa_load := v\<rparr>
          else if k = ''ActiveState'' then acc\<lparr>sa_active := v\<rparr>
          else if k = ''SubState'' then acc\<lparr>sa_sub := v\<rparr>
          else if k = ''UnitFileState'' then acc\<lparr>sa_file := v\<rparr>
          else if k = ''MainPID'' then
            acc\<lparr>sa_pid := (case parse_u32 v of Some p \<Rightarrow> if p \<noteq> 0 then Some p else None | None \<Rightarrow> None)\<rparr>
          else if k = ''MemoryCurrent'' then
            acc\<lparr>sa_mem := (case parse_u64 v of Some b \<Rightarrow> if b \<noteq> - 1 then Some b else None | None \<Rightarrow> None)\<rparr>
          else if k = ''ActiveEnterTimestamp'' then
            acc\<lparr>sa_since := (if v \<noteq> [] then Some v else None)\<rparr>
          else acc)"

definition parse_systemctl_show :: "str \<Rightarrow> str \<Rightarrow> unit_status" where
  "parse_systemctl_show unit stdout =
     (let acc = foldl show_line
           \<lparr>sa_load = [], sa_active = [], sa_sub = [], sa_file = [], sa_pid = None, sa_mem = None, sa_since = None\<rparr>
           (str_lines stdout)
      in \<lparr>us_unit = unit, us_state = from_systemd (sa_active acc) (sa_load acc), us_sub_state = sa_sub acc,
          us_enabled = (if sa_file acc \<noteq> [] then Some (sa_file acc) else None), us_main_pid = sa_pid acc,
          us_memory_bytes = sa_mem acc,
          us_memory_source = map_option (\<lambda>_. CgroupTotal) (sa_mem acc), us_since = sa_since acc\<rparr>)"

section \<open>Names of applications and slices\<close>

definition unit_file_name :: "linux_user \<Rightarrow> app_name \<Rightarrow> str" where
  "unit_file_name user name =
     ''unihelm-app-'' @ linux_user_as_str user @ ''-'' @ app_name_as_str name @ ''.service''"

definition app_unit_name :: "linux_user \<Rightarrow> app_name \<Rightarrow> distro_error + unit_name" where
  "app_unit_name user name = unit_name_parse (unit_file_name user name)"

definition app_container_name :: "linux_user \<Rightarrow> app_name \<Rightarrow> str" where
  "app_container_name user name =
     ''unihelm-app-'' @ linux_user_as_str user @ ''-'' @ app_name_as_str name"

definition slice_file_name :: "linux_user \<Rightarrow> str" where
  "slice_file_name user =
     ''unihelm-'' @ str_replace_char CHR ''-'' (CHR 0x5C # ''x2d'') (linux_user_as_str user) @ ''.slice''"

definition slice_unit_name :: "linux_user \<Rightarrow> distro_error + unit_name" where
  "slice_unit_name user = unit_name_parse (slice_file_name user)"

record tenant_slice =
  ts_memory_max_mb :: "u32 option"
  ts_cpu_quota_pct :: "u32 option"
  ts_pids_max :: "u32 option"
  ts_io_weight :: "u32 option"

definition default_tenant_memory_mb :: u32 where
  "default_tenant_memory_mb = 512"

definition fpm_pool_memory_mb :: "tenant_slice \<Rightarrow> u32" where
  "fpm_pool_memory_mb sl = (case ts_memory_max_mb sl of Some mb \<Rightarrow> mb | None \<Rightarrow> default_tenant_memory_mb)"

definition slice_describe :: "tenant_slice \<Rightarrow> str" where
  "slice_describe sl =
     (let parts =
        (case ts_memory_max_mb sl of Some mb \<Rightarrow> [''memory '' @ show_word mb @ '' MB''] | None \<Rightarrow> [])
        @ (case ts_cpu_quota_pct sl of Some pct \<Rightarrow> [''cpu '' @ show_word pct @ ''%''] | None \<Rightarrow> [])
        @ (case ts_pids_max sl of Some pids \<Rightarrow> [''pids '' @ show_word pids] | None \<Rightarrow> [])
        @ (case ts_io_weight sl of Some w \<Rightarrow> [''io weight '' @ show_word w] | None \<Rightarrow> [])
      in if parts = [] then ''no limits (accounting only)'' else str_join '', '' parts)"

record slice_context =
  sc_linux_user :: str
  sc_memory_max_mb :: "u32 option"
  sc_memory_high_mb :: "u32 option"
  sc_cpu_quota_pct :: "u32 option"
  sc_pids_max :: "u32 option"
  sc_io_weight :: "u32 option"

definition clamp :: "u32 \<Rightarrow> u32 \<Rightarrow> u32 \<Rightarrow> u32" where
  "clamp lo hi v = (if v < lo then lo else if v > hi then hi else v)"

text \<open>\<open>mb * 9\<close> is a \<open>u32\<close> product and wraps.\<close>

definition slice_context_new :: "linux_user \<Rightarrow> tenant_slice \<Rightarrow> slice_context" where
  "slice_context_new user limits =
     (let memory_max_mb = map_option (\<lambda>mb. max mb 32) (ts_memory_max_mb limits) in
      \<lparr>sc_linux_user = linux_user_as_str user,
       sc_memory_max_mb = memory_max_mb,
       sc_memory_high_mb = map_option (\<lambda>mb. max (mb * 9 div 10) 16) memory_max_mb,
       sc_cpu_quota_pct = map_option (clamp 1 10000) (ts_cpu_quota_pct limits),
       sc_pids_max = map_option (\<lambda>p. max p 8) (ts_pids_max limits),
       sc_io_weight = map_option (clamp 1 10000) (ts_io_weight limits)\<rparr>)"

section \<open>Lemmas\<close>

lemma no_dots_append: "CHR ''.'' \<notin> set a \<Longrightarrow> sublist ''..'' (a @ b) \<longleftrightarrow> sublist ''..'' b"
  by (induction a) (auto simp: sublist_Cons_right)

lemma unit_suffix_props:
  assumes "suf \<in> set unit_suffixes"
  shows "length suf \<le> 8" "list_all unit_char suf" "\<not> sublist ''..'' suf"
proof -
  have "list_all (\<lambda>x. length x \<le> 8 \<and> list_all unit_char x \<and> \<not> str_contains ''..'' x) unit_suffixes"
    by (simp add: unit_suffixes_def unit_char_def ascii_defs byte_def str_contains_def)
  with assms show "length suf \<le> 8" "list_all unit_char suf" "\<not> sublist ''..'' suf"
    by (auto simp: list_all_iff str_contains_iff)
qed

lemma valid_unit_nameI:
  assumes "suf \<in> set unit_suffixes" "list_all unit_char a" "CHR ''.'' \<notin> set a" "a \<noteq> []"
    "hd a \<noteq> CHR ''-''" "length a \<le> 247"
  shows "valid_unit_name (a @ suf)"
  using assms unit_suffix_props [OF assms(1)]
  by (auto simp: valid_unit_name_def no_dots_append list_ex_iff ends_with_def intro: suffixI)

lemma user_char_unit_char: "user_char c \<Longrightarrow> unit_char c \<and> c \<noteq> CHR ''.''"
  by (auto simp: user_char_def unit_char_def ascii_defs byte_def)

lemma service_suffix: "''.service'' \<in> set unit_suffixes" "''.slice'' \<in> set unit_suffixes"
  by (simp_all add: unit_suffixes_def)

lemma linux_user_facts:
  assumes "linux_user_parse input = Inr u"
  shows "\<And>c. c \<in> set (linux_user_as_str u) \<Longrightarrow> user_char c" "length (linux_user_as_str u) \<le> 32"
  using assms by (auto simp: linux_user_parse_iff Let_def list_all_iff)

lemma app_name_facts:
  assumes "app_name_parse input = Inr a"
  shows "\<And>c. c \<in> set (app_name_as_str a) \<Longrightarrow> user_char c" "length (app_name_as_str a) \<le> 32"
    "app_name_as_str a \<noteq> []"
  using assms by (auto simp: app_name_parse_iff Let_def list_all_iff)

lemma valid_unit_file_name:
  assumes "linux_user_parse s = Inr u" "app_name_parse t = Inr a"
  shows "valid_unit_name (unit_file_name u a)"
proof -
  let ?a = "''unihelm-app-'' @ linux_user_as_str u @ ''-'' @ app_name_as_str a"
  have lit: "list_all (\<lambda>c. unit_char c \<and> c \<noteq> CHR ''.'') ''unihelm-app-''"
    by (simp add: unit_char_def ascii_defs byte_def)
  have "unit_char CHR ''-''" by (simp add: unit_char_def)
  then have "unit_char c \<and> c \<noteq> CHR ''.''" if "c \<in> set ?a" for c
    using that lit linux_user_facts(1) [OF assms(1), THEN user_char_unit_char]
      app_name_facts(1) [OF assms(2), THEN user_char_unit_char]
    unfolding list_all_iff set_append by auto
  then have "list_all unit_char ?a" "CHR ''.'' \<notin> set ?a"
    unfolding list_all_iff by blast+
  then have "valid_unit_name (?a @ ''.service'')"
    using linux_user_facts(2) [OF assms(1)] app_name_facts(2) [OF assms(2)]
    by (intro valid_unit_nameI service_suffix) auto
  then show ?thesis by (simp add: unit_file_name_def)
qed

lemma set_replace_char: "set (str_replace_char c t s) \<subseteq> set t \<union> (set s - {c})"
  by (auto simp: str_replace_char_def)

lemma length_replace_char: "length (str_replace_char c t s) \<le> length s * max 1 (length t)"
  by (induction s) (auto simp: str_replace_char_def max_def)

lemma valid_slice_file_name:
  assumes "linux_user_parse s = Inr u"
  shows "valid_unit_name (slice_file_name u)"
proof -
  let ?e = "str_replace_char CHR ''-'' (CHR 0x5C # ''x2d'') (linux_user_as_str u)"
  let ?a = "''unihelm-'' @ ?e"
  have lit: "list_all (\<lambda>c. unit_char c \<and> c \<noteq> CHR ''.'') (''unihelm-'' @ CHR 0x5C # ''x2d'')"
    by (simp add: unit_char_def ascii_defs byte_def)
  have "unit_char c \<and> c \<noteq> CHR ''.''" if "c \<in> set ?a" for c
    using that lit linux_user_facts(1) [OF assms, THEN user_char_unit_char]
      set_replace_char [of "CHR ''-''" "CHR 0x5C # ''x2d''" "linux_user_as_str u"]
    unfolding list_all_iff set_append by blast
  then have "list_all unit_char ?a" "CHR ''.'' \<notin> set ?a"
    unfolding list_all_iff by blast+
  moreover have "length ?e \<le> 32 * 4"
    using length_replace_char [of "CHR ''-''" "CHR 0x5C # ''x2d''" "linux_user_as_str u"]
      linux_user_facts(2) [OF assms] by simp
  ultimately have "valid_unit_name (?a @ ''.slice'')"
    by (intro valid_unit_nameI service_suffix) auto
  then show ?thesis by (simp add: slice_file_name_def)
qed

text \<open>Escaping with a character the text does not hold loses nothing.\<close>

lemma str_replace_char_inj:
  assumes "str_replace_char c (e # t) x = str_replace_char c (e # t) y"
    "e \<notin> set x" "e \<notin> set y"
  shows "x = y"
  using assms
proof (induction x arbitrary: y)
  case Nil
  then show ?case by (cases y) (auto simp: str_replace_char_def split: if_splits)
next
  case (Cons a x)
  then show ?case
    by (cases y) (auto simp: str_replace_char_def split: if_splits)
qed

lemma php_str_inj [simp]:
  "php_as_str v = php_as_str w \<longleftrightarrow> v = w" "php_compact v = php_compact w \<longleftrightarrow> v = w"
  using php_reparse by (metis sum.inject(2))+

definition show_acc_ok :: "show_acc \<Rightarrow> bool" where
  "show_acc_ok acc \<longleftrightarrow> sa_mem acc \<noteq> Some (- 1) \<and> sa_pid acc \<noteq> Some 0"

lemma show_acc_ok_update:
  "show_acc_ok acc \<Longrightarrow> show_acc_ok (acc\<lparr>sa_load := x\<rparr>)"
  "show_acc_ok acc \<Longrightarrow> show_acc_ok (acc\<lparr>sa_active := x\<rparr>)"
  "show_acc_ok acc \<Longrightarrow> show_acc_ok (acc\<lparr>sa_sub := x\<rparr>)"
  "show_acc_ok acc \<Longrightarrow> show_acc_ok (acc\<lparr>sa_file := x\<rparr>)"
  "show_acc_ok acc \<Longrightarrow> show_acc_ok (acc\<lparr>sa_since := y\<rparr>)"
  "show_acc_ok acc \<Longrightarrow> show_acc_ok (acc\<lparr>sa_pid := z\<rparr>) \<longleftrightarrow> z \<noteq> Some 0"
  "show_acc_ok acc \<Longrightarrow> show_acc_ok (acc\<lparr>sa_mem := m\<rparr>) \<longleftrightarrow> m \<noteq> Some (- 1)"
  by (simp_all add: show_acc_ok_def)

lemma show_line_ok: "show_acc_ok acc \<Longrightarrow> show_acc_ok (show_line acc l)"
  unfolding show_line_def
  by (simp add: show_acc_ok_update split: option.split prod.split)

lemma show_lines_ok: "show_acc_ok acc \<Longrightarrow> show_acc_ok (foldl show_line acc ls)"
  by (induction ls arbitrary: acc) (simp_all add: show_line_ok)

lemma parse_systemctl_show_ok:
  "us_memory_bytes (parse_systemctl_show unit out) \<noteq> Some (- 1)"
  "us_main_pid (parse_systemctl_show unit out) \<noteq> Some 0"
  "us_memory_source (parse_systemctl_show unit out) = None \<longleftrightarrow> us_memory_bytes (parse_systemctl_show unit out) = None"
proof -
  have "show_acc_ok (foldl show_line \<lparr>sa_load = [], sa_active = [], sa_sub = [], sa_file = [],
      sa_pid = None, sa_mem = None, sa_since = None\<rparr> (str_lines out))"
    by (rule show_lines_ok) (simp add: show_acc_ok_def)
  then show "us_memory_bytes (parse_systemctl_show unit out) \<noteq> Some (- 1)"
    "us_main_pid (parse_systemctl_show unit out) \<noteq> Some 0"
    "us_memory_source (parse_systemctl_show unit out) = None \<longleftrightarrow> us_memory_bytes (parse_systemctl_show unit out) = None"
    by (simp_all add: parse_systemctl_show_def Let_def show_acc_ok_def)
qed

section \<open>Properties\<close>

text \<open>
  The names the panel builds from a validated Linux user and application name are always
  accepted by \<open>UnitName::parse\<close> and kept as they are, so the \<open>expect\<close> calls of
  \<open>app_unit_name\<close> and \<open>slice_unit_name\<close> never panic.
\<close>

theorem built_unit_names_parse:
  assumes "linux_user_parse s = Inr u" "app_name_parse t = Inr a"
  shows "app_unit_name u a = Inr (UnitName (unit_file_name u a))
    \<and> slice_unit_name u = Inr (UnitName (slice_file_name u))"
  using valid_unit_file_name [OF assms] valid_slice_file_name [OF assms(1)]
  by (simp add: app_unit_name_def slice_unit_name_def unit_name_parse_iff trim_unit_name)

lemma built_unit_names_parse_witness:
  "slice_unit_name (LinuxUser ''bob_1'') = Inr (UnitName ''unihelm-bob_1.slice'')"
  using built_unit_names_parse [OF parse_examples(2) parse_examples(6)]
  by (simp add: slice_file_name_def str_replace_char_def)

text \<open>
  Every unit of the managed whitelist resolves, on both families, to a name that
  \<open>UnitName::parse\<close> accepts, although \<open>unit_name\<close> builds it without parsing; and two
  different managed units never resolve to the same name on one family.
\<close>

theorem managed_units_resolve:
  "unit_name_parse (unit_name_as_str (managed_unit_name u f)) = Inr (managed_unit_name u f)
   \<and> inj (\<lambda>v. managed_unit_name v f)"
proof
  have "valid_unit_name (managed_name u f)"
    by (cases "(u, f)" rule: managed_name.cases; (cases "case u of PhpFpm v \<Rightarrow> v | _ \<Rightarrow> V74")?;
        simp add: valid_unit_name_def unit_suffixes_def unit_char_def ascii_defs byte_def
          ends_with_def suffix_def str_contains_iff [symmetric] str_contains_def postgres_major_def
          show_nat.simps digit_char_def char_of_def bit_0)
  then show "unit_name_parse (unit_name_as_str (managed_unit_name u f)) = Inr (managed_unit_name u f)"
    by (simp add: managed_unit_name_def unit_name_parse_iff trim_unit_name)
  have "managed_name v f = managed_name w f \<Longrightarrow> v = w" for v w
    by (cases f; cases v; cases w; simp add: php_str_inj postgres_major_def show_nat.simps)
  then show "inj (\<lambda>v. managed_unit_name v f)"
    by (auto simp: managed_unit_name_def intro: injI)
qed

text \<open>
  Slice names keep tenants apart. For validated users the slice name determines the user, and
  it holds exactly one hyphen, so systemd nests every tenant exactly one level below
  \<open>unihelm.slice\<close>.
\<close>

theorem slice_names_are_siblings:
  assumes "linux_user_parse s = Inr u" "linux_user_parse t = Inr v"
  shows "(slice_file_name u = slice_file_name v \<longrightarrow> u = v)
    \<and> count_list (slice_file_name u) CHR ''-'' = 1"
proof
  have esc: "CHR 0x5C \<notin> set (linux_user_as_str w)" if "linux_user_parse x = Inr w" for w x
    using lu.never_contains [OF that] by (simp add: user_char_def ascii_defs byte_def)
  show "slice_file_name u = slice_file_name v \<longrightarrow> u = v"
    using str_replace_char_inj [of "CHR ''-''" "CHR 0x5C" "''x2d''"] esc [OF assms(1)] esc [OF assms(2)]
    by (auto simp: slice_file_name_def intro: linux_user.expand)
  have "count_list (str_replace_char CHR ''-'' (CHR 0x5C # ''x2d'') x) CHR ''-'' = 0" for x
    by (induction x) (auto simp: str_replace_char_def)
  then show "count_list (slice_file_name u) CHR ''-'' = 1"
    by (simp add: slice_file_name_def)
qed

lemma slice_names_are_siblings_witness:
  "count_list (slice_file_name (LinuxUser ''bob_1'')) CHR ''-'' = 1"
  using slice_names_are_siblings [OF parse_examples(2) parse_examples(2)] by blast

text \<open>
  An application's unit name identifies its tenant and its name when the Linux users hold no
  hyphen (the panel generates \<open>uh_\<close> and eight letters or digits), and not otherwise: two
  different pairs of values that both types accept share one unit file name.
\<close>

theorem unit_file_name_identifies_app:
  assumes "linux_user_parse s = Inr u" "app_name_parse t = Inr a"
    "linux_user_parse s' = Inr u'" "app_name_parse t' = Inr a'"
    "CHR ''-'' \<notin> set (linux_user_as_str u)" "CHR ''-'' \<notin> set (linux_user_as_str u')"
  shows "(unit_file_name u a = unit_file_name u' a' \<longleftrightarrow> u = u' \<and> a = a')
    \<and> unit_file_name (LinuxUser ''a'') (AppName ''b-c'') = unit_file_name (LinuxUser ''a-b'') (AppName ''c'')"
proof
  have eq: "linux_user_as_str u = linux_user_as_str u' \<and> app_name_as_str a = app_name_as_str a'"
    if "linux_user_as_str u @ CHR ''-'' # app_name_as_str a = linux_user_as_str u' @ CHR ''-'' # app_name_as_str a'"
    using that assms(5,6) split_once_Some [of "CHR ''-''"] by (metis option.inject prod.inject)
  then show "unit_file_name u a = unit_file_name u' a' \<longleftrightarrow> u = u' \<and> a = a'"
    by (auto simp: unit_file_name_def intro: linux_user.expand app_name.expand)
qed (simp add: unit_file_name_def)

lemma unit_file_name_identifies_app_witness:
  "unit_file_name (LinuxUser ''bob_1'') (AppName ''bob_1'') = unit_file_name (LinuxUser ''bob_1'') (AppName ''bob_1'')
    \<longleftrightarrow> LinuxUser ''bob_1'' = LinuxUser ''bob_1''"
  using unit_file_name_identifies_app [OF parse_examples(2) parse_examples(6) parse_examples(2) parse_examples(6)]
  by simp

text \<open>
  A memory reading always says where it comes from, and a reading of systemd's
  \<open>no value\<close> (the largest \<open>u64\<close>) is no reading; whatever \<open>systemctl\<close> and the
  cgroup file print.
\<close>

theorem memory_reading_has_source:
  "(us_memory_bytes (apply_memory_stat (parse_systemctl_show unit out) stat) = None
    \<longleftrightarrow> us_memory_source (apply_memory_stat (parse_systemctl_show unit out) stat) = None)
   \<and> us_memory_bytes (parse_systemctl_show unit out) \<noteq> Some (- 1)
   \<and> us_main_pid (parse_systemctl_show unit out) \<noteq> Some 0"
  using parse_systemctl_show_ok [of unit out]
  by (simp add: apply_memory_stat_def split: option.split)

text \<open>
  What a tenant slice renders is inside systemd's ranges for any stored limits, and below
  477218589 MiB (where the \<open>u32\<close> product does not wrap) the throttling point is 90 percent
  of the cap and strictly below it.
\<close>

theorem slice_limits_in_range:
  assumes "ts_memory_max_mb limits = Some mb" "unat mb \<le> 477218588"
    "ts_cpu_quota_pct limits = Some cpu" "ts_io_weight limits = Some w" "ts_pids_max limits = Some p"
  shows "\<exists>mx high cpu' w' p'.
      slice_context_new user limits
        = \<lparr>sc_linux_user = linux_user_as_str user, sc_memory_max_mb = Some mx, sc_memory_high_mb = Some high,
           sc_cpu_quota_pct = Some cpu', sc_pids_max = Some p', sc_io_weight = Some w'\<rparr>
      \<and> unat mx = max (unat mb) 32 \<and> unat high = unat mx * 9 div 10 \<and> high < mx
      \<and> 1 \<le> unat cpu' \<and> unat cpu' \<le> 10000 \<and> 1 \<le> unat w' \<and> unat w' \<le> 10000 \<and> 8 \<le> unat p'"
proof -
  define mx where "mx = max mb 32"
  have m: "unat mx = max (unat mb) 32"
    by (simp add: mx_def max_def word_le_nat_alt)
  then have b: "unat mx \<le> 477218588" "32 \<le> unat mx" using assms(2) by auto
  have "unat (mx * 9) = unat mx * 9"
    using b by (simp add: unat_word_ariths)
  then have h: "unat (mx * 9 div 10) = unat mx * 9 div 10"
    by (simp add: unat_div)
  have "28 \<le> unat mx * 9 div 10" using b by simp
  then have hi: "max (mx * 9 div 10) 16 = mx * 9 div 10"
    by (simp add: max_def word_le_nat_alt h)
  have lt: "mx * 9 div 10 < mx"
    using b by (simp add: word_less_nat_alt h)
  have cl: "1 \<le> unat (clamp 1 10000 x) \<and> unat (clamp 1 10000 x) \<le> 10000" for x
    by (auto simp: clamp_def word_less_nat_alt)
  have p8: "8 \<le> unat (max p 8)"
    by (simp add: max_def word_le_nat_alt)
  show ?thesis
    using assms m h lt cl [of cpu] cl [of w] p8
    by (simp add: slice_context_new_def Let_def hi mx_def [symmetric])
qed

lemma slice_limits_in_range_witness:
  "sc_memory_high_mb (slice_context_new (LinuxUser ''bob_1'')
     \<lparr>ts_memory_max_mb = Some 512, ts_cpu_quota_pct = Some 0, ts_pids_max = Some 1, ts_io_weight = Some 0\<rparr>) = Some 460
   \<and> (\<exists>mx. sc_memory_max_mb (slice_context_new (LinuxUser ''bob_1'')
     \<lparr>ts_memory_max_mb = Some 512, ts_cpu_quota_pct = Some 0, ts_pids_max = Some 1, ts_io_weight = Some 0\<rparr>) = Some mx
        \<and> unat mx = 512)"
  using slice_limits_in_range [of "\<lparr>ts_memory_max_mb = Some 512, ts_cpu_quota_pct = Some 0,
      ts_pids_max = Some 1, ts_io_weight = Some 0\<rparr>" 512 0 0 1 "LinuxUser ''bob_1''"]
  by (auto simp: slice_context_new_def Let_def max_def)

end
