(* ===== verification/Rbac.thy ===== *)
theory Rbac
  imports Newtypes
begin

text \<open>
  Roles, permissions and tenant scopes: \<open>unihelm-core/src/rbac.rs\<close>. A context is a record;
  its \<open>BTreeSet\<close> of permissions is a set, ordered by the instance of \<open>linorder\<close>
  below where the order is visible. The lemmas show what a chain of narrowings leaves, and when
  a scope covers another.
\<close>

type_synonym user_id = int
type_synonym subscription_id = int
type_synonym site_id = int
type_synonym plan_id = int

datatype role = Admin | Reseller | Customer

fun role_as_str :: "role \<Rightarrow> str" where
  "role_as_str Admin = ''admin''"
| "role_as_str Reseller = ''reseller''"
| "role_as_str Customer = ''customer''"

definition role_parse :: "str \<Rightarrow> role res" where
  "role_parse s =
     (if s = ''admin'' then Inr Admin
      else if s = ''reseller'' then Inr Reseller
      else if s = ''customer'' then Inr Customer
      else Inl (new_error InvalidInput (''`'' @ s @ ''` is not a valid role'')))"

lemma role_parse_total: "role_parse (role_as_str r) = Inr r"
  by (cases r) (simp_all add: role_parse_def)

interpretation role: string_enum role_parse role_as_str
  by unfold_locales (rule role_parse_total)+

datatype permission =
    ServerRead | ServerManage | StackManage | UserManage | PlanManage | Impersonate | AuditRead
  | TaskRead | TaskCancel | SiteRead | SiteManage | DbManage | FileManage | CronManage | SshAccess
  | NodeApps | DockerApps | BackupManage | FirewallManage | DnsManage | TerminalAccess

definition all_permissions :: "permission list" where
  "all_permissions =
     [ServerRead, ServerManage, StackManage, UserManage, PlanManage, Impersonate, AuditRead,
      TaskRead, TaskCancel, SiteRead, SiteManage, DbManage, FileManage, CronManage, SshAccess,
      NodeApps, DockerApps, BackupManage, FirewallManage, DnsManage, TerminalAccess]"

fun permission_as_str :: "permission \<Rightarrow> str" where
  "permission_as_str ServerRead = ''server_read''"
| "permission_as_str ServerManage = ''server_manage''"
| "permission_as_str StackManage = ''stack_manage''"
| "permission_as_str UserManage = ''user_manage''"
| "permission_as_str PlanManage = ''plan_manage''"
| "permission_as_str Impersonate = ''impersonate''"
| "permission_as_str AuditRead = ''audit_read''"
| "permission_as_str TaskRead = ''task_read''"
| "permission_as_str TaskCancel = ''task_cancel''"
| "permission_as_str SiteRead = ''site_read''"
| "permission_as_str SiteManage = ''site_manage''"
| "permission_as_str DbManage = ''db_manage''"
| "permission_as_str FileManage = ''file_manage''"
| "permission_as_str CronManage = ''cron_manage''"
| "permission_as_str SshAccess = ''ssh_access''"
| "permission_as_str NodeApps = ''node_apps''"
| "permission_as_str DockerApps = ''docker_apps''"
| "permission_as_str BackupManage = ''backup_manage''"
| "permission_as_str FirewallManage = ''firewall_manage''"
| "permission_as_str DnsManage = ''dns_manage''"
| "permission_as_str TerminalAccess = ''terminal_access''"

lemma set_all_permissions: "set all_permissions = UNIV"
proof -
  have "p \<in> set all_permissions" for p
    by (cases p) (simp_all add: all_permissions_def)
  then show ?thesis by auto
qed

lemma distinct_permission_strs: "distinct (map permission_as_str all_permissions)"
  by (simp add: all_permissions_def)

lemma permission_as_str_inject [simp]: "permission_as_str p = permission_as_str q \<longleftrightarrow> p = q"
  using distinct_permission_strs set_all_permissions
  by (auto simp: distinct_map inj_on_def)

text \<open>\<open>derive(Ord)\<close>: the order of declaration, which is the order of a \<open>BTreeSet\<close>.\<close>

fun list_pos :: "'a list \<Rightarrow> 'a \<Rightarrow> nat" where
  "list_pos [] a = 0"
| "list_pos (x # xs) a = (if x = a then 0 else Suc (list_pos xs a))"

lemma list_pos_inj: "a \<in> set xs \<Longrightarrow> list_pos xs a = list_pos xs b \<Longrightarrow> a = b"
  by (induction xs) (auto split: if_splits)

definition perm_rank :: "permission \<Rightarrow> nat" where
  "perm_rank p = list_pos all_permissions p"

lemma perm_rank_inj: "perm_rank p = perm_rank q \<Longrightarrow> p = q"
  using set_all_permissions by (auto simp: perm_rank_def intro: list_pos_inj)

instantiation permission :: linorder
begin

definition less_eq_permission :: "permission \<Rightarrow> permission \<Rightarrow> bool" where
  "less_eq_permission p q \<longleftrightarrow> perm_rank p \<le> perm_rank q"

definition less_permission :: "permission \<Rightarrow> permission \<Rightarrow> bool" where
  "less_permission p q \<longleftrightarrow> perm_rank p < perm_rank q"

instance
  by standard (auto simp: less_eq_permission_def less_permission_def intro: perm_rank_inj)

end

fun default_permissions :: "role \<Rightarrow> permission list" where
  "default_permissions Admin =
     [ServerRead, ServerManage, StackManage, UserManage, PlanManage, Impersonate, AuditRead,
      TaskRead, TaskCancel, SiteRead, SiteManage, DbManage, FileManage, CronManage, SshAccess,
      NodeApps, DockerApps, BackupManage, FirewallManage, DnsManage, TerminalAccess]"
| "default_permissions Reseller =
     [ServerRead, UserManage, PlanManage, AuditRead, TaskRead, TaskCancel, SiteRead, SiteManage,
      DbManage, FileManage, CronManage, NodeApps, BackupManage]"
| "default_permissions Customer =
     [TaskRead, TaskCancel, SiteRead, SiteManage, DbManage, FileManage, CronManage, BackupManage,
      TerminalAccess]"

section \<open>Scopes\<close>

datatype tenant_scope =
    ScGlobal
  | ScReseller (reseller_id: user_id)
  | ScCustomer (sc_customer_id: user_id)
  | ScSubscription (sc_subscription_id: subscription_id) (sc_customer_id: user_id)

fun scope_contains :: "tenant_scope \<Rightarrow> tenant_scope \<Rightarrow> bool" where
  "scope_contains ScGlobal _ = True"
| "scope_contains (ScReseller a) (ScReseller b) = (a = b)"
| "scope_contains (ScReseller _) _ = False"
| "scope_contains (ScCustomer a) (ScCustomer b) = (a = b)"
| "scope_contains (ScCustomer a) (ScSubscription _ b) = (a = b)"
| "scope_contains (ScCustomer _) _ = False"
| "scope_contains (ScSubscription a _) (ScSubscription b _) = (a = b)"
| "scope_contains (ScSubscription _ _) _ = False"

fun scope_customer_id :: "tenant_scope \<Rightarrow> user_id option" where
  "scope_customer_id (ScCustomer c) = Some c"
| "scope_customer_id (ScSubscription _ c) = Some c"
| "scope_customer_id _ = None"

fun scope_subscription_id :: "tenant_scope \<Rightarrow> subscription_id option" where
  "scope_subscription_id (ScSubscription s _) = Some s"
| "scope_subscription_id _ = None"

fun scope_is_global :: "tenant_scope \<Rightarrow> bool" where
  "scope_is_global ScGlobal = True"
| "scope_is_global _ = False"

section \<open>The context of an operation\<close>

record auth_context =
  actor_user_id :: user_id
  acting_role :: role
  tenant_scope :: tenant_scope
  impersonator_id :: "user_id option"
  permissions :: "permission set"
  request_id :: str

definition from_role :: "user_id \<Rightarrow> role \<Rightarrow> tenant_scope \<Rightarrow> str \<Rightarrow> auth_context" where
  "from_role actor r scope req =
     \<lparr>actor_user_id = actor, acting_role = r, tenant_scope = scope, impersonator_id = None,
      permissions = set (default_permissions r), request_id = req\<rparr>"

definition system_actor :: user_id where
  "system_actor = 0"

definition system_auth :: "str \<Rightarrow> auth_context" where
  "system_auth reason =
     \<lparr>actor_user_id = system_actor, acting_role = Admin, tenant_scope = ScGlobal,
      impersonator_id = None, permissions = set (default_permissions Admin),
      request_id = ''scheduler-'' @ reason\<rparr>"

definition is_system :: "auth_context \<Rightarrow> bool" where
  "is_system a \<longleftrightarrow> actor_user_id a = system_actor"

definition restrict_to :: "auth_context \<Rightarrow> permission list \<Rightarrow> auth_context" where
  "restrict_to a allowed = a\<lparr>permissions := {p \<in> permissions a. p \<in> set allowed}\<rparr>"

fun revoke :: "auth_context \<Rightarrow> permission list \<Rightarrow> auth_context" where
  "revoke a [] = a"
| "revoke a (p # denied) = revoke (a\<lparr>permissions := permissions a - {p}\<rparr>) denied"

definition has_perm :: "auth_context \<Rightarrow> permission \<Rightarrow> bool" where
  "has_perm a p \<longleftrightarrow> p \<in> permissions a"

definition require_perm :: "auth_context \<Rightarrow> permission \<Rightarrow> unit res" where
  "require_perm a p =
     (if has_perm a p then Inr ()
      else Inl (new_error PermissionDenied (''missing permission `'' @ permission_as_str p @ ''`'')))"

definition require_scope :: "auth_context \<Rightarrow> tenant_scope \<Rightarrow> unit res" where
  "require_scope a target =
     (if scope_contains (tenant_scope a) target then Inr ()
      else Inl (new_error TenantScopeViolation
                 ''the requested resource is outside your tenant scope''))"

definition is_impersonating :: "auth_context \<Rightarrow> bool" where
  "is_impersonating a \<longleftrightarrow> impersonator_id a \<noteq> None"

lemma revoke_eq: "revoke a denied = a\<lparr>permissions := permissions a - set denied\<rparr>"
  by (induction a denied rule: revoke.induct) (simp_all add: Diff_insert2 [symmetric])

lemma restrict_to_permissions [simp]: "permissions (restrict_to a ps) = permissions a \<inter> set ps"
  by (auto simp: restrict_to_def)

lemma restrict_to_fields [simp]:
  "actor_user_id (restrict_to a ps) = actor_user_id a" "acting_role (restrict_to a ps) = acting_role a"
  "tenant_scope (restrict_to a ps) = tenant_scope a" "request_id (restrict_to a ps) = request_id a"
  "impersonator_id (restrict_to a ps) = impersonator_id a"
  by (simp_all add: restrict_to_def)

text \<open>A context derived from a role: the steps the panel applies after \<open>from_role\<close>.\<close>

datatype narrowing = RestrictTo "permission list" | Revoke "permission list"

fun narrow :: "auth_context \<Rightarrow> narrowing \<Rightarrow> auth_context" where
  "narrow a (RestrictTo ps) = restrict_to a ps"
| "narrow a (Revoke ps) = revoke a ps"

fun keeps :: "permission \<Rightarrow> narrowing \<Rightarrow> bool" where
  "keeps p (RestrictTo ps) = (p \<in> set ps)"
| "keeps p (Revoke ps) = (p \<notin> set ps)"

lemma has_perm_narrow: "has_perm (narrow a n) p \<longleftrightarrow> has_perm a p \<and> keeps p n"
  by (cases n) (auto simp: has_perm_def revoke_eq)

lemma narrow_fields:
  "actor_user_id (narrow a n) = actor_user_id a" "acting_role (narrow a n) = acting_role a"
  "tenant_scope (narrow a n) = tenant_scope a"
  by (cases n; simp add: revoke_eq)+

section \<open>Properties\<close>

text \<open>
  Permissions only ever narrow. After any sequence of \<open>restrict_to\<close> and
  \<open>revoke\<close> a context holds exactly the role's defaults that every step kept, whatever the
  order, and the actor, the role and the scope are unchanged; so \<open>require\<close> succeeds exactly
  there and fails with \<open>PermissionDenied\<close> everywhere else.
\<close>

theorem permissions_only_narrow:
  "(require_perm (foldl narrow (from_role actor r scope req) steps) p = Inr ()
      \<longleftrightarrow> p \<in> set (default_permissions r) \<and> list_all (keeps p) steps)
   \<and> (case require_perm (foldl narrow (from_role actor r scope req) steps) p of
        Inl e \<Rightarrow> err_code e = PermissionDenied | Inr _ \<Rightarrow> True)
   \<and> actor_user_id (foldl narrow (from_role actor r scope req) steps) = actor
   \<and> acting_role (foldl narrow (from_role actor r scope req) steps) = r
   \<and> tenant_scope (foldl narrow (from_role actor r scope req) steps) = scope"
proof -
  have "has_perm (foldl narrow a steps) p \<longleftrightarrow> has_perm a p \<and> list_all (keeps p) steps"
    "actor_user_id (foldl narrow a steps) = actor_user_id a"
    "acting_role (foldl narrow a steps) = acting_role a"
    "tenant_scope (foldl narrow a steps) = tenant_scope a" for a
    by (induction steps arbitrary: a) (auto simp: has_perm_narrow narrow_fields)
  then show ?thesis
    by (auto simp: require_perm_def from_role_def has_perm_def)
qed

text \<open>
  The role defaults are nested: an admin holds every permission, a reseller holds every
  permission of a customer except the terminal, no role but admin can manage the server, the
  stack, the firewall, DNS, shell access or Docker, or impersonate; and no default is listed
  twice.
\<close>

theorem role_defaults_nested:
  "set (default_permissions Admin) = UNIV
   \<and> set (default_permissions Customer) - set (default_permissions Reseller) = {TerminalAccess}
   \<and> set (default_permissions Admin) - (set (default_permissions Reseller) \<union> set (default_permissions Customer))
       = {ServerManage, StackManage, Impersonate, SshAccess, DockerApps, FirewallManage, DnsManage}
   \<and> (\<forall>r. distinct (default_permissions r))"
proof (intro conjI allI)
  show "set (default_permissions Admin) = UNIV"
    using set_all_permissions by (simp add: all_permissions_def)
  show "distinct (default_permissions r)" for r
    by (cases r) simp_all
qed auto

text \<open>
  \<open>contains\<close> orders scopes. It is reflexive, the global scope contains every scope and
  is contained only in itself, no other scope reaches a reseller scope but its own, and when each
  subscription scope names its real owner it is transitive.
\<close>

theorem scope_containment_preorder:
  assumes owner: "list_all (\<lambda>s. case s of ScSubscription i c \<Rightarrow> owner i = c | _ \<Rightarrow> True) [a, b, c]"
  shows "scope_contains a a \<and> scope_contains ScGlobal a
    \<and> (scope_contains a ScGlobal \<longleftrightarrow> a = ScGlobal)
    \<and> (scope_contains a (ScReseller r) \<longleftrightarrow> a = ScGlobal \<or> a = ScReseller r)
    \<and> (scope_contains a b \<and> scope_contains b c \<longrightarrow> scope_contains a c)"
  using owner by (cases a; cases b; cases c) auto

lemma scope_containment_preorder_witness:
  "scope_contains (ScCustomer 7) (ScSubscription 3 7) \<and> \<not> scope_contains (ScCustomer 7) ScGlobal"
  using scope_containment_preorder [of "\<lambda>_. 7" "ScCustomer 7" "ScSubscription 3 7" "ScSubscription 3 7"]
  by simp

end
