(* ===== verification/Plans.thy ===== *)
theory Plans
  imports Rbac
begin

text \<open>
  Plans, quotas and the reseller allocation: \<open>unihelm-core/src/plan.rs\<close>. A limit is an
  optional \<open>u64\<close>, none meaning unlimited; the sums saturate. The lemmas relate the word
  arithmetic to sums of naturals, show that plans add up in any order, and give the exact
  meaning of every check.
\<close>

type_synonym limit = "u64 option"

text \<open>\<open>u64::saturating_add\<close>.\<close>

definition saturating_add :: "u64 \<Rightarrow> u64 \<Rightarrow> u64" where
  "saturating_add x y = (if unat x + unat y < 2 ^ 64 then x + y else - 1)"

fun add_limits :: "limit \<Rightarrow> limit \<Rightarrow> limit" where
  "add_limits (Some x) (Some y) = Some (saturating_add x y)"
| "add_limits _ _ = None"

fun fits :: "limit \<Rightarrow> limit \<Rightarrow> bool" where
  "fits _ None = True"
| "fits None (Some _) = False"
| "fits (Some v) (Some c) = (v \<le> c)"

record plan_limits =
  disk_mb :: limit
  inode_count :: limit
  monthly_bandwidth_mb :: limit
  site_count :: limit
  db_count :: limit
  mailbox_count :: limit
  cron_count :: limit
  nodejs_app_count :: limit
  php_workers_max :: limit
  memory_mb :: limit
  cpu_pct :: limit
  backup_quota_mb :: limit

definition default_limits :: plan_limits where
  "default_limits =
     \<lparr>disk_mb = None, inode_count = None, monthly_bandwidth_mb = None, site_count = None,
      db_count = None, mailbox_count = None, cron_count = None, nodejs_app_count = None,
      php_workers_max = None, memory_mb = None, cpu_pct = None, backup_quota_mb = None\<rparr>"

text \<open>\<open>for_each_limit!\<close>: the name of each field, its label and its value.\<close>

definition limit_fields :: "(str \<times> str \<times> (plan_limits \<Rightarrow> limit)) list" where
  "limit_fields =
     [(''disk_mb'', ''disk'', disk_mb), (''inode_count'', ''inodes'', inode_count),
      (''monthly_bandwidth_mb'', ''bandwidth'', monthly_bandwidth_mb),
      (''site_count'', ''sites'', site_count), (''db_count'', ''databases'', db_count),
      (''mailbox_count'', ''mailboxes'', mailbox_count), (''cron_count'', ''cron jobs'', cron_count),
      (''nodejs_app_count'', ''node apps'', nodejs_app_count),
      (''php_workers_max'', ''php workers'', php_workers_max), (''memory_mb'', ''memory'', memory_mb),
      (''cpu_pct'', ''cpu'', cpu_pct), (''backup_quota_mb'', ''backup quota'', backup_quota_mb)]"

definition plus_limits :: "plan_limits \<Rightarrow> plan_limits \<Rightarrow> plan_limits" where
  "plus_limits a b =
     \<lparr>disk_mb = add_limits (disk_mb a) (disk_mb b),
      inode_count = add_limits (inode_count a) (inode_count b),
      monthly_bandwidth_mb = add_limits (monthly_bandwidth_mb a) (monthly_bandwidth_mb b),
      site_count = add_limits (site_count a) (site_count b),
      db_count = add_limits (db_count a) (db_count b),
      mailbox_count = add_limits (mailbox_count a) (mailbox_count b),
      cron_count = add_limits (cron_count a) (cron_count b),
      nodejs_app_count = add_limits (nodejs_app_count a) (nodejs_app_count b),
      php_workers_max = add_limits (php_workers_max a) (php_workers_max b),
      memory_mb = add_limits (memory_mb a) (memory_mb b),
      cpu_pct = add_limits (cpu_pct a) (cpu_pct b),
      backup_quota_mb = add_limits (backup_quota_mb a) (backup_quota_mb b)\<rparr>"

definition show_limit :: "limit \<Rightarrow> str" where
  "show_limit l = (case l of Some v \<Rightarrow> show_word v | None \<Rightarrow> ''unlimited'')"

definition limit_error :: "str \<Rightarrow> str \<Rightarrow> limit \<Rightarrow> limit \<Rightarrow> uni_error" where
  "limit_error field_name label v c =
     with_field (new_error ResellerAllocationExceeded
       (label @ '' would exceed the allocation ('' @ show_limit v @ '' requested, ''
        @ show_limit c @ '' available)'')) field_name"

fun fits_fields ::
  "(str \<times> str \<times> (plan_limits \<Rightarrow> limit)) list \<Rightarrow> plan_limits \<Rightarrow> plan_limits \<Rightarrow> unit res" where
  "fits_fields [] v c = Inr ()"
| "fits_fields ((name, label, get) # fs) v c =
     (if \<not> fits (get v) (get c) then Inl (limit_error name label (get v) (get c))
      else fits_fields fs v c)"

definition fits_within :: "plan_limits \<Rightarrow> plan_limits \<Rightarrow> unit res" where
  "fits_within v ceiling = fits_fields limit_fields v ceiling"

definition assignment_fits :: "plan_limits \<Rightarrow> plan_limits \<Rightarrow> plan_limits \<Rightarrow> unit res" where
  "assignment_fits already_used candidate ceiling =
     fits_within (plus_limits already_used candidate) ceiling"

section \<open>Features\<close>

record plan_features =
  can_ssh :: bool
  can_docker_apps :: bool
  can_node_apps :: bool
  can_cron :: bool
  can_backups :: bool
  can_manage_dns :: bool
  allowed_php_versions :: "php_version list"

definition default_features :: plan_features where
  "default_features =
     \<lparr>can_ssh = False, can_docker_apps = False, can_node_apps = False, can_cron = True,
      can_backups = True, can_manage_dns = False, allowed_php_versions = []\<rparr>"

definition denied_permissions :: "plan_features \<Rightarrow> permission list" where
  "denied_permissions f =
     (if \<not> can_ssh f then [SshAccess, TerminalAccess] else [])
     @ (if \<not> can_docker_apps f then [DockerApps] else [])
     @ (if \<not> can_node_apps f then [NodeApps] else [])
     @ (if \<not> can_cron f then [CronManage] else [])
     @ (if \<not> can_backups f then [BackupManage] else [])
     @ (if \<not> can_manage_dns f then [DnsManage] else [])"

definition allows_php :: "plan_features \<Rightarrow> php_version \<Rightarrow> bool" where
  "allows_php f v \<longleftrightarrow> allowed_php_versions f = [] \<or> v \<in> set (allowed_php_versions f)"

section \<open>Headroom\<close>

record quota_usage =
  q_disk_mb :: u64
  q_inode_count :: u64
  q_monthly_bandwidth_mb :: u64
  q_site_count :: u64
  q_db_count :: u64
  q_cron_count :: u64
  q_nodejs_app_count :: u64
  q_backup_mb :: u64

datatype counted_resource = CrSite | CrDatabase | CrCronJob | CrNodeApp

fun counted :: "quota_usage \<Rightarrow> plan_limits \<Rightarrow> counted_resource \<Rightarrow> u64 \<times> limit \<times> str" where
  "counted u l CrSite = (q_site_count u, site_count l, ''sites'')"
| "counted u l CrDatabase = (q_db_count u, db_count l, ''databases'')"
| "counted u l CrCronJob = (q_cron_count u, cron_count l, ''cron jobs'')"
| "counted u l CrNodeApp = (q_nodejs_app_count u, nodejs_app_count l, ''node apps'')"

definition check_headroom :: "quota_usage \<Rightarrow> plan_limits \<Rightarrow> counted_resource \<Rightarrow> unit res" where
  "check_headroom u limits what =
     (let (used, lim, label) = counted u limits what in
      case lim of
        None \<Rightarrow> Inr ()
      | Some mx \<Rightarrow>
          if used < mx then Inr ()
          else Inl (new_error QuotaExceeded
                 (''plan allows '' @ show_word mx @ '' '' @ label @ ''; '' @ show_word used
                  @ '' already in use'')))"

section \<open>Lemmas\<close>

text \<open>The number a limit stands for, saturated at \<open>u64::MAX\<close>.\<close>

definition limit_top :: nat where
  "limit_top = 2 ^ 64 - 1"

lemma unat_saturating_add: "unat (saturating_add x y) = min (unat x + unat y) limit_top"
proof (cases "unat x + unat y < 2 ^ 64")
  case True
  then have "unat (x + y) = unat x + unat y"
    by (simp add: unat_word_ariths)
  with True show ?thesis
    by (simp add: saturating_add_def limit_top_def)
next
  case False
  then show ?thesis
    by (simp add: saturating_add_def limit_top_def unsigned_minus_1_eq_mask mask_eq_exp_minus_1)
qed

lemma unat_le_limit_top: "unat (x :: u64) \<le> limit_top"
  using unsigned_less [of x, where 'a = nat] by (simp add: limit_top_def)

lemma saturating_add_commute: "saturating_add x y = saturating_add y x"
  by (simp add: saturating_add_def add.commute)

lemma saturating_add_assoc:
  "saturating_add (saturating_add x y) z = saturating_add x (saturating_add y z)"
  by (auto simp: word_unat_eq_iff unat_saturating_add min_def)

lemma add_limits_commute: "add_limits a b = add_limits b a"
  by (cases a; cases b) (simp_all add: saturating_add_commute)

lemma add_limits_assoc: "add_limits (add_limits a b) c = add_limits a (add_limits b c)"
  by (cases a; cases b; cases c) (simp_all add: saturating_add_assoc)

lemma fits_add:
  "fits (add_limits a b) (Some c) \<longleftrightarrow>
     (\<exists>x y. a = Some x \<and> b = Some y \<and> min (unat x + unat y) limit_top \<le> unat c)"
  by (cases a; cases b) (auto simp: word_le_nat_alt unat_saturating_add)

lemma fits_trans: "fits a b \<Longrightarrow> fits b c \<Longrightarrow> fits a c"
  by (cases a; cases b; cases c) auto

lemma fits_add_left: "fits (add_limits a b) c \<Longrightarrow> fits a c"
  by (cases a; cases b; cases c)
    (auto simp: word_le_nat_alt unat_saturating_add min_def split: if_splits intro: order_trans unat_le_limit_top)

lemma fits_fields_ok: "fits_fields fs v c = Inr () \<longleftrightarrow> list_all (\<lambda>(_, _, get). fits (get v) (get c)) fs"
  by (induction fs v c rule: fits_fields.induct) auto

lemma fits_fields_first:
  "fits_fields fs v c =
     (case find (\<lambda>(_, _, get). \<not> fits (get v) (get c)) fs of
        None \<Rightarrow> Inr ()
      | Some (name, label, get) \<Rightarrow> Inl (limit_error name label (get v) (get c)))"
  by (induction fs v c rule: fits_fields.induct) auto

lemma fits_within_iff:
  "fits_within v c = Inr () \<longleftrightarrow> (\<forall>(n, l, get) \<in> set limit_fields. fits (get v) (get c))"
  by (simp add: fits_within_def fits_fields_ok list_all_iff)

lemma get_plus:
  "(n, l, get) \<in> set limit_fields \<Longrightarrow> get (plus_limits a b) = add_limits (get a) (get b)"
  by (auto simp: limit_fields_def plus_limits_def)

section \<open>Properties\<close>

text \<open>
  A plan may be assigned exactly when, field by field, the used amount and the candidate add
  up to no more than the ceiling: an unlimited ceiling always holds, an unlimited amount never
  fits a limited ceiling, and the sum is the real one up to saturation at \<open>u64::MAX\<close>.
  Otherwise the error is that of the first field that does not fit.
\<close>

theorem assignment_fits_exactly:
  "(assignment_fits used cand ceiling = Inr () \<longleftrightarrow>
      list_all (\<lambda>(_, _, get).
        (case get ceiling of
           None \<Rightarrow> True
         | Some c \<Rightarrow> (\<exists>x y. get used = Some x \<and> get cand = Some y
              \<and> min (unat x + unat y) (2 ^ 64 - 1) \<le> unat c))) limit_fields)
   \<and> (case assignment_fits used cand ceiling of
        Inr _ \<Rightarrow> True
      | Inl e \<Rightarrow> (\<exists>n l get. find (\<lambda>(_, _, g). \<not> fits (g (plus_limits used cand)) (g ceiling)) limit_fields = Some (n, l, get)
          \<and> e = limit_error n l (get (plus_limits used cand)) (get ceiling)
          \<and> err_code e = ResellerAllocationExceeded \<and> field e = Some n))"
proof
  have one: "fits (add_limits a b) c \<longleftrightarrow> (case c of None \<Rightarrow> True
      | Some c \<Rightarrow> (\<exists>x y. a = Some x \<and> b = Some y \<and> min (unat x + unat y) (2 ^ 64 - 1) \<le> unat c))" for a b c
    using fits_add [of a b] by (cases c) (simp_all add: limit_top_def)
  have "(\<forall>(n, l, get) \<in> set limit_fields. fits (get (plus_limits used cand)) (get ceiling))
      \<longleftrightarrow> (\<forall>(n, l, get) \<in> set limit_fields. fits (add_limits (get used) (get cand)) (get ceiling))"
    using get_plus by (metis (no_types, lifting) case_prodI2 case_prodD)
  then show "assignment_fits used cand ceiling = Inr () \<longleftrightarrow>
      list_all (\<lambda>(_, _, get).
        (case get ceiling of
           None \<Rightarrow> True
         | Some c \<Rightarrow> (\<exists>x y. get used = Some x \<and> get cand = Some y
              \<and> min (unat x + unat y) (2 ^ 64 - 1) \<le> unat c))) limit_fields"
    by (simp only: assignment_fits_def fits_within_iff one list_all_iff)
  show "case assignment_fits used cand ceiling of
        Inr _ \<Rightarrow> True
      | Inl e \<Rightarrow> (\<exists>n l get. find (\<lambda>(_, _, g). \<not> fits (g (plus_limits used cand)) (g ceiling)) limit_fields = Some (n, l, get)
          \<and> e = limit_error n l (get (plus_limits used cand)) (get ceiling)
          \<and> err_code e = ResellerAllocationExceeded \<and> field e = Some n)"
    by (auto simp: assignment_fits_def fits_within_def fits_fields_first limit_error_def
        split: option.split prod.split)
qed

text \<open>
  Totals do not depend on the order plans are added in, adding the empty (unlimited) limits
  makes everything unlimited, and what fits after adding a plan already fitted without it, so
  removing a plan never breaks an allocation.
\<close>

theorem plan_totals_commute:
  "plus_limits a b = plus_limits b a
   \<and> plus_limits (plus_limits a b) c = plus_limits a (plus_limits b c)
   \<and> plus_limits a default_limits = default_limits
   \<and> (assignment_fits a b ceiling = Inr () \<longrightarrow> fits_within a ceiling = Inr ())"
proof (intro conjI impI)
  show "plus_limits a b = plus_limits b a"
    by (simp add: plus_limits_def add_limits_commute)
  show "plus_limits (plus_limits a b) c = plus_limits a (plus_limits b c)"
    by (simp add: plus_limits_def add_limits_assoc)
  show "plus_limits a default_limits = default_limits"
    by (simp add: plus_limits_def default_limits_def)
  assume "assignment_fits a b ceiling = Inr ()"
  then show "fits_within a ceiling = Inr ()"
    using get_plus [of _ _ _ a b] fits_add_left
    unfolding assignment_fits_def fits_within_iff by fastforce
qed

lemma plan_totals_commute_witness:
  "fits_within default_limits default_limits = Inr ()"
proof -
  have "assignment_fits default_limits default_limits default_limits = Inr ()"
    by (simp add: assignment_fits_def fits_within_def limit_fields_def plus_limits_def default_limits_def)
  then show ?thesis
    using plan_totals_commute by blast
qed

text \<open>
  A count is refused exactly when it has reached its limit, so a create that passes the check
  leaves the usage within the plan, without wrap-around.
\<close>

theorem headroom_leaves_room:
  "(check_headroom u limits what = Inr ()
      \<longleftrightarrow> (case fst (snd (counted u limits what)) of
             None \<Rightarrow> True
           | Some mx \<Rightarrow> unat (fst (counted u limits what)) < unat mx
               \<and> unat (fst (counted u limits what) + 1) = unat (fst (counted u limits what)) + 1
               \<and> fst (counted u limits what) + 1 \<le> mx))
   \<and> (case check_headroom u limits what of Inl e \<Rightarrow> err_code e = QuotaExceeded | Inr _ \<Rightarrow> True)"
proof -
  obtain used lim label where c: "counted u limits what = (used, lim, label)"
    by (cases "counted u limits what") auto
  have inc: "unat (used + 1) = unat used + 1" if "used < mx" for mx
  proof -
    have "unat used + 1 < 2 ^ 64"
      using that unsigned_less [of mx, where 'a = nat] by (simp add: word_less_nat_alt)
    then show ?thesis by (simp add: unat_word_ariths)
  qed
  show ?thesis
  proof (cases lim)
    case None
    then show ?thesis by (simp add: check_headroom_def c)
  next
    case (Some mx)
    then show ?thesis
      using inc [of mx] by (auto simp: check_headroom_def c word_less_nat_alt word_le_nat_alt)
  qed
qed

text \<open>
  Revoking what a plan denies takes from a context exactly the permissions of the features
  that are switched off, and keeps every other one.
\<close>

theorem plan_features_gate_permissions:
  "has_perm (revoke a (denied_permissions f)) p \<longleftrightarrow>
     has_perm a p
     \<and> (p \<in> {SshAccess, TerminalAccess} \<longrightarrow> can_ssh f) \<and> (p = DockerApps \<longrightarrow> can_docker_apps f)
     \<and> (p = NodeApps \<longrightarrow> can_node_apps f) \<and> (p = CronManage \<longrightarrow> can_cron f)
     \<and> (p = BackupManage \<longrightarrow> can_backups f) \<and> (p = DnsManage \<longrightarrow> can_manage_dns f)"
  by (auto simp: has_perm_def revoke_eq denied_permissions_def)

lemma plan_features_gate_permissions_witness:
  "\<not> has_perm (revoke (from_role 7 Customer (ScCustomer 7) ''r'') (denied_permissions default_features)) TerminalAccess
   \<and> has_perm (revoke (from_role 7 Customer (ScCustomer 7) ''r'') (denied_permissions default_features)) CronManage"
  unfolding plan_features_gate_permissions
  by (simp add: has_perm_def from_role_def default_features_def)

end
