(* ===== verification/Models.thy ===== *)
theory Models
  imports Plans
begin

text \<open>
  Database rows and their validated forms: \<open>unihelm-db/src/models.rs\<close>, the error type and the
  clock of \<open>unihelm-db/src/lib.rs\<close>, the scope filter of \<open>scope.rs\<close>. A row is a record of
  the columns as SQLite stores them. The code outside the repository that the conversions call
  (RFC 3339 formatting, JSON, UUIDs) is the argument \<open>c\<close>, a record of functions; what the
  panel relies on of it is the predicate \<open>codec_ok\<close>. The lemmas show that a row either
  becomes the value it stores or is reported as corrupt, and that writing a value and reading it
  back gives that value.
\<close>

type_synonym task_id = "128 word"

text \<open>Instants are whole seconds since the epoch: \<open>now()\<close> drops the nanoseconds.\<close>

record 'j codec =
  enc_time :: "int \<Rightarrow> str"
  dec_time :: "str \<Rightarrow> str + int"
  enc_perms :: "permission list option \<Rightarrow> str"
  dec_perms :: "str \<Rightarrow> str + permission list option"
  enc_uuid :: "task_id \<Rightarrow> str"
  dec_uuid :: "str \<Rightarrow> str + task_id"
  enc_json :: "'j \<Rightarrow> str"
  dec_json :: "str \<Rightarrow> str + 'j"
  json_null :: "'j"

text \<open>
  What the code relies on: each decoder inverts its encoder, and RFC 3339 text in UTC with
  whole seconds sorts as time does (SQLite compares the columns as text).
\<close>

definition codec_ok :: "'j codec \<Rightarrow> bool" where
  "codec_ok c \<longleftrightarrow>
     (\<forall>t. dec_time c (enc_time c t) = Inr t) \<and> (\<forall>s t. enc_time c s < enc_time c t \<longleftrightarrow> s < t)
     \<and> (\<forall>p. dec_perms c (enc_perms c p) = Inr p) \<and> (\<forall>i. dec_uuid c (enc_uuid c i) = Inr i)
     \<and> (\<forall>j. dec_json c (enc_json c j) = Inr j)"

lemma codec_okD [simp]:
  assumes "codec_ok c"
  shows "dec_time c (enc_time c t) = Inr t" "enc_time c s < enc_time c t \<longleftrightarrow> s < t"
    "dec_perms c (enc_perms c p) = Inr p" "dec_uuid c (enc_uuid c i) = Inr i"
    "dec_json c (enc_json c j) = Inr j"
  using assms by (simp_all add: codec_ok_def)

lemma enc_time_eq: "codec_ok c \<Longrightarrow> enc_time c s = enc_time c t \<longleftrightarrow> s = t"
  by (metis codec_okD(1) sum.inject(2))

lemma enc_time_le: "codec_ok c \<Longrightarrow> enc_time c s \<le> enc_time c t \<longleftrightarrow> s \<le> t"
  by (auto simp: le_less enc_time_eq)

section \<open>Errors\<close>

datatype db_error =
    Sqlx str
  | Migrate str
  | Corrupt (corrupt_field: str) str
  | DomainErr uni_error
  | DbNotFound str
  | DbConflict str
  | NotInitialised str
  | Unreadable str
  | SchemaNotReady str
  | SchemaLockBusy str
  | SchemaLockUnavailable str

type_synonym 'a db_res = "db_error + 'a"

fun uni_error_from :: "db_error \<Rightarrow> uni_error" where
  "uni_error_from (DomainErr inner) = inner"
| "uni_error_from (DbNotFound what) = not_found_error what"
| "uni_error_from (DbConflict what) = new_error AlreadyExists (what @ '' already exists'')"
| "uni_error_from _ = internal_error ''a database error occurred''"

definition from_sql_time :: "'j codec \<Rightarrow> str \<Rightarrow> int db_res" where
  "from_sql_time c s =
     r_map_err (\<lambda>e. Corrupt ''timestamp'' (''`'' @ s @ ''` is not RFC 3339: '' @ e)) (dec_time c s)"

definition to_sql_time :: "'j codec \<Rightarrow> int \<Rightarrow> str" where
  "to_sql_time c t = enc_time c t"

text \<open>\<open>Option::map(from_sql_time).transpose()\<close>.\<close>

definition from_sql_time_opt :: "'j codec \<Rightarrow> str option \<Rightarrow> int option db_res" where
  "from_sql_time_opt c s =
     (case s of None \<Rightarrow> Inr None | Some t \<Rightarrow> r_bind (from_sql_time c t) (\<lambda>v. Inr (Some v)))"

lemma from_sql_time_enc [simp]: "codec_ok c \<Longrightarrow> from_sql_time c (to_sql_time c t) = Inr t"
  by (simp add: from_sql_time_def to_sql_time_def)

lemma from_sql_time_opt_enc [simp]:
  "codec_ok c \<Longrightarrow> from_sql_time_opt c (map_option (to_sql_time c) t) = Inr t"
  by (cases t) (simp_all add: from_sql_time_opt_def)

section \<open>Users\<close>

datatype user_status = UActive | USuspended | ULocked

fun user_status_as_str :: "user_status \<Rightarrow> str" where
  "user_status_as_str UActive = ''active''"
| "user_status_as_str USuspended = ''suspended''"
| "user_status_as_str ULocked = ''locked''"

definition user_status_parse :: "str \<Rightarrow> user_status db_res" where
  "user_status_parse s =
     (if s = ''active'' then Inr UActive
      else if s = ''suspended'' then Inr USuspended
      else if s = ''locked'' then Inr ULocked
      else Inl (Corrupt ''users.status'' (''unknown status `'' @ s @ ''`'')))"

lemma user_status_reads [simp]: "user_status_parse (user_status_as_str v) = Inr v"
  by (cases v) (simp_all add: user_status_parse_def)

fun can_log_in :: "user_status \<Rightarrow> bool" where
  "can_log_in UActive = True"
| "can_log_in _ = False"

record user =
  u_id :: user_id
  u_role :: role
  u_email :: email
  u_username :: username
  u_pass_hash :: str
  u_totp_secret :: "str option"
  u_totp_enabled :: bool
  u_status :: user_status
  u_reseller_id :: "user_id option"
  u_permissions :: "permission list option"
  u_full_name :: "str option"
  u_locale :: str
  u_created_at :: int
  u_updated_at :: int
  u_last_login_at :: "int option"

record user_row =
  ur_id :: int
  ur_role :: str
  ur_email :: str
  ur_username :: str
  ur_pass_hash :: str
  ur_totp_secret :: "str option"
  ur_totp_enabled :: int
  ur_status :: str
  ur_reseller_id :: "int option"
  ur_permissions_json :: str
  ur_full_name :: "str option"
  ur_locale :: str
  ur_created_at :: str
  ur_updated_at :: str
  ur_last_login_at :: "str option"

definition corrupt_as :: "str \<Rightarrow> uni_error + 'a \<Rightarrow> 'a db_res" where
  "corrupt_as fld r = r_map_err (\<lambda>e. Corrupt fld (detail e)) r"

definition user_of_row :: "'j codec \<Rightarrow> user_row \<Rightarrow> user db_res" where
  "user_of_row c r =
     r_bind (r_map_err (Corrupt ''users.permissions_json'') (dec_perms c (ur_permissions_json r))) (\<lambda>perms.
     r_bind (corrupt_as ''users.role'' (role_parse (ur_role r))) (\<lambda>rl.
     r_bind (corrupt_as ''users.email'' (email_parse (ur_email r))) (\<lambda>em.
     r_bind (corrupt_as ''users.username'' (username_parse (ur_username r))) (\<lambda>un.
     r_bind (user_status_parse (ur_status r)) (\<lambda>st.
     r_bind (from_sql_time c (ur_created_at r)) (\<lambda>created.
     r_bind (from_sql_time c (ur_updated_at r)) (\<lambda>updated.
     r_bind (from_sql_time_opt c (ur_last_login_at r)) (\<lambda>login.
       Inr \<lparr>u_id = ur_id r, u_role = rl, u_email = em, u_username = un, u_pass_hash = ur_pass_hash r,
            u_totp_secret = ur_totp_secret r, u_totp_enabled = (ur_totp_enabled r \<noteq> 0), u_status = st,
            u_reseller_id = ur_reseller_id r, u_permissions = perms, u_full_name = ur_full_name r,
            u_locale = ur_locale r, u_created_at = created, u_updated_at = updated,
            u_last_login_at = login\<rparr>))))))))"

definition effective_permissions :: "user \<Rightarrow> permission list" where
  "effective_permissions u =
     (case u_permissions u of
        None \<Rightarrow> default_permissions (u_role u)
      | Some overrides \<Rightarrow> filter (\<lambda>p. p \<in> set overrides) (default_permissions (u_role u)))"

lemma effective_subset: "set (effective_permissions u) \<subseteq> set (default_permissions (u_role u))"
  by (auto simp: effective_permissions_def split: option.splits)

section \<open>Sessions\<close>

record session =
  s_id :: str
  s_user_id :: user_id
  s_csrf :: str
  s_ip :: "str option"
  s_user_agent :: "str option"
  s_impersonator_id :: "user_id option"
  s_created_at :: int
  s_last_seen_at :: int
  s_expires_at :: int
  s_revoked :: bool

record session_row =
  sr_id :: str
  sr_user_id :: int
  sr_csrf :: str
  sr_ip :: "str option"
  sr_user_agent :: "str option"
  sr_impersonator_id :: "int option"
  sr_created_at :: str
  sr_last_seen_at :: str
  sr_expires_at :: str
  sr_revoked :: int

definition session_of_row :: "'j codec \<Rightarrow> session_row \<Rightarrow> session db_res" where
  "session_of_row c r =
     r_bind (from_sql_time c (sr_created_at r)) (\<lambda>created.
     r_bind (from_sql_time c (sr_last_seen_at r)) (\<lambda>seen.
     r_bind (from_sql_time c (sr_expires_at r)) (\<lambda>expires.
       Inr \<lparr>s_id = sr_id r, s_user_id = sr_user_id r, s_csrf = sr_csrf r, s_ip = sr_ip r,
            s_user_agent = sr_user_agent r, s_impersonator_id = sr_impersonator_id r,
            s_created_at = created, s_last_seen_at = seen, s_expires_at = expires,
            s_revoked = (sr_revoked r \<noteq> 0)\<rparr>)))"

definition is_valid_at :: "session \<Rightarrow> int \<Rightarrow> bool" where
  "is_valid_at s now \<longleftrightarrow> \<not> s_revoked s \<and> s_expires_at s > now"

section \<open>Tasks\<close>

datatype task_status = Queued | Running | TOk | TFailed | Cancelled

fun task_status_as_str :: "task_status \<Rightarrow> str" where
  "task_status_as_str Queued = ''queued''"
| "task_status_as_str Running = ''running''"
| "task_status_as_str TOk = ''ok''"
| "task_status_as_str TFailed = ''failed''"
| "task_status_as_str Cancelled = ''cancelled''"

definition task_status_parse :: "str \<Rightarrow> task_status db_res" where
  "task_status_parse s =
     (if s = ''queued'' then Inr Queued
      else if s = ''running'' then Inr Running
      else if s = ''ok'' then Inr TOk
      else if s = ''failed'' then Inr TFailed
      else if s = ''cancelled'' then Inr Cancelled
      else Inl (Corrupt ''tasks.status'' (''unknown status `'' @ s @ ''`'')))"

lemma task_status_reads [simp]: "task_status_parse (task_status_as_str v) = Inr v"
  by (cases v) (simp_all add: task_status_parse_def)

lemma task_status_as_str_inject [simp]: "task_status_as_str v = task_status_as_str w \<longleftrightarrow> v = w"
  using task_status_reads by (metis sum.inject(2))

fun is_terminal :: "task_status \<Rightarrow> bool" where
  "is_terminal TOk = True"
| "is_terminal TFailed = True"
| "is_terminal Cancelled = True"
| "is_terminal _ = False"

record 'j task =
  t_id :: task_id
  t_op :: str
  t_input :: 'j
  t_actor_user_id :: "user_id option"
  t_subscription_id :: "subscription_id option"
  t_status :: task_status
  t_progress :: "8 word"
  t_error_code :: "str option"
  t_error_detail :: "str option"
  t_cancellable :: bool
  t_idempotent :: bool
  t_request_id :: "str option"
  t_created_at :: int
  t_started_at :: "int option"
  t_finished_at :: "int option"

record task_row =
  tr_id :: str
  tr_op :: str
  tr_input_json :: str
  tr_actor_user_id :: "int option"
  tr_subscription_id :: "int option"
  tr_status :: str
  tr_progress :: int
  tr_error_code :: "str option"
  tr_error_detail :: "str option"
  tr_cancellable :: int
  tr_idempotent :: int
  tr_request_id :: "str option"
  tr_created_at :: str
  tr_started_at :: "str option"
  tr_finished_at :: "str option"

text \<open>\<open>progress.clamp(0, 100) as u8\<close>.\<close>

definition clamp_progress :: "int \<Rightarrow> 8 word" where
  "clamp_progress p = of_int (max 0 (min p 100))"

definition task_of_row :: "'j codec \<Rightarrow> task_row \<Rightarrow> 'j task db_res" where
  "task_of_row c r =
     r_bind (r_map_err (Corrupt ''tasks.id'') (dec_uuid c (tr_id r))) (\<lambda>i.
     r_bind (r_map_err (Corrupt ''tasks.input_json'') (dec_json c (tr_input_json r))) (\<lambda>input.
     r_bind (task_status_parse (tr_status r)) (\<lambda>st.
     r_bind (from_sql_time c (tr_created_at r)) (\<lambda>created.
     r_bind (from_sql_time_opt c (tr_started_at r)) (\<lambda>started.
     r_bind (from_sql_time_opt c (tr_finished_at r)) (\<lambda>finished.
       Inr \<lparr>t_id = i, t_op = tr_op r, t_input = input, t_actor_user_id = tr_actor_user_id r,
            t_subscription_id = tr_subscription_id r, t_status = st,
            t_progress = clamp_progress (tr_progress r), t_error_code = tr_error_code r,
            t_error_detail = tr_error_detail r, t_cancellable = (tr_cancellable r \<noteq> 0),
            t_idempotent = (tr_idempotent r \<noteq> 0), t_request_id = tr_request_id r,
            t_created_at = created, t_started_at = started, t_finished_at = finished\<rparr>))))))"

record 'j audit_entry =
  a_id :: int
  a_at :: int
  a_actor_user_id :: "user_id option"
  a_actor_username :: str
  a_impersonator_id :: "user_id option"
  a_ip :: "str option"
  a_action :: str
  a_target :: "str option"
  a_detail :: 'j
  a_request_id :: "str option"
  a_subscription_id :: "subscription_id option"

record audit_row =
  ar_id :: int
  ar_at :: str
  ar_actor_user_id :: "int option"
  ar_actor_username :: str
  ar_impersonator_id :: "int option"
  ar_ip :: "str option"
  ar_action :: str
  ar_target :: "str option"
  ar_detail_json :: str
  ar_request_id :: "str option"
  ar_subscription_id :: "int option"

definition audit_of_row :: "'j codec \<Rightarrow> audit_row \<Rightarrow> 'j audit_entry db_res" where
  "audit_of_row c r =
     r_bind (from_sql_time c (ar_at r)) (\<lambda>at.
       Inr \<lparr>a_id = ar_id r, a_at = at, a_actor_user_id = ar_actor_user_id r,
            a_actor_username = ar_actor_username r, a_impersonator_id = ar_impersonator_id r,
            a_ip = ar_ip r, a_action = ar_action r, a_target = ar_target r,
            a_detail = (case dec_json c (ar_detail_json r) of Inr j \<Rightarrow> j | Inl _ \<Rightarrow> json_null c),
            a_request_id = ar_request_id r, a_subscription_id = ar_subscription_id r\<rparr>)"

section \<open>Scope filters\<close>

datatype scope_filter =
    FAll
  | FReseller int
  | FCustomer int
  | FSubscription int int

fun filter_from_scope :: "tenant_scope \<Rightarrow> scope_filter" where
  "filter_from_scope ScGlobal = FAll"
| "filter_from_scope (ScReseller r) = FReseller r"
| "filter_from_scope (ScCustomer c) = FCustomer c"
| "filter_from_scope (ScSubscription s c) = FSubscription s c"

fun is_unrestricted :: "scope_filter \<Rightarrow> bool" where
  "is_unrestricted FAll = True"
| "is_unrestricted _ = False"

text \<open>
  The contract of a repository built from a scope: fetching a row gives a stored row of that key
  that the scope may see, and misses none.
\<close>

locale scoped_repo =
  fixes visible :: "scope_filter \<Rightarrow> 'row \<Rightarrow> bool"
    and key :: "'row \<Rightarrow> 'k"
    and fetch :: "scope_filter \<Rightarrow> 'row list \<Rightarrow> 'k \<Rightarrow> 'row option"
  assumes fetch_sound: "fetch f rows i = Some r \<Longrightarrow> r \<in> set rows \<and> key r = i \<and> visible f r"
    and fetch_complete: "r \<in> set rows \<Longrightarrow> visible f r \<Longrightarrow> fetch f rows (key r) \<noteq> None"
    and global_sees: "visible FAll r"
begin

lemma fetch_None_iff: "fetch f rows i = None \<longleftrightarrow> (\<forall>r \<in> set rows. key r = i \<longrightarrow> \<not> visible f r)"
  using fetch_sound fetch_complete by (metis option.exhaust)

lemma fetch_Some_iff:
  assumes "distinct (map key rows)"
  shows "fetch f rows i = Some r \<longleftrightarrow> r \<in> set rows \<and> key r = i \<and> visible f r"
proof
  assume r: "r \<in> set rows \<and> key r = i \<and> visible f r"
  then obtain r' where r': "fetch f rows i = Some r'"
    using fetch_complete by blast
  then have "r' \<in> set rows" "key r' = key r"
    using fetch_sound r by blast+
  with r r' assms show "fetch f rows i = Some r"
    by (metis distinct_map inj_on_def)
qed (use fetch_sound in blast)

lemma fetch_narrow:
  assumes "distinct (map key rows)" "fetch f rows i = Some r"
  shows "fetch FAll rows i = Some r"
  using assms global_sees by (simp add: fetch_Some_iff)

lemma fetch_append_fresh:
  assumes "distinct (map key (rows @ [r]))" "visible f r"
  shows "fetch f (rows @ [r]) (key r) = Some r"
  using assms by (simp only: fetch_Some_iff) simp

end

section \<open>Statements\<close>

text \<open>\<open>UPDATE ... SET g WHERE P\<close> on a table: the new rows and \<open>rows_affected\<close>.\<close>

definition sql_update :: "('r \<Rightarrow> bool) \<Rightarrow> ('r \<Rightarrow> 'r) \<Rightarrow> 'r list \<Rightarrow> 'r list \<times> nat" where
  "sql_update P g rows = (map (\<lambda>r. if P r then g r else r) rows, length (filter P rows))"

lemma sql_update_map:
  assumes "\<And>r. h (g r) = h r"
  shows "map h (fst (sql_update P g rows)) = map h rows"
  using assms by (simp add: sql_update_def)

lemma sql_update_set: "r \<in> set (fst (sql_update P g rows)) \<longleftrightarrow> (\<exists>q \<in> set rows. r = (if P q then g q else q))"
  by (auto simp: sql_update_def)

lemma sql_update_none: "snd (sql_update P g rows) = 0 \<longleftrightarrow> (\<forall>r \<in> set rows. \<not> P r)"
  by (auto simp: sql_update_def filter_empty_conv)

lemma sql_update_id: "(\<And>r. r \<in> set rows \<Longrightarrow> \<not> P r) \<Longrightarrow> sql_update P g rows = (rows, 0)"
  by (auto simp: sql_update_def map_idI)

lemma sql_update_keeps: "r \<in> set rows \<Longrightarrow> \<not> P r \<Longrightarrow> r \<in> set (fst (sql_update P g rows))"
  by (force simp: sql_update_def)

text \<open>
  The contract of a status column: to a row whose state is final no step does more than \<open>later\<close> says,
  which keeps its key and that it is final. Whatever steps follow, the row is then there for ever, as
  \<open>later\<close> says, and no later state holds another row of its key.
\<close>

locale status_machine =
  fixes step :: "'s \<Rightarrow> 's \<Rightarrow> bool"
    and rows :: "'s \<Rightarrow> 'r set"
    and key :: "'r \<Rightarrow> 'k"
    and final :: "'r \<Rightarrow> bool"
    and later :: "'r \<Rightarrow> 'r \<Rightarrow> bool"
    and inv :: "'s \<Rightarrow> bool"
  assumes keeps_final: "step s s' \<Longrightarrow> r \<in> rows s \<Longrightarrow> final r \<Longrightarrow> \<exists>q \<in> rows s'. later r q"
    and later_final: "later r q \<Longrightarrow> final r \<Longrightarrow> final q"
    and later_key: "later r q \<Longrightarrow> key q = key r"
    and later_refl: "later r r"
    and later_trans: "later r q \<Longrightarrow> later q p \<Longrightarrow> later r p"
    and keeps_inv: "step s s' \<Longrightarrow> inv s \<Longrightarrow> inv s'"
    and unique_key: "inv s \<Longrightarrow> r \<in> rows s \<Longrightarrow> q \<in> rows s \<Longrightarrow> key r = key q \<Longrightarrow> r = q"
begin

lemma reach_inv: "step\<^sup>*\<^sup>* s s' \<Longrightarrow> inv s \<Longrightarrow> inv s'"
  by (induction rule: rtranclp_induct) (auto dest: keeps_inv)

lemma final_stays: "step\<^sup>*\<^sup>* s s' \<Longrightarrow> r \<in> rows s \<Longrightarrow> final r \<Longrightarrow> \<exists>q \<in> rows s'. later r q"
proof (induction rule: rtranclp_induct)
  case (step s1 s2)
  then obtain q where "q \<in> rows s1" "later r q" by blast
  then show ?case using step.hyps(2) step.prems(2) later_final keeps_final later_trans by meson
qed (auto intro: later_refl)

lemma one_outcome:
  assumes "inv s" "step\<^sup>*\<^sup>* s s'" "r \<in> rows s" "final r" "q \<in> rows s'" "key q = key r"
  shows "later r q"
proof -
  obtain p where p: "p \<in> rows s'" "later r p" using final_stays [OF assms(2,3,4)] by blast
  then have "p = q" using unique_key [OF reach_inv [OF assms(2,1)] p(1) assms(5)] later_key [OF p(2)] assms(6) by simp
  then show ?thesis using p(2) by simp
qed

end

section \<open>A codec that satisfies the laws\<close>

text \<open>A small instance, so that the hypotheses on the codec are seen to be satisfiable.\<close>

definition sample_enc_time :: "int \<Rightarrow> str" where
  "sample_enc_time t =
     (if t < 0 then replicate (nat (- t)) CHR ''a'' @ ''b'' else CHR ''c'' # replicate (nat t) CHR ''x'')"

definition sample_dec_time :: "str \<Rightarrow> str + int" where
  "sample_dec_time s =
     (if s \<noteq> [] \<and> hd s = CHR ''c'' then Inr (int (length s) - 1) else Inr (1 - int (length s)))"

definition sample_enc_perms :: "permission list option \<Rightarrow> str" where
  "sample_enc_perms p =
     (case p of None \<Rightarrow> ''null'' | Some ps \<Rightarrow> map (\<lambda>q. char_of (200 + perm_rank q)) ps)"

definition sample_dec_perms :: "str \<Rightarrow> str + permission list option" where
  "sample_dec_perms s =
     (if s = ''null'' then Inr None else Inr (Some (map (\<lambda>c. all_permissions ! (byte c - 200)) s)))"

definition sample_codec :: "unit codec" where
  "sample_codec =
     \<lparr>enc_time = sample_enc_time, dec_time = sample_dec_time, enc_perms = sample_enc_perms,
      dec_perms = sample_dec_perms, enc_uuid = (\<lambda>w. show_nat (unat w)),
      dec_uuid = (\<lambda>s. Inr (of_nat (digits_value s))), enc_json = (\<lambda>_. ''null''),
      dec_json = (\<lambda>_. Inr ()), json_null = ()\<rparr>"

lemma replicate_a_less: "k < j \<Longrightarrow> replicate j CHR ''a'' @ ''b'' < replicate k CHR ''a'' @ (''b'' :: str)"
proof (induction k arbitrary: j)
  case 0
  then show ?case by (cases j) (simp_all add: less_char_def)
next
  case (Suc k)
  then show ?case by (cases j) simp_all
qed

lemma replicate_x_less: "k < j \<Longrightarrow> replicate k CHR ''x'' < (replicate j CHR ''x'' :: str)"
proof (induction k arbitrary: j)
  case 0
  then show ?case by (cases j) simp_all
next
  case (Suc k)
  then show ?case by (cases j) simp_all
qed

lemma sample_enc_time_less: "s < t \<Longrightarrow> sample_enc_time s < sample_enc_time t"
proof -
  assume st: "s < t"
  have neg: "replicate (nat (- s)) CHR ''a'' @ ''b'' < CHR ''c'' # r" for r :: str
    by (cases "nat (- s)") (simp_all add: less_char_def)
  consider "t < 0" | "s < 0" "0 \<le> t" | "0 \<le> s" using st by linarith
  then show ?thesis
  proof cases
    case 1
    with st have "nat (- t) < nat (- s)" by simp
    with 1 st show ?thesis by (simp add: sample_enc_time_def replicate_a_less)
  next
    case 2
    then show ?thesis using neg by (simp add: sample_enc_time_def)
  next
    case 3
    with st show ?thesis by (simp add: sample_enc_time_def replicate_x_less)
  qed
qed

lemma all_permissions_rank: "perm_rank p < 21" "all_permissions ! perm_rank p = p"
  by (cases p; simp add: perm_rank_def all_permissions_def)+

lemma sample_codec_ok: "codec_ok sample_codec"
proof -
  have dt: "sample_dec_time (sample_enc_time t) = Inr t" for t
    by (cases "nat (- t)") (auto simp: sample_dec_time_def sample_enc_time_def)
  have lt: "sample_enc_time s < sample_enc_time t \<longleftrightarrow> s < t" for s t
    by (metis less_asym linorder_neqE_linordered_idom sample_enc_time_less)
  have b: "byte (char_of (200 + perm_rank q) :: char) = 200 + perm_rank q" for q
    using all_permissions_rank(1) [of q] by (simp add: byte_char_of)
  have nn: "map (\<lambda>q. char_of (200 + perm_rank q)) ps \<noteq> ''null''" for ps
  proof
    assume e: "map (\<lambda>q. char_of (200 + perm_rank q)) ps = ''null''"
    then obtain q where "char_of (200 + perm_rank q) = CHR ''n''" by auto
    then have "200 + perm_rank q = byte CHR ''n''" using b by metis
    then show False by (simp add: byte_def)
  qed
  have dp: "sample_dec_perms (sample_enc_perms p) = Inr p" for p
    using nn by (cases p) (simp_all add: sample_dec_perms_def sample_enc_perms_def b all_permissions_rank comp_def)
  show ?thesis
    using dt lt dp by (simp add: codec_ok_def sample_codec_def)
qed

lemma sample_codec_null: "dec_perms sample_codec ''null'' = Inr None"
  by (simp add: sample_codec_def sample_dec_perms_def)

end
