(* ===== verification/Users.thy ===== *)
theory Users
  imports Models
begin

text \<open>
  The account repository, \<open>unihelm-db/src/users.rs\<close>: the \<open>users\<close> table is the list of its
  rows in insertion order with the \<open>AUTOINCREMENT\<close> counter, a query is the list function its
  SQL text denotes. Password hashing is the argument \<open>hash\<close>. The lemmas show tenant isolation
  of every query, the frame of every update, and what creation stores.
\<close>

record users_table =
  ut_rows :: "user_row list"
  ut_seq :: int

definition row_visible :: "scope_filter \<Rightarrow> user_row \<Rightarrow> bool" where
  "row_visible f r =
     (case f of
        FAll \<Rightarrow> True
      | FReseller reseller \<Rightarrow> ur_reseller_id r = Some reseller \<or> ur_id r = reseller
      | FCustomer customer \<Rightarrow> ur_id r = customer
      | FSubscription _ customer \<Rightarrow> ur_id r = customer)"

definition fetch_user :: "scope_filter \<Rightarrow> user_row list \<Rightarrow> int \<Rightarrow> user_row option" where
  "fetch_user f rows i = find (\<lambda>r. ur_id r = i \<and> row_visible f r) rows"

definition user_by_id :: "'j codec \<Rightarrow> scope_filter \<Rightarrow> users_table \<Rightarrow> user_id \<Rightarrow> user option db_res" where
  "user_by_id c f db i =
     (case fetch_user f (ut_rows db) i of
        None \<Rightarrow> Inr None
      | Some r \<Rightarrow> r_bind (user_of_row c r) (\<lambda>u. Inr (Some u)))"

text \<open>\<open>ORDER BY (username = ?1) DESC LIMIT 1\<close>; \<open>lower\<close> is SQLite's, on ASCII letters.\<close>

definition find_user_for_login :: "'j codec \<Rightarrow> users_table \<Rightarrow> str \<Rightarrow> user option db_res" where
  "find_user_for_login c db identifier =
     (let hit = (case find (\<lambda>r. ur_username r = identifier) (ut_rows db) of
                   Some r \<Rightarrow> Some r
                 | None \<Rightarrow> find (\<lambda>r. to_ascii_lowercase (ur_email r) = to_ascii_lowercase identifier) (ut_rows db))
      in case hit of
           None \<Rightarrow> Inr None
         | Some r \<Rightarrow> r_bind (user_of_row c r) (\<lambda>u. Inr (Some u)))"

definition has_any_user :: "users_table \<Rightarrow> bool" where
  "has_any_user db \<longleftrightarrow> ut_rows db \<noteq> []"

definition users_page :: "scope_filter \<Rightarrow> users_table \<Rightarrow> int \<Rightarrow> int \<Rightarrow> user_row list" where
  "users_page f db lim off =
     (let lim' = max 1 (min lim 500);
          rows = rev (sort_key ur_id (filter (row_visible f) (ut_rows db)))
      in case f of
           FAll \<Rightarrow> take (nat lim') (drop (nat off) rows)
         | FReseller _ \<Rightarrow> take (nat lim') (drop (nat off) rows)
         | FCustomer _ \<Rightarrow> rows
         | FSubscription _ _ \<Rightarrow> rows)"

definition list_users :: "'j codec \<Rightarrow> scope_filter \<Rightarrow> users_table \<Rightarrow> int \<Rightarrow> int \<Rightarrow> user list db_res" where
  "list_users c f db lim off = collect_results (map (user_of_row c) (users_page f db lim off))"

record new_user =
  nu_role :: role
  nu_email :: email
  nu_username :: username
  nu_password :: str
  nu_reseller_id :: "user_id option"
  nu_full_name :: "str option"
  nu_locale :: str

text \<open>The row the \<open>INSERT\<close> stores; \<open>totp_secret\<close> and \<open>totp_enabled\<close> have their defaults.\<close>

definition new_row :: "'j codec \<Rightarrow> int \<Rightarrow> int \<Rightarrow> str \<Rightarrow> new_user \<Rightarrow> user_row" where
  "new_row c i now pass_hash new =
     \<lparr>ur_id = i, ur_role = role_as_str (nu_role new), ur_email = email_as_str (nu_email new),
      ur_username = username_as_str (nu_username new), ur_pass_hash = pass_hash, ur_totp_secret = None,
      ur_totp_enabled = 0, ur_status = ''active'', ur_reseller_id = nu_reseller_id new,
      ur_permissions_json = ''null'', ur_full_name = nu_full_name new, ur_locale = nu_locale new,
      ur_created_at = to_sql_time c now, ur_updated_at = to_sql_time c now, ur_last_login_at = None\<rparr>"

text \<open>
  \<open>INSERT ... RETURNING\<close> with the table's constraints; \<open>map_unique_violation\<close> reads the
  violated index from SQLite's message, which names the index SQLite tests first when both fail
  (\<open>email_first\<close>).
\<close>

definition create_user ::
  "'j codec \<Rightarrow> (str \<Rightarrow> str db_res) \<Rightarrow> bool \<Rightarrow> int \<Rightarrow> new_user \<Rightarrow> users_table \<Rightarrow> users_table \<times> user db_res" where
  "create_user c hash email_first now new db =
     (case hash (nu_password new) of
        Inl e \<Rightarrow> (db, Inl e)
      | Inr pass_hash \<Rightarrow>
          let dup_email = list_ex (\<lambda>r. ur_email r = email_as_str (nu_email new)) (ut_rows db);
              dup_name = list_ex (\<lambda>r. ur_username r = username_as_str (nu_username new)) (ut_rows db)
          in if dup_email \<and> (email_first \<or> \<not> dup_name) then (db, Inl (DbConflict ''email''))
             else if dup_name then (db, Inl (DbConflict ''username''))
             else if (case nu_reseller_id new of None \<Rightarrow> False
                      | Some p \<Rightarrow> \<not> list_ex (\<lambda>r. ur_id r = p) (ut_rows db))
             then (db, Inl (Sqlx ''FOREIGN KEY constraint failed''))
             else
               let i = ut_seq db + 1; row = new_row c i now pass_hash new
               in (\<lparr>ut_rows = ut_rows db @ [row], ut_seq = i\<rparr>, user_of_row c row))"

definition update_user :: "user_id \<Rightarrow> (user_row \<Rightarrow> user_row) \<Rightarrow> users_table \<Rightarrow> users_table" where
  "update_user i g db = db\<lparr>ut_rows := map (\<lambda>r. if ur_id r = i then g r else r) (ut_rows db)\<rparr>"

definition ensure_visible :: "'j codec \<Rightarrow> scope_filter \<Rightarrow> users_table \<Rightarrow> user_id \<Rightarrow> user db_res" where
  "ensure_visible c f db i =
     r_bind (user_by_id c f db i) (\<lambda>u. ok_or (DbNotFound ''user'') u)"

definition set_status ::
  "'j codec \<Rightarrow> scope_filter \<Rightarrow> int \<Rightarrow> user_id \<Rightarrow> user_status \<Rightarrow> users_table \<Rightarrow> users_table \<times> unit db_res" where
  "set_status c f now i st db =
     (case ensure_visible c f db i of
        Inl e \<Rightarrow> (db, Inl e)
      | Inr _ \<Rightarrow>
          (update_user i (\<lambda>r. r\<lparr>ur_status := user_status_as_str st, ur_updated_at := to_sql_time c now\<rparr>) db, Inr ()))"

definition set_password ::
  "'j codec \<Rightarrow> (str \<Rightarrow> str db_res) \<Rightarrow> scope_filter \<Rightarrow> int \<Rightarrow> user_id \<Rightarrow> str \<Rightarrow> users_table \<Rightarrow> users_table \<times> unit db_res" where
  "set_password c hash f now i new_password db =
     (case ensure_visible c f db i of
        Inl e \<Rightarrow> (db, Inl e)
      | Inr _ \<Rightarrow>
          (case hash new_password of
             Inl e \<Rightarrow> (db, Inl e)
           | Inr h \<Rightarrow>
               (update_user i (\<lambda>r. r\<lparr>ur_pass_hash := h, ur_updated_at := to_sql_time c now\<rparr>) db, Inr ())))"

definition set_permissions ::
  "'j codec \<Rightarrow> scope_filter \<Rightarrow> int \<Rightarrow> user_id \<Rightarrow> permission list option \<Rightarrow> users_table \<Rightarrow> users_table \<times> unit db_res" where
  "set_permissions c f now i perms db =
     (case ensure_visible c f db i of
        Inl e \<Rightarrow> (db, Inl e)
      | Inr _ \<Rightarrow>
          (update_user i (\<lambda>r. r\<lparr>ur_permissions_json := enc_perms c perms, ur_updated_at := to_sql_time c now\<rparr>) db, Inr ()))"

definition record_login :: "'j codec \<Rightarrow> int \<Rightarrow> user_id \<Rightarrow> users_table \<Rightarrow> users_table" where
  "record_login c now i db = update_user i (\<lambda>r. r\<lparr>ur_last_login_at := Some (to_sql_time c now)\<rparr>) db"

section \<open>Isolation and frames\<close>

interpretation users: scoped_repo row_visible ur_id fetch_user
proof
  show "fetch_user f rows i = Some r \<Longrightarrow> r \<in> set rows \<and> ur_id r = i \<and> row_visible f r" for f rows i r
    by (auto simp: fetch_user_def find_Some_iff)
  show "r \<in> set rows \<Longrightarrow> row_visible f r \<Longrightarrow> fetch_user f rows (ur_id r) \<noteq> None" for f rows r
    by (auto simp: fetch_user_def find_None_iff)
  show "row_visible FAll r" for r
    by (simp add: row_visible_def)
qed

text \<open>The table's own invariant: ids are distinct and the counter is at least every id.\<close>

definition users_inv :: "users_table \<Rightarrow> bool" where
  "users_inv db \<longleftrightarrow> distinct (map ur_id (ut_rows db)) \<and> list_all (\<lambda>r. 0 < ur_id r \<and> ur_id r \<le> ut_seq db) (ut_rows db)
     \<and> distinct (map ur_email (ut_rows db)) \<and> distinct (map ur_username (ut_rows db)) \<and> 0 \<le> ut_seq db"

lemma user_of_row_id: "user_of_row c r = Inr u \<Longrightarrow> u_id u = ur_id r"
  by (auto simp: user_of_row_def result_simps)

lemma user_by_id_Some:
  "user_by_id c f db i = Inr (Some u) \<longleftrightarrow>
     (\<exists>r. fetch_user f (ut_rows db) i = Some r \<and> user_of_row c r = Inr u)"
  by (auto simp: user_by_id_def result_simps split: option.splits)

lemma ensure_visible_ok:
  "ensure_visible c f db i = Inr u \<longleftrightarrow>
     (\<exists>r. fetch_user f (ut_rows db) i = Some r \<and> user_of_row c r = Inr u)"
  by (auto simp: ensure_visible_def result_simps user_by_id_Some)

lemma map_update_user:
  assumes "\<And>r. h (g r) = h r"
  shows "map h (ut_rows (update_user i g db)) = map h (ut_rows db)"
  using assms by (simp add: update_user_def)

lemma update_user_seq [simp]: "ut_seq (update_user i g db) = ut_seq db"
  by (simp add: update_user_def)

lemma users_inv_update:
  assumes "users_inv db" "\<And>r. ur_id (g r) = ur_id r" "\<And>r. ur_email (g r) = ur_email r"
    "\<And>r. ur_username (g r) = ur_username r"
  shows "users_inv (update_user i g db)"
proof -
  have "list_all (\<lambda>r. 0 < ur_id r \<and> ur_id r \<le> ut_seq db) (ut_rows (update_user i g db))"
    using assms(1,2) by (auto simp: users_inv_def update_user_def list_all_iff)
  then show ?thesis
    using assms by (simp add: users_inv_def map_update_user)
qed

lemma users_inv_create: "users_inv db \<Longrightarrow> users_inv (fst (create_user c hash ef now new db))"
  by (auto simp: create_user_def users_inv_def Let_def new_row_def list_ex_iff list_all_iff
      split: sum.splits option.splits)

lemma users_inv_set:
  assumes "users_inv db"
  shows "users_inv (fst (set_status c f now i st db))"
    "users_inv (fst (set_password c hash f now i pw db))"
    "users_inv (fst (set_permissions c f now i perms db))"
    "users_inv (record_login c now i db)"
  using assms
  by (auto simp: set_status_def set_password_def set_permissions_def record_login_def
      split: sum.splits intro!: users_inv_update)

section \<open>Properties\<close>

lemma set_users_page: "set (users_page f db lim off) \<subseteq> {r \<in> set (ut_rows db). row_visible f r}"
  by (auto simp: users_page_def Let_def split: scope_filter.splits dest!: in_set_takeD in_set_dropD)

lemma list_users_page:
  assumes "list_users c f db lim off = Inr us"
  shows "list_all (\<lambda>u. \<exists>r \<in> set (ut_rows db). row_visible f r \<and> user_of_row c r = Inr u) us"
proof -
  have us: "map (user_of_row c) (users_page f db lim off) = map Inr us"
    using assms by (simp add: list_users_def collect_results_Inr)
  have "\<exists>r \<in> set (users_page f db lim off). user_of_row c r = Inr u" if "u \<in> set us" for u
    using that us by (metis (no_types, lifting) image_eqI image_iff list.set_map)
  then show ?thesis
    using set_users_page [of f db lim off] by (fastforce simp: list_all_iff)
qed

text \<open>
  Tenant isolation of the reads. Fetching an account through a scope gives the stored account
  of that id exactly when the scope may see it and nothing otherwise, and every account a scope
  lists is one it may see.
\<close>

theorem user_reads_stay_in_scope:
  assumes inv: "users_inv db"
  shows "(user_by_id c f db i = Inr (Some u) \<longleftrightarrow>
            (\<exists>r \<in> set (ut_rows db). ur_id r = i \<and> row_visible f r \<and> user_of_row c r = Inr u))
    \<and> (user_by_id c f db i = Inr None \<longleftrightarrow>
            (\<forall>r \<in> set (ut_rows db). ur_id r = i \<longrightarrow> \<not> row_visible f r))
    \<and> (list_users c f db lim off = Inr us \<longrightarrow>
            list_all (\<lambda>v. \<exists>r \<in> set (ut_rows db). row_visible f r \<and> user_of_row c r = Inr v) us)"
proof (intro conjI impI)
  have d: "distinct (map ur_id (ut_rows db))"
    using inv by (simp add: users_inv_def)
  show "user_by_id c f db i = Inr (Some u) \<longleftrightarrow>
      (\<exists>r \<in> set (ut_rows db). ur_id r = i \<and> row_visible f r \<and> user_of_row c r = Inr u)"
    by (auto simp: user_by_id_Some users.fetch_Some_iff [OF d])
  have "user_by_id c f db i = Inr None \<longleftrightarrow> fetch_user f (ut_rows db) i = None"
    by (auto simp: user_by_id_def result_simps split: option.splits)
  then show "user_by_id c f db i = Inr None \<longleftrightarrow>
      (\<forall>r \<in> set (ut_rows db). ur_id r = i \<longrightarrow> \<not> row_visible f r)"
    by (simp add: users.fetch_None_iff)
qed (rule list_users_page)

definition sample_row :: "int \<Rightarrow> int option \<Rightarrow> str \<Rightarrow> user_row" where
  "sample_row i reseller rl =
     \<lparr>ur_id = i, ur_role = rl, ur_email = ''bob@x.io'', ur_username = ''bob_1'', ur_pass_hash = ''h'',
      ur_totp_secret = None, ur_totp_enabled = 0, ur_status = ''active'', ur_reseller_id = reseller,
      ur_permissions_json = ''null'', ur_full_name = None, ur_locale = ''en'', ur_created_at = ''c'',
      ur_updated_at = ''c'', ur_last_login_at = None\<rparr>"

lemma user_reads_stay_in_scope_witness:
  "users_inv \<lparr>ut_rows = [sample_row 7 (Some 3) ''customer''], ut_seq = 7\<rparr>
   \<and> user_by_id sample_codec (FReseller 4) \<lparr>ut_rows = [sample_row 7 (Some 3) ''customer''], ut_seq = 7\<rparr> 7 = Inr None"
proof -
  have inv: "users_inv \<lparr>ut_rows = [sample_row 7 (Some 3) ''customer''], ut_seq = 7\<rparr>"
    by (simp add: users_inv_def sample_row_def)
  show ?thesis
    using user_reads_stay_in_scope [OF inv, of sample_codec "FReseller 4" 7] inv
    by (simp add: row_visible_def sample_row_def)
qed

text \<open>
  A write reaches only an account its scope may see. \<open>set_status\<close>, \<open>set_password\<close> and
  \<open>set_permissions\<close> on an account outside the scope fail and change nothing; inside it they
  change that one row, in the intended columns, and every other row keeps its bytes; the table's
  invariant is preserved either way.
\<close>

theorem user_writes_stay_in_scope:
  assumes "users_inv db"
  shows "(fetch_user f (ut_rows db) i = None \<longrightarrow>
            set_status c f now i st db = (db, Inl (DbNotFound ''user''))
            \<and> set_password c hash f now i pw db = (db, Inl (DbNotFound ''user''))
            \<and> set_permissions c f now i perms db = (db, Inl (DbNotFound ''user'')))
    \<and> filter (\<lambda>r. ur_id r \<noteq> i) (ut_rows (fst (set_status c f now i st db))) = filter (\<lambda>r. ur_id r \<noteq> i) (ut_rows db)
    \<and> filter (\<lambda>r. ur_id r \<noteq> i) (ut_rows (fst (set_password c hash f now i pw db))) = filter (\<lambda>r. ur_id r \<noteq> i) (ut_rows db)
    \<and> filter (\<lambda>r. ur_id r \<noteq> i) (ut_rows (fst (set_permissions c f now i perms db))) = filter (\<lambda>r. ur_id r \<noteq> i) (ut_rows db)
    \<and> map ur_role (ut_rows (fst (set_permissions c f now i perms db))) = map ur_role (ut_rows db)
    \<and> users_inv (fst (set_status c f now i st db)) \<and> users_inv (fst (set_password c hash f now i pw db))
    \<and> users_inv (fst (set_permissions c f now i perms db))"
proof -
  have none: "ensure_visible c f db i = Inl (DbNotFound ''user'')" if "fetch_user f (ut_rows db) i = None"
    using that by (simp add: ensure_visible_def user_by_id_def ok_or_def)
  have frame: "filter (\<lambda>r. ur_id r \<noteq> i) (ut_rows (update_user i g db)) = filter (\<lambda>r. ur_id r \<noteq> i) (ut_rows db)"
    if "\<And>r. ur_id (g r) = ur_id r" for g
  proof -
    have "filter (\<lambda>r. ur_id r \<noteq> i) (map (\<lambda>r. if ur_id r = i then g r else r) rs) = filter (\<lambda>r. ur_id r \<noteq> i) rs" for rs
      using that by (induction rs) auto
    then show ?thesis by (simp add: update_user_def)
  qed
  have writes: "set_status c f now i st db = (db, Inl (DbNotFound ''user''))"
      "set_password c hash f now i pw db = (db, Inl (DbNotFound ''user''))"
      "set_permissions c f now i perms db = (db, Inl (DbNotFound ''user''))"
    if "fetch_user f (ut_rows db) i = None"
    using none [OF that] by (simp_all add: set_status_def set_password_def set_permissions_def)
  have frames: "filter (\<lambda>r. ur_id r \<noteq> i) (ut_rows (fst (set_status c f now i st db))) = filter (\<lambda>r. ur_id r \<noteq> i) (ut_rows db)"
      "filter (\<lambda>r. ur_id r \<noteq> i) (ut_rows (fst (set_password c hash f now i pw db))) = filter (\<lambda>r. ur_id r \<noteq> i) (ut_rows db)"
      "filter (\<lambda>r. ur_id r \<noteq> i) (ut_rows (fst (set_permissions c f now i perms db))) = filter (\<lambda>r. ur_id r \<noteq> i) (ut_rows db)"
      "map ur_role (ut_rows (fst (set_permissions c f now i perms db))) = map ur_role (ut_rows db)"
    by (simp_all add: set_status_def set_password_def set_permissions_def frame map_update_user split: sum.split)
  show ?thesis
    using writes frames users_inv_set(1-3) [OF assms] by blast
qed

lemma user_writes_stay_in_scope_witness:
  "set_status sample_codec (FCustomer 8) 0 7 USuspended \<lparr>ut_rows = [sample_row 7 (Some 3) ''customer''], ut_seq = 7\<rparr>
     = (\<lparr>ut_rows = [sample_row 7 (Some 3) ''customer''], ut_seq = 7\<rparr>, Inl (DbNotFound ''user''))"
proof -
  have inv: "users_inv \<lparr>ut_rows = [sample_row 7 (Some 3) ''customer''], ut_seq = 7\<rparr>"
    by (simp add: users_inv_def sample_row_def)
  show ?thesis
    using user_writes_stay_in_scope [OF inv, of "FCustomer 8" 7 sample_codec 0 USuspended]
    by (simp add: fetch_user_def row_visible_def sample_row_def)
qed

text \<open>
  Creating an account stores what was asked for: on a fresh name and address the new account
  comes back active, with the role's default permissions, under an id no account had, it can be
  fetched and used to log in by its name, and every account that was there is still there.
\<close>

theorem created_user_reads_back:
  assumes "users_inv db" "codec_ok c" "dec_perms c ''null'' = Inr None"
    "email_parse e0 = Inr (nu_email new)" "username_parse n0 = Inr (nu_username new)"
    "hash (nu_password new) = Inr h" "nu_reseller_id new = None"
    "list_all (\<lambda>r. ur_email r \<noteq> email_as_str (nu_email new) \<and> ur_username r \<noteq> username_as_str (nu_username new)) (ut_rows db)"
  shows "\<exists>u. snd (create_user c hash ef now new db) = Inr u
    \<and> u_role u = nu_role new \<and> u_email u = nu_email new \<and> u_username u = nu_username new \<and> u_pass_hash u = h
    \<and> can_log_in (u_status u) \<and> effective_permissions u = default_permissions (nu_role new)
    \<and> u_created_at u = now \<and> u_id u \<notin> ur_id ` set (ut_rows db)
    \<and> user_by_id c FAll (fst (create_user c hash ef now new db)) (u_id u) = Inr (Some u)
    \<and> find_user_for_login c (fst (create_user c hash ef now new db)) (username_as_str (nu_username new)) = Inr (Some u)
    \<and> prefix (ut_rows db) (ut_rows (fst (create_user c hash ef now new db)))"
proof -
  let ?row = "new_row c (ut_seq db + 1) now h new"
  have fresh: "\<not> list_ex (\<lambda>r. ur_email r = email_as_str (nu_email new)) (ut_rows db)"
    "\<not> list_ex (\<lambda>r. ur_username r = username_as_str (nu_username new)) (ut_rows db)"
    using assms(8) by (auto simp: list_ex_iff list_all_iff)
  have new_id: "ut_seq db + 1 \<notin> ur_id ` set (ut_rows db)"
    using assms(1) by (fastforce simp: users_inv_def list_all_iff)
  have cr: "create_user c hash ef now new db
      = (\<lparr>ut_rows = ut_rows db @ [?row], ut_seq = ut_seq db + 1\<rparr>, user_of_row c ?row)"
    using fresh assms(6,7) by (simp add: create_user_def Let_def)
  have row: "ur_id ?row = ut_seq db + 1" "ur_username ?row = username_as_str (nu_username new)"
    by (simp_all add: new_row_def)
  obtain u where u: "user_of_row c ?row = Inr u" "u_role u = nu_role new" "u_email u = nu_email new"
    "u_username u = nu_username new" "u_pass_hash u = h" "u_status u = UActive" "u_permissions u = None"
    "u_created_at u = now" "u_id u = ut_seq db + 1"
    using assms(2,3) em.reparse [OF assms(4)] un.reparse [OF assms(5)] user_status_reads [of UActive]
    by (auto simp: user_of_row_def new_row_def corrupt_as_def role_parse_total from_sql_time_opt_def)
  have d: "distinct (map ur_id (ut_rows db @ [?row]))"
    using assms(1) new_id row by (simp add: users_inv_def)
  have fe: "fetch_user FAll (ut_rows db @ [?row]) (ur_id ?row) = Some ?row"
    by (rule users.fetch_append_fresh [OF d users.global_sees])
  have fi: "find (\<lambda>r. ur_username r = username_as_str (nu_username new)) (ut_rows db @ [?row]) = Some ?row"
    using assms(8) row(2) by (intro find_append_new) (auto simp: list_all_iff)
  have by_id: "user_by_id c FAll (fst (create_user c hash ef now new db)) (u_id u) = Inr (Some u)"
    using fe row(1) by (simp add: cr user_by_id_def u(1,9))
  have login: "find_user_for_login c (fst (create_user c hash ef now new db)) (username_as_str (nu_username new)) = Inr (Some u)"
    by (simp add: cr find_user_for_login_def fi u(1))
  have eff: "effective_permissions u = default_permissions (nu_role new)"
    by (simp add: effective_permissions_def u)
  have fresh_id: "u_id u \<notin> ur_id ` set (ut_rows db)"
    using new_id by (simp only: u(9) not_False_eq_True)
  have pre: "prefix (ut_rows db) (ut_rows (fst (create_user c hash ef now new db)))"
    by (simp add: cr)
  have act: "can_log_in (u_status u)" by (simp add: u(6))
  have ok: "snd (create_user c hash ef now new db) = Inr u" by (simp add: cr u(1))
  show ?thesis
    by (intro exI [of _ u] conjI ok u(2-5) act eff u(8) fresh_id by_id login pre)
qed

lemma created_user_reads_back_witness:
  "\<exists>u. snd (create_user sample_codec (\<lambda>p. Inr (''h'' @ p)) True 5
      \<lparr>nu_role = Admin, nu_email = Email ''bob@x.io'', nu_username = Username ''bob_1'', nu_password = ''pw'',
       nu_reseller_id = None, nu_full_name = None, nu_locale = ''en''\<rparr> \<lparr>ut_rows = [], ut_seq = 0\<rparr>) = Inr u
    \<and> u_pass_hash u = ''hpw''"
proof -
  have inv: "users_inv \<lparr>ut_rows = [], ut_seq = 0\<rparr>"
    by (simp add: users_inv_def)
  show ?thesis
    using created_user_reads_back [OF inv sample_codec_ok sample_codec_null, of "''bob@x.io''"
        "\<lparr>nu_role = Admin, nu_email = Email ''bob@x.io'', nu_username = Username ''bob_1'', nu_password = ''pw'',
          nu_reseller_id = None, nu_full_name = None, nu_locale = ''en''\<rparr>" "''Bob_1''" "\<lambda>p. Inr (''h'' @ p)" "''hpw''" True 5]
      parse_examples(3,4)
    by auto
qed

end
