(* ===== verification/Audit_Trail.thy ===== *)
theory Audit_Trail
  imports Users
begin

text \<open>
  The audit trail, \<open>unihelm-db/src/audit.rs\<close>: JSON values as a datatype, the redaction of what is
  stored, the scoped reads, and the \<open>LIKE\<close> operator the prefix search runs through. The lemmas
  show that no secret survives redaction, which rows a scope reads, and when the escaped pattern
  is the prefix test it stands for.
\<close>

section \<open>JSON\<close>

text \<open>\<open>serde_json::Value\<close>: a number is its text, an object the list of its entries.\<close>

datatype json =
    JNull
  | JBool bool
  | JNum str
  | JStr str
  | JArr "json list"
  | JObj "(str \<times> json) list"

definition redacted_keys :: "str list" where
  "redacted_keys =
     [''password'', ''new_password'', ''old_password'', ''pass'', ''pass_hash'', ''secret'', ''token'',
      ''api_key'', ''private_key'', ''totp_secret'', ''credentials'', ''creds'']"

definition redacted :: str where
  "redacted = ''[redacted]''"

definition sensitive_key :: "str \<Rightarrow> bool" where
  "sensitive_key k \<longleftrightarrow> list_ex (\<lambda>needle. str_contains needle (to_ascii_lowercase k)) redacted_keys"

fun redact :: "json \<Rightarrow> json" where
  "redact (JObj kvs) =
     JObj (map (\<lambda>(k, v). if sensitive_key k then (k, JStr redacted) else (k, redact v)) kvs)"
| "redact (JArr vs) = JArr (map redact vs)"
| "redact v = v"

text \<open>Every value below a key, with the key nearest to it.\<close>

fun keyed_values :: "json \<Rightarrow> (str \<times> json) list" where
  "keyed_values (JObj kvs) = concat (map (\<lambda>(k, v). (k, v) # keyed_values v) kvs)"
| "keyed_values (JArr vs) = concat (map keyed_values vs)"
| "keyed_values v = []"

section \<open>The table\<close>

record new_audit_entry =
  na_actor_user_id :: "user_id option"
  na_actor_username :: str
  na_impersonator_id :: "user_id option"
  na_ip :: "str option"
  na_action :: str
  na_target :: "str option"
  na_detail :: json
  na_request_id :: "str option"
  na_subscription_id :: "subscription_id option"

record audit_table =
  au_rows :: "audit_row list"
  au_seq :: int

text \<open>\<open>ok\<close> is false when SQLite refuses the write (a full disk, a locked file).\<close>

definition record_audit ::
  "json codec \<Rightarrow> bool \<Rightarrow> int \<Rightarrow> new_audit_entry \<Rightarrow> audit_table \<Rightarrow> audit_table \<times> int db_res" where
  "record_audit c ok now e db =
     (let i = au_seq db + 1 in
      if \<not> ok then (db, Inl (Sqlx ''INSERT INTO audit_log''))
      else (\<lparr>au_rows = au_rows db @
               [\<lparr>ar_id = i, ar_at = to_sql_time c now, ar_actor_user_id = na_actor_user_id e,
                 ar_actor_username = na_actor_username e, ar_impersonator_id = na_impersonator_id e,
                 ar_ip = na_ip e, ar_action = na_action e, ar_target = na_target e,
                 ar_detail_json = enc_json c (redact (na_detail e)), ar_request_id = na_request_id e,
                 ar_subscription_id = na_subscription_id e\<rparr>],
             au_seq = i\<rparr>, Inr i))"

definition day_secs :: int where
  "day_secs = 86400"

definition purge_audit :: "json codec \<Rightarrow> int \<Rightarrow> int \<Rightarrow> audit_table \<Rightarrow> audit_table \<times> nat" where
  "purge_audit c now days db =
     (let cutoff = to_sql_time c (now - day_secs * max days 1) in
      (db\<lparr>au_rows := filter (\<lambda>r. \<not> ar_at r < cutoff) (au_rows db)\<rparr>,
       length (filter (\<lambda>r. ar_at r < cutoff) (au_rows db))))"

definition audit_visible :: "scope_filter \<Rightarrow> audit_row \<Rightarrow> bool" where
  "audit_visible f r =
     (case f of
        FAll \<Rightarrow> True
      | FReseller u \<Rightarrow> ar_actor_user_id r = Some u
      | FCustomer u \<Rightarrow> ar_actor_user_id r = Some u
      | FSubscription s _ \<Rightarrow> ar_subscription_id r = Some s)"

text \<open>\<open>ORDER BY at DESC, id DESC\<close>.\<close>

definition newest_first :: "audit_row list \<Rightarrow> audit_row list" where
  "newest_first rows = rev (sort_key ar_at (sort_key ar_id rows))"

definition audit_page :: "scope_filter \<Rightarrow> int \<Rightarrow> int \<Rightarrow> audit_table \<Rightarrow> audit_row list" where
  "audit_page f lim off db =
     take (nat (max 1 (min lim 500))) (drop (nat off) (newest_first (filter (audit_visible f) (au_rows db))))"

definition list_audit ::
  "json codec \<Rightarrow> scope_filter \<Rightarrow> int \<Rightarrow> int \<Rightarrow> audit_table \<Rightarrow> json audit_entry list db_res" where
  "list_audit c f lim off db = collect_results (map (audit_of_row c) (audit_page f lim off db))"

text \<open>
  SQLite's \<open>LIKE ... ESCAPE '\'\<close> on the characters of pattern and text: \<open>%\<close> stands for any
  characters, \<open>_\<close> for one, an escaped character for itself, and ASCII letters match in either
  case.
\<close>

fun like_match :: "str list \<Rightarrow> str list \<Rightarrow> bool" where
  "like_match [] s = (s = [])"
| "like_match (p # ps) [] = (p = ''%'' \<and> like_match ps [])"
| "like_match (p # ps) (c # cs) =
     (if p = ''%'' then like_match ps (c # cs) \<or> like_match (p # ps) cs
      else if p = [CHR 0x5C] then
        (case ps of
           [] \<Rightarrow> False
         | q # qs \<Rightarrow> to_ascii_lowercase q = to_ascii_lowercase c \<and> like_match qs cs)
      else if p = ''_'' then like_match ps cs
      else to_ascii_lowercase p = to_ascii_lowercase c \<and> like_match ps cs)"

definition action_pattern :: "str \<Rightarrow> str" where
  "action_pattern action_prefix =
     str_replace_char (CHR ''_'') [CHR 0x5C, CHR ''_'']
       (str_replace_char (CHR ''%'') [CHR 0x5C, CHR ''%''] action_prefix) @ ''%''"

definition action_like :: "str \<Rightarrow> str \<Rightarrow> bool" where
  "action_like action_prefix action \<longleftrightarrow> like_match (str_chars (action_pattern action_prefix)) (str_chars action)"

definition list_by_action ::
  "json codec \<Rightarrow> scope_filter \<Rightarrow> str \<Rightarrow> int \<Rightarrow> audit_table \<Rightarrow> json audit_entry list db_res" where
  "list_by_action c f action_prefix lim db =
     collect_results (map (audit_of_row c)
       (take (nat (max 1 (min lim 500)))
         (newest_first (filter (\<lambda>r. action_like action_prefix (ar_action r) \<and> audit_visible f r) (au_rows db)))))"

section \<open>Lemmas\<close>

lemma redact_idem: "redact (redact j) = redact j"
  by (induction j) (auto simp: case_prod_beta)

lemma redact_sensitive:
  "(k, v) \<in> set (keyed_values (redact j)) \<Longrightarrow> sensitive_key k \<Longrightarrow> v = JStr redacted"
  by (induction j) (auto split: if_splits)

lemma escape_plain: "ascii p \<Longrightarrow> ascii (str_replace_char d [CHR 0x5C, d] p)" if "byte d < 128"
  using that by (induction p) (auto simp: str_replace_char_def ascii_def byte_def)

lemma like_any: "like_match [''%''] s"
  by (induction s) simp_all

lemma str_replace_char_simps [simp]:
  "str_replace_char c t [] = []"
  "str_replace_char c t (d # s) = (if d = c then t else [d]) @ str_replace_char c t s"
  by (simp_all add: str_replace_char_def)

lemma action_pattern_Cons:
  "action_pattern (c # p) = (if c = CHR ''%'' \<or> c = CHR ''_'' then [CHR 0x5C, c] else [c]) @ action_pattern p"
  by (simp add: action_pattern_def)

lemma like_prefix:
  assumes "CHR 0x5C \<notin> set p"
  shows "like_match (map (\<lambda>c. [c]) (action_pattern p)) (map (\<lambda>c. [c]) s)
    \<longleftrightarrow> prefix (to_ascii_lowercase p) (to_ascii_lowercase s)"
  using assms
proof (induction p arbitrary: s)
  case Nil
  show ?case using like_any by (simp add: action_pattern_def to_ascii_lowercase_def)
next
  case (Cons c p)
  then show ?case
    by (cases s) (auto simp: action_pattern_Cons to_ascii_lowercase_def)
qed

lemma action_pattern_ascii: "ascii p \<Longrightarrow> ascii (action_pattern p)"
  by (induction p) (auto simp: action_pattern_Cons ascii_def byte_def action_pattern_def)

lemma action_like_ascii:
  assumes "ascii p" "CHR 0x5C \<notin> set p" "ascii s"
  shows "action_like p s \<longleftrightarrow> prefix (to_ascii_lowercase p) (to_ascii_lowercase s)"
  using assms by (simp add: action_like_def str_chars_ascii action_pattern_ascii like_prefix)

lemma redact_plain: "list_all (\<lambda>(k, v). \<not> sensitive_key k) (keyed_values j) \<Longrightarrow> redact j = j"
proof (induction j)
  case (JObj kvs)
  have "(\<lambda>(k, v). if sensitive_key k then (k, JStr redacted) else (k, redact v)) kv = kv" if kv: "kv \<in> set kvs" for kv
  proof -
    obtain k v where [simp]: "kv = (k, v)"
      by (cases kv)
    have "list_all (\<lambda>(k, v). \<not> sensitive_key k) ((k, v) # keyed_values v)"
    proof -
      have "(\<lambda>(k, v). (k, v) # keyed_values v) kv \<in> set (map (\<lambda>(k, v). (k, v) # keyed_values v) kvs)"
        using kv by (simp only: list.set_map imageI)
      then have "set ((k, v) # keyed_values v) \<subseteq> set (keyed_values (JObj kvs))"
        unfolding keyed_values.simps set_concat by auto
      with JObj.prems show ?thesis
        unfolding list_all_iff by (rule ballI [OF bspec, OF _ subsetD])
    qed
    moreover have "redact v = v" if "list_all (\<lambda>(k, v). \<not> sensitive_key k) (keyed_values v)"
      using JObj.IH [of kv v] kv that by simp
    ultimately show ?thesis by simp
  qed
  then show ?case by (simp add: map_idI)
next
  case (JArr vs)
  then have "redact v = v" if "v \<in> set vs" for v
    using that by (auto simp: list_all_iff)
  then show ?case by (simp add: map_idI)
qed auto

lemma to_lower_char_percent [simp]: "to_lower_char c = CHR ''%'' \<longleftrightarrow> c = CHR ''%''"
proof -
  have b: "byte (CHR ''%'') = 37"
    by (simp add: byte_def)
  have "d = CHR ''%'' \<longleftrightarrow> byte d = 37" for d
    using byte_eq_iff [of d "CHR ''%''"] b by simp
  then show ?thesis
    by (auto simp: byte_to_lower_char is_ascii_uppercase_def)
qed

lemma percent_to_lower_char [simp]:
  "to_lower_char (CHR ''%'') = CHR ''%''" "CHR ''%'' = to_lower_char c \<longleftrightarrow> c = CHR ''%''"
  by (metis to_lower_char_percent)+

lemma like_backslash:
  assumes "CHR 0x5C \<notin> set p"
  shows "like_match (map (\<lambda>c. [c]) (action_pattern (p @ [CHR 0x5C]))) (map (\<lambda>c. [c]) s)
    \<longleftrightarrow> to_ascii_lowercase s = to_ascii_lowercase p @ ''%''"
  using assms
proof (induction p arbitrary: s)
  case Nil
  show ?case
    by (cases s) (auto simp: action_pattern_def to_ascii_lowercase_def)
next
  case (Cons c p)
  then show ?case
    by (cases s) (auto simp: action_pattern_Cons to_ascii_lowercase_def)
qed

lemma action_like_backslash:
  assumes "ascii p" "CHR 0x5C \<notin> set p" "ascii s"
  shows "action_like (p @ [CHR 0x5C]) s \<longleftrightarrow> to_ascii_lowercase s = to_ascii_lowercase p @ ''%''"
proof -
  have "ascii (p @ [CHR 0x5C])"
    using assms(1) by (simp add: ascii_def byte_def)
  then show ?thesis
    using assms by (simp add: action_like_def str_chars_ascii action_pattern_ascii like_backslash)
qed

section \<open>Properties\<close>

text \<open>
  What counts as a secret is said again here, apart from the code: a key that contains one of twelve words
  in any letter case. A leaf is a value that is neither object nor array, with all keys above it.
\<close>

definition names_secret :: "str \<Rightarrow> bool" where
  "names_secret k \<longleftrightarrow>
     (\<exists>w \<in> {''password'', ''new_password'', ''old_password'', ''pass'', ''pass_hash'', ''secret'', ''token'', ''api_key'',
        ''private_key'', ''totp_secret'', ''credentials'', ''creds''}. sublist w (map to_lower_char k))"

fun leaves :: "str list \<Rightarrow> json \<Rightarrow> (str list \<times> json) list" where
  "leaves ks (JObj kvs) = concat (map (\<lambda>(k, v). leaves (ks @ [k]) v) kvs)"
| "leaves ks (JArr vs) = concat (map (leaves ks) vs)"
| "leaves ks v = [(ks, v)]"

definition public :: "str list \<times> json \<Rightarrow> bool" where
  "public leaf \<longleftrightarrow> \<not> list_ex names_secret (fst leaf)"

lemma sensitive_key_iff: "sensitive_key k = names_secret k"
  by (simp add: sensitive_key_def names_secret_def redacted_keys_def str_contains_iff to_ascii_lowercase_def)

lemma leaves_above: "(kt, v) \<in> set (leaves ks j) \<Longrightarrow> prefix ks kt"
proof (induction ks j rule: leaves.induct)
  case (1 ks kvs)
  then obtain k w where "(k, w) \<in> set kvs" "(kt, v) \<in> set (leaves (ks @ [k]) w)" by auto
  with 1(1) [of "(k, w)"] show ?case by (auto simp: prefix_def)
qed auto

lemma secret_leaves: "names_secret k \<Longrightarrow> filter public (leaves (ks @ [k]) v) = []"
  by (auto simp: filter_empty_conv public_def list_ex_iff dest!: leaves_above set_mono_prefix)

lemma redact_keeps_public: "filter public (leaves ks (redact j)) = filter public (leaves ks j)"
proof (induction j arbitrary: ks)
  case (JObj kvs)
  have "filter public (leaves (ks @ [k]) (if sensitive_key k then JStr redacted else redact v)) = filter public (leaves (ks @ [k]) v)"
    if "(k, v) \<in> set kvs" for k v
    using JObj [of "(k, v)" v] that secret_leaves [of k ks v] secret_leaves [of k ks "JStr redacted"]
    by (auto simp: sensitive_key_iff)
  then show ?case
    by (auto simp: filter_concat case_prod_beta comp_def if_distrib intro!: arg_cong [of _ _ concat] split: if_splits)
next
  case (JArr vs)
  then show ?case by (auto simp: filter_concat comp_def intro!: arg_cong [of _ _ concat])
qed auto

text \<open>
  C40: No secret reaches the trail, and nothing else is lost. A written row has the next id, the time and
  every column it was given. Its detail is the JSON text of a value in which whatever stands under a key
  that contains one of the secret words, at any depth, is the placeholder, and in which every leaf below
  other keys only is as it was, in the same place in order. A refused write leaves the table unchanged.
\<close>

theorem audit_rows_are_redacted:
  "case record_audit c ok now e db of
     (db', Inr i) \<Rightarrow> ok \<and> i = au_seq db + 1 \<and> au_seq db' = i
       \<and> (\<exists>j. au_rows db' = au_rows db @
               [\<lparr>ar_id = i, ar_at = to_sql_time c now, ar_actor_user_id = na_actor_user_id e,
                 ar_actor_username = na_actor_username e, ar_impersonator_id = na_impersonator_id e, ar_ip = na_ip e,
                 ar_action = na_action e, ar_target = na_target e, ar_detail_json = enc_json c j,
                 ar_request_id = na_request_id e, ar_subscription_id = na_subscription_id e\<rparr>]
             \<and> list_all (\<lambda>(k, v). names_secret k \<longrightarrow> v = JStr ''[redacted]'') (keyed_values j)
             \<and> filter public (leaves [] j) = filter public (leaves [] (na_detail e)))
   | (db', Inl _) \<Rightarrow> db' = db \<and> \<not> ok"
  using redact_sensitive [of _ _ "na_detail e"] redact_keeps_public [of "[]" "na_detail e"]
  by (auto simp: record_audit_def Let_def list_all_iff sensitive_key_iff redacted_def)

definition sample_entry :: new_audit_entry where
  "sample_entry =
     \<lparr>na_actor_user_id = Some 7, na_actor_username = ''bob'', na_impersonator_id = None, na_ip = None,
      na_action = ''user.password'', na_target = None,
      na_detail = JObj [(''New_Password'', JStr ''hunter2''), (''list'', JArr [JObj [(''apiToken'', JNum ''1'')]])],
      na_request_id = None, na_subscription_id = None\<rparr>"

text \<open>A printer for the example; it escapes nothing.\<close>

definition quoted :: "str \<Rightarrow> str" where
  "quoted t = [CHR 0x22] @ t @ [CHR 0x22]"

fun show_json :: "json \<Rightarrow> str" where
  "show_json JNull = ''null''"
| "show_json (JBool b) = (if b then ''true'' else ''false'')"
| "show_json (JNum n) = n"
| "show_json (JStr t) = quoted t"
| "show_json (JArr vs) = ''['' @ str_join '','' (map show_json vs) @ '']''"
| "show_json (JObj kvs) = ''{'' @ str_join '','' (map (\<lambda>(k, v). quoted k @ '':'' @ show_json v) kvs) @ ''}''"

definition sample_json_codec :: "json codec" where
  "sample_json_codec =
     \<lparr>enc_time = sample_enc_time, dec_time = sample_dec_time, enc_perms = sample_enc_perms,
      dec_perms = sample_dec_perms, enc_uuid = (\<lambda>_. []), dec_uuid = (\<lambda>_. Inr 0),
      enc_json = show_json, dec_json = (\<lambda>_. Inr JNull), json_null = JNull\<rparr>"

lemma sample_redacted:
  "redact (na_detail sample_entry)
     = JObj [(''New_Password'', JStr redacted), (''list'', JArr [JObj [(''apiToken'', JStr redacted)]])]"
  by code_simp

theorem audit_rows_are_redacted_witness:
  "\<exists>r. au_rows (fst (record_audit sample_json_codec True 0 sample_entry \<lparr>au_rows = [], au_seq = 3\<rparr>)) = [r]
     \<and> ar_id r = 4 \<and> ar_actor_user_id r = Some 7
     \<and> ar_detail_json r = show_json (JObj [(''New_Password'', JStr ''[redacted]''), (''list'', JArr [JObj [(''apiToken'', JStr ''[redacted]'')]])])
     \<and> \<not> str_contains ''hunter2'' (ar_detail_json r)"
proof -
  obtain i db' where w: "record_audit sample_json_codec True 0 sample_entry \<lparr>au_rows = [], au_seq = 3\<rparr> = (db', Inr i)"
    by (simp add: record_audit_def Let_def)
  obtain r where r: "au_rows db' = [r]" "ar_id r = 4" "ar_actor_user_id r = Some 7"
    using audit_rows_are_redacted [where c = sample_json_codec and ok = True and now = 0 and e = sample_entry and db = "\<lparr>au_rows = [], au_seq = 3\<rparr>"]
    unfolding w by (auto simp: sample_entry_def)
  have text': "ar_detail_json r = show_json (JObj [(''New_Password'', JStr ''[redacted]''), (''list'', JArr [JObj [(''apiToken'', JStr ''[redacted]'')]])])"
    using w r(1) sample_redacted by (auto simp: record_audit_def Let_def sample_json_codec_def redacted_def)
  have "\<not> str_contains ''hunter2'' (show_json (JObj [(''New_Password'', JStr ''[redacted]''), (''list'', JArr [JObj [(''apiToken'', JStr ''[redacted]'')]])]))"
    by code_simp
  with w r text' show ?thesis by simp
qed

text \<open>
  The prefix search of the trail. On ASCII, the escaped \<open>LIKE\<close> pattern matches an action
  exactly when it starts with the prefix, in either case, whatever percent signs and underscores
  the prefix holds. A backslash is not escaped: a prefix that ends in one turns the final
  wildcard into a literal percent sign, so the actions it is a prefix of are not found.
\<close>

theorem action_search_is_prefix_search:
  assumes "ascii p" "ascii s"
  shows "(CHR 0x5C \<notin> set p \<longrightarrow>
      (action_like p s \<longleftrightarrow> prefix (to_ascii_lowercase p) (to_ascii_lowercase s)))
    \<and> (CHR 0x5C \<notin> set p \<longrightarrow>
      (action_like (p @ [CHR 0x5C]) s \<longleftrightarrow> to_ascii_lowercase s = to_ascii_lowercase p @ ''%''))"
  using assms by (simp add: action_like_ascii action_like_backslash)

lemma action_search_is_prefix_search_witness:
  "action_like ''Site_'' ''site_create'' \<and> \<not> action_like ''site_'' ''site.create''
   \<and> \<not> action_like (''a'' @ [CHR 0x5C]) (''a'' @ [CHR 0x5C] @ ''b'')"
  using action_search_is_prefix_search [of "''Site_''" "''site_create''"]
    action_search_is_prefix_search [of "''site_''" "''site.create''"]
    action_search_is_prefix_search [of "''a''" "''a'' @ [CHR 0x5C] @ ''b''"]
  by (simp add: ascii_def byte_def to_ascii_lowercase_def to_lower_char_def is_ascii_uppercase_def char_of_def bit_0)

end
