(* ===== verification/Sessions.thy ===== *)
theory Sessions
  imports Audit_Trail
begin

text \<open>
  Browser sessions and the login history, \<open>unihelm-db/src/sessions.rs\<close>: the \<open>sessions\<close> and
  \<open>login_attempts\<close> tables as the lists of their rows, one definition per statement. SHA-256 of a
  token is the argument \<open>digest\<close>. The lemmas show when a cookie resolves, that a revoked session
  never comes back, and which attempts each counter sees.
\<close>

section \<open>Sessions\<close>

definition default_ttl :: int where
  "default_ttl = 12 * 3600"

definition create_session ::
  "'j codec \<Rightarrow> (str \<Rightarrow> str) \<Rightarrow> user_row list \<Rightarrow> int \<Rightarrow> str \<Rightarrow> str \<Rightarrow> user_id \<Rightarrow> str option \<Rightarrow> str option \<Rightarrow> int
     \<Rightarrow> user_id option \<Rightarrow> session_row list \<Rightarrow> session_row list \<times> (str \<times> str \<times> session) db_res" where
  "create_session c digest users now token csrf u ip agent ttl imp rows =
     (let k = digest token;
          row = \<lparr>sr_id = k, sr_user_id = u, sr_csrf = csrf, sr_ip = ip, sr_user_agent = agent,
                 sr_impersonator_id = imp, sr_created_at = to_sql_time c now,
                 sr_last_seen_at = to_sql_time c now, sr_expires_at = to_sql_time c (now + ttl),
                 sr_revoked = 0\<rparr>
      in if list_ex (\<lambda>r. sr_id r = k) rows then (rows, Inl (Sqlx ''UNIQUE constraint failed: sessions.id''))
         else if \<not> list_ex (\<lambda>r. ur_id r = u) users
              \<or> (case imp of None \<Rightarrow> False | Some i \<Rightarrow> \<not> list_ex (\<lambda>r. ur_id r = i) users)
         then (rows, Inl (Sqlx ''FOREIGN KEY constraint failed''))
         else (rows @ [row], r_bind (session_of_row c row) (\<lambda>s. Inr (token, csrf, s))))"

definition lookup_session ::
  "'j codec \<Rightarrow> (str \<Rightarrow> str) \<Rightarrow> user_row list \<Rightarrow> int \<Rightarrow> str \<Rightarrow> session_row list \<Rightarrow> (session \<times> user) option db_res" where
  "lookup_session c digest users now token rows =
     (case find (\<lambda>r. sr_id r = digest token) rows of
        None \<Rightarrow> Inr None
      | Some row \<Rightarrow>
          r_bind (session_of_row c row) (\<lambda>s.
            if \<not> is_valid_at s now then Inr None
            else (case find (\<lambda>r. ur_id r = s_user_id s) users of
                    None \<Rightarrow> Inr None
                  | Some urow \<Rightarrow>
                      r_bind (user_of_row c urow) (\<lambda>u.
                        if \<not> can_log_in (u_status u) then Inr None else Inr (Some (s, u))))))"

definition touch_session :: "'j codec \<Rightarrow> int \<Rightarrow> str \<Rightarrow> session_row list \<Rightarrow> session_row list" where
  "touch_session c now k rows =
     fst (sql_update (\<lambda>r. sr_id r = k) (\<lambda>r. r\<lparr>sr_last_seen_at := to_sql_time c now\<rparr>) rows)"

definition extend_session :: "'j codec \<Rightarrow> int \<Rightarrow> str \<Rightarrow> int \<Rightarrow> session_row list \<Rightarrow> session_row list" where
  "extend_session c now k ttl rows =
     fst (sql_update (\<lambda>r. sr_id r = k \<and> sr_revoked r = 0) (\<lambda>r. r\<lparr>sr_expires_at := to_sql_time c (now + ttl)\<rparr>) rows)"

definition revoke_session :: "str \<Rightarrow> session_row list \<Rightarrow> session_row list" where
  "revoke_session k rows = fst (sql_update (\<lambda>r. sr_id r = k) (\<lambda>r. r\<lparr>sr_revoked := 1\<rparr>) rows)"

definition revoke_all_sessions :: "user_id \<Rightarrow> session_row list \<Rightarrow> session_row list \<times> nat" where
  "revoke_all_sessions u rows =
     sql_update (\<lambda>r. sr_user_id r = u \<and> sr_revoked r = 0) (\<lambda>r. r\<lparr>sr_revoked := 1\<rparr>) rows"

text \<open>\<open>ORDER BY last_seen_at DESC\<close>.\<close>

definition list_sessions :: "'j codec \<Rightarrow> user_id \<Rightarrow> session_row list \<Rightarrow> session list db_res" where
  "list_sessions c u rows =
     collect_results (map (session_of_row c)
       (rev (sort_key sr_last_seen_at (filter (\<lambda>r. sr_user_id r = u \<and> sr_revoked r = 0) rows))))"

definition purge_expired_sessions :: "'j codec \<Rightarrow> int \<Rightarrow> session_row list \<Rightarrow> session_row list \<times> nat" where
  "purge_expired_sessions c now rows =
     (let cutoff = to_sql_time c (now - day_secs) in
      (filter (\<lambda>r. \<not> sr_expires_at r < cutoff) rows, length (filter (\<lambda>r. sr_expires_at r < cutoff) rows)))"

definition expire_session_at :: "'j codec \<Rightarrow> str \<Rightarrow> int \<Rightarrow> session_row list \<Rightarrow> session_row list" where
  "expire_session_at c k at rows =
     fst (sql_update (\<lambda>r. sr_id r = k) (\<lambda>r. r\<lparr>sr_expires_at := to_sql_time c at\<rparr>) rows)"

definition parse_expiry :: "'j codec \<Rightarrow> str \<Rightarrow> int db_res" where
  "parse_expiry c s = r_map_err (\<lambda>_. Corrupt ''sessions.expires_at'' s) (from_sql_time c s)"

section \<open>The login history\<close>

definition throttled_label_prefix :: str where
  "throttled_label_prefix = ''throttled:''"

function account_label :: "str \<Rightarrow> str" where
  "account_label label =
     (case strip_prefix throttled_label_prefix label of
        Some rest \<Rightarrow> account_label rest
      | None \<Rightarrow> label)"
  by pat_completeness auto
termination
  by (relation "measure length") (auto simp: strip_prefix_Some throttled_label_prefix_def)

declare account_label.simps [simp del]

definition throttled_like_pattern :: str where
  "throttled_like_pattern = throttled_label_prefix @ ''%''"

record attempt_row =
  la_id :: int
  la_at :: str
  la_ip :: str
  la_username :: str
  la_success :: int

record attempts_table =
  at_rows :: "attempt_row list"
  at_seq :: int

definition add_attempt :: "'j codec \<Rightarrow> int \<Rightarrow> str \<Rightarrow> str \<Rightarrow> int \<Rightarrow> attempts_table \<Rightarrow> attempts_table" where
  "add_attempt c now ip label success db =
     \<lparr>at_rows = at_rows db @ [\<lparr>la_id = at_seq db + 1, la_at = to_sql_time c now, la_ip = ip,
        la_username = label, la_success = success\<rparr>], at_seq = at_seq db + 1\<rparr>"

definition record_login_attempt :: "'j codec \<Rightarrow> int \<Rightarrow> str \<Rightarrow> str \<Rightarrow> bool \<Rightarrow> attempts_table \<Rightarrow> attempts_table" where
  "record_login_attempt c now ip uname success db =
     add_attempt c now ip (account_label uname) (if success then 1 else 0) db"

definition record_throttled_login_attempt :: "'j codec \<Rightarrow> int \<Rightarrow> str \<Rightarrow> str \<Rightarrow> attempts_table \<Rightarrow> attempts_table" where
  "record_throttled_login_attempt c now ip uname db =
     add_attempt c now ip (throttled_label_prefix @ account_label uname) 0 db"

text \<open>\<open>Db::failed_logins_since\<close>, what Sentinel bans on: addresses with their failures.\<close>

definition failed_logins_since :: "'j codec \<Rightarrow> int \<Rightarrow> attempts_table \<Rightarrow> (str \<times> int) list" where
  "failed_logins_since c since db =
     (let rows = filter (\<lambda>r. la_success r = 0 \<and> to_sql_time c since \<le> la_at r) (at_rows db)
      in map (\<lambda>ip. (ip, int (length (filter (\<lambda>r. la_ip r = ip) rows)))) (sort (remdups (map la_ip rows))))"

text \<open>\<open>NOT LIKE 'throttled:%'\<close> (no escape character), which SQLite reads without case.\<close>

definition is_throttled_label :: "str \<Rightarrow> bool" where
  "is_throttled_label label \<longleftrightarrow> like_match (str_chars throttled_like_pattern) (str_chars label)"

definition recent_failures_for_ip :: "'j codec \<Rightarrow> int \<Rightarrow> str \<Rightarrow> int \<Rightarrow> attempts_table \<Rightarrow> int" where
  "recent_failures_for_ip c now ip window db =
     int (length (filter (\<lambda>r. la_ip r = ip \<and> la_success r = 0 \<and> la_at r \<ge> to_sql_time c (now - window)
        \<and> \<not> is_throttled_label (la_username r)) (at_rows db)))"

definition address_has_signed_in :: "str \<Rightarrow> str \<Rightarrow> attempts_table \<Rightarrow> bool" where
  "address_has_signed_in ip uname db \<longleftrightarrow>
     list_ex (\<lambda>r. la_ip r = ip \<and> la_username r = account_label uname \<and> la_success r = 1) (at_rows db)"

definition recent_failures_for_ip_and_username :: "'j codec \<Rightarrow> int \<Rightarrow> str \<Rightarrow> str \<Rightarrow> int \<Rightarrow> attempts_table \<Rightarrow> int" where
  "recent_failures_for_ip_and_username c now ip uname window db =
     int (length (filter (\<lambda>r. la_ip r = ip \<and> la_username r = account_label uname \<and> la_success r = 0
        \<and> la_at r \<ge> to_sql_time c (now - window)) (at_rows db)))"

definition recent_failures_for_username :: "'j codec \<Rightarrow> int \<Rightarrow> str \<Rightarrow> int \<Rightarrow> attempts_table \<Rightarrow> int" where
  "recent_failures_for_username c now uname window db =
     int (length (filter (\<lambda>r. la_username r = account_label uname \<and> la_success r = 0
        \<and> la_at r \<ge> to_sql_time c (now - window)) (at_rows db)))"

fun add_spellings :: "str list \<Rightarrow> str list \<Rightarrow> str list" where
  "add_spellings labels [] = labels"
| "add_spellings labels (s # ss) = add_spellings (if s \<in> set labels then labels else labels @ [s]) ss"

definition login_labels_for :: "'j codec \<Rightarrow> users_table \<Rightarrow> str \<Rightarrow> str list db_res" where
  "login_labels_for c users identifier =
     (let typed = to_ascii_lowercase (account_label identifier) in
      r_bind (find_user_for_login c users typed) (\<lambda>u.
        Inr (case u of
               None \<Rightarrow> [typed]
             | Some user \<Rightarrow>
                 add_spellings [typed] [to_ascii_lowercase (username_as_str (u_username user)),
                                        to_ascii_lowercase (email_as_str (u_email user))])))"

fun delete_failures :: "(attempt_row \<Rightarrow> str) \<Rightarrow> str list \<Rightarrow> attempt_row list \<times> nat \<Rightarrow> attempt_row list \<times> nat" where
  "delete_failures get [] w = w"
| "delete_failures get (k # ks) (rows, n) =
     delete_failures get ks
       (filter (\<lambda>r. \<not> (get r = k \<and> la_success r = 0)) rows,
        n + length (filter (\<lambda>r. get r = k \<and> la_success r = 0) rows))"

definition failure_ips :: "str list \<Rightarrow> attempt_row list \<Rightarrow> str list" where
  "failure_ips labels rows =
     fold (\<lambda>label ips. add_spellings ips
             (map la_ip (filter (\<lambda>r. la_username r = label \<and> la_success r = 0) rows))) labels []"

definition clear_login_failures :: "'j codec \<Rightarrow> users_table \<Rightarrow> str \<Rightarrow> attempts_table \<Rightarrow> attempts_table \<times> nat db_res" where
  "clear_login_failures c users identifier db =
     (case login_labels_for c users identifier of
        Inl e \<Rightarrow> (db, Inl e)
      | Inr labels \<Rightarrow>
          let ips = failure_ips labels (at_rows db);
              (rows, cleared) = delete_failures la_ip ips (delete_failures la_username labels (at_rows db, 0))
          in (db\<lparr>at_rows := rows\<rparr>, Inr cleared))"

definition purge_login_attempts :: "'j codec \<Rightarrow> int \<Rightarrow> int \<Rightarrow> attempts_table \<Rightarrow> attempts_table \<times> nat" where
  "purge_login_attempts c now keep db =
     (let cutoff = to_sql_time c (now - keep) in
      (db\<lparr>at_rows := filter (\<lambda>r. \<not> la_at r < cutoff) (at_rows db)\<rparr>,
       length (filter (\<lambda>r. la_at r < cutoff) (at_rows db))))"

section \<open>Lemmas\<close>

lemma strip_throttled: "strip_prefix throttled_label_prefix (throttled_label_prefix @ s) = Some s"
  by (simp add: strip_prefix_Some)

lemma account_label_prefixed [simp]: "account_label (throttled_label_prefix @ s) = account_label s"
  by (subst account_label.simps) (simp add: strip_throttled)

lemma account_label_plain: "\<not> prefix throttled_label_prefix s \<Longrightarrow> account_label s = s"
  by (subst account_label.simps) (simp add: strip_prefix_None [THEN iffD2])

lemma account_label_not_throttled: "\<not> prefix throttled_label_prefix (account_label s)"
proof (induction s rule: account_label.induct)
  case (1 label)
  show ?case
  proof (cases "strip_prefix throttled_label_prefix label")
    case None
    then show ?thesis by (simp add: strip_prefix_None account_label_plain)
  next
    case (Some rest)
    with 1 show ?thesis by (subst account_label.simps) simp
  qed
qed

lemma account_label_idem [simp]: "account_label (account_label s) = account_label s"
  by (rule account_label_plain) (rule account_label_not_throttled)

lemma throttled_label_ne: "throttled_label_prefix @ x \<noteq> account_label s"
  using account_label_not_throttled [of s] by (metis prefixI)

text \<open>A text that does not begin inside a character, as every Rust string.\<close>

definition starts_char :: "str \<Rightarrow> bool" where
  "starts_char s \<longleftrightarrow> s = [] \<or> \<not> is_continuation (hd s)"

lemma throttled_pattern_chars:
  "str_chars throttled_like_pattern = map (\<lambda>c. [c]) throttled_label_prefix @ [''%'']"
  by (simp add: throttled_like_pattern_def throttled_label_prefix_def str_chars_ascii ascii_def byte_def is_continuation_def)

lemma str_chars_ascii_append:
  assumes "ascii p" "starts_char s"
  shows "str_chars (p @ s) = map (\<lambda>c. [c]) p @ str_chars s"
  using assms(1)
proof (induction p)
  case (Cons c p)
  have "p @ s = [] \<or> \<not> is_continuation (hd (p @ s))"
    using Cons.prems assms(2) by (cases p) (auto simp: starts_char_def ascii_def is_continuation_def)
  then have "takeWhile is_continuation (p @ s) = []" "dropWhile is_continuation (p @ s) = p @ s"
    by (cases "p @ s"; simp)+
  with Cons show ?case by (simp add: ascii_def)
qed simp

lemma like_match_literal:
  assumes "list_all (\<lambda>c. c \<noteq> CHR ''%'' \<and> c \<noteq> CHR ''_'' \<and> c \<noteq> CHR 0x5C) p"
  shows "like_match (map (\<lambda>c. [c]) p @ [''%'']) (map (\<lambda>c. [c]) p @ s)"
  using assms by (induction p) (auto simp: like_any)

lemma is_throttled_label_prefixed: 
  assumes "starts_char s"
  shows "is_throttled_label (throttled_label_prefix @ s)"
proof -
  have "ascii throttled_label_prefix"
    by (simp add: throttled_label_prefix_def ascii_def byte_def)
  then show ?thesis
    using assms unfolding is_throttled_label_def throttled_pattern_chars
    by (simp only: str_chars_ascii_append) (rule like_match_literal, simp add: throttled_label_prefix_def)
qed

section \<open>The life of a session\<close>

text \<open>
  Every statement that writes the table. \<open>k\<close> is the id of one session: no later token has
  its digest (tokens are 256 random bits).
\<close>

inductive session_step :: "'j codec \<Rightarrow> (str \<Rightarrow> str) \<Rightarrow> str \<Rightarrow> session_row list \<Rightarrow> session_row list \<Rightarrow> bool"
  for c digest k where
  step_create: "digest token \<noteq> k \<Longrightarrow>
    session_step c digest k rows (fst (create_session c digest users now token csrf u ip agent ttl imp rows))"
| step_touch: "session_step c digest k rows (touch_session c now k' rows)"
| step_extend: "session_step c digest k rows (extend_session c now k' ttl rows)"
| step_revoke: "session_step c digest k rows (revoke_session k' rows)"
| step_revoke_all: "session_step c digest k rows (fst (revoke_all_sessions u rows))"
| step_purge: "session_step c digest k rows (fst (purge_expired_sessions c now rows))"
| step_expire: "session_step c digest k rows (expire_session_at c k' at rows)"

definition revoked :: "str \<Rightarrow> session_row list \<Rightarrow> bool" where
  "revoked k rows \<longleftrightarrow> list_all (\<lambda>r. sr_id r = k \<longrightarrow> sr_revoked r \<noteq> 0) rows"

lemma revoked_update:
  assumes "revoked k rows" "\<And>r. sr_id (g r) = sr_id r" "\<And>r. sr_revoked r \<noteq> 0 \<Longrightarrow> sr_revoked (g r) \<noteq> 0"
  shows "revoked k (fst (sql_update P g rows))"
  using assms by (auto simp: revoked_def list_all_iff sql_update_set split: if_splits)

lemma revoked_step: "session_step c digest k rows rows' \<Longrightarrow> revoked k rows \<Longrightarrow> revoked k rows'"
proof (induction rule: session_step.induct)
  case (step_create token rows users now csrf u ip agent ttl imp)
  then show ?case
    by (auto simp: create_session_def Let_def revoked_def split: option.splits)
next
  case (step_purge rows now)
  then show ?case
    by (auto simp: purge_expired_sessions_def Let_def revoked_def list_all_iff)
qed (auto simp: touch_session_def extend_session_def revoke_session_def revoke_all_sessions_def
    expire_session_at_def intro!: revoked_update)

lemma revoked_steps: "(session_step c digest k)\<^sup>*\<^sup>* rows rows' \<Longrightarrow> revoked k rows \<Longrightarrow> revoked k rows'"
  by (induction rule: rtranclp_induct) (auto dest: revoked_step)

lemma revoke_session_revoked: "revoked k (revoke_session k rows)"
  unfolding revoked_def revoke_session_def sql_update_def fst_conv list_all_iff set_map
  by (rule ballI, erule imageE) simp

lemma lookup_session_Some:
  "lookup_session c digest users now token rows = Inr (Some (s, u)) \<longleftrightarrow>
     (\<exists>row urow. find (\<lambda>r. sr_id r = digest token) rows = Some row \<and> session_of_row c row = Inr s
        \<and> is_valid_at s now \<and> find (\<lambda>r. ur_id r = s_user_id s) users = Some urow
        \<and> user_of_row c urow = Inr u \<and> can_log_in (u_status u))"
proof (cases "find (\<lambda>r. sr_id r = digest token) rows")
  case (Some row)
  show ?thesis
  proof (cases "session_of_row c row")
    case (Inr s')
    then show ?thesis
      by (cases "find (\<lambda>r. ur_id r = s_user_id s') users") (auto simp: lookup_session_def Some result_simps)
  qed (simp add: lookup_session_def Some)
qed (simp add: lookup_session_def)

lemma session_of_row_fields:
  "session_of_row c r = Inr s \<Longrightarrow> s_id s = sr_id r \<and> s_user_id s = sr_user_id r \<and> s_csrf s = sr_csrf r
     \<and> s_revoked s = (sr_revoked r \<noteq> 0) \<and> s_impersonator_id s = sr_impersonator_id r"
  by (auto simp: session_of_row_def result_simps)

lemma lookup_revoked: "revoked (digest token) rows \<Longrightarrow> lookup_session c digest users now token rows \<noteq> Inr (Some su)"
  by (cases su) (auto simp: lookup_session_Some revoked_def list_all_iff find_Some_iff is_valid_at_def
      dest!: session_of_row_fields)

lemma find_key_Some:
  "distinct (map key xs) \<Longrightarrow> find (\<lambda>x. key x = k) xs = Some x \<longleftrightarrow> x \<in> set xs \<and> key x = k"
proof (induction xs)
  case (Cons y ys)
  then show ?case by (auto simp: image_iff)
qed simp

lemma user_of_row_status: "user_of_row c r = Inr u \<Longrightarrow> user_status_parse (ur_status r) = Inr (u_status u)"
  by (auto simp: user_of_row_def result_simps)

section \<open>Properties\<close>

text \<open>
  A cookie resolves exactly when it should: to the session stored under the digest of the
  token and its account, when the session is neither revoked nor expired and the account exists
  and is active.
\<close>

theorem session_lookup_exact:
  assumes "distinct (map sr_id rows)" "distinct (map ur_id users)"
  shows "lookup_session c digest users now token rows = Inr (Some (s, u)) \<longleftrightarrow>
    (\<exists>row \<in> set rows. \<exists>urow \<in> set users. sr_id row = digest token \<and> session_of_row c row = Inr s
       \<and> sr_revoked row = 0 \<and> now < s_expires_at s \<and> ur_id urow = sr_user_id row
       \<and> user_of_row c urow = Inr u \<and> u_status u = UActive)"
proof -
  have a: "can_log_in st \<longleftrightarrow> st = UActive" for st
    by (cases st) simp_all
  show ?thesis
    unfolding lookup_session_Some find_key_Some [OF assms(1)] find_key_Some [OF assms(2)] a is_valid_at_def Bex_def
    using session_of_row_fields [of c _ s] by fastforce
qed

definition sample_session :: "str \<Rightarrow> int \<Rightarrow> session_row" where
  "sample_session k flag =
     \<lparr>sr_id = k, sr_user_id = 1, sr_csrf = ''x'', sr_ip = None, sr_user_agent = None, sr_impersonator_id = None,
      sr_created_at = sample_enc_time 0, sr_last_seen_at = sample_enc_time 0, sr_expires_at = sample_enc_time 9,
      sr_revoked = flag\<rparr>"

lemma session_lookup_exact_witness:
  "\<forall>s u. lookup_session sample_codec (\<lambda>t. t) [sample_row 1 None ''admin''] 5 ''k'' [sample_session ''k'' 1] \<noteq> Inr (Some (s, u))"
proof (intro allI)
  fix s u
  show "lookup_session sample_codec (\<lambda>t. t) [sample_row 1 None ''admin''] 5 ''k'' [sample_session ''k'' 1] \<noteq> Inr (Some (s, u))"
    using session_lookup_exact [of "[sample_session ''k'' 1]" "[sample_row 1 None ''admin'']" sample_codec "\<lambda>t. t" 5 "''k''" s u]
    by (simp add: sample_session_def sample_row_def)
qed

text \<open>
  Revocation is final. Once a session is revoked, no sequence of logins, touches, extensions,
  purges or forced expiries makes its cookie resolve again, at any time and for any accounts.
\<close>

theorem revoked_session_never_resolves:
  assumes "(session_step c digest (digest token))\<^sup>*\<^sup>* (revoke_session (digest token) rows) rows'"
  shows "lookup_session c digest users now token rows' \<noteq> Inr (Some su)"
  using revoked_steps [OF assms revoke_session_revoked] by (rule lookup_revoked)

lemma revoked_session_never_resolves_witness:
  "\<forall>su. lookup_session sample_codec (\<lambda>t. t) [sample_row 1 None ''admin''] 5 ''k''
     (extend_session sample_codec 4 ''k'' 99 (revoke_session ''k'' [sample_session ''k'' 0])) \<noteq> Inr (Some su)"
  by (intro allI revoked_session_never_resolves [where digest = "\<lambda>t. t" and token = "''k''", OF r_into_rtranclp])
    (rule step_extend)

end
