(* ===== verification/Web_Auth.thy ===== *)
theory Web_Auth
  imports Sessions "HOL-Library.Countable"
begin

text \<open>
  Signing in to the web panel: \<open>unihelm-web/src/auth.rs\<close>, the error envelope of
  \<open>unihelm-web/src/error.rs\<close> and the routes of \<open>unihelm-web/src/routes/auth.rs\<close>. The state is
  the tables the routes write. Argon2, SHA-256 and the random tokens are arguments. The lemmas show
  what a sign-in needs, that nobody can lock out an address the account knows, that refusals do
  not prolong themselves, and which requests count as authenticated.
\<close>

section \<open>Errors on the wire\<close>

record api_error =
  api_inner :: uni_error
  api_request_id :: "str option"

type_synonym 'a api = "api_error + 'a"

definition api_new :: "uni_error \<Rightarrow> api_error" where
  "api_new e = \<lparr>api_inner = e, api_request_id = None\<rparr>"

definition with_request_id :: "api_error \<Rightarrow> str \<Rightarrow> api_error" where
  "with_request_id e i = e\<lparr>api_request_id := Some i\<rparr>"

definition api_code :: "error_code \<Rightarrow> str \<Rightarrow> api_error" where
  "api_code c d = api_new (new_error c d)"

definition api_unauthorized :: api_error where
  "api_unauthorized = api_code SessionInvalid ''sign in to continue''"

definition api_of_db :: "db_error \<Rightarrow> api_error" where
  "api_of_db e = api_new (uni_error_from e)"

record api_error_body =
  eb_code :: str
  eb_slug :: str
  eb_message :: str
  eb_field :: "str option"
  eb_request_id :: "str option"

definition server_error_message :: str where
  "server_error_message =
     ''the panel failed while handling this request. The reason was logged '' @
     ''rather than returned, because it can carry internal paths and command '' @
     ''output. Quote request id''"

text \<open>\<open>fresh\<close> is the id minted when the error carries none.\<close>

definition into_response :: "str \<Rightarrow> api_error \<Rightarrow> nat \<times> api_error_body" where
  "into_response fresh e =
     (let status = error_status (api_inner e); c = err_code (api_inner e) in
      if 500 \<le> status \<and> status < 600 then
        (let i = (case api_request_id e of Some i \<Rightarrow> i | None \<Rightarrow> fresh) in
         (status, \<lparr>eb_code = code c, eb_slug = slug c,
                   eb_message = server_error_message @ '' '' @ i @ '' to the server's operator.'',
                   eb_field = None, eb_request_id = Some i\<rparr>))
      else (status, \<lparr>eb_code = code c, eb_slug = slug c, eb_message = detail (api_inner e),
                     eb_field = field (api_inner e), eb_request_id = api_request_id e\<rparr>))"

section \<open>The identity of a request\<close>

text \<open>\<open>a.iter().zip(b).fold(0, |acc, (x, y)| acc | (x ^ y)) == 0\<close>.\<close>

definition byte_word :: "char \<Rightarrow> 8 word" where
  "byte_word ch = of_nat (byte ch)"

definition constant_time_eq :: "str \<Rightarrow> str \<Rightarrow> bool" where
  "constant_time_eq a b =
     (if length a \<noteq> length b then False
      else foldl (\<lambda>acc (x, y). or acc (xor (byte_word x) (byte_word y))) 0 (zip a b) = 0)"

definition tenant_scope_for :: "user \<Rightarrow> tenant_scope" where
  "tenant_scope_for u =
     (case u_role u of Admin \<Rightarrow> ScGlobal | Reseller \<Rightarrow> ScReseller (u_id u) | Customer \<Rightarrow> ScCustomer (u_id u))"

definition build_auth :: "user \<Rightarrow> session \<Rightarrow> str \<Rightarrow> auth_context" where
  "build_auth u s req =
     (restrict_to (from_role (u_id u) (u_role u) (tenant_scope_for u) req) (effective_permissions u))
       \<lparr>impersonator_id := s_impersonator_id s\<rparr>"

record http_request =
  hr_method :: str
  hr_cookie :: "str option"
  hr_csrf :: "str option"
  hr_request_id :: str

definition safe_methods :: "str list" where
  "safe_methods = [''GET'', ''HEAD'', ''OPTIONS'']"

text \<open>The extractor \<open>CurrentUser\<close>: a database error carries no request id.\<close>

definition current_user ::
  "'j codec \<Rightarrow> (str \<Rightarrow> str) \<Rightarrow> user_row list \<Rightarrow> int \<Rightarrow> session_row list \<Rightarrow> http_request \<Rightarrow> (user \<times> session \<times> auth_context) api" where
  "current_user c digest users now rows rq =
     (case hr_cookie rq of
        None \<Rightarrow> Inl (with_request_id api_unauthorized (hr_request_id rq))
      | Some token \<Rightarrow>
          (case lookup_session c digest users now token rows of
             Inl e \<Rightarrow> Inl (api_of_db e)
           | Inr None \<Rightarrow> Inl (with_request_id (api_code SessionExpired ''your session has ended'') (hr_request_id rq))
           | Inr (Some (s, u)) \<Rightarrow>
               if hr_method rq \<notin> set safe_methods
                  \<and> \<not> (case hr_csrf rq of None \<Rightarrow> False | Some p \<Rightarrow> constant_time_eq p (s_csrf s))
               then Inl (with_request_id (api_code CsrfInvalid ''missing or invalid CSRF token'') (hr_request_id rq))
               else Inr (u, s, build_auth u s (hr_request_id rq))))"

text \<open>The task the extractor spawns: \<open>Duration::minutes(5)\<close> without a write, then both.\<close>

definition keep_alive :: "'j codec \<Rightarrow> int \<Rightarrow> session \<Rightarrow> session_row list \<Rightarrow> session_row list" where
  "keep_alive c now s rows =
     (if now - s_last_seen_at s > 300
      then extend_session c now (s_id s) default_ttl (touch_session c now (s_id s) rows)
      else rows)"

section \<open>The caller's address and the cookie\<close>

text \<open>
  \<open>parses\<close> is \<open>str::parse::<IpAddr>\<close>; a header line that is not visible ASCII is \<open>None\<close>. The
  peer is its printed address and whether it is loopback.
\<close>

definition client_ip :: "(str \<Rightarrow> bool) \<Rightarrow> (str \<times> bool) option \<Rightarrow> str option list \<Rightarrow> str" where
  "client_ip parses peer forwarded =
     (let direct = (case peer of Some (ip, _) \<Rightarrow> ip | None \<Rightarrow> ''unknown'') in
      if (case peer of Some (_, lo) \<Rightarrow> lo | None \<Rightarrow> False) \<and> forwarded \<noteq> [] then
        (case last forwarded of
           None \<Rightarrow> direct
         | Some v \<Rightarrow>
             let candidate = str_trim (last (str_split (CHR '','') v)) in
             if candidate \<noteq> [] \<and> parses candidate then candidate else direct)
      else direct)"

definition cookie_secure :: "bool \<Rightarrow> str option \<Rightarrow> (str \<times> bool) option \<Rightarrow> bool" where
  "cookie_secure policy forwarded_proto peer =
     (if \<not> policy then False
      else if (case forwarded_proto of
                 None \<Rightarrow> False
               | Some proto \<Rightarrow> to_ascii_lowercase (str_trim (hd (str_split (CHR '','') proto))) = ''https'')
      then True
      else if (case peer of Some (_, lo) \<Rightarrow> lo | None \<Rightarrow> False) then False
      else True)"

record cookie =
  ck_value :: str
  ck_http_only :: bool
  ck_same_site_strict :: bool
  ck_secure :: bool
  ck_path :: str
  ck_max_age :: int

definition session_cookie :: "str \<Rightarrow> bool \<Rightarrow> int \<Rightarrow> cookie" where
  "session_cookie token secure ttl =
     \<lparr>ck_value = token, ck_http_only = True, ck_same_site_strict = True, ck_secure = secure,
      ck_path = ''/'', ck_max_age = ttl\<rparr>"

definition clearing_cookie :: "bool \<Rightarrow> cookie" where
  "clearing_cookie secure =
     \<lparr>ck_value = [], ck_http_only = True, ck_same_site_strict = True, ck_secure = secure,
      ck_path = ''/'', ck_max_age = 0\<rparr>"

section \<open>The throttle\<close>

definition ip_failure_limit :: int where
  "ip_failure_limit = 10"

definition account_failure_limit :: int where
  "account_failure_limit = 5"

definition failure_window :: int where
  "failure_window = 15 * 60"

definition account_slowdown_after :: int where
  "account_slowdown_after = account_failure_limit"

definition account_distributed_limit :: int where
  "account_distributed_limit = account_failure_limit * 10"

definition password_verify_permits :: nat where
  "password_verify_permits = 4"

definition ellipsis :: str where
  "ellipsis = [CHR 0xE2, CHR 0x80, CHR 0xA6]"

definition shown_identifier :: "str \<Rightarrow> str" where
  "shown_identifier uname =
     (let cleaned = concat (map (\<lambda>ch. if is_control ch then ''?'' else ch) (take 64 (str_chars uname))) in
      if 64 < length (str_chars uname) then cleaned @ ellipsis else cleaned)"

text \<open>In milliseconds; \<open>failures\<close> is an \<open>i64\<close>, the factor saturates at \<open>u32::MAX\<close>.\<close>

definition account_slowdown :: "int \<Rightarrow> int" where
  "account_slowdown failures =
     (let over = max 0 (max (- (2 ^ 63)) (failures - account_slowdown_after)) in
      min (500 * (if over < 2 ^ 32 then over else 2 ^ 32 - 1)) 5000)"

definition address_refusal :: "str \<Rightarrow> str \<Rightarrow> api_error" where
  "address_refusal ip uname =
     api_code RateLimited
       (''too many failed sign-ins from your address ('' @ ip @ ''), so this one was refused '' @
        ''without the password being checked. The block is on this address alone '' @ [CHR 0xE2, CHR 0x80, CHR 0x94] @
        '' the account still works from anywhere else '' @ [CHR 0xE2, CHR 0x80, CHR 0x94] @ '' and it lifts by itself '' @
        show_int (failure_window div 60) @ '' minutes after the last failed attempt. The attempts were filed under `'' @
        shown_identifier uname @ ''`, which is what you typed; `unihelm user unlock '' @ shown_identifier uname @
        ''` on the server clears them and the addresses they came from.'')"

definition stranger_refusal :: "str \<Rightarrow> str \<Rightarrow> api_error" where
  "stranger_refusal ip uname =
     api_code RateLimited
       (''`'' @ shown_identifier uname @ ''` is being guessed at from many addresses at once, so sign-ins from '' @
        ''addresses that have never signed in to it '' @ [CHR 0xE2, CHR 0x80, CHR 0x94] @ '' including this one ('' @ ip @ '') '' @
        [CHR 0xE2, CHR 0x80, CHR 0x94] @ '' are being refused without the password being checked. An address that has signed '' @
        ''in before is not affected. This lifts by itself '' @ show_int (failure_window div 60) @
        '' minutes after the last attempt the panel actually checked; on the server, `unihelm user unlock '' @
        shown_identifier uname @ ''` lifts it now.'')"

text \<open>
  The answer is the delay in milliseconds. \<open>ok\<close> is false when recording the refused attempt
  fails, which is only logged.
\<close>

definition check_rate_limits ::
  "'j codec \<Rightarrow> bool \<Rightarrow> int \<Rightarrow> str \<Rightarrow> str \<Rightarrow> attempts_table \<Rightarrow> attempts_table \<times> int api" where
  "check_rate_limits c ok now ip uname db =
     (let by_ip = recent_failures_for_ip c now ip failure_window db;
          by_pair = recent_failures_for_ip_and_username c now ip uname failure_window db;
          filed = (if ok then record_throttled_login_attempt c now ip uname db else db)
      in if by_ip \<ge> ip_failure_limit \<or> by_pair \<ge> account_failure_limit
         then (filed, Inl (address_refusal ip uname))
         else
           (let by_account = recent_failures_for_username c now uname failure_window db in
            if by_account \<ge> account_distributed_limit \<and> \<not> address_has_signed_in ip uname db
            then (filed, Inl (stranger_refusal ip uname))
            else (db, Inr (account_slowdown by_account))))"

section \<open>The routes\<close>

record panel =
  pn_users :: users_table
  pn_sessions :: "session_row list"
  pn_attempts :: attempts_table
  pn_audit :: audit_table

record user_view =
  uv_id :: int
  uv_username :: str
  uv_email :: str
  uv_role :: str
  uv_full_name :: "str option"
  uv_locale :: str
  uv_permissions :: "str list"
  uv_is_impersonated :: bool

definition user_view_of :: "user \<Rightarrow> bool \<Rightarrow> user_view" where
  "user_view_of u imp =
     \<lparr>uv_id = u_id u, uv_username = username_as_str (u_username u), uv_email = email_as_str (u_email u),
      uv_role = role_as_str (u_role u), uv_full_name = u_full_name u, uv_locale = u_locale u,
      uv_permissions = map permission_as_str (effective_permissions u), uv_is_impersonated = imp\<rparr>"

text \<open>
  What a sign-in meets outside the tables: the clock, the verifier of a password against a stored
  hash, the checks already running, whether the hashing thread finished, the two fresh tokens, and
  whether writes of the refusal and of the audit row succeed.
\<close>

record login_env =
  le_now :: int
  le_digest :: "str \<Rightarrow> str"
  le_verify :: "str \<Rightarrow> str \<Rightarrow> bool"
  le_running :: nat
  le_join :: "str option"
  le_token :: str
  le_csrf :: str
  le_attempt_ok :: bool
  le_audit_ok :: bool

text \<open>An account that does not exist burns a hash and fails.\<close>

definition verify_or_burn :: "(str \<Rightarrow> str \<Rightarrow> bool) \<Rightarrow> str option \<Rightarrow> str \<Rightarrow> bool" where
  "verify_or_burn verify stored input =
     (case stored of Some h \<Rightarrow> verify input h | None \<Rightarrow> False)"

definition verify_or_burn_under_budget :: "login_env \<Rightarrow> str option \<Rightarrow> str \<Rightarrow> bool api" where
  "verify_or_burn_under_budget env stored input =
     (if le_running env \<ge> password_verify_permits then
        Inl (api_code RateLimited
          (''the panel is already checking '' @ show_nat password_verify_permits @ '' passwords at once, '' @
           ''so this attempt was refused rather than queued. Nothing is wrong with the '' @
           ''credentials '' @ [CHR 0xE2, CHR 0x80, CHR 0x94] @ '' retry in a few seconds. If it keeps happening, something is '' @
           ''hammering /api/auth/login; `unihelm audit --action auth.login` shows from where.''))
      else (case le_join env of
              Some e \<Rightarrow>
                Inl (api_new (internal_error
                  (''the password check did not finish ('' @ e @ ''); no decision was made about these '' @
                   ''credentials, so nothing was signed in. Retry, and check the panel's log.'')))
            | None \<Rightarrow> Inr (verify_or_burn (le_verify env) stored input)))"

definition fail_login :: "json codec \<Rightarrow> login_env \<Rightarrow> str \<Rightarrow> str \<Rightarrow> panel \<Rightarrow> panel" where
  "fail_login c env ip uname p =
     p\<lparr>pn_attempts := record_login_attempt c (le_now env) ip uname False (pn_attempts p)\<rparr>"

definition json_opt :: "str option \<Rightarrow> json" where
  "json_opt s = (case s of Some t \<Rightarrow> JStr t | None \<Rightarrow> JNull)"

text \<open>\<open>login\<close>: on success the cookie's token, the account as the client sees it, and the CSRF token.\<close>

definition start_login ::
  "json codec \<Rightarrow> login_env \<Rightarrow> str \<Rightarrow> str option \<Rightarrow> str \<Rightarrow> user \<Rightarrow> panel \<Rightarrow> panel \<times> (str \<times> user_view \<times> str) api" where
  "start_login c env ip agent req user p =
     (case create_session c (le_digest env) (ut_rows (pn_users p)) (le_now env) (le_token env) (le_csrf env)
             (u_id user) (Some ip) agent default_ttl None (pn_sessions p) of
        (rows, Inl e) \<Rightarrow> (p\<lparr>pn_sessions := rows\<rparr>, Inl (api_of_db e))
      | (rows, Inr (token, csrf, _)) \<Rightarrow>
          let p1 = p\<lparr>pn_sessions := rows\<rparr>
          in (p1, Inr (token, user_view_of user False, csrf)))"

definition login ::
  "json codec \<Rightarrow> login_env \<Rightarrow> str \<Rightarrow> str option \<Rightarrow> str \<Rightarrow> str \<Rightarrow> str \<Rightarrow> panel \<Rightarrow> panel \<times> (str \<times> user_view \<times> str) api" where
  "login c env ip agent req typed password p =
     (let uname = to_ascii_lowercase (str_trim typed) in
      case check_rate_limits c (le_attempt_ok env) (le_now env) ip uname (pn_attempts p) of
        (at, Inl e) \<Rightarrow> (p\<lparr>pn_attempts := at\<rparr>, Inl e)
      | (at, Inr _) \<Rightarrow>
          (case find_user_for_login c (pn_users p) uname of
             Inl e \<Rightarrow> (p, Inl (api_of_db e))
           | Inr found \<Rightarrow>
               (case verify_or_burn_under_budget env (map_option u_pass_hash found) password of
                  Inl e \<Rightarrow> (p, Inl (with_request_id e req))
                | Inr password_ok \<Rightarrow>
                    (case (if password_ok then found else None) of
                       None \<Rightarrow>
                         (fail_login c env ip uname p,
                          Inl (with_request_id (api_code InvalidCredentials ''incorrect username or password'') req))
                     | Some user \<Rightarrow>
                         if \<not> can_log_in (u_status user) then
                           (fail_login c env ip uname p,
                            Inl (with_request_id (api_code AccountSuspended ''this account is not active'') req))
                         else if u_totp_enabled user then
                           (fail_login c env ip uname p,
                            Inl (with_request_id (api_code NotImplemented
                              ''this account requires two-factor authentication, which this build cannot verify'') req))
                         else
                           (case start_login c env ip agent req user p of
                              (p1, Inl e) \<Rightarrow> (p1, Inl e)
                            | (p1, Inr answer) \<Rightarrow>
                                let p2 = p1\<lparr>pn_attempts := record_login_attempt c (le_now env) ip uname True (pn_attempts p1),
                                            pn_users := record_login c (le_now env) (u_id user) (pn_users p1)\<rparr>
                                in (case record_audit c (le_audit_ok env) (le_now env)
                                           \<lparr>na_actor_user_id = Some (u_id user),
                                            na_actor_username = username_as_str (u_username user),
                                            na_impersonator_id = None, na_ip = Some ip, na_action = ''auth.login'',
                                            na_target = None, na_detail = JObj [(''user_agent'', json_opt agent)],
                                            na_request_id = Some req, na_subscription_id = None\<rparr> (pn_audit p2) of
                                      (au, Inl e) \<Rightarrow> (p2\<lparr>pn_audit := au\<rparr>, Inl (api_of_db e))
                                    | (au, Inr _) \<Rightarrow> (p2\<lparr>pn_audit := au\<rparr>, Inr answer)))))))"

definition logout ::
  "json codec \<Rightarrow> bool \<Rightarrow> int \<Rightarrow> str \<Rightarrow> user \<times> session \<times> auth_context \<Rightarrow> panel \<Rightarrow> panel \<times> unit api" where
  "logout c audit_ok now ip cur p =
     (case cur of (u, s, a) \<Rightarrow>
        let p1 = p\<lparr>pn_sessions := revoke_session (s_id s) (pn_sessions p)\<rparr>
        in (case record_audit c audit_ok now
                   \<lparr>na_actor_user_id = Some (u_id u), na_actor_username = username_as_str (u_username u),
                    na_impersonator_id = s_impersonator_id s, na_ip = Some ip, na_action = ''auth.logout'',
                    na_target = None, na_detail = JObj [], na_request_id = Some (request_id a),
                    na_subscription_id = None\<rparr> (pn_audit p1) of
              (au, Inl e) \<Rightarrow> (p1\<lparr>pn_audit := au\<rparr>, Inl (api_of_db e))
            | (au, Inr _) \<Rightarrow> (p1\<lparr>pn_audit := au\<rparr>, Inr ())))"

definition me :: "user \<times> session \<times> auth_context \<Rightarrow> user_view \<times> str" where
  "me cur = (case cur of (u, s, _) \<Rightarrow> (user_view_of u (s_impersonator_id s \<noteq> None), s_csrf s))"

section \<open>Lemmas\<close>

lemma byte_word_inject [simp]: "byte_word a = byte_word b \<longleftrightarrow> a = b"
proof
  assume "byte_word a = byte_word b"
  then have "unat (of_nat (byte a) :: 8 word) = unat (of_nat (byte b) :: 8 word)"
    by (simp add: byte_word_def)
  then have "byte a = byte b"
    using byte_bound [of a] byte_bound [of b] by (simp add: unat_of_nat)
  then show "a = b" by (simp add: byte_eq_iff)
qed simp

lemma xor_zero_iff: "xor a b = 0 \<longleftrightarrow> a = (b :: 8 word)"
proof
  assume z: "xor a b = 0"
  have "a = xor (xor a b) b"
    by (simp add: xor.assoc)
  with z show "a = b" by simp
qed simp

lemma fold_or_zero:
  "foldl (\<lambda>acc (x, y). or acc (xor (byte_word x) (byte_word y))) z ps = 0
     \<longleftrightarrow> z = 0 \<and> list_all (\<lambda>(x, y). x = y) ps"
proof (induction ps arbitrary: z)
  case (Cons p ps)
  then show ?case
    by (cases p) (auto simp: or_eq_0_iff xor_zero_iff)
qed simp

lemma constant_time_eq_iff [simp]: "constant_time_eq a b \<longleftrightarrow> a = b"
proof (cases "length a = length b")
  case True
  then have "list_all (\<lambda>(x, y). x = y) (zip a b) \<longleftrightarrow> a = b"
    by (induction a b rule: list_induct2) auto
  then show ?thesis
    using True by (simp add: constant_time_eq_def fold_or_zero)
qed (auto simp: constant_time_eq_def)

lemma build_auth_fields [simp]:
  "actor_user_id (build_auth u s req) = u_id u" "acting_role (build_auth u s req) = u_role u"
  "tenant_scope (build_auth u s req) = tenant_scope_for u" "request_id (build_auth u s req) = req"
  "impersonator_id (build_auth u s req) = s_impersonator_id s"
  "permissions (build_auth u s req) = set (effective_permissions u)"
  using effective_subset [of u] by (auto simp: build_auth_def from_role_def)

lemma current_user_ok:
  "current_user c digest users now rows rq = Inr (u, s, a) \<longleftrightarrow>
     (\<exists>token. hr_cookie rq = Some token \<and> lookup_session c digest users now token rows = Inr (Some (s, u))
        \<and> (hr_method rq \<in> set safe_methods \<or> hr_csrf rq = Some (s_csrf s))
        \<and> a = build_auth u s (hr_request_id rq))"
  by (auto simp: current_user_def split: option.splits sum.splits)

text \<open>The counters see the rows of one address, or of one label, and no throttled row.\<close>

lemma ip_rows_only:
  assumes "filter (\<lambda>r. la_ip r = ip) (at_rows db') = filter (\<lambda>r. la_ip r = ip) (at_rows db)"
  shows "recent_failures_for_ip c now ip w db' = recent_failures_for_ip c now ip w db"
    "recent_failures_for_ip_and_username c now ip uname w db' = recent_failures_for_ip_and_username c now ip uname w db"
    "address_has_signed_in ip uname db' \<longleftrightarrow> address_has_signed_in ip uname db"
proof -
  have f: "filter (\<lambda>r. la_ip r = ip \<and> P r) (at_rows db') = filter (\<lambda>r. la_ip r = ip \<and> P r) (at_rows db)" for P
    using arg_cong [OF assms, of "filter P"] by (simp add: conj_commute)
  have l: "list_ex (\<lambda>r. la_ip r = ip \<and> P r) xs \<longleftrightarrow> filter (\<lambda>r. la_ip r = ip \<and> P r) xs \<noteq> []" for P xs
    by (auto simp: list_ex_iff filter_empty_conv)
  show "recent_failures_for_ip c now ip w db' = recent_failures_for_ip c now ip w db"
    "recent_failures_for_ip_and_username c now ip uname w db' = recent_failures_for_ip_and_username c now ip uname w db"
    by (simp_all only: recent_failures_for_ip_def recent_failures_for_ip_and_username_def f)
  show "address_has_signed_in ip uname db' \<longleftrightarrow> address_has_signed_in ip uname db"
    by (simp only: address_has_signed_in_def l f)
qed

lemma throttled_rows_unseen:
  assumes "starts_char (account_label u')"
  shows "recent_failures_for_ip c now ip w (record_throttled_login_attempt c t ip' u' db) = recent_failures_for_ip c now ip w db"
    "recent_failures_for_ip_and_username c now ip uname w (record_throttled_login_attempt c t ip' u' db)
       = recent_failures_for_ip_and_username c now ip uname w db"
    "recent_failures_for_username c now uname w (record_throttled_login_attempt c t ip' u' db)
       = recent_failures_for_username c now uname w db"
    "address_has_signed_in ip uname (record_throttled_login_attempt c t ip' u' db) \<longleftrightarrow> address_has_signed_in ip uname db"
  using is_throttled_label_prefixed [OF assms] throttled_label_ne
  by (simp_all add: recent_failures_for_ip_def recent_failures_for_ip_and_username_def
      recent_failures_for_username_def address_has_signed_in_def record_throttled_login_attempt_def add_attempt_def)

lemma check_rate_limits_throttled:
  "starts_char (account_label u') \<Longrightarrow>
   snd (check_rate_limits c ok now ip uname (record_throttled_login_attempt c t ip' u' db))
     = snd (check_rate_limits c ok now ip uname db)"
  by (simp add: check_rate_limits_def Let_def throttled_rows_unseen)

lemma account_slowdown_bounds: "0 \<le> account_slowdown n" "account_slowdown n \<le> 5000"
  by (simp_all add: account_slowdown_def Let_def)

lemma no_recent_rows:
  assumes "list_all (\<lambda>r. la_at r < to_sql_time c (now - w)) (at_rows db)"
  shows "recent_failures_for_ip c now ip w db = 0" "recent_failures_for_ip_and_username c now ip uname w db = 0"
    "recent_failures_for_username c now uname w db = 0"
  using assms
  by (auto simp: recent_failures_for_ip_def recent_failures_for_ip_and_username_def recent_failures_for_username_def
      list_all_iff filter_empty_conv not_le)

fun throttled_rows :: "'j codec \<Rightarrow> (int \<times> str \<times> str) list \<Rightarrow> attempts_table \<Rightarrow> attempts_table" where
  "throttled_rows c [] db = db"
| "throttled_rows c ((t, ip, uname) # rest) db =
     throttled_rows c rest (record_throttled_login_attempt c t ip uname db)"

lemma check_rate_limits_throttled_rows:
  "list_all (\<lambda>(_, _, u). starts_char (account_label u)) refused \<Longrightarrow>
   snd (check_rate_limits c ok now ip uname (throttled_rows c refused db)) = snd (check_rate_limits c ok now ip uname db)"
  by (induction c refused db rule: throttled_rows.induct) (simp_all add: check_rate_limits_throttled)

lemma check_refuses_iff:
  "is_ok (snd (check_rate_limits c ok now ip uname db)) \<longleftrightarrow>
     recent_failures_for_ip c now ip failure_window db < 10
     \<and> recent_failures_for_ip_and_username c now ip uname failure_window db < 5
     \<and> (recent_failures_for_username c now uname failure_window db < 50 \<or> address_has_signed_in ip uname db)"
  by (auto simp: check_rate_limits_def Let_def ip_failure_limit_def account_failure_limit_def account_distributed_limit_def)

lemma str_split_append_sep: "str_split sep (a @ sep # b) = str_split sep a @ str_split sep b"
proof (induction a)
  case (Cons x a)
  then show ?case
    by (cases "str_split sep a") (auto dest: arg_cong [of _ "[]" length])
qed simp

lemma last_str_split_append: "last (str_split sep (a @ sep # b)) = last (str_split sep b)"
  by (simp add: str_split_append_sep)

lemma str_trim_leading_space: "starts_char s \<Longrightarrow> str_trim ('' '' @ s) = str_trim s"
proof -
  assume "starts_char s"
  then have "str_chars ('' '' @ s) = '' '' # str_chars s"
    using str_chars_ascii_append [of "'' ''" s] by (simp add: ascii_def byte_def)
  then show ?thesis
    by (simp add: str_trim_alt trim_list_def is_whitespace_single is_ascii_whitespace_def byte_def)
qed

section \<open>Properties\<close>

text \<open>
  Nobody can lock a known address out. Whatever attempts are filed from other addresses,
  before, between or after, an address that has signed in to the account is refused exactly when
  its own failures earn it, and every attempt that is not refused waits at most five seconds.
\<close>

theorem strangers_cannot_lock_out:
  assumes "filter (\<lambda>r. la_ip r = ip) (at_rows db') = filter (\<lambda>r. la_ip r = ip) (at_rows db)"
    and "address_has_signed_in ip uname db"
  shows "(is_ok (snd (check_rate_limits c ok now ip uname db')) \<longleftrightarrow>
            recent_failures_for_ip c now ip failure_window db < 10
            \<and> recent_failures_for_ip_and_username c now ip uname failure_window db < 5)
    \<and> (case snd (check_rate_limits c ok now ip uname db') of
         Inr delay \<Rightarrow> 0 \<le> delay \<and> delay \<le> 5000
       | Inl e \<Rightarrow> err_code (api_inner e) = RateLimited)"
proof
  show "is_ok (snd (check_rate_limits c ok now ip uname db')) \<longleftrightarrow>
      recent_failures_for_ip c now ip failure_window db < 10
      \<and> recent_failures_for_ip_and_username c now ip uname failure_window db < 5"
    using assms(2) by (simp add: check_refuses_iff ip_rows_only [OF assms(1)])
  show "case snd (check_rate_limits c ok now ip uname db') of
         Inr delay \<Rightarrow> 0 \<le> delay \<and> delay \<le> 5000
       | Inl e \<Rightarrow> err_code (api_inner e) = RateLimited"
    by (simp add: check_rate_limits_def Let_def account_slowdown_bounds address_refusal_def stranger_refusal_def
        api_code_def api_new_def new_error_def)
qed

lemma strangers_cannot_lock_out_witness:
  "is_ok (snd (check_rate_limits sample_codec True 5 ''10.0.0.1'' ''bob''
     \<lparr>at_rows = \<lparr>la_id = 1, la_at = ''c'', la_ip = ''10.0.0.1'', la_username = ''bob'', la_success = 1\<rparr>
        # replicate 70 \<lparr>la_id = 2, la_at = sample_enc_time 4, la_ip = ''10.9.9.9'', la_username = ''bob'', la_success = 0\<rparr>,
      at_seq = 2\<rparr>))"
proof -
  have b: "account_label ''bob'' = ''bob''"
    by (rule account_label_plain) (simp add: throttled_label_prefix_def)
  show ?thesis
    using strangers_cannot_lock_out [where ip = "''10.0.0.1''" and uname = "''bob''" and c = sample_codec and ok = True
        and now = 5
        and db = "\<lparr>at_rows = [\<lparr>la_id = 1, la_at = ''c'', la_ip = ''10.0.0.1'', la_username = ''bob'', la_success = 1\<rparr>], at_seq = 1\<rparr>"
        and db' = "\<lparr>at_rows = \<lparr>la_id = 1, la_at = ''c'', la_ip = ''10.0.0.1'', la_username = ''bob'', la_success = 1\<rparr>
        # replicate 70 \<lparr>la_id = 2, la_at = sample_enc_time 4, la_ip = ''10.9.9.9'', la_username = ''bob'', la_success = 0\<rparr>,
      at_seq = 2\<rparr>"]
    by (simp add: address_has_signed_in_def b recent_failures_for_ip_def recent_failures_for_ip_and_username_def)
qed

text \<open>
  Refusals do not prolong themselves. However many refused attempts are recorded, for any
  addresses and accounts, the answer to the next attempt is the one it would have been without
  them: once the last checked failure is fifteen minutes old the attempt passes without delay. Yet
  each refusal is a failure from its address to Sentinel.
\<close>

theorem refusals_do_not_prolong:
  assumes "list_all (\<lambda>(_, _, u). starts_char (account_label u)) refused"
  shows "snd (check_rate_limits c ok now ip uname (throttled_rows c refused db))
           = snd (check_rate_limits c ok now ip uname db)
    \<and> (list_all (\<lambda>r. la_at r < to_sql_time c (now - 900)) (at_rows db) \<longrightarrow>
         snd (check_rate_limits c ok now ip uname (throttled_rows c refused db)) = Inr 0)
    \<and> (codec_ok c \<longrightarrow> since \<le> now \<longrightarrow> \<not> is_ok (snd (check_rate_limits c True now ip uname db)) \<longrightarrow>
         (\<exists>n > 0. (ip, n) \<in> set (failed_logins_since c since (fst (check_rate_limits c True now ip uname db)))))"
proof (intro conjI impI)
  show eq: "snd (check_rate_limits c ok now ip uname (throttled_rows c refused db))
      = snd (check_rate_limits c ok now ip uname db)"
    using assms by (rule check_rate_limits_throttled_rows)
  show "snd (check_rate_limits c ok now ip uname (throttled_rows c refused db)) = Inr 0"
    if "list_all (\<lambda>r. la_at r < to_sql_time c (now - 900)) (at_rows db)"
  proof -
    have "failure_window = 900" by (simp add: failure_window_def)
    with that show ?thesis
      unfolding eq
      by (simp add: check_rate_limits_def Let_def no_recent_rows ip_failure_limit_def account_failure_limit_def
          account_distributed_limit_def account_slowdown_def account_slowdown_after_def)
  qed
  assume c: "codec_ok c" and s: "since \<le> now" and r: "\<not> is_ok (snd (check_rate_limits c True now ip uname db))"
  have filed: "fst (check_rate_limits c True now ip uname db) = record_throttled_login_attempt c now ip uname db"
    using r by (auto simp: check_rate_limits_def Let_def)
  have "to_sql_time c since \<le> to_sql_time c now"
    using c s by (simp add: to_sql_time_def enc_time_le)
  then show "\<exists>n > 0. (ip, n) \<in> set (failed_logins_since c since (fst (check_rate_limits c True now ip uname db)))"
    by (force simp: filed failed_logins_since_def Let_def record_throttled_login_attempt_def add_attempt_def)
qed

lemma refusals_do_not_prolong_witness:
  "snd (check_rate_limits sample_codec True 9 ''ip'' ''bob''
     (throttled_rows sample_codec [(8, ''ip'', ''bob''), (8, ''ip'', ''throttled:bob'')] \<lparr>at_rows = [], at_seq = 0\<rparr>)) = Inr 0"
proof -
  have b: "account_label ''bob'' = ''bob''"
    by (rule account_label_plain) (simp add: throttled_label_prefix_def)
  have t: "account_label ''throttled:bob'' = ''bob''"
    using account_label_prefixed [of "''bob''"] by (simp add: b throttled_label_prefix_def)
  show ?thesis
    using refusals_do_not_prolong [where refused = "[(8, ''ip'', ''bob''), (8, ''ip'', ''throttled:bob'')]" and c = sample_codec
        and ok = True and now = 9 and ip = "''ip''" and uname = "''bob''" and db = "\<lparr>at_rows = [], at_seq = 0\<rparr>" and since = 0]
    by (auto simp: b t starts_char_def is_continuation_def byte_def)
qed

text \<open>
  An authenticated request. The extractor accepts exactly a cookie that resolves, with the
  session's own CSRF token on any method that can change state; the context it builds is of that
  account, with the scope of its role, holding exactly the account's effective permissions, which
  never exceed the role's.
\<close>

theorem authenticated_request_exact:
  "(current_user c digest users now rows rq = Inr (u, s, a) \<longleftrightarrow>
     (\<exists>token. hr_cookie rq = Some token \<and> lookup_session c digest users now token rows = Inr (Some (s, u))
        \<and> (hr_method rq \<in> {''GET'', ''HEAD'', ''OPTIONS''} \<or> hr_csrf rq = Some (s_csrf s))
        \<and> a = build_auth u s (hr_request_id rq)))
   \<and> (require_perm (build_auth u s req) p = Inr () \<longleftrightarrow> p \<in> set (effective_permissions u))
   \<and> permissions (build_auth u s req) \<subseteq> set (default_permissions (u_role u))
   \<and> (tenant_scope (build_auth u s req) = ScGlobal \<longleftrightarrow> u_role u = Admin)
   \<and> acting_role (build_auth u s req) = u_role u \<and> actor_user_id (build_auth u s req) = u_id u"
  using effective_subset [of u]
  by (auto simp: current_user_ok safe_methods_def require_perm_def has_perm_def tenant_scope_for_def split: role.splits)

text \<open>
  A caller cannot choose its address. Behind a loopback proxy that appends the address it saw,
  the panel takes that address whatever the client wrote before it and on whatever lines; from any
  other peer the header is ignored, and a last entry that is no address falls back to the peer.
\<close>

theorem client_ip_is_the_last_hop:
  assumes "parses ip" "ip \<noteq> []" "ascii ip" "str_trim ip = ip" "CHR '','' \<notin> set ip"
  shows "client_ip parses (Some (peer, True)) (lines @ [Some (forged @ '', '' @ ip)]) = ip
    \<and> client_ip parses (Some (peer, True)) (lines @ [Some ip]) = ip
    \<and> client_ip parses (Some (peer, False)) anything = peer
    \<and> client_ip parses (Some (peer, True)) (lines @ [None]) = peer"
proof -
  have sp: "CHR '','' \<notin> set ('' '' @ ip)"
    using assms(5) by simp
  have "last (str_split (CHR '','') (forged @ CHR '','' # ('' '' @ ip))) = '' '' @ ip"
    unfolding last_str_split_append using str_split_fresh [OF sp] by simp
  moreover have "str_trim ('' '' @ ip) = ip"
    using assms(2-4) by (subst str_trim_leading_space) (cases ip, auto simp: starts_char_def ascii_def is_continuation_def)
  ultimately show ?thesis
    using assms by (simp add: client_ip_def Let_def str_split_fresh)
qed

lemma client_ip_is_the_last_hop_witness:
  "client_ip (\<lambda>s. s = ''10.0.0.1'') (Some (''127.0.0.1'', True)) [None, Some ''8.8.8.8, 10.0.0.1''] = ''10.0.0.1''"
  using client_ip_is_the_last_hop [of "\<lambda>s. s = ''10.0.0.1''" "''10.0.0.1''" "''127.0.0.1''" "[None]" "''8.8.8.8''"]
  by (simp add: ascii_def byte_def str_trim_plain plain_char_def is_ascii_whitespace_def)

section \<open>Signing in\<close>

lemma find_login_row:
  assumes "find_user_for_login c db x = Inr (Some u)"
  obtains r where "r \<in> set (ut_rows db)" "user_of_row c r = Inr u"
  using assms by (auto simp: find_user_for_login_def Let_def find_Some_iff result_simps dest: nth_mem split: option.splits)

lemma user_of_row_login:
  "codec_ok c \<Longrightarrow> user_of_row c r = Inr u \<Longrightarrow>
   user_of_row c (r\<lparr>ur_last_login_at := Some (to_sql_time c t)\<rparr>) = Inr (u\<lparr>u_last_login_at := Some t\<rparr>)"
  by (auto simp: user_of_row_def result_simps from_sql_time_opt_def)

lemma find_map_key: "(\<And>x. key (g x) = key x) \<Longrightarrow> find (\<lambda>x. key x = k) (map g xs) = map_option g (find (\<lambda>x. key x = k) xs)"
  by (induction xs) auto

lemma find_after_login:
  assumes "codec_ok c" "users_inv db" "r \<in> set (ut_rows db)" "user_of_row c r = Inr u"
  shows "find (\<lambda>x. ur_id x = u_id u) (ut_rows (record_login c t (u_id u) db))
    = Some (r\<lparr>ur_last_login_at := Some (to_sql_time c t)\<rparr>)"
proof -
  have "find (\<lambda>x. ur_id x = u_id u) (ut_rows db) = Some r"
    using assms by (subst find_key_Some) (auto simp: users_inv_def user_of_row_id)
  then show ?thesis
    using user_of_row_id [OF assms(4)]
    by (simp add: record_login_def update_user_def find_map_key)
qed

definition new_session :: "json codec \<Rightarrow> login_env \<Rightarrow> user \<Rightarrow> str \<Rightarrow> str option \<Rightarrow> session" where
  "new_session c env u ip agent =
     \<lparr>s_id = le_digest env (le_token env), s_user_id = u_id u, s_csrf = le_csrf env, s_ip = Some ip,
      s_user_agent = agent, s_impersonator_id = None, s_created_at = le_now env, s_last_seen_at = le_now env,
      s_expires_at = le_now env + default_ttl, s_revoked = False\<rparr>"

lemma create_session_cases:
  assumes "codec_ok c"
  shows "create_session c digest users now token csrf u ip agent ttl None rows =
    (if list_ex (\<lambda>r. sr_id r = digest token) rows then (rows, Inl (Sqlx ''UNIQUE constraint failed: sessions.id''))
     else if \<not> list_ex (\<lambda>r. ur_id r = u) users then (rows, Inl (Sqlx ''FOREIGN KEY constraint failed''))
     else (rows @ [\<lparr>sr_id = digest token, sr_user_id = u, sr_csrf = csrf, sr_ip = ip, sr_user_agent = agent,
                 sr_impersonator_id = None, sr_created_at = to_sql_time c now,
                 sr_last_seen_at = to_sql_time c now, sr_expires_at = to_sql_time c (now + ttl), sr_revoked = 0\<rparr>],
           Inr (token, csrf, \<lparr>s_id = digest token, s_user_id = u, s_csrf = csrf, s_ip = ip, s_user_agent = agent,
             s_impersonator_id = None, s_created_at = now, s_last_seen_at = now, s_expires_at = now + ttl,
             s_revoked = False\<rparr>)))"
  using assms by (simp add: create_session_def Let_def session_of_row_def)

lemma login_ok:
  assumes "login c env ip agent req typed password p = (p', Inr (token, view, csrf))"
  obtains u p1 where
    "find_user_for_login c (pn_users p) (to_ascii_lowercase (str_trim typed)) = Inr (Some u)"
    "is_ok (snd (check_rate_limits c (le_attempt_ok env) (le_now env) ip (to_ascii_lowercase (str_trim typed)) (pn_attempts p)))"
    "le_running env < 4" "le_verify env password (u_pass_hash u)" "can_log_in (u_status u)" "\<not> u_totp_enabled u"
    "start_login c env ip agent req u p = (p1, Inr (token, view, csrf))"
    "pn_users p' = record_login c (le_now env) (u_id u) (pn_users p1)" "pn_sessions p' = pn_sessions p1"
    "pn_attempts p' = record_login_attempt c (le_now env) ip (to_ascii_lowercase (str_trim typed)) True (pn_attempts p1)"
    "le_audit_ok env" "length (au_rows (pn_audit p')) = Suc (length (au_rows (pn_audit p1)))"
  using assms
  by (auto simp: login_def Let_def verify_or_burn_under_budget_def verify_or_burn_def password_verify_permits_def
      record_audit_def split: prod.splits sum.splits option.splits if_splits)

lemma start_login_ok:
  assumes "codec_ok c" "start_login c env ip agent req u p = (p1, Inr (token, view, csrf))"
  shows "token = le_token env \<and> csrf = le_csrf env \<and> view = user_view_of u False \<and> pn_users p1 = pn_users p
    \<and> pn_attempts p1 = pn_attempts p \<and> pn_audit p1 = pn_audit p
    \<and> list_all (\<lambda>r. sr_id r \<noteq> le_digest env token) (pn_sessions p)
    \<and> (\<exists>row. pn_sessions p1 = pn_sessions p @ [row] \<and> sr_id row = le_digest env token
           \<and> session_of_row c row = Inr (new_session c env u ip agent))"
  using assms
  by (auto simp: start_login_def create_session_cases Let_def new_session_def session_of_row_def list_all_iff list_ex_iff
      split: if_splits)

lemma lookup_new_session:
  assumes "codec_ok c" "users_inv db" "r \<in> set (ut_rows db)" "user_of_row c r = Inr u" "can_log_in (u_status u)"
    and "list_all (\<lambda>r. sr_id r \<noteq> digest token) rows" "sr_id row = digest token" "session_of_row c row = Inr s"
    and "s_user_id s = u_id u"
  shows "lookup_session c digest (ut_rows (record_login c now (u_id u) db)) t token (rows @ [row])
    = (if is_valid_at s t then Inr (Some (s, u\<lparr>u_last_login_at := Some now\<rparr>)) else Inr None)"
proof -
  have "find (\<lambda>r. sr_id r = digest token) (rows @ [row]) = Some row"
    using assms(6,7) by (intro find_append_new) auto
  then show ?thesis
    using assms(5,8,9) find_after_login [OF assms(1-4), of now] user_of_row_login [OF assms(1,4), of now]
    by (simp add: lookup_session_def)
qed

text \<open>
  C5: signing in. A sign-in that succeeds was not refused, found an active account without two-factor
  authentication whose stored hash the password verifies, while fewer than four checks ran, and left
  an audit row; the cookie it gives then resolves to that account, with the CSRF token of the answer,
  for the next twelve hours and not a second longer.
\<close>

theorem sign_in_sound:
  assumes "codec_ok c" "users_inv (pn_users p)"
    and "login c env ip agent req typed password p = (p', Inr (token, view, csrf))"
  shows "\<exists>u s. find_user_for_login c (pn_users p) (to_ascii_lowercase (str_trim typed)) = Inr (Some u)
    \<and> le_verify env password (u_pass_hash u) \<and> u_status u = UActive \<and> \<not> u_totp_enabled u \<and> le_running env < 4
    \<and> is_ok (snd (check_rate_limits c (le_attempt_ok env) (le_now env) ip (to_ascii_lowercase (str_trim typed)) (pn_attempts p)))
    \<and> view = user_view_of u False \<and> length (au_rows (pn_audit p')) = Suc (length (au_rows (pn_audit p)))
    \<and> s_csrf s = csrf \<and> s_user_id s = u_id u \<and> s_impersonator_id s = None
    \<and> (\<forall>t. lookup_session c (le_digest env) (ut_rows (pn_users p')) t token (pn_sessions p')
          = (if t < le_now env + 43200 then Inr (Some (s, u\<lparr>u_last_login_at := Some (le_now env)\<rparr>)) else Inr None))"
proof -
  obtain u p1 where u: "find_user_for_login c (pn_users p) (to_ascii_lowercase (str_trim typed)) = Inr (Some u)"
    and ok: "is_ok (snd (check_rate_limits c (le_attempt_ok env) (le_now env) ip (to_ascii_lowercase (str_trim typed)) (pn_attempts p)))"
      "le_running env < 4" "le_verify env password (u_pass_hash u)" "can_log_in (u_status u)" "\<not> u_totp_enabled u"
    and start: "start_login c env ip agent req u p = (p1, Inr (token, view, csrf))"
    and p': "pn_users p' = record_login c (le_now env) (u_id u) (pn_users p1)" "pn_sessions p' = pn_sessions p1"
      "length (au_rows (pn_audit p')) = Suc (length (au_rows (pn_audit p1)))"
    using login_ok [OF assms(3)] by blast
  obtain row where row: "pn_sessions p1 = pn_sessions p @ [row]" "sr_id row = le_digest env token"
      "session_of_row c row = Inr (new_session c env u ip agent)"
    and st: "token = le_token env" "csrf = le_csrf env" "view = user_view_of u False" "pn_users p1 = pn_users p"
      "pn_audit p1 = pn_audit p" "list_all (\<lambda>r. sr_id r \<noteq> le_digest env token) (pn_sessions p)"
    using start_login_ok [OF assms(1) start] by blast
  obtain r where r: "r \<in> set (ut_rows (pn_users p))" "user_of_row c r = Inr u"
    using u by (rule find_login_row)
  have active: "u_status u = UActive"
    using ok(4) by (cases "u_status u") simp_all
  have "lookup_session c (le_digest env) (ut_rows (pn_users p')) t token (pn_sessions p')
      = (if t < le_now env + 43200
         then Inr (Some (new_session c env u ip agent, u\<lparr>u_last_login_at := Some (le_now env)\<rparr>)) else Inr None)" for t
    unfolding p' row(1) st(4)
    by (subst lookup_new_session [where digest = "le_digest env" and token = token, OF assms(1,2) r ok(4) st(6) row(2,3)])
      (simp_all add: new_session_def is_valid_at_def default_ttl_def)
  then show ?thesis
    using u ok active p'(3) st by (intro exI [of _ u] exI [of _ "new_session c env u ip agent"]) (simp add: new_session_def)
qed

instance json :: countable
  by countable_datatype

definition full_json_codec :: "json codec" where
  "full_json_codec =
     sample_json_codec\<lparr>enc_uuid := (\<lambda>w. show_nat (unat w)), dec_uuid := (\<lambda>s. Inr (of_nat (digits_value s))),
       enc_json := (\<lambda>j. show_nat (to_nat j)), dec_json := (\<lambda>s. Inr (from_nat (digits_value s)))\<rparr>"

lemma full_json_codec_ok: "codec_ok full_json_codec"
  using sample_codec_ok by (simp add: codec_ok_def full_json_codec_def sample_json_codec_def sample_codec_def)

definition sample_env :: login_env where
  "sample_env =
     \<lparr>le_now = 5, le_digest = (\<lambda>t. t), le_verify = (\<lambda>p h. p = h), le_running = 3, le_join = None, le_token = ''t'',
      le_csrf = ''x'', le_attempt_ok = True, le_audit_ok = True\<rparr>"

definition sample_bob :: new_user where
  "sample_bob =
     \<lparr>nu_role = Admin, nu_email = Email ''bob@x.io'', nu_username = Username ''bob_1'', nu_password = ''pw'',
      nu_reseller_id = None, nu_full_name = None, nu_locale = ''en''\<rparr>"

definition sample_panel :: panel where
  "sample_panel =
     \<lparr>pn_users = \<lparr>ut_rows = [new_row full_json_codec 1 0 ''pw'' sample_bob], ut_seq = 1\<rparr>, pn_sessions = [],
      pn_attempts = \<lparr>at_rows = [], at_seq = 0\<rparr>, pn_audit = \<lparr>au_rows = [], au_seq = 0\<rparr>\<rparr>"

lemma sample_panel_row:
  "\<exists>u. user_of_row full_json_codec (new_row full_json_codec 1 0 ''pw'' sample_bob) = Inr u \<and> u_pass_hash u = ''pw''
     \<and> u_status u = UActive \<and> \<not> u_totp_enabled u \<and> u_id u = 1"
  using em.reparse [OF parse_examples(4)] un.reparse [OF parse_examples(3)] user_status_reads [of UActive]
    full_json_codec_ok sample_codec_null role_parse_total [of Admin, simplified]
  by (auto simp: user_of_row_def new_row_def corrupt_as_def role_parse_total from_sql_time_opt_def sample_bob_def
      full_json_codec_def sample_json_codec_def sample_codec_def)

lemma sample_login:
  "\<exists>p' view. login full_json_codec sample_env ''ip'' None ''r'' ''Bob_1'' ''pw'' sample_panel = (p', Inr (''t'', view, ''x''))"
proof -
  obtain u where u: "user_of_row full_json_codec (new_row full_json_codec 1 0 ''pw'' sample_bob) = Inr u"
      "u_pass_hash u = ''pw''" "u_status u = UActive" "\<not> u_totp_enabled u" "u_id u = 1"
    using sample_panel_row by blast
  have t: "to_ascii_lowercase (str_trim ''Bob_1'') = ''bob_1''"
    by (simp add: trim_bob to_ascii_lowercase_def to_lower_char_def ascii_defs byte_def char_of_def bit_0)
  have n: "ur_username (new_row full_json_codec 1 0 ''pw'' sample_bob) = ''bob_1''"
    "ur_id (new_row full_json_codec 1 0 ''pw'' sample_bob) = 1"
    by (simp_all add: new_row_def sample_bob_def)
  show ?thesis
    by (simp add: login_def t n check_rate_limits_def recent_failures_for_ip_def recent_failures_for_ip_and_username_def
        recent_failures_for_username_def sample_panel_def sample_env_def find_user_for_login_def u Let_def
        ip_failure_limit_def account_failure_limit_def account_distributed_limit_def
        verify_or_burn_under_budget_def verify_or_burn_def password_verify_permits_def start_login_def
        create_session_cases full_json_codec_ok record_audit_def)
qed

lemma sign_in_sound_witness:
  "\<exists>p' view. lookup_session full_json_codec (\<lambda>t. t) (ut_rows (pn_users p')) 43205 ''t'' (pn_sessions p') = Inr None
     \<and> fst (login full_json_codec sample_env ''ip'' None ''r'' ''Bob_1'' ''pw'' sample_panel) = p'"
proof -
  obtain p' view where l: "login full_json_codec sample_env ''ip'' None ''r'' ''Bob_1'' ''pw'' sample_panel = (p', Inr (''t'', view, ''x''))"
    using sample_login by blast
  have inv: "users_inv (pn_users sample_panel)"
    by (simp add: users_inv_def sample_panel_def new_row_def)
  show ?thesis
    using sign_in_sound [OF full_json_codec_ok inv l] l by (auto simp: sample_env_def)
qed

text \<open>
  A sign-in that fails changes nothing but the login history: no session, account or audit
  row is written or changed, and the history grows by at most one row, a failure from that
  address, unless it is the audit row that could not be written.
\<close>

theorem failed_sign_in_leaves_no_session:
  assumes "codec_ok c" "le_audit_ok env"
  shows "case login c env ip agent req typed password p of
      (p', Inl e) \<Rightarrow> pn_sessions p' = pn_sessions p \<and> pn_users p' = pn_users p \<and> pn_audit p' = pn_audit p
        \<and> (pn_attempts p' = pn_attempts p
           \<or> (\<exists>r. at_rows (pn_attempts p') = at_rows (pn_attempts p) @ [r] \<and> la_ip r = ip \<and> la_success r = 0))
    | (p', Inr _) \<Rightarrow> True"
  using assms
  by (auto simp: login_def Let_def check_rate_limits_def start_login_def create_session_cases record_audit_def
      fail_login_def record_login_attempt_def record_throttled_login_attempt_def add_attempt_def
      split: prod.splits sum.splits option.splits if_splits)

lemma failed_sign_in_leaves_no_session_witness:
  "pn_sessions (fst (login full_json_codec (sample_env\<lparr>le_running := 4\<rparr>) ''ip'' None ''r'' ''bob'' ''pw'' sample_panel)) = []"
proof -
  have "le_audit_ok (sample_env\<lparr>le_running := 4\<rparr>)"
    by (simp add: sample_env_def)
  moreover have "\<not> (\<exists>p' x. login full_json_codec (sample_env\<lparr>le_running := 4\<rparr>) ''ip'' None ''r'' ''bob'' ''pw'' sample_panel = (p', Inr x))"
    by (auto elim!: login_ok)
  ultimately show ?thesis
    using failed_sign_in_leaves_no_session [OF full_json_codec_ok, where env = "sample_env\<lparr>le_running := 4\<rparr>"
        and ip = "''ip''" and agent = None and req = "''r''" and typed = "''bob''" and password = "''pw''" and p = sample_panel]
    by (auto simp: sample_panel_def split: prod.splits sum.splits)
qed

end
