(* ===== verification/Managed.thy ===== *)
theory Managed
  imports Models
begin

text \<open>
  The files the panel owns, \<open>unihelm-config/src/managed.rs\<close>: the header with the hash of the
  body, the states a file can be in, and the operations on the disk. The disk maps a path to what
  is there; SHA-256 in hex is the argument \<open>sha\<close>, and the faults of the file system are arguments
  of the operations that meet them. The lemmas show that a written file reads back as ours, which
  edits are noticed, and what a write leaves behind.
\<close>

section \<open>Errors\<close>

datatype diff_kind = DSame | DAdded | DRemoved

record diff_line =
  dl_line :: nat
  dl_kind :: diff_kind
  dl_text :: str

datatype config_error =
    TemplateErr str str
  | IoErr str str
  | BadPath str str
  | Drift str "diff_line list"
  | ForeignErr str
  | ValidationFailed str str
  | ReloadFailed str str
  | PostCheckFailed str str
  | RevisionStoreErr str

type_synonym 'a config_res = "config_error + 'a"

fun display_config_error :: "config_error \<Rightarrow> str" where
  "display_config_error (TemplateErr template d) = ''template `'' @ template @ ''`: '' @ d"
| "display_config_error (IoErr path e) = path @ '': '' @ e"
| "display_config_error (BadPath path reason) = path @ '': '' @ reason"
| "display_config_error (Drift path _) = path @ '' was edited outside the panel''"
| "display_config_error (ForeignErr path) = path @ '' exists but was not written by the panel''"
| "display_config_error (ValidationFailed v out) = v @ '' rejected the configuration:'' @ [CHR 0x0A] @ out"
| "display_config_error (ReloadFailed service out) = service @ '' failed to reload:'' @ [CHR 0x0A] @ out"
| "display_config_error (PostCheckFailed check out) =
     ''the change was reverted because a check failed ('' @ check @ ''):'' @ [CHR 0x0A] @ out"
| "display_config_error (RevisionStoreErr e) = ''could not record a configuration revision: '' @ e"

fun config_error_code :: "config_error \<Rightarrow> error_code" where
  "config_error_code (Drift _ _) = ConfigDrift"
| "config_error_code (ForeignErr _) = ConfigDrift"
| "config_error_code (ValidationFailed _ _) = ConfigValidationFailed"
| "config_error_code (TemplateErr _ _) = ConfigValidationFailed"
| "config_error_code (ReloadFailed _ _) = ConfigRollback"
| "config_error_code (PostCheckFailed _ _) = ConfigRollback"
| "config_error_code _ = Internal"

definition uni_error_of_config :: "config_error \<Rightarrow> uni_error" where
  "uni_error_of_config e = new_error (config_error_code e) (display_config_error e)"

section \<open>The header\<close>

definition marker :: str where
  "marker = ''UNIHELM-MANAGED sha256:''"

definition em_dash :: str where
  "em_dash = [CHR 0xE2, CHR 0x80, CHR 0x94]"

definition notice :: str where
  "notice = ''generated by Unihelm '' @ em_dash @ '' edits are detected, not overwritten''"

datatype comment_style = HashStyle | Semicolon

fun comment_prefix :: "comment_style \<Rightarrow> str" where
  "comment_prefix HashStyle = ''#''"
| "comment_prefix Semicolon = '';''"

datatype file_state =
    Absent
  | Managed str
  | Drifted str str
  | Foreign
  | UnreadableFile str

fun is_safe_to_overwrite :: "file_state \<Rightarrow> bool" where
  "is_safe_to_overwrite Absent = True"
| "is_safe_to_overwrite (Managed _) = True"
| "is_safe_to_overwrite _ = False"

fun is_drifted :: "file_state \<Rightarrow> bool" where
  "is_drifted (Drifted _ _) = True"
| "is_drifted _ = False"

definition newline :: char where
  "newline = CHR 0x0A"

definition header :: "(str \<Rightarrow> str) \<Rightarrow> str \<Rightarrow> comment_style \<Rightarrow> str" where
  "header sha body style = comment_prefix style @ '' '' @ marker @ sha body"

definition with_header :: "(str \<Rightarrow> str) \<Rightarrow> str \<Rightarrow> comment_style \<Rightarrow> str" where
  "with_header sha body style =
     header sha body style @ [newline] @ comment_prefix style @ '' '' @ notice @ [newline] @ body"

definition is_lead_char :: "str \<Rightarrow> bool" where
  "is_lead_char ch \<longleftrightarrow> ch = ''#'' \<or> ch = '';'' \<or> is_whitespace ch"

definition split_header :: "str \<Rightarrow> (str \<times> str) option" where
  "split_header contents =
     (case split_once newline contents of
        None \<Rightarrow> None
      | Some (first, rest) \<Rightarrow>
          (case str_find marker first of
             None \<Rightarrow> None
           | Some marker_at \<Rightarrow>
               if \<not> list_all is_lead_char (str_chars (str_trim_end (take marker_at first))) then None
               else
                 let h = takeWhile is_ascii_hexdigit (str_trim (drop (marker_at + length marker) first)) in
                 if length h \<noteq> 64 then None
                 else Some (h, case split_once newline rest of
                                 Some (line, after) \<Rightarrow> if str_contains notice line then after else rest
                               | None \<Rightarrow> rest)))"

section \<open>The disk\<close>

text \<open>\<open>File\<close> is text with its mode; \<open>Opaque\<close> cannot be read as text, for the reason given.\<close>

datatype node = Missing | File str nat | Opaque str nat

type_synonym disk = "str \<Rightarrow> node"

definition inspect :: "(str \<Rightarrow> str) \<Rightarrow> disk \<Rightarrow> str \<Rightarrow> file_state" where
  "inspect sha d path =
     (case d path of
        Missing \<Rightarrow> Absent
      | Opaque reason _ \<Rightarrow> UnreadableFile reason
      | File contents _ \<Rightarrow>
          (case split_header contents of
             None \<Rightarrow> Foreign
           | Some (claimed, body) \<Rightarrow>
               if sha body = claimed then Managed (sha body) else Drifted claimed (sha body)))"

definition read_body :: "disk \<Rightarrow> str \<Rightarrow> str option config_res" where
  "read_body d path =
     (case d path of
        Missing \<Rightarrow> Inr None
      | Opaque reason _ \<Rightarrow> Inl (IoErr path reason)
      | File contents _ \<Rightarrow> Inr (map_option snd (split_header contents)))"

text \<open>
  The directories above a path, from the top. The missing ones are made first; reading a directory
  as a file fails, and its mode is the one under the usual umask.
\<close>

definition parent_dirs :: "str \<Rightarrow> str list" where
  "parent_dirs path = map (\<lambda>i. take i path) (filter (\<lambda>i. path ! i = CHR ''/'') [1..<length path])"

definition new_dir :: node where
  "new_dir = Opaque ''Is a directory (os error 21)'' 493"

definition make_dirs :: "str list \<Rightarrow> disk \<Rightarrow> disk" where
  "make_dirs dirs d = (\<lambda>p. if p \<in> set dirs \<and> d p = Missing then new_dir else d p)"

text \<open>
  A write can fail at a path without a parent, when some of the directories are made, at a path without
  a file name, while the staging file is filled, or at the rename; every failure after the staging file
  was opened removes it.
\<close>

datatype write_fault = FaultPath str | FaultDir str str nat | FaultName str | FaultTemp str | FaultRename str

definition temp_of :: "str \<Rightarrow> str" where
  "temp_of path = path @ ''.unihelm-tmp''"

definition write_atomic :: "write_fault option \<Rightarrow> str \<Rightarrow> str \<Rightarrow> nat \<Rightarrow> disk \<Rightarrow> disk \<times> unit config_res" where
  "write_atomic fault path contents mode d =
     (case fault of
        Some (FaultPath reason) \<Rightarrow> (d, Inl (BadPath path reason))
      | Some (FaultDir dir e n) \<Rightarrow> (make_dirs (take n (parent_dirs path)) d, Inl (IoErr dir e))
      | Some (FaultName reason) \<Rightarrow> (make_dirs (parent_dirs path) d, Inl (BadPath path reason))
      | Some (FaultTemp e) \<Rightarrow> ((make_dirs (parent_dirs path) d)(temp_of path := Missing), Inl (IoErr (temp_of path) e))
      | Some (FaultRename e) \<Rightarrow> ((make_dirs (parent_dirs path) d)(temp_of path := Missing), Inl (IoErr path e))
      | None \<Rightarrow> ((make_dirs (parent_dirs path) d)(temp_of path := Missing, path := File contents mode), Inr ()))"

fun node_mode :: "node \<Rightarrow> nat" where
  "node_mode Missing = 0"
| "node_mode (File _ mode) = mode"
| "node_mode (Opaque _ mode) = mode"

fun chmod :: "nat \<Rightarrow> node \<Rightarrow> node" where
  "chmod mode Missing = Missing"
| "chmod mode (File contents _) = File contents mode"
| "chmod mode (Opaque reason _) = Opaque reason mode"

text \<open>The faults are those of \<open>metadata\<close> and of \<open>set_permissions\<close>.\<close>

definition enforce_mode :: "str option \<Rightarrow> str option \<Rightarrow> str \<Rightarrow> nat \<Rightarrow> disk \<Rightarrow> disk \<times> nat option config_res" where
  "enforce_mode stat_fault chmod_fault path mode d =
     (case stat_fault of
        Some e \<Rightarrow> (d, Inl (IoErr path e))
      | None \<Rightarrow>
          let current = node_mode (d path) mod 4096 in
          if d path = Missing \<or> current = mode then (d, Inr None)
          else (case chmod_fault of
                  Some e \<Rightarrow> (d, Inl (IoErr path e))
                | None \<Rightarrow> (d(path := chmod mode (d path)), Inr (Some current))))"

definition remove_file :: "str option \<Rightarrow> str \<Rightarrow> disk \<Rightarrow> disk \<times> unit config_res" where
  "remove_file fault path d =
     (case fault of
        Some e \<Rightarrow> (d, Inl (IoErr path e))
      | None \<Rightarrow> (d(path := Missing), Inr ()))"

definition remove_managed :: "(str \<Rightarrow> str) \<Rightarrow> str option \<Rightarrow> str \<Rightarrow> disk \<Rightarrow> disk \<times> bool config_res" where
  "remove_managed sha fault path d =
     (case inspect sha d path of
        Absent \<Rightarrow> (d, Inr False)
      | Foreign \<Rightarrow> (d, Inl (ForeignErr path))
      | UnreadableFile reason \<Rightarrow> (d, Inl (BadPath path reason))
      | _ \<Rightarrow> (case remove_file fault path d of
                (d', Inl e) \<Rightarrow> (d', Inl e)
              | (d', Inr _) \<Rightarrow> (d', Inr True)))"

section \<open>The diff\<close>

fun diff_from :: "nat \<Rightarrow> str list \<Rightarrow> str list \<Rightarrow> diff_line list" where
  "diff_from i [] [] = []"
| "diff_from i (a # as) (b # bs) =
     (if a = b then [\<lparr>dl_line = i + 1, dl_kind = DSame, dl_text = a\<rparr>]
      else [\<lparr>dl_line = i + 1, dl_kind = DRemoved, dl_text = a\<rparr>, \<lparr>dl_line = i + 1, dl_kind = DAdded, dl_text = b\<rparr>])
     @ diff_from (i + 1) as bs"
| "diff_from i (a # as) [] = \<lparr>dl_line = i + 1, dl_kind = DRemoved, dl_text = a\<rparr> # diff_from (i + 1) as []"
| "diff_from i [] (b # bs) = \<lparr>dl_line = i + 1, dl_kind = DAdded, dl_text = b\<rparr> # diff_from (i + 1) [] bs"

definition simple_diff :: "str \<Rightarrow> str \<Rightarrow> diff_line list" where
  "simple_diff current proposed = diff_from 0 (str_lines current) (str_lines proposed)"

section \<open>Managed files\<close>

definition postfix_map_mode :: nat where
  "postfix_map_mode = 6 * 64"

definition postfix_main_cf_mode :: nat where
  "postfix_main_cf_mode = 6 * 64 + 4 * 8 + 4"

record managed_file =
  mf_path :: str
  mf_mode :: nat
  mf_style :: comment_style

definition mf_nginx :: "str \<Rightarrow> managed_file" where
  "mf_nginx path = \<lparr>mf_path = path, mf_mode = 6 * 64 + 4 * 8 + 4, mf_style = HashStyle\<rparr>"

definition mf_apache :: "str \<Rightarrow> managed_file" where
  "mf_apache path = \<lparr>mf_path = path, mf_mode = 6 * 64 + 4 * 8 + 4, mf_style = HashStyle\<rparr>"

definition mf_fpm_pool :: "str \<Rightarrow> managed_file" where
  "mf_fpm_pool path = \<lparr>mf_path = path, mf_mode = 6 * 64 + 4 * 8, mf_style = Semicolon\<rparr>"

definition mf_mysql :: "str \<Rightarrow> managed_file" where
  "mf_mysql path = \<lparr>mf_path = path, mf_mode = 6 * 64 + 4 * 8 + 4, mf_style = HashStyle\<rparr>"

definition mf_mail_relay :: "str \<Rightarrow> managed_file" where
  "mf_mail_relay path = \<lparr>mf_path = path, mf_mode = 6 * 64 + 4 * 8, mf_style = HashStyle\<rparr>"

definition mf_postfix_main_cf :: "str \<Rightarrow> managed_file" where
  "mf_postfix_main_cf path = \<lparr>mf_path = path, mf_mode = postfix_main_cf_mode, mf_style = HashStyle\<rparr>"

definition mf_postfix_map :: "str \<Rightarrow> managed_file" where
  "mf_postfix_map path = \<lparr>mf_path = path, mf_mode = postfix_map_mode, mf_style = HashStyle\<rparr>"

definition postfix_map_companions :: "str \<Rightarrow> str list" where
  "postfix_map_companions path = map (\<lambda>ext. path @ ''.'' @ ext) [''db'', ''lmdb'', ''cdb'']"

fun enforce_modes ::
  "(str \<Rightarrow> str option) \<Rightarrow> (str \<Rightarrow> str option) \<Rightarrow> str list \<Rightarrow> nat \<Rightarrow> disk \<Rightarrow> disk \<times> (str \<times> nat) list config_res" where
  "enforce_modes sf cf [] mode d = (d, Inr [])"
| "enforce_modes sf cf (p # ps) mode d =
     (case enforce_mode (sf p) (cf p) p mode d of
        (d', Inl e) \<Rightarrow> (d', Inl e)
      | (d', Inr moved) \<Rightarrow>
          (case enforce_modes sf cf ps mode d' of
             (d'', Inl e) \<Rightarrow> (d'', Inl e)
           | (d'', Inr rest) \<Rightarrow> (d'', Inr (case moved of Some was \<Rightarrow> (p, was) # rest | None \<Rightarrow> rest))))"

definition enforce_map_companion_modes ::
  "(str \<Rightarrow> str option) \<Rightarrow> (str \<Rightarrow> str option) \<Rightarrow> str \<Rightarrow> nat \<Rightarrow> disk \<Rightarrow> disk \<times> (str \<times> nat) list config_res" where
  "enforce_map_companion_modes sf cf path mode d = enforce_modes sf cf (postfix_map_companions path) mode d"

text \<open>
  The comment style of a file follows its name. \<open>ext\<close> is \<open>Path::extension\<close>: what follows the last
  dot of the last component, when something precedes that dot.
\<close>

definition path_extension :: "str \<Rightarrow> str option" where
  "path_extension path =
     (case rev (filter (\<lambda>p. p \<noteq> [] \<and> p \<noteq> ''.'') (str_split (CHR ''/'') path)) of
        [] \<Rightarrow> None
      | base # _ \<Rightarrow>
          let parts = str_split (CHR ''.'') base in
          if base = ''..'' \<or> length parts < 2 \<or> str_join ''.'' (butlast parts) = [] then None
          else Some (last parts))"

definition managed_for :: "str \<Rightarrow> managed_file" where
  "managed_for path =
     \<lparr>mf_path = path, mf_mode = 6 * 64 + 4 * 8 + 4,
      mf_style = (if path_extension path = Some ''ini'' then Semicolon
                  else if str_contains ''fpm'' path then Semicolon else HashStyle)\<rparr>"

definition managed_secret_for :: "str \<Rightarrow> managed_file" where
  "managed_secret_for path = (managed_for path)\<lparr>mf_mode := 6 * 64\<rparr>"

section \<open>Lemmas\<close>

text \<open>What the code relies on: the digest is 64 hex digits.\<close>

definition hex_digest :: "(str \<Rightarrow> str) \<Rightarrow> bool" where
  "hex_digest sha \<longleftrightarrow> (\<forall>b. length (sha b) = 64 \<and> list_all is_ascii_hexdigit (sha b))"

lemma hex_no_newline: "hex_digest sha \<Longrightarrow> newline \<notin> set (sha b)"
proof
  assume "hex_digest sha" "newline \<in> set (sha b)"
  then have "is_ascii_hexdigit newline"
    by (auto simp: hex_digest_def list_all_iff)
  then show False
    by (simp add: newline_def is_ascii_hexdigit_def is_ascii_digit_def byte_def)
qed

lemma header_no_newline: "hex_digest sha \<Longrightarrow> newline \<notin> set (header sha body style)"
  by (cases style) (simp_all add: header_def marker_def hex_no_newline, simp_all add: newline_def)

lemma split_once_line: "newline \<notin> set l \<Longrightarrow> split_once newline (l @ [newline] @ r) = Some (l, r)"
  by (simp add: split_once_Some)

lemma find_marker: "str_find marker (comment_prefix style @ '' '' @ marker @ r) = Some 2"
  by (cases style) (simp_all add: marker_def)

lemma lead_ok: "list_all is_lead_char (str_chars (str_trim_end (comment_prefix style @ '' '')))"
proof -
  have e: "str_chars ''# '' = [''#'', '' '']" "str_chars ''; '' = ['';'', '' '']"
    by (simp_all add: is_continuation_def byte_def)
  have w: "is_whitespace '' ''" "\<not> is_whitespace ''#''" "\<not> is_whitespace '';''"
    by (simp_all add: is_whitespace_single is_ascii_whitespace_def byte_def)
  have c: "str_chars ''#'' = [''#'']" "str_chars '';'' = ['';'']"
    by (simp_all add: is_continuation_def byte_def)
  show ?thesis
    by (cases style) (simp_all add: str_trim_end_def e w c is_lead_char_def is_continuation_def byte_def)
qed

lemma hexdigit_plain: "is_ascii_hexdigit ch \<Longrightarrow> plain_char ch"
  unfolding plain_char_def is_ascii_hexdigit_def is_ascii_digit_def is_ascii_whitespace_def by linarith

lemma hex_plain: "list_all is_ascii_hexdigit s \<Longrightarrow> list_all plain_char s"
  unfolding list_all_iff using hexdigit_plain by blast

lemma str_contains_mid: "str_contains p (a @ p @ b)"
  by (simp add: str_contains_iff sublist_append_leftI)

text \<open>A header line read back, with or without the notice below it.\<close>

lemma split_header_line:
  assumes "hex_digest sha"
  shows "split_header (header sha body style @ [newline] @ rest)
    = Some (sha body, case split_once newline rest of
                        Some (line, after) \<Rightarrow> if str_contains notice line then after else rest
                      | None \<Rightarrow> rest)"
proof -
  have hex: "list_all is_ascii_hexdigit (sha body)" and len: "length (sha body) = 64"
    using assms by (simp_all add: hex_digest_def)
  have t: "take 2 (header sha body style) = comment_prefix style @ '' ''"
    "drop (2 + length marker) (header sha body style) = sha body"
    by (cases style; simp add: header_def)+
  have f: "str_find marker (header sha body style) = Some 2"
    unfolding header_def by (rule find_marker)
  have h: "takeWhile is_ascii_hexdigit (str_trim (sha body)) = sha body"
    using hex by (simp add: str_trim_plain [OF hex_plain] takeWhile_eq_all_conv list_all_iff)
  show ?thesis
    unfolding split_header_def split_once_line [OF header_no_newline [OF assms]] option.case prod.case f t
    using lead_ok [of style] h len by (simp add: Let_def)
qed

lemma split_with_header:
  assumes "hex_digest sha"
  shows "split_header (with_header sha body style) = Some (sha body, body)"
proof -
  have n: "newline \<notin> set (comment_prefix style @ '' '' @ notice)"
    by (cases style) (simp_all add: notice_def em_dash_def newline_def)
  have "split_once newline ((comment_prefix style @ '' '' @ notice) @ [newline] @ body) = Some (comment_prefix style @ '' '' @ notice, body)"
    using n by (rule split_once_line)
  moreover have "str_contains notice (comment_prefix style @ '' '' @ notice)"
    using str_contains_mid [of notice "comment_prefix style @ '' ''" "[]"] by simp
  ultimately show ?thesis
    unfolding with_header_def split_header_line [OF assms] by simp
qed

lemma parent_dirs_shorter: "p \<in> set (parent_dirs path) \<Longrightarrow> length p < length path"
  by (auto simp: parent_dirs_def)

lemma path_no_parent [simp]: "path \<notin> set (parent_dirs path)" "temp_of path \<notin> set (parent_dirs path)"
  using parent_dirs_shorter [of path path] parent_dirs_shorter [of "temp_of path" path] by (auto simp: temp_of_def)

lemma make_dirs_simps:
  "p \<notin> set dirs \<Longrightarrow> make_dirs dirs d p = d p" "d p \<noteq> Missing \<Longrightarrow> make_dirs dirs d p = d p"
  by (simp_all add: make_dirs_def)

lemma make_dirs_take: "make_dirs (take n (parent_dirs path)) d path = d path"
  by (rule make_dirs_simps(1)) (use path_no_parent in \<open>auto dest: in_set_takeD\<close>)

lemma make_dirs_file: "make_dirs dirs d p = File contents m \<longleftrightarrow> d p = File contents m"
  by (auto simp: make_dirs_def new_dir_def)

lemma write_atomic_ok:
  "write_atomic fault path contents mode d = (d', Inr u) \<longleftrightarrow>
     fault = None \<and> d' = (make_dirs (parent_dirs path) d)(temp_of path := Missing, path := File contents mode) \<and> u = ()"
  by (auto simp: write_atomic_def split: option.splits write_fault.splits)

lemma temp_of_ne [simp]: "temp_of path \<noteq> path" "path \<noteq> temp_of path"
  by (simp_all add: temp_of_def)

lemma diff_from_sides:
  "map dl_text (filter (\<lambda>l. dl_kind l \<noteq> DAdded) (diff_from i as bs)) = as"
  "map dl_text (filter (\<lambda>l. dl_kind l \<noteq> DRemoved) (diff_from i as bs)) = bs"
  by (induction i as bs rule: diff_from.induct) simp_all

lemma diff_from_same: "list_all (\<lambda>l. dl_kind l = DSame) (diff_from i as bs) \<longleftrightarrow> as = bs"
  by (induction i as bs rule: diff_from.induct) auto

lemma inspect_with_header:
  "hex_digest sha \<Longrightarrow> d path = File (with_header sha body style) m \<Longrightarrow> inspect sha d path = Managed (sha body)"
  by (simp add: inspect_def split_with_header)

lemma inspect_managed_iff:
  "inspect sha d path = Managed h \<longleftrightarrow>
     (\<exists>contents m body. d path = File contents m \<and> split_header contents = Some (h, body) \<and> h = sha body)"
  by (auto simp: inspect_def split: node.splits option.splits if_splits)

lemma inspect_absent: "inspect sha d path = Absent \<longleftrightarrow> d path = Missing"
  by (auto simp: inspect_def split: node.splits option.splits)

lemma inspect_edited:
  assumes "hex_digest sha"
  shows "inspect sha (d(path := File (header sha body style @ [newline] @ rest) m)) path =
    (let edited = (case split_once newline rest of
                     Some (line, after) \<Rightarrow> if str_contains notice line then after else rest
                   | None \<Rightarrow> rest)
     in if sha edited = sha body then Managed (sha body) else Drifted (sha body) (sha edited))"
  using split_header_line [OF assms, of body style rest] by (auto simp: inspect_def Let_def)

lemma toy_hex: "hex_digest (\<lambda>b. replicate 63 (CHR ''0'') @ (if b = ''a'' then ''1'' else ''2''))"
  by (simp add: hex_digest_def list_all_iff is_ascii_hexdigit_def is_ascii_digit_def byte_def)

section \<open>Properties\<close>

text \<open>
  A file as the panel writes it reads back as managed with its body, whatever the comment
  style. With the header line left in place, the file is reported as edited exactly when the hash
  of what follows differs; so an edit of the body is reported (unless SHA-256 collides), while
  taking out or changing the notice line next to the header is not.
\<close>

theorem written_file_reads_back:
  assumes "hex_digest sha"
  shows "inspect sha (d(path := File (with_header sha body style) m)) path = Managed (sha body)
    \<and> read_body (d(path := File (with_header sha body style) m)) path = Inr (Some body)
    \<and> (sha edited \<noteq> sha body \<longrightarrow>
         inspect sha (d(path := File (header sha body style @ [newline] @ comment_prefix style @ '' '' @ notice
           @ [newline] @ edited) m)) path = Drifted (sha body) (sha edited))
    \<and> (split_once newline body = Some (line, after) \<and> \<not> str_contains notice line \<longrightarrow>
         inspect sha (d(path := File (header sha body style @ [newline] @ body) m)) path = Managed (sha body))"
proof -
  have n: "newline \<notin> set (comment_prefix style @ '' '' @ notice)"
    by (cases style) (simp_all add: notice_def em_dash_def newline_def)
  have s: "split_once newline (comment_prefix style @ '' '' @ notice @ [newline] @ edited)
      = Some (comment_prefix style @ '' '' @ notice, edited)"
    using split_once_line [OF n, of edited] by simp
  have c: "str_contains notice (comment_prefix style @ '' '' @ notice)"
    using str_contains_mid [of notice "comment_prefix style @ '' ''" "[]"] by simp
  have a: "sha edited \<noteq> sha body \<Longrightarrow>
      inspect sha (d(path := File (header sha body style @ [newline] @ comment_prefix style @ '' '' @ notice
        @ [newline] @ edited) m)) path = Drifted (sha body) (sha edited)"
    unfolding inspect_edited [OF assms] s using c by simp
  have b: "split_once newline body = Some (line, after) \<Longrightarrow> \<not> str_contains notice line \<Longrightarrow>
      inspect sha (d(path := File (header sha body style @ [newline] @ body) m)) path = Managed (sha body)"
    unfolding inspect_edited [OF assms] by (simp add: Let_def)
  show ?thesis
    using a b by (simp only: inspect_with_header [OF assms] read_body_def split_with_header [OF assms]
      fun_upd_same node.case option.map prod.sel) blast
qed

theorem written_file_reads_back_witness:
  "\<exists>sha :: str \<Rightarrow> str. hex_digest sha
     \<and> inspect sha ((\<lambda>_. Missing)(''/x'' := File (with_header sha ''a'' HashStyle) 420)) ''/x'' = Managed (sha ''a'')"
  using written_file_reads_back [OF toy_hex, where body = "''a''" and style = HashStyle] toy_hex by blast

text \<open>
  The diff shown for a drifted file is complete: without the added lines it is the file on
  disk, without the removed ones it is the fresh rendering, line by line and in order, and it
  shows no change exactly when the two have the same lines.
\<close>

theorem diff_shows_both_files:
  "map dl_text (filter (\<lambda>l. dl_kind l \<noteq> DAdded) (simple_diff current proposed)) = str_lines current
   \<and> map dl_text (filter (\<lambda>l. dl_kind l \<noteq> DRemoved) (simple_diff current proposed)) = str_lines proposed
   \<and> (list_all (\<lambda>l. dl_kind l = DSame) (simple_diff current proposed) \<longleftrightarrow> str_lines current = str_lines proposed)"
  unfolding simple_diff_def using diff_from_sides diff_from_same by auto

end
