(* ===== verification/Apply.thy ===== *)
theory Apply
  imports Managed
begin

text \<open>
  The apply engine, \<open>unihelm-config/src/apply.rs\<close>: render, write, validate, reload, check and
  record, with the previous file put back when a step fails. Templates, the service's validator,
  reloader and post-check and the faults of the disk are arguments; the revision store is a
  locale. The lemmas show what each outcome leaves on disk and which configurations a service is
  ever told to load.
\<close>

section \<open>The service and the world\<close>

text \<open>A call of the service with the disk it saw and what it answered (\<open>None\<close> is \<open>Ok\<close>).\<close>

datatype call = CValidate disk "str option" | CReload disk "str option" | CCheck disk "str option"

text \<open>Answers may depend on everything the service was asked before.\<close>

record service =
  sv_validator :: str
  sv_validate :: "call list \<Rightarrow> disk \<Rightarrow> str option"
  sv_reloader :: str
  sv_reload :: "call list \<Rightarrow> disk \<Rightarrow> str option"

record post_check =
  pc_describe :: str
  pc_check :: "call list \<Rightarrow> disk \<Rightarrow> str option"

record new_revision =
  nr_path :: str
  nr_sha256 :: str
  nr_content :: str
  nr_rendered_by_task :: "str option"

record stored_revision =
  sr_id :: int
  sr_path :: str
  sr_sha256 :: str
  sr_content :: str

record 's world =
  w_disk :: disk
  w_store :: 's
  w_calls :: "call list"

record faults =
  ft_write :: "write_fault option"
  ft_restore :: "write_fault option"
  ft_unlink :: "str option"
  ft_remove :: "str option"

record 'c apply_request =
  ar_file :: managed_file
  ar_template :: str
  ar_context :: 'c
  ar_service :: str
  ar_post_check :: "post_check option"
  ar_force :: bool
  ar_task_id :: "str option"

record apply_outcome =
  ao_path :: str
  ao_changed :: bool
  ao_revision_id :: "int option"
  ao_reloaded :: bool

definition ask_validate :: "service \<Rightarrow> 's world \<Rightarrow> 's world \<times> str option" where
  "ask_validate sv w =
     (let r = sv_validate sv (w_calls w) (w_disk w) in (w\<lparr>w_calls := w_calls w @ [CValidate (w_disk w) r]\<rparr>, r))"

definition ask_reload :: "service \<Rightarrow> 's world \<Rightarrow> 's world \<times> str option" where
  "ask_reload sv w =
     (let r = sv_reload sv (w_calls w) (w_disk w) in (w\<lparr>w_calls := w_calls w @ [CReload (w_disk w) r]\<rparr>, r))"

definition ask_check :: "post_check \<Rightarrow> 's world \<Rightarrow> 's world \<times> str option" where
  "ask_check pc w =
     (let r = pc_check pc (w_calls w) (w_disk w) in (w\<lparr>w_calls := w_calls w @ [CCheck (w_disk w) r]\<rparr>, r))"

section \<open>The engine\<close>

definition snapshot_of :: "disk \<Rightarrow> str \<Rightarrow> str option config_res" where
  "snapshot_of d path =
     (case d path of
        File contents _ \<Rightarrow> Inr (Some contents)
      | Missing \<Rightarrow> Inr None
      | Opaque reason _ \<Rightarrow> Inl (IoErr path reason))"

definition restore :: "faults \<Rightarrow> str \<Rightarrow> str option \<Rightarrow> nat \<Rightarrow> disk \<Rightarrow> disk \<times> unit config_res" where
  "restore ft path snapshot mode d =
     (case snapshot of
        Some contents \<Rightarrow> write_atomic (ft_restore ft) path contents mode d
      | None \<Rightarrow> remove_file (ft_unlink ft) path d)"

text \<open>The undo of a failed step: restore, and reload again when the service saw the new file.\<close>

definition undo ::
  "service \<Rightarrow> faults \<Rightarrow> bool \<Rightarrow> str \<Rightarrow> str option \<Rightarrow> nat \<Rightarrow> config_error \<Rightarrow> 's world \<Rightarrow> 's world \<times> 'a config_res" where
  "undo sv ft again path snapshot mode err w =
     (case restore ft path snapshot mode (w_disk w) of
        (d, Inl e) \<Rightarrow> (w\<lparr>w_disk := d\<rparr>, Inl e)
      | (d, Inr _) \<Rightarrow>
          (if again then fst (ask_reload sv (w\<lparr>w_disk := d\<rparr>)) else w\<lparr>w_disk := d\<rparr>, Inl err))"

text \<open>Validate, reload and check, the tail that \<open>apply\<close>, \<open>remove\<close> and \<open>rollback\<close> share.\<close>

definition activate ::
  "service \<Rightarrow> post_check option \<Rightarrow> faults \<Rightarrow> str \<Rightarrow> str option \<Rightarrow> nat \<Rightarrow> 's world \<Rightarrow> 's world \<times> unit config_res" where
  "activate sv chk ft path snapshot mode w =
     (case ask_validate sv w of
        (w1, Some out) \<Rightarrow> undo sv ft False path snapshot mode (ValidationFailed (sv_validator sv) out) w1
      | (w1, None) \<Rightarrow>
          (case ask_reload sv w1 of
             (w2, Some out) \<Rightarrow> undo sv ft True path snapshot mode (ReloadFailed (sv_reloader sv) out) w2
           | (w2, None) \<Rightarrow>
               (case chk of
                  None \<Rightarrow> (w2, Inr ())
                | Some pc \<Rightarrow>
                    (case ask_check pc w2 of
                       (w3, Some out) \<Rightarrow> undo sv ft True path snapshot mode (PostCheckFailed (pc_describe pc) out) w3
                     | (w3, None) \<Rightarrow> (w3, Inr ())))))"

type_synonym 's recorder = "'s \<Rightarrow> new_revision \<Rightarrow> 's \<times> (str + int)"

definition record_step ::
  "'s recorder option \<Rightarrow> new_revision \<Rightarrow> 's world \<Rightarrow> 's world \<times> int option config_res" where
  "record_step store rv w =
     (case store of
        None \<Rightarrow> (w, Inr None)
      | Some f \<Rightarrow>
          (case f (w_store w) rv of
             (s, Inl e) \<Rightarrow> (w\<lparr>w_store := s\<rparr>, Inl (RevisionStoreErr e))
           | (s, Inr i) \<Rightarrow> (w\<lparr>w_store := s\<rparr>, Inr (Some i))))"

text \<open>Steps 2 to 6 of \<open>apply\<close>: the file may be written.\<close>

definition put_live ::
  "(str \<Rightarrow> str) \<Rightarrow> service \<Rightarrow> 's recorder option \<Rightarrow> faults \<Rightarrow> 'c apply_request \<Rightarrow> str \<Rightarrow> 's world
   \<Rightarrow> 's world \<times> apply_outcome config_res" where
  "put_live sha sv store ft rq body w =
     (let mf = ar_file rq; path = mf_path mf; contents = with_header sha body (mf_style mf) in
      case snapshot_of (w_disk w) path of
        Inl e \<Rightarrow> (w, Inl e)
      | Inr snapshot \<Rightarrow>
          (case write_atomic (ft_write ft) path contents (mf_mode mf) (w_disk w) of
             (d, Inl e) \<Rightarrow> (w\<lparr>w_disk := d\<rparr>, Inl e)
           | (d, Inr _) \<Rightarrow>
               (case activate sv (ar_post_check rq) ft path snapshot (mf_mode mf) (w\<lparr>w_disk := d\<rparr>) of
                  (w1, Inl e) \<Rightarrow> (w1, Inl e)
                | (w1, Inr _) \<Rightarrow>
                    (case record_step store \<lparr>nr_path = path, nr_sha256 = sha body, nr_content = contents,
                                             nr_rendered_by_task = ar_task_id rq\<rparr> w1 of
                       (w2, Inl e) \<Rightarrow> (w2, Inl e)
                     | (w2, Inr i) \<Rightarrow>
                         (w2, Inr \<lparr>ao_path = path, ao_changed = True, ao_revision_id = i, ao_reloaded = True\<rparr>)))))"

definition apply_config ::
  "(str \<Rightarrow> str) \<Rightarrow> (str \<Rightarrow> 'c \<Rightarrow> str config_res) \<Rightarrow> service \<Rightarrow> 's recorder option \<Rightarrow> faults \<Rightarrow> 'c apply_request
   \<Rightarrow> 's world \<Rightarrow> 's world \<times> apply_outcome config_res" where
  "apply_config sha render sv store ft rq w =
     (case render (ar_template rq) (ar_context rq) of
        Inl e \<Rightarrow> (w, Inl e)
      | Inr body \<Rightarrow>
          let path = mf_path (ar_file rq) in
          (case inspect sha (w_disk w) path of
             Foreign \<Rightarrow> (w, Inl (ForeignErr path))
           | UnreadableFile reason \<Rightarrow> (w, Inl (BadPath path reason))
           | Drifted _ _ \<Rightarrow>
               if ar_force rq then put_live sha sv store ft rq body w
               else (case read_body (w_disk w) path of
                       Inl e \<Rightarrow> (w, Inl e)
                     | Inr current \<Rightarrow>
                         (w, Inl (Drift path (simple_diff (case current of Some b \<Rightarrow> b | None \<Rightarrow> []) body))))
           | Managed h \<Rightarrow>
               if h = sha body \<and> \<not> ar_force rq then
                 (w, Inr \<lparr>ao_path = path, ao_changed = False, ao_revision_id = None, ao_reloaded = False\<rparr>)
               else put_live sha sv store ft rq body w
           | Absent \<Rightarrow> put_live sha sv store ft rq body w))"

definition remove_config ::
  "(str \<Rightarrow> str) \<Rightarrow> service \<Rightarrow> faults \<Rightarrow> managed_file \<Rightarrow> 's world \<Rightarrow> 's world \<times> bool config_res" where
  "remove_config sha sv ft mf w =
     (case snapshot_of (w_disk w) (mf_path mf) of
        Inl e \<Rightarrow> (w, Inl e)
      | Inr None \<Rightarrow> (w, Inr False)
      | Inr (Some contents) \<Rightarrow>
          (case remove_managed sha (ft_remove ft) (mf_path mf) (w_disk w) of
             (d, Inl e) \<Rightarrow> (w\<lparr>w_disk := d\<rparr>, Inl e)
           | (d, Inr _) \<Rightarrow>
               (case activate sv None ft (mf_path mf) (Some contents) (mf_mode mf) (w\<lparr>w_disk := d\<rparr>) of
                  (w1, Inl e) \<Rightarrow> (w1, Inl e)
                | (w1, Inr _) \<Rightarrow> (w1, Inr True))))"

definition rollback ::
  "service \<Rightarrow> faults \<Rightarrow> str \<Rightarrow> stored_revision \<Rightarrow> nat \<Rightarrow> 's world \<Rightarrow> 's world \<times> unit config_res" where
  "rollback sv ft path revision mode w =
     (case snapshot_of (w_disk w) path of
        Inl e \<Rightarrow> (w, Inl e)
      | Inr snapshot \<Rightarrow>
          (case write_atomic (ft_write ft) path (sr_content revision) mode (w_disk w) of
             (d, Inl e) \<Rightarrow> (w\<lparr>w_disk := d\<rparr>, Inl e)
           | (d, Inr _) \<Rightarrow> activate sv None ft path snapshot mode (w\<lparr>w_disk := d\<rparr>)))"

record drift_report =
  dr_path :: str
  dr_state :: file_state
  dr_diff :: "diff_line list"

definition drift_report_of ::
  "(str \<Rightarrow> str) \<Rightarrow> (str \<Rightarrow> 'c \<Rightarrow> str config_res) \<Rightarrow> managed_file \<Rightarrow> str \<Rightarrow> 'c \<Rightarrow> disk \<Rightarrow> drift_report config_res" where
  "drift_report_of sha render mf template ctx d =
     r_bind (render template ctx) (\<lambda>expected.
     r_bind (read_body d (mf_path mf)) (\<lambda>current.
       let state = inspect sha d (mf_path mf) in
       Inr \<lparr>dr_path = mf_path mf, dr_state = state,
            dr_diff = (case current of
                         Some body \<Rightarrow> if is_drifted state then simple_diff body expected else []
                       | None \<Rightarrow> [])\<rparr>))"

section \<open>What a step leaves on disk\<close>

text \<open>
  The same file up to its mode, and a disk that differs at most there, in the staging file and in
  directories above it that were missing.
\<close>

definition same_file :: "node \<Rightarrow> node \<Rightarrow> bool" where
  "same_file a b \<longleftrightarrow> b = chmod (node_mode b) a"

definition elsewhere :: "str \<Rightarrow> disk \<Rightarrow> disk \<Rightarrow> bool" where
  "elsewhere path d d' \<longleftrightarrow> (\<forall>p. p \<noteq> path \<longrightarrow> d' p = d p \<or> p = temp_of path \<and> d' p = Missing
       \<or> p \<in> set (parent_dirs path) \<and> d p = Missing \<and> d' p = new_dir)"

definition undone :: "str \<Rightarrow> disk \<Rightarrow> disk \<Rightarrow> bool" where
  "undone path d d' \<longleftrightarrow> same_file (d path) (d' path) \<and> elsewhere path d d'"

lemma same_file_refl [simp]: "same_file n n"
  by (cases n) (simp_all add: same_file_def)

lemma elsewhere_refl [simp]: "elsewhere path d d"
  by (simp add: elsewhere_def)

lemma undone_refl [simp]: "undone path d d"
  by (simp add: undone_def)

lemma elsewhere_trans: "elsewhere path d d' \<Longrightarrow> elsewhere path d' d'' \<Longrightarrow> elsewhere path d d''"
  unfolding elsewhere_def by (metis path_no_parent(2))

lemma elsewhere_upd [simp]:
  "elsewhere path d (d(temp_of path := Missing))" "elsewhere path d (d(path := n))"
  "elsewhere path d (d(temp_of path := Missing, path := n))"
  by (simp_all add: elsewhere_def)

lemma elsewhere_dirs: "set dirs \<subseteq> set (parent_dirs path) \<Longrightarrow> elsewhere path d (make_dirs dirs d)"
  by (auto simp: elsewhere_def make_dirs_def)

lemma write_atomic_elsewhere: "write_atomic fault path contents mode d = (d', r) \<Longrightarrow> elsewhere path d d'"
  using elsewhere_dirs [OF set_take_subset] elsewhere_dirs [OF order_refl, of path d]
  by (auto simp: write_atomic_def intro: elsewhere_trans [OF _ elsewhere_upd(1)] elsewhere_trans [OF _ elsewhere_upd(3)]
      split: option.splits write_fault.splits)

lemma write_atomic_err_undone: "write_atomic fault path contents mode d = (d', Inl e) \<Longrightarrow> undone path d d'"
  using write_atomic_elsewhere [of fault path contents mode d d'] path_no_parent
  by (auto simp: write_atomic_def undone_def make_dirs_simps make_dirs_take split: option.splits write_fault.splits)

lemma remove_file_elsewhere: "remove_file fault path d = (d', r) \<Longrightarrow> elsewhere path d d'"
  by (auto simp: remove_file_def elsewhere_def split: option.splits)

lemma remove_managed_elsewhere: "remove_managed sha fault path d = (d', r) \<Longrightarrow> elsewhere path d d'"
  by (auto simp: remove_managed_def remove_file_def elsewhere_def split: file_state.splits option.splits)

lemma remove_managed_err: "remove_managed sha fault path d = (d', Inl e) \<Longrightarrow> d' = d"
  by (auto simp: remove_managed_def remove_file_def split: file_state.splits option.splits)

lemma restore_elsewhere: "restore ft path snapshot mode d = (d', r) \<Longrightarrow> elsewhere path d d'"
  by (auto simp: restore_def write_atomic_elsewhere remove_file_elsewhere split: option.splits)

lemma restore_undone:
  assumes "snapshot_of d path = Inr snapshot" "elsewhere path d d1"
    and "restore ft path snapshot mode d1 = (d2, Inr u)"
  shows "undone path d d2"
proof -
  have "same_file (d path) (d2 path)"
    using assms(1,3) by (auto simp: snapshot_of_def restore_def write_atomic_ok remove_file_def same_file_def
      split: node.splits option.splits)
  then show ?thesis
    using elsewhere_trans [OF assms(2) restore_elsewhere [OF assms(3)]] by (simp add: undone_def)
qed

lemma restore_no_fault:
  "ft_restore ft = None \<Longrightarrow> ft_unlink ft = None \<Longrightarrow> \<exists>d'. restore ft path snapshot mode d = (d', Inr ())"
  by (cases snapshot) (simp_all add: restore_def write_atomic_def remove_file_def)

lemma ask_frame [simp]:
  "w_disk (fst (ask_validate sv w)) = w_disk w" "w_store (fst (ask_validate sv w)) = w_store w"
  "w_disk (fst (ask_reload sv w)) = w_disk w" "w_store (fst (ask_reload sv w)) = w_store w"
  "w_disk (fst (ask_check pc w)) = w_disk w" "w_store (fst (ask_check pc w)) = w_store w"
  by (simp_all add: ask_validate_def ask_reload_def ask_check_def Let_def)

lemma ask_eq:
  "ask_validate sv w = (w1, r) \<longleftrightarrow>
     r = sv_validate sv (w_calls w) (w_disk w) \<and> w1 = w\<lparr>w_calls := w_calls w @ [CValidate (w_disk w) r]\<rparr>"
  "ask_reload sv w = (w1, r) \<longleftrightarrow>
     r = sv_reload sv (w_calls w) (w_disk w) \<and> w1 = w\<lparr>w_calls := w_calls w @ [CReload (w_disk w) r]\<rparr>"
  "ask_check pc w = (w1, r) \<longleftrightarrow>
     r = pc_check pc (w_calls w) (w_disk w) \<and> w1 = w\<lparr>w_calls := w_calls w @ [CCheck (w_disk w) r]\<rparr>"
  by (auto simp: ask_validate_def ask_reload_def ask_check_def Let_def)

lemma undo_not_ok [simp]: "undo sv ft again path snapshot mode err w \<noteq> (w', Inr v)"
  by (auto simp: undo_def split: prod.splits sum.splits)

lemma undo_store: "undo sv ft again path snapshot mode err w = (w', r) \<Longrightarrow> w_store w' = w_store w"
  by (auto simp: undo_def split: prod.splits sum.splits if_splits)

lemma undo_disk:
  assumes "undo sv ft again path snapshot mode err w = (w', r)" "ft_restore ft = None" "ft_unlink ft = None"
  shows "restore ft path snapshot mode (w_disk w) = (w_disk w', Inr ())"
  using assms(1) restore_no_fault [OF assms(2,3), of path snapshot mode "w_disk w"]
  by (auto simp: undo_def split: if_splits)

lemma activate_ok:
  "activate sv chk ft path snapshot mode w = (w', Inr u) \<Longrightarrow>
     w_disk w' = w_disk w \<and> w_store w' = w_store w
     \<and> w_calls w' = w_calls w @ [CValidate (w_disk w) None, CReload (w_disk w) None]
         @ (case chk of None \<Rightarrow> [] | Some _ \<Rightarrow> [CCheck (w_disk w) None])"
  unfolding activate_def by (auto simp: ask_eq split: prod.splits option.splits)

lemma activate_store: "activate sv chk ft path snapshot mode w = (w', r) \<Longrightarrow> w_store w' = w_store w"
  unfolding activate_def by (auto simp: ask_eq dest!: undo_store split: prod.splits option.splits)

lemma activate_err_disk:
  "activate sv chk ft path snapshot mode w = (w', Inl e) \<Longrightarrow> ft_restore ft = None \<Longrightarrow> ft_unlink ft = None \<Longrightarrow>
     restore ft path snapshot mode (w_disk w) = (w_disk w', Inr ())"
  unfolding activate_def by (auto simp: ask_eq dest!: undo_disk split: prod.splits option.splits)

text \<open>The errors of the tail are its own or those of the restore; it never reports the store.\<close>

lemma write_atomic_not_store: "write_atomic fault path contents mode d \<noteq> (d', Inl (RevisionStoreErr m))"
  by (auto simp: write_atomic_def split: option.splits write_fault.splits)

lemma restore_not_store: "restore ft path snapshot mode d \<noteq> (d', Inl (RevisionStoreErr m))"
  by (auto simp: restore_def write_atomic_not_store remove_file_def split: option.splits)

lemma undo_not_store:
  "undo sv ft again path snapshot mode err w = (w', Inl (RevisionStoreErr m)) \<Longrightarrow> err = RevisionStoreErr m"
  by (auto simp: undo_def restore_not_store split: prod.splits sum.splits)

lemma activate_not_store: "activate sv chk ft path snapshot mode w \<noteq> (w', Inl (RevisionStoreErr m))"
  unfolding activate_def by (auto simp: ask_eq dest: undo_not_store split: prod.splits option.splits)

section \<open>What the service is told to load\<close>

text \<open>Every reload is of a disk the validator has just accepted, or of one that is \<open>ok\<close>.\<close>

fun loads_ok :: "(disk \<Rightarrow> bool) \<Rightarrow> disk list \<Rightarrow> call list \<Rightarrow> bool" where
  "loads_ok ok vs [] = True"
| "loads_ok ok vs (CValidate d r # cs) = loads_ok ok (if r = None then d # vs else vs) cs"
| "loads_ok ok vs (CReload d r # cs) = ((d \<in> set vs \<or> ok d) \<and> loads_ok ok vs cs)"
| "loads_ok ok vs (CCheck d r # cs) = loads_ok ok vs cs"

lemma undo_calls:
  assumes "snapshot_of d path = Inr snapshot" "elsewhere path d (w_disk w)"
    and "undo sv ft again path snapshot mode err w = (w', r)"
  shows "\<exists>cs. w_calls w' = w_calls w @ cs \<and> loads_ok (undone path d) vs cs"
  using assms(3) restore_undone [OF assms(1,2), of ft mode]
  by (auto simp: undo_def ask_reload_def Let_def split: prod.splits sum.splits if_splits)

lemma loads_ok_same:
  "d \<in> set vs \<Longrightarrow> \<forall>c \<in> set xs. \<exists>r. c = CReload d r \<or> c = CCheck d r \<Longrightarrow> loads_ok ok vs (xs @ cs) = loads_ok ok vs cs"
  by (induction xs) auto

text \<open>The undo after the validator accepted the disk \<open>d1\<close> and the service loaded it.\<close>

lemma undo_after_load:
  assumes "snapshot_of d path = Inr snapshot" "elsewhere path d (w_disk x)"
    and "undo sv ft again path snapshot mode err x = (w', r)"
    and "w_calls x = ys @ CValidate d1 None # xs" "\<forall>c \<in> set xs. \<exists>r. c = CReload d1 r \<or> c = CCheck d1 r"
  shows "\<exists>cs. w_calls w' = ys @ cs \<and> loads_ok (undone path d) [] cs"
proof -
  obtain cs where cs: "w_calls w' = w_calls x @ cs" "loads_ok (undone path d) [d1] cs"
    using undo_calls [OF assms(1-3), of "[d1]"] by blast
  then have "loads_ok (undone path d) [] (CValidate d1 None # xs @ cs)"
    using assms(5) by (simp add: loads_ok_same)
  with cs(1) assms(4) show ?thesis
    by (intro exI [of _ "CValidate d1 None # xs @ cs"]) simp
qed

lemma activate_calls:
  assumes "snapshot_of d path = Inr snapshot" "elsewhere path d (w_disk w)"
    and "activate sv chk ft path snapshot mode w = (w', r)"
  shows "\<exists>cs. w_calls w' = w_calls w @ cs \<and> loads_ok (undone path d) [] cs"
proof (cases r)
  case (Inr u)
  then show ?thesis
    using activate_ok assms(3) by (cases chk) fastforce+
next
  case (Inl e)
  obtain w1 v where v: "ask_validate sv w = (w1, v)" by fastforce
  obtain w2 l where l: "ask_reload sv w1 = (w2, l)" by fastforce
  note undo = undo_after_load [where ys = "w_calls w" and ?d1.0 = "w_disk w", OF assms(1)]
  show ?thesis
  proof (cases v)
    case (Some out)
    then have "undo sv ft False path snapshot mode (ValidationFailed (sv_validator sv) out) w1 = (w', r)"
      using assms(3) v by (simp add: activate_def)
    from undo_calls [OF assms(1) _ this, of "[]"] show ?thesis
      using assms(2) v Some by (auto simp: ask_eq)
  next
    case None
    show ?thesis
    proof (cases l)
      case (Some out)
      then have "undo sv ft True path snapshot mode (ReloadFailed (sv_reloader sv) out) w2 = (w', r)"
        using assms(3) v l None by (simp add: activate_def)
      from undo [OF _ this] show ?thesis
        using assms(2) v l None by (simp add: ask_eq)
    next
      case go: None
      obtain pc w3 out where k: "chk = Some pc" "ask_check pc w2 = (w3, Some out)"
        using assms(3) v l None go Inl by (auto simp: activate_def split: option.splits prod.splits)
      then have "undo sv ft True path snapshot mode (PostCheckFailed (pc_describe pc) out) w3 = (w', r)"
        using assms(3) v l None go by (simp add: activate_def)
      from undo [OF _ this] show ?thesis
        using assms(2) v l None go k(2) by (simp add: ask_eq)
    qed
  qed
qed

section \<open>Outcomes of an apply\<close>

lemma put_live_ok:
  assumes "put_live sha sv store ft rq body w = (w', Inr out)"
  shows "ao_changed out \<and> ao_path out = mf_path (ar_file rq)
    \<and> w_disk w' = (make_dirs (parent_dirs (mf_path (ar_file rq))) (w_disk w))(temp_of (mf_path (ar_file rq)) := Missing, mf_path (ar_file rq) :=
        File (with_header sha body (mf_style (ar_file rq))) (mf_mode (ar_file rq)))
    \<and> w_calls w' = w_calls w @ [CValidate (w_disk w') None, CReload (w_disk w') None]
        @ (case ar_post_check rq of None \<Rightarrow> [] | Some _ \<Rightarrow> [CCheck (w_disk w') None])
    \<and> (case store of None \<Rightarrow> w_store w' = w_store w \<and> ao_revision_id out = None
       | Some f \<Rightarrow> \<exists>i. ao_revision_id out = Some i
           \<and> f (w_store w) \<lparr>nr_path = mf_path (ar_file rq), nr_sha256 = sha body,
               nr_content = with_header sha body (mf_style (ar_file rq)), nr_rendered_by_task = ar_task_id rq\<rparr>
             = (w_store w', Inr i))"
  using assms unfolding put_live_def record_step_def Let_def
  by (auto simp: write_atomic_ok dest!: activate_ok split: sum.splits prod.splits option.splits)

lemma put_live_err:
  assumes "put_live sha sv store ft rq body w = (w', Inl e)" "ft_restore ft = None" "ft_unlink ft = None"
    and "\<And>m. e \<noteq> RevisionStoreErr m"
  shows "undone (mf_path (ar_file rq)) (w_disk w) (w_disk w') \<and> w_store w' = w_store w"
  using assms unfolding put_live_def record_step_def Let_def
  by (auto simp: activate_store dest: write_atomic_err_undone write_atomic_elsewhere
      intro: restore_undone [OF _ write_atomic_elsewhere] dest!: activate_err_disk
      split: sum.splits prod.splits option.splits)

lemma put_live_calls:
  assumes "put_live sha sv store ft rq body w = (w', r)"
  shows "\<exists>cs. w_calls w' = w_calls w @ cs \<and> loads_ok (undone (mf_path (ar_file rq)) (w_disk w)) [] cs"
proof -
  have e: "\<exists>cs. xs = xs @ cs \<and> loads_ok ok [] cs" for xs ok
    by (rule exI [of _ "[]"]) simp
  have a: "activate sv chk ft p snapshot m (w\<lparr>w_disk := d\<rparr>) = (w1, r1) \<Longrightarrow> snapshot_of (w_disk w) p = Inr snapshot \<Longrightarrow>
      write_atomic fault p c m (w_disk w) = (d, x) \<Longrightarrow>
      \<exists>cs. w_calls w1 = w_calls w @ cs \<and> loads_ok (undone p (w_disk w)) [] cs"
    for chk p snapshot m d w1 r1 fault c x
    using activate_calls [of "w_disk w" p snapshot "w\<lparr>w_disk := d\<rparr>"] write_atomic_elsewhere by fastforce
  show ?thesis
    using assms unfolding put_live_def record_step_def Let_def
    by (auto simp: e dest!: a split: sum.splits prod.splits option.splits)
qed

lemma rollback_ok:
  "rollback sv ft path revision mode w = (w', Inr u) \<Longrightarrow>
     w_disk w' = (make_dirs (parent_dirs path) (w_disk w))(temp_of path := Missing, path := File (sr_content revision) mode)
     \<and> w_store w' = w_store w \<and> snapshot_of (w_disk w) path \<noteq> Inl e"
  unfolding rollback_def by (auto simp: write_atomic_ok dest!: activate_ok split: sum.splits prod.splits)

lemma rollback_err:
  assumes "rollback sv ft path revision mode w = (w', Inl e)" "ft_restore ft = None" "ft_unlink ft = None"
  shows "undone path (w_disk w) (w_disk w')"
  using assms unfolding rollback_def
  by (auto dest: write_atomic_err_undone intro: restore_undone [OF _ write_atomic_elsewhere]
      dest!: activate_err_disk split: sum.splits prod.splits)

lemma rollback_calls:
  assumes "rollback sv ft path revision mode w = (w', r)"
  shows "\<exists>cs. w_calls w' = w_calls w @ cs \<and> loads_ok (undone path (w_disk w)) [] cs"
proof -
  have e: "\<exists>cs. xs = xs @ cs \<and> loads_ok ok [] cs" for xs ok
    by (rule exI [of _ "[]"]) simp
  have a: "activate sv chk ft p snapshot m (w\<lparr>w_disk := d\<rparr>) = (w1, r1) \<Longrightarrow> snapshot_of (w_disk w) p = Inr snapshot \<Longrightarrow>
      write_atomic fault p c m (w_disk w) = (d, x) \<Longrightarrow>
      \<exists>cs. w_calls w1 = w_calls w @ cs \<and> loads_ok (undone p (w_disk w)) [] cs"
    for chk p snapshot m d w1 r1 fault c x
    using activate_calls [of "w_disk w" p snapshot "w\<lparr>w_disk := d\<rparr>"] write_atomic_elsewhere by fastforce
  show ?thesis
    using assms unfolding rollback_def by (auto simp: e dest!: a split: sum.splits prod.splits)
qed

lemma remove_config_calls:
  assumes "remove_config sha sv ft mf w = (w', r)"
  shows "\<exists>cs. w_calls w' = w_calls w @ cs \<and> loads_ok (undone (mf_path mf) (w_disk w)) [] cs"
proof -
  have e: "\<exists>cs. xs = xs @ cs \<and> loads_ok ok [] cs" for xs ok
    by (rule exI [of _ "[]"]) simp
  have a: "activate sv chk ft p snapshot m (w\<lparr>w_disk := d\<rparr>) = (w1, r1) \<Longrightarrow> snapshot_of (w_disk w) p = Inr snapshot \<Longrightarrow>
      remove_managed sha fault p (w_disk w) = (d, x) \<Longrightarrow>
      \<exists>cs. w_calls w1 = w_calls w @ cs \<and> loads_ok (undone p (w_disk w)) [] cs"
    for chk p snapshot m d w1 r1 fault x
    using activate_calls [of "w_disk w" p snapshot "w\<lparr>w_disk := d\<rparr>"] remove_managed_elsewhere by fastforce
  show ?thesis
    using assms unfolding remove_config_def by (auto simp: e dest!: a split: sum.splits prod.splits option.splits)
qed

lemma remove_config_err:
  assumes "remove_config sha sv ft mf w = (w', Inl e)" "ft_restore ft = None" "ft_unlink ft = None"
  shows "undone (mf_path mf) (w_disk w) (w_disk w')"
  using assms unfolding remove_config_def
  by (auto dest: remove_managed_err intro: restore_undone [OF _ remove_managed_elsewhere]
      dest!: activate_err_disk split: sum.splits prod.splits option.splits)

lemma rollback_store: "rollback sv ft path revision mode w = (w', r) \<Longrightarrow> w_store w' = w_store w"
  unfolding rollback_def by (auto dest: activate_store split: sum.splits prod.splits)

lemma remove_config_store: "remove_config sha sv ft mf w = (w', r) \<Longrightarrow> w_store w' = w_store w"
  unfolding remove_config_def by (auto dest: activate_store split: sum.splits prod.splits option.splits)

text \<open>The engine as a transition: one operation under its service's lock.\<close>

datatype 'c engine_op =
    OpApply service faults "'c apply_request"
  | OpRemove service faults managed_file
  | OpRollback service faults str stored_revision nat

fun op_path :: "'c engine_op \<Rightarrow> str" where
  "op_path (OpApply _ _ rq) = mf_path (ar_file rq)"
| "op_path (OpRemove _ _ mf) = mf_path mf"
| "op_path (OpRollback _ _ path _ _) = path"

fun op_faults :: "'c engine_op \<Rightarrow> faults" where
  "op_faults (OpApply _ ft _) = ft"
| "op_faults (OpRemove _ ft _) = ft"
| "op_faults (OpRollback _ ft _ _ _) = ft"

fun engine_step ::
  "(str \<Rightarrow> str) \<Rightarrow> (str \<Rightarrow> 'c \<Rightarrow> str config_res) \<Rightarrow> 's recorder option \<Rightarrow> 'c engine_op \<Rightarrow> 's world
   \<Rightarrow> 's world \<times> unit config_res" where
  "engine_step sha render store (OpApply sv ft rq) w =
     (case apply_config sha render sv store ft rq w of (w', r) \<Rightarrow> (w', r_bind r (\<lambda>_. Inr ())))"
| "engine_step sha render store (OpRemove sv ft mf) w =
     (case remove_config sha sv ft mf w of (w', r) \<Rightarrow> (w', r_bind r (\<lambda>_. Inr ())))"
| "engine_step sha render store (OpRollback sv ft path rv mode) w = rollback sv ft path rv mode w"

lemma apply_cases:
  assumes "apply_config sha render sv store ft rq w = (w', r)"
  obtains (refused) e where "w' = w" "r = Inl e"
  | (unchanged) body out where "w' = w" "r = Inr out" "\<not> ao_changed out" "render (ar_template rq) (ar_context rq) = Inr body"
      "inspect sha (w_disk w) (mf_path (ar_file rq)) = Managed (sha body)" "\<not> ar_force rq"
  | (live) body where "render (ar_template rq) (ar_context rq) = Inr body"
      "put_live sha sv store ft rq body w = (w', r)"
      "is_safe_to_overwrite (inspect sha (w_disk w) (mf_path (ar_file rq)))
       \<or> is_drifted (inspect sha (w_disk w) (mf_path (ar_file rq))) \<and> ar_force rq"
  using assms unfolding apply_config_def Let_def
  by (auto split: sum.splits file_state.splits if_splits)

lemma apply_calls:
  assumes "apply_config sha render sv store ft rq w = (w', r)"
  shows "\<exists>cs. w_calls w' = w_calls w @ cs \<and> loads_ok (undone (mf_path (ar_file rq)) (w_disk w)) [] cs"
  using assms
proof (cases rule: apply_cases)
  case (live body)
  then show ?thesis using put_live_calls by blast
qed (auto intro: exI [of _ "[]"])

lemma put_live_store_failed:
  assumes "put_live sha sv store ft rq body w = (w', Inl (RevisionStoreErr m))"
  shows "w_disk w' = (make_dirs (parent_dirs (mf_path (ar_file rq))) (w_disk w))(temp_of (mf_path (ar_file rq)) := Missing, mf_path (ar_file rq) :=
      File (with_header sha body (mf_style (ar_file rq))) (mf_mode (ar_file rq)))
    \<and> CReload (w_disk w') None \<in> set (w_calls w')"
  using assms unfolding put_live_def record_step_def Let_def
  by (auto simp: write_atomic_ok write_atomic_not_store activate_not_store snapshot_of_def dest!: activate_ok
      split: sum.splits prod.splits option.splits node.splits)

definition toy_service :: "str option \<Rightarrow> service" where
  "toy_service answer = \<lparr>sv_validator = ''nginx -t'', sv_validate = (\<lambda>_ _. answer),
     sv_reloader = ''nginx'', sv_reload = (\<lambda>_ _. None)\<rparr>"

definition no_faults :: faults where
  "no_faults = \<lparr>ft_write = None, ft_restore = None, ft_unlink = None, ft_remove = None\<rparr>"

definition toy_request :: "unit apply_request" where
  "toy_request = \<lparr>ar_file = mf_nginx ''/s'', ar_template = ''t'', ar_context = (), ar_service = ''nginx'',
     ar_post_check = None, ar_force = False, ar_task_id = None\<rparr>"

definition toy_world :: "unit world" where
  "toy_world = \<lparr>w_disk = (\<lambda>_. Missing), w_store = (), w_calls = []\<rparr>"

lemmas toy_defs = toy_service_def no_faults_def toy_request_def toy_world_def apply_config_def put_live_def
  activate_def record_step_def ask_validate_def ask_reload_def inspect_def snapshot_of_def write_atomic_def
  undo_def restore_def remove_file_def mf_nginx_def Let_def

section \<open>Properties\<close>

text \<open>
  C2: A change that fails before its revision is recorded is undone. Whatever step refuses, validation,
  reload, the post-check or the write itself, the file has its former contents (or is absent again), no
  other path has changed save a removed staging file and directories made above the file, and no revision
  is recorded; this needs that the restoring write succeeds, which the code reports when it does not. The
  mode of a restored file is the one of the request. The one error left out is that of the store of
  revisions itself, after which the new file stays (\<open>store_failure_leaves_change_live\<close>).
\<close>

theorem failed_change_is_undone:
  assumes "engine_step sha render store op w = (w', Inl e)"
    and "ft_restore (op_faults op) = None" "ft_unlink (op_faults op) = None" "\<forall>m. e \<noteq> RevisionStoreErr m"
  shows "undone (op_path op) (w_disk w) (w_disk w') \<and> w_store w' = w_store w"
proof (cases op)
  case (OpApply sv ft rq)
  with assms(1) have "apply_config sha render sv store ft rq w = (w', Inl e)"
    by (auto simp: result_simps split: prod.splits)
  then show ?thesis
    using assms OpApply put_live_err by (cases rule: apply_cases) fastforce+
next
  case (OpRemove sv ft mf)
  then show ?thesis
    using assms remove_config_err remove_config_store by (auto simp: result_simps split: prod.splits) blast+
next
  case (OpRollback sv ft path rv mode)
  then show ?thesis using assms rollback_err rollback_store by auto
qed

theorem failed_change_is_undone_witness:
  "undone ''/s'' (w_disk toy_world) (w_disk (fst (engine_step (\<lambda>_. ''h'') (\<lambda>_ _. Inr ''b'') None
     (OpApply (toy_service (Some ''bad'')) no_faults toy_request) toy_world)))"
  using failed_change_is_undone [of "\<lambda>_. ''h''" "\<lambda>_ _. Inr ''b''" None
    "OpApply (toy_service (Some ''bad'')) no_faults toy_request" toy_world
    "fst (engine_step (\<lambda>_. ''h'') (\<lambda>_ _. Inr ''b'') None
       (OpApply (toy_service (Some ''bad'')) no_faults toy_request) toy_world)" "ValidationFailed ''nginx -t'' ''bad''"]
  by (simp add: toy_defs)

text \<open>
  C3: A configuration the service's own checker has not accepted is never loaded: in the calls
  one operation makes, whatever fails, every reload is of a disk validated earlier in the same
  operation or, after an undo, of the disk as it was before.
\<close>

theorem only_validated_configurations_are_loaded:
  assumes "engine_step sha render store op w = (w', r)"
  shows "\<exists>cs. w_calls w' = w_calls w @ cs \<and> loads_ok (undone (op_path op) (w_disk w)) [] cs"
proof (cases op)
  case (OpApply sv ft rq)
  with assms show ?thesis using apply_calls by (auto split: prod.splits)
next
  case (OpRemove sv ft mf)
  with assms show ?thesis using remove_config_calls by (auto split: prod.splits)
next
  case (OpRollback sv ft path rv mode)
  with assms show ?thesis using rollback_calls by auto
qed

theorem only_validated_configurations_are_loaded_witness:
  "\<exists>cs. w_calls (fst (engine_step (\<lambda>_. ''h'') (\<lambda>_ _. Inr ''b'') None
      (OpApply (toy_service None) no_faults toy_request) toy_world)) = w_calls toy_world @ cs
     \<and> loads_ok (undone (op_path (OpApply (toy_service None) no_faults toy_request)) (w_disk toy_world)) [] cs"
  by (rule only_validated_configurations_are_loaded [OF prod.collapse [symmetric]])

text \<open>
  C36: What a successful apply means. Either nothing was done, because the file is ours with the
  hash of this very rendering; or the file now holds exactly that rendering under its header and
  mode, with only the staging file and missing directories above it besides, and the service validated, loaded and (where one is
  given) checked that disk, in this order. A file somebody else wrote or that cannot be read is
  never replaced, a hand-edited one only on explicit request.
\<close>

theorem successful_apply_is_exact:
  assumes "apply_config sha render sv store ft rq w = (w', Inr out)"
  shows "\<exists>body. render (ar_template rq) (ar_context rq) = Inr body
    \<and> (if ao_changed out then
         w_disk w' = (make_dirs (parent_dirs (mf_path (ar_file rq))) (w_disk w))(temp_of (mf_path (ar_file rq)) := Missing, mf_path (ar_file rq) :=
           File (with_header sha body (mf_style (ar_file rq))) (mf_mode (ar_file rq)))
         \<and> w_calls w' = w_calls w @ [CValidate (w_disk w') None, CReload (w_disk w') None]
             @ (case ar_post_check rq of None \<Rightarrow> [] | Some _ \<Rightarrow> [CCheck (w_disk w') None])
         \<and> (is_safe_to_overwrite (inspect sha (w_disk w) (mf_path (ar_file rq)))
            \<or> is_drifted (inspect sha (w_disk w) (mf_path (ar_file rq))) \<and> ar_force rq)
       else w' = w \<and> inspect sha (w_disk w) (mf_path (ar_file rq)) = Managed (sha body) \<and> \<not> ar_force rq)"
  using assms
proof (cases rule: apply_cases)
  case (live body)
  then show ?thesis using put_live_ok [OF live(2)] by (intro exI [of _ body]) simp
qed auto

theorem successful_apply_is_exact_witness:
  "\<exists>w' out. apply_config (\<lambda>_. ''h'') (\<lambda>_ _. Inr ''b'') (toy_service None) None no_faults toy_request toy_world
       = (w', Inr out) \<and> ao_changed out
     \<and> w_calls w' = [CValidate (w_disk w') None, CReload (w_disk w') None]"
proof -
  obtain w' out where *: "apply_config (\<lambda>_. ''h'') (\<lambda>_ _. Inr ''b'') (toy_service None) None no_faults toy_request toy_world
      = (w', Inr out)" "ao_changed out"
    by (simp add: toy_defs)
  from successful_apply_is_exact [OF *(1)] * show ?thesis
    by (intro exI conjI) (auto simp: toy_request_def toy_world_def)
qed

text \<open>
  A failure to record the revision is the one error that does not undo: the caller is told
  the change failed, but the new rendering is on disk and the service has loaded it.
\<close>

theorem store_failure_leaves_change_live:
  assumes "apply_config sha render sv store ft rq w = (w', Inl (RevisionStoreErr m))"
    and "render (ar_template rq) (ar_context rq) = Inr body"
  shows "w_disk w' = (make_dirs (parent_dirs (mf_path (ar_file rq))) (w_disk w))(temp_of (mf_path (ar_file rq)) := Missing, mf_path (ar_file rq) :=
      File (with_header sha body (mf_style (ar_file rq))) (mf_mode (ar_file rq)))
    \<and> CReload (w_disk w') None \<in> set (w_calls w')"
proof -
  have "put_live sha sv store ft rq body w = (w', Inl (RevisionStoreErr m))"
    using assms unfolding apply_config_def Let_def
    by (auto simp: read_body_def split: file_state.splits if_splits sum.splits node.splits)
  then show ?thesis by (rule put_live_store_failed)
qed

theorem store_failure_leaves_change_live_witness:
  "\<exists>w'. apply_config (\<lambda>_. ''h'') (\<lambda>_ _. Inr ''b'') (toy_service None) (Some (\<lambda>s _. (s, Inl ''disk full''))) no_faults
       toy_request toy_world = (w', Inl (RevisionStoreErr ''disk full''))
     \<and> CReload (w_disk w') None \<in> set (w_calls w')"
proof -
  obtain w' where *: "apply_config (\<lambda>_. ''h'') (\<lambda>_ _. Inr ''b'') (toy_service None) (Some (\<lambda>s _. (s, Inl ''disk full'')))
      no_faults toy_request toy_world = (w', Inl (RevisionStoreErr ''disk full''))"
    by (simp add: toy_defs)
  with store_failure_leaves_change_live [OF *] show ?thesis by auto
qed

lemma restored_mode_is_the_requests:
  "w_disk (fst (rollback (toy_service (Some ''bad'')) no_faults ''/s''
     \<lparr>sr_id = 1, sr_path = ''/s'', sr_sha256 = [], sr_content = ''new''\<rparr> 420
     (toy_world\<lparr>w_disk := (\<lambda>_. Missing)(''/s'' := File ''old'' 384)\<rparr>))) ''/s'' = File ''old'' 420"
  by (simp add: toy_defs rollback_def)

section \<open>The history of a path\<close>

text \<open>What the engine expects of the store of revisions.\<close>

locale revision_store =
  fixes inv :: "'s \<Rightarrow> bool"
    and record_rev :: "'s recorder"
    and active :: "'s \<Rightarrow> str \<Rightarrow> str + stored_revision option"
  assumes recorded: "inv s \<Longrightarrow> record_rev s rv = (s', Inr i) \<Longrightarrow>
      inv s' \<and> active s' (nr_path rv) = Inr (Some \<lparr>sr_id = i, sr_path = nr_path rv, sr_sha256 = nr_sha256 rv,
        sr_content = nr_content rv\<rparr>)"
    and recorded_other: "inv s \<Longrightarrow> record_rev s rv = (s', Inr i) \<Longrightarrow> p \<noteq> nr_path rv \<Longrightarrow> active s' p = active s p"
    and not_recorded: "record_rev s rv = (s', Inl e) \<Longrightarrow> s' = s"
begin

lemma applied_is_active:
  assumes "inv (w_store w)" "put_live sha sv (Some record_rev) ft rq body w = (w', Inr out)"
  shows "inv (w_store w') \<and> (\<exists>i. active (w_store w') (mf_path (ar_file rq)) = Inr (Some \<lparr>sr_id = i,
    sr_path = mf_path (ar_file rq), sr_sha256 = sha body, sr_content = with_header sha body (mf_style (ar_file rq))\<rparr>))"
  using put_live_ok [OF assms(2)] recorded [OF assms(1)] by fastforce

lemma applied_other:
  assumes "inv (w_store w)" "put_live sha sv (Some record_rev) ft rq body w = (w', Inr out)" "p \<noteq> mf_path (ar_file rq)"
  shows "active (w_store w') p = active (w_store w) p"
  using put_live_ok [OF assms(2)] recorded_other [OF assms(1), of _ _ _ p] assms(3) by fastforce

text \<open>The active revision of a path stays the text on disk.\<close>

lemma history_stays_true:
  assumes "inv (w_store w)" "\<And>p rv. active (w_store w) p = Inr (Some rv) \<Longrightarrow> \<exists>m. w_disk w p = File (sr_content rv) m"
    and "put_live sha sv (Some record_rev) ft rq body w = (w', Inr out)"
    and "\<And>rv. active (w_store w) (temp_of (mf_path (ar_file rq))) \<noteq> Inr (Some rv)"
    and "active (w_store w') p = Inr (Some rv)"
  shows "\<exists>m. w_disk w' p = File (sr_content rv) m"
proof (cases "p = mf_path (ar_file rq)")
  case True
  then show ?thesis
    using assms(5) put_live_ok [OF assms(3)] applied_is_active [OF assms(1,3)] by auto
next
  case False
  then have "active (w_store w) p = Inr (Some rv)"
    using assms(5) applied_other [OF assms(1,3)] by simp
  moreover from this have "p \<noteq> temp_of (mf_path (ar_file rq))" using assms(4) by auto
  ultimately show ?thesis
    using False put_live_ok [OF assms(3)] assms(2) by (simp add: make_dirs_file)
qed

end

end
