(* ===== verification/Revisions.thy ===== *)
theory Revisions
  imports Apply "HOL-Library.Multiset"
begin

text \<open>
  The history of every file the panel owns, \<open>unihelm-db/src/revisions.rs\<close>, and the store the
  apply engine sees of it, \<open>DbRevisions\<close> of \<open>unihelm-ops/src/services.rs\<close>. The lemmas show
  that each path has at most one active revision and at most twenty, that the table refines a
  map from paths to active contents, and that the store keeps the contract of
  \<open>Apply.revision_store\<close>.
\<close>

record revision_row =
  rv_id :: int
  rv_path :: str
  rv_sha256 :: str
  rv_content :: str
  rv_rendered_by_task :: "str option"
  rv_active :: int
  rv_created_at :: str

record revisions_table =
  rt_rows :: "revision_row list"
  rt_seq :: int

record config_revision =
  cr_id :: int
  cr_path :: str
  cr_sha256 :: str
  cr_rendered_by_task :: "str option"
  cr_active :: bool
  cr_created_at :: int
  cr_content :: "str option"

definition into_revision :: "'j codec \<Rightarrow> bool \<Rightarrow> revision_row \<Rightarrow> config_revision db_res" where
  "into_revision c with_content r =
     r_bind (from_sql_time c (rv_created_at r)) (\<lambda>created.
       Inr \<lparr>cr_id = rv_id r, cr_path = rv_path r, cr_sha256 = rv_sha256 r,
            cr_rendered_by_task = rv_rendered_by_task r, cr_active = (rv_active r \<noteq> 0),
            cr_created_at = created, cr_content = (if with_content then Some (rv_content r) else None)\<rparr>)"

definition keep_per_path :: nat where
  "keep_per_path = 20"

definition deactivate :: "str \<Rightarrow> revision_row list \<Rightarrow> revision_row list" where
  "deactivate path rows = fst (sql_update (\<lambda>r. rv_path r = path \<and> rv_active r = 1) (\<lambda>r. r\<lparr>rv_active := 0\<rparr>) rows)"

definition newest_ids :: "str \<Rightarrow> revision_row list \<Rightarrow> int list" where
  "newest_ids path rows = take keep_per_path (rev (sort (map rv_id (filter (\<lambda>r. rv_path r = path) rows))))"

definition trim_path :: "str \<Rightarrow> revision_row list \<Rightarrow> revision_row list" where
  "trim_path path rows =
     filter (\<lambda>r. \<not> (rv_path r = path \<and> rv_active r = 0 \<and> rv_id r \<notin> set (newest_ids path rows))) rows"

definition record_revision ::
  "'j codec \<Rightarrow> int \<Rightarrow> str \<Rightarrow> str \<Rightarrow> str \<Rightarrow> str option \<Rightarrow> revisions_table \<Rightarrow> revisions_table \<times> int db_res" where
  "record_revision c now path sha256 content task db =
     (let i = rt_seq db + 1;
          row = \<lparr>rv_id = i, rv_path = path, rv_sha256 = sha256, rv_content = content,
                 rv_rendered_by_task = task, rv_active = 1, rv_created_at = to_sql_time c now\<rparr>
      in (\<lparr>rt_rows = trim_path path (deactivate path (rt_rows db) @ [row]), rt_seq = i\<rparr>, Inr i))"

definition active_row :: "revision_row list \<Rightarrow> str \<Rightarrow> revision_row option" where
  "active_row rows path = find (\<lambda>r. rv_path r = path \<and> rv_active r = 1) rows"

definition active_revision :: "'j codec \<Rightarrow> revisions_table \<Rightarrow> str \<Rightarrow> config_revision option db_res" where
  "active_revision c db path =
     (case active_row (rt_rows db) path of
        None \<Rightarrow> Inr None
      | Some r \<Rightarrow> r_bind (into_revision c True r) (\<lambda>v. Inr (Some v)))"

definition revision :: "'j codec \<Rightarrow> revisions_table \<Rightarrow> int \<Rightarrow> config_revision option db_res" where
  "revision c db i =
     (case find (\<lambda>r. rv_id r = i) (rt_rows db) of
        None \<Rightarrow> Inr None
      | Some r \<Rightarrow> r_bind (into_revision c True r) (\<lambda>v. Inr (Some v)))"

definition revision_history :: "'j codec \<Rightarrow> revisions_table \<Rightarrow> str \<Rightarrow> int \<Rightarrow> config_revision list db_res" where
  "revision_history c db path lim =
     collect_results (map (into_revision c False)
       (take (nat (max 1 (min lim 100))) (rev (sort_key rv_id (filter (\<lambda>r. rv_path r = path) (rt_rows db))))))"

definition mark_revision_active :: "'j codec \<Rightarrow> int \<Rightarrow> revisions_table \<Rightarrow> revisions_table \<times> unit db_res" where
  "mark_revision_active c i db =
     (case revision c db i of
        Inl e \<Rightarrow> (db, Inl e)
      | Inr None \<Rightarrow> (db, Inl (DbNotFound ''configuration revision''))
      | Inr (Some v) \<Rightarrow>
          (db\<lparr>rt_rows := fst (sql_update (\<lambda>r. rv_id r = i) (\<lambda>r. r\<lparr>rv_active := 1\<rparr>)
                               (deactivate (cr_path v) (rt_rows db)))\<rparr>, Inr ()))"

definition forget_revisions :: "str \<Rightarrow> revisions_table \<Rightarrow> revisions_table \<times> nat" where
  "forget_revisions path db =
     (db\<lparr>rt_rows := filter (\<lambda>r. rv_path r \<noteq> path) (rt_rows db)\<rparr>,
      length (filter (\<lambda>r. rv_path r = path) (rt_rows db)))"

text \<open>\<open>DbRevisions\<close>; \<open>show_db\<close> is the \<open>Display\<close> of \<open>DbError\<close>.\<close>

definition db_record :: "(db_error \<Rightarrow> str) \<Rightarrow> 'j codec \<Rightarrow> int \<Rightarrow> revisions_table recorder" where
  "db_record show_db c now db rv =
     (case record_revision c now (nr_path rv) (nr_sha256 rv) (nr_content rv) (nr_rendered_by_task rv) db of
        (db', r) \<Rightarrow> (db', r_map_err show_db r))"

definition db_active :: "(db_error \<Rightarrow> str) \<Rightarrow> 'j codec \<Rightarrow> revisions_table \<Rightarrow> str \<Rightarrow> str + stored_revision option" where
  "db_active show_db c db path =
     r_bind (r_map_err show_db (active_revision c db path)) (\<lambda>found.
       Inr (map_option (\<lambda>r. \<lparr>sr_id = cr_id r, sr_path = cr_path r, sr_sha256 = cr_sha256 r,
         sr_content = (case cr_content r of Some x \<Rightarrow> x | None \<Rightarrow> [])\<rparr>) found))"

section \<open>The operations as a transition\<close>

datatype revision_op =
    RvRecord int str str str "str option"
  | RvMark int
  | RvForget str

fun revision_step :: "'j codec \<Rightarrow> revision_op \<Rightarrow> revisions_table \<Rightarrow> revisions_table" where
  "revision_step c (RvRecord now path sha256 content task) db = fst (record_revision c now path sha256 content task db)"
| "revision_step c (RvMark i) db = fst (mark_revision_active c i db)"
| "revision_step c (RvForget path) db = fst (forget_revisions path db)"

definition revision_run :: "'j codec \<Rightarrow> revision_op list \<Rightarrow> revisions_table \<Rightarrow> revisions_table" where
  "revision_run c ops db = fold (revision_step c) ops db"

section \<open>The invariant\<close>

definition actives :: "str \<Rightarrow> revision_row list \<Rightarrow> revision_row list" where
  "actives path rows = filter (\<lambda>r. rv_path r = path \<and> rv_active r = 1) rows"

definition rows_inv :: "'j codec \<Rightarrow> revision_row list \<Rightarrow> int \<Rightarrow> bool" where
  "rows_inv c rows n \<longleftrightarrow>
     distinct (map rv_id rows) \<and> (\<forall>r \<in> set rows. rv_id r \<le> n \<and> rv_active r \<in> {0, 1} \<and> (\<exists>t. rv_created_at r = to_sql_time c t))
     \<and> (\<forall>path. length (actives path rows) \<le> 1)"

definition revisions_inv :: "'j codec \<Rightarrow> revisions_table \<Rightarrow> bool" where
  "revisions_inv c db \<longleftrightarrow> rows_inv c (rt_rows db) (rt_seq db)
     \<and> (\<forall>path. length (filter (\<lambda>r. rv_path r = path) (rt_rows db)) \<le> keep_per_path)"

lemma deactivate_ids [simp]: "map rv_id (deactivate path rows) = map rv_id rows"
  unfolding deactivate_def by (rule sql_update_map) simp

lemma filter_length_map_path:
  "(\<And>r. rv_path (g r) = rv_path r) \<Longrightarrow>
     length (filter (\<lambda>r. rv_path r = p) (map g rows)) = length (filter (\<lambda>r. rv_path r = p) rows)"
  by (induction rows) auto

lemma deactivate_filter_path:
  "length (filter (\<lambda>r. rv_path r = p) (deactivate path rows)) = length (filter (\<lambda>r. rv_path r = p) rows)"
  unfolding deactivate_def sql_update_def fst_conv by (rule filter_length_map_path) simp

lemma actives_deactivate: "actives p (deactivate path rows) = (if p = path then [] else actives p rows)"
  by (induction rows) (auto simp: deactivate_def sql_update_def actives_def)

lemma actives_filter: "actives p (filter P rows) = filter P (actives p rows)"
  by (simp add: actives_def conj_commute)

lemma filter_le: "length xs \<le> n \<Longrightarrow> length (filter P xs) \<le> n"
  using length_filter_le [of P xs] by linarith

lemma deactivate_inv: "rows_inv c rows n \<Longrightarrow> rows_inv c (deactivate path rows) n"
  unfolding rows_inv_def actives_deactivate deactivate_ids
  by (auto simp: deactivate_def sql_update_def actives_def)

lemma filter_inv: "rows_inv c rows n \<Longrightarrow> rows_inv c (filter P rows) n"
  unfolding rows_inv_def actives_filter by (simp add: distinct_map_filter filter_le)

lemma append_inv:
  assumes "rows_inv c rows n" "actives path rows = []"
  shows "rows_inv c (rows @ [\<lparr>rv_id = n + 1, rv_path = path, rv_sha256 = h, rv_content = s,
    rv_rendered_by_task = t, rv_active = 1, rv_created_at = to_sql_time c now\<rparr>]) (n + 1)"
  using assms unfolding rows_inv_def actives_def by (auto simp: to_sql_time_def)

lemma newest_set: "set (newest_ids path rows) \<subseteq> rv_id ` {r \<in> set rows. rv_path r = path}"
  unfolding newest_ids_def by (auto dest!: in_set_takeD)

lemma rev_sort_hd:
  fixes x :: "'a :: linorder"
  assumes "\<forall>y \<in> set xs. y < x"
  shows "rev (sort (xs @ [x])) = x # rev (sort xs)"
proof -
  have "sort (xs @ [x]) = sort xs @ [x]"
    using assms by (intro properties_for_sort) (auto simp: sorted_append less_imp_le)
  then show ?thesis by simp
qed

lemma trim_length:
  assumes "distinct (map rv_id rows)" "\<forall>r \<in> set rows. rv_path r = path \<and> rv_active r \<noteq> 0 \<longrightarrow> rv_id r \<in> set (newest_ids path rows)"
  shows "length (filter (\<lambda>r. rv_path r = path) (trim_path path rows)) \<le> keep_per_path"
proof -
  let ?kept = "filter (\<lambda>r. rv_path r = path) (trim_path path rows)"
  have "set (map rv_id ?kept) \<subseteq> set (newest_ids path rows)"
    using assms(2) by (auto simp: trim_path_def)
  then have "card (set (map rv_id ?kept)) \<le> card (set (newest_ids path rows))"
    by (rule card_mono [OF finite_set])
  also have "\<dots> \<le> keep_per_path"
    using card_length [of "newest_ids path rows"] by (simp add: newest_ids_def)
  finally have "card (set (map rv_id ?kept)) \<le> keep_per_path" .
  moreover have "distinct (map rv_id ?kept)"
    using assms(1) by (simp add: trim_path_def distinct_map_filter)
  ultimately show ?thesis by (metis distinct_card length_map)
qed

lemma newest_has_last:
  assumes "\<forall>r \<in> set rows. rv_id r < rv_id q" "rv_path q = path"
  shows "rv_id q \<in> set (newest_ids path (rows @ [q]))"
proof -
  have "rev (sort (map rv_id (filter (\<lambda>r. rv_path r = path) rows) @ [rv_id q]))
      = rv_id q # rev (sort (map rv_id (filter (\<lambda>r. rv_path r = path) rows)))"
    by (rule rev_sort_hd) (use assms in auto)
  then show ?thesis
    using assms(2) by (simp add: newest_ids_def keep_per_path_def)
qed

lemma trim_other: "p \<noteq> path \<Longrightarrow> filter (\<lambda>r. rv_path r = p) (trim_path path rows) = filter (\<lambda>r. rv_path r = p) rows"
  unfolding trim_path_def by (auto simp: filter_filter intro: filter_cong)

lemma actives_trim: "actives p (trim_path path rows) = actives p rows"
  unfolding trim_path_def actives_def by (auto simp: filter_filter intro!: filter_cong)

lemma record_inv:
  assumes "revisions_inv c db"
  shows "revisions_inv c (fst (record_revision c now path sha256 content task db))"
proof -
  let ?row = "\<lparr>rv_id = rt_seq db + 1, rv_path = path, rv_sha256 = sha256, rv_content = content,
    rv_rendered_by_task = task, rv_active = 1, rv_created_at = to_sql_time c now\<rparr>"
  let ?rows = "deactivate path (rt_rows db) @ [?row]"
  have inv: "rows_inv c (deactivate path (rt_rows db)) (rt_seq db)"
    using assms deactivate_inv by (auto simp: revisions_inv_def)
  then have all: "rows_inv c ?rows (rt_seq db + 1)"
    by (rule append_inv) (simp add: actives_deactivate)
  have ids: "\<forall>r \<in> set (deactivate path (rt_rows db)). rv_id r < rv_id ?row"
    using inv by (auto simp: rows_inv_def)
  have none: "\<forall>r \<in> set (deactivate path (rt_rows db)). rv_path r = path \<longrightarrow> rv_active r \<noteq> 1"
    using actives_deactivate [of path path "rt_rows db"] by (auto simp: actives_def filter_empty_conv)
  have "length (filter (\<lambda>r. rv_path r = p) (trim_path path ?rows)) \<le> keep_per_path" for p
  proof (cases "p = path")
    case True
    have "length (filter (\<lambda>r. rv_path r = path) (trim_path path ?rows)) \<le> keep_per_path"
    proof (rule trim_length)
      show "distinct (map rv_id ?rows)" using all by (simp only: rows_inv_def)
      show "\<forall>r \<in> set ?rows. rv_path r = path \<and> rv_active r \<noteq> 0 \<longrightarrow> rv_id r \<in> set (newest_ids path ?rows)"
      proof (intro ballI impI)
        fix r assume r: "r \<in> set ?rows" "rv_path r = path \<and> rv_active r \<noteq> 0"
        then have "rv_active r = 0 \<or> rv_active r = 1"
          using all unfolding rows_inv_def by blast
        then have "rv_active r = 1" using r(2) by blast
        with r none have "r = ?row" by auto
        then show "rv_id r \<in> set (newest_ids path ?rows)"
          using newest_has_last [OF ids] by simp
      qed
    qed
    with True show ?thesis by simp
  next
    case False
    then show ?thesis
      using assms by (simp add: trim_other deactivate_filter_path revisions_inv_def)
  qed
  moreover have "rows_inv c (trim_path path ?rows) (rt_seq db + 1)"
    unfolding trim_path_def by (rule filter_inv [OF all])
  ultimately show ?thesis
    by (simp add: record_revision_def revisions_inv_def Let_def)
qed

lemma one_per_key: "distinct (map f xs) \<Longrightarrow> length (filter (\<lambda>q. f q = i) xs) \<le> 1"
proof (induction xs)
  case (Cons a xs)
  then have "f a \<notin> f ` set xs" by simp
  then have "\<forall>x \<in> set xs. f x \<noteq> f a" by (metis image_eqI)
  then have "f a = i \<Longrightarrow> filter (\<lambda>q. f q = i) xs = []"
    by (simp add: filter_empty_conv)
  with Cons show ?case by auto
qed simp

lemma mark_actives:
  assumes "actives path rows = []" "\<forall>q \<in> set rows. rv_id q = i \<longrightarrow> rv_path q = path"
  shows "actives p (map (\<lambda>r. if rv_id r = i then r\<lparr>rv_active := 1\<rparr> else r) rows)
    = (if p = path then map (\<lambda>r. r\<lparr>rv_active := 1\<rparr>) (filter (\<lambda>q. rv_id q = i) rows) else actives p rows)"
proof -
  let ?g = "\<lambda>r. if rv_id r = i then r\<lparr>rv_active := 1\<rparr> else r"
  have "rv_path (?g r) = p \<and> rv_active (?g r) = 1 \<longleftrightarrow>
      (if p = path then rv_id r = i else rv_path r = p \<and> rv_active r = 1)" if "r \<in> set rows" for r
    using assms that by (cases "rv_id r = i") (auto simp: actives_def filter_empty_conv)
  then have "filter (\<lambda>r. rv_path (?g r) = p \<and> rv_active (?g r) = 1) rows
      = filter (\<lambda>r. if p = path then rv_id r = i else rv_path r = p \<and> rv_active r = 1) rows"
    by (rule filter_cong [OF refl])
  then have *: "actives p (map ?g rows)
      = map ?g (filter (\<lambda>r. if p = path then rv_id r = i else rv_path r = p \<and> rv_active r = 1) rows)"
    by (simp add: actives_def filter_map o_def)
  show ?thesis
  proof (cases "p = path")
    case True
    then show ?thesis unfolding * by simp
  next
    case False
    then have "map ?g (actives p rows) = actives p rows"
      using assms(2) by (intro map_idI) (auto simp: actives_def)
    then show ?thesis using False unfolding * by (simp add: actives_def)
  qed
qed

lemma mark_path:
  assumes "distinct (map rv_id rows)" "find (\<lambda>r. rv_id r = i) rows = Some r"
  shows "\<forall>q \<in> set (deactivate path rows). rv_id q = i \<longrightarrow> rv_path q = rv_path r"
proof (intro ballI impI)
  fix q assume q: "q \<in> set (deactivate path rows)" "rv_id q = i"
  then obtain q0 where q0: "q0 \<in> set rows" "rv_id q0 = i" "rv_path q0 = rv_path q"
    by (auto simp: deactivate_def sql_update_def split: if_splits)
  have "r \<in> set rows" "rv_id r = i" using assms(2) by (auto simp: find_Some_iff)
  with q0 assms(1) have "q0 = r" by (metis distinct_map inj_on_def)
  with q0 show "rv_path q = rv_path r" by simp
qed

lemma mark_inv:
  assumes "revisions_inv c db"
  shows "revisions_inv c (fst (mark_revision_active c i db))"
proof (cases "revision c db i")
  case (Inl e)
  then show ?thesis using assms by (simp add: mark_revision_active_def)
next
  case (Inr found)
  show ?thesis
  proof (cases found)
    case None
    with Inr show ?thesis using assms by (simp add: mark_revision_active_def)
  next
    case (Some v)
    let ?rows = "deactivate (cr_path v) (rt_rows db)"
    let ?new = "map (\<lambda>r. if rv_id r = i then r\<lparr>rv_active := 1\<rparr> else r) ?rows"
    obtain r where r: "find (\<lambda>r. rv_id r = i) (rt_rows db) = Some r" "cr_path v = rv_path r"
      using Inr Some by (auto simp: revision_def into_revision_def result_simps split: option.splits)
    have inv: "rows_inv c ?rows (rt_seq db)"
      using assms deactivate_inv by (auto simp: revisions_inv_def)
    have d: "distinct (map rv_id ?rows)" using inv by (simp add: rows_inv_def)
    have path: "\<forall>q \<in> set ?rows. rv_id q = i \<longrightarrow> rv_path q = rv_path r"
      using assms by (intro mark_path [OF _ r(1)]) (simp add: revisions_inv_def rows_inv_def)
    have "actives (rv_path r) ?rows = []" by (simp add: actives_deactivate r(2))
    from mark_actives [OF this path] have act: "length (actives p ?new) \<le> 1" for p
      using one_per_key [OF d, of i] inv by (simp add: rows_inv_def)
    have "map rv_id ?new = map rv_id ?rows"
      unfolding map_map by (rule map_cong) simp_all
    then have "rows_inv c ?new (rt_seq db)"
      using inv act unfolding rows_inv_def by auto
    moreover have "length (filter (\<lambda>r. rv_path r = p) ?new) \<le> keep_per_path" for p
      using assms by (subst filter_length_map_path) (simp_all add: deactivate_filter_path revisions_inv_def)
    ultimately show ?thesis
      using Inr Some by (simp add: mark_revision_active_def revisions_inv_def sql_update_def)
  qed
qed

lemma forget_inv: "revisions_inv c db \<Longrightarrow> revisions_inv c (fst (forget_revisions path db))"
proof -
  assume inv: "revisions_inv c db"
  have "filter (\<lambda>r. rv_path r = p) (filter (\<lambda>r. rv_path r \<noteq> path) rows)
      = filter (\<lambda>r. rv_path r \<noteq> path) (filter (\<lambda>r. rv_path r = p) rows)" for p rows
    unfolding filter_filter by (rule filter_cong) auto
  then have "length (filter (\<lambda>r. rv_path r = p) (filter (\<lambda>r. rv_path r \<noteq> path) (rt_rows db))) \<le> keep_per_path" for p
    using inv filter_le [of "filter (\<lambda>r. rv_path r = p) (rt_rows db)"] by (metis revisions_inv_def)
  with inv show ?thesis
    unfolding revisions_inv_def by (simp add: forget_revisions_def filter_inv del: filter_filter)
qed

lemma step_inv: "revisions_inv c db \<Longrightarrow> revisions_inv c (revision_step c op db)"
  by (cases op) (simp_all add: record_inv mark_inv forget_inv)

lemma no_revisions_inv: "revisions_inv c \<lparr>rt_rows = [], rt_seq = 0\<rparr>"
  by (simp add: revisions_inv_def rows_inv_def actives_def)

lemma run_inv: "revisions_inv c db \<Longrightarrow> revisions_inv c (revision_run c ops db)"
  unfolding revision_run_def by (induction ops arbitrary: db) (simp_all add: step_inv)

section \<open>What is live\<close>

text \<open>The abstraction: the content each path is said to have on disk.\<close>

definition live_contents :: "revisions_table \<Rightarrow> str \<Rightarrow> str option" where
  "live_contents db path = map_option rv_content (active_row (rt_rows db) path)"

definition spec_step :: "revisions_table \<Rightarrow> revision_op \<Rightarrow> (str \<Rightarrow> str option) \<Rightarrow> str \<Rightarrow> str option" where
  "spec_step db op m =
     (case op of
        RvRecord _ path _ content _ \<Rightarrow> m(path := Some content)
      | RvMark i \<Rightarrow>
          (case find (\<lambda>r. rv_id r = i) (rt_rows db) of
             None \<Rightarrow> m
           | Some r \<Rightarrow> m(rv_path r := Some (rv_content r)))
      | RvForget path \<Rightarrow> m(path := None))"

lemma find_filter: "find P xs = (case filter P xs of [] \<Rightarrow> None | x # _ \<Rightarrow> Some x)"
  by (induction xs) simp_all

lemma active_row_actives: "active_row rows path = (case actives path rows of [] \<Rightarrow> None | r # _ \<Rightarrow> Some r)"
  by (simp add: active_row_def actives_def find_filter)

lemma actives_record:
  "actives p (rt_rows (fst (record_revision c now path sha256 content task db))) =
     (if p = path then [\<lparr>rv_id = rt_seq db + 1, rv_path = path, rv_sha256 = sha256, rv_content = content,
        rv_rendered_by_task = task, rv_active = 1, rv_created_at = to_sql_time c now\<rparr>]
      else actives p (rt_rows db))"
proof -
  have "actives p (xs @ [r]) = actives p xs @ (if rv_path r = p \<and> rv_active r = 1 then [r] else [])" for xs r
    by (simp add: actives_def)
  then show ?thesis
    by (simp add: record_revision_def Let_def actives_trim actives_deactivate)
qed

lemma live_record:
  "live_contents (fst (record_revision c now path sha256 content task db)) = (live_contents db)(path := Some content)"
  by (rule ext) (simp add: live_contents_def active_row_actives actives_record)

lemma live_forget: "live_contents (fst (forget_revisions path db)) = (live_contents db)(path := None)"
proof
  fix p
  have "actives p (filter (\<lambda>r. rv_path r \<noteq> path) rows) = (if p = path then [] else actives p rows)" for rows
    by (auto simp: actives_def filter_empty_conv intro: filter_cong)
  then show "live_contents (fst (forget_revisions path db)) p = ((live_contents db)(path := None)) p"
    by (simp add: live_contents_def forget_revisions_def active_row_actives)
qed

lemma into_revision_ok:
  assumes "codec_ok c" "revisions_inv c db" "r \<in> set (rt_rows db)"
  shows "\<exists>t. into_revision c b r = Inr \<lparr>cr_id = rv_id r, cr_path = rv_path r, cr_sha256 = rv_sha256 r,
    cr_rendered_by_task = rv_rendered_by_task r, cr_active = (rv_active r \<noteq> 0), cr_created_at = t,
    cr_content = (if b then Some (rv_content r) else None)\<rparr>"
proof -
  obtain t where "rv_created_at r = to_sql_time c t"
    using assms(2,3) by (auto simp: revisions_inv_def rows_inv_def)
  with assms(1) show ?thesis by (simp add: into_revision_def)
qed

lemma live_mark:
  assumes "codec_ok c" "revisions_inv c db"
  shows "live_contents (fst (mark_revision_active c i db)) = spec_step db (RvMark i) (live_contents db)"
proof (cases "find (\<lambda>r. rv_id r = i) (rt_rows db)")
  case None
  then show ?thesis by (simp add: mark_revision_active_def revision_def spec_step_def)
next
  case (Some r)
  then have mem: "r \<in> set (rt_rows db)" by (auto simp: find_Some_iff)
  obtain v where v: "revision c db i = Inr (Some v)" "cr_path v = rv_path r"
    using into_revision_ok [OF assms mem, of True] Some by (auto simp: revision_def)
  let ?rows = "deactivate (rv_path r) (rt_rows db)"
  have path: "\<forall>q \<in> set ?rows. rv_id q = i \<longrightarrow> rv_path q = rv_path r"
    using assms(2) by (intro mark_path [OF _ Some]) (simp add: revisions_inv_def rows_inv_def)
  obtain rs where rs: "filter (\<lambda>q. rv_id q = i) (rt_rows db) = r # rs"
    using Some by (auto simp: find_filter split: list.splits)
  have "filter (\<lambda>q. rv_id q = i) ?rows = map (\<lambda>q. if rv_path q = rv_path r \<and> rv_active q = 1 then q\<lparr>rv_active := 0\<rparr> else q) (r # rs)"
    unfolding rs [symmetric] by (simp add: deactivate_def sql_update_def filter_map o_def if_distrib cong: if_cong)
  then obtain r' rs' where r': "filter (\<lambda>q. rv_id q = i) ?rows = r' # rs'" "rv_content r' = rv_content r"
    by auto
  have "actives (rv_path r) ?rows = []" by (simp add: actives_deactivate)
  from mark_actives [OF this path] show ?thesis
    using v r' Some
    by (intro ext) (simp add: mark_revision_active_def live_contents_def active_row_actives spec_step_def sql_update_def
      actives_deactivate)
qed

lemma step_refines:
  "codec_ok c \<Longrightarrow> revisions_inv c db \<Longrightarrow> live_contents (revision_step c op db) = spec_step db op (live_contents db)"
  by (cases op) (simp_all add: live_record live_forget live_mark, simp_all add: spec_step_def)

section \<open>The store of the engine\<close>

lemma db_record_ok:
  "db_record show_db c now db rv = (db', r) \<longleftrightarrow>
     db' = fst (record_revision c now (nr_path rv) (nr_sha256 rv) (nr_content rv) (nr_rendered_by_task rv) db)
     \<and> r = Inr (rt_seq db + 1)"
  by (auto simp: db_record_def record_revision_def Let_def)

lemma db_active_eq:
  assumes "codec_ok c" "revisions_inv c db"
  shows "db_active show_db c db path = Inr (map_option (\<lambda>r. \<lparr>sr_id = rv_id r, sr_path = rv_path r,
    sr_sha256 = rv_sha256 r, sr_content = rv_content r\<rparr>) (active_row (rt_rows db) path))"
proof (cases "active_row (rt_rows db) path")
  case None
  then show ?thesis by (simp add: db_active_def active_revision_def)
next
  case (Some r)
  then have "r \<in> set (rt_rows db)" by (auto simp: active_row_def find_Some_iff)
  from into_revision_ok [OF assms this, of True] Some show ?thesis
    by (auto simp: db_active_def active_revision_def)
qed

interpretation dbr: revision_store "\<lambda>db. codec_ok c \<and> revisions_inv c db" "db_record show_db c now" "db_active show_db c"
proof (unfold_locales, goal_cases)
  case (1 s rv s' i)
  then have s': "s' = fst (record_revision c now (nr_path rv) (nr_sha256 rv) (nr_content rv) (nr_rendered_by_task rv) s)"
    "i = rt_seq s + 1"
    by (auto simp: db_record_ok)
  with 1 have "codec_ok c" "revisions_inv c s'" by (simp_all add: record_inv)
  then show ?case
    by (auto simp: db_active_eq active_row_actives s' actives_record)
next
  case (2 s rv s' i p)
  then have s': "s' = fst (record_revision c now (nr_path rv) (nr_sha256 rv) (nr_content rv) (nr_rendered_by_task rv) s)"
    by (auto simp: db_record_ok)
  with 2 have "codec_ok c" "revisions_inv c s" "revisions_inv c s'" by (simp_all add: record_inv)
  with 2(3) show ?case
    by (simp add: db_active_eq active_row_actives s' actives_record)
next
  case (3 s rv s' e)
  then show ?case by (auto simp: db_record_ok)
qed

section \<open>Properties\<close>

text \<open>
  C6: The history table refines a map from paths to the content said to be on disk. From an empty
  table, after any sequence of activations, re-activations and deletions, each path has at most
  one active revision and at most twenty rows, and the next operation changes the active contents
  exactly as the map: recording sets its path to the content written, marking a stored revision
  sets its path to that revision's content, forgetting clears the path; no other path moves.
\<close>

theorem history_refines_a_map:
  assumes "codec_ok c"
  shows "let db = revision_run c ops \<lparr>rt_rows = [], rt_seq = 0\<rparr> in
      length (actives path (rt_rows db)) \<le> 1
      \<and> length (filter (\<lambda>r. rv_path r = path) (rt_rows db)) \<le> 20
      \<and> live_contents (revision_step c op db) = spec_step db op (live_contents db)"
  using run_inv [OF no_revisions_inv, of c ops] step_refines [OF assms]
  by (auto simp: Let_def revisions_inv_def rows_inv_def keep_per_path_def)

theorem history_refines_a_map_witness:
  "live_contents (revision_step sample_codec (RvForget ''/a'') (revision_run sample_codec
     [RvRecord 5 ''/a'' ''h'' ''one'' None, RvRecord 6 ''/a'' ''i'' ''two'' None] \<lparr>rt_rows = [], rt_seq = 0\<rparr>)) ''/a'' = None"
  using history_refines_a_map [OF sample_codec_ok, where op = "RvForget ''/a''" and ops =
      "[RvRecord 5 ''/a'' ''h'' ''one'' None, RvRecord 6 ''/a'' ''i'' ''two'' None]"]
  by (simp add: Let_def spec_step_def)

text \<open>
  What the database calls the active revision is what is on disk. If every recorded active
  content is the text of its file, the same holds after every successful apply that writes,
  provided the staging name of the file is not itself a managed path.
\<close>

theorem active_revision_is_on_disk:
  assumes "codec_ok c" "revisions_inv c (w_store w)"
    and "\<forall>p content. live_contents (w_store w) p = Some content \<longrightarrow> (\<exists>m. w_disk w p = File content m)"
    and "apply_config sha render sv (Some (db_record show_db c now)) ft rq w = (w', Inr out)"
    and "live_contents (w_store w) (temp_of (mf_path (ar_file rq))) = None"
  shows "revisions_inv c (w_store w')
    \<and> (\<forall>p content. live_contents (w_store w') p = Some content \<longrightarrow> (\<exists>m. w_disk w' p = File content m))
    \<and> (ao_changed out \<longrightarrow> (\<exists>content m. w_disk w' (mf_path (ar_file rq)) = File content m
         \<and> live_contents (w_store w') (mf_path (ar_file rq)) = Some content))"
proof -
  have live: "db_active show_db c db p = Inr (Some rv) \<longleftrightarrow> (\<exists>r. active_row (rt_rows db) p = Some r
      \<and> rv = \<lparr>sr_id = rv_id r, sr_path = rv_path r, sr_sha256 = rv_sha256 r, sr_content = rv_content r\<rparr>)"
    if "revisions_inv c db" for db p rv
    using db_active_eq [OF assms(1) that] by auto
  have old: "db_active show_db c (w_store w) p = Inr (Some rv) \<Longrightarrow> \<exists>m. w_disk w p = File (sr_content rv) m" for p rv
    using assms(3) unfolding live [OF assms(2)] live_contents_def by fastforce
  show ?thesis
    using assms(4)
  proof (cases rule: apply_cases)
    case (live body)
    note now_active = dbr.applied_is_active [OF conjI [OF assms(1,2)] live(2)]
    then have inv: "revisions_inv c (w_store w')" by blast
    have "db_active show_db c (w_store w) (temp_of (mf_path (ar_file rq))) \<noteq> Inr (Some rv)" for rv
      using assms(5) by (auto simp: db_active_eq [OF assms(1,2)] live_contents_def)
    from dbr.history_stays_true [OF conjI [OF assms(1,2)] old live(2) this]
    have kept: "\<exists>m. w_disk w' p = File content m" if "live_contents (w_store w') p = Some content" for p content
      using that inv by (fastforce simp: db_active_eq [OF assms(1) inv] live_contents_def)
    have "live_contents (w_store w') (mf_path (ar_file rq)) = Some (with_header sha body (mf_style (ar_file rq)))"
      using now_active by (auto simp: db_active_eq [OF assms(1) inv] live_contents_def)
    with kept inv show ?thesis by blast
  qed (use assms in auto)
qed

theorem active_revision_is_on_disk_witness:
  "\<exists>w' out. apply_config (\<lambda>_. ''h'') (\<lambda>_ _. Inr ''b'') (toy_service None) (Some (db_record (\<lambda>_. []) sample_codec 5))
       no_faults toy_request \<lparr>w_disk = (\<lambda>_. Missing), w_store = \<lparr>rt_rows = [], rt_seq = 0\<rparr>, w_calls = []\<rparr> = (w', Inr out)
     \<and> (\<exists>content m. w_disk w' ''/s'' = File content m \<and> live_contents (w_store w') ''/s'' = Some content)"
proof -
  let ?w = "\<lparr>w_disk = (\<lambda>_. Missing), w_store = \<lparr>rt_rows = [], rt_seq = 0\<rparr>, w_calls = []\<rparr>"
  obtain w' out where *: "apply_config (\<lambda>_. ''h'') (\<lambda>_ _. Inr ''b'') (toy_service None)
      (Some (db_record (\<lambda>_. []) sample_codec 5)) no_faults toy_request ?w = (w', Inr out)" "ao_changed out"
    by (simp add: toy_defs db_record_def record_revision_def)
  have none: "live_contents (w_store ?w) p = None" for p
    by (simp add: live_contents_def active_row_def)
  have "mf_path (ar_file toy_request) = ''/s''" by (simp add: toy_request_def mf_nginx_def)
  with active_revision_is_on_disk [OF sample_codec_ok _ _ *(1)] none no_revisions_inv [of sample_codec] * show ?thesis
    by fastforce
qed

end
