(* ===== verification/Frames.thy ===== *)
theory Frames
  imports Models
begin

text \<open>
  The socket protocol: \<open>unihelm-ipc/src/codec.rs\<close>, \<open>transport.rs\<close>, \<open>frame.rs\<close>,
  \<open>peercred.rs\<close> and the two loops of \<open>server.rs\<close>. A stream is its remaining bytes, and
  reading returns the rest; the end of the list is the peer's close. JSON is a parameter. The lemmas
  show that framing is lossless for any sequence of payloads, that an over-long length is refused
  before its body is read, and that the server answers or skips each frame and stays in step.
\<close>

datatype ipc_error =
    Io str
  | Malformed str
  | FrameTooLarge nat nat
  | IpcClosed
  | UnsupportedVersion u16
  | IpcTimeout
  | PeerRejected str

definition display_ipc_error :: "ipc_error \<Rightarrow> str" where
  "display_ipc_error e =
     (case e of
        Io m \<Rightarrow> ''io error: '' @ m
      | Malformed m \<Rightarrow> ''malformed frame: '' @ m
      | FrameTooLarge sz mx \<Rightarrow>
          ''frame of '' @ show_nat sz @ '' bytes exceeds the '' @ show_nat mx @ '' byte limit''
      | IpcClosed \<Rightarrow> ''peer closed the connection''
      | UnsupportedVersion v \<Rightarrow> ''unsupported protocol version '' @ show_word v
      | IpcTimeout \<Rightarrow> ''timed out waiting for the agent''
      | PeerRejected m \<Rightarrow> ''peer credentials rejected: '' @ m)"

definition uni_error_of_ipc :: "ipc_error \<Rightarrow> uni_error" where
  "uni_error_of_ipc e =
     new_error
       (case e of
          Io _ \<Rightarrow> AgentUnavailable
        | IpcClosed \<Rightarrow> AgentUnavailable
        | Malformed _ \<Rightarrow> AgentProtocol
        | FrameTooLarge _ _ \<Rightarrow> AgentProtocol
        | UnsupportedVersion _ \<Rightarrow> AgentProtocol
        | IpcTimeout \<Rightarrow> AgentTimeout
        | PeerRejected _ \<Rightarrow> PeerCredentialRejected)
       (display_ipc_error e)"

section \<open>Framing\<close>

definition max_frame_bytes :: nat where
  "max_frame_bytes = 8 * 1024 * 1024"

text \<open>\<open>u32::to_be_bytes\<close> and \<open>u32::from_be_bytes\<close>.\<close>

definition to_be_bytes :: "u32 \<Rightarrow> str" where
  "to_be_bytes w = map (\<lambda>k. char_of (unat (drop_bit k w) mod 256)) [24, 16, 8, 0]"

fun from_be_bytes :: "str \<Rightarrow> u32" where
  "from_be_bytes bs = foldl (\<lambda>acc b. acc * 256 + of_nat (byte b)) 0 bs"

definition write_frame :: "str \<Rightarrow> ipc_error + str" where
  "write_frame payload =
     (if length payload > max_frame_bytes then Inl (FrameTooLarge (length payload) max_frame_bytes)
      else Inr (to_be_bytes (of_nat (length payload)) @ payload))"

text \<open>\<open>read_exact\<close> of \<open>n\<close> bytes: \<open>None\<close> is the unexpected end of file.\<close>

definition read_exact :: "nat \<Rightarrow> str \<Rightarrow> (str \<times> str) option" where
  "read_exact n s = (if n \<le> length s then Some (take n s, drop n s) else None)"

definition read_frame :: "nat \<Rightarrow> str \<Rightarrow> (ipc_error + str option) \<times> str" where
  "read_frame mx s =
     (case read_exact 4 s of
        None \<Rightarrow> (Inr None, [])
      | Some (len_buf, rest) \<Rightarrow>
          let len = unat (from_be_bytes len_buf) in
          if len > mx then (Inl (FrameTooLarge len mx), rest)
          else if len = 0 then (Inl (Malformed ''zero-length frame''), rest)
          else (case read_exact len rest of
                  None \<Rightarrow> (Inl (Malformed ''frame truncated mid-body''), [])
                | Some (buf, rest') \<Rightarrow> (Inr (Some buf), rest')))"

definition send_json :: "('v \<Rightarrow> str + str) \<Rightarrow> 'v \<Rightarrow> ipc_error + str" where
  "send_json to_vec value = r_bind (r_map_err Malformed (to_vec value)) write_frame"

definition recv_json :: "(str \<Rightarrow> str + 'v) \<Rightarrow> nat \<Rightarrow> str \<Rightarrow> (ipc_error + 'v option) \<times> str" where
  "recv_json from_slice mx s =
     (case read_frame mx s of
        (Inl e, rest) \<Rightarrow> (Inl e, rest)
      | (Inr None, rest) \<Rightarrow> (Inr None, rest)
      | (Inr (Some bytes), rest) \<Rightarrow>
          (r_bind
             (r_map_err (\<lambda>e. Malformed (e @ '' (frame of '' @ show_nat (length bytes) @ '' bytes)''))
                (from_slice bytes))
             (\<lambda>v. Inr (Some v)), rest))"

section \<open>Peers\<close>

record peer_cred =
  pc_uid :: u32
  pc_gid :: u32
  pc_pid :: "int option"

record peer_policy =
  allowed_uids :: "u32 list"
  allow_root :: bool

definition peer_policy_new :: "u32 list \<Rightarrow> peer_policy" where
  "peer_policy_new uids = \<lparr>allowed_uids = uids, allow_root = True\<rparr>"

definition check_peer :: "peer_policy \<Rightarrow> peer_cred \<Rightarrow> ipc_error + unit" where
  "check_peer p cred =
     (if (allow_root p \<and> pc_uid cred = 0) \<or> pc_uid cred \<in> set (allowed_uids p) then Inr ()
      else Inl (PeerRejected
             (''uid '' @ show_word (pc_uid cred) @ '' is not permitted to use the agent socket'')))"

section \<open>Envelopes\<close>

type_synonym uuid = "128 word"

definition protocol_version :: u16 where
  "protocol_version = 1"

record 'j request_frame =
  rq_v :: u16
  rq_id :: uuid
  rq_op :: str
  rq_auth :: auth_context
  rq_input :: 'j

datatype 'j response_body = RespOk 'j | RespErr uni_error | RespTask task_id

record 'j response_frame =
  rs_v :: u16
  rs_id :: uuid
  rs_body :: "'j response_body"

definition response_ok :: "uuid \<Rightarrow> 'j \<Rightarrow> 'j response_frame" where
  "response_ok i data = \<lparr>rs_v = protocol_version, rs_id = i, rs_body = RespOk data\<rparr>"

definition response_err :: "uuid \<Rightarrow> uni_error \<Rightarrow> 'j response_frame" where
  "response_err i e = \<lparr>rs_v = protocol_version, rs_id = i, rs_body = RespErr e\<rparr>"

definition response_task :: "uuid \<Rightarrow> task_id \<Rightarrow> 'j response_frame" where
  "response_task i t = \<lparr>rs_v = protocol_version, rs_id = i, rs_body = RespTask t\<rparr>"

datatype terminal_target = TargetRoot | TargetTenant "int option"

datatype control_kind =
    Subscribe task_id
  | Unsubscribe task_id
  | CancelTask task_id
  | Ping
  | TerminalOpen uuid terminal_target u16 u16 auth_context
  | TerminalAttach uuid auth_context
  | TerminalInput uuid user_id str
  | TerminalResize uuid user_id u16 u16
  | TerminalClose uuid user_id

record control_frame =
  cf_v :: u16
  cf_id :: uuid
  cf_kind :: control_kind

datatype event_kind =
    TaskLog task_id int str
  | TaskState task_id str "u8 option" "str option"
  | Pong str
  | TerminalOutput uuid user_id u64 str
  | TerminalState uuid user_id str "str option" "str option"

record event_frame =
  ev_v :: u16
  ev_id :: "uuid option"
  ev_kind :: event_kind

definition event_new :: "event_kind \<Rightarrow> event_frame" where
  "event_new k = \<lparr>ev_v = protocol_version, ev_id = None, ev_kind = k\<rparr>"

definition event_for_request :: "uuid \<Rightarrow> event_kind \<Rightarrow> event_frame" where
  "event_for_request i k = \<lparr>ev_v = protocol_version, ev_id = Some i, ev_kind = k\<rparr>"

datatype 'j client_frame = Request "'j request_frame" | Control control_frame

fun client_version :: "'j client_frame \<Rightarrow> u16" where
  "client_version (Request f) = rq_v f"
| "client_version (Control f) = cf_v f"

fun client_id :: "'j client_frame \<Rightarrow> uuid" where
  "client_id (Request f) = rq_id f"
| "client_id (Control f) = cf_id f"

datatype 'j server_frame = Response "'j response_frame" | Event event_frame

fun server_version :: "'j server_frame \<Rightarrow> u16" where
  "server_version (Response f) = rs_v f"
| "server_version (Event f) = ev_v f"

section \<open>The server's read loop\<close>

text \<open>
  \<open>serve_connection\<close>, as the list of what it does with the bytes of one connection: hand a
  frame to the handler, answer a frame of another version, and how it ends.
\<close>

datatype 'j served =
    Handled "'j client_frame"
  | Answered "'j response_frame"

datatype serve_end = PeerClosed | ReadFailed ipc_error

definition version_error :: "u16 \<Rightarrow> uni_error" where
  "version_error v =
     new_error AgentProtocol (''agent speaks protocol v'' @ show_word protocol_version
       @ '', peer sent v'' @ show_word v)"

definition serve_frame :: "'j client_frame \<Rightarrow> 'j served" where
  "serve_frame f =
     (if client_version f \<noteq> protocol_version
      then Answered (response_err (client_id f) (version_error (client_version f)))
      else Handled f)"

lemma read_frame_rest:
  "snd (read_frame mx s) = [] \<or> length (snd (read_frame mx s)) < length s"
  by (auto simp: read_frame_def read_exact_def Let_def)

lemma recv_json_rest: "snd (recv_json from_slice mx s) = snd (read_frame mx s)"
  by (auto simp: recv_json_def split: prod.split sum.split option.split)

lemma read_frame_end: "read_frame mx [] = (Inr None, [])"
  by (simp add: read_frame_def read_exact_def)

lemma recv_json_shrinks:
  assumes "s \<noteq> []"
  shows "length (snd (recv_json from_slice mx s)) < length s"
  using assms read_frame_rest [of mx s] by (auto simp: recv_json_rest)

function serve_connection ::
  "(str \<Rightarrow> str + 'j client_frame) \<Rightarrow> nat \<Rightarrow> str \<Rightarrow> 'j served list \<times> serve_end" where
  "serve_connection from_slice mx s =
     (if s = [] then ([], PeerClosed)
      else (case fst (recv_json from_slice mx s) of
              Inr None \<Rightarrow> ([], PeerClosed)
            | Inr (Some frame) \<Rightarrow>
                (case serve_connection from_slice mx (snd (recv_json from_slice mx s)) of
                   (out, fin) \<Rightarrow> (serve_frame frame # out, fin))
            | Inl (Malformed _) \<Rightarrow>
                serve_connection from_slice mx (snd (recv_json from_slice mx s))
            | Inl e \<Rightarrow> ([], ReadFailed e)))"
  by pat_completeness auto
termination
  by (relation "measure (\<lambda>(f, mx, s). length s)") (simp_all add: recv_json_shrinks)

declare serve_connection.simps [simp del]

text \<open>
  The writer task: the bytes it puts on the wire for the queued frames. Sending to the socket
  succeeds (a broken socket ends the task, and with it the connection); a frame the codec refuses
  is replaced by an error reply when it answers a request, and dropped otherwise.
\<close>

definition unsendable_reply :: "ipc_error \<Rightarrow> 'j response_frame \<Rightarrow> 'j server_frame" where
  "unsendable_reply e resp =
     Response (response_err (rs_id resp)
       (internal_error (''the response could not be sent: '' @ display_ipc_error e)))"

fun write_frames :: "('j server_frame \<Rightarrow> str + str) \<Rightarrow> 'j server_frame list \<Rightarrow> str" where
  "write_frames to_vec [] = []"
| "write_frames to_vec (f # fs) =
     (case send_json to_vec f of
        Inr bytes \<Rightarrow> bytes @ write_frames to_vec fs
      | Inl e \<Rightarrow>
          (case f of
             Event _ \<Rightarrow> write_frames to_vec fs
           | Response resp \<Rightarrow>
               (case send_json to_vec (unsendable_reply e resp) of
                  Inr bytes \<Rightarrow> bytes @ write_frames to_vec fs
                | Inl _ \<Rightarrow> [])))"

section \<open>Lemmas\<close>

lemma length_to_be_bytes [simp]: "length (to_be_bytes w) = 4"
  by (simp add: to_be_bytes_def)

lemma split_four_bytes:
  fixes n :: nat
  assumes "n < 2 ^ 32"
  shows "(((n div 2 ^ 24 mod 256) * 256 + n div 2 ^ 16 mod 256) * 256 + n div 2 ^ 8 mod 256) * 256 + n mod 256 = n"
proof -
  define a where "a = n div 2 ^ 8"
  define b where "b = a div 2 ^ 8"
  have n: "n = a * 256 + n mod 256" by (simp add: a_def)
  have a: "a = b * 256 + a mod 256" by (simp add: b_def)
  have b: "b = (b div 256) * 256 + b mod 256" by simp
  have "n div 2 ^ 16 = b" "n div 2 ^ 24 = b div 256" "n div 2 ^ 8 = a"
    by (simp_all add: a_def b_def div_mult2_eq [symmetric])
  moreover have "b div 256 < 256"
    using assms by (simp add: a_def b_def div_mult2_eq [symmetric] less_mult_imp_div_less)
  ultimately show ?thesis
    using n a b by simp
qed

lemma unat_drop_bit: "unat (drop_bit k (w :: u32)) = unat w div 2 ^ k"
  unfolding unat_drop_bit_eq by (rule drop_bit_eq_div)

lemma from_to_be_bytes [simp]: "from_be_bytes (to_be_bytes w) = w"
proof -
  have b: "byte (char_of (k mod 256) :: char) = k mod 256" for k :: nat
    by (simp add: byte_def)
  have "from_be_bytes (to_be_bytes w) = of_nat ((((unat w div 2 ^ 24 mod 256) * 256
      + unat w div 2 ^ 16 mod 256) * 256 + unat w div 2 ^ 8 mod 256) * 256 + unat w mod 256)"
    by (simp only: from_be_bytes.simps to_be_bytes_def list.map foldl.simps b unat_drop_bit of_nat_add of_nat_mult
        of_nat_numeral mult_zero_left add_0 power_0 div_by_1)
  also have "\<dots> = of_nat (unat w)"
    using unsigned_less [of w, where 'a = nat] by (subst split_four_bytes) simp_all
  finally show ?thesis by simp
qed

lemma be_bytes_of_four:
  assumes "length bs = 4"
  shows "to_be_bytes (from_be_bytes bs) = bs"
proof -
  obtain a b c d where bs: "bs = [a, b, c, d]"
    using assms by (auto simp: length_Suc_conv eval_nat_numeral)
  define x where "x = byte a * 256 + byte b"
  define y where "y = x * 256 + byte c"
  define n where "n = y * 256 + byte d"
  have bd: "byte a < 256" "byte b < 256" "byte c < 256" "byte d < 256"
    by (simp_all add: byte_bound)
  have n32: "n < 2 ^ 32"
    using bd unfolding n_def y_def x_def by simp
  have w: "from_be_bytes bs = of_nat n"
    by (simp add: bs n_def y_def x_def)
  have u: "unat (of_nat n :: u32) = n"
    using n32 by (simp add: unat_of_nat)
  have dd: "unat (drop_bit k (of_nat n :: u32)) = n div 2 ^ k" for k
    by (simp only: unat_drop_bit u)
  have n8: "n div 256 = y" "n mod 256 = byte d" and y8: "y div 256 = x" "y mod 256 = byte c"
    and x8: "x div 256 = byte a" "x mod 256 = byte b"
    using bd by (simp_all only: n_def y_def x_def div_mult_self3 mod_mult_self3 div_less mod_less)
  have "n div 2 ^ 8 = y" "n div 2 ^ 16 = x" "n div 2 ^ 24 = byte a"
    using n8 y8 x8 by (simp_all add: div_mult2_eq [of n 256 256, simplified] div_mult2_eq [of n 65536 256, simplified])
  then have "to_be_bytes (of_nat n) = map (\<lambda>k. char_of (k :: nat)) [byte a, byte b, byte c, byte d]"
    using n8 y8 x8 bd by (simp only: to_be_bytes_def list.map dd power_0 div_by_1 mod_less)
  then show ?thesis
    unfolding w by (simp add: bs byte_def)
qed

definition frame_bytes :: "str \<Rightarrow> str" where
  "frame_bytes p = to_be_bytes (of_nat (length p)) @ p"

text \<open>A payload the reader takes: not empty, within the limit, its length a \<open>u32\<close>.\<close>

definition payload_ok :: "nat \<Rightarrow> str \<Rightarrow> bool" where
  "payload_ok mx p \<longleftrightarrow> p \<noteq> [] \<and> length p \<le> mx \<and> length p < 2 ^ 32"

lemma write_frame_Inr:
  "write_frame p = Inr bs \<longleftrightarrow> length p \<le> max_frame_bytes \<and> bs = frame_bytes p"
  by (auto simp: write_frame_def frame_bytes_def)

lemma payload_ok_max: "payload_ok max_frame_bytes p \<longleftrightarrow> p \<noteq> [] \<and> length p \<le> max_frame_bytes"
  by (auto simp: payload_ok_def max_frame_bytes_def)

lemma read_frame_bytes:
  assumes "payload_ok mx p"
  shows "read_frame mx (frame_bytes p @ rest) = (Inr (Some p), rest)"
proof -
  have "unat (of_nat (length p) :: u32) = length p"
    using assms by (simp add: payload_ok_def unat_of_nat)
  then show ?thesis
    using assms by (simp add: read_frame_def read_exact_def frame_bytes_def payload_ok_def Let_def del: from_be_bytes.simps)
qed

lemma read_frame_Some:
  assumes "read_frame mx s = (Inr (Some p), rest)"
  shows "s = frame_bytes p @ rest \<and> payload_ok mx p"
proof -
  define n where "n = unat (from_be_bytes (take 4 s))"
  have s: "4 \<le> length s" "n \<le> mx" "n \<noteq> 0" "n \<le> length (drop 4 s)" "p = take n (drop 4 s)"
      "rest = drop n (drop 4 s)"
    using assms by (auto simp: read_frame_def read_exact_def Let_def n_def simp del: from_be_bytes.simps split: if_splits)
  have len: "length p = n" using s by simp
  have "to_be_bytes (of_nat (length p)) = take 4 s"
    using be_bytes_of_four [of "take 4 s"] s(1) by (simp add: len n_def del: from_be_bytes.simps)
  then have "s = frame_bytes p @ rest"
    using s by (metis append_assoc append_take_drop_id frame_bytes_def)
  moreover have "n < 2 ^ 32"
    using unsigned_less [of "from_be_bytes (take 4 s)", where 'a = nat] by (simp add: n_def del: from_be_bytes.simps)
  ultimately show ?thesis
    using s len by (auto simp: payload_ok_def)
qed

lemma frame_bytes_nonempty [simp]: "frame_bytes p \<noteq> []"
proof
  assume "frame_bytes p = []"
  then have "length (frame_bytes p) = 0" by simp
  then show False by (simp add: frame_bytes_def)
qed

lemma serve_end: "serve_connection from_slice mx [] = ([], PeerClosed)"
  by (simp add: serve_connection.simps)

lemma serve_step:
  assumes "payload_ok mx p"
  shows "serve_connection from_slice mx (frame_bytes p @ rest) =
    (case from_slice p of
       Inr f \<Rightarrow> (serve_frame f # fst (serve_connection from_slice mx rest), snd (serve_connection from_slice mx rest))
     | Inl _ \<Rightarrow> serve_connection from_slice mx rest)"
  by (subst serve_connection.simps)
    (simp add: recv_json_def read_frame_bytes [OF assms] split: sum.split prod.split)

lemma serve_stream:
  assumes "list_all (payload_ok mx) ps"
  shows "serve_connection from_slice mx (concat (map frame_bytes ps) @ rest) =
    (map serve_frame (concat (map (\<lambda>p. case from_slice p of Inr f \<Rightarrow> [f] | Inl _ \<Rightarrow> []) ps))
        @ fst (serve_connection from_slice mx rest),
     snd (serve_connection from_slice mx rest))"
  using assms by (induction ps) (simp_all add: serve_step split: sum.split)

section \<open>Properties\<close>

text \<open>
  C37: framing is exact. Reading returns a payload exactly when the stream starts with that
  payload's encoding, and leaves exactly the bytes behind it; what \<open>write_frame\<close> accepts and
  is not empty is always read back; a prefix beyond the limit is refused before any byte of the
  body is consumed.
\<close>

theorem framing_is_exact:
  "(read_frame mx s = (Inr (Some p), rest) \<longleftrightarrow> s = frame_bytes p @ rest \<and> payload_ok mx p)
   \<and> (case write_frame p of
        Inr bs \<Rightarrow> read_frame max_frame_bytes (bs @ rest)
                    = (if p = [] then Inl (Malformed ''zero-length frame'') else Inr (Some p), rest)
      | Inl e \<Rightarrow> e = FrameTooLarge (length p) max_frame_bytes \<and> max_frame_bytes < length p)
   \<and> (mx < unat w \<longrightarrow> read_frame mx (to_be_bytes w @ rest) = (Inl (FrameTooLarge (unat w) mx), rest))"
proof (intro conjI)
  show "read_frame mx s = (Inr (Some p), rest) \<longleftrightarrow> s = frame_bytes p @ rest \<and> payload_ok mx p"
    using read_frame_Some read_frame_bytes by blast
  show "case write_frame p of
        Inr bs \<Rightarrow> read_frame max_frame_bytes (bs @ rest)
                    = (if p = [] then Inl (Malformed ''zero-length frame'') else Inr (Some p), rest)
      | Inl e \<Rightarrow> e = FrameTooLarge (length p) max_frame_bytes \<and> max_frame_bytes < length p"
  proof (cases "length p \<le> max_frame_bytes")
    case True
    have z: "read_frame mx (frame_bytes [] @ rest) = (Inl (Malformed ''zero-length frame''), rest)" for mx
      by (simp add: read_frame_def read_exact_def frame_bytes_def Let_def del: from_be_bytes.simps)
    have "write_frame p = Inr (frame_bytes p)"
      using True by (simp add: write_frame_Inr)
    then show ?thesis
      using True z read_frame_bytes [of max_frame_bytes p rest] by (auto simp: payload_ok_max)
  qed (simp add: write_frame_def)
  show "mx < unat w \<longrightarrow> read_frame mx (to_be_bytes w @ rest) = (Inl (FrameTooLarge (unat w) mx), rest)"
    by (simp add: read_frame_def read_exact_def Let_def del: from_be_bytes.simps)
qed

lemma framing_is_exact_witness:
  "read_frame 5 (to_be_bytes 6 @ ''abcdef'') = (Inl (FrameTooLarge 6 5), ''abcdef'')"
  using framing_is_exact [of 5 "[]" "[]" "''abcdef''" 6] by simp

text \<open>
  The server stays in step with its peer. For any sequence of payloads a peer frames, the
  read loop serves, in order, exactly those that parse, answering those of another protocol
  version under their own id; a payload that does not parse is skipped without losing the next
  one, and the loop ends with the peer's close or a read error, never by itself.
\<close>

theorem server_stays_in_step:
  assumes "list_all (payload_ok mx) ps"
  shows "serve_connection from_slice mx (concat (map frame_bytes ps)) =
    (concat (map (\<lambda>p. case from_slice p of
        Inl _ \<Rightarrow> []
      | Inr f \<Rightarrow> [if client_version f = protocol_version then Handled f
                   else Answered \<lparr>rs_v = protocol_version, rs_id = client_id f,
                          rs_body = RespErr (version_error (client_version f))\<rparr>]) ps), PeerClosed)"
proof -
  have "map serve_frame (concat (map (\<lambda>p. case from_slice p of Inr f \<Rightarrow> [f] | Inl _ \<Rightarrow> []) ps))
    = concat (map (\<lambda>p. case from_slice p of Inl _ \<Rightarrow> []
        | Inr f \<Rightarrow> [if client_version f = protocol_version then Handled f
                   else Answered \<lparr>rs_v = protocol_version, rs_id = client_id f,
                          rs_body = RespErr (version_error (client_version f))\<rparr>]) ps)"
    by (induction ps) (auto simp: serve_frame_def response_err_def split: sum.split)
  then show ?thesis
    using serve_stream [OF assms, of from_slice "[]"] by (simp add: serve_end)
qed

lemma server_stays_in_step_witness:
  "serve_connection (\<lambda>p. if p = ''ping'' then Inr (Control \<lparr>cf_v = 1, cf_id = 7, cf_kind = Ping\<rparr>) else Inl ''bad'') 9
     (frame_bytes ''oops'' @ frame_bytes ''ping'')
   = ([Handled (Control \<lparr>cf_v = 1, cf_id = 7, cf_kind = Ping\<rparr>) :: unit served], PeerClosed)"
proof -
  have ok: "list_all (payload_ok 9) [''oops'', ''ping'']"
    by (simp add: payload_ok_def)
  show ?thesis
    using server_stays_in_step [OF ok,
        of "\<lambda>p. if p = ''ping'' then Inr (Control \<lparr>cf_v = 1, cf_id = 7, cf_kind = Ping\<rparr> :: unit client_frame) else Inl ''bad''"]
    by (simp add: protocol_version_def)
qed

text \<open>The frame that stands for a queued one on the wire, if any.\<close>

definition sent_frame :: "('j server_frame \<Rightarrow> str + str) \<Rightarrow> 'j server_frame \<Rightarrow> 'j server_frame list" where
  "sent_frame to_vec f =
     (case send_json to_vec f of
        Inr _ \<Rightarrow> [f]
      | Inl e \<Rightarrow> (case f of Event _ \<Rightarrow> [] | Response resp \<Rightarrow> [unsendable_reply e resp]))"

fun reply_ids :: "'j server_frame list \<Rightarrow> uuid list" where
  "reply_ids [] = []"
| "reply_ids (Response r # fs) = rs_id r # reply_ids fs"
| "reply_ids (Event _ # fs) = reply_ids fs"

lemma reply_ids_append: "reply_ids (fs @ gs) = reply_ids fs @ reply_ids gs"
  by (induction fs rule: reply_ids.induct) auto

text \<open>
  No request is left without an answer. Provided an error reply can always be sent, the
  writer puts on the wire one frame for every reply in the queue, under the reply's own id and in
  order, an error in place of a reply too large to send, and an unsendable frame never stops the
  frames behind it.
\<close>

theorem every_reply_is_sent:
  assumes small: "\<And>e r. \<exists>bytes. send_json to_vec (unsendable_reply e r) = Inr bytes"
  shows "write_frames to_vec fs
      = concat (map (\<lambda>f. case send_json to_vec f of Inr b \<Rightarrow> b | Inl _ \<Rightarrow> [])
          (concat (map (sent_frame to_vec) fs)))
    \<and> reply_ids (concat (map (sent_frame to_vec) fs)) = reply_ids fs"
proof (induction fs)
  case (Cons f fs)
  show ?case
  proof (cases "send_json to_vec f")
    case (Inr b)
    with Cons show ?thesis by (cases f) (simp_all add: sent_frame_def)
  next
    case (Inl e)
    show ?thesis
    proof (cases f)
      case (Response r)
      obtain b where "send_json to_vec (unsendable_reply e r) = Inr b"
        using small by blast
      with Cons Inl Response show ?thesis
        by (simp add: sent_frame_def) (simp add: unsendable_reply_def response_err_def)
    qed (use Cons Inl in \<open>simp add: sent_frame_def\<close>)
  qed
qed simp

lemma every_reply_is_sent_witness:
  "reply_ids (concat (map (sent_frame (\<lambda>f. case f of
        Response r \<Rightarrow> (case rs_body r of RespOk _ \<Rightarrow> Inl ''too deep'' | _ \<Rightarrow> Inr ''{}'')
      | Event _ \<Rightarrow> Inr ''{}''))
      [Response (response_ok 4 ()), Response (response_task 5 9)])) = [4, 5]"
  by (subst every_reply_is_sent [THEN conjunct2])
    (simp_all add: send_json_def unsendable_reply_def response_err_def write_frame_Inr
      max_frame_bytes_def response_ok_def response_task_def)

end
