(* ===== verification/Tasks.thy ===== *)
theory Tasks
  imports Frames
begin

text \<open>
  The task engine: the storage of \<open>unihelm-db/src/tasks.rs\<close> and the execution of
  \<open>unihelm-agentd/src/tasks.rs\<close>. The state is the \<open>tasks\<close> table with its rows in
  \<open>rowid\<close> order and the \<open>task_logs\<close> table. Each statement is its SQL text's meaning on
  those lists. The lemmas show the life cycle (a task claims once, ends once, and stays ended), the
  invariant tying the columns to the status, dense log numbering and the truncation of log lines.
\<close>

record task_log_row =
  tl_task_id :: str
  tl_seq :: int
  tl_at :: str
  tl_line :: str

record tasks_db =
  tk_rows :: "task_row list"
  tk_logs :: "task_log_row list"

record 'j new_task =
  nt_id :: task_id
  nt_op :: str
  nt_input :: 'j
  nt_actor_user_id :: "user_id option"
  nt_subscription_id :: "subscription_id option"
  nt_cancellable :: bool
  nt_idempotent :: bool
  nt_request_id :: "str option"

definition sql_bool :: "bool \<Rightarrow> int" where
  "sql_bool b = (if b then 1 else 0)"

section \<open>Statements\<close>

definition new_task_row :: "'j codec \<Rightarrow> int \<Rightarrow> 'j new_task \<Rightarrow> task_row" where
  "new_task_row c now new =
     \<lparr>tr_id = enc_uuid c (nt_id new), tr_op = nt_op new, tr_input_json = enc_json c (nt_input new),
      tr_actor_user_id = nt_actor_user_id new, tr_subscription_id = nt_subscription_id new,
      tr_status = ''queued'', tr_progress = 0, tr_error_code = None, tr_error_detail = None,
      tr_cancellable = sql_bool (nt_cancellable new), tr_idempotent = sql_bool (nt_idempotent new),
      tr_request_id = nt_request_id new, tr_created_at = to_sql_time c now, tr_started_at = None,
      tr_finished_at = None\<rparr>"

text \<open>\<open>users\<close> is the set of account ids the foreign key of \<open>actor_user_id\<close> refers to.\<close>

definition create_task ::
  "'j codec \<Rightarrow> int set \<Rightarrow> int \<Rightarrow> 'j new_task \<Rightarrow> tasks_db \<Rightarrow> tasks_db \<times> 'j task db_res" where
  "create_task c users now new db =
     (let row = new_task_row c now new in
      if list_ex (\<lambda>r. tr_id r = tr_id row) (tk_rows db) then
        (db, Inl (Sqlx ''UNIQUE constraint failed: tasks.id''))
      else if (case nt_actor_user_id new of None \<Rightarrow> False | Some u \<Rightarrow> u \<notin> users) then
        (db, Inl (Sqlx ''FOREIGN KEY constraint failed''))
      else (db\<lparr>tk_rows := tk_rows db @ [row]\<rparr>, task_of_row c row))"

definition update_tasks :: "(task_row \<Rightarrow> bool) \<Rightarrow> (task_row \<Rightarrow> task_row) \<Rightarrow> tasks_db \<Rightarrow> tasks_db" where
  "update_tasks P g db = db\<lparr>tk_rows := fst (sql_update P g (tk_rows db))\<rparr>"

definition affected :: "(task_row \<Rightarrow> bool) \<Rightarrow> tasks_db \<Rightarrow> nat" where
  "affected P db = length (filter P (tk_rows db))"

definition is_active :: "task_row \<Rightarrow> bool" where
  "is_active r \<longleftrightarrow> tr_status r = ''queued'' \<or> tr_status r = ''running''"

definition start_task :: "'j codec \<Rightarrow> int \<Rightarrow> task_id \<Rightarrow> tasks_db \<Rightarrow> tasks_db \<times> unit db_res" where
  "start_task c now i db =
     (let P = (\<lambda>r. tr_id r = enc_uuid c i \<and> tr_status r = ''queued'') in
      (update_tasks P (\<lambda>r. r\<lparr>tr_status := ''running'', tr_started_at := Some (to_sql_time c now)\<rparr>) db,
       if affected P db = 0 then
         Inl (DomainErr (new_error Conflict ''task is not queued and cannot be started''))
       else Inr ()))"

definition set_task_progress :: "'j codec \<Rightarrow> task_id \<Rightarrow> u8 \<Rightarrow> tasks_db \<Rightarrow> tasks_db" where
  "set_task_progress c i p db =
     update_tasks (\<lambda>r. tr_id r = enc_uuid c i \<and> tr_status r = ''running'')
       (\<lambda>r. r\<lparr>tr_progress := int (min (unat p) 100)\<rparr>) db"

definition finish_task_ok :: "'j codec \<Rightarrow> int \<Rightarrow> task_id \<Rightarrow> tasks_db \<Rightarrow> tasks_db" where
  "finish_task_ok c now i db =
     update_tasks (\<lambda>r. tr_id r = enc_uuid c i \<and> is_active r)
       (\<lambda>r. r\<lparr>tr_status := ''ok'', tr_progress := 100, tr_finished_at := Some (to_sql_time c now)\<rparr>) db"

definition finish_task_failed :: "'j codec \<Rightarrow> int \<Rightarrow> task_id \<Rightarrow> uni_error \<Rightarrow> tasks_db \<Rightarrow> tasks_db" where
  "finish_task_failed c now i e db =
     update_tasks (\<lambda>r. tr_id r = enc_uuid c i \<and> is_active r)
       (\<lambda>r. r\<lparr>tr_status := ''failed'', tr_error_code := Some (code (err_code e)),
              tr_error_detail := Some (detail e), tr_finished_at := Some (to_sql_time c now)\<rparr>) db"

definition cancel_task :: "'j codec \<Rightarrow> int \<Rightarrow> task_id \<Rightarrow> tasks_db \<Rightarrow> tasks_db \<times> unit db_res" where
  "cancel_task c now i db =
     (let P = (\<lambda>r. tr_id r = enc_uuid c i \<and> tr_cancellable r = 1 \<and> is_active r) in
      (update_tasks P (\<lambda>r. r\<lparr>tr_status := ''cancelled'', tr_finished_at := Some (to_sql_time c now)\<rparr>) db,
       if affected P db = 0 then
         Inl (DomainErr (new_error TaskNotCancellable ''this task cannot be cancelled''))
       else Inr ()))"

definition max_line :: nat where
  "max_line = 8 * 1024"

definition is_char_boundary :: "str \<Rightarrow> nat \<Rightarrow> bool" where
  "is_char_boundary s i \<longleftrightarrow> i = 0 \<or> i = length s \<or> (i < length s \<and> \<not> is_continuation (s ! i))"

fun cut_at :: "str \<Rightarrow> nat \<Rightarrow> nat" where
  "cut_at s 0 = 0"
| "cut_at s (Suc n) = (if is_char_boundary s (Suc n) then Suc n else cut_at s n)"

definition truncate_line :: "nat \<Rightarrow> str \<Rightarrow> str" where
  "truncate_line mx line = take (cut_at line (min mx (length line))) line"

definition next_seq :: "str \<Rightarrow> task_log_row list \<Rightarrow> int" where
  "next_seq i logs = foldl max 0 (map tl_seq (filter (\<lambda>l. tl_task_id l = i) logs)) + 1"

definition append_task_log ::
  "'j codec \<Rightarrow> int \<Rightarrow> task_id \<Rightarrow> str \<Rightarrow> tasks_db \<Rightarrow> tasks_db \<times> int db_res" where
  "append_task_log c now i line db =
     (let k = enc_uuid c i; q = next_seq k (tk_logs db) in
      if \<not> list_ex (\<lambda>r. tr_id r = k) (tk_rows db) then (db, Inl (Sqlx ''FOREIGN KEY constraint failed''))
      else (db\<lparr>tk_logs := tk_logs db @ [\<lparr>tl_task_id = k, tl_seq = q, tl_at = to_sql_time c now,
                 tl_line = truncate_line max_line line\<rparr>]\<rparr>, Inr q))"

definition reconcile_interrupted_tasks :: "'j codec \<Rightarrow> int \<Rightarrow> tasks_db \<Rightarrow> tasks_db \<times> (nat \<times> nat)" where
  "reconcile_interrupted_tasks c now db =
     (update_tasks is_active
        (\<lambda>r. r\<lparr>tr_status := ''failed'', tr_error_code := Some (code TaskFailed),
               tr_error_detail := Some ''the agent restarted before this task finished'',
               tr_finished_at := Some (to_sql_time c now)\<rparr>) db,
      (0, affected is_active db))"

text \<open>
  \<open>ON DELETE SET NULL\<close> of \<open>actor_user_id\<close>: what deleting the row of a user (\<open>delete_guarded\<close> of
  \<open>unihelm-ops/src/users.rs\<close>) does to this table, to active and to ended tasks.
\<close>

definition forget_actor :: "int \<Rightarrow> tasks_db \<Rightarrow> tasks_db" where
  "forget_actor u db =
     update_tasks (\<lambda>r. tr_actor_user_id r = Some u) (\<lambda>r. r\<lparr>tr_actor_user_id := None\<rparr>) db"

text \<open>\<open>ORDER BY created_at ASC, rowid ASC LIMIT 1\<close>: the sort is stable on the row order.\<close>

definition next_queued_task :: "'j codec \<Rightarrow> tasks_db \<Rightarrow> 'j task option db_res" where
  "next_queued_task c db =
     (case sort_key tr_created_at (filter (\<lambda>r. tr_status r = ''queued'') (tk_rows db)) of
        [] \<Rightarrow> Inr None
      | r # _ \<Rightarrow> r_bind (task_of_row c r) (\<lambda>t. Inr (Some t)))"

section \<open>The scoped repository\<close>

definition task_visible :: "scope_filter \<Rightarrow> task_row \<Rightarrow> bool" where
  "task_visible f r =
     (case f of
        FAll \<Rightarrow> True
      | FReseller u \<Rightarrow> tr_actor_user_id r = Some u
      | FCustomer u \<Rightarrow> tr_actor_user_id r = Some u
      | FSubscription s _ \<Rightarrow> tr_subscription_id r = Some s)"

definition fetch_task :: "scope_filter \<Rightarrow> task_row list \<Rightarrow> str \<Rightarrow> task_row option" where
  "fetch_task f rows k = find (\<lambda>r. tr_id r = k \<and> task_visible f r) rows"

definition task_by_id :: "'j codec \<Rightarrow> scope_filter \<Rightarrow> tasks_db \<Rightarrow> task_id \<Rightarrow> 'j task option db_res" where
  "task_by_id c f db i =
     (case fetch_task f (tk_rows db) (enc_uuid c i) of
        None \<Rightarrow> Inr None
      | Some r \<Rightarrow> r_bind (task_of_row c r) (\<lambda>t. Inr (Some t)))"

record task_filter =
  tf_op :: "str option"
  tf_status :: "task_status option"
  tf_since :: "int option"
  tf_until :: "int option"

definition filter_matches :: "'j codec \<Rightarrow> task_filter \<Rightarrow> task_row \<Rightarrow> bool" where
  "filter_matches c q r \<longleftrightarrow>
     (case tf_op q of None \<Rightarrow> True | Some v \<Rightarrow> tr_op r = v)
     \<and> (case tf_status q of None \<Rightarrow> True | Some st \<Rightarrow> tr_status r = task_status_as_str st)
     \<and> (case tf_since q of None \<Rightarrow> True | Some t \<Rightarrow> to_sql_time c t \<le> tr_created_at r)
     \<and> (case tf_until q of None \<Rightarrow> True | Some t \<Rightarrow> tr_created_at r \<le> to_sql_time c t)"

text \<open>\<open>ORDER BY created_at DESC, rowid DESC LIMIT ... OFFSET ...\<close>.\<close>

definition page_desc :: "int \<Rightarrow> int \<Rightarrow> task_row list \<Rightarrow> task_row list" where
  "page_desc lim off rows =
     take (nat (max 1 (min lim 200))) (drop (nat off) (rev (sort_key tr_created_at rows)))"

definition list_tasks :: "'j codec \<Rightarrow> scope_filter \<Rightarrow> tasks_db \<Rightarrow> int \<Rightarrow> int \<Rightarrow> 'j task list db_res" where
  "list_tasks c f db lim off =
     collect_results (map (task_of_row c) (page_desc lim off (filter (task_visible f) (tk_rows db))))"

definition list_filtered ::
  "'j codec \<Rightarrow> scope_filter \<Rightarrow> task_filter \<Rightarrow> tasks_db \<Rightarrow> int \<Rightarrow> int \<Rightarrow> 'j task list db_res" where
  "list_filtered c f q db lim off =
     collect_results (map (task_of_row c)
       (page_desc lim (max off 0) (filter (\<lambda>r. task_visible f r \<and> filter_matches c q r) (tk_rows db))))"

definition distinct_ops :: "scope_filter \<Rightarrow> tasks_db \<Rightarrow> str list" where
  "distinct_ops f db = sort (remdups (map tr_op (filter (task_visible f) (tk_rows db))))"

definition task_logs_after ::
  "'j codec \<Rightarrow> scope_filter \<Rightarrow> tasks_db \<Rightarrow> task_id \<Rightarrow> int \<Rightarrow> int \<Rightarrow> (int \<times> int \<times> str) list db_res" where
  "task_logs_after c f db i after_seq lim =
     r_bind (task_by_id c f db i) (\<lambda>t.
       case t of
         None \<Rightarrow> Inl (DbNotFound ''task'')
       | Some _ \<Rightarrow>
           collect_results (map (\<lambda>l. r_bind (from_sql_time c (tl_at l)) (\<lambda>at. Inr (tl_seq l, at, tl_line l)))
             (take (nat (max 1 (min lim 5000)))
               (sort_key tl_seq (filter (\<lambda>l. tl_task_id l = enc_uuid c i \<and> after_seq < tl_seq l) (tk_logs db))))))"

definition count_active :: "scope_filter \<Rightarrow> tasks_db \<Rightarrow> nat" where
  "count_active f db = length (filter (\<lambda>r. is_active r \<and> task_visible f r) (tk_rows db))"

interpretation tasks: scoped_repo task_visible tr_id fetch_task
proof
  show "fetch_task f rows i = Some r \<Longrightarrow> r \<in> set rows \<and> tr_id r = i \<and> task_visible f r" for f rows i r
    by (auto simp: fetch_task_def find_Some_iff)
  show "r \<in> set rows \<Longrightarrow> task_visible f r \<Longrightarrow> fetch_task f rows (tr_id r) \<noteq> None" for f rows r
    by (auto simp: fetch_task_def find_None_iff)
  show "task_visible FAll r" for r
    by (simp add: task_visible_def)
qed

section \<open>The life cycle\<close>

text \<open>
  Every write the agent makes to the two tables, in any order and with any arguments; the last one is
  the database's own, when a user is deleted.
\<close>

inductive task_step :: "'j codec \<Rightarrow> int set \<Rightarrow> tasks_db \<Rightarrow> tasks_db \<Rightarrow> bool" for c users where
  step_create: "task_step c users db (fst (create_task c users now new db))"
| step_start: "task_step c users db (fst (start_task c now i db))"
| step_progress: "task_step c users db (set_task_progress c i p db)"
| step_ok: "task_step c users db (finish_task_ok c now i db)"
| step_failed: "task_step c users db (finish_task_failed c now i e db)"
| step_cancel: "task_step c users db (fst (cancel_task c now i db))"
| step_log: "task_step c users db (fst (append_task_log c now i line db))"
| step_reconcile: "task_step c users db (fst (reconcile_interrupted_tasks c now db))"
| step_forget: "task_step c users db (forget_actor u db)"

inductive_cases task_stepE: "task_step c users db db'"

definition row_ok :: "task_row \<Rightarrow> bool" where
  "row_ok r \<longleftrightarrow>
     tr_status r \<in> {''queued'', ''running'', ''ok'', ''failed'', ''cancelled''}
     \<and> 0 \<le> tr_progress r \<and> tr_progress r \<le> 100
     \<and> (tr_finished_at r = None \<longleftrightarrow> is_active r)
     \<and> (tr_error_code r = None \<longleftrightarrow> tr_status r \<noteq> ''failed'')
     \<and> (tr_error_detail r = None \<longleftrightarrow> tr_status r \<noteq> ''failed'')
     \<and> (tr_status r = ''running'' \<longrightarrow> tr_started_at r \<noteq> None)
     \<and> (tr_status r = ''queued'' \<longrightarrow> tr_started_at r = None \<and> tr_progress r = 0)
     \<and> (tr_status r = ''ok'' \<longrightarrow> tr_progress r = 100)
     \<and> (tr_status r = ''cancelled'' \<longrightarrow> tr_cancellable r = 1)"

text \<open>The log of a task is numbered 1, 2, 3, and so on, in the order it was written.\<close>

definition logs_dense :: "str \<Rightarrow> task_log_row list \<Rightarrow> bool" where
  "logs_dense k logs \<longleftrightarrow>
     map tl_seq (filter (\<lambda>l. tl_task_id l = k) logs)
       = map int [1..<Suc (length (filter (\<lambda>l. tl_task_id l = k) logs))]"

definition tasks_inv :: "tasks_db \<Rightarrow> bool" where
  "tasks_inv db \<longleftrightarrow>
     distinct (map tr_id (tk_rows db)) \<and> list_all row_ok (tk_rows db)
     \<and> (\<forall>k. logs_dense k (tk_logs db))
     \<and> list_all (\<lambda>l. length (tl_line l) \<le> max_line \<and> tl_task_id l \<in> tr_id ` set (tk_rows db)) (tk_logs db)"

lemma row_ok_new: "row_ok (new_task_row c now new)"
  by (simp add: row_ok_def new_task_row_def is_active_def)

lemma row_ok_step:
  assumes "row_ok r" "is_active r"
  shows "tr_status r = ''queued'' \<Longrightarrow> row_ok (r\<lparr>tr_status := ''running'', tr_started_at := Some t\<rparr>)"
    "tr_status r = ''running'' \<Longrightarrow> row_ok (r\<lparr>tr_progress := int (min p 100)\<rparr>)"
    "row_ok (r\<lparr>tr_status := ''ok'', tr_progress := 100, tr_finished_at := Some t\<rparr>)"
    "row_ok (r\<lparr>tr_status := ''failed'', tr_error_code := Some a, tr_error_detail := Some b, tr_finished_at := Some t\<rparr>)"
    "tr_cancellable r = 1 \<Longrightarrow> row_ok (r\<lparr>tr_status := ''cancelled'', tr_finished_at := Some t\<rparr>)"
  using assms by (auto simp: row_ok_def is_active_def)

lemma foldl_max_int: "foldl max (a :: int) (map int [Suc 0..<Suc n]) = max a (if n = 0 then a else int n)"
  by (induction n) auto

lemma next_seq_dense:
  assumes "logs_dense k logs"
  shows "next_seq k logs = int (Suc (length (filter (\<lambda>l. tl_task_id l = k) logs)))"
  using assms by (simp add: next_seq_def logs_dense_def foldl_max_int del: upt_Suc)

lemma logs_dense_append:
  assumes "logs_dense k logs" "tl_task_id l = k \<longrightarrow> tl_seq l = next_seq k logs"
  shows "logs_dense k (logs @ [l])"
  using assms next_seq_dense [OF assms(1)] by (auto simp: logs_dense_def)

lemma cut_at_le: "cut_at s n \<le> n"
  by (induction s n rule: cut_at.induct) auto

lemma truncate_line_length: "length (truncate_line mx line) \<le> mx"
  using cut_at_le [of line "min mx (length line)"] by (simp add: truncate_line_def)

lemma tasks_inv_update:
  assumes inv: "tasks_inv db" and id: "\<And>r. tr_id (g r) = tr_id r"
    and ok: "\<And>r. row_ok r \<Longrightarrow> P r \<Longrightarrow> row_ok (g r)"
  shows "tasks_inv (update_tasks P g db)"
proof -
  have ids: "map tr_id (tk_rows (update_tasks P g db)) = map tr_id (tk_rows db)"
    by (simp add: update_tasks_def sql_update_map id)
  then have "tr_id ` set (tk_rows (update_tasks P g db)) = tr_id ` set (tk_rows db)"
    by (metis list.set_map)
  moreover have "list_all row_ok (tk_rows (update_tasks P g db))"
    using inv ok by (auto simp: tasks_inv_def update_tasks_def sql_update_def list_all_iff)
  ultimately show ?thesis
    using inv ids by (simp add: tasks_inv_def update_tasks_def)
qed

lemma tasks_inv_create: "tasks_inv db \<Longrightarrow> tasks_inv (fst (create_task c users now new db))"
  using row_ok_new [of c now new]
  by (auto simp: tasks_inv_def create_task_def Let_def list_ex_iff list_all_iff)

lemma tasks_inv_log:
  assumes "tasks_inv db"
  shows "tasks_inv (fst (append_task_log c now i line db))"
  using assms truncate_line_length [of max_line line]
  by (auto simp: tasks_inv_def append_task_log_def Let_def list_ex_iff intro!: logs_dense_append
      intro: rev_image_eqI)

lemma tasks_inv_step:
  assumes "task_step c users db db'" "tasks_inv db"
  shows "tasks_inv db'"
  using assms
proof (induction rule: task_step.induct)
  case (step_create now new)
  then show ?case by (rule tasks_inv_create)
next
  case (step_start db now i)
  then show ?case
    unfolding start_task_def Let_def fst_conv
    by (rule tasks_inv_update) (auto intro: row_ok_step simp: is_active_def)
next
  case (step_progress db i p)
  then show ?case
    unfolding set_task_progress_def
    by (rule tasks_inv_update) (auto intro: row_ok_step simp: is_active_def)
next
  case (step_ok db now i)
  then show ?case
    unfolding finish_task_ok_def by (rule tasks_inv_update) (auto intro: row_ok_step)
next
  case (step_failed db now i e)
  then show ?case
    unfolding finish_task_failed_def by (rule tasks_inv_update) (auto intro: row_ok_step)
next
  case (step_cancel db now i)
  then show ?case
    unfolding cancel_task_def Let_def fst_conv by (rule tasks_inv_update) (auto intro: row_ok_step)
next
  case (step_log db now i line)
  then show ?case by (intro tasks_inv_log)
next
  case (step_reconcile db now)
  then show ?case
    unfolding reconcile_interrupted_tasks_def fst_conv by (rule tasks_inv_update) (auto intro: row_ok_step)
next
  case (step_forget db u)
  then show ?case
    unfolding forget_actor_def by (rule tasks_inv_update) (auto simp: row_ok_def is_active_def)
qed

lemma update_keeps_inactive:
  "r \<in> set (tk_rows db) \<Longrightarrow> \<not> P r \<Longrightarrow> r \<in> set (tk_rows (update_tasks P g db))"
  by (simp add: update_tasks_def sql_update_keeps)

text \<open>What may still become of the row of an ended task: that its actor is forgotten.\<close>

definition ended_as :: "task_row \<Rightarrow> task_row \<Rightarrow> bool" where
  "ended_as r q \<longleftrightarrow> q = r \<or> q = r\<lparr>tr_actor_user_id := None\<rparr>"

lemma update_keeps_ended: "r \<in> set (tk_rows db) \<Longrightarrow> \<not> P r \<Longrightarrow> \<exists>q \<in> set (tk_rows (update_tasks P g db)). ended_as r q"
  using update_keeps_inactive by (auto simp: ended_as_def)

lemma step_keeps_ended:
  assumes "task_step c users db db'" "r \<in> set (tk_rows db)" "\<not> is_active r"
  shows "\<exists>q \<in> set (tk_rows db'). ended_as r q"
  using assms
proof (induction rule: task_step.induct)
  case (step_create db now new)
  then show ?case by (auto simp: create_task_def Let_def ended_as_def)
next
  case (step_log db now i line)
  then show ?case by (auto simp: append_task_log_def Let_def ended_as_def)
next
  case (step_forget db u)
  let ?g = "\<lambda>r. if tr_actor_user_id r = Some u then r\<lparr>tr_actor_user_id := None\<rparr> else r"
  have "tk_rows (forget_actor u db) = map ?g (tk_rows db)" by (simp add: forget_actor_def update_tasks_def sql_update_def)
  then have "?g r \<in> set (tk_rows (forget_actor u db))" using step_forget.prems(1) by simp
  moreover have "ended_as r (?g r)" by (simp add: ended_as_def)
  ultimately show ?case by blast
qed (auto simp: start_task_def set_task_progress_def finish_task_ok_def finish_task_failed_def
      cancel_task_def reconcile_interrupted_tasks_def Let_def is_active_def intro!: update_keeps_ended)

interpretation life: status_machine "task_step c users" "\<lambda>db. set (tk_rows db)" tr_id "\<lambda>r. \<not> is_active r" ended_as tasks_inv
proof
  show "task_step c users db db' \<Longrightarrow> r \<in> set (tk_rows db) \<Longrightarrow> \<not> is_active r \<Longrightarrow> \<exists>q \<in> set (tk_rows db'). ended_as r q" for db db' r
    by (rule step_keeps_ended)
  show "ended_as r q \<Longrightarrow> \<not> is_active r \<Longrightarrow> \<not> is_active q" for r q by (auto simp: ended_as_def is_active_def)
  show "ended_as r q \<Longrightarrow> tr_id q = tr_id r" for r q by (auto simp: ended_as_def)
  show "ended_as r r" for r by (simp add: ended_as_def)
  show "ended_as r q \<Longrightarrow> ended_as q p \<Longrightarrow> ended_as r p" for r q p by (auto simp: ended_as_def)
  show "task_step c users db db' \<Longrightarrow> tasks_inv db \<Longrightarrow> tasks_inv db'" for db db'
    by (rule tasks_inv_step)
  show "tasks_inv db \<Longrightarrow> r \<in> set (tk_rows db) \<Longrightarrow> q \<in> set (tk_rows db) \<Longrightarrow> tr_id r = tr_id q \<Longrightarrow> r = q" for db r q
    by (auto simp: tasks_inv_def distinct_map inj_on_def)
qed

section \<open>Running a task\<close>

text \<open>\<open>mail.mta.install\<close>: the migration queued when the agent starts.\<close>

datatype config_state = Unwritten | Ours | Edited

fun is_ours :: "config_state \<Rightarrow> bool" where
  "is_ours Ours = True"
| "is_ours Edited = True"
| "is_ours Unwritten = False"

definition blocking :: "task_status list" where
  "blocking = [Queued, Running, TFailed]"

definition mta_migration_due :: "bool \<Rightarrow> config_state \<Rightarrow> task_status list \<Rightarrow> bool" where
  "mta_migration_due relay_live mta previous =
     (if \<not> relay_live then False
      else if is_ours mta then False
      else \<not> list_ex (\<lambda>s. s \<in> set blocking) previous)"

definition mta_install :: str where
  "mta_install = ''mail.mta.install''"

fun previous_states :: "'j codec \<Rightarrow> tasks_db \<Rightarrow> task_status list \<Rightarrow> task_status list db_res" where
  "previous_states c db [] = Inr []"
| "previous_states c db (st # sts) =
     r_bind (list_filtered c FAll \<lparr>tf_op = Some mta_install, tf_status = Some st, tf_since = None, tf_until = None\<rparr> db 1 0)
       (\<lambda>ts. r_bind (previous_states c db sts) (\<lambda>rest. Inr (if ts \<noteq> [] then st # rest else rest)))"

definition previous_mta_installs :: "'j codec \<Rightarrow> tasks_db \<Rightarrow> task_status list db_res" where
  "previous_mta_installs c db = previous_states c db blocking"

text \<open>\<open>relay\<close> is what reading the mail relay gave; \<open>input\<close> is \<open>{"adopt": false}\<close>.\<close>

definition queue_mta_migration ::
  "'j codec \<Rightarrow> 'j \<Rightarrow> bool db_res \<Rightarrow> config_state \<Rightarrow> int \<Rightarrow> task_id \<Rightarrow> tasks_db \<Rightarrow> tasks_db \<times> 'j task option" where
  "queue_mta_migration c input relay mta now i db =
     (case relay of
        Inl _ \<Rightarrow> (db, None)
      | Inr relay_live \<Rightarrow>
          (case previous_mta_installs c db of
             Inl _ \<Rightarrow> (db, None)
           | Inr previous \<Rightarrow>
               if \<not> mta_migration_due relay_live mta previous then (db, None)
               else
                 (case create_task c {} now
                    \<lparr>nt_id = i, nt_op = mta_install, nt_input = input, nt_actor_user_id = None,
                     nt_subscription_id = None, nt_cancellable = False, nt_idempotent = True,
                     nt_request_id = Some ''agent-start-mail-mta-migration''\<rparr> db of
                    (db', Inr t) \<Rightarrow> (db', Some t)
                  | (db', Inl _) \<Rightarrow> (db', None))))"

text \<open>
  \<open>spawn_task\<close>: the state is the database and the events published so far. \<open>outcome\<close> is what
  dispatching the operation gave, \<open>lines\<close> what it logged, and \<open>env\<close> the writes other
  requests make to the tables before the outcome is recorded.
\<close>

fun pump :: "'j codec \<Rightarrow> int \<Rightarrow> task_id \<Rightarrow> str list \<Rightarrow> tasks_db \<times> event_kind list \<Rightarrow> tasks_db \<times> event_kind list" where
  "pump c now i [] w = w"
| "pump c now i (line # lines) (db, bus) =
     (case append_task_log c now i line db of
        (db', Inr q) \<Rightarrow> pump c now i lines (db', bus @ [TaskLog i q line])
      | (db', Inl _) \<Rightarrow> pump c now i lines (db', bus))"

definition publish_state :: "task_id \<Rightarrow> str \<Rightarrow> str option \<Rightarrow> event_kind" where
  "publish_state i status d = TaskState i status None d"

definition record_failure :: "'j codec \<Rightarrow> int \<Rightarrow> task_id \<Rightarrow> uni_error \<Rightarrow> tasks_db \<Rightarrow> tasks_db" where
  "record_failure c now i e db =
     finish_task_failed c now i e
       (fst (append_task_log c now i (''task failed: ['' @ code (err_code e) @ ''] '' @ detail e) db))"

definition spawn_task ::
  "'j codec \<Rightarrow> int \<Rightarrow> task_id \<Rightarrow> str list \<Rightarrow> 'j res \<Rightarrow> (tasks_db \<Rightarrow> tasks_db)
     \<Rightarrow> tasks_db \<times> event_kind list \<Rightarrow> tasks_db \<times> event_kind list" where
  "spawn_task c now i lines outcome env w =
     (case start_task c now i (fst w) of
        (db1, Inl _) \<Rightarrow> (db1, snd w)
      | (db1, Inr _) \<Rightarrow>
          (case pump c now i lines (db1, snd w @ [publish_state i ''running'' None]) of
             (db2, bus2) \<Rightarrow>
               (case outcome of
                  Inr _ \<Rightarrow> (finish_task_ok c now i (env db2), bus2 @ [publish_state i ''ok'' None])
                | Inl e \<Rightarrow>
                    (record_failure c now i e (env db2),
                     bus2 @ [publish_state i ''failed'' (Some (detail e))]))))"

lemma pump_steps: "(task_step c users)\<^sup>*\<^sup>* (fst w) (fst (pump c now i lines w))"
proof (induction c now i lines w rule: pump.induct)
  case (2 c now i line lines db bus)
  obtain db' res where a: "append_task_log c now i line db = (db', res)"
    by (cases "append_task_log c now i line db")
  have "task_step c users db db'"
    using step_log [of c users db now i line] by (simp add: a)
  moreover have "(task_step c users)\<^sup>*\<^sup>* db' (fst (pump c now i (line # lines) (db, bus)))"
    using 2 [OF a [symmetric]] by (cases res) (simp_all add: a)
  ultimately show ?case by (simp add: converse_rtranclp_into_rtranclp)
qed simp

lemma update_tasks_none: "affected P db = 0 \<Longrightarrow> update_tasks P g db = db"
  by (auto simp: affected_def update_tasks_def filter_empty_conv intro!: tasks_db.equality sql_update_id [THEN arg_cong [where f = fst], simplified])

lemma spawn_task_steps:
  assumes "\<And>db. (task_step c users)\<^sup>*\<^sup>* db (env db)"
  shows "(task_step c users)\<^sup>*\<^sup>* (fst w) (fst (spawn_task c now i lines outcome env w))"
proof -
  obtain db1 res where s: "start_task c now i (fst w) = (db1, res)"
    by (cases "start_task c now i (fst w)")
  have s1: "(task_step c users)\<^sup>*\<^sup>* (fst w) db1"
    using step_start [of c users "fst w" now i] by (simp add: s)
  obtain db2 bus2 where p: "pump c now i lines (db1, snd w @ [publish_state i ''running'' None]) = (db2, bus2)"
    by (cases "pump c now i lines (db1, snd w @ [publish_state i ''running'' None])")
  have s2: "(task_step c users)\<^sup>*\<^sup>* db1 db2"
    using pump_steps [of c users "(db1, snd w @ [publish_state i ''running'' None])" now i lines] by (simp add: p)
  have ok: "(task_step c users)\<^sup>*\<^sup>* db2 (finish_task_ok c now i (env db2))"
    using assms [of db2] step_ok by (rule rtranclp.rtrancl_into_rtrancl)
  have failed: "(task_step c users)\<^sup>*\<^sup>* db2 (record_failure c now i e (env db2))" for e
    unfolding record_failure_def
    by (rule rtranclp.rtrancl_into_rtrancl [OF rtranclp.rtrancl_into_rtrancl [OF assms step_log] step_failed])
  show ?thesis
  proof (cases res)
    case (Inl a)
    with s1 show ?thesis by (simp add: spawn_task_def s)
  next
    case (Inr u)
    with s1 s2 ok failed show ?thesis
      by (cases outcome) (auto simp: spawn_task_def s p dest: rtranclp_trans)
  qed
qed

lemma finish_ends:
  assumes "q \<in> set (tk_rows (update_tasks (\<lambda>r. tr_id r = k \<and> is_active r) g db))" "tr_id q = k"
    "\<And>r. tr_id (g r) = tr_id r" "\<And>r. \<not> is_active (g r)"
  shows "\<not> is_active q"
proof -
  obtain r where r: "q = (if tr_id r = k \<and> is_active r then g r else r)"
    using assms(1) by (auto simp: update_tasks_def sql_update_set)
  with assms(2-) show ?thesis
    by (cases "tr_id r = k \<and> is_active r") auto
qed

lemma finish_task_end:
  "q \<in> set (tk_rows (finish_task_ok c now i db)) \<Longrightarrow> tr_id q = enc_uuid c i \<Longrightarrow> \<not> is_active q"
  "q \<in> set (tk_rows (finish_task_failed c now i e db)) \<Longrightarrow> tr_id q = enc_uuid c i \<Longrightarrow> \<not> is_active q"
  unfolding finish_task_ok_def finish_task_failed_def
  by (erule finish_ends; simp add: is_active_def)+

section \<open>Properties\<close>

lemma empty_inv: "tasks_inv \<lparr>tk_rows = [], tk_logs = []\<rparr>"
  by (simp add: tasks_inv_def logs_dense_def)

lemma task_row_unique:
  "tasks_inv db \<Longrightarrow> r \<in> set (tk_rows db) \<Longrightarrow> q \<in> set (tk_rows db) \<Longrightarrow> tr_id r = tr_id q \<Longrightarrow> r = q"
  by (auto simp: tasks_inv_def distinct_map inj_on_def)

text \<open>
  C7: whatever the agent writes, in any order and for any tasks, the tables stay consistent: ids
  are unique; a row has an end time exactly when its status is final, an error code and detail
  exactly when it failed, a start time when it runs, 100 percent when it is ok, and was cancellable
  when it is cancelled; each task's log is numbered densely from 1, without a line over 8 KiB or a
  line of no task.
\<close>

theorem task_tables_consistent:
  assumes "(task_step c users)\<^sup>*\<^sup>* \<lparr>tk_rows = [], tk_logs = []\<rparr> db"
  shows "distinct (map tr_id (tk_rows db)) \<and> list_all row_ok (tk_rows db) \<and> (\<forall>k. logs_dense k (tk_logs db))
    \<and> list_all (\<lambda>l. length (tl_line l) \<le> 8192 \<and> tl_task_id l \<in> tr_id ` set (tk_rows db)) (tk_logs db)"
  using life.reach_inv [OF assms empty_inv] by (simp add: tasks_inv_def max_line_def)

definition sample_task :: "task_id \<Rightarrow> unit new_task" where
  "sample_task i = \<lparr>nt_id = i, nt_op = ''site.create'', nt_input = (), nt_actor_user_id = Some 7,
     nt_subscription_id = None, nt_cancellable = True, nt_idempotent = False, nt_request_id = None\<rparr>"

definition sample_tasks :: tasks_db where
  "sample_tasks = fst (create_task sample_codec {7} 5 (sample_task 3) \<lparr>tk_rows = [], tk_logs = []\<rparr>)"

lemma sample_tasks_rows: "tk_rows sample_tasks = [new_task_row sample_codec 5 (sample_task 3)]"
  by (simp add: sample_tasks_def create_task_def Let_def sample_task_def)

lemma sample_tasks_reach: "(task_step sample_codec {7})\<^sup>*\<^sup>* \<lparr>tk_rows = [], tk_logs = []\<rparr> sample_tasks"
  unfolding sample_tasks_def by (rule r_into_rtranclp) (rule step_create)

lemma sample_tasks_inv: "tasks_inv sample_tasks"
  by (rule life.reach_inv [OF sample_tasks_reach empty_inv])

lemma task_tables_consistent_witness:
  "length (tk_rows sample_tasks) = 1 \<and> list_all row_ok (tk_rows sample_tasks)"
  using task_tables_consistent [OF sample_tasks_reach] by (simp add: sample_tasks_rows)

text \<open>
  C39: a task ends once. When its row is ok, failed or cancelled, then whatever sequence of writes
  follows, the one row of its id is that row, in which at most the column of the user who started it
  has become null, as the database does when that user is deleted: status, progress, error, times,
  input and subscription stay what they are.
\<close>

theorem ended_task_is_final:
  assumes "tasks_inv db" "(task_step c users)\<^sup>*\<^sup>* db db'" "r \<in> set (tk_rows db)" "\<not> is_active r"
  shows "\<exists>q. filter (\<lambda>p. tr_id p = tr_id r) (tk_rows db') = [q] \<and> (q = r \<or> q = r\<lparr>tr_actor_user_id := None\<rparr>)"
proof -
  have inv: "tasks_inv db'" by (rule life.reach_inv [OF assms(2,1)])
  obtain q where q: "q \<in> set (tk_rows db')" "ended_as r q" using life.final_stays [OF assms(2-4)] by blast
  then have "tr_id q = tr_id r" by (auto simp: ended_as_def)
  then have "filter (\<lambda>p. tr_id p = tr_id r) (tk_rows db') = [q]"
    using inv q filter_unique_key [of tr_id "tk_rows db'" q] by (auto simp: tasks_inv_def)
  then show ?thesis using q(2) by (auto simp: ended_as_def)
qed

lemmas sample_eval = finish_task_ok_def update_tasks_def sql_update_def sample_tasks_rows
  new_task_row_def sample_task_def is_active_def sql_bool_def

lemma ended_task_is_final_witness:
  "\<exists>q. filter (\<lambda>p. tr_id p = enc_uuid sample_codec 3)
      (tk_rows (fst (cancel_task sample_codec 10 3 (forget_actor 7 (finish_task_ok sample_codec 9 3 sample_tasks))))) = [q]
    \<and> tr_status q = ''ok''"
proof -
  let ?db = "finish_task_ok sample_codec 9 3 sample_tasks"
  obtain r where r: "tk_rows ?db = [r]" "tr_id r = enc_uuid sample_codec 3" "tr_status r = ''ok''"
    by (simp add: sample_eval)
  have inv: "tasks_inv ?db" by (rule tasks_inv_step [OF step_ok sample_tasks_inv])
  have st: "(task_step sample_codec {7})\<^sup>*\<^sup>* ?db (fst (cancel_task sample_codec 10 3 (forget_actor 7 ?db)))"
    by (rule converse_rtranclp_into_rtranclp, rule step_forget, rule r_into_rtranclp, rule step_cancel)
  show ?thesis
    using ended_task_is_final [OF inv st, of r] r by (auto simp: is_active_def)
qed

text \<open>
  A task is claimed at most once. Starting it succeeds exactly when its row is queued, it is
  then running with its start time, and starting it again, by anyone, fails and changes nothing.
\<close>

theorem start_claims_once:
  "(snd (start_task c now i db) = Inr () \<longleftrightarrow>
      (\<exists>r \<in> set (tk_rows db). tr_id r = enc_uuid c i \<and> tr_status r = ''queued''))
   \<and> start_task c now' i (fst (start_task c now i db))
       = (fst (start_task c now i db), Inl (DomainErr (new_error Conflict ''task is not queued and cannot be started'')))"
proof
  show "snd (start_task c now i db) = Inr () \<longleftrightarrow>
      (\<exists>r \<in> set (tk_rows db). tr_id r = enc_uuid c i \<and> tr_status r = ''queued'')"
    by (auto simp: start_task_def Let_def affected_def filter_empty_conv)
  have none: "affected (\<lambda>r. tr_id r = enc_uuid c i \<and> tr_status r = ''queued'') (fst (start_task c now i db)) = 0"
    by (auto simp: start_task_def Let_def affected_def update_tasks_def sql_update_def filter_empty_conv)
  show "start_task c now' i (fst (start_task c now i db))
       = (fst (start_task c now i db), Inl (DomainErr (new_error Conflict ''task is not queued and cannot be started'')))"
    using none update_tasks_none [OF none] by (simp only: start_task_def [of c now'] Let_def) simp
qed

text \<open>
  After a restart no task claims to be running: reconciliation leaves no row queued or running,
  gives the ones it ended the restart's reason, leaves every ended row as it was, and counts
  exactly the rows it ended; nothing is then left in the queue.
\<close>

theorem reconcile_leaves_none_active:
  "count_active FAll (fst (reconcile_interrupted_tasks c now db)) = 0
   \<and> snd (reconcile_interrupted_tasks c now db) = (0, count_active FAll db)
   \<and> next_queued_task c (fst (reconcile_interrupted_tasks c now db)) = Inr None
   \<and> tk_rows (fst (reconcile_interrupted_tasks c now db))
       = map (\<lambda>r. if is_active r
                 then r\<lparr>tr_status := ''failed'', tr_error_code := Some (code TaskFailed),
                        tr_error_detail := Some ''the agent restarted before this task finished'',
                        tr_finished_at := Some (to_sql_time c now)\<rparr>
                 else r) (tk_rows db)"
proof (intro conjI)
  let ?g = "\<lambda>r. r\<lparr>tr_status := ''failed'', tr_error_code := Some (code TaskFailed),
      tr_error_detail := Some ''the agent restarted before this task finished'',
      tr_finished_at := Some (to_sql_time c now)\<rparr>"
  show rows: "tk_rows (fst (reconcile_interrupted_tasks c now db)) = map (\<lambda>r. if is_active r then ?g r else r) (tk_rows db)"
    by (simp add: reconcile_interrupted_tasks_def update_tasks_def sql_update_def)
  have none: "\<not> is_active (if is_active r then ?g r else r)" for r
    by (simp add: is_active_def)
  show "count_active FAll (fst (reconcile_interrupted_tasks c now db)) = 0"
    using none by (auto simp: count_active_def rows filter_empty_conv)
  have "filter (\<lambda>r. tr_status r = ''queued'') (map (\<lambda>r. if is_active r then ?g r else r) (tk_rows db)) = []"
    by (auto simp: filter_empty_conv is_active_def)
  then show "next_queued_task c (fst (reconcile_interrupted_tasks c now db)) = Inr None"
    by (simp add: next_queued_task_def rows)
  show "snd (reconcile_interrupted_tasks c now db) = (0, count_active FAll db)"
    by (simp add: reconcile_interrupted_tasks_def affected_def count_active_def task_visible_def)
qed

lemma map_ids_update: "(\<And>r. tr_id (g r) = tr_id r) \<Longrightarrow> map tr_id (tk_rows (update_tasks P g db)) = map tr_id (tk_rows db)"
  by (simp add: update_tasks_def sql_update_map)

lemma step_keeps_ids: "task_step c users db db' \<Longrightarrow> prefix (map tr_id (tk_rows db)) (map tr_id (tk_rows db'))"
proof (induction rule: task_step.induct)
  case (step_create db now new)
  then show ?case by (simp add: create_task_def Let_def)
next
  case (step_log db now i line)
  then show ?case by (simp add: append_task_log_def Let_def)
qed (simp_all add: start_task_def set_task_progress_def finish_task_ok_def finish_task_failed_def
    cancel_task_def reconcile_interrupted_tasks_def forget_actor_def Let_def map_ids_update)

lemma steps_keep_ids:
  "(task_step c users)\<^sup>*\<^sup>* db db' \<Longrightarrow> prefix (map tr_id (tk_rows db)) (map tr_id (tk_rows db'))"
  by (induction rule: rtranclp_induct) (auto dest: step_keeps_ids intro: prefix_order.trans)

text \<open>
  A task that was queued and spawned always ends. Whatever the operation gives and logs, and
  whatever other requests write meanwhile (a cancellation included), the one row of its id is ok,
  failed or cancelled when the worker is done, and the tables are consistent.
\<close>

theorem spawned_task_ends:
  assumes "tasks_inv db" and env: "\<And>d. (task_step c users)\<^sup>*\<^sup>* d (env d)"
    and "\<exists>r \<in> set (tk_rows db). tr_id r = enc_uuid c i \<and> tr_status r = ''queued''"
  shows "tasks_inv (fst (spawn_task c now i lines outcome env (db, bus)))
    \<and> (\<exists>q. filter (\<lambda>r. tr_id r = enc_uuid c i) (tk_rows (fst (spawn_task c now i lines outcome env (db, bus)))) = [q]
          \<and> \<not> is_active q)"
proof
  let ?fin = "fst (spawn_task c now i lines outcome env (db, bus))"
  have steps: "(task_step c users)\<^sup>*\<^sup>* db ?fin"
    using spawn_task_steps [of c users env "(db, bus)"] env by simp
  show inv: "tasks_inv ?fin"
    by (rule life.reach_inv [OF steps assms(1)])
  have "enc_uuid c i \<in> set (map tr_id (tk_rows ?fin))"
    using steps_keep_ids [OF steps] assms(3) by (force dest: set_mono_prefix)
  then obtain q where q: "q \<in> set (tk_rows ?fin)" "tr_id q = enc_uuid c i"
    by auto
  have "snd (start_task c now i db) = Inr ()"
    using assms(3) by (auto simp: start_task_def Let_def affected_def filter_empty_conv)
  then obtain db1 where st: "start_task c now i db = (db1, Inr ())"
    by (cases "start_task c now i db") auto
  obtain db2 bus2 where p: "pump c now i lines (db1, bus @ [publish_state i ''running'' None]) = (db2, bus2)"
    by (cases "pump c now i lines (db1, bus @ [publish_state i ''running'' None])")
  have "\<not> is_active q"
  proof (cases outcome)
    case (Inr v)
    then have "?fin = finish_task_ok c now i (env db2)"
      by (simp add: spawn_task_def st p)
    with q show ?thesis by (simp add: finish_task_end)
  next
    case (Inl e)
    then have "?fin = record_failure c now i e (env db2)"
      by (simp add: spawn_task_def st p)
    with q show ?thesis by (simp add: record_failure_def finish_task_end)
  qed
  then show "\<exists>q. filter (\<lambda>r. tr_id r = enc_uuid c i) (tk_rows ?fin) = [q] \<and> \<not> is_active q"
    using inv q filter_unique_key [of tr_id "tk_rows ?fin" q] by (auto simp: tasks_inv_def)
qed

lemma spawned_task_ends_witness:
  "\<exists>q. filter (\<lambda>r. tr_id r = enc_uuid sample_codec 3)
      (tk_rows (fst (spawn_task sample_codec 9 3 [''out''] (Inr ()) (\<lambda>d. fst (cancel_task sample_codec 8 3 d)) (sample_tasks, [])))) = [q]
    \<and> \<not> is_active q"
proof -
  have env: "(task_step sample_codec {7})\<^sup>*\<^sup>* d (fst (cancel_task sample_codec 8 3 d))" for d
    by (rule r_into_rtranclp) (rule step_cancel)
  have q: "\<exists>r \<in> set (tk_rows sample_tasks). tr_id r = enc_uuid sample_codec 3 \<and> tr_status r = ''queued''"
    by (simp add: sample_eval)
  show ?thesis
    using spawned_task_ends [OF sample_tasks_inv env q] by blast
qed

text \<open>
  The state published last can contradict the row. When a cancellation lands while the
  operation runs, the row is cancelled, and stays so, but the worker still announces \<open>ok\<close>; and a
  log line longer than 8 KiB is published whole although a shorter one is stored.
\<close>

theorem published_state_can_contradict_row:
  "map tr_status (tk_rows (fst (spawn_task sample_codec 9 3 [] (Inr ()) (\<lambda>d. fst (cancel_task sample_codec 8 3 d)) (sample_tasks, []))))
     = [''cancelled'']
   \<and> last (snd (spawn_task sample_codec 9 3 [] (Inr ()) (\<lambda>d. fst (cancel_task sample_codec 8 3 d)) (sample_tasks, [])))
     = TaskState 3 ''ok'' None None
   \<and> snd (pump sample_codec 9 3 [replicate 9000 CHR ''x''] (sample_tasks, [])) = [TaskLog 3 1 (replicate 9000 CHR ''x'')]
   \<and> map (length \<circ> tl_line) (tk_logs (fst (pump sample_codec 9 3 [replicate 9000 CHR ''x''] (sample_tasks, [])))) = [8192]"
proof (intro conjI)
  show "map tr_status (tk_rows (fst (spawn_task sample_codec 9 3 [] (Inr ()) (\<lambda>d. fst (cancel_task sample_codec 8 3 d)) (sample_tasks, []))))
     = [''cancelled'']"
    "last (snd (spawn_task sample_codec 9 3 [] (Inr ()) (\<lambda>d. fst (cancel_task sample_codec 8 3 d)) (sample_tasks, [])))
     = TaskState 3 ''ok'' None None"
    by (simp_all add: spawn_task_def start_task_def cancel_task_def affected_def Let_def publish_state_def sample_eval)
  have cut: "cut_at (replicate 9000 CHR ''x'') 8192 = 8192"
  proof -
    have "is_char_boundary (replicate 9000 CHR ''x'') 8192"
      by (simp add: is_char_boundary_def is_continuation_def byte_def)
    then show ?thesis
      using cut_at.simps(2) [of "replicate 9000 CHR ''x''" 8191] by simp
  qed
  have logs: "tk_logs sample_tasks = []"
    by (simp add: sample_tasks_def create_task_def Let_def sample_task_def)
  have app: "append_task_log sample_codec 9 3 (replicate 9000 CHR ''x'') sample_tasks
      = (sample_tasks\<lparr>tk_logs := [\<lparr>tl_task_id = enc_uuid sample_codec 3, tl_seq = 1, tl_at = to_sql_time sample_codec 9,
           tl_line = take 8192 (replicate 9000 CHR ''x'')\<rparr>]\<rparr>, Inr 1)"
    using cut by (simp add: append_task_log_def Let_def logs next_seq_def truncate_line_def max_line_def sample_tasks_rows
        new_task_row_def sample_task_def)
  show "snd (pump sample_codec 9 3 [replicate 9000 CHR ''x''] (sample_tasks, [])) = [TaskLog 3 1 (replicate 9000 CHR ''x'')]"
    "map (length \<circ> tl_line) (tk_logs (fst (pump sample_codec 9 3 [replicate 9000 CHR ''x''] (sample_tasks, [])))) = [8192]"
    by (simp_all only: pump.simps app prod.case sum.case fst_conv snd_conv append_Nil) simp_all
qed

lemma cut_at_boundary: "is_char_boundary s (cut_at s n)"
  by (induction s n rule: cut_at.induct) (auto simp: is_char_boundary_def)

lemma cut_at_max: "is_char_boundary s k \<Longrightarrow> k \<le> n \<Longrightarrow> k \<le> cut_at s n"
  by (induction s n rule: cut_at.induct) (auto simp: le_Suc_eq)

text \<open>
  Truncating a log line never splits a character and loses no more than it must: the result is
  the line's first characters, at most the cap in bytes, the whole line when it fits, and no longer
  prefix that ends between two characters is within the cap.
\<close>

theorem log_truncation_on_characters:
  "(\<exists>k. truncate_line mx line = concat (take k (str_chars line)))
   \<and> length (truncate_line mx line) \<le> mx
   \<and> (truncate_line mx line = line \<longleftrightarrow> length line \<le> mx)
   \<and> (\<forall>n \<le> length line. is_char_boundary line n \<and> n \<le> mx \<longrightarrow> n \<le> length (truncate_line mx line))"
proof (intro conjI)
  let ?m = "min mx (length line)"
  have le: "cut_at line ?m \<le> ?m" by (rule cut_at_le)
  show "\<exists>k. truncate_line mx line = concat (take k (str_chars line))"
    unfolding truncate_line_def using cut_at_boundary [of line ?m]
    by (intro take_char_prefix) (auto simp: is_char_boundary_def)
  show "length (truncate_line mx line) \<le> mx"
    by (rule truncate_line_length)
  have len: "length (truncate_line mx line) = cut_at line ?m"
    using le by (simp add: truncate_line_def)
  show longest: "\<forall>n \<le> length line. is_char_boundary line n \<and> n \<le> mx \<longrightarrow> n \<le> length (truncate_line mx line)"
    unfolding len by (auto intro: cut_at_max)
  show "truncate_line mx line = line \<longleftrightarrow> length line \<le> mx"
  proof
    assume "truncate_line mx line = line"
    then show "length line \<le> mx" using le len by simp
  next
    assume "length line \<le> mx"
    then have "length line \<le> cut_at line ?m"
      by (intro cut_at_max) (simp_all add: is_char_boundary_def)
    then show "truncate_line mx line = line"
      by (simp add: truncate_line_def)
  qed
qed

lemma log_truncation_on_characters_witness:
  "1 \<le> length (truncate_line 2 [CHR 0x61, CHR 0xC2, CHR 0xA9])
   \<and> truncate_line 2 [CHR 0x61, CHR 0xC2, CHR 0xA9] \<noteq> [CHR 0x61, CHR 0xC2]"
proof
  let ?l = "[CHR 0x61, CHR 0xC2, CHR 0xA9]"
  have b1: "is_char_boundary ?l 1" and b2: "\<not> is_char_boundary ?l 2"
    by (simp_all add: is_char_boundary_def is_continuation_def byte_def)
  then show "1 \<le> length (truncate_line 2 ?l)"
    using log_truncation_on_characters [of 2 ?l] by simp
  define k where "k = cut_at ?l (min 2 (length ?l))"
  have "is_char_boundary ?l k" unfolding k_def by (rule cut_at_boundary)
  then have "k \<noteq> 2" using b2 by metis
  then have "length (take k ?l) \<noteq> 2" by (cases "k \<le> 3") auto
  then have "length (truncate_line 2 ?l) \<noteq> 2"
    by (simp only: truncate_line_def k_def not_False_eq_True)
  then show "truncate_line 2 ?l \<noteq> [CHR 0x61, CHR 0xC2]"
    by (metis length_Cons list.size(3) numeral_2_eq_2)
qed

text \<open>
  The task history stays in its tenant: through a scope, fetching, listing and filtering return
  only tasks of that scope, a filter never widens it, and reading the log of a task the scope may
  not see is \<open>not found\<close>.
\<close>

theorem task_reads_stay_in_scope:
  assumes "tasks_inv db"
  shows "(task_by_id c f db i = Inr (Some t) \<longleftrightarrow>
            (\<exists>r \<in> set (tk_rows db). tr_id r = enc_uuid c i \<and> task_visible f r \<and> task_of_row c r = Inr t))
    \<and> (list_filtered c f q db lim off = Inr ts \<longrightarrow>
          length ts \<le> 200 \<and> list_all (\<lambda>v. \<exists>r \<in> set (tk_rows db). task_visible f r \<and> filter_matches c q r \<and> task_of_row c r = Inr v) ts)
    \<and> ((\<forall>r \<in> set (tk_rows db). tr_id r = enc_uuid c i \<longrightarrow> \<not> task_visible f r) \<longrightarrow>
          task_logs_after c f db i after lim = Inl (DbNotFound ''task''))"
proof (intro conjI impI)
  have d: "distinct (map tr_id (tk_rows db))"
    using assms by (simp add: tasks_inv_def)
  show "task_by_id c f db i = Inr (Some t) \<longleftrightarrow>
      (\<exists>r \<in> set (tk_rows db). tr_id r = enc_uuid c i \<and> task_visible f r \<and> task_of_row c r = Inr t)"
  proof -
    have "task_by_id c f db i = Inr (Some t) \<longleftrightarrow>
        (\<exists>r. fetch_task f (tk_rows db) (enc_uuid c i) = Some r \<and> task_of_row c r = Inr t)"
      by (auto simp: task_by_id_def result_simps split: option.splits)
    then show ?thesis
      by (auto simp: tasks.fetch_Some_iff [OF d])
  qed
next
  assume l: "list_filtered c f q db lim off = Inr ts"
  define page where "page = page_desc lim (max off 0) (filter (\<lambda>r. task_visible f r \<and> filter_matches c q r) (tk_rows db))"
  have m: "map (task_of_row c) page = map Inr ts"
    using l by (simp add: list_filtered_def collect_results_Inr page_def)
  have "length page \<le> 200"
    by (simp add: page_def page_desc_def)
  then show "length ts \<le> 200"
    using m by (metis length_map)
  have sub: "set page \<subseteq> {r \<in> set (tk_rows db). task_visible f r \<and> filter_matches c q r}"
    by (auto simp: page_def page_desc_def dest!: in_set_takeD in_set_dropD)
  have "\<exists>r \<in> set page. task_of_row c r = Inr v" if "v \<in> set ts" for v
    using that m by (metis (no_types, lifting) image_eqI image_iff list.set_map)
  with sub show "list_all (\<lambda>v. \<exists>r \<in> set (tk_rows db). task_visible f r \<and> filter_matches c q r \<and> task_of_row c r = Inr v) ts"
    by (fastforce simp: list_all_iff)
next
  assume "\<forall>r \<in> set (tk_rows db). tr_id r = enc_uuid c i \<longrightarrow> \<not> task_visible f r"
  then have "fetch_task f (tk_rows db) (enc_uuid c i) = None"
    by (simp add: tasks.fetch_None_iff)
  then show "task_logs_after c f db i after lim = Inl (DbNotFound ''task'')"
    by (simp add: task_logs_after_def task_by_id_def)
qed

lemma task_reads_stay_in_scope_witness:
  "task_logs_after sample_codec (FCustomer 8) sample_tasks 3 0 10 = Inl (DbNotFound ''task'')"
  using task_reads_stay_in_scope [OF sample_tasks_inv, of sample_codec "FCustomer 8" 3]
  by (simp add: sample_eval task_visible_def)

end
