(* ===== verification/Registry.thy ===== *)
theory Registry
  imports Tasks
begin

text \<open>
  The registry of operations and the dispatch path, \<open>unihelm-ops/src/registry.rs\<close>: every
  operation the build registers with its permission and the way it runs, registration, the
  re-derivation of the caller's rights and \<open>dispatch\<close>. The bodies of the operations are an
  argument. The lemmas show when a body runs and for whom, and what each role can reach.
\<close>

section \<open>Operations\<close>

datatype execution = Immediate | TaskExec bool bool

fun is_task :: "execution \<Rightarrow> bool" where
  "is_task (TaskExec _ _) = True"
| "is_task Immediate = False"

text \<open>Name, required permission and execution of each registered operation, in order.\<close>

definition ops_first :: "(str \<times> permission \<times> execution) list" where
  "ops_first =
   [(''sys.ping'', TaskRead, Immediate),
    (''svc.status'', ServerRead, Immediate),
    (''svc.action'', ServerManage, Immediate),
    (''metrics.snapshot'', ServerRead, Immediate),
    (''stack.status'', ServerRead, Immediate),
    (''stack.install'', StackManage, TaskExec False True),
    (''stack.remove'', StackManage, TaskExec False True),
    (''stack.start'', ServerManage, Immediate),
    (''stack.stop'', ServerManage, Immediate),
    (''engine.status'', ServerRead, Immediate),
    (''engine.remove'', StackManage, TaskExec False True),
    (''site.list'', SiteRead, Immediate),
    (''site.create'', SiteManage, TaskExec False False),
    (''site.update'', SiteManage, TaskExec False True),
    (''site.delete'', SiteManage, TaskExec False True),
    (''site.drift'', SiteRead, Immediate),
    (''site.reprovision'', SiteManage, TaskExec False True),
    (''site.alias.add'', SiteManage, TaskExec False True),
    (''site.alias.remove'', SiteManage, TaskExec False True),
    (''cert.issue'', SiteManage, TaskExec False False),
    (''cert.list'', SiteRead, Immediate),
    (''panel.tls.issue'', ServerManage, TaskExec False False),
    (''db.adminer.status'', ServerManage, Immediate),
    (''db.adminer.enable'', ServerManage, TaskExec False True),
    (''db.adminer.disable'', ServerManage, TaskExec False True),
    (''db.list'', DbManage, Immediate),
    (''db.create'', DbManage, Immediate),
    (''db.drop'', DbManage, Immediate),
    (''db.user.create'', DbManage, Immediate),
    (''db.user.drop'', DbManage, Immediate),
    (''db.user.password'', DbManage, Immediate),
    (''db.grant'', DbManage, Immediate),
    (''fs.list'', FileManage, Immediate),
    (''fs.stat'', FileManage, Immediate),
    (''fs.read'', FileManage, Immediate),
    (''fs.write'', FileManage, Immediate),
    (''fs.mkdir'', FileManage, Immediate),
    (''fs.rename'', FileManage, Immediate),
    (''fs.copy'', FileManage, Immediate),
    (''fs.delete'', FileManage, Immediate),
    (''fs.chmod'', FileManage, Immediate),
    (''fs.search'', FileManage, Immediate),
    (''fs.compress'', FileManage, TaskExec False False)]"

definition ops_second :: "(str \<times> permission \<times> execution) list" where
  "ops_second =
   [(''fs.extract'', FileManage, TaskExec False True),
    (''fs.trash.list'', FileManage, Immediate),
    (''fs.trash.restore'', FileManage, Immediate),
    (''fs.trash.purge'', FileManage, Immediate),
    (''fs.usage'', FileManage, Immediate),
    (''quota.set'', PlanManage, Immediate),
    (''quota.usage'', SiteRead, Immediate),
    (''quota.backend'', ServerRead, Immediate),
    (''sftp.enable'', SshAccess, TaskExec False True),
    (''sftp.disable'', SshAccess, Immediate),
    (''plan.list'', PlanManage, Immediate),
    (''subscription.list'', SiteRead, Immediate),
    (''plan.create'', PlanManage, Immediate),
    (''plan.update'', PlanManage, Immediate),
    (''plan.delete'', PlanManage, Immediate),
    (''plan.assign'', PlanManage, Immediate),
    (''subscription.suspend'', UserManage, TaskExec False True),
    (''subscription.unsuspend'', UserManage, TaskExec False True),
    (''fw.port.open'', FirewallManage, Immediate),
    (''fw.port.close'', FirewallManage, Immediate),
    (''fw.rules'', FirewallManage, Immediate),
    (''fw.enable'', FirewallManage, Immediate),
    (''fw.disable'', FirewallManage, Immediate),
    (''fw.ban'', FirewallManage, Immediate),
    (''fw.unban'', FirewallManage, Immediate),
    (''fw.bans'', FirewallManage, Immediate),
    (''sentinel.settings'', FirewallManage, Immediate),
    (''sentinel.settings.set'', FirewallManage, Immediate),
    (''alert.rules.list'', ServerManage, Immediate),
    (''alert.rules.set'', ServerManage, Immediate),
    (''alert.rules.delete'', ServerManage, Immediate),
    (''alert.events.list'', ServerRead, Immediate),
    (''alert.channels.list'', ServerManage, Immediate),
    (''alert.channels.set'', ServerManage, Immediate),
    (''alert.channels.delete'', ServerManage, Immediate),
    (''alert.channels.test'', ServerManage, Immediate),
    (''app.list'', NodeApps, Immediate),
    (''app.create'', NodeApps, TaskExec False False),
    (''app.delete'', NodeApps, TaskExec False True),
    (''app.restart'', NodeApps, TaskExec False True),
    (''app.update'', NodeApps, TaskExec False True),
    (''app.logs'', NodeApps, Immediate),
    (''app.build'', NodeApps, TaskExec False True)]"

definition ops_third :: "(str \<times> permission \<times> execution) list" where
  "ops_third =
   [(''cron.list'', CronManage, Immediate),
    (''cron.set'', CronManage, Immediate),
    (''cron.delete'', CronManage, Immediate),
    (''dns.check'', SiteRead, Immediate),
    (''dns.provider.set'', ServerManage, Immediate),
    (''dns.provider.get'', ServerManage, Immediate),
    (''dns.zones.list'', DnsManage, Immediate),
    (''dns.records.list'', DnsManage, Immediate),
    (''dns.records.create'', DnsManage, Immediate),
    (''dns.records.update'', DnsManage, Immediate),
    (''dns.records.delete'', DnsManage, Immediate),
    (''cert.issue_wildcard'', SiteManage, TaskExec False False),
    (''backup.repo.init'', BackupManage, Immediate),
    (''backup.repo.delete'', BackupManage, Immediate),
    (''backup.schedule.set'', BackupManage, Immediate),
    (''backup.schedule.delete'', BackupManage, Immediate),
    (''backup.run'', BackupManage, TaskExec False True),
    (''backup.list'', BackupManage, Immediate),
    (''backup.restore'', BackupManage, TaskExec False True),
    (''wp.install'', SiteManage, TaskExec False False),
    (''wp.detect'', SiteManage, Immediate),
    (''wp.update'', SiteManage, TaskExec False True),
    (''wp.plugin.list'', SiteManage, Immediate),
    (''wp.plugin.update'', SiteManage, TaskExec False True),
    (''wp.cli'', SiteManage, Immediate),
    (''waf.status'', ServerManage, Immediate),
    (''waf.enable'', ServerManage, TaskExec False True),
    (''waf.disable'', ServerManage, TaskExec False True),
    (''waf.rules.set'', ServerManage, TaskExec False True),
    (''security.posture'', ServerRead, Immediate),
    (''server.reboot.status'', ServerRead, Immediate),
    (''server.reboot'', ServerManage, Immediate),
    (''process.list'', ServerRead, Immediate),
    (''process.kill'', ServerManage, Immediate),
    (''user.list'', UserManage, Immediate),
    (''user.create'', UserManage, Immediate),
    (''user.role.set'', UserManage, Immediate),
    (''user.status.set'', UserManage, Immediate),
    (''user.delete'', UserManage, Immediate),
    (''git.status'', SiteRead, Immediate),
    (''git.attach'', SiteManage, Immediate),
    (''git.detach'', SiteManage, Immediate),
    (''git.clone'', SiteManage, TaskExec False False)]"

definition ops_fourth :: "(str \<times> permission \<times> execution) list" where
  "ops_fourth =
   [(''git.pull'', SiteManage, TaskExec False True),
    (''sites.discover'', ServerRead, Immediate),
    (''runtime.list'', ServerRead, Immediate),
    (''runtime.install'', StackManage, TaskExec False True),
    (''docker.list'', ServerRead, Immediate),
    (''docker.start'', ServerManage, Immediate),
    (''docker.stop'', ServerManage, Immediate),
    (''docker.restart'', ServerManage, Immediate),
    (''docker.remove'', ServerManage, Immediate),
    (''docker.logs'', ServerRead, Immediate),
    (''docker.create'', ServerManage, TaskExec False False),
    (''docker.image.pull'', ServerManage, TaskExec False True),
    (''docker.image.remove'', ServerManage, Immediate),
    (''docker.image.prune'', ServerManage, TaskExec False True),
    (''docker.volume.remove'', ServerManage, Immediate),
    (''docker.template.list'', ServerRead, Immediate),
    (''docker.template.prepare'', ServerManage, Immediate),
    (''runtime.default.set'', StackManage, Immediate),
    (''webserver.switch'', StackManage, TaskExec False True),
    (''webserver.gaps'', ServerRead, Immediate),
    (''webhook.list'', ServerRead, Immediate),
    (''webhook.set'', ServerManage, Immediate),
    (''webhook.delete'', ServerManage, Immediate),
    (''webhook.test'', ServerManage, Immediate),
    (''plugin.list'', ServerRead, Immediate),
    (''plugin.install'', ServerManage, TaskExec False False),
    (''plugin.enable'', ServerManage, Immediate),
    (''plugin.disable'', ServerManage, Immediate),
    (''plugin.remove'', ServerManage, TaskExec False True),
    (''import.plan'', ServerManage, TaskExec True True),
    (''import.list'', ServerManage, Immediate),
    (''import.apply'', ServerManage, TaskExec False False),
    (''mail.relay.get'', ServerManage, Immediate),
    (''mail.dns.publish'', ServerManage, Immediate),
    (''mail.relay.set'', ServerManage, TaskExec False True),
    (''mail.relay.test'', ServerManage, Immediate),
    (''mail.mta.status'', ServerManage, Immediate),
    (''mail.mta.install'', ServerManage, TaskExec False True),
    (''branding.get'', UserManage, Immediate),
    (''branding.set'', UserManage, Immediate),
    (''ssh.keys.list'', TerminalAccess, Immediate),
    (''ssh.keys.add'', TerminalAccess, Immediate),
    (''ssh.keys.remove'', TerminalAccess, Immediate)]"


type_synonym op_spec = "str \<times> permission \<times> execution"

definition op_table :: "op_spec list" where
  "op_table = ops_first @ ops_second @ ops_third @ ops_fourth"

text \<open>\<open>register\<close> panics on a name that is taken.\<close>

definition register :: "op_spec \<Rightarrow> op_spec list \<Rightarrow> op_spec list option" where
  "register op reg = (if fst op \<in> fst ` set reg then None else Some (reg @ [op]))"

fun register_all :: "op_spec list \<Rightarrow> op_spec list \<Rightarrow> op_spec list option" where
  "register_all [] reg = Some reg"
| "register_all (op # ops) reg = (case register op reg of None \<Rightarrow> None | Some reg' \<Rightarrow> register_all ops reg')"

definition get_op :: "op_spec list \<Rightarrow> str \<Rightarrow> (permission \<times> execution) option" where
  "get_op reg name = map_of reg name"

definition op_names :: "op_spec list \<Rightarrow> str list" where
  "op_names reg = sort (map fst reg)"

lemma register_all_ok: "distinct (map fst (reg @ ops)) \<Longrightarrow> register_all ops reg = Some (reg @ ops)"
proof (induction ops arbitrary: reg)
  case (Cons op ops)
  from Cons.prems have "fst op \<notin> fst ` set reg" "distinct (map fst ((reg @ [op]) @ ops))" by auto
  with Cons.IH [of "reg @ [op]"] show ?case by (simp add: register_def)
qed simp

definition name_ok :: "str \<Rightarrow> bool" where
  "name_ok n \<longleftrightarrow> CHR ''.'' \<in> set n
     \<and> list_all (\<lambda>b. is_ascii_lowercase b \<or> is_ascii_digit b \<or> b = CHR ''.'' \<or> b = CHR ''_'') n"

lemmas op_table_defs = op_table_def ops_first_def ops_second_def ops_third_def ops_fourth_def

lemma distinct_first: "distinct (map fst ops_first)"
  by (simp add: ops_first_def)

lemma distinct_second: "distinct (map fst ops_second)"
  by (simp add: ops_second_def)

lemma distinct_third: "distinct (map fst ops_third)"
  by (simp add: ops_third_def)

lemma distinct_fourth: "distinct (map fst ops_fourth)"
  by (simp add: ops_fourth_def)

lemma disjoint_first_second: "fst ` set ops_first \<inter> fst ` set ops_second = {}"
  by (simp add: ops_first_def ops_second_def)

lemma disjoint_first_third: "fst ` set ops_first \<inter> fst ` set ops_third = {}"
  by (simp add: ops_first_def ops_third_def)

lemma disjoint_first_fourth: "fst ` set ops_first \<inter> fst ` set ops_fourth = {}"
  by (simp add: ops_first_def ops_fourth_def)

lemma disjoint_second_third: "fst ` set ops_second \<inter> fst ` set ops_third = {}"
  by (simp add: ops_second_def ops_third_def)

lemma disjoint_second_fourth: "fst ` set ops_second \<inter> fst ` set ops_fourth = {}"
  by (simp add: ops_second_def ops_fourth_def)

lemma disjoint_third_fourth: "fst ` set ops_third \<inter> fst ` set ops_fourth = {}"
  by (simp add: ops_third_def ops_fourth_def)

lemma op_table_names: "distinct (map fst op_table)"
  using distinct_first distinct_second distinct_third distinct_fourth disjoint_first_second disjoint_first_third
    disjoint_first_fourth disjoint_second_third disjoint_second_fourth disjoint_third_fourth
  by (simp add: op_table_def Int_Un_distrib)

lemma op_table_name_ok: "list_all name_ok (map fst op_table)"
  by (simp add: op_table_defs name_ok_def is_ascii_lowercase_def is_ascii_digit_def byte_def)

definition namespace :: "str \<Rightarrow> str" where
  "namespace n = takeWhile (\<lambda>b. b \<noteq> CHR ''.'') n"

definition customer_namespaces :: "str list" where
  "customer_namespaces = [''backup'', ''cert'', ''cron'', ''db'', ''dns'', ''fs'', ''git'', ''quota'', ''site'',
     ''ssh'', ''subscription'', ''sys'', ''wp'']"

lemma customer_first: "list_all (\<lambda>(n, p, e). p \<in> set (default_permissions Customer) \<longrightarrow> namespace n \<in> set customer_namespaces) ops_first"
  by (simp add: ops_first_def) (simp add: namespace_def customer_namespaces_def)

lemma customer_second: "list_all (\<lambda>(n, p, e). p \<in> set (default_permissions Customer) \<longrightarrow> namespace n \<in> set customer_namespaces) ops_second"
  by (simp add: ops_second_def) (simp add: namespace_def customer_namespaces_def)

lemma customer_third: "list_all (\<lambda>(n, p, e). p \<in> set (default_permissions Customer) \<longrightarrow> namespace n \<in> set customer_namespaces) ops_third"
  by (simp add: ops_third_def) (simp add: namespace_def customer_namespaces_def)

lemma customer_fourth: "list_all (\<lambda>(n, p, e). p \<in> set (default_permissions Customer) \<longrightarrow> namespace n \<in> set customer_namespaces) ops_fourth"
  by (simp add: ops_fourth_def) (simp add: namespace_def customer_namespaces_def)

lemma customer_ops:
  "list_all (\<lambda>(n, p, e). p \<in> set (default_permissions Customer) \<longrightarrow> namespace n \<in> set customer_namespaces) op_table"
  using customer_first customer_second customer_third customer_fourth by (simp add: op_table_def)

end
