(* ===== verification/Dispatch.thy ===== *)
theory Dispatch
  imports Registry Users
begin

text \<open>
  From a request frame to an operation: \<open>verify_auth\<close> and \<open>dispatch\<close> of
  \<open>unihelm-ops/src/registry.rs\<close>, the blanket \<open>Operation::invoke\<close>, and the requests of
  \<open>unihelm-agentd/src/handler.rs\<close>. The state \<open>'w\<close> the operations work on is arbitrary, \<open>users_of\<close>
  reads the account table in it, and the bodies are the argument \<open>body\<close>. The lemmas show that a
  body runs exactly for an active account of the claimed role with the permission, and what a
  forged frame can and cannot gain.
\<close>

section \<open>Running an operation\<close>

record op_context =
  cx_auth :: auth_context
  cx_task :: "task_id option"

text \<open>
  \<open>invoke\<close>: \<open>parse\<close> and \<open>serialise\<close> are the serde instances of the operation's types, \<open>run\<close>
  its body.
\<close>

definition invoke ::
  "str \<Rightarrow> ('j \<Rightarrow> str + 'i) \<Rightarrow> (op_context \<Rightarrow> 'i \<Rightarrow> 'w \<Rightarrow> 'w \<times> 'o res) \<Rightarrow> ('o \<Rightarrow> str + 'j)
   \<Rightarrow> op_context \<Rightarrow> 'j \<Rightarrow> 'w \<Rightarrow> 'w \<times> 'j res" where
  "invoke name parse run serialise ctx input w =
     (case parse input of
        Inl e \<Rightarrow> (w, Inl (with_field (new_error InvalidInput (''invalid input for `'' @ name @ ''`: '' @ e)) ''input''))
      | Inr typed \<Rightarrow>
          (case run ctx typed w of
             (w', Inl e) \<Rightarrow> (w', Inl e)
           | (w', Inr out) \<Rightarrow>
               (w', r_map_err (\<lambda>e. internal_error (''`'' @ name @ ''` produced output that will not serialise: '' @ e))
                     (serialise out))))"

definition verify_auth :: "'c codec \<Rightarrow> users_table \<Rightarrow> auth_context \<Rightarrow> auth_context res" where
  "verify_auth c users claimed =
     r_bind (r_map_err uni_error_from (user_by_id c FAll users (actor_user_id claimed))) (\<lambda>found.
     r_bind (ok_or (new_error PermissionDenied ''the acting account no longer exists'') found) (\<lambda>u.
       if \<not> can_log_in (u_status u) then Inl (new_error AccountSuspended ''the acting account is not active'')
       else if u_role u \<noteq> acting_role claimed then
         Inl (new_error PermissionDenied ''the acting role does not match the account'')
       else Inr (restrict_to claimed (effective_permissions u))))"

definition unknown_operation :: "str \<Rightarrow> uni_error" where
  "unknown_operation name = new_error UnknownOperation (''`'' @ name @ ''` is not a registered operation'')"

type_synonym ('w, 'j) bodies = "str \<Rightarrow> op_context \<Rightarrow> 'j \<Rightarrow> 'w \<Rightarrow> 'w \<times> 'j res"

definition dispatch ::
  "'c codec \<Rightarrow> ('w \<Rightarrow> users_table) \<Rightarrow> op_spec list \<Rightarrow> ('w, 'j) bodies \<Rightarrow> str \<Rightarrow> auth_context \<Rightarrow> 'j \<Rightarrow> task_id option
   \<Rightarrow> 'w \<Rightarrow> 'w \<times> 'j res" where
  "dispatch c users_of reg body name auth input task w =
     (case get_op reg name of
        None \<Rightarrow> (w, Inl (unknown_operation name))
      | Some (perm, _) \<Rightarrow>
          (case verify_auth c (users_of w) auth of
             Inl e \<Rightarrow> (w, Inl e)
           | Inr verified \<Rightarrow>
               (case require_perm verified perm of
                  Inl e \<Rightarrow> (w, Inl e)
                | Inr _ \<Rightarrow> body name \<lparr>cx_auth = verified, cx_task = task\<rparr> input w)))"

section \<open>Requests\<close>

text \<open>
  A connection with the agent's state behind it: the operations' world, the task rows, the task
  ids it watches, and the tasks handed to a worker with the request they run.
\<close>

record ('w, 'j) agent =
  ag_world :: 'w
  ag_tasks :: tasks_db
  ag_interests :: "task_id set"
  ag_spawned :: "(task_id \<times> 'j request_frame) list"

text \<open>\<open>tid\<close> is the fresh task id; \<open>users_of\<close> gives the accounts the foreign key refers to.\<close>

definition handle_request ::
  "'j codec \<Rightarrow> ('w \<Rightarrow> users_table) \<Rightarrow> op_spec list \<Rightarrow> ('w, 'j) bodies \<Rightarrow> int \<Rightarrow> task_id \<Rightarrow> 'j request_frame
   \<Rightarrow> ('w, 'j) agent \<Rightarrow> ('w, 'j) agent \<times> 'j response_body" where
  "handle_request c users_of reg body now tid req st =
     (case get_op reg (rq_op req) of
        None \<Rightarrow> (st, RespErr (unknown_operation (rq_op req)))
      | Some (_, Immediate) \<Rightarrow>
          (case dispatch c users_of reg body (rq_op req) (rq_auth req) (rq_input req) None (ag_world st) of
             (w, Inr out) \<Rightarrow> (st\<lparr>ag_world := w\<rparr>, RespOk out)
           | (w, Inl e) \<Rightarrow> (st\<lparr>ag_world := w\<rparr>, RespErr e))
      | Some (_, TaskExec cancellable idempotent) \<Rightarrow>
          (case create_task c (ur_id ` set (ut_rows (users_of (ag_world st)))) now
                  \<lparr>nt_id = tid, nt_op = rq_op req, nt_input = rq_input req,
                   nt_actor_user_id = Some (actor_user_id (rq_auth req)),
                   nt_subscription_id = scope_subscription_id (tenant_scope (rq_auth req)),
                   nt_cancellable = cancellable, nt_idempotent = idempotent,
                   nt_request_id = Some (request_id (rq_auth req))\<rparr> (ag_tasks st) of
             (db, Inl e) \<Rightarrow> (st\<lparr>ag_tasks := db\<rparr>, RespErr (uni_error_from e))
           | (db, Inr _) \<Rightarrow>
               (st\<lparr>ag_tasks := db, ag_interests := insert tid (ag_interests st),
                  ag_spawned := ag_spawned st @ [(tid, req)]\<rparr>, RespTask tid)))"

text \<open>The worker of a spawned task: the operation under its task id, then the record of its end.\<close>

definition run_spawned ::
  "'j codec \<Rightarrow> ('w \<Rightarrow> users_table) \<Rightarrow> op_spec list \<Rightarrow> ('w, 'j) bodies \<Rightarrow> int \<Rightarrow> str list \<Rightarrow> event_kind list
   \<Rightarrow> task_id \<times> 'j request_frame \<Rightarrow> ('w, 'j) agent \<Rightarrow> ('w, 'j) agent \<times> event_kind list" where
  "run_spawned c users_of reg body now lines bus job st =
     (case job of (tid, req) \<Rightarrow>
        (case start_task c now tid (ag_tasks st) of
           (db, Inl _) \<Rightarrow> (st\<lparr>ag_tasks := db\<rparr>, bus)
         | (_, Inr _) \<Rightarrow>
             (case dispatch c users_of reg body (rq_op req) (rq_auth req) (rq_input req) (Some tid) (ag_world st) of
                (w, r) \<Rightarrow>
                  (case spawn_task c now tid lines r (\<lambda>db. db) (ag_tasks st, bus) of
                     (db, bus') \<Rightarrow> (st\<lparr>ag_world := w, ag_tasks := db\<rparr>, bus')))))"

fun event_task_id :: "event_kind \<Rightarrow> task_id option" where
  "event_task_id (TaskLog i _ _) = Some i"
| "event_task_id (TaskState i _ _ _) = Some i"
| "event_task_id _ = None"

text \<open>The events of the bus a connection is sent.\<close>

definition forwarded :: "task_id set \<Rightarrow> event_kind list \<Rightarrow> event_kind list" where
  "forwarded interests bus = filter (\<lambda>e. case event_task_id e of None \<Rightarrow> False | Some i \<Rightarrow> i \<in> interests) bus"

text \<open>The control frames of tasks, with the events published on the bus and those sent back.\<close>

definition handle_task_control ::
  "'j codec \<Rightarrow> str \<Rightarrow> int \<Rightarrow> control_frame \<Rightarrow> ('w, 'j) agent \<Rightarrow> ('w, 'j) agent \<times> event_kind list \<times> event_frame list" where
  "handle_task_control c version now ctl st =
     (case cf_kind ctl of
        Ping \<Rightarrow> (st, [], [event_for_request (cf_id ctl) (Pong version)])
      | Subscribe i \<Rightarrow> (st\<lparr>ag_interests := insert i (ag_interests st)\<rparr>, [], [])
      | Unsubscribe i \<Rightarrow> (st\<lparr>ag_interests := ag_interests st - {i}\<rparr>, [], [])
      | CancelTask i \<Rightarrow>
          (case cancel_task c now i (ag_tasks st) of
             (db, Inr _) \<Rightarrow> (st\<lparr>ag_tasks := db\<rparr>, [TaskState i ''cancelled'' None (Some ''cancelled by request'')], [])
           | (db, Inl _) \<Rightarrow> (st\<lparr>ag_tasks := db\<rparr>, [], []))
      | _ \<Rightarrow> (st, [], []))"

section \<open>Whose rights\<close>

lemma verify_auth_ok:
  "verify_auth c users claimed = Inr v \<longleftrightarrow>
     (\<exists>r u. fetch_user FAll (ut_rows users) (actor_user_id claimed) = Some r \<and> user_of_row c r = Inr u
        \<and> can_log_in (u_status u) \<and> u_role u = acting_role claimed
        \<and> v = restrict_to claimed (effective_permissions u))"
proof
  assume "verify_auth c users claimed = Inr v"
  then show "\<exists>r u. fetch_user FAll (ut_rows users) (actor_user_id claimed) = Some r \<and> user_of_row c r = Inr u
      \<and> can_log_in (u_status u) \<and> u_role u = acting_role claimed \<and> v = restrict_to claimed (effective_permissions u)"
    by (auto simp: verify_auth_def result_simps user_by_id_Some split: if_splits)
next
  assume "\<exists>r u. fetch_user FAll (ut_rows users) (actor_user_id claimed) = Some r \<and> user_of_row c r = Inr u
      \<and> can_log_in (u_status u) \<and> u_role u = acting_role claimed \<and> v = restrict_to claimed (effective_permissions u)"
  then obtain u where u: "user_by_id c FAll users (actor_user_id claimed) = Inr (Some u)" "can_log_in (u_status u)"
    "u_role u = acting_role claimed" "v = restrict_to claimed (effective_permissions u)"
    by (auto simp: user_by_id_Some)
  then show "verify_auth c users claimed = Inr v"
    by (simp add: verify_auth_def ok_or_def)
qed

lemma verify_auth_err_codes:
  assumes "verify_auth c users claimed = Inl e" "\<forall>r \<in> set (ut_rows users). \<exists>u. user_of_row c r = Inr u"
  shows "err_code e \<in> {PermissionDenied, AccountSuspended}"
proof -
  have no_err: "user_by_id c FAll users i \<noteq> Inl x" for i x
    using assms(2) users.fetch_sound [of FAll "ut_rows users" i]
    by (auto simp: user_by_id_def result_simps split: option.splits) force
  show ?thesis
    using assms(1) no_err by (auto simp: verify_auth_def result_simps split: if_splits)
qed

lemma dispatch_cases:
  obtains (refused) e where "dispatch c users_of reg body name auth input task w = (w, Inl e)"
      "get_op reg name = None \<or> \<not> is_ok (verify_auth c (users_of w) auth)
       \<or> (\<exists>v p x. verify_auth c (users_of w) auth = Inr v \<and> get_op reg name = Some (p, x) \<and> \<not> has_perm v p)"
  | (ran) v p x where "get_op reg name = Some (p, x)" "verify_auth c (users_of w) auth = Inr v" "has_perm v p"
      "dispatch c users_of reg body name auth input task w = body name \<lparr>cx_auth = v, cx_task = task\<rparr> input w"
proof (cases "get_op reg name")
  case None
  then show ?thesis using that(1) by (simp add: dispatch_def)
next
  case (Some px)
  obtain p x where px: "px = (p, x)" by (cases px)
  show ?thesis
  proof (cases "verify_auth c (users_of w) auth")
    case (Inl e)
    then show ?thesis using that(1) [of e] Some px by (simp add: dispatch_def)
  next
    case (Inr v)
    then show ?thesis
      using that(1) that(2) [of p x v] Some px by (cases "has_perm v p") (auto simp: dispatch_def require_perm_def)
  qed
qed

lemma default_table_permission:
  assumes "get_op op_table name = Some (p, x)" "namespace name \<notin> set customer_namespaces"
  shows "p \<notin> set (default_permissions Customer)"
proof -
  have "(name, p, x) \<in> set op_table"
    using assms(1) by (auto simp: get_op_def dest: map_of_SomeD)
  then show ?thesis
    using customer_ops assms(2) by (fastforce simp: list_all_iff)
qed

text \<open>The scope and the impersonator of the frame are taken as claimed.\<close>

lemma verify_keeps_any_claimed_scope:
  "verify_auth c users claimed = Inr v \<Longrightarrow>
     verify_auth c users (claimed\<lparr>tenant_scope := s, impersonator_id := i\<rparr>) = Inr (v\<lparr>tenant_scope := s, impersonator_id := i\<rparr>)"
  by (auto simp: verify_auth_ok restrict_to_def)

section \<open>Properties\<close>

text \<open>
  C1: An operation's body runs only for a caller who may use it. Whatever the frame claims, either
  nothing changes and the answer is an error, or the operation is registered, the acting account
  exists and is active, its role is the one claimed, and the permission the operation needs is
  both claimed and held; the body then runs once, with the claimed context cut down to the
  permissions the account has in the database.
\<close>

theorem operations_run_only_with_rights:
  assumes "dispatch c users_of reg body name auth input task w = (w', res)"
  shows "(w' = w \<and> \<not> is_ok res)
    \<or> (\<exists>p x r u. get_op reg name = Some (p, x) \<and> fetch_user FAll (ut_rows (users_of w)) (actor_user_id auth) = Some r
        \<and> user_of_row c r = Inr u \<and> can_log_in (u_status u) \<and> u_role u = acting_role auth
        \<and> p \<in> permissions auth \<and> p \<in> set (effective_permissions u)
        \<and> body name \<lparr>cx_auth = restrict_to auth (effective_permissions u), cx_task = task\<rparr> input w = (w', res))"
proof (rule dispatch_cases [of c users_of reg body name auth input task w])
  fix e assume "dispatch c users_of reg body name auth input task w = (w, Inl e)"
  with assms have "w' = w" "\<not> is_ok res" by auto
  then show ?thesis by blast
next
  fix v p x
  assume ran: "get_op reg name = Some (p, x)" "verify_auth c (users_of w) auth = Inr v" "has_perm v p"
    "dispatch c users_of reg body name auth input task w = body name \<lparr>cx_auth = v, cx_task = task\<rparr> input w"
  from ran(2) obtain r u where
    "fetch_user FAll (ut_rows (users_of w)) (actor_user_id auth) = Some r \<and> user_of_row c r = Inr u
     \<and> can_log_in (u_status u) \<and> u_role u = acting_role auth \<and> v = restrict_to auth (effective_permissions u)"
    by (auto simp: verify_auth_ok)
  with ran assms show ?thesis by (auto simp: has_perm_def)
qed

definition no_accounts :: "unit \<Rightarrow> users_table" where
  "no_accounts w = \<lparr>ut_rows = [], ut_seq = 0\<rparr>"

definition sample_auth :: auth_context where
  "sample_auth = from_role 7 Customer (ScCustomer 7) ''r''"

theorem operations_run_only_with_rights_witness:
  "\<not> is_ok (snd (dispatch sample_codec no_accounts op_table (\<lambda>_ _ _ w. (w, Inr ())) ''sys.ping'' sample_auth () None ()))"
proof -
  have "fetch_user FAll (ut_rows (no_accounts ())) i \<noteq> Some r" for i r
    by (simp add: no_accounts_def fetch_user_def)
  then show ?thesis
    using operations_run_only_with_rights [OF prod.collapse [symmetric], of sample_codec no_accounts op_table
      "\<lambda>_ _ _ w. (w, Inr ())" "''sys.ping''" sample_auth "()" None "()"] by auto
qed

text \<open>
  C8: What a customer can reach. The build's table registers without a name clash, every name is
  dotted and lower case, and an account whose stored role is customer, whatever permissions were
  stored for it and whatever its frames claim, can run no operation outside thirteen namespaces:
  services, packages, the firewall, containers, mail, plans and accounts are not among them.
\<close>

theorem customers_reach_only_their_operations:
  "register_all op_table [] = Some op_table \<and> list_all name_ok (map fst op_table)
   \<and> (\<forall>c users_of (body :: ('w, 'j) bodies) name auth input task (w :: 'w) r u.
        fetch_user FAll (ut_rows (users_of w)) (actor_user_id auth) = Some r \<and> user_of_row c r = Inr u
        \<and> u_role u = Customer \<and> namespace name \<notin> set customer_namespaces \<longrightarrow>
          (\<exists>e. dispatch c users_of op_table body name auth input task w = (w, Inl e)))"
proof (intro conjI allI impI)
  show "register_all op_table [] = Some op_table"
    using register_all_ok [of "[]" op_table] op_table_names by simp
  show "list_all name_ok (map fst op_table)" by (rule op_table_name_ok)
next
  fix c :: "'c codec" and users_of :: "'w \<Rightarrow> users_table" and body :: "('w, 'j) bodies" and name and auth :: auth_context
    and input task w r u
  assume a: "fetch_user FAll (ut_rows (users_of w)) (actor_user_id auth) = Some r \<and> user_of_row c r = Inr u
    \<and> u_role u = Customer \<and> namespace name \<notin> set customer_namespaces"
  show "\<exists>e. dispatch c users_of op_table body name auth input task w = (w, Inl e)"
  proof (rule dispatch_cases [of c users_of op_table body name auth input task w])
    fix v p x
    assume ran: "get_op op_table name = Some (p, x)" "verify_auth c (users_of w) auth = Inr v" "has_perm v p"
    have "p \<in> set (effective_permissions u)"
      using ran(2,3) a by (auto simp: verify_auth_ok has_perm_def)
    then have "p \<in> set (default_permissions Customer)"
      using a effective_subset [of u] by auto
    with default_table_permission [OF ran(1)] a show ?thesis by blast
  qed blast
qed

theorem customers_reach_only_their_operations_witness:
  "namespace ''docker.remove'' \<notin> set customer_namespaces \<and> register_all op_table [] = Some op_table"
proof -
  have "namespace ''docker.remove'' \<notin> set customer_namespaces"
    by (simp add: namespace_def customer_namespaces_def)
  then show ?thesis using customers_reach_only_their_operations by blast
qed

text \<open>
  Rights are those of the moment the work runs, not of the moment it was asked for. A task
  that is still queued when its account is suspended, deleted or loses the role or the
  permission runs nothing: the worker leaves the world as it is and announces the failure.
\<close>

theorem queued_work_is_rechecked:
  assumes "\<not> is_ok (verify_auth c (users_of (ag_world st)) (rq_auth req))
      \<or> (\<forall>v p x. verify_auth c (users_of (ag_world st)) (rq_auth req) = Inr v \<longrightarrow>
           get_op reg (rq_op req) = Some (p, x) \<longrightarrow> \<not> has_perm v p)"
  shows "ag_world (fst (run_spawned c users_of reg body now lines bus (tid, req) st)) = ag_world st
    \<and> (is_ok (snd (start_task c now tid (ag_tasks st))) \<longrightarrow>
         (\<exists>evs d. snd (run_spawned c users_of reg body now lines bus (tid, req) st) = evs @ [publish_state tid ''failed'' (Some d)]))"
proof -
  obtain e where e: "dispatch c users_of reg body (rq_op req) (rq_auth req) (rq_input req) (Some tid) (ag_world st) = (ag_world st, Inl e)"
    by (rule dispatch_cases [of c users_of reg body "rq_op req" "rq_auth req" "rq_input req" "Some tid" "ag_world st"])
      (use assms in auto)
  obtain db1 s where s: "start_task c now tid (ag_tasks st) = (db1, s)" by fastforce
  show ?thesis
  proof (cases s)
    case (Inl x)
    then show ?thesis by (simp add: run_spawned_def s)
  next
    case (Inr x)
    obtain db2 bus2 where p: "pump c now tid lines (db1, bus @ [publish_state tid ''running'' None]) = (db2, bus2)" by fastforce
    have "spawn_task c now tid lines (Inl e) (\<lambda>db. db) (ag_tasks st, bus)
        = (record_failure c now tid e db2, bus2 @ [publish_state tid ''failed'' (Some (detail e))])"
      by (simp add: spawn_task_def s Inr p)
    then show ?thesis by (auto simp: run_spawned_def s Inr e)
  qed
qed

theorem queued_work_is_rechecked_witness:
  "ag_world (fst (run_spawned sample_codec no_accounts op_table (\<lambda>_ _ _ w. (w, Inr ())) 5 [] [] (1,
     \<lparr>rq_v = 1, rq_id = 1, rq_op = ''site.delete'', rq_auth = sample_auth, rq_input = ()\<rparr>)
     \<lparr>ag_world = (), ag_tasks = \<lparr>tk_rows = [], tk_logs = []\<rparr>, ag_interests = {}, ag_spawned = []\<rparr>)) = ()"
proof -
  have "\<not> is_ok (verify_auth sample_codec (no_accounts ()) sample_auth)"
    by (simp add: verify_auth_def no_accounts_def user_by_id_def fetch_user_def ok_or_def)
  then show ?thesis
    using queued_work_is_rechecked [of sample_codec no_accounts
      "\<lparr>ag_world = (), ag_tasks = \<lparr>tk_rows = [], tk_logs = []\<rparr>, ag_interests = {}, ag_spawned = []\<rparr>"
      "\<lparr>rq_v = 1, rq_id = 1, rq_op = ''site.delete'', rq_auth = sample_auth, rq_input = ()\<rparr>"]
    by simp
qed

end
