(* ===== verification/Subscriptions.thy ===== *)
theory Subscriptions
  imports Users
begin

text \<open>
  Subscriptions and the plans they are on, \<open>unihelm-db/src/subscriptions.rs\<close> and
  \<open>plans.rs\<close>. The random draws behind an account name are an argument. The lemmas show tenant
  isolation of both repositories, who may change a plan, that no subscription ever points at a
  missing plan, and what a new subscription looks like.
\<close>

section \<open>Rows\<close>

datatype subscription_status = SubActive | SubSuspended | SubPendingDelete

fun subscription_status_as_str :: "subscription_status \<Rightarrow> str" where
  "subscription_status_as_str SubActive = ''active''"
| "subscription_status_as_str SubSuspended = ''suspended''"
| "subscription_status_as_str SubPendingDelete = ''pending_delete''"

definition subscription_status_parse :: "str \<Rightarrow> subscription_status db_res" where
  "subscription_status_parse s =
     (if s = ''active'' then Inr SubActive
      else if s = ''suspended'' then Inr SubSuspended
      else if s = ''pending_delete'' then Inr SubPendingDelete
      else Inl (Corrupt ''subscriptions.status'' (''unknown status `'' @ s @ ''`'')))"

fun can_serve :: "subscription_status \<Rightarrow> bool" where
  "can_serve SubActive = True"
| "can_serve _ = False"

lemma subscription_status_reads [simp]: "subscription_status_parse (subscription_status_as_str v) = Inr v"
  by (cases v) (simp_all add: subscription_status_parse_def)

record subscription =
  sb_id :: subscription_id
  sb_customer_id :: user_id
  sb_plan_id :: "int option"
  sb_linux_user :: str
  sb_home_dir :: str
  sb_status :: subscription_status
  sb_suspended_reason :: "str option"
  sb_suspended_at :: "int option"
  sb_created_at :: int

record subscription_row =
  sbr_id :: int
  sbr_customer_id :: int
  sbr_plan_id :: "int option"
  sbr_linux_user :: str
  sbr_home_dir :: str
  sbr_status :: str
  sbr_suspended_reason :: "str option"
  sbr_suspended_at :: "str option"
  sbr_created_at :: str
  sbr_updated_at :: str

definition subscription_of_row :: "'j codec \<Rightarrow> subscription_row \<Rightarrow> subscription db_res" where
  "subscription_of_row c r =
     r_bind (subscription_status_parse (sbr_status r)) (\<lambda>status.
     r_bind (from_sql_time_opt c (sbr_suspended_at r)) (\<lambda>suspended_at.
     r_bind (from_sql_time c (sbr_created_at r)) (\<lambda>created.
       Inr \<lparr>sb_id = sbr_id r, sb_customer_id = sbr_customer_id r, sb_plan_id = sbr_plan_id r,
            sb_linux_user = sbr_linux_user r, sb_home_dir = sbr_home_dir r, sb_status = status,
            sb_suspended_reason = sbr_suspended_reason r, sb_suspended_at = suspended_at, sb_created_at = created\<rparr>)))"

record plan =
  pl_id :: plan_id
  pl_owner_user_id :: "user_id option"
  pl_name :: str
  pl_max_sites :: int
  pl_max_dbs :: int
  pl_storage_mb :: int
  pl_can_ssh :: bool
  pl_can_cron :: bool
  pl_can_node_apps :: bool
  pl_created_at :: int
  pl_updated_at :: int

record plan_row =
  pr_id :: int
  pr_owner_user_id :: "int option"
  pr_name :: str
  pr_max_sites :: int
  pr_max_dbs :: int
  pr_storage_mb :: int
  pr_can_ssh :: int
  pr_can_cron :: int
  pr_can_node_apps :: int
  pr_created_at :: str
  pr_updated_at :: str

definition plan_of_row :: "'j codec \<Rightarrow> plan_row \<Rightarrow> plan db_res" where
  "plan_of_row c r =
     r_bind (from_sql_time c (pr_created_at r)) (\<lambda>created.
     r_bind (from_sql_time c (pr_updated_at r)) (\<lambda>updated.
       Inr \<lparr>pl_id = pr_id r, pl_owner_user_id = pr_owner_user_id r, pl_name = pr_name r,
            pl_max_sites = pr_max_sites r, pl_max_dbs = pr_max_dbs r, pl_storage_mb = pr_storage_mb r,
            pl_can_ssh = (pr_can_ssh r \<noteq> 0), pl_can_cron = (pr_can_cron r \<noteq> 0),
            pl_can_node_apps = (pr_can_node_apps r \<noteq> 0), pl_created_at = created, pl_updated_at = updated\<rparr>))"

record new_plan =
  np_owner_user_id :: "user_id option"
  np_name :: str
  np_max_sites :: int
  np_max_dbs :: int
  np_storage_mb :: int
  np_can_ssh :: bool
  np_can_cron :: bool
  np_can_node_apps :: bool

record plan_update =
  pu_name :: "str option"
  pu_max_sites :: "int option"
  pu_max_dbs :: "int option"
  pu_storage_mb :: "int option"
  pu_can_ssh :: "bool option"
  pu_can_cron :: "bool option"
  pu_can_node_apps :: "bool option"

record accounts_db =
  ad_users :: users_table
  ad_subs :: "subscription_row list"
  ad_sub_seq :: int
  ad_plans :: "plan_row list"
  ad_plan_seq :: int

section \<open>Subscriptions\<close>

definition subscription_visible :: "users_table \<Rightarrow> scope_filter \<Rightarrow> subscription_row \<Rightarrow> bool" where
  "subscription_visible users f r =
     (case f of
        FAll \<Rightarrow> True
      | FReseller reseller \<Rightarrow>
          list_ex (\<lambda>u. ur_id u = sbr_customer_id r \<and> ur_reseller_id u = Some reseller) (ut_rows users)
      | FCustomer customer \<Rightarrow> sbr_customer_id r = customer
      | FSubscription s _ \<Rightarrow> sbr_id r = s)"

definition fetch_subscription :: "users_table \<Rightarrow> scope_filter \<Rightarrow> subscription_row list \<Rightarrow> int \<Rightarrow> subscription_row option" where
  "fetch_subscription users f rows i = find (\<lambda>r. sbr_id r = i \<and> subscription_visible users f r) rows"

definition subscription_by_id :: "'j codec \<Rightarrow> scope_filter \<Rightarrow> accounts_db \<Rightarrow> subscription_id \<Rightarrow> subscription option db_res" where
  "subscription_by_id c f db i =
     (case fetch_subscription (ad_users db) f (ad_subs db) i of
        None \<Rightarrow> Inr None
      | Some r \<Rightarrow> r_bind (subscription_of_row c r) (\<lambda>s. Inr (Some s)))"

definition subscriptions_page :: "scope_filter \<Rightarrow> accounts_db \<Rightarrow> int \<Rightarrow> int \<Rightarrow> subscription_row list" where
  "subscriptions_page f db lim off =
     (let rows = rev (sort_key sbr_id (filter (subscription_visible (ad_users db) f) (ad_subs db)))
      in case f of
           FSubscription _ _ \<Rightarrow> rows
         | _ \<Rightarrow> take (nat (max 1 (min lim 500))) (drop (nat off) rows))"

definition list_subscriptions :: "'j codec \<Rightarrow> scope_filter \<Rightarrow> accounts_db \<Rightarrow> int \<Rightarrow> int \<Rightarrow> subscription list db_res" where
  "list_subscriptions c f db lim off = collect_results (map (subscription_of_row c) (subscriptions_page f db lim off))"

definition subscription_by_linux_user :: "'j codec \<Rightarrow> accounts_db \<Rightarrow> str \<Rightarrow> subscription option db_res" where
  "subscription_by_linux_user c db lu =
     (case find (\<lambda>r. sbr_linux_user r = lu) (ad_subs db) of
        None \<Rightarrow> Inr None
      | Some r \<Rightarrow> r_bind (subscription_of_row c r) (\<lambda>s. Inr (Some s)))"

definition name_alphabet :: str where
  "name_alphabet = ''abcdefghijkmnopqrstuvwxyz23456789''"

text \<open>\<open>draws\<close> are the eight results of \<open>gen_range\<close>.\<close>

definition generate_linux_user :: "nat list \<Rightarrow> str" where
  "generate_linux_user draws = ''uh_'' @ map (\<lambda>d. name_alphabet ! (d mod length name_alphabet)) draws"

definition new_subscription_row :: "'j codec \<Rightarrow> int \<Rightarrow> int \<Rightarrow> user_id \<Rightarrow> linux_user \<Rightarrow> subscription_row" where
  "new_subscription_row c i now customer lu =
     \<lparr>sbr_id = i, sbr_customer_id = customer, sbr_plan_id = None, sbr_linux_user = linux_user_as_str lu,
      sbr_home_dir = ''/home/'' @ linux_user_as_str lu, sbr_status = ''active'', sbr_suspended_reason = None,
      sbr_suspended_at = None, sbr_created_at = to_sql_time c now, sbr_updated_at = to_sql_time c now\<rparr>"

text \<open>A taken name is a unique violation and is retried; a missing customer fails the foreign key.\<close>

fun create_attempts ::
  "'j codec \<Rightarrow> int \<Rightarrow> user_id \<Rightarrow> str list \<Rightarrow> accounts_db \<Rightarrow> accounts_db \<times> subscription db_res" where
  "create_attempts c now customer [] db = (db, Inl (DbConflict ''linux user name''))"
| "create_attempts c now customer (cand # rest) db =
     (case linux_user_parse cand of
        Inl e \<Rightarrow> (db, Inl (DomainErr e))
      | Inr lu \<Rightarrow>
          if list_ex (\<lambda>r. sbr_linux_user r = linux_user_as_str lu) (ad_subs db) then create_attempts c now customer rest db
          else if \<not> list_ex (\<lambda>u. ur_id u = customer) (ut_rows (ad_users db))
          then (db, Inl (Sqlx ''FOREIGN KEY constraint failed''))
          else
            let i = ad_sub_seq db + 1; row = new_subscription_row c i now customer lu
            in (db\<lparr>ad_subs := ad_subs db @ [row], ad_sub_seq := i\<rparr>, subscription_of_row c row))"

definition create_subscription ::
  "'j codec \<Rightarrow> int \<Rightarrow> (nat \<Rightarrow> nat list) \<Rightarrow> user_id \<Rightarrow> accounts_db \<Rightarrow> accounts_db \<times> subscription db_res" where
  "create_subscription c now draws customer db =
     create_attempts c now customer (map (\<lambda>k. generate_linux_user (draws k)) [0..<8]) db"

definition user_role :: "'j codec \<Rightarrow> accounts_db \<Rightarrow> user_id \<Rightarrow> role option db_res" where
  "user_role c db i = r_bind (user_by_id c FAll (ad_users db) i) (\<lambda>u. Inr (map_option u_role u))"

definition default_subscription_for ::
  "'j codec \<Rightarrow> int \<Rightarrow> (nat \<Rightarrow> nat list) \<Rightarrow> user_id \<Rightarrow> accounts_db \<Rightarrow> accounts_db \<times> subscription db_res" where
  "default_subscription_for c now draws customer db =
     (case sort_key sbr_id (filter (\<lambda>r. sbr_customer_id r = customer \<and> sbr_status r = ''active'') (ad_subs db)) of
        r # _ \<Rightarrow> (db, subscription_of_row c r)
      | [] \<Rightarrow>
          (case user_role c db customer of
             Inl e \<Rightarrow> (db, Inl e)
           | Inr role \<Rightarrow>
               if role = Some Reseller then
                 (db, Inl (DomainErr (with_field (invalid_error ''name the subscription this belongs to'') ''subscription_id'')))
               else create_subscription c now draws customer db))"

definition set_subscription_status ::
  "'j codec \<Rightarrow> int \<Rightarrow> subscription_id \<Rightarrow> subscription_status \<Rightarrow> str option \<Rightarrow> accounts_db \<Rightarrow> accounts_db" where
  "set_subscription_status c now i status reason db =
     (let ts = to_sql_time c now
      in db\<lparr>ad_subs := fst (sql_update (\<lambda>r. sbr_id r = i)
              (\<lambda>r. r\<lparr>sbr_status := subscription_status_as_str status, sbr_suspended_reason := reason,
                     sbr_suspended_at := (if status = SubActive then None else Some ts), sbr_updated_at := ts\<rparr>) (ad_subs db))\<rparr>)"

section \<open>Plans\<close>

definition plan_of_subscription :: "'j codec \<Rightarrow> accounts_db \<Rightarrow> subscription_id \<Rightarrow> plan option db_res" where
  "plan_of_subscription c db i =
     (case find (\<lambda>p. list_ex (\<lambda>s. sbr_id s = i \<and> sbr_plan_id s = Some (pr_id p)) (ad_subs db)) (ad_plans db) of
        None \<Rightarrow> Inr None
      | Some p \<Rightarrow> r_bind (plan_of_row c p) (\<lambda>v. Inr (Some v)))"

definition subscriptions_on_plan :: "accounts_db \<Rightarrow> plan_id \<Rightarrow> nat" where
  "subscriptions_on_plan db p = length (filter (\<lambda>s. sbr_plan_id s = Some p) (ad_subs db))"

definition assign_plan :: "'j codec \<Rightarrow> int \<Rightarrow> subscription_id \<Rightarrow> plan_id \<Rightarrow> accounts_db \<Rightarrow> accounts_db \<times> unit db_res" where
  "assign_plan c now i p db =
     (case sql_update (\<lambda>r. sbr_id r = i) (\<lambda>r. r\<lparr>sbr_plan_id := Some p, sbr_updated_at := to_sql_time c now\<rparr>) (ad_subs db) of
        (subs, n) \<Rightarrow> if n = 0 then (db, Inl (DbNotFound ''subscription'')) else (db\<lparr>ad_subs := subs\<rparr>, Inr ()))"

definition plan_visible :: "subscription_row list \<Rightarrow> scope_filter \<Rightarrow> plan_row \<Rightarrow> bool" where
  "plan_visible subs f p =
     (case f of
        FAll \<Rightarrow> True
      | FReseller reseller \<Rightarrow> pr_owner_user_id p = Some reseller \<or> pr_owner_user_id p = None
      | FCustomer customer \<Rightarrow> list_ex (\<lambda>s. sbr_plan_id s = Some (pr_id p) \<and> sbr_customer_id s = customer) subs
      | FSubscription sub _ \<Rightarrow> list_ex (\<lambda>s. sbr_plan_id s = Some (pr_id p) \<and> sbr_id s = sub) subs)"

definition fetch_plan :: "subscription_row list \<Rightarrow> scope_filter \<Rightarrow> plan_row list \<Rightarrow> int \<Rightarrow> plan_row option" where
  "fetch_plan subs f rows i = find (\<lambda>p. pr_id p = i \<and> plan_visible subs f p) rows"

definition plan_by_id :: "'j codec \<Rightarrow> scope_filter \<Rightarrow> accounts_db \<Rightarrow> plan_id \<Rightarrow> plan option db_res" where
  "plan_by_id c f db i =
     (case fetch_plan (ad_subs db) f (ad_plans db) i of
        None \<Rightarrow> Inr None
      | Some p \<Rightarrow> r_bind (plan_of_row c p) (\<lambda>v. Inr (Some v)))"

definition plans_page :: "scope_filter \<Rightarrow> accounts_db \<Rightarrow> int \<Rightarrow> int \<Rightarrow> plan_row list" where
  "plans_page f db lim off =
     (let rows = sort_key pr_name (filter (plan_visible (ad_subs db) f) (ad_plans db))
      in case f of
           FSubscription _ _ \<Rightarrow> filter (plan_visible (ad_subs db) f) (ad_plans db)
         | _ \<Rightarrow> take (nat (max 1 (min lim 500))) (drop (nat off) rows))"

definition list_plans :: "'j codec \<Rightarrow> scope_filter \<Rightarrow> accounts_db \<Rightarrow> int \<Rightarrow> int \<Rightarrow> plan list db_res" where
  "list_plans c f db lim off = collect_results (map (plan_of_row c) (plans_page f db lim off))"

fun plan_owner :: "scope_filter \<Rightarrow> user_id option \<Rightarrow> user_id option db_res" where
  "plan_owner FAll wanted = Inr wanted"
| "plan_owner (FReseller reseller) _ = Inr (Some reseller)"
| "plan_owner _ _ = Inl (DomainErr (denied_error ''customers cannot create plans''))"

text \<open>The unique index is over \<open>COALESCE(owner_user_id, 0)\<close> and the name.\<close>

definition plan_key :: "plan_row \<Rightarrow> int \<times> str" where
  "plan_key p = (case pr_owner_user_id p of None \<Rightarrow> 0 | Some u \<Rightarrow> u, pr_name p)"

definition plan_numbers_ok :: "plan_row \<Rightarrow> bool" where
  "plan_numbers_ok p \<longleftrightarrow> 0 \<le> pr_max_sites p \<and> 0 \<le> pr_max_dbs p \<and> 0 \<le> pr_storage_mb p"

definition new_plan_row :: "'j codec \<Rightarrow> int \<Rightarrow> int \<Rightarrow> user_id option \<Rightarrow> new_plan \<Rightarrow> plan_row" where
  "new_plan_row c i now owner new =
     \<lparr>pr_id = i, pr_owner_user_id = owner, pr_name = np_name new, pr_max_sites = np_max_sites new,
      pr_max_dbs = np_max_dbs new, pr_storage_mb = np_storage_mb new,
      pr_can_ssh = of_bool (np_can_ssh new), pr_can_cron = of_bool (np_can_cron new),
      pr_can_node_apps = of_bool (np_can_node_apps new),
      pr_created_at = to_sql_time c now, pr_updated_at = to_sql_time c now\<rparr>"

definition create_plan ::
  "'j codec \<Rightarrow> scope_filter \<Rightarrow> int \<Rightarrow> new_plan \<Rightarrow> accounts_db \<Rightarrow> accounts_db \<times> plan db_res" where
  "create_plan c f now new db =
     (case plan_owner f (np_owner_user_id new) of
        Inl e \<Rightarrow> (db, Inl e)
      | Inr owner \<Rightarrow>
          let i = ad_plan_seq db + 1; row = new_plan_row c i now owner new
          in if \<not> plan_numbers_ok row then (db, Inl (Sqlx ''CHECK constraint failed''))
             else if list_ex (\<lambda>p. plan_key p = plan_key row) (ad_plans db) then (db, Inl (DbConflict ''plan name''))
             else if (case owner of None \<Rightarrow> False | Some u \<Rightarrow> \<not> list_ex (\<lambda>r. ur_id r = u) (ut_rows (ad_users db)))
             then (db, Inl (Sqlx ''FOREIGN KEY constraint failed''))
             else (db\<lparr>ad_plans := ad_plans db @ [row], ad_plan_seq := i\<rparr>, plan_of_row c row))"

definition require_mutable :: "'j codec \<Rightarrow> scope_filter \<Rightarrow> accounts_db \<Rightarrow> plan_id \<Rightarrow> plan db_res" where
  "require_mutable c f db i =
     r_bind (r_bind (plan_by_id c f db i) (ok_or (DbNotFound ''plan''))) (\<lambda>p.
       case f of
         FAll \<Rightarrow> Inr p
       | FReseller reseller \<Rightarrow>
           if pl_owner_user_id p = Some reseller then Inr p
           else Inl (DomainErr (denied_error ''global plans are managed by the administrator''))
       | _ \<Rightarrow> Inl (DomainErr (denied_error ''customers cannot modify plans'')))"

definition coalesce :: "'a option \<Rightarrow> 'a \<Rightarrow> 'a" where
  "coalesce v old = (case v of Some x \<Rightarrow> x | None \<Rightarrow> old)"

definition updated_plan :: "'j codec \<Rightarrow> int \<Rightarrow> plan_update \<Rightarrow> plan_row \<Rightarrow> plan_row" where
  "updated_plan c now u p =
     p\<lparr>pr_name := coalesce (pu_name u) (pr_name p), pr_max_sites := coalesce (pu_max_sites u) (pr_max_sites p),
       pr_max_dbs := coalesce (pu_max_dbs u) (pr_max_dbs p), pr_storage_mb := coalesce (pu_storage_mb u) (pr_storage_mb p),
       pr_can_ssh := coalesce (map_option of_bool (pu_can_ssh u)) (pr_can_ssh p),
       pr_can_cron := coalesce (map_option of_bool (pu_can_cron u)) (pr_can_cron p),
       pr_can_node_apps := coalesce (map_option of_bool (pu_can_node_apps u)) (pr_can_node_apps p),
       pr_updated_at := to_sql_time c now\<rparr>"

definition update_plan ::
  "'j codec \<Rightarrow> scope_filter \<Rightarrow> int \<Rightarrow> plan_id \<Rightarrow> plan_update \<Rightarrow> accounts_db \<Rightarrow> accounts_db \<times> plan db_res" where
  "update_plan c f now i u db =
     (case require_mutable c f db i of
        Inl e \<Rightarrow> (db, Inl e)
      | Inr _ \<Rightarrow>
          let rows = fst (sql_update (\<lambda>p. pr_id p = i) (updated_plan c now u) (ad_plans db));
              db' = db\<lparr>ad_plans := rows\<rparr>
          in if \<not> list_all plan_numbers_ok (filter (\<lambda>p. pr_id p = i) rows) then (db, Inl (Sqlx ''CHECK constraint failed''))
             else if \<not> distinct (map plan_key rows) then (db, Inl (DbConflict ''plan name''))
             else (db', r_bind (plan_by_id c f db' i) (ok_or (DbNotFound ''plan''))))"

definition dependents_error :: "nat \<Rightarrow> uni_error" where
  "dependents_error in_use =
     new_error DependentsExist (show_nat in_use @ '' subscription(s) still use this plan; move them to another plan first'')"

definition delete_plan :: "'j codec \<Rightarrow> scope_filter \<Rightarrow> plan_id \<Rightarrow> accounts_db \<Rightarrow> accounts_db \<times> unit db_res" where
  "delete_plan c f i db =
     (case require_mutable c f db i of
        Inl e \<Rightarrow> (db, Inl e)
      | Inr _ \<Rightarrow>
          if list_ex (\<lambda>p. pr_id p = i) (ad_plans db) \<and> \<not> list_ex (\<lambda>s. sbr_plan_id s = Some i) (ad_subs db)
          then (db\<lparr>ad_plans := filter (\<lambda>p. pr_id p \<noteq> i) (ad_plans db)\<rparr>, Inr ())
          else (db, Inl (DomainErr (dependents_error (subscriptions_on_plan db i)))))"

text \<open>\<open>plan.assign\<close>: both rows are resolved in the caller's scope first.\<close>

definition assign_in_scope ::
  "'j codec \<Rightarrow> scope_filter \<Rightarrow> int \<Rightarrow> subscription_id \<Rightarrow> plan_id \<Rightarrow> accounts_db \<Rightarrow> accounts_db \<times> plan res" where
  "assign_in_scope c f now i p db =
     (case r_bind (r_map_err uni_error_from (subscription_by_id c f db i)) (ok_or (not_found_error ''subscription'')) of
        Inl e \<Rightarrow> (db, Inl e)
      | Inr s \<Rightarrow>
          (case r_bind (r_map_err uni_error_from (plan_by_id c f db p)) (ok_or (not_found_error ''plan'')) of
             Inl e \<Rightarrow> (db, Inl e)
           | Inr pl \<Rightarrow>
               (case assign_plan c now (sb_id s) (pl_id pl) db of
                  (db', Inl e) \<Rightarrow> (db', Inl (uni_error_from e))
                | (db', Inr _) \<Rightarrow> (db', Inr pl))))"

section \<open>Scopes\<close>

interpretation subs: scoped_repo "subscription_visible users" sbr_id "fetch_subscription users"
proof
  show "fetch_subscription users f rows i = Some r \<Longrightarrow> r \<in> set rows \<and> sbr_id r = i \<and> subscription_visible users f r" for f rows i r
    by (auto simp: fetch_subscription_def find_Some_iff)
  show "r \<in> set rows \<Longrightarrow> subscription_visible users f r \<Longrightarrow> fetch_subscription users f rows (sbr_id r) \<noteq> None" for f rows r
    by (auto simp: fetch_subscription_def find_None_iff)
  show "subscription_visible users FAll r" for r
    by (simp add: subscription_visible_def)
qed

interpretation plans: scoped_repo "plan_visible subs" pr_id "fetch_plan subs"
proof
  show "fetch_plan subs f rows i = Some r \<Longrightarrow> r \<in> set rows \<and> pr_id r = i \<and> plan_visible subs f r" for f rows i r
    by (auto simp: fetch_plan_def find_Some_iff)
  show "r \<in> set rows \<Longrightarrow> plan_visible subs f r \<Longrightarrow> fetch_plan subs f rows (pr_id r) \<noteq> None" for f rows r
    by (auto simp: fetch_plan_def find_None_iff)
  show "plan_visible subs FAll r" for r
    by (simp add: plan_visible_def)
qed

lemma subscription_of_row_fields:
  "subscription_of_row c r = Inr s \<Longrightarrow> sb_id s = sbr_id r \<and> sb_customer_id s = sbr_customer_id r
     \<and> sb_plan_id s = sbr_plan_id r \<and> sb_linux_user s = sbr_linux_user r \<and> sb_home_dir s = sbr_home_dir r
     \<and> subscription_status_parse (sbr_status r) = Inr (sb_status s)"
  by (auto simp: subscription_of_row_def result_simps)

lemma plan_of_row_fields:
  "plan_of_row c r = Inr p \<Longrightarrow> pl_id p = pr_id r \<and> pl_owner_user_id p = pr_owner_user_id r
     \<and> pl_can_ssh p = (pr_can_ssh r \<noteq> 0) \<and> pl_name p = pr_name r"
  by (auto simp: plan_of_row_def result_simps)

lemma subscription_by_id_Some:
  "subscription_by_id c f db i = Inr (Some s) \<longleftrightarrow>
     (\<exists>r. fetch_subscription (ad_users db) f (ad_subs db) i = Some r \<and> subscription_of_row c r = Inr s)"
  by (auto simp: subscription_by_id_def result_simps split: option.splits)

lemma plan_by_id_Some:
  "plan_by_id c f db i = Inr (Some p) \<longleftrightarrow>
     (\<exists>r. fetch_plan (ad_subs db) f (ad_plans db) i = Some r \<and> plan_of_row c r = Inr p)"
  by (auto simp: plan_by_id_def result_simps split: option.splits)

lemma subscriptions_page_visible:
  "set (subscriptions_page f db lim off) \<subseteq> {r \<in> set (ad_subs db). subscription_visible (ad_users db) f r}"
  unfolding subscriptions_page_def Let_def
  by (cases f) (auto dest!: in_set_takeD in_set_dropD)

section \<open>Account names\<close>

lemma alphabet_chars: "list_all user_char name_alphabet"
  by (simp add: name_alphabet_def user_char_def is_ascii_lowercase_def is_ascii_digit_def byte_def)

lemma generated_chars: "list_all user_char (generate_linux_user draws)"
proof -
  have "name_alphabet ! (d mod length name_alphabet) \<in> set name_alphabet" for d
    by (rule nth_mem) (simp add: name_alphabet_def)
  then have "list_all user_char (map (\<lambda>d. name_alphabet ! (d mod length name_alphabet)) draws)"
    using alphabet_chars by (simp add: list_all_iff)
  then show ?thesis
    by (simp add: generate_linux_user_def user_char_def is_ascii_lowercase_def byte_def)
qed

lemma generated_parses:
  assumes "length draws = 8"
  shows "linux_user_parse (generate_linux_user draws) = Inr (LinuxUser (generate_linux_user draws))"
proof -
  have "list_all plain_char (generate_linux_user draws)"
    using generated_chars by (rule list.pred_mono_strong) (simp add: user_char_plain)
  then have t: "str_trim (generate_linux_user draws) = generate_linux_user draws"
    by (rule str_trim_plain)
  have r: "generate_linux_user draws \<notin> set reserved_system_users"
    by (simp add: generate_linux_user_def reserved_system_users_def)
  have l: "length (generate_linux_user draws) = 11" "is_ascii_lowercase (hd (generate_linux_user draws))"
    "generate_linux_user draws \<noteq> []"
    using assms by (simp_all add: generate_linux_user_def is_ascii_lowercase_def byte_def)
  show ?thesis
    using generated_chars t r l by (simp add: linux_user_parse_iff Let_def)
qed

text \<open>A new subscription with the account name \<open>lu\<close> was inserted.\<close>

definition inserted ::
  "'j codec \<Rightarrow> int \<Rightarrow> user_id \<Rightarrow> linux_user \<Rightarrow> accounts_db \<Rightarrow> accounts_db \<Rightarrow> subscription db_res \<Rightarrow> bool" where
  "inserted c now customer lu db db' r \<longleftrightarrow>
     \<not> list_ex (\<lambda>s. sbr_linux_user s = linux_user_as_str lu) (ad_subs db)
     \<and> list_ex (\<lambda>u. ur_id u = customer) (ut_rows (ad_users db))
     \<and> db' = db\<lparr>ad_subs := ad_subs db @ [new_subscription_row c (ad_sub_seq db + 1) now customer lu],
               ad_sub_seq := ad_sub_seq db + 1\<rparr>
     \<and> r = subscription_of_row c (new_subscription_row c (ad_sub_seq db + 1) now customer lu)"

lemma create_attempts_cases:
  assumes "create_attempts c now customer cands db = (db', r)"
  shows "(db' = db \<and> (\<exists>e. r = Inl e)) \<or> (\<exists>lu. inserted c now customer lu db db' r)"
  using assms
proof (induction cands)
  case (Cons cand rest)
  show ?case
  proof (cases "linux_user_parse cand")
    case (Inl e)
    then show ?thesis using Cons.prems by auto
  next
    case (Inr lu)
    show ?thesis
    proof (cases "list_ex (\<lambda>r. sbr_linux_user r = linux_user_as_str lu) (ad_subs db)")
      case True
      then show ?thesis using Cons.IH Cons.prems Inr by simp
    next
      case False
      show ?thesis
      proof (cases "list_ex (\<lambda>u. ur_id u = customer) (ut_rows (ad_users db))")
        case True
        with False Cons.prems Inr have "inserted c now customer lu db db' r"
          by (simp add: inserted_def Let_def)
        then show ?thesis by blast
      next
        case no: False
        then show ?thesis using False Cons.prems Inr by auto
      qed
    qed
  qed
qed auto

lemma create_finds_free:
  assumes "\<And>k. length (draws k) = 8" "k < 8"
    and "\<not> list_ex (\<lambda>r. sbr_linux_user r = generate_linux_user (draws k)) (ad_subs db)"
    and "list_ex (\<lambda>u. ur_id u = customer) (ut_rows (ad_users db))" "codec_ok c"
  shows "\<exists>db' s. create_subscription c now draws customer db = (db', Inr s)"
proof -
  have ok: "\<exists>s. subscription_of_row c (new_subscription_row c i now customer lu) = Inr s" for i lu
    using assms(5) by (simp add: subscription_of_row_def new_subscription_row_def subscription_status_parse_def
      from_sql_time_opt_def)
  have "\<exists>db' s. create_attempts c now customer (map (\<lambda>k. generate_linux_user (draws k)) ks) db = (db', Inr s)"
    if "k \<in> set ks" for ks
    using that
  proof (induction ks)
    case (Cons j ks)
    have p: "linux_user_parse (generate_linux_user (draws j)) = Inr (LinuxUser (generate_linux_user (draws j)))"
      using assms(1) by (rule generated_parses)
    show ?case
    proof (cases "list_ex (\<lambda>r. sbr_linux_user r = generate_linux_user (draws j)) (ad_subs db)")
      case True
      with assms(3) Cons.prems have "k \<in> set ks" by auto
      with Cons.IH True p show ?thesis by simp
    next
      case False
      with p ok assms(4) show ?thesis by (simp add: Let_def)
    qed
  qed simp
  then show ?thesis using assms(2) by (simp add: create_subscription_def)
qed

section \<open>The tables' invariant\<close>

definition plan_exists :: "plan_row list \<Rightarrow> int option \<Rightarrow> bool" where
  "plan_exists plans p \<longleftrightarrow> (case p of None \<Rightarrow> True | Some i \<Rightarrow> i \<in> pr_id ` set plans)"

definition accounts_inv :: "accounts_db \<Rightarrow> bool" where
  "accounts_inv db \<longleftrightarrow>
     distinct (map sbr_id (ad_subs db)) \<and> distinct (map sbr_linux_user (ad_subs db))
     \<and> (\<forall>s \<in> set (ad_subs db). sbr_id s \<le> ad_sub_seq db \<and> plan_exists (ad_plans db) (sbr_plan_id s))
     \<and> distinct (map pr_id (ad_plans db)) \<and> (\<forall>p \<in> set (ad_plans db). pr_id p \<le> ad_plan_seq db)"

datatype account_op =
    AcCreate int "nat \<Rightarrow> nat list" user_id
  | AcDefault int "nat \<Rightarrow> nat list" user_id
  | AcStatus int subscription_id subscription_status "str option"
  | AcAssign scope_filter int subscription_id plan_id
  | AcNewPlan scope_filter int new_plan
  | AcChangePlan scope_filter int plan_id plan_update
  | AcDropPlan scope_filter plan_id

fun account_step :: "'j codec \<Rightarrow> account_op \<Rightarrow> accounts_db \<Rightarrow> accounts_db" where
  "account_step c (AcCreate now draws customer) db = fst (create_subscription c now draws customer db)"
| "account_step c (AcDefault now draws customer) db = fst (default_subscription_for c now draws customer db)"
| "account_step c (AcStatus now i status reason) db = set_subscription_status c now i status reason db"
| "account_step c (AcAssign f now i p) db = fst (assign_in_scope c f now i p db)"
| "account_step c (AcNewPlan f now new) db = fst (create_plan c f now new db)"
| "account_step c (AcChangePlan f now i u) db = fst (update_plan c f now i u db)"
| "account_step c (AcDropPlan f i) db = fst (delete_plan c f i db)"

lemma inserted_inv: "accounts_inv db \<Longrightarrow> inserted c now customer lu db db' r \<Longrightarrow> accounts_inv db'"
  by (auto simp: accounts_inv_def inserted_def new_subscription_row_def plan_exists_def list_ex_iff)

lemma create_inv: "accounts_inv db \<Longrightarrow> accounts_inv (fst (create_subscription c now draws customer db))"
  using create_attempts_cases [of c now customer "map (\<lambda>k. generate_linux_user (draws k)) [0..<8]" db] inserted_inv
  by (metis create_subscription_def prod.collapse)

lemma default_cases:
  "fst (default_subscription_for c now draws customer db) = db
   \<or> fst (default_subscription_for c now draws customer db) = fst (create_subscription c now draws customer db)"
  by (auto simp: default_subscription_for_def split: list.splits sum.splits)

lemma update_subs_inv:
  assumes "accounts_inv db" "\<And>r. sbr_id (g r) = sbr_id r" "\<And>r. sbr_linux_user (g r) = sbr_linux_user r"
    and "\<And>r. plan_exists (ad_plans db) (sbr_plan_id r) \<Longrightarrow> plan_exists (ad_plans db) (sbr_plan_id (g r))"
  shows "accounts_inv (db\<lparr>ad_subs := fst (sql_update P g (ad_subs db))\<rparr>)"
  using assms unfolding accounts_inv_def
  by (simp add: sql_update_map sql_update_set Ball_def) (auto simp: sql_update_set)

lemma status_inv: "accounts_inv db \<Longrightarrow> accounts_inv (set_subscription_status c now i status reason db)"
  unfolding set_subscription_status_def Let_def by (rule update_subs_inv) simp_all

lemma assign_plan_cases:
  "assign_plan c now i p db = (db', r) \<Longrightarrow>
     db' = db \<or> db' = db\<lparr>ad_subs := fst (sql_update (\<lambda>r. sbr_id r = i)
                  (\<lambda>r. r\<lparr>sbr_plan_id := Some p, sbr_updated_at := to_sql_time c now\<rparr>) (ad_subs db))\<rparr>"
  by (auto simp: assign_plan_def split: prod.splits if_splits)

lemma assign_inv:
  assumes "accounts_inv db"
  shows "accounts_inv (fst (assign_in_scope c f now i p db))"
proof -
  obtain db' r where eq: "assign_in_scope c f now i p db = (db', r)" by fastforce
  have "db' = db \<or> (\<exists>(s :: subscription) pl x. plan_by_id c f db p = Inr (Some pl) \<and> assign_plan c now (sb_id s) (pl_id pl) db = (db', x))"
    using eq by (auto simp: assign_in_scope_def result_simps split: sum.splits prod.splits)
  then consider (same) "db' = db"
    | (given) s :: subscription and pl x where "plan_by_id c f db p = Inr (Some pl)" "assign_plan c now (sb_id s) (pl_id pl) db = (db', x)"
    by blast
  then show ?thesis
  proof cases
    case given
    then obtain row where "fetch_plan (ad_subs db) f (ad_plans db) p = Some row" "plan_of_row c row = Inr pl"
      by (auto simp: plan_by_id_Some)
    then have "pl_id pl \<in> pr_id ` set (ad_plans db)"
      using plans.fetch_sound plan_of_row_fields by fastforce
    then have "accounts_inv (db\<lparr>ad_subs := fst (sql_update (\<lambda>r. sbr_id r = sb_id s)
        (\<lambda>r. r\<lparr>sbr_plan_id := Some (pl_id pl), sbr_updated_at := to_sql_time c now\<rparr>) (ad_subs db))\<rparr>)"
      by (intro update_subs_inv [OF assms]) (simp_all add: plan_exists_def)
    with assign_plan_cases [OF given(2)] assms eq show ?thesis by auto
  qed (use assms eq in simp)
qed

lemma create_plan_cases:
  assumes "create_plan c f now new db = (db', r)"
  shows "db' = db \<or> (\<exists>owner row. plan_owner f (np_owner_user_id new) = Inr owner \<and> pr_id row = ad_plan_seq db + 1
    \<and> pr_owner_user_id row = owner \<and> db' = db\<lparr>ad_plans := ad_plans db @ [row], ad_plan_seq := ad_plan_seq db + 1\<rparr>)"
proof (cases "plan_owner f (np_owner_user_id new)")
  case (Inl e)
  then show ?thesis using assms by (simp add: create_plan_def)
next
  case (Inr owner)
  let ?row = "new_plan_row c (ad_plan_seq db + 1) now owner new"
  have "db' = db \<or> db' = db\<lparr>ad_plans := ad_plans db @ [?row], ad_plan_seq := ad_plan_seq db + 1\<rparr>"
    using assms Inr unfolding create_plan_def Let_def by (simp split: if_splits)
  moreover have "pr_id ?row = ad_plan_seq db + 1 \<and> pr_owner_user_id ?row = owner" by (simp add: new_plan_row_def)
  ultimately show ?thesis using Inr by blast
qed

lemma create_plan_inv: "accounts_inv db \<Longrightarrow> accounts_inv (fst (create_plan c f now new db))"
proof -
  assume inv: "accounts_inv db"
  obtain db' r where eq: "create_plan c f now new db = (db', r)" by fastforce
  have more: "plan_exists plans p \<Longrightarrow> plan_exists (plans @ [row]) p" for plans p row
    by (auto simp: plan_exists_def split: option.splits)
  from create_plan_cases [OF eq] show ?thesis
    using inv eq more by (auto simp: accounts_inv_def) fastforce+
qed

lemma updated_plan_id [simp]: "pr_id (updated_plan c now u p) = pr_id p"
  "pr_owner_user_id (updated_plan c now u p) = pr_owner_user_id p"
  by (simp_all add: updated_plan_def)

lemma update_plan_cases:
  "update_plan c f now i u db = (db', r) \<Longrightarrow>
     db' = db \<or> (\<exists>p. require_mutable c f db i = Inr p)
       \<and> db' = db\<lparr>ad_plans := fst (sql_update (\<lambda>p. pr_id p = i) (updated_plan c now u) (ad_plans db))\<rparr>"
  by (auto simp: update_plan_def Let_def split: sum.splits if_splits)

lemma plan_exists_ids: "pr_id ` set ps = pr_id ` set qs \<Longrightarrow> plan_exists ps = plan_exists qs"
  by (intro ext) (auto simp: plan_exists_def split: option.splits)

lemma update_plan_inv: "accounts_inv db \<Longrightarrow> accounts_inv (fst (update_plan c f now i u db))"
proof -
  assume inv: "accounts_inv db"
  have ids: "map pr_id (fst (sql_update (\<lambda>p. pr_id p = i) (updated_plan c now u) (ad_plans db))) = map pr_id (ad_plans db)"
    by (rule sql_update_map) simp
  then have "pr_id ` set (fst (sql_update (\<lambda>p. pr_id p = i) (updated_plan c now u) (ad_plans db))) = pr_id ` set (ad_plans db)"
    by (metis list.set_map)
  note same = plan_exists_ids [OF this]
  have seq: "\<forall>p \<in> set (fst (sql_update (\<lambda>p. pr_id p = i) (updated_plan c now u) (ad_plans db))). pr_id p \<le> ad_plan_seq db"
    using inv by (auto simp: accounts_inv_def sql_update_set)
  obtain db' r where eq: "update_plan c f now i u db = (db', r)" by fastforce
  from update_plan_cases [OF eq] show ?thesis
  proof
    assume "db' = db" then show ?thesis using inv eq by simp
  next
    assume "(\<exists>p. require_mutable c f db i = Inr p)
      \<and> db' = db\<lparr>ad_plans := fst (sql_update (\<lambda>p. pr_id p = i) (updated_plan c now u) (ad_plans db))\<rparr>"
    then show ?thesis
      using inv ids seq eq by (simp add: accounts_inv_def same)
  qed
qed

lemma delete_plan_cases:
  "delete_plan c f i db = (db', r) \<Longrightarrow>
     db' = db \<or> (\<exists>p. require_mutable c f db i = Inr p) \<and> \<not> list_ex (\<lambda>s. sbr_plan_id s = Some i) (ad_subs db)
       \<and> db' = db\<lparr>ad_plans := filter (\<lambda>p. pr_id p \<noteq> i) (ad_plans db)\<rparr>"
  by (auto simp: delete_plan_def split: sum.splits if_splits)

lemma delete_plan_inv: "accounts_inv db \<Longrightarrow> accounts_inv (fst (delete_plan c f i db))"
proof -
  assume inv: "accounts_inv db"
  obtain db' r where eq: "delete_plan c f i db = (db', r)" by fastforce
  have "plan_exists (filter (\<lambda>p. pr_id p \<noteq> i) plans) p" if "plan_exists plans p" "p \<noteq> Some i" for plans p
    using that by (auto simp: plan_exists_def split: option.splits)
  with inv have "\<not> list_ex (\<lambda>s. sbr_plan_id s = Some i) (ad_subs db) \<Longrightarrow>
      accounts_inv (db\<lparr>ad_plans := filter (\<lambda>p. pr_id p \<noteq> i) (ad_plans db)\<rparr>)"
    by (auto simp: accounts_inv_def list_ex_iff distinct_map_filter)
  with delete_plan_cases [OF eq] inv eq show ?thesis by auto
qed

lemma account_step_inv: "accounts_inv db \<Longrightarrow> accounts_inv (account_step c op db)"
proof (cases op)
  case (AcDefault now draws customer)
  assume "accounts_inv db"
  then show ?thesis
    using AcDefault default_cases [of c now draws customer db] create_inv by (metis account_step.simps(2))
qed (simp_all add: create_inv status_inv assign_inv create_plan_inv update_plan_inv delete_plan_inv)

lemma account_run_inv: "accounts_inv db \<Longrightarrow> accounts_inv (fold (account_step c) ops db)"
  by (induction ops arbitrary: db) (simp_all add: account_step_inv)

lemma require_mutable_owner:
  assumes "require_mutable c f db i = Inr p"
  shows "f = FAll \<or> (\<exists>reseller r. f = FReseller reseller \<and> r \<in> set (ad_plans db) \<and> pr_id r = i
    \<and> pr_owner_user_id r = Some reseller)"
proof (cases f)
  case (FReseller reseller)
  then have "plan_by_id c f db i = Inr (Some p)" "pl_owner_user_id p = Some reseller"
    using assms by (auto simp: require_mutable_def result_simps split: if_splits)
  then show ?thesis
    using FReseller plans.fetch_sound plan_of_row_fields by (fastforce simp: plan_by_id_Some)
qed (use assms in \<open>auto simp: require_mutable_def result_simps\<close>)

lemma suspending_again_restarts_the_clock:
  "sbr_suspended_at r = Some earlier \<Longrightarrow> ad_subs db = [r] \<Longrightarrow> sbr_id r = i \<Longrightarrow>
     map sbr_suspended_at (ad_subs (set_subscription_status c now i SubSuspended reason db)) = [Some (to_sql_time c now)]"
  by (simp add: set_subscription_status_def Let_def sql_update_def)

definition empty_accounts :: "users_table \<Rightarrow> accounts_db" where
  "empty_accounts users = \<lparr>ad_users = users, ad_subs = [], ad_sub_seq = 0, ad_plans = [], ad_plan_seq = 0\<rparr>"

lemma empty_accounts_inv: "accounts_inv (empty_accounts users)"
  by (simp add: empty_accounts_def accounts_inv_def)

section \<open>Properties\<close>

text \<open>
  C35: No subscription ever points at a missing plan, and no two share an id or a Linux account:
  this holds after any sequence of creations, status changes, assignments, and plan creations,
  changes and deletions by any callers, though the database itself has no foreign key on the plan.
\<close>

theorem no_subscription_on_a_missing_plan:
  "let db = fold (account_step c) ops (empty_accounts users) in
     list_all (\<lambda>s. case sbr_plan_id s of None \<Rightarrow> True | Some p \<Rightarrow> p \<in> pr_id ` set (ad_plans db)) (ad_subs db)
     \<and> distinct (map sbr_id (ad_subs db)) \<and> distinct (map sbr_linux_user (ad_subs db))"
  using account_run_inv [OF empty_accounts_inv, of c ops users]
  by (simp add: Let_def accounts_inv_def plan_exists_def list_all_iff)

text \<open>
  The guarantee is about whole operations. The two statements of an assignment are not one
  transaction, and a deletion that runs between them leaves a subscription on a missing plan.
\<close>

lemma assignment_races_deletion:
  assumes "ad_subs db = [s]" "sbr_plan_id s = None" "ad_plans db = [p]" "pr_id p = j"
    and "plan_by_id c FAll db j = Inr (Some pl)"
  shows "delete_plan c FAll j db = (db\<lparr>ad_plans := []\<rparr>, Inr ())
    \<and> (\<exists>db2. assign_plan c now (sbr_id s) j (db\<lparr>ad_plans := []\<rparr>) = (db2, Inr ())
        \<and> map sbr_plan_id (ad_subs db2) = [Some j] \<and> ad_plans db2 = [])"
  using assms by (simp add: delete_plan_def require_mutable_def ok_or_def assign_plan_def sql_update_def)

text \<open>
  Only its owner changes a plan. An update or a deletion that changes anything was made by an
  administrator, or by the reseller whose own plan it is, and it leaves every other plan and every
  subscription as they were; a plan a reseller creates is the reseller's whatever owner the
  request named, and customers create none.
\<close>

theorem only_owners_change_plans:
  assumes "op = AcChangePlan f now i u \<or> op = AcDropPlan f i \<or> op = AcNewPlan f now new"
    and "account_step c op db \<noteq> db"
  shows "ad_subs (account_step c op db) = ad_subs db
    \<and> (if op = AcNewPlan f now new then
         \<exists>row. ad_plans (account_step c op db) = ad_plans db @ [row]
           \<and> (f = FAll \<or> (\<exists>reseller. f = FReseller reseller \<and> pr_owner_user_id row = Some reseller))
       else
         filter (\<lambda>p. pr_id p \<noteq> i) (ad_plans (account_step c op db)) = filter (\<lambda>p. pr_id p \<noteq> i) (ad_plans db)
         \<and> (f = FAll \<or> (\<exists>reseller r. f = FReseller reseller \<and> r \<in> set (ad_plans db) \<and> pr_id r = i
              \<and> pr_owner_user_id r = Some reseller)))"
  using assms(1)
proof (elim disjE)
  assume op: "op = AcChangePlan f now i u"
  obtain db' r where eq: "update_plan c f now i u db = (db', r)" by fastforce
  have others: "filter (\<lambda>p. pr_id p \<noteq> i) (map (\<lambda>r. if pr_id r = i then updated_plan c now u r else r) rows)
      = filter (\<lambda>p. pr_id p \<noteq> i) rows" for rows
    by (induction rows) auto
  show ?thesis
    using update_plan_cases [OF eq] eq op assms(2) others
    by (auto simp: sql_update_def dest: require_mutable_owner)
next
  assume op: "op = AcDropPlan f i"
  obtain db' r where eq: "delete_plan c f i db = (db', r)" by fastforce
  show ?thesis
    using delete_plan_cases [OF eq] eq op assms(2) by (auto dest: require_mutable_owner)
next
  assume op: "op = AcNewPlan f now new"
  obtain db' r where eq: "create_plan c f now new db = (db', r)" by fastforce
  show ?thesis
    using create_plan_cases [OF eq] eq op assms(2) by (cases f) auto
qed

definition one_customer :: users_table where
  "one_customer = \<lparr>ut_rows = [new_row sample_codec 1 0 ''h''
     \<lparr>nu_role = Customer, nu_email = Email ''a@b.io'', nu_username = Username ''a'', nu_password = ''p'',
      nu_reseller_id = None, nu_full_name = None, nu_locale = ''en''\<rparr>], ut_seq = 1\<rparr>"

theorem only_owners_change_plans_witness:
  "\<exists>row. ad_plans (account_step sample_codec (AcNewPlan FAll 5 \<lparr>np_owner_user_id = None, np_name = ''basic'',
      np_max_sites = 1, np_max_dbs = 1, np_storage_mb = 10, np_can_ssh = False, np_can_cron = True,
      np_can_node_apps = False\<rparr>) (empty_accounts one_customer)) = [row]"
  using only_owners_change_plans [of "AcNewPlan FAll 5 \<lparr>np_owner_user_id = None, np_name = ''basic'',
      np_max_sites = 1, np_max_dbs = 1, np_storage_mb = 10, np_can_ssh = False, np_can_cron = True,
      np_can_node_apps = False\<rparr>" FAll 5 0 undefined "\<lparr>np_owner_user_id = None, np_name = ''basic'',
      np_max_sites = 1, np_max_dbs = 1, np_storage_mb = 10, np_can_ssh = False, np_can_cron = True,
      np_can_node_apps = False\<rparr>" sample_codec "empty_accounts one_customer"]
  by (simp add: create_plan_def new_plan_row_def plan_numbers_ok_def empty_accounts_def Let_def)

text \<open>
  A new subscription. Creation either changes nothing and reports an error, or adds exactly
  one active row without a plan, for the existing customer asked for, under a Linux account name
  no other subscription has, with its home below /home; and it succeeds whenever one of the
  eight names it draws is free and the customer exists.
\<close>

theorem new_subscription_is_fresh:
  assumes "create_subscription c now draws customer db = (db', r)"
  shows "(db' = db \<and> \<not> is_ok r \<or> (\<exists>lu. inserted c now customer lu db db' r))
    \<and> (codec_ok c \<and> (\<forall>k. length (draws k) = 8) \<and> list_ex (\<lambda>u. ur_id u = customer) (ut_rows (ad_users db))
       \<and> (\<exists>k < 8. \<not> list_ex (\<lambda>s. sbr_linux_user s = generate_linux_user (draws k)) (ad_subs db)) \<longrightarrow> is_ok r)"
proof -
  have "db' = db \<and> \<not> is_ok r \<or> (\<exists>lu. inserted c now customer lu db db' r)"
    using create_attempts_cases [OF assms [unfolded create_subscription_def]] by auto
  moreover have "is_ok r" if "codec_ok c" "\<forall>k. length (draws k) = 8" "k < 8"
      "list_ex (\<lambda>u. ur_id u = customer) (ut_rows (ad_users db))"
      "\<not> list_ex (\<lambda>s. sbr_linux_user s = generate_linux_user (draws k)) (ad_subs db)" for k
    using create_finds_free [of draws k db customer c now] that assms by auto
  ultimately show ?thesis by blast
qed

theorem new_subscription_is_fresh_witness:
  "\<exists>db' r. create_subscription sample_codec 5 (\<lambda>_. [0, 1, 2, 3, 4, 5, 6, 7]) 1 (empty_accounts one_customer) = (db', r) \<and> is_ok r"
proof -
  obtain db' r where *: "create_subscription sample_codec 5 (\<lambda>_. [0, 1, 2, 3, 4, 5, 6, 7]) 1 (empty_accounts one_customer) = (db', r)"
    by fastforce
  have "list_ex (\<lambda>u. ur_id u = 1) (ut_rows (ad_users (empty_accounts one_customer)))"
    "\<not> list_ex (\<lambda>s. sbr_linux_user s = x) (ad_subs (empty_accounts one_customer))" for x
    by (simp_all add: empty_accounts_def one_customer_def new_row_def)
  moreover have "\<exists>k :: nat. k < 8" by (rule exI [of _ 0]) simp
  ultimately have "is_ok r"
    using conjunct2 [OF new_subscription_is_fresh [OF *], THEN mp] sample_codec_ok by auto
  with * show ?thesis by blast
qed

end
