(* ===== verification/Terminal.thy ===== *)
theory Terminal
  imports Dispatch Subscriptions Audit_Trail
begin

text \<open>
  The web terminal: who may have a shell (\<open>unihelm-ops/src/terminal/mod.rs\<close>), the table of live
  sessions with its limits and audit rows (\<open>terminal/session.rs\<close>), and the control frames that
  drive it (\<open>unihelm-agentd/src/handler.rs\<close>). A session is a cell of a heap, shared by the table and
  by the connections attached to it. The lemmas show who reaches a root shell, that a shell never
  starts unaudited, that the limits hold, and whose keystrokes reach a shell.
\<close>

section \<open>Who may have a shell\<close>

definition allowed_shells :: "str list" where
  "allowed_shells =
     [''/bin/bash'', ''/usr/bin/bash'', ''/bin/sh'', ''/usr/bin/sh'', ''/bin/zsh'', ''/usr/bin/zsh'',
      ''/bin/dash'', ''/usr/bin/dash'', ''/usr/bin/fish'']"

definition refused_shells :: "str list" where
  "refused_shells =
     [''/usr/sbin/nologin'', ''/sbin/nologin'', ''/usr/bin/nologin'', ''/bin/false'', ''/usr/bin/false'']"

datatype session_plan =
    RootPlan (plan_home: str) (plan_shell: str)
  | TenantPlan (plan_uid: nat) (plan_gid: nat) (plan_user: linux_user) (plan_sub: subscription_id)
      (plan_home: str) (plan_shell: str)

fun plan_account :: "session_plan \<Rightarrow> str" where
  "plan_account (RootPlan _ _) = ''root''"
| "plan_account (TenantPlan _ _ u _ _ _) = linux_user_as_str u"

fun plan_is_root :: "session_plan \<Rightarrow> bool" where
  "plan_is_root (RootPlan _ _) = True"
| "plan_is_root (TenantPlan _ _ _ _ _ _) = False"

fun plan_subscription_id :: "session_plan \<Rightarrow> subscription_id option" where
  "plan_subscription_id (RootPlan _ _) = None"
| "plan_subscription_id (TenantPlan _ _ _ s _ _) = Some s"

record account =
  ac_uid :: nat
  ac_gid :: nat
  ac_home :: str
  ac_shell :: str

definition vet_shell :: "str \<Rightarrow> str res" where
  "vet_shell shell =
     (if shell \<in> set refused_shells then
        Inl (new_error PlanFeatureDisabled ''this account has no login shell; enable shell access on its plan first'')
      else if shell \<notin> set allowed_shells then
        Inl (new_error InvalidInput (''`'' @ shell @ ''` is not a login shell the panel will start''))
      else Inr shell)"

text \<open>\<open>exists\<close> says which paths exist on the server.\<close>

definition pick_root_shell :: "(str \<Rightarrow> bool) \<Rightarrow> str res" where
  "pick_root_shell exists =
     ok_or (internal_error ''no usable login shell is installed on this server'') (find exists allowed_shells)"

definition resolve_subscription :: "'j codec \<Rightarrow> accounts_db \<Rightarrow> auth_context \<Rightarrow> int option \<Rightarrow> subscription res" where
  "resolve_subscription c db auth sid =
     (let f = filter_from_scope (tenant_scope auth) in
      case sid of
        Some i \<Rightarrow> r_bind (r_map_err uni_error_from (subscription_by_id c f db i)) (ok_or (not_found_error ''subscription''))
      | None \<Rightarrow>
          if scope_is_global (tenant_scope auth) then
            Inl (with_field (new_error InvalidInput ''name the subscription to open a tenant shell for'') ''subscription_id'')
          else r_bind (r_map_err uni_error_from (list_subscriptions c f db 500 0)) (\<lambda>mine.
                 case sort_key sb_id mine of [] \<Rightarrow> Inl (not_found_error ''subscription'') | s # _ \<Rightarrow> Inr s))"

definition plan_allows_shell :: "'j codec \<Rightarrow> accounts_db \<Rightarrow> subscription_id \<Rightarrow> unit res" where
  "plan_allows_shell c db s =
     r_bind (r_map_err uni_error_from (plan_of_subscription c db s)) (\<lambda>p.
       case p of
         Some p \<Rightarrow>
           if pl_can_ssh p then Inr ()
           else Inl (new_error PlanFeatureDisabled (''plan `'' @ pl_name p @ ''` does not include shell access''))
       | None \<Rightarrow>
           Inl (new_error PlanFeatureDisabled ''shell access is a plan feature and this subscription has no plan''))"

text \<open>\<open>lookup\<close> is \<open>getpwnam\<close>.\<close>

definition tenant_plan ::
  "'j codec \<Rightarrow> (str \<Rightarrow> account option) \<Rightarrow> accounts_db \<Rightarrow> auth_context \<Rightarrow> int option \<Rightarrow> bool \<Rightarrow> session_plan res" where
  "tenant_plan c lookup db auth sid require_plan_flag =
     r_bind (resolve_subscription c db auth sid) (\<lambda>s.
     if \<not> can_serve (sb_status s) then
       Inl (new_error AccountSuspended ''this subscription is suspended; its shell is closed'')
     else
     r_bind (if require_plan_flag then plan_allows_shell c db (sb_id s) else Inr ()) (\<lambda>_.
     r_bind (linux_user_parse (sb_linux_user s)) (\<lambda>u.
     r_bind (ok_or (new_error NotFound (''the Linux account `'' @ linux_user_as_str u @ ''` does not exist on this server''))
              (lookup (linux_user_as_str u))) (\<lambda>a.
     if ac_uid a = 0 \<or> ac_gid a = 0 then
       Inl (internal_error (''`'' @ linux_user_as_str u @ ''` maps to uid/gid 0; refusing to open a tenant terminal as root''))
     else
     r_bind (vet_shell (ac_shell a)) (\<lambda>shell.
       Inr (TenantPlan (ac_uid a) (ac_gid a) u (sb_id s) (sb_home_dir s) shell))))))"

definition authorize ::
  "'j codec \<Rightarrow> (str \<Rightarrow> account option) \<Rightarrow> (str \<Rightarrow> bool) \<Rightarrow> accounts_db \<Rightarrow> auth_context \<Rightarrow> terminal_target \<Rightarrow> session_plan res" where
  "authorize c lookup exists db auth target =
     r_bind (require_perm auth TerminalAccess) (\<lambda>_.
       case (acting_role auth, target) of
         (Admin, TargetRoot) \<Rightarrow> r_bind (pick_root_shell exists) (\<lambda>shell. Inr (RootPlan ''/root'' shell))
       | (Admin, TargetTenant sid) \<Rightarrow> tenant_plan c lookup db auth sid False
       | (Customer, TargetRoot) \<Rightarrow>
           Inl (new_error PermissionDenied ''a root terminal is available to administrators only'')
       | (Customer, TargetTenant sid) \<Rightarrow> tenant_plan c lookup db auth sid True
       | (Reseller, _) \<Rightarrow> Inl (new_error PermissionDenied ''reseller accounts have no shell on this server''))"

section \<open>Sessions\<close>

record limits =
  lm_max_sessions :: nat
  lm_max_per_user :: nat
  lm_idle :: int
  lm_max_lifetime :: int
  lm_scrollback_bytes :: nat

definition default_term_limits :: limits where
  "default_term_limits = \<lparr>lm_max_sessions = 8, lm_max_per_user = 3, lm_idle = 15 * 60,
     lm_max_lifetime = 8 * 60 * 60, lm_scrollback_bytes = 128 * 1024\<rparr>"

text \<open>A chunk of output: its sequence number and its bytes.\<close>

type_synonym chunk = "nat \<times> str"

record scrollback =
  sk_chunks :: "chunk list"
  sk_bytes :: nat
  sk_cap :: nat

definition scrollback_new :: "nat \<Rightarrow> scrollback" where
  "scrollback_new cap = \<lparr>sk_chunks = [], sk_bytes = 0, sk_cap = cap\<rparr>"

fun drop_oldest :: "chunk list \<Rightarrow> nat \<Rightarrow> nat \<Rightarrow> chunk list \<times> nat" where
  "drop_oldest [] bytes cap = ([], bytes)"
| "drop_oldest (x # xs) bytes cap =
     (if bytes > cap then drop_oldest xs (bytes - length (snd x)) cap else (x # xs, bytes))"

definition scrollback_push :: "chunk \<Rightarrow> scrollback \<Rightarrow> scrollback" where
  "scrollback_push x s =
     (case drop_oldest (sk_chunks s @ [x]) (sk_bytes s + length (snd x)) (sk_cap s) of
        (chunks, bytes) \<Rightarrow> s\<lparr>sk_chunks := chunks, sk_bytes := bytes\<rparr>)"

record session_info =
  si_id :: uuid
  si_owner :: user_id
  si_account :: str
  si_is_root :: bool
  si_opened_at :: int

text \<open>\<open>tm_received\<close> is what was written to the shell, \<open>tm_size\<close> its window, \<open>tm_killed\<close> a hang-up.\<close>

record terminal =
  tm_info :: session_info
  tm_plan :: session_plan
  tm_received :: "str list"
  tm_size :: "u16 \<times> u16"
  tm_killed :: bool
  tm_seq :: nat
  tm_scrollback :: scrollback
  tm_last_input :: int
  tm_closed :: bool
  tm_reaped :: bool

definition handle_write :: "int \<Rightarrow> str \<Rightarrow> terminal \<Rightarrow> terminal" where
  "handle_write now bytes t =
     (if tm_closed t then t else t\<lparr>tm_last_input := now, tm_received := tm_received t @ [bytes]\<rparr>)"

definition handle_resize :: "u16 \<Rightarrow> u16 \<Rightarrow> terminal \<Rightarrow> terminal" where
  "handle_resize cols rows t = (if tm_closed t then t else t\<lparr>tm_size := (cols, rows)\<rparr>)"

text \<open>The output pump: one read of the shell, and its end.\<close>

definition pump_output :: "str \<Rightarrow> terminal \<Rightarrow> terminal" where
  "pump_output bytes t =
     t\<lparr>tm_seq := tm_seq t + 1, tm_scrollback := scrollback_push (tm_seq t + 1, bytes) (tm_scrollback t)\<rparr>"

definition pump_end :: "terminal \<Rightarrow> terminal" where
  "pump_end t = t\<lparr>tm_closed := True\<rparr>"

definition idle_for :: "int \<Rightarrow> terminal \<Rightarrow> int" where
  "idle_for now t = max 0 (now - tm_last_input t)"

definition age :: "int \<Rightarrow> terminal \<Rightarrow> int" where
  "age now t = max 0 (now - si_opened_at (tm_info t))"

section \<open>The table\<close>

record terminals =
  tg_heap :: "terminal list"
  tg_sessions :: "(uuid \<times> nat) list"
  tg_audit :: audit_table
  tg_spawned :: "session_plan list"

definition upd_term :: "nat \<Rightarrow> (terminal \<Rightarrow> terminal) \<Rightarrow> terminals \<Rightarrow> terminals" where
  "upd_term h g st = (if h < length (tg_heap st) then st\<lparr>tg_heap := (tg_heap st)[h := g (tg_heap st ! h)]\<rparr> else st)"

definition owned_by :: "terminals \<Rightarrow> user_id \<Rightarrow> (uuid \<times> nat) list" where
  "owned_by st u = filter (\<lambda>(_, h). si_owner (tm_info (tg_heap st ! h)) = u) (tg_sessions st)"

definition check_slot :: "limits \<Rightarrow> uuid \<Rightarrow> user_id \<Rightarrow> terminals \<Rightarrow> unit res" where
  "check_slot lm i actor st =
     (if i \<in> fst ` set (tg_sessions st) then
        Inl (new_error Conflict ''that terminal session id is already in use'')
      else if length (tg_sessions st) \<ge> lm_max_sessions lm then
        Inl (new_error RateLimited ''too many terminal sessions are open on this server; close one and try again'')
      else if length (owned_by st actor) \<ge> lm_max_per_user lm then
        Inl (new_error RateLimited ''you already have the maximum number of terminal sessions open'')
      else Inr ())"

definition open_entry :: "json codec \<Rightarrow> uuid \<Rightarrow> auth_context \<Rightarrow> session_plan \<Rightarrow> new_audit_entry" where
  "open_entry c i auth plan =
     \<lparr>na_actor_user_id = Some (actor_user_id auth), na_actor_username = show_int (actor_user_id auth),
      na_impersonator_id = impersonator_id auth, na_ip = None, na_action = ''terminal.open'',
      na_target = Some (plan_account plan),
      na_detail = JObj [(''root'', JBool (plan_is_root plan)), (''session'', JStr (enc_uuid c i)),
        (''shell'', JStr (plan_shell plan)),
        (''subscription_id'', case plan_subscription_id plan of None \<Rightarrow> JNull | Some s \<Rightarrow> JNum (show_int s))],
      na_request_id = Some (request_id auth), na_subscription_id = plan_subscription_id plan\<rparr>"

text \<open>
  What the server around the table does: the account database, the installed programs, whether
  the audit row can be written, and the answer of the spawner.
\<close>

record server =
  se_lookup :: "str \<Rightarrow> account option"
  se_exists :: "str \<Rightarrow> bool"
  se_audit_ok :: bool
  se_spawn :: "session_plan \<Rightarrow> u16 \<Rightarrow> u16 \<Rightarrow> unit res"
  se_show_db :: "db_error \<Rightarrow> str"

text \<open>
  \<open>open\<close> in the two parts it has between taking the table's lock: authorise, check the slot,
  record and spawn; then insert.
\<close>

definition open_check ::
  "json codec \<Rightarrow> server \<Rightarrow> limits \<Rightarrow> accounts_db \<Rightarrow> int \<Rightarrow> uuid \<Rightarrow> auth_context \<Rightarrow> terminal_target \<Rightarrow> u16 \<Rightarrow> u16
   \<Rightarrow> terminals \<Rightarrow> terminals \<times> session_plan res" where
  "open_check c se lm db now i auth target cols rows st =
     (case authorize c (se_lookup se) (se_exists se) db auth target of
        Inl e \<Rightarrow> (st, Inl e)
      | Inr plan \<Rightarrow>
          (case check_slot lm i (actor_user_id auth) st of
             Inl e \<Rightarrow> (st, Inl e)
           | Inr _ \<Rightarrow>
               (case record_audit c (se_audit_ok se) now (open_entry c i auth plan) (tg_audit st) of
                  (_, Inl e) \<Rightarrow>
                    (st, Inl (internal_error (''refusing to open a terminal that cannot be audited: '' @ se_show_db se e)))
                | (au, Inr _) \<Rightarrow>
                    (case se_spawn se plan cols rows of
                       Inl e \<Rightarrow> (st\<lparr>tg_audit := au\<rparr>, Inl e)
                     | Inr _ \<Rightarrow> (st\<lparr>tg_audit := au, tg_spawned := tg_spawned st @ [plan]\<rparr>, Inr plan)))))"

definition new_terminal :: "limits \<Rightarrow> int \<Rightarrow> uuid \<Rightarrow> auth_context \<Rightarrow> session_plan \<Rightarrow> u16 \<Rightarrow> u16 \<Rightarrow> terminal" where
  "new_terminal lm now i auth plan cols rows =
     \<lparr>tm_info = \<lparr>si_id = i, si_owner = actor_user_id auth, si_account = plan_account plan,
                 si_is_root = plan_is_root plan, si_opened_at = now\<rparr>,
      tm_plan = plan, tm_received = [], tm_size = (cols, rows), tm_killed = False, tm_seq = 0,
      tm_scrollback = scrollback_new (lm_scrollback_bytes lm), tm_last_input = now, tm_closed = False,
      tm_reaped = False\<rparr>"

definition open_insert :: "limits \<Rightarrow> int \<Rightarrow> uuid \<Rightarrow> auth_context \<Rightarrow> session_plan \<Rightarrow> u16 \<Rightarrow> u16 \<Rightarrow> terminals \<Rightarrow> terminals \<times> nat" where
  "open_insert lm now i auth plan cols rows st =
     (let h = length (tg_heap st) in
      (st\<lparr>tg_heap := tg_heap st @ [new_terminal lm now i auth plan cols rows],
          tg_sessions := (i, h) # filter (\<lambda>(j, _). j \<noteq> i) (tg_sessions st)\<rparr>, h))"

definition open_session ::
  "json codec \<Rightarrow> server \<Rightarrow> limits \<Rightarrow> accounts_db \<Rightarrow> int \<Rightarrow> uuid \<Rightarrow> auth_context \<Rightarrow> terminal_target \<Rightarrow> u16 \<Rightarrow> u16
   \<Rightarrow> terminals \<Rightarrow> terminals \<times> nat res" where
  "open_session c se lm db now i auth target cols rows st =
     (case open_check c se lm db now i auth target cols rows st of
        (st', Inl e) \<Rightarrow> (st', Inl e)
      | (st', Inr plan) \<Rightarrow>
          (case open_insert lm now i auth plan cols rows st' of (st'', h) \<Rightarrow> (st'', Inr h)))"

definition for_owner :: "terminals \<Rightarrow> uuid \<Rightarrow> auth_context \<Rightarrow> nat res" where
  "for_owner st i auth =
     (case map_of (tg_sessions st) i of
        Some h \<Rightarrow> if si_owner (tm_info (tg_heap st ! h)) = actor_user_id auth then Inr h
                  else Inl (not_found_error ''terminal session'')
      | None \<Rightarrow> Inl (not_found_error ''terminal session''))"

definition close_entry :: "json codec \<Rightarrow> int \<Rightarrow> str \<Rightarrow> terminal \<Rightarrow> new_audit_entry" where
  "close_entry c now reason t =
     \<lparr>na_actor_user_id = Some (si_owner (tm_info t)), na_actor_username = show_int (si_owner (tm_info t)),
      na_impersonator_id = None, na_ip = None, na_action = ''terminal.close'', na_target = Some (si_account (tm_info t)),
      na_detail = JObj [(''reason'', JStr reason), (''root'', JBool (si_is_root (tm_info t))),
        (''seconds'', JNum (show_int (age now t))), (''session'', JStr (enc_uuid c (si_id (tm_info t))))],
      na_request_id = None, na_subscription_id = None\<rparr>"

definition remove_session :: "uuid \<Rightarrow> terminals \<Rightarrow> terminals" where
  "remove_session i st = st\<lparr>tg_sessions := filter (\<lambda>(j, _). j \<noteq> i) (tg_sessions st)\<rparr>"

text \<open>A closing row that cannot be written is logged and dropped.\<close>

definition finish :: "json codec \<Rightarrow> bool \<Rightarrow> int \<Rightarrow> nat \<Rightarrow> str \<Rightarrow> terminals \<Rightarrow> terminals" where
  "finish c audit_ok now h reason st =
     (let t = tg_heap st ! h; i = si_id (tm_info t) in
      if tm_reaped t then remove_session i st
      else
        let st1 = remove_session i (upd_term h (\<lambda>t. t\<lparr>tm_reaped := True, tm_closed := True, tm_killed := True\<rparr>) st)
        in st1\<lparr>tg_audit := fst (record_audit c audit_ok now (close_entry c now reason t) (tg_audit st1))\<rparr>)"

definition close_session :: "json codec \<Rightarrow> bool \<Rightarrow> int \<Rightarrow> uuid \<Rightarrow> auth_context \<Rightarrow> str \<Rightarrow> terminals \<Rightarrow> terminals \<times> unit res" where
  "close_session c audit_ok now i auth reason st =
     (case map_of (tg_sessions st) i of
        None \<Rightarrow> (st, Inr ())
      | Some h \<Rightarrow>
          if si_owner (tm_info (tg_heap st ! h)) \<noteq> actor_user_id auth then (st, Inl (not_found_error ''terminal session''))
          else (finish c audit_ok now h reason st, Inr ()))"

definition expiry_reason :: "limits \<Rightarrow> int \<Rightarrow> terminal \<Rightarrow> str option" where
  "expiry_reason lm now t =
     (if tm_closed t then Some ''the shell exited''
      else if idle_for now t \<ge> lm_idle lm then Some ''idle timeout''
      else if age now t \<ge> lm_max_lifetime lm then Some ''maximum session lifetime reached''
      else None)"

definition expired :: "limits \<Rightarrow> int \<Rightarrow> terminals \<Rightarrow> (nat \<times> str) list" where
  "expired lm now st =
     List.map_filter (\<lambda>(_, h). map_option (\<lambda>reason. (h, reason)) (expiry_reason lm now (tg_heap st ! h))) (tg_sessions st)"

definition sweep :: "json codec \<Rightarrow> bool \<Rightarrow> limits \<Rightarrow> int \<Rightarrow> terminals \<Rightarrow> terminals \<times> nat" where
  "sweep c audit_ok lm now st =
     (fold (\<lambda>(h, reason). finish c audit_ok now h reason) (expired lm now st) st, length (expired lm now st))"

section \<open>Control frames\<close>

record attachment =
  at_handle :: nat
  at_auth :: auth_context

type_synonym attached = "(uuid \<times> attachment) list"

definition max_terminal_input :: nat where
  "max_terminal_input = 64 * 1024"

definition terminal_state :: "uuid \<Rightarrow> user_id \<Rightarrow> str \<Rightarrow> str option \<Rightarrow> str option \<Rightarrow> event_frame" where
  "terminal_state i owner status d user = event_new (TerminalState i owner status d user)"

definition attach_locally :: "terminals \<Rightarrow> nat \<Rightarrow> auth_context \<Rightarrow> attached \<Rightarrow> attached" where
  "attach_locally st h auth att =
     (let i = si_id (tm_info (tg_heap st ! h)) in
      (i, \<lparr>at_handle = h, at_auth = auth\<rparr>)
        # filter (\<lambda>(j, a). j \<noteq> i \<and> \<not> tm_closed (tg_heap st ! at_handle a)) att)"

definition attached_handle :: "terminals \<Rightarrow> attached \<Rightarrow> uuid \<Rightarrow> user_id \<Rightarrow> nat option" where
  "attached_handle st att i actor =
     (case map_of att i of
        None \<Rightarrow> None
      | Some a \<Rightarrow>
          if actor_user_id (at_auth a) = actor \<and> si_owner (tm_info (tg_heap st ! at_handle a)) = actor
          then Some (at_handle a) else None)"

definition terminal_open ::
  "json codec \<Rightarrow> server \<Rightarrow> limits \<Rightarrow> accounts_db \<Rightarrow> int \<Rightarrow> uuid \<Rightarrow> terminal_target \<Rightarrow> u16 \<Rightarrow> u16 \<Rightarrow> auth_context
   \<Rightarrow> terminals \<times> attached \<Rightarrow> (terminals \<times> attached) \<times> event_frame list" where
  "terminal_open c se lm db now i target cols rows claimed w =
     (case w of (st, att) \<Rightarrow>
        (case verify_auth c (ad_users db) claimed of
           Inl e \<Rightarrow> (w, [terminal_state i (actor_user_id claimed) ''denied'' (Some (detail e)) None])
         | Inr auth \<Rightarrow>
             (case open_session c se lm db now i auth target cols rows st of
                (st', Inl e) \<Rightarrow> ((st', att), [terminal_state i (actor_user_id claimed) ''denied'' (Some (detail e)) None])
              | (st', Inr h) \<Rightarrow>
                  ((st', attach_locally st' h auth att),
                   [terminal_state i (si_owner (tm_info (tg_heap st' ! h))) ''open'' None
                      (Some (si_account (tm_info (tg_heap st' ! h))))]))))"

definition terminal_attach ::
  "json codec \<Rightarrow> accounts_db \<Rightarrow> uuid \<Rightarrow> auth_context \<Rightarrow> terminals \<times> attached \<Rightarrow> (terminals \<times> attached) \<times> event_frame list" where
  "terminal_attach c db i claimed w =
     (case w of (st, att) \<Rightarrow>
        (case verify_auth c (ad_users db) claimed of
           Inl e \<Rightarrow> (w, [terminal_state i (actor_user_id claimed) ''denied'' (Some (detail e)) None])
         | Inr auth \<Rightarrow>
             (case for_owner st i auth of
                Inl e \<Rightarrow> (w, [terminal_state i (actor_user_id claimed) ''closed'' (Some (detail e)) None])
              | Inr h \<Rightarrow>
                  ((st, attach_locally st h auth att),
                   [terminal_state i (si_owner (tm_info (tg_heap st ! h))) ''open'' None
                      (Some (si_account (tm_info (tg_heap st ! h))))]))))"

text \<open>\<open>decode\<close> is the standard base64 decoder.\<close>

definition terminal_input ::
  "(str \<Rightarrow> str option) \<Rightarrow> int \<Rightarrow> uuid \<Rightarrow> user_id \<Rightarrow> str \<Rightarrow> terminals \<times> attached \<Rightarrow> (terminals \<times> attached) \<times> event_frame list" where
  "terminal_input decode now i actor data w =
     (case w of (st, att) \<Rightarrow>
        (case attached_handle st att i actor of
           None \<Rightarrow> (w, [terminal_state i actor ''closed'' (Some ''no such terminal session on this connection'') None])
         | Some h \<Rightarrow>
             (case decode data of
                None \<Rightarrow> (w, [])
              | Some bytes \<Rightarrow>
                  if length bytes > max_terminal_input then (w, [])
                  else ((upd_term h (handle_write now bytes) st, att), []))))"

definition terminal_resize :: "uuid \<Rightarrow> user_id \<Rightarrow> u16 \<Rightarrow> u16 \<Rightarrow> terminals \<times> attached \<Rightarrow> (terminals \<times> attached) \<times> event_frame list" where
  "terminal_resize i actor cols rows w =
     (case w of (st, att) \<Rightarrow>
        (case attached_handle st att i actor of
           None \<Rightarrow> (w, [])
         | Some h \<Rightarrow> ((upd_term h (handle_resize cols rows) st, att), [])))"

definition terminal_close ::
  "json codec \<Rightarrow> bool \<Rightarrow> int \<Rightarrow> uuid \<Rightarrow> user_id \<Rightarrow> terminals \<times> attached \<Rightarrow> (terminals \<times> attached) \<times> event_frame list" where
  "terminal_close c audit_ok now i actor w =
     (case w of (st, att) \<Rightarrow>
        (case attached_handle st att i actor of
           None \<Rightarrow> (w, [])
         | Some _ \<Rightarrow>
             (case map_of att i of
                None \<Rightarrow> (w, [])
              | Some a \<Rightarrow>
                  ((fst (close_session c audit_ok now i (at_auth a) ''closed by the client'' st),
                    filter (\<lambda>(j, _). j \<noteq> i) att),
                   [terminal_state i actor ''closed'' None None]))))"

fun terminal_control ::
  "json codec \<Rightarrow> server \<Rightarrow> limits \<Rightarrow> accounts_db \<Rightarrow> (str \<Rightarrow> str option) \<Rightarrow> int \<Rightarrow> control_kind
   \<Rightarrow> terminals \<times> attached \<Rightarrow> (terminals \<times> attached) \<times> event_frame list" where
  "terminal_control c se lm db decode now (TerminalOpen i target cols rows auth) w =
     terminal_open c se lm db now i target cols rows auth w"
| "terminal_control c se lm db decode now (TerminalAttach i auth) w = terminal_attach c db i auth w"
| "terminal_control c se lm db decode now (TerminalInput i actor data) w = terminal_input decode now i actor data w"
| "terminal_control c se lm db decode now (TerminalResize i actor cols rows) w = terminal_resize i actor cols rows w"
| "terminal_control c se lm db decode now (TerminalClose i actor) w = terminal_close c (se_audit_ok se) now i actor w"
| "terminal_control c se lm db decode now _ w = (w, [])"

section \<open>The scrollback\<close>

definition chunk_bytes :: "chunk list \<Rightarrow> nat" where
  "chunk_bytes xs = sum_list (map (\<lambda>x. length (snd x)) xs)"

lemma chunk_bytes_simps [simp]:
  "chunk_bytes [] = 0" "chunk_bytes (x # xs) = length (snd x) + chunk_bytes xs"
  "chunk_bytes (xs @ ys) = chunk_bytes xs + chunk_bytes ys"
  by (simp_all add: chunk_bytes_def)

lemma drop_oldest_spec:
  assumes "drop_oldest xs (chunk_bytes xs) cap = (ys, n)"
  shows "suffix ys xs \<and> n = chunk_bytes ys \<and> n \<le> cap
    \<and> (\<forall>zs. suffix zs xs \<and> length ys < length zs \<longrightarrow> cap < chunk_bytes zs)"
  using assms
proof (induction xs)
  case (Cons x xs)
  show ?case
  proof (cases "chunk_bytes (x # xs) > cap")
    case True
    then have "drop_oldest xs (chunk_bytes xs) cap = (ys, n)" using Cons.prems by simp
    note IH = Cons.IH [OF this]
    have "cap < chunk_bytes zs" if "suffix zs (x # xs)" "length ys < length zs" for zs
      using that IH True by (auto simp: suffix_Cons)
    with IH show ?thesis by (auto simp: suffix_Cons)
  next
    case False
    then have "ys = x # xs" "n = chunk_bytes (x # xs)" using Cons.prems by auto
    moreover have "\<not> length (x # xs) < length zs" if "suffix zs (x # xs)" for zs
      using suffix_length_le [OF that] by simp
    ultimately show ?thesis using False by auto
  qed
qed simp

text \<open>The ring holds the longest suffix of what was written that fits.\<close>

definition scrollback_inv :: "nat \<Rightarrow> chunk list \<Rightarrow> scrollback \<Rightarrow> bool" where
  "scrollback_inv cap written s \<longleftrightarrow> sk_cap s = cap \<and> suffix (sk_chunks s) written
     \<and> sk_bytes s = chunk_bytes (sk_chunks s) \<and> sk_bytes s \<le> cap
     \<and> (\<forall>zs. suffix zs written \<and> length (sk_chunks s) < length zs \<longrightarrow> cap < chunk_bytes zs)"

lemma suffix_append_both: "suffix xs ys \<Longrightarrow> suffix (xs @ zs) (ys @ zs)"
  by (auto simp: suffix_def)

lemma scrollback_push_inv:
  assumes "scrollback_inv cap written s"
  shows "scrollback_inv cap (written @ [x]) (scrollback_push x s)"
proof -
  obtain ys n where d: "drop_oldest (sk_chunks s @ [x]) (sk_bytes s + length (snd x)) (sk_cap s) = (ys, n)"
    by fastforce
  then have "drop_oldest (sk_chunks s @ [x]) (chunk_bytes (sk_chunks s @ [x])) cap = (ys, n)"
    using assms by (simp add: scrollback_inv_def)
  note spec = drop_oldest_spec [OF this]
  have w: "suffix (sk_chunks s @ [x]) (written @ [x])"
    using assms by (intro suffix_append_both) (simp add: scrollback_inv_def)
  with spec have "suffix ys (written @ [x])"
    by (meson suffix_order.trans)
  moreover have "cap < chunk_bytes zs" if zs: "suffix zs (written @ [x])" "length ys < length zs" for zs
  proof (cases "length zs \<le> length (sk_chunks s @ [x])")
    case True
    then have "suffix zs (sk_chunks s @ [x])"
      using zs(1) w by (metis suffix_length_suffix)
    with zs(2) spec show ?thesis by blast
  next
    case False
    then obtain zs' where zs': "zs = zs' @ [x]" "suffix zs' written"
      using zs(1) by (cases zs rule: rev_cases) auto
    with False assms have "cap < chunk_bytes zs'" by (auto simp: scrollback_inv_def)
    then show ?thesis by (simp add: zs')
  qed
  ultimately show ?thesis
    using spec d assms by (simp add: scrollback_push_def scrollback_inv_def)
qed

lemma scrollback_fold_inv:
  "scrollback_inv cap written s \<Longrightarrow> scrollback_inv cap (written @ xs) (fold scrollback_push xs s)"
proof (induction xs arbitrary: written s)
  case (Cons x xs)
  from Cons.IH [OF scrollback_push_inv [OF Cons.prems]] show ?case by simp
qed simp

section \<open>The table's invariant\<close>

definition table_inv :: "limits \<Rightarrow> terminals \<Rightarrow> bool" where
  "table_inv lm st \<longleftrightarrow> distinct (map fst (tg_sessions st))
     \<and> (\<forall>(i, h) \<in> set (tg_sessions st). h < length (tg_heap st) \<and> si_id (tm_info (tg_heap st ! h)) = i)
     \<and> length (tg_sessions st) \<le> lm_max_sessions lm
     \<and> (\<forall>u. length (owned_by st u) \<le> lm_max_per_user lm)"

lemma owned_by_cong:
  assumes "tg_sessions st' = tg_sessions st"
    and "\<And>i h. (i, h) \<in> set (tg_sessions st) \<Longrightarrow> tm_info (tg_heap st' ! h) = tm_info (tg_heap st ! h)"
  shows "owned_by st' u = owned_by st u"
  unfolding owned_by_def assms(1) using assms(2) by (intro filter_cong) auto

lemma upd_term_info:
  "(\<And>t. tm_info (g t) = tm_info t) \<Longrightarrow> tm_info (tg_heap (upd_term h g st) ! k) = tm_info (tg_heap st ! k)"
  by (cases "k = h") (auto simp: upd_term_def)

lemma upd_term_inv:
  assumes "table_inv lm st" "\<And>t. tm_info (g t) = tm_info t"
  shows "table_inv lm (upd_term h g st)"
proof -
  have "tg_sessions (upd_term h g st) = tg_sessions st" "length (tg_heap (upd_term h g st)) = length (tg_heap st)"
    by (simp_all add: upd_term_def)
  moreover from this have "owned_by (upd_term h g st) u = owned_by st u" for u
    by (intro owned_by_cong) (simp_all add: upd_term_info assms(2))
  ultimately show ?thesis
    using assms(1) upd_term_info [OF assms(2)] by (auto simp: table_inv_def)
qed

lemma audit_table_inv [simp]:
  "table_inv lm (st\<lparr>tg_audit := au\<rparr>) = table_inv lm st"
  "table_inv lm (st\<lparr>tg_audit := au, tg_spawned := ps\<rparr>) = table_inv lm st"
  by (simp_all add: table_inv_def owned_by_def)

lemma remove_session_inv: "table_inv lm st \<Longrightarrow> table_inv lm (remove_session i st)"
proof -
  assume inv: "table_inv lm st"
  have "length (owned_by (remove_session i st) u) \<le> length (owned_by st u)" for u
  proof -
    have "owned_by (remove_session i st) u = filter (\<lambda>(j, _). j \<noteq> i) (owned_by st u)"
      by (auto simp: owned_by_def remove_session_def intro: filter_cong)
    then show ?thesis by simp
  qed
  then have "length (owned_by (remove_session i st) u) \<le> lm_max_per_user lm" for u
    using inv order_trans unfolding table_inv_def by blast
  moreover have "length (tg_sessions (remove_session i st)) \<le> length (tg_sessions st)"
    by (simp add: remove_session_def)
  then have "length (tg_sessions (remove_session i st)) \<le> lm_max_sessions lm"
    using inv unfolding table_inv_def by linarith
  ultimately show ?thesis
    using inv unfolding table_inv_def by (auto simp: remove_session_def distinct_map_filter)
qed

lemma finish_inv: "table_inv lm st \<Longrightarrow> table_inv lm (finish c ok now h reason st)"
  by (simp add: finish_def Let_def remove_session_inv upd_term_inv)

lemma sweep_inv: "table_inv lm st \<Longrightarrow> table_inv lm (fst (sweep c ok lm now st))"
proof -
  have "table_inv lm st \<Longrightarrow> table_inv lm (fold (\<lambda>(h, reason). finish c ok now h reason) xs st)" for xs st
    by (induction xs arbitrary: st) (auto simp: finish_inv)
  then show "table_inv lm st \<Longrightarrow> ?thesis" by (simp add: sweep_def)
qed

lemma close_inv: "table_inv lm st \<Longrightarrow> table_inv lm (fst (close_session c ok now i auth reason st))"
  by (simp add: close_session_def finish_inv split: option.splits)

text \<open>What \<open>open\<close> did up to its second lock: a refusal, or one audit row and then one spawn.\<close>

definition audited_spawn :: "auth_context \<Rightarrow> session_plan \<Rightarrow> terminals \<Rightarrow> terminals \<Rightarrow> bool" where
  "audited_spawn auth plan st st' \<longleftrightarrow>
     (\<exists>row. au_rows (tg_audit st') = au_rows (tg_audit st) @ [row] \<and> ar_action row = ''terminal.open''
        \<and> ar_target row = Some (plan_account plan) \<and> ar_actor_user_id row = Some (actor_user_id auth))
     \<and> tg_spawned st' = tg_spawned st @ [plan] \<and> tg_heap st' = tg_heap st \<and> tg_sessions st' = tg_sessions st"

definition only_audited :: "terminals \<Rightarrow> terminals \<Rightarrow> bool" where
  "only_audited st st' \<longleftrightarrow>
     (au_rows (tg_audit st') = au_rows (tg_audit st) \<or> (\<exists>row. au_rows (tg_audit st') = au_rows (tg_audit st) @ [row]))
     \<and> tg_spawned st' = tg_spawned st \<and> tg_heap st' = tg_heap st \<and> tg_sessions st' = tg_sessions st"

lemma open_check_cases:
  assumes "open_check c se lm db now i auth target cols rows st = (st', r)"
  shows "(\<exists>e. r = Inl e \<and> only_audited st st')
    \<or> (\<exists>plan. r = Inr plan \<and> authorize c (se_lookup se) (se_exists se) db auth target = Inr plan
        \<and> check_slot lm i (actor_user_id auth) st = Inr () \<and> audited_spawn auth plan st st')"
proof (cases "authorize c (se_lookup se) (se_exists se) db auth target")
  case (Inl e)
  then have "st' = st" "r = Inl e" using assms by (simp_all add: open_check_def)
  then show ?thesis by (simp add: only_audited_def)
next
  case plan: (Inr plan)
  show ?thesis
  proof (cases "check_slot lm i (actor_user_id auth) st")
    case (Inl e)
    then show ?thesis using assms plan by (auto simp: open_check_def only_audited_def)
  next
    case slot: (Inr u)
    obtain au x where au: "record_audit c (se_audit_ok se) now (open_entry c i auth plan) (tg_audit st) = (au, x)" by fastforce
    show ?thesis
    proof (cases x)
      case (Inl e)
      then show ?thesis using assms plan slot au by (auto simp: open_check_def only_audited_def)
    next
      case (Inr k)
      then have row: "\<exists>row. au_rows au = au_rows (tg_audit st) @ [row] \<and> ar_action row = ''terminal.open''
          \<and> ar_target row = Some (plan_account plan) \<and> ar_actor_user_id row = Some (actor_user_id auth)"
        using au by (auto simp: record_audit_def open_entry_def Let_def split: if_splits)
      show ?thesis
      proof (cases "se_spawn se plan cols rows")
        case e: (Inl e)
        have "r = Inl e" "st' = st\<lparr>tg_audit := au\<rparr>"
          using assms plan slot au Inr e by (simp_all add: open_check_def)
        with row show ?thesis by (auto simp: only_audited_def)
      next
        case ok: (Inr v)
        have "r = Inr plan" "st' = st\<lparr>tg_audit := au, tg_spawned := tg_spawned st @ [plan]\<rparr>"
          using assms plan slot au Inr ok by (simp_all add: open_check_def)
        with row plan slot show ?thesis by (auto simp: audited_spawn_def)
      qed
    qed
  qed
qed

lemma open_insert_inv:
  assumes "table_inv lm st" "check_slot lm i (actor_user_id auth) st = Inr ()"
  shows "table_inv lm (fst (open_insert lm now i auth plan cols rows st))"
proof -
  let ?st' = "fst (open_insert lm now i auth plan cols rows st)"
  have fresh: "i \<notin> fst ` set (tg_sessions st)" "length (tg_sessions st) < lm_max_sessions lm"
    "length (owned_by st (actor_user_id auth)) < lm_max_per_user lm"
    using assms(2) by (auto simp: check_slot_def split: if_splits)
  have keep: "filter (\<lambda>(j, _). j \<noteq> i) (tg_sessions st) = tg_sessions st"
    using fresh(1) by (auto simp: filter_id_conv rev_image_eqI)
  have sess: "tg_sessions ?st' = (i, length (tg_heap st)) # tg_sessions st"
    "tg_heap ?st' = tg_heap st @ [new_terminal lm now i auth plan cols rows]"
    by (simp_all add: open_insert_def Let_def keep)
  have old: "tg_heap ?st' ! h = tg_heap st ! h" if "(j, h) \<in> set (tg_sessions st)" for j h
    using that assms(1) unfolding table_inv_def sess by (force simp: nth_append)
  have "filter (\<lambda>(_, h). si_owner (tm_info (tg_heap ?st' ! h)) = u) (tg_sessions st) = owned_by st u" for u
    unfolding owned_by_def by (rule filter_cong) (auto simp: old)
  then have "owned_by ?st' u = (if u = actor_user_id auth then [(i, length (tg_heap st))] else []) @ owned_by st u" for u
    by (auto simp: owned_by_def sess(1) sess(2) [symmetric]) (auto simp: sess(2) new_terminal_def nth_append)
  moreover have "si_id (tm_info (tg_heap ?st' ! length (tg_heap st))) = i"
    by (simp add: sess new_terminal_def)
  ultimately show ?thesis
    using assms(1) fresh old unfolding table_inv_def by (auto simp: sess less_SucI)
qed

lemma open_session_inv: "table_inv lm st \<Longrightarrow> table_inv lm (fst (open_session c se lm db now i auth target cols rows st))"
proof -
  assume inv: "table_inv lm st"
  obtain st' r where eq: "open_check c se lm db now i auth target cols rows st = (st', r)" by fastforce
  have same: "tg_heap st' = tg_heap st" "tg_sessions st' = tg_sessions st"
    using open_check_cases [OF eq] by (auto simp: only_audited_def audited_spawn_def)
  then have inv': "table_inv lm st'" and slot: "check_slot lm i u st' = check_slot lm i u st" for u
    using inv by (simp_all add: table_inv_def owned_by_def check_slot_def)
  show ?thesis
  proof (cases r)
    case (Inl e)
    then show ?thesis using inv' by (simp add: open_session_def eq)
  next
    case (Inr plan)
    then have "check_slot lm i (actor_user_id auth) st' = Inr ()"
      using open_check_cases [OF eq] slot by auto
    from open_insert_inv [OF inv' this] show ?thesis
      by (simp add: open_session_def eq Inr split: prod.splits) (metis fst_conv)
  qed
qed

section \<open>The agent's terminals as a transition\<close>

text \<open>
  One step: a control frame, the end of a client's connection, the ticker's sweep, or what the
  shell of a session does.
\<close>

datatype terminal_event =
    TmFrame server accounts_db "str \<Rightarrow> str option" control_kind
  | TmDisconnect
  | TmSweep bool
  | TmOutput nat str
  | TmExit nat

definition terminal_step ::
  "json codec \<Rightarrow> limits \<Rightarrow> int \<Rightarrow> terminal_event \<Rightarrow> terminals \<times> attached \<Rightarrow> terminals \<times> attached" where
  "terminal_step c lm now ev w =
     (case ev of
        TmFrame se db decode k \<Rightarrow> fst (terminal_control c se lm db decode now k w)
      | TmDisconnect \<Rightarrow> (fst w, [])
      | TmSweep ok \<Rightarrow> (fst (sweep c ok lm now (fst w)), snd w)
      | TmOutput h bytes \<Rightarrow> (upd_term h (pump_output bytes) (fst w), snd w)
      | TmExit h \<Rightarrow> (upd_term h pump_end (fst w), snd w))"

fun terminal_run :: "json codec \<Rightarrow> limits \<Rightarrow> (int \<times> terminal_event) list \<Rightarrow> terminals \<times> attached \<Rightarrow> terminals \<times> attached" where
  "terminal_run c lm [] w = w"
| "terminal_run c lm ((now, ev) # evs) w = terminal_run c lm evs (terminal_step c lm now ev w)"

lemma handle_info [simp]:
  "tm_info (handle_write now bytes t) = tm_info t" "tm_info (handle_resize cols rows t) = tm_info t"
  "tm_info (pump_output bytes t) = tm_info t" "tm_info (pump_end t) = tm_info t"
  by (simp_all add: handle_write_def handle_resize_def pump_output_def pump_end_def)

lemma terminal_open_state:
  "fst (fst (terminal_open c se lm db now i target cols rows claimed (st, att))) =
     (case verify_auth c (ad_users db) claimed of
        Inl _ \<Rightarrow> st | Inr auth \<Rightarrow> fst (open_session c se lm db now i auth target cols rows st))"
  by (auto simp: terminal_open_def split: sum.splits prod.splits)

lemma control_inv:
  assumes "table_inv lm (fst w)"
  shows "table_inv lm (fst (fst (terminal_control c se lm db decode now k w)))"
proof -
  obtain st att where w: "w = (st, att)" by fastforce
  have inv: "table_inv lm st" using assms w by simp
  show ?thesis
    unfolding w
  proof (cases k)
    case (TerminalOpen i target cols rows auth)
    then show "table_inv lm (fst (fst (terminal_control c se lm db decode now k (st, att))))"
      using inv open_session_inv by (simp add: terminal_open_state split: sum.splits)
  qed (use inv in \<open>auto simp: terminal_attach_def terminal_input_def terminal_resize_def terminal_close_def
      upd_term_inv close_inv split: sum.splits option.splits\<close>)
qed

lemma terminal_step_inv: "table_inv lm (fst w) \<Longrightarrow> table_inv lm (fst (terminal_step c lm now ev w))"
  unfolding terminal_step_def
  by (cases ev) (simp_all add: control_inv sweep_inv upd_term_inv)

lemma terminal_run_inv: "table_inv lm (fst w) \<Longrightarrow> table_inv lm (fst (terminal_run c lm evs w))"
  by (induction c lm evs w rule: terminal_run.induct) (simp_all add: terminal_step_inv)

definition no_terminals :: "audit_table \<Rightarrow> terminals" where
  "no_terminals au = \<lparr>tg_heap = [], tg_sessions = [], tg_audit = au, tg_spawned = []\<rparr>"

lemma no_terminals_inv: "table_inv lm (no_terminals au)"
  by (simp add: table_inv_def no_terminals_def owned_by_def)

section \<open>Every shell is on the trail\<close>

definition opens :: "terminals \<Rightarrow> nat" where
  "opens st = length (filter (\<lambda>r. ar_action r = ''terminal.open'') (au_rows (tg_audit st)))"

lemma finish_trail:
  "tg_spawned (finish c ok now h reason st) = tg_spawned st" "opens (finish c ok now h reason st) = opens st"
  by (simp_all add: finish_def Let_def remove_session_def upd_term_def opens_def record_audit_def close_entry_def)

lemma sweep_trail:
  "tg_spawned (fst (sweep c ok lm now st)) = tg_spawned st \<and> opens (fst (sweep c ok lm now st)) = opens st"
proof -
  have "tg_spawned (fold (\<lambda>(h, reason). finish c ok now h reason) xs st) = tg_spawned st
      \<and> opens (fold (\<lambda>(h, reason). finish c ok now h reason) xs st) = opens st" for xs
    by (induction xs arbitrary: st) (auto simp: finish_trail)
  then show ?thesis by (simp add: sweep_def)
qed

lemma upd_term_trail [simp]: "tg_spawned (upd_term h g st) = tg_spawned st" "opens (upd_term h g st) = opens st"
  by (simp_all add: upd_term_def opens_def)

lemma close_trail:
  "tg_spawned (fst (close_session c ok now i auth reason st)) = tg_spawned st
   \<and> opens (fst (close_session c ok now i auth reason st)) = opens st"
  by (simp add: close_session_def finish_trail split: option.splits)

lemma open_session_trail:
  "(tg_spawned (fst (open_session c se lm db now i auth target cols rows st)) = tg_spawned st
    \<and> opens st \<le> opens (fst (open_session c se lm db now i auth target cols rows st)))
   \<or> (\<exists>plan. authorize c (se_lookup se) (se_exists se) db auth target = Inr plan
       \<and> tg_spawned (fst (open_session c se lm db now i auth target cols rows st)) = tg_spawned st @ [plan]
       \<and> opens (fst (open_session c se lm db now i auth target cols rows st)) = opens st + 1)"
proof -
  obtain st' r where eq: "open_check c se lm db now i auth target cols rows st = (st', r)" by fastforce
  show ?thesis
  proof (cases r)
    case (Inl e)
    then have "only_audited st st'" using open_check_cases [OF eq] by simp
    then show ?thesis using Inl by (auto simp: open_session_def eq opens_def only_audited_def)
  next
    case (Inr plan)
    then have "authorize c (se_lookup se) (se_exists se) db auth target = Inr plan" "audited_spawn auth plan st st'"
      using open_check_cases [OF eq] by simp_all
    moreover have "tg_spawned (fst (open_session c se lm db now i auth target cols rows st)) = tg_spawned st'"
      "opens (fst (open_session c se lm db now i auth target cols rows st)) = opens st'"
      by (simp_all add: open_session_def eq Inr open_insert_def Let_def opens_def)
    ultimately show ?thesis by (auto simp: audited_spawn_def opens_def)
  qed
qed

lemma step_trail:
  assumes "length (tg_spawned (fst w)) \<le> opens (fst w)"
  shows "length (tg_spawned (fst (terminal_step c lm now ev w))) \<le> opens (fst (terminal_step c lm now ev w))"
proof -
  obtain st att where w: "w = (st, att)" by fastforce
  have le: "length (tg_spawned st) \<le> opens st" using assms w by simp
  have open_le: "length (tg_spawned (fst (open_session c se lm db now i auth target cols rows st)))
      \<le> opens (fst (open_session c se lm db now i auth target cols rows st))" for se db i auth target cols rows
    using open_session_trail [of c se lm db now i auth target cols rows st] le by auto
  show ?thesis
  proof (cases ev)
    case (TmFrame se db decode k)
    show ?thesis
    proof (cases k)
      case (TerminalOpen i target cols rows auth)
      then show ?thesis
        using TmFrame w le open_le by (simp add: terminal_step_def terminal_open_state split: sum.splits)
    qed (use TmFrame w le close_trail [of c _ now] in \<open>auto simp: terminal_step_def terminal_attach_def
        terminal_input_def terminal_resize_def terminal_close_def split: sum.splits option.splits\<close>)
  qed (use w le sweep_trail in \<open>auto simp: terminal_step_def\<close>)
qed

section \<open>Who gets which shell\<close>

lemma resolve_visible:
  assumes "resolve_subscription c db auth sid = Inr s"
  shows "\<exists>r \<in> set (ad_subs db). subscription_of_row c r = Inr s
    \<and> subscription_visible (ad_users db) (filter_from_scope (tenant_scope auth)) r \<and> (\<forall>i. sid = Some i \<longrightarrow> sbr_id r = i)"
proof (cases sid)
  case (Some i)
  then have "subscription_by_id c (filter_from_scope (tenant_scope auth)) db i = Inr (Some s)"
    using assms by (auto simp: resolve_subscription_def Let_def result_simps)
  then show ?thesis
    using subs.fetch_sound Some by (fastforce simp: subscription_by_id_Some)
next
  case None
  let ?f = "filter_from_scope (tenant_scope auth)"
  obtain mine rest where *: "list_subscriptions c ?f db 500 0 = Inr mine" "sort_key sb_id mine = s # rest"
  proof (cases "list_subscriptions c ?f db 500 0")
    case (Inl e)
    then show ?thesis using assms None by (simp add: resolve_subscription_def Let_def split: if_splits)
  next
    case (Inr mine)
    then show ?thesis
      using assms None that [of mine] by (cases "sort_key sb_id mine") (auto simp: resolve_subscription_def Let_def split: if_splits)
  qed
  then have "s \<in> set (sort_key sb_id mine)" by simp
  with *(1) have mine: "list_subscriptions c ?f db 500 0 = Inr mine" "s \<in> set mine" by simp_all
  have "collect_results rs = Inr vs \<Longrightarrow> v \<in> set vs \<Longrightarrow> Inr v \<in> set rs" for rs :: "subscription db_res list" and vs v
    by (induction rs arbitrary: vs) (auto simp: result_simps)
  then obtain r where r: "r \<in> set (subscriptions_page ?f db 500 0)" "subscription_of_row c r = Inr s"
    using mine unfolding list_subscriptions_def by fastforce
  from r(1) have "r \<in> set (ad_subs db)" "subscription_visible (ad_users db) ?f r"
    using subscriptions_page_visible by blast+
  with r(2) None show ?thesis by auto
qed

text \<open>
  The shell of a tenant runs as the Linux account of one subscription, with the ids and the shell that the
  server's account database gives for it, in the home of the subscription.
\<close>

definition tenant_shell :: "(str \<Rightarrow> account option) \<Rightarrow> subscription_row \<Rightarrow> session_plan \<Rightarrow> bool" where
  "tenant_shell lookup r plan \<longleftrightarrow>
     \<not> plan_is_root plan \<and> plan_sub plan = sbr_id r \<and> plan_home plan = sbr_home_dir r
     \<and> linux_user_parse (sbr_linux_user r) = Inr (plan_user plan)
     \<and> (case lookup (plan_account plan) of None \<Rightarrow> False
        | Some a \<Rightarrow> plan_uid plan = ac_uid a \<and> plan_gid plan = ac_gid a \<and> plan_shell plan = ac_shell a)
     \<and> plan_uid plan \<noteq> 0 \<and> plan_gid plan \<noteq> 0"

definition shell_allowed ::
  "'j codec \<Rightarrow> (str \<Rightarrow> account option) \<Rightarrow> accounts_db \<Rightarrow> auth_context \<Rightarrow> terminal_target \<Rightarrow> session_plan \<Rightarrow> bool" where
  "shell_allowed c lookup db auth target plan \<longleftrightarrow>
     plan_shell plan \<in> set allowed_shells \<and> plan_shell plan \<notin> set refused_shells \<and> TerminalAccess \<in> permissions auth
     \<and> (case target of
          TargetRoot \<Rightarrow> plan_is_root plan \<and> acting_role auth = Admin
        | TargetTenant sid \<Rightarrow>
            acting_role auth \<noteq> Reseller
            \<and> (\<exists>r \<in> set (ad_subs db). tenant_shell lookup r plan \<and> sbr_status r = ''active''
                 \<and> subscription_visible (ad_users db) (filter_from_scope (tenant_scope auth)) r
                 \<and> (case sid of None \<Rightarrow> True | Some i \<Rightarrow> sbr_id r = i)
                 \<and> (acting_role auth = Customer \<longrightarrow>
                      (\<exists>p. plan_of_subscription c db (sbr_id r) = Inr (Some p) \<and> pl_can_ssh p))))"

lemma vet_shell_ok: "vet_shell sh = Inr x \<longleftrightarrow> x = sh \<and> sh \<in> set allowed_shells \<and> sh \<notin> set refused_shells"
  by (auto simp: vet_shell_def)

lemma status_active: "subscription_status_parse x = Inr st \<Longrightarrow> can_serve st \<Longrightarrow> x = ''active''"
  by (auto simp: subscription_status_parse_def split: if_splits)

lemma tenant_plan_allowed:
  assumes "tenant_plan c lookup db auth sid flag = Inr plan"
  shows "\<exists>r \<in> set (ad_subs db). tenant_shell lookup r plan \<and> sbr_status r = ''active''
    \<and> plan_shell plan \<in> set allowed_shells \<and> plan_shell plan \<notin> set refused_shells
    \<and> subscription_visible (ad_users db) (filter_from_scope (tenant_scope auth)) r
    \<and> (case sid of None \<Rightarrow> True | Some i \<Rightarrow> sbr_id r = i)
    \<and> (flag \<longrightarrow> (\<exists>p. plan_of_subscription c db (sbr_id r) = Inr (Some p) \<and> pl_can_ssh p))"
proof -
  obtain s :: subscription and u and a :: account and shell where s: "resolve_subscription c db auth sid = Inr s" "can_serve (sb_status s)"
      "flag \<longrightarrow> plan_allows_shell c db (sb_id s) = Inr ()"
    and a: "\<not> (ac_uid a = 0 \<or> ac_gid a = 0)" "vet_shell (ac_shell a) = Inr shell" "lookup (linux_user_as_str u) = Some a"
    and u: "linux_user_parse (sb_linux_user s) = Inr u"
    and plan: "plan = TenantPlan (ac_uid a) (ac_gid a) u (sb_id s) (sb_home_dir s) shell"
    using assms unfolding tenant_plan_def by (auto simp: result_simps split: if_splits)
  obtain r where r: "r \<in> set (ad_subs db)" "subscription_of_row c r = Inr s"
    "subscription_visible (ad_users db) (filter_from_scope (tenant_scope auth)) r" "\<forall>i. sid = Some i \<longrightarrow> sbr_id r = i"
    using resolve_visible [OF s(1)] by blast
  have f: "sbr_id r = sb_id s" "sbr_status r = ''active''" "sbr_linux_user r = sb_linux_user s" "sbr_home_dir r = sb_home_dir s"
    using subscription_of_row_fields [OF r(2)] status_active s(2) by auto
  moreover have "flag \<Longrightarrow> \<exists>p. plan_of_subscription c db (sb_id s) = Inr (Some p) \<and> pl_can_ssh p"
    using s(3) by (auto simp: plan_allows_shell_def result_simps split: option.splits if_splits)
  moreover have "tenant_shell lookup r plan"
    using a u plan f by (simp add: tenant_shell_def vet_shell_ok)
  ultimately show ?thesis
    using r(1,3,4) a(2) plan by (intro bexI [OF _ r(1)]) (simp add: vet_shell_ok split: option.split)
qed

lemma authorize_allowed:
  assumes "authorize c lookup exists db auth target = Inr plan"
  shows "shell_allowed c lookup db auth target plan"
proof -
  have perm: "TerminalAccess \<in> permissions auth"
    using assms by (auto simp: authorize_def result_simps require_perm_def has_perm_def split: if_splits)
  consider (root) shell where "acting_role auth = Admin" "target = TargetRoot" "pick_root_shell exists = Inr shell" "plan = RootPlan ''/root'' shell"
    | (admin) sid where "acting_role auth = Admin" "target = TargetTenant sid" "tenant_plan c lookup db auth sid False = Inr plan"
    | (customer) sid where "acting_role auth = Customer" "target = TargetTenant sid" "tenant_plan c lookup db auth sid True = Inr plan"
    using assms by (cases "acting_role auth"; cases target) (auto simp: authorize_def result_simps)
  then show ?thesis
  proof cases
    case root
    then have "shell \<in> set allowed_shells"
      by (auto simp: pick_root_shell_def result_simps find_Some_iff)
    moreover from this have "shell \<notin> set refused_shells" by (auto simp: allowed_shells_def refused_shells_def)
    ultimately show ?thesis using root perm by (simp add: shell_allowed_def)
  next
    case admin
    with tenant_plan_allowed [OF admin(3)] perm show ?thesis by (auto simp: shell_allowed_def)
  next
    case customer
    with tenant_plan_allowed [OF customer(3)] perm show ?thesis by (auto simp: shell_allowed_def)
  qed
qed

text \<open>
  The limits hold for whole opens only. Between its two locks another open can pass the same
  check; both then insert.
\<close>

lemma two_interleaved_opens_exceed_the_cap:
  assumes "check_slot lm 1 u st = Inr ()" "check_slot lm 2 v st = Inr ()" "length (tg_sessions st) + 1 = lm_max_sessions lm"
    and "actor_user_id a = u" "actor_user_id b = v"
  shows "length (tg_sessions (fst (open_insert lm now 2 b q cols rows (fst (open_insert lm now 1 a p cols rows st)))))
    = lm_max_sessions lm + 1"
proof -
  have "1 \<notin> fst ` set (tg_sessions st)" "2 \<notin> fst ` set (tg_sessions st)"
    using assms by (auto simp: check_slot_def split: if_splits)
  then have "filter (\<lambda>(j, _). j \<noteq> 1) (tg_sessions st) = tg_sessions st" "filter (\<lambda>(j, _). j \<noteq> 2) (tg_sessions st) = tg_sessions st"
    by (auto simp: filter_id_conv rev_image_eqI)
  then show ?thesis using assms(3) by (simp add: open_insert_def Let_def)
qed

text \<open>A claimed global scope is taken at its word: any subscription resolves, whoever asks.\<close>

lemma forged_scope_resolves_any_subscription:
  assumes "r \<in> set (ad_subs db)" "distinct (map sbr_id (ad_subs db))" "subscription_of_row c r = Inr s"
    and "tenant_scope auth = ScGlobal"
  shows "resolve_subscription c db auth (Some (sbr_id r)) = Inr s"
proof -
  have "fetch_subscription (ad_users db) FAll (ad_subs db) (sbr_id r) = Some r"
    using assms(1,2) by (simp add: subs.fetch_Some_iff subscription_visible_def)
  then show ?thesis
    using assms(3,4) by (simp add: resolve_subscription_def subscription_by_id_def ok_or_def)
qed

section \<open>Properties\<close>

text \<open>
  C4: Who gets which shell. Whatever an open frame claims, at most one shell is started, and then
  the acting account exists, is active and has the claimed role and the terminal permission. A
  root shell is only ever the answer to an administrator who asked for one. Every other shell runs as the
  Linux account of an active subscription visible in the claimed scope, the named one if one is named,
  with the non-root ids of that account and in the home of the subscription; a customer gets it only with
  a plan that includes shell access, an administrator without regard to the plan, a reseller never. The
  program is on the allow-list, and an audit row was written.
\<close>

theorem shells_go_only_to_the_entitled:
  assumes "terminal_control c se lm db decode now (TerminalOpen i target cols rows claimed) (st, att) = ((st', att'), evs)"
  shows "tg_spawned st' = tg_spawned st
    \<or> (\<exists>plan r u. tg_spawned st' = tg_spawned st @ [plan] \<and> opens st' = opens st + 1
        \<and> fetch_user FAll (ut_rows (ad_users db)) (actor_user_id claimed) = Some r \<and> user_of_row c r = Inr u
        \<and> can_log_in (u_status u) \<and> u_role u = acting_role claimed \<and> TerminalAccess \<in> set (effective_permissions u)
        \<and> shell_allowed c (se_lookup se) db claimed target plan)"
proof (cases "verify_auth c (ad_users db) claimed")
  case (Inl e)
  then show ?thesis using assms by (auto simp: terminal_open_def)
next
  case (Inr auth)
  then have st': "st' = fst (open_session c se lm db now i auth target cols rows st)"
    using assms terminal_open_state [of c se lm db now i target cols rows claimed st att] by simp
  obtain r u where u: "fetch_user FAll (ut_rows (ad_users db)) (actor_user_id claimed) = Some r" "user_of_row c r = Inr u"
    "can_log_in (u_status u)" "u_role u = acting_role claimed" "auth = restrict_to claimed (effective_permissions u)"
    using Inr by (auto simp: verify_auth_ok)
  from open_session_trail [of c se lm db now i auth target cols rows st] show ?thesis
  proof
    assume "\<exists>plan. authorize c (se_lookup se) (se_exists se) db auth target = Inr plan
       \<and> tg_spawned (fst (open_session c se lm db now i auth target cols rows st)) = tg_spawned st @ [plan]
       \<and> opens (fst (open_session c se lm db now i auth target cols rows st)) = opens st + 1"
    then obtain plan where plan: "authorize c (se_lookup se) (se_exists se) db auth target = Inr plan"
      "tg_spawned st' = tg_spawned st @ [plan]" "opens st' = opens st + 1"
      using st' by auto
    have "shell_allowed c (se_lookup se) db auth target plan" by (rule authorize_allowed [OF plan(1)])
    then have "TerminalAccess \<in> set (effective_permissions u)" "shell_allowed c (se_lookup se) db claimed target plan"
      using u(5) by (cases target; simp add: shell_allowed_def)+
    with plan u show ?thesis by blast
  qed (use st' in simp)
qed

definition shell_customer :: user_row where
  "shell_customer = new_row sample_json_codec 7 0 ''h''
     \<lparr>nu_role = Customer, nu_email = Email ''bob@x.io'', nu_username = Username ''bob_1'', nu_password = ''p'',
      nu_reseller_id = None, nu_full_name = None, nu_locale = ''en''\<rparr>"

definition shell_subscription :: subscription_row where
  "shell_subscription = (new_subscription_row sample_json_codec 4 0 7 (LinuxUser ''bob_1''))\<lparr>sbr_plan_id := Some 2\<rparr>"

definition shell_plan :: plan_row where
  "shell_plan = \<lparr>pr_id = 2, pr_owner_user_id = None, pr_name = ''p'', pr_max_sites = 1, pr_max_dbs = 1, pr_storage_mb = 1,
     pr_can_ssh = 1, pr_can_cron = 0, pr_can_node_apps = 0, pr_created_at = to_sql_time sample_json_codec 0,
     pr_updated_at = to_sql_time sample_json_codec 0\<rparr>"

definition shell_db :: accounts_db where
  "shell_db = \<lparr>ad_users = \<lparr>ut_rows = [shell_customer], ut_seq = 7\<rparr>, ad_subs = [shell_subscription], ad_sub_seq = 4,
     ad_plans = [shell_plan], ad_plan_seq = 2\<rparr>"

definition shell_server :: server where
  "shell_server = \<lparr>se_lookup = (\<lambda>u. if u = ''bob_1'' then
       Some \<lparr>ac_uid = 1001, ac_gid = 1001, ac_home = ''/home/bob_1'', ac_shell = ''/bin/bash''\<rparr> else None),
     se_exists = (\<lambda>_. True), se_audit_ok = True, se_spawn = (\<lambda>_ _ _. Inr ()), se_show_db = (\<lambda>_. [])\<rparr>"

definition bobs_shell :: session_plan where
  "bobs_shell = TenantPlan 1001 1001 (LinuxUser ''bob_1'') 4 ''/home/bob_1'' ''/bin/bash''"

lemma json_codec_time: "from_sql_time sample_json_codec (to_sql_time sample_json_codec t) = Inr t"
  using codec_okD(1) [OF sample_codec_ok, of t] by (simp add: sample_json_codec_def sample_codec_def from_sql_time_def to_sql_time_def)

lemma shell_customer_reads: "\<exists>u. user_of_row sample_json_codec shell_customer = Inr u \<and> u_status u = UActive
    \<and> u_role u = Customer \<and> effective_permissions u = default_permissions Customer"
proof -
  have n: "dec_perms sample_json_codec ''null'' = Inr None"
    using sample_codec_null by (simp add: sample_json_codec_def sample_codec_def)
  show ?thesis
    using n role_parse_total [of Customer] em.reparse [OF parse_examples(4)] un.reparse [OF parse_examples(3)] user_status_reads [of UActive]
    by (auto simp: user_of_row_def shell_customer_def new_row_def corrupt_as_def from_sql_time_opt_def
        json_codec_time effective_permissions_def)
qed

lemma bobs_shell_authorized:
  assumes "auth = restrict_to (from_role 7 Customer (ScCustomer 7) ''r'') (default_permissions Customer)"
  shows "authorize sample_json_codec (se_lookup shell_server) (se_exists shell_server) shell_db auth (TargetTenant None) = Inr bobs_shell"
proof -
  have a: "acting_role auth = Customer" "tenant_scope auth = ScCustomer 7" "TerminalAccess \<in> permissions auth"
    by (simp_all add: assms restrict_to_def from_role_def)
  obtain t where t: "subscription_of_row sample_json_codec shell_subscription = Inr t" "sb_id t = 4" "sb_status t = SubActive"
      "sb_linux_user t = ''bob_1''" "sb_home_dir t = ''/home/bob_1''"
    using subscription_status_reads [of SubActive]
    by (simp add: subscription_of_row_def shell_subscription_def new_subscription_row_def from_sql_time_opt_def json_codec_time)
  have "resolve_subscription sample_json_codec shell_db auth None = Inr t"
    using t(1) by (simp add: resolve_subscription_def a list_subscriptions_def subscriptions_page_def shell_db_def subscription_visible_def)
      (simp add: shell_subscription_def new_subscription_row_def)
  moreover have "plan_allows_shell sample_json_codec shell_db 4 = Inr ()"
    by (simp add: plan_allows_shell_def plan_of_subscription_def shell_db_def shell_plan_def shell_subscription_def
        new_subscription_row_def plan_of_row_def json_codec_time)
  ultimately show ?thesis
    using a t parse_examples(2)
    by (simp add: authorize_def require_perm_def has_perm_def tenant_plan_def shell_server_def ok_or_def vet_shell_def
        refused_shells_def allowed_shells_def bobs_shell_def)
qed

theorem shells_go_only_to_the_entitled_witness:
  "let (w, evs) = terminal_control sample_json_codec shell_server default_term_limits shell_db Some 5
       (TerminalOpen 1 (TargetTenant None) 80 24 (from_role 7 Customer (ScCustomer 7) ''r''))
       (no_terminals \<lparr>au_rows = [], au_seq = 0\<rparr>, []) in
   tg_spawned (fst w) = [bobs_shell]
   \<and> shell_allowed sample_json_codec (se_lookup shell_server) shell_db (from_role 7 Customer (ScCustomer 7) ''r'') (TargetTenant None) bobs_shell"
proof -
  let ?claimed = "from_role 7 Customer (ScCustomer 7) ''r''"
  obtain st att evs where *: "terminal_control sample_json_codec shell_server default_term_limits shell_db Some 5
      (TerminalOpen 1 (TargetTenant None) 80 24 ?claimed) (no_terminals \<lparr>au_rows = [], au_seq = 0\<rparr>, []) = ((st, att), evs)"
    by (metis prod.collapse)
  obtain u where u: "user_of_row sample_json_codec shell_customer = Inr u" "u_status u = UActive" "u_role u = Customer"
      "effective_permissions u = default_permissions Customer"
    using shell_customer_reads by blast
  have "fetch_user FAll (ut_rows (ad_users shell_db)) 7 = Some shell_customer"
    by (simp add: shell_db_def shell_customer_def new_row_def fetch_user_def row_visible_def)
  then have "verify_auth sample_json_codec (ad_users shell_db) ?claimed = Inr (restrict_to ?claimed (default_permissions Customer))"
    using u by (simp add: verify_auth_def user_by_id_def ok_or_def from_role_def)
  then have "tg_spawned st = [bobs_shell]"
    using * bobs_shell_authorized [OF refl]
    by (auto simp: terminal_open_def open_session_def open_check_def check_slot_def no_terminals_def owned_by_def
        default_term_limits_def record_audit_def shell_server_def open_insert_def Let_def)
  moreover from this shells_go_only_to_the_entitled [OF *]
  have "shell_allowed sample_json_codec (se_lookup shell_server) shell_db ?claimed (TargetTenant None) bobs_shell"
    by (auto simp: no_terminals_def)
  ultimately show ?thesis unfolding * by simp
qed

text \<open>
  The limits hold. However frames, sweeps, disconnects and shell output follow one another,
  the table never holds more sessions than the server's limit, nor more of one account than the
  account's limit, and no id twice (each open being one step).
\<close>

theorem session_limits_hold:
  "let st = fst (terminal_run c lm evs (no_terminals au, [])) in
     length (tg_sessions st) \<le> lm_max_sessions lm \<and> (\<forall>u. length (owned_by st u) \<le> lm_max_per_user lm)
     \<and> distinct (map fst (tg_sessions st))"
  using terminal_run_inv [of lm "(no_terminals au, [])" c evs] no_terminals_inv
  by (simp add: Let_def table_inv_def)

text \<open>
  No shell starts unaudited. After any history there are at least as many rows of action
  terminal.open as shells were ever started, whatever writes to the trail failed on the way.
\<close>

theorem no_shell_without_an_audit_row:
  "let st = fst (terminal_run c lm evs (no_terminals \<lparr>au_rows = [], au_seq = 0\<rparr>, [])) in
     length (tg_spawned st) \<le> length (filter (\<lambda>r. ar_action r = ''terminal.open'') (au_rows (tg_audit st)))"
proof -
  have "length (tg_spawned (fst w)) \<le> opens (fst w) \<Longrightarrow>
      length (tg_spawned (fst (terminal_run c lm evs w))) \<le> opens (fst (terminal_run c lm evs w))" for w
    by (induction c lm evs w rule: terminal_run.induct) (simp_all add: step_trail)
  then show ?thesis by (simp add: Let_def no_terminals_def opens_def)
qed

text \<open>
  Keystrokes reach only the shell of the account that typed them. An input frame changes at
  most one session: one that this connection attached for that very account, that the account
  owns, and that has not ended; it then receives the decoded bytes, at most 64 KiB of them.
\<close>

theorem keystrokes_reach_only_their_owner:
  assumes "terminal_control c se lm db decode now (TerminalInput i actor data) (st, att) = ((st', att'), evs)"
  shows "att' = att \<and> tg_sessions st' = tg_sessions st \<and> tg_audit st' = tg_audit st \<and> tg_spawned st' = tg_spawned st
    \<and> (tg_heap st' = tg_heap st
       \<or> (\<exists>a bytes. map_of att i = Some a \<and> actor_user_id (at_auth a) = actor
            \<and> si_owner (tm_info (tg_heap st ! at_handle a)) = actor \<and> \<not> tm_closed (tg_heap st ! at_handle a)
            \<and> decode data = Some bytes \<and> length bytes \<le> max_terminal_input
            \<and> tg_heap st' = (tg_heap st)[at_handle a := (tg_heap st ! at_handle a)
                \<lparr>tm_last_input := now, tm_received := tm_received (tg_heap st ! at_handle a) @ [bytes]\<rparr>]))"
proof -
  have delivered: "tg_heap (upd_term h (handle_write now bytes) st) = tg_heap st
      \<or> \<not> tm_closed (tg_heap st ! h) \<and> tg_heap (upd_term h (handle_write now bytes) st)
          = (tg_heap st)[h := (tg_heap st ! h)\<lparr>tm_last_input := now, tm_received := tm_received (tg_heap st ! h) @ [bytes]\<rparr>]"
    for h bytes
    by (cases "tm_closed (tg_heap st ! h)") (simp_all add: upd_term_def handle_write_def)
  have same: "tg_sessions (upd_term h g st) = tg_sessions st" "tg_audit (upd_term h g st) = tg_audit st"
    "tg_spawned (upd_term h g st) = tg_spawned st" for h g
    by (simp_all add: upd_term_def)
  show ?thesis
    using assms delivered same unfolding terminal_control.simps terminal_input_def attached_handle_def
    by (auto split: option.splits if_splits)
qed

definition sample_terminals :: terminals where
  "sample_terminals = \<lparr>tg_heap = [new_terminal default_term_limits 0 9 (from_role 1 Admin ScGlobal ''r'')
       (RootPlan ''/root'' ''/bin/sh'') 80 24],
     tg_sessions = [(9, 0)], tg_audit = \<lparr>au_rows = [], au_seq = 0\<rparr>, tg_spawned = []\<rparr>"

theorem keystrokes_reach_only_their_owner_witness:
  "\<exists>w. terminal_control sample_json_codec sample_server default_term_limits sample_admin Some 5 (TerminalInput 9 2 ''x'')
      (sample_terminals, [(9, \<lparr>at_handle = 0, at_auth = from_role 1 Admin ScGlobal ''r''\<rparr>)]) = w
    \<and> tg_heap (fst (fst w)) = tg_heap sample_terminals"
proof -
  obtain st att evs where *: "terminal_control sample_json_codec sample_server default_term_limits sample_admin Some 5
      (TerminalInput 9 2 ''x'') (sample_terminals, [(9, \<lparr>at_handle = 0, at_auth = from_role 1 Admin ScGlobal ''r''\<rparr>)])
      = ((st, att), evs)"
    by (metis prod.collapse)
  have "tg_heap st = tg_heap sample_terminals"
    using keystrokes_reach_only_their_owner [OF *] by (auto simp: from_role_def)
  then show ?thesis by (intro exI conjI) (rule *, simp)
qed

text \<open>
  The replay after a reconnect is the longest suffix of what the shell wrote that fits in the
  buffer, in whole chunks, whatever the sizes of the chunks.
\<close>

theorem scrollback_is_the_recent_output:
  "let s = fold scrollback_push written (scrollback_new cap) in
     suffix (sk_chunks s) written \<and> chunk_bytes (sk_chunks s) \<le> cap \<and> sk_bytes s = chunk_bytes (sk_chunks s)
     \<and> (\<forall>zs. suffix zs written \<and> length (sk_chunks s) < length zs \<longrightarrow> cap < chunk_bytes zs)"
proof -
  have "scrollback_inv cap [] (scrollback_new cap)"
    by (simp add: scrollback_inv_def scrollback_new_def)
  from scrollback_fold_inv [OF this, of written] show ?thesis
    by (simp add: scrollback_inv_def Let_def)
qed

theorem scrollback_is_the_recent_output_witness:
  "let s = fold scrollback_push [(1, ''ab''), (2, ''cd''), (3, ''e'')] (scrollback_new 4) in
     sk_chunks s = [(2, ''cd''), (3, ''e'')] \<and> 4 < chunk_bytes [(1, ''ab''), (2, ''cd''), (3, ''e'')]"
proof -
  let ?w = "[(1, ''ab''), (2, ''cd''), (3, ''e'')] :: chunk list"
  have s: "sk_chunks (fold scrollback_push ?w (scrollback_new 4)) = [(2, ''cd''), (3, ''e'')]"
    by (simp add: scrollback_push_def scrollback_new_def)
  have "4 < chunk_bytes ?w"
    using scrollback_is_the_recent_output [of ?w 4, unfolded Let_def s] by auto
  with s show ?thesis by (simp add: Let_def)
qed

end
