(* ===== verification/Bytes.thy ===== *)
theory Bytes
  imports Prelude
begin

text \<open>
  Byte strings: big-endian numbers, hexadecimal, and the UTF-8 that \<open>str::from_utf8\<close> accepts,
  shared by the components that read binary data.
\<close>

section \<open>Numbers\<close>

definition be_value :: "str \<Rightarrow> nat" where
  "be_value s = foldl (\<lambda>acc b. 256 * acc + byte b) 0 s"

fun be_bytes :: "nat \<Rightarrow> nat \<Rightarrow> str" where
  "be_bytes 0 n = []"
| "be_bytes (Suc k) n = be_bytes k (n div 256) @ [char_of (n mod 256)]"

lemma byte_char_of_mod: "byte (char_of (n :: nat)) = n mod 256"
  by (simp add: byte_def)

lemma length_be_bytes [simp]: "length (be_bytes k n) = k"
  by (induction k arbitrary: n) auto

lemma be_value_be_bytes: "n < 256 ^ k \<Longrightarrow> be_value (be_bytes k n) = n"
proof (induction k arbitrary: n)
  case (Suc k)
  then have "n div 256 < 256 ^ k" by (simp add: div_less_iff_less_mult mult.commute)
  then have "be_value (be_bytes k (n div 256)) = n div 256" by (rule Suc.IH)
  then show ?case by (simp add: be_value_def byte_def)
qed (simp add: be_value_def)

definition hex_upper_digit :: "nat \<Rightarrow> char" where
  "hex_upper_digit n = ''0123456789ABCDEF'' ! n"

definition hex_upper :: "str \<Rightarrow> str" where
  "hex_upper s = concat (map (\<lambda>b. [hex_upper_digit (byte b div 16), hex_upper_digit (byte b mod 16)]) s)"

lemma length_hex_upper [simp]: "length (hex_upper s) = 2 * length s"
  by (induction s) (simp_all add: hex_upper_def)

lemma foldl_be_bound: "a < 256 ^ m \<Longrightarrow> foldl (\<lambda>acc b. 256 * acc + byte b) a s < 256 ^ (m + length s)"
proof (induction s arbitrary: a m)
  case (Cons c s)
  have "256 * a + byte c < 256 * (a + 1)" using byte_bound [of c] by simp
  also have "\<dots> \<le> 256 * 256 ^ m" using Cons.prems by simp
  finally have "256 * a + byte c < 256 ^ Suc m" by simp
  from Cons.IH [OF this] show ?case by simp
qed simp

lemma be_value_bound: "be_value s < 256 ^ length s"
  using foldl_be_bound [of 0 0 s] by (simp add: be_value_def)

lemma be_value_four: "length s \<le> 4 \<Longrightarrow> be_value s < 2 ^ 32"
proof -
  assume "length s \<le> 4"
  then have "(256 :: nat) ^ length s \<le> 256 ^ 4" by (intro power_increasing) auto
  then show ?thesis using be_value_bound [of s] by simp
qed

section \<open>UTF-8\<close>

text \<open>What \<open>str::from_utf8\<close> accepts.\<close>

definition cont_in :: "nat \<Rightarrow> nat \<Rightarrow> char \<Rightarrow> bool" where
  "cont_in lo hi c \<longleftrightarrow> lo \<le> byte c \<and> byte c \<le> hi"

fun utf8_valid :: "str \<Rightarrow> bool" where
  "utf8_valid [] = True"
| "utf8_valid (a # s) =
     (if byte a < 128 then utf8_valid s
      else case s of
        [] \<Rightarrow> False
      | b # s1 \<Rightarrow>
          if cont_in 194 223 a then cont_in 128 191 b \<and> utf8_valid s1
          else case s1 of
            [] \<Rightarrow> False
          | c # s2 \<Rightarrow>
              if cont_in 224 239 a then
                cont_in (if byte a = 224 then 160 else 128) (if byte a = 237 then 159 else 191) b
                \<and> cont_in 128 191 c \<and> utf8_valid s2
              else case s2 of
                [] \<Rightarrow> False
              | d # s3 \<Rightarrow>
                  cont_in 240 244 a
                  \<and> cont_in (if byte a = 240 then 144 else 128) (if byte a = 244 then 143 else 191) b
                  \<and> cont_in 128 191 c \<and> cont_in 128 191 d \<and> utf8_valid s3)"

end
