(* ===== verification/Pgp.thy ===== *)
theory Pgp
  imports Units Bytes
begin

text \<open>
  OpenPGP key material (\<open>unihelm-distro/src/pgp.rs\<close>): ASCII armour, the packet stream with both
  length encodings, fingerprints, pins, and the issuers a signature names. SHA-1, SHA-256 and the
  base64 decoder are arguments. The lemmas show that the packet walk reads back every encoded
  stream and accounts for every byte of what it accepts, and what a matching pin does and does
  not say about the downloaded file.
\<close>

section \<open>Packets\<close>

record packet =
  pk_tag :: nat
  pk_body :: str

abbreviation truncated :: distro_error where
  "truncated \<equiv> InvalidName ''truncated length''"

text \<open>A length and the bytes it took.\<close>

definition new_format_length :: "str \<Rightarrow> distro_error + nat \<times> nat" where
  "new_format_length rest =
     (case rest of
        [] \<Rightarrow> Inl truncated
      | b # t \<Rightarrow>
          if byte b \<le> 191 then Inr (byte b, 1)
          else if byte b \<le> 223 then
            (case t of [] \<Rightarrow> Inl truncated | b2 # _ \<Rightarrow> Inr ((byte b - 192) * 256 + byte b2 + 192, 2))
          else if byte b \<le> 254 then Inl (InvalidName ''partial packet lengths are not supported'')
          else if length rest < 5 then Inl truncated
          else Inr (be_value (take 4 t), 5))"

definition old_format_length :: "str \<Rightarrow> nat \<Rightarrow> distro_error + nat \<times> nat" where
  "old_format_length rest len_type =
     r_bind (if len_type = 0 then Inr 1 else if len_type = 1 then Inr 2 else if len_type = 2 then Inr 4
             else Inl (InvalidName ''indeterminate packet length is not supported in key material'')) (\<lambda>need.
     if length rest < need then Inl truncated else Inr (be_value (take need rest), need))"

text \<open>
  One turn of the packet loop, on the bytes from the index on. The addition that the code checks
  for overflow cannot overflow here: an index is below four million and a length below \<open>2 ^ 32\<close>.
\<close>

definition next_packet :: "str \<Rightarrow> distro_error + packet \<times> str" where
  "next_packet data =
     (case data of
        [] \<Rightarrow> Inl (InvalidName ''not an OpenPGP packet stream'')
      | h # rest \<Rightarrow>
          if byte h < 128 then Inl (InvalidName ''not an OpenPGP packet stream'')
          else
            r_bind (if byte h div 64 mod 2 = 1 then r_bind (new_format_length rest) (\<lambda>l. Inr (byte h mod 64, l))
                    else r_bind (old_format_length rest (byte h mod 4)) (\<lambda>l. Inr (byte h mod 64 div 4, l)))
              (\<lambda>(tag, len, consumed).
                 let body = drop consumed rest in
                 if length body < len then Inl (InvalidName ''packet extends past the end of the input'')
                 else Inr (\<lparr>pk_tag = tag, pk_body = take len body\<rparr>, drop len body)))"

definition max_input :: nat where "max_input = 4 * 1024 * 1024"
definition max_packets :: nat where "max_packets = 4096"

lemma next_packet_shrinks: "next_packet data = Inr (p, rest) \<Longrightarrow> length rest < length data"
  by (cases data) (auto simp: next_packet_def result_simps Let_def split: if_splits)

function packet_loop :: "str \<Rightarrow> packet list \<Rightarrow> distro_error + packet list" where
  "packet_loop data packets =
     (if data = [] then Inr packets
      else if length packets \<ge> max_packets then Inl (InvalidName ''key material has too many packets'')
      else (case next_packet data of
              Inl e \<Rightarrow> Inl e
            | Inr (p, rest) \<Rightarrow> packet_loop rest (packets @ [p])))"
  by pat_completeness auto
termination
  by (relation "measure (\<lambda>(data, _). length data)") (auto simp: next_packet_shrinks)

declare packet_loop.simps [simp del]

definition parse_packets :: "str \<Rightarrow> distro_error + packet list" where
  "parse_packets data =
     (if length data > max_input then Inl (InvalidName ''key material is implausibly large'')
      else packet_loop data [])"

section \<open>Armour\<close>

definition begin_pgp :: str where "begin_pgp = ''-----BEGIN PGP''"
definition end_pgp :: str where "end_pgp = ''-----END PGP''"

definition windows :: "nat \<Rightarrow> str \<Rightarrow> str list" where
  "windows k s = map (\<lambda>i. take k (drop i s)) [0 ..< Suc (length s) - k]"

definition looks_armored :: "str \<Rightarrow> bool" where
  "looks_armored data \<longleftrightarrow> starts_with begin_pgp data \<or> begin_pgp \<in> set (take 4096 (windows 14 data))"

record armor =
  am_out :: str
  am_in_block :: bool
  am_past_headers :: bool
  am_buffer :: str

definition armor_line :: "(str \<Rightarrow> str + str) \<Rightarrow> str \<Rightarrow> armor \<Rightarrow> distro_error + armor" where
  "armor_line decode raw a =
     (let line = str_trim_end_matches CHR 0x0D raw in
      if starts_with begin_pgp line then Inr (a\<lparr>am_in_block := True, am_past_headers := False, am_buffer := []\<rparr>)
      else if starts_with end_pgp line then
        (if am_in_block a \<and> am_buffer a \<noteq> [] then
           (case decode (am_buffer a) of
              Inl e \<Rightarrow> Inl (InvalidName (''bad base64 in armor: '' @ e))
            | Inr decoded \<Rightarrow> Inr (a\<lparr>am_out := am_out a @ decoded, am_in_block := False, am_buffer := []\<rparr>))
         else Inr (a\<lparr>am_in_block := False, am_buffer := []\<rparr>))
      else if \<not> am_in_block a then Inr a
      else if \<not> am_past_headers a then
        (if str_trim line = [] then Inr (a\<lparr>am_past_headers := True\<rparr>)
         else if \<not> str_contains '':'' line then
           Inr (a\<lparr>am_past_headers := True, am_buffer := am_buffer a @ str_trim line\<rparr>)
         else Inr a)
      else if starts_with ''='' line then Inr a
      else Inr (a\<lparr>am_buffer := am_buffer a @ str_trim line\<rparr>))"

fun armor_lines :: "(str \<Rightarrow> str + str) \<Rightarrow> str list \<Rightarrow> armor \<Rightarrow> distro_error + armor" where
  "armor_lines decode [] a = Inr a"
| "armor_lines decode (l # ls) a = r_bind (armor_line decode l a) (armor_lines decode ls)"

definition armor_start :: armor where
  "armor_start = \<lparr>am_out = [], am_in_block = False, am_past_headers = False, am_buffer = []\<rparr>"

definition dearmor :: "(str \<Rightarrow> str + str) \<Rightarrow> str \<Rightarrow> distro_error + str" where
  "dearmor decode data =
     (if \<not> utf8_valid data then Inr data
      else if \<not> str_contains begin_pgp data then Inr data
      else r_bind (armor_lines decode (str_lines data) armor_start) (\<lambda>a.
             if am_out a = [] then Inl (InvalidName ''armored block contained no data'') else Inr (am_out a)))"

section \<open>Fingerprints\<close>

text \<open>The two digests and the base64 decoder.\<close>

record pgp_env =
  pe_sha1 :: "str \<Rightarrow> str"
  pe_sha256 :: "str \<Rightarrow> str"
  pe_decode :: "str \<Rightarrow> str + str"

record key_fingerprint =
  kf_fingerprint :: str
  kf_version :: nat
  kf_is_primary :: bool

definition fingerprint_of :: "pgp_env \<Rightarrow> str \<Rightarrow> key_fingerprint option" where
  "fingerprint_of pe body =
     (case body of
        [] \<Rightarrow> None
      | b # _ \<Rightarrow>
          if byte b = 4 then
            (if length body < 2 ^ 16 then
               Some \<lparr>kf_fingerprint = hex_upper (pe_sha1 pe (char_of (0x99 :: nat) # be_bytes 2 (length body) @ body)),
                     kf_version = 4, kf_is_primary = True\<rparr>
             else None)
          else if byte b = 6 then
            (if length body < 2 ^ 32 then
               Some \<lparr>kf_fingerprint = hex_upper (pe_sha256 pe (char_of (0x9B :: nat) # be_bytes 4 (length body) @ body)),
                     kf_version = 6, kf_is_primary = True\<rparr>
             else None)
          else None)"

definition key_of_packet :: "pgp_env \<Rightarrow> packet \<Rightarrow> key_fingerprint option" where
  "key_of_packet pe p =
     (if pk_tag p \<in> {6, 5} then map_option (\<lambda>k. k\<lparr>kf_is_primary := True\<rparr>) (fingerprint_of pe (pk_body p))
      else if pk_tag p \<in> {14, 7} then map_option (\<lambda>k. k\<lparr>kf_is_primary := False\<rparr>) (fingerprint_of pe (pk_body p))
      else None)"

definition key_binary :: "pgp_env \<Rightarrow> str \<Rightarrow> distro_error + str" where
  "key_binary pe key_material =
     (if looks_armored key_material then dearmor (pe_decode pe) key_material else Inr key_material)"

definition fingerprints :: "pgp_env \<Rightarrow> str \<Rightarrow> distro_error + key_fingerprint list" where
  "fingerprints pe key_material =
     r_bind (key_binary pe key_material) (\<lambda>binary.
     r_bind (parse_packets binary) (\<lambda>packets.
       let out = List.map_filter (key_of_packet pe) packets in
       if out = [] then Inl (InvalidName ''the downloaded key material contains no OpenPGP public key'') else Inr out))"

definition normalise_fingerprint :: "str \<Rightarrow> str" where
  "normalise_fingerprint s = to_ascii_uppercase (filter is_ascii_hexdigit s)"

definition no_match_error :: "str list \<Rightarrow> key_fingerprint list \<Rightarrow> distro_error" where
  "no_match_error accepted found =
     PackageFailed (''the downloaded signing key does not match any pinned fingerprint.'' @ [CHR 0x0A]
       @ ''  expected one of: '' @ str_join '', '' accepted @ [CHR 0x0A]
       @ ''  key material contains: '' @ str_join '', '' (map kf_fingerprint found) @ [CHR 0x0A]
       @ ''  Refusing to add this repository. If the vendor rotated their key, the new fingerprint must be verified ''
       @ ''out of band and pinned in Unihelm before this repository can be used.'')"

definition verify_pinned :: "pgp_env \<Rightarrow> str \<Rightarrow> str list \<Rightarrow> distro_error + key_fingerprint" where
  "verify_pinned pe key_material pins =
     (let accepted = map normalise_fingerprint pins in
      case find (\<lambda>pin. length pin \<noteq> 40 \<and> length pin \<noteq> 64) accepted of
        Some pin \<Rightarrow> Inl (InvalidName (''`'' @ pin @ ''` is not a full fingerprint (40 or 64 hex characters)''))
      | None \<Rightarrow>
          r_bind (fingerprints pe key_material) (\<lambda>found.
            case find (\<lambda>k. kf_fingerprint k \<in> set accepted) found of
              Some hit \<Rightarrow> Inr hit
            | None \<Rightarrow> Inl (no_match_error accepted found)))"

section \<open>Signatures\<close>

definition subpacket_length :: "str \<Rightarrow> (nat \<times> nat) option" where
  "subpacket_length area =
     (case area of
        [] \<Rightarrow> None
      | l # t \<Rightarrow>
          if byte l < 192 then Some (byte l, 1)
          else if byte l < 255 then
            (case t of [] \<Rightarrow> None | b # _ \<Rightarrow> Some ((byte l - 192) * 256 + byte b + 192, 2))
          else if length area < 5 then None else Some (be_value (take 4 t), 5))"

definition issuer_of_subpacket :: "str \<Rightarrow> str list" where
  "issuer_of_subpacket sub =
     (case sub of
        t # v # body \<Rightarrow>
          if byte t mod 128 = 33 then
            (let expected = (if byte v = 4 then 20 else if byte v = 6 then 32 else 0) in
             if 0 < expected \<and> length body \<ge> expected then [hex_upper (take expected body)] else [])
          else []
      | _ \<Rightarrow> [])"

fun collect_issuers :: "nat \<Rightarrow> str \<Rightarrow> str list" where
  "collect_issuers 0 area = []"
| "collect_issuers (Suc n) area =
     (case subpacket_length area of
        None \<Rightarrow> []
      | Some (len, consumed) \<Rightarrow>
          let rest = drop consumed area in
          if len = 0 \<or> length rest < len then []
          else issuer_of_subpacket (take len rest) @ collect_issuers n (drop len rest))"

definition collect_issuer_fingerprints :: "str \<Rightarrow> str list" where
  "collect_issuer_fingerprints area = collect_issuers 1024 area"

text \<open>The hashed and then the unhashed area, each behind a length of two bytes.\<close>

fun signature_areas :: "nat \<Rightarrow> str \<Rightarrow> str list" where
  "signature_areas 0 b = []"
| "signature_areas (Suc n) b =
     (if length b < 2 then []
      else let len = be_value (take 2 b); rest = drop 2 b in
        if length rest < len then []
        else collect_issuer_fingerprints (take len rest) @ signature_areas n (drop len rest))"

definition issuers_of_packet :: "packet \<Rightarrow> str list" where
  "issuers_of_packet p =
     (let b = pk_body p in
      if pk_tag p \<noteq> 2 then []
      else if length b < 6 \<or> (byte (hd b) \<noteq> 4 \<and> byte (hd b) \<noteq> 6) then []
      else signature_areas 2 (drop 4 b))"

definition signature_issuers :: "pgp_env \<Rightarrow> str \<Rightarrow> distro_error + str list" where
  "signature_issuers pe signature =
     r_bind (dearmor (pe_decode pe) signature) (\<lambda>data.
     r_bind (parse_packets data) (\<lambda>packets.
       let out = concat (map issuers_of_packet packets) in
       if out = [] then
         Inl (InvalidName ''the signature names no issuer fingerprint (only v4 and v6 signatures carry one)'')
       else Inr (remdups_adj (sort out))))"

section \<open>The packet walk\<close>

text \<open>How a packet is written, with the shortest length of the new format.\<close>

definition encode_length :: "nat \<Rightarrow> str" where
  "encode_length n =
     (if n < 192 then [char_of n]
      else if n < 8384 then [char_of ((n - 192) div 256 + 192), char_of ((n - 192) mod 256)]
      else char_of (255 :: nat) # be_bytes 4 n)"

definition encode_packet :: "packet \<Rightarrow> str" where
  "encode_packet p = char_of (192 + pk_tag p) # encode_length (length (pk_body p)) @ pk_body p"

definition packet_ok :: "packet \<Rightarrow> bool" where
  "packet_ok p \<longleftrightarrow> pk_tag p < 64 \<and> length (pk_body p) < 2 ^ 32"

lemma new_format_encode:
  "n < 2 ^ 32 \<Longrightarrow> new_format_length (encode_length n @ rest) = Inr (n, length (encode_length n))"
proof -
  assume n: "n < 2 ^ 32"
  consider "n < 192" | "192 \<le> n" "n < 8384" | "8384 \<le> n" by linarith
  then show ?thesis
  proof cases
    case 2
    define q where "q = (n - 192) div 256"
    have "q < 32" unfolding q_def by (rule less_mult_imp_div_less) (use 2 in linarith)
    moreover have "q * 256 + (n - 192) mod 256 + 192 = n"
      using 2 div_mult_mod_eq [of "n - 192" 256] unfolding q_def by linarith
    ultimately show ?thesis
      using 2 by (simp add: new_format_length_def encode_length_def byte_char_of_mod del: diff_diff_left flip: q_def)
  qed (use n in \<open>simp_all add: new_format_length_def encode_length_def byte_char_of_mod be_value_be_bytes\<close>)
qed

lemma next_packet_encode:
  assumes "packet_ok p"
  shows "next_packet (encode_packet p @ rest) = Inr (p, rest)"
proof -
  have tag: "pk_tag p < 64" using assms by (simp add: packet_ok_def)
  then have "byte (char_of (192 + pk_tag p)) = 192 + pk_tag p" by (simp add: byte_char_of)
  moreover have "(192 + pk_tag p) div 64 = 3" by (rule div_nat_eqI) (use tag in simp_all)
  moreover have "(192 + pk_tag p) mod 64 = pk_tag p"
    using mod_mult_self1 [of "pk_tag p" 3 64] tag by (simp add: add.commute)
  ultimately show ?thesis
    using assms new_format_encode [of "length (pk_body p)" "pk_body p @ rest"]
    by (simp add: next_packet_def encode_packet_def packet_ok_def Let_def)
qed

lemma packet_loop_encode:
  assumes "list_all packet_ok ps" "length acc + length ps \<le> max_packets"
  shows "packet_loop (concat (map encode_packet ps)) acc = Inr (acc @ ps)"
  using assms
proof (induction ps arbitrary: acc)
  case Nil
  then show ?case by (simp add: packet_loop.simps)
next
  case (Cons p ps)
  then show ?case
    by (simp add: packet_loop.simps [of "encode_packet p @ _"] next_packet_encode) (simp add: encode_packet_def)
qed

lemma new_format_length_bound:
  "new_format_length r = Inr (len, n) \<Longrightarrow> 1 \<le> n \<and> n \<le> 5 \<and> n \<le> length r \<and> len < 2 ^ 32"
proof (cases r)
  case (Cons a t)
  assume "new_format_length r = Inr (len, n)"
  then show ?thesis
    using be_value_four [of "take 4 t"] byte_bound [of a] byte_bound [of "hd t"] Cons
    by (cases t) (auto simp: new_format_length_def split: if_splits)
qed (simp add: new_format_length_def)

lemma old_format_length_bound:
  "old_format_length r t = Inr (len, n) \<Longrightarrow> 1 \<le> n \<and> n \<le> 5 \<and> n \<le> length r \<and> len < 2 ^ 32"
  using be_value_four [of "take n r"]
  by (auto simp: old_format_length_def result_simps Suc_le_eq split: if_splits)

text \<open>A header in front of a body: what one turn takes off the stream.\<close>

lemma next_packet_split:
  assumes "next_packet data = Inr (p, rest)"
  shows "\<exists>h. data = h @ pk_body p @ rest \<and> 2 \<le> length h \<and> length h \<le> 6 \<and> packet_ok p"
proof -
  obtain h r where data: "data = h # r" "128 \<le> byte h"
    using assms by (cases data) (auto simp: next_packet_def split: if_splits)
  obtain tag len n where l: "(if byte h div 64 mod 2 = 1 then r_bind (new_format_length r) (\<lambda>l. Inr (byte h mod 64, l))
        else r_bind (old_format_length r (byte h mod 4)) (\<lambda>l. Inr (byte h mod 64 div 4, l))) = Inr (tag, len, n)"
    and fits: "len \<le> length (drop n r)" "p = \<lparr>pk_tag = tag, pk_body = take len (drop n r)\<rparr>" "rest = drop len (drop n r)"
    using assms data by (auto simp: next_packet_def result_simps Let_def split: if_splits)
  have n: "1 \<le> n \<and> n \<le> 5 \<and> n \<le> length r \<and> len < 2 ^ 32 \<and> tag < 64"
    using l by (auto simp: result_simps split: if_splits dest!: new_format_length_bound old_format_length_bound)
  have "data = (h # take n r) @ pk_body p @ rest"
    using data(1) append_take_drop_id [of n r] append_take_drop_id [of len "drop n r"] by (simp add: fits(2,3) del: drop_drop)
  then show ?thesis
    using n fits by (intro exI [of _ "h # take n r"]) (simp add: packet_ok_def)
qed

lemma packet_loop_split:
  assumes "packet_loop data acc = Inr ps"
  shows "\<exists>hs qs. ps = acc @ qs \<and> length hs = length qs \<and> data = concat (map2 (\<lambda>h p. h @ pk_body p) hs qs)
    \<and> list_all (\<lambda>h. 2 \<le> length h \<and> length h \<le> 6) hs \<and> list_all packet_ok qs"
  using assms
proof (induction data acc rule: packet_loop.induct)
  case (1 data acc)
  show ?case
  proof (cases "data = []")
    case True
    then show ?thesis using "1.prems" by (simp add: packet_loop.simps)
  next
    case False
    with "1.prems" obtain p rest where turn: "\<not> length acc \<ge> max_packets" "next_packet data = Inr (p, rest)"
      "packet_loop rest (acc @ [p]) = Inr ps"
      by (simp add: packet_loop.simps [of data]) (auto split: if_splits sum.splits)
    from "1.IH" [OF False turn(1) turn(2) refl turn(3)] obtain hs qs where
      IH: "ps = (acc @ [p]) @ qs" "length hs = length qs" "rest = concat (map2 (\<lambda>h p. h @ pk_body p) hs qs)"
        "list_all (\<lambda>h. 2 \<le> length h \<and> length h \<le> 6) hs" "list_all packet_ok qs" by blast
    obtain h where "data = h @ pk_body p @ rest" "2 \<le> length h" "length h \<le> 6" "packet_ok p"
      using next_packet_split [OF turn(2)] by blast
    with IH show ?thesis by (intro exI [of _ "h # hs"] exI [of _ "p # qs"]) simp
  qed
qed

lemma packet_loop_count: "packet_loop data acc = Inr ps \<Longrightarrow> length acc \<le> max_packets \<Longrightarrow> length ps \<le> max_packets"
proof (induction data acc rule: packet_loop.induct)
  case (1 data acc)
  then show ?case
    by (simp add: packet_loop.simps [of data]) (auto split: if_splits sum.splits)
qed

section \<open>Keys and issuers\<close>

lemma key_of_packet_Some:
  "key_of_packet pe p = Some k \<Longrightarrow> pk_tag p \<in> {5, 6, 7, 14}
     \<and> (kf_is_primary k \<longleftrightarrow> pk_tag p \<in> {5, 6})
     \<and> (kf_version k = 4 \<and> kf_fingerprint k = hex_upper (pe_sha1 pe (char_of (0x99 :: nat) # be_bytes 2 (length (pk_body p)) @ pk_body p))
        \<or> kf_version k = 6 \<and> kf_fingerprint k = hex_upper (pe_sha256 pe (char_of (0x9B :: nat) # be_bytes 4 (length (pk_body p)) @ pk_body p)))"
  by (auto simp: key_of_packet_def fingerprint_of_def split: if_splits list.splits)

lemma set_map_filter: "x \<in> set (List.map_filter g xs) \<longleftrightarrow> (\<exists>y \<in> set xs. g y = Some x)"
  by (induction xs) (auto simp: List.map_filter_simps split: option.splits)

lemma fingerprints_Inr:
  "fingerprints pe m = Inr ks \<longleftrightarrow> (\<exists>bin ps. key_binary pe m = Inr bin \<and> parse_packets bin = Inr ps
     \<and> ks = List.map_filter (key_of_packet pe) ps \<and> ks \<noteq> [])"
  by (auto simp: fingerprints_def result_simps Let_def)

lemma find_none_iff: "find P xs = None \<longleftrightarrow> (\<forall>x \<in> set xs. \<not> P x)"
  by (induction xs) auto

lemma find_Some_in: "find P xs = Some x \<Longrightarrow> x \<in> set xs \<and> P x"
  by (induction xs) (auto split: if_splits)

lemma verify_pinned_Inr:
  "verify_pinned pe m pins = Inr k \<longleftrightarrow>
     (\<forall>pin \<in> set pins. length (normalise_fingerprint pin) = 40 \<or> length (normalise_fingerprint pin) = 64)
     \<and> (\<exists>ks. fingerprints pe m = Inr ks \<and> find (\<lambda>k. kf_fingerprint k \<in> normalise_fingerprint ` set pins) ks = Some k)"
proof (cases "find (\<lambda>pin. length pin \<noteq> 40 \<and> length pin \<noteq> 64) (map normalise_fingerprint pins)")
  case None
  then have full: "\<forall>pin \<in> set pins. length (normalise_fingerprint pin) = 40 \<or> length (normalise_fingerprint pin) = 64"
    by (auto simp: find_none_iff)
  have "verify_pinned pe m pins = r_bind (fingerprints pe m) (\<lambda>found.
      case find (\<lambda>k. kf_fingerprint k \<in> normalise_fingerprint ` set pins) found of
        Some hit \<Rightarrow> Inr hit | None \<Rightarrow> Inl (no_match_error (map normalise_fingerprint pins) found))"
    by (simp add: verify_pinned_def Let_def None)
  then show ?thesis
    using full by (cases "fingerprints pe m") (simp_all split: option.splits)
next
  case (Some x)
  then show ?thesis using find_Some_in [OF Some] by (auto simp: verify_pinned_def)
qed

lemma verify_pinned_ok:
  "is_ok (verify_pinned pe m pins) \<longleftrightarrow>
     (\<forall>pin \<in> set pins. length (normalise_fingerprint pin) = 40 \<or> length (normalise_fingerprint pin) = 64)
     \<and> (\<exists>ks. fingerprints pe m = Inr ks \<and> (\<exists>k \<in> set ks. kf_fingerprint k \<in> normalise_fingerprint ` set pins))"
proof -
  have "(\<exists>k. find P ks = Some k) \<longleftrightarrow> (\<exists>k \<in> set ks. P k)" for P and ks :: "key_fingerprint list"
    using find_none_iff [of P ks] by auto
  moreover have "(\<exists>v. A \<and> (\<exists>x. F x \<and> G x v)) \<longleftrightarrow> A \<and> (\<exists>x. F x \<and> (\<exists>v. G x v))" 
    for A and F :: "key_fingerprint list \<Rightarrow> bool" and G :: "key_fingerprint list \<Rightarrow> key_fingerprint \<Rightarrow> bool"
    by blast
  ultimately show ?thesis by (simp only: is_ok_iff verify_pinned_Inr)
qed

lemma pinned_packets:
  "(\<exists>ks. fingerprints pe m = Inr ks \<and> (\<exists>k \<in> set ks. kf_fingerprint k \<in> S))
   \<longleftrightarrow> (\<exists>bin ps. key_binary pe m = Inr bin \<and> parse_packets bin = Inr ps
         \<and> list_ex (\<lambda>p. map_option kf_fingerprint (key_of_packet pe p) \<in> Some ` S) ps)"
proof -
  have "(\<exists>k \<in> set (List.map_filter (key_of_packet pe) ps). kf_fingerprint k \<in> S)
      \<longleftrightarrow> list_ex (\<lambda>p. map_option kf_fingerprint (key_of_packet pe p) \<in> Some ` S) ps" for ps
    by (induction ps) (auto simp: List.map_filter_simps split: option.splits)
  moreover have "(\<exists>ks. (\<exists>bin ps. A bin \<and> B bin ps \<and> ks = g ps \<and> ks \<noteq> []) \<and> (\<exists>k \<in> set ks. Q k))
      \<longleftrightarrow> (\<exists>bin ps. A bin \<and> B bin ps \<and> (\<exists>k \<in> set (g ps). Q k))" 
    for A :: "str \<Rightarrow> bool" and B Q and g :: "packet list \<Rightarrow> key_fingerprint list"
    by (rule iffI; auto; metis empty_iff empty_set)
  ultimately show ?thesis by (simp only: fingerprints_Inr)
qed

lemma issuer_of_subpacket_length: "f \<in> set (issuer_of_subpacket sub) \<Longrightarrow> length f = 40 \<or> length f = 64"
  by (auto simp: issuer_of_subpacket_def Let_def split: list.splits if_splits)

lemma collect_issuers_length: "f \<in> set (collect_issuers n area) \<Longrightarrow> length f = 40 \<or> length f = 64"
proof (induction n arbitrary: area)
  case (Suc n)
  obtain len consumed where "subpacket_length area = Some (len, consumed)"
    using Suc.prems by (cases "subpacket_length area") auto
  with Suc.prems have "f \<in> set (issuer_of_subpacket (take len (drop consumed area)))
      \<or> f \<in> set (collect_issuers n (drop len (drop consumed area)))"
    by (auto simp: Let_def simp del: drop_drop split: if_splits)
  then show ?case using Suc.IH issuer_of_subpacket_length by blast
qed simp

lemma signature_areas_length: "f \<in> set (signature_areas n b) \<Longrightarrow> length f = 40 \<or> length f = 64"
  by (induction n b rule: signature_areas.induct)
    (auto simp: Let_def collect_issuer_fingerprints_def dest: collect_issuers_length split: if_splits)

lemma distinct_remdups_adj: "sorted xs \<Longrightarrow> distinct (remdups_adj xs)"
  by (induction xs rule: remdups_adj.induct) auto

lemma issuers_of_packet_length: "f \<in> set (issuers_of_packet p) \<Longrightarrow> pk_tag p = 2 \<and> (length f = 40 \<or> length f = 64)"
  by (auto simp: issuers_of_packet_def Let_def dest: signature_areas_length split: if_splits)

section \<open>Properties\<close>

text \<open>
  The packet walk is exact. Every stream of at most 4096 packets within the size limit reads
  back as it was written; and whatever stream is accepted is nothing but its packets, each behind
  a header of two to six bytes, so no byte of it is skipped and none is read twice.
\<close>

theorem packet_walk_is_exact:
  "(list_all packet_ok ps \<and> length ps \<le> max_packets \<and> length (concat (map encode_packet ps)) \<le> max_input
      \<longrightarrow> parse_packets (concat (map encode_packet ps)) = Inr ps)
   \<and> (parse_packets data = Inr qs \<longrightarrow> length data \<le> max_input \<and> length qs \<le> max_packets \<and> list_all packet_ok qs
      \<and> (\<exists>hs. length hs = length qs \<and> list_all (\<lambda>h. 2 \<le> length h \<and> length h \<le> 6) hs
            \<and> data = concat (map2 (\<lambda>h p. h @ pk_body p) hs qs)))"
proof (intro conjI impI)
  assume "list_all packet_ok ps \<and> length ps \<le> max_packets \<and> length (concat (map encode_packet ps)) \<le> max_input"
  then show "parse_packets (concat (map encode_packet ps)) = Inr ps"
    using packet_loop_encode [of ps "[]"] by (simp add: parse_packets_def)
next
  assume "parse_packets data = Inr qs"
  then have ok: "length data \<le> max_input" "packet_loop data [] = Inr qs"
    by (auto simp: parse_packets_def split: if_splits)
  from packet_loop_split [OF ok(2)] packet_loop_count [OF ok(2)] ok(1)
  show "length data \<le> max_input" "length qs \<le> max_packets" "list_all packet_ok qs"
    "\<exists>hs. length hs = length qs \<and> list_all (\<lambda>h. 2 \<le> length h \<and> length h \<le> 6) hs
       \<and> data = concat (map2 (\<lambda>h p. h @ pk_body p) hs qs)"
    by auto
qed

definition toy_key :: packet where
  "toy_key = \<lparr>pk_tag = 6, pk_body = [CHR 0x04, CHR ''k'']\<rparr>"

theorem packet_walk_is_exact_witness:
  "parse_packets (encode_packet toy_key @ encode_packet toy_key) = Inr [toy_key, toy_key]"
  using packet_walk_is_exact [of "[toy_key, toy_key]", THEN conjunct1]
  by (simp add: toy_key_def packet_ok_def max_packets_def max_input_def encode_packet_def encode_length_def)

text \<open>
  C33: What a pin proves. A key file passes exactly when every pin is a full fingerprint and some
  public key packet of the file hashes, over its whole body with its length, to one of the pins.
\<close>

theorem pinned_key_is_in_the_file:
  "(verify_pinned pe m pins = Inr k \<longrightarrow>
      (\<exists>pin \<in> set pins. kf_fingerprint k = normalise_fingerprint pin \<and> length (normalise_fingerprint pin) \<in> {40, 64})
      \<and> (\<exists>bin ps p. key_binary pe m = Inr bin \<and> parse_packets bin = Inr ps \<and> p \<in> set ps \<and> pk_tag p \<in> {5, 6, 7, 14}
           \<and> kf_fingerprint k \<in> {hex_upper (pe_sha1 pe (char_of (0x99 :: nat) # be_bytes 2 (length (pk_body p)) @ pk_body p)),
                hex_upper (pe_sha256 pe (char_of (0x9B :: nat) # be_bytes 4 (length (pk_body p)) @ pk_body p))}))
   \<and> (is_ok (verify_pinned pe m pins) \<longleftrightarrow>
        list_all (\<lambda>pin. length (normalise_fingerprint pin) \<in> {40, 64}) pins
        \<and> (\<exists>bin ps. key_binary pe m = Inr bin \<and> parse_packets bin = Inr ps
             \<and> list_ex (\<lambda>p. map_option kf_fingerprint (key_of_packet pe p) \<in> Some ` normalise_fingerprint ` set pins) ps))"
proof (intro conjI impI)
  assume "verify_pinned pe m pins = Inr k"
  then obtain ks where ks: "\<forall>pin \<in> set pins. length (normalise_fingerprint pin) = 40 \<or> length (normalise_fingerprint pin) = 64"
      "fingerprints pe m = Inr ks" "k \<in> set ks" "kf_fingerprint k \<in> normalise_fingerprint ` set pins"
    unfolding verify_pinned_Inr by (auto dest: find_Some_in)
  then show "\<exists>pin \<in> set pins. kf_fingerprint k = normalise_fingerprint pin \<and> length (normalise_fingerprint pin) \<in> {40, 64}"
    by auto
  from ks(2,3) obtain bin ps p where "key_binary pe m = Inr bin" "parse_packets bin = Inr ps" "p \<in> set ps"
      "key_of_packet pe p = Some k"
    unfolding fingerprints_Inr by (auto simp: set_map_filter)
  with key_of_packet_Some [of pe p k] show "\<exists>bin ps p. key_binary pe m = Inr bin \<and> parse_packets bin = Inr ps \<and> p \<in> set ps
      \<and> pk_tag p \<in> {5, 6, 7, 14}
      \<and> kf_fingerprint k \<in> {hex_upper (pe_sha1 pe (char_of (0x99 :: nat) # be_bytes 2 (length (pk_body p)) @ pk_body p)),
           hex_upper (pe_sha256 pe (char_of (0x9B :: nat) # be_bytes 4 (length (pk_body p)) @ pk_body p))}"
    by blast
next
  show "is_ok (verify_pinned pe m pins) \<longleftrightarrow>
      list_all (\<lambda>pin. length (normalise_fingerprint pin) \<in> {40, 64}) pins
      \<and> (\<exists>bin ps. key_binary pe m = Inr bin \<and> parse_packets bin = Inr ps
           \<and> list_ex (\<lambda>p. map_option kf_fingerprint (key_of_packet pe p) \<in> Some ` normalise_fingerprint ` set pins) ps)"
    unfolding verify_pinned_ok pinned_packets by (simp add: list_all_iff)
qed

definition toy_env :: pgp_env where
  "toy_env = \<lparr>pe_sha1 = (\<lambda>_. replicate 20 CHR ''k''), pe_sha256 = (\<lambda>_. replicate 32 CHR ''k''), pe_decode = Inr\<rparr>"

theorem pinned_key_is_in_the_file_witness:
  "\<not> is_ok (verify_pinned toy_env [] [''ABCD''])"
proof -
  have "length (normalise_fingerprint ''ABCD'') = 4"
    by (simp add: normalise_fingerprint_def to_ascii_uppercase_def is_ascii_hexdigit_def byte_def)
  then show ?thesis
    using pinned_key_is_in_the_file [of toy_env "[]" "[''ABCD'']", THEN conjunct2] by simp
qed

text \<open>
  A pin vouches for one packet, not for the file. A binary key file that passes still passes
  with any further packets behind its own, foreign public keys included, and the whole file is
  what becomes the keyring.
\<close>

theorem pin_does_not_cover_the_bundle:
  assumes "verify_pinned pe (concat (map encode_packet ps)) pins = Inr k"
    and "list_all packet_ok (ps @ extra)" "length (ps @ extra) \<le> max_packets"
    and "length (concat (map encode_packet (ps @ extra))) \<le> max_input"
    and "\<not> looks_armored (concat (map encode_packet ps))" "\<not> looks_armored (concat (map encode_packet (ps @ extra)))"
  shows "verify_pinned pe (concat (map encode_packet (ps @ extra))) pins = Inr k"
proof -
  have parse: "parse_packets (concat (map encode_packet qs)) = Inr qs"
    if "list_all packet_ok qs" "length qs \<le> max_packets" "length (concat (map encode_packet qs)) \<le> max_input" for qs
    using that packet_loop_encode [of qs "[]"] by (simp add: parse_packets_def)
  have bin: "key_binary pe (concat (map encode_packet ps)) = Inr (concat (map encode_packet ps))"
    "key_binary pe (concat (map encode_packet (ps @ extra))) = Inr (concat (map encode_packet (ps @ extra)))"
    using assms(5,6) by (simp_all add: key_binary_def)
  have "parse_packets (concat (map encode_packet ps)) = Inr ps"
    "parse_packets (concat (map encode_packet (ps @ extra))) = Inr (ps @ extra)"
    by (rule parse; use assms(2-4) in simp)+
  moreover have "find P (xs @ ys) = Some y" if "find P xs = Some y" for P ys y and xs :: "key_fingerprint list"
    using that by (induction xs) (auto split: if_splits)
  ultimately show ?thesis
    using assms(1) bin unfolding verify_pinned_Inr fingerprints_Inr
    by (auto simp: List.map_filter_def)
qed

text \<open>
  Issuers are full fingerprints: the answer is a non-empty, sorted list without repetition of
  40 or 64 hexadecimal digits each, every one named by a signature packet of the file.
\<close>

theorem issuers_are_full_fingerprints:
  assumes "signature_issuers pe signature = Inr out"
  shows "out \<noteq> [] \<and> sorted out \<and> distinct out \<and> list_all (\<lambda>f. length f \<in> {40, 64}) out
    \<and> (\<exists>data ps. dearmor (pe_decode pe) signature = Inr data \<and> parse_packets data = Inr ps
         \<and> set out = (\<Union>p \<in> set ps. set (issuers_of_packet p)))"
proof -
  obtain data ps where ps: "dearmor (pe_decode pe) signature = Inr data" "parse_packets data = Inr ps"
      "concat (map issuers_of_packet ps) \<noteq> []" "out = remdups_adj (sort (concat (map issuers_of_packet ps)))"
    using assms by (auto simp: signature_issuers_def result_simps Let_def split: if_splits)
  moreover have "sorted (remdups_adj xs)" "distinct (remdups_adj xs)" if "sorted xs" for xs :: "str list"
    using that by (simp_all add: distinct_remdups_adj)
  moreover have "f \<in> set (concat (map issuers_of_packet ps)) \<Longrightarrow> length f = 40 \<or> length f = 64" for f
    using issuers_of_packet_length by fastforce
  moreover have "sort xs \<noteq> []" if "xs \<noteq> []" for xs :: "str list"
    using that by (metis set_empty set_sort)
  ultimately show ?thesis by (auto simp: list_all_iff)
qed

definition toy_pin :: str where
  "toy_pin = hex_upper (replicate 20 CHR ''k'')"

lemma toy_pin_full: "normalise_fingerprint toy_pin = toy_pin" "length toy_pin = 40"
  by (code_simp, simp add: toy_pin_def)

definition rogue_key :: packet where
  "rogue_key = \<lparr>pk_tag = 6, pk_body = [CHR 0x06, CHR ''x'']\<rparr>"

lemma toy_key_pinned:
  "verify_pinned toy_env (concat (map encode_packet [toy_key])) [toy_pin]
     = Inr \<lparr>kf_fingerprint = toy_pin, kf_version = 4, kf_is_primary = True\<rparr>"
proof -
  have "parse_packets (concat (map encode_packet [toy_key])) = Inr [toy_key]"
    using packet_loop_encode [of "[toy_key]" "[]"]
    by (simp add: parse_packets_def toy_key_def packet_ok_def max_packets_def max_input_def encode_packet_def encode_length_def)
  moreover have "\<not> looks_armored (concat (map encode_packet [toy_key]))" by code_simp
  moreover have "key_of_packet toy_env toy_key = Some \<lparr>kf_fingerprint = toy_pin, kf_version = 4, kf_is_primary = True\<rparr>"
    by (simp add: key_of_packet_def toy_key_def fingerprint_of_def toy_env_def toy_pin_def byte_def)
  ultimately show ?thesis
    unfolding verify_pinned_Inr fingerprints_Inr by (simp add: key_binary_def List.map_filter_simps toy_pin_full)
qed

theorem pin_does_not_cover_the_bundle_witness:
  "is_ok (verify_pinned toy_env (concat (map encode_packet ([toy_key] @ [rogue_key]))) [toy_pin])"
proof -
  have "\<not> looks_armored (concat (map encode_packet [toy_key]))"
    "\<not> looks_armored (concat (map encode_packet ([toy_key] @ [rogue_key])))" by code_simp+
  from pin_does_not_cover_the_bundle [OF toy_key_pinned _ _ _ this] show ?thesis
    by (simp add: toy_key_def rogue_key_def packet_ok_def max_packets_def max_input_def encode_packet_def encode_length_def)
qed

definition toy_signature :: packet where
  "toy_signature = \<lparr>pk_tag = 2, pk_body =
     [CHR 0x04, CHR 0x00, CHR 0x01, CHR 0x08, CHR 0x00, CHR 0x17, CHR 0x16, CHR ''!'', CHR 0x04]
       @ replicate 20 CHR ''k'' @ [CHR 0x00, CHR 0x00]\<rparr>"

lemma toy_signature_reads: "signature_issuers toy_env (encode_packet toy_signature) = Inr [toy_pin]"
proof -
  have "parse_packets (concat (map encode_packet [toy_signature])) = Inr [toy_signature]"
    using packet_loop_encode [of "[toy_signature]" "[]"]
    by (simp add: parse_packets_def toy_signature_def packet_ok_def max_packets_def max_input_def encode_packet_def encode_length_def)
  moreover have "\<not> str_contains begin_pgp (encode_packet toy_signature)" by code_simp
  moreover have "issuers_of_packet toy_signature = [toy_pin]" by code_simp
  ultimately show ?thesis by (simp add: signature_issuers_def dearmor_def)
qed

theorem issuers_are_full_fingerprints_witness: "distinct [toy_pin] \<and> list_all (\<lambda>f. length f \<in> {40, 64}) [toy_pin]"
  using issuers_are_full_fingerprints [OF toy_signature_reads] by blast

end
