(* ===== verification/Tenant_Files.thy ===== *)
theory Tenant_Files
  imports Errors Bytes "HOL-Library.AList"
begin

unbundle bit_operations_syntax

text \<open>
  The file manager's helper (\<open>unihelm-ops/src/fsops/safepath.rs\<close>, \<open>fsops/helper.rs\<close>): paths are
  resolved below a tenant's home without following a symbolic link, and each request acts on the
  tree. The tree is a value, the kernel's own resolution of a path (which follows links) is
  \<open>namei\<close>, and permissions and I/O errors are an argument. The lemmas show that a resolved path is
  what the kernel acts on, which requests can change nothing outside the home, and which one can.
\<close>

section \<open>The tree and the kernel\<close>

type_synonym path = "str list"

datatype fnode = NFile str u32 | NDir "(str \<times> fnode) list" u32 | NLink str

fun is_dir :: "fnode \<Rightarrow> bool" where
  "is_dir (NDir _ _) = True" | "is_dir _ = False"

fun is_link :: "fnode \<Rightarrow> bool" where
  "is_link (NLink _) = True" | "is_link _ = False"

fun lookup :: "fnode \<Rightarrow> path \<Rightarrow> fnode option" where
  "lookup n [] = Some n"
| "lookup (NDir es _) (c # cs) = (case map_of es c of None \<Rightarrow> None | Some n \<Rightarrow> lookup n cs)"
| "lookup _ (_ # _) = None"

text \<open>The tree with another node, or none, in the place of a path whose parent is a directory.\<close>

fun put :: "fnode \<Rightarrow> path \<Rightarrow> fnode option \<Rightarrow> fnode" where
  "put n [] x = (case x of Some m \<Rightarrow> m | None \<Rightarrow> n)"
| "put (NDir es m) [c] x =
     NDir (case x of Some n \<Rightarrow> AList.update c n es | None \<Rightarrow> filter (\<lambda>(d, _). d \<noteq> c) es) m"
| "put (NDir es m) (c # cs) x =
     (case map_of es c of None \<Rightarrow> NDir es m | Some n \<Rightarrow> NDir (AList.update c (put n cs x) es) m)"
| "put n (_ # _) x = n"

text \<open>What stands at a path, without what is below it.\<close>

datatype label = LFile str u32 | LDir u32 | LLink str

fun label_of :: "fnode \<Rightarrow> label" where
  "label_of (NFile c m) = LFile c m" | "label_of (NDir _ m) = LDir m" | "label_of (NLink t) = LLink t"

definition label_at :: "fnode \<Rightarrow> path \<Rightarrow> label option" where
  "label_at fs p = map_option label_of (lookup fs p)"

datatype fs_error_kind =
    FeNotFound | FePermissionDenied | FeAlreadyExists | FeNotADirectory | FeIsADirectory | FeEscape
  | FeTooLarge | FeUnsafeArchive | FeInvalid | FeIo

record safe_error =
  sf_kind :: fs_error_kind
  sf_message :: str

type_synonym 'a safe = "safe_error + 'a"

text \<open>The components of a path; an absolute one starts at the root.\<close>

definition is_absolute :: "str \<Rightarrow> bool" where
  "is_absolute p \<longleftrightarrow> starts_with ''/'' p"

definition components :: "str \<Rightarrow> path" where
  "components p = filter (\<lambda>c. c \<noteq> [] \<and> c \<noteq> ''.'') (str_split CHR ''/'' p)"

definition display_path :: "path \<Rightarrow> str" where
  "display_path p = concat (map (\<lambda>c. ''/'' @ c) p)"

text \<open>
  Resolution as the kernel does it: a link is followed, at most forty of them; with \<open>create\<close> the
  last component may be missing. The second path is what is left to walk.
\<close>

function namei :: "bool \<Rightarrow> fnode \<Rightarrow> nat \<Rightarrow> path \<Rightarrow> path \<Rightarrow> fs_error_kind + path" where
  "namei create fs k done [] = Inr done"
| "namei create fs k done (c # cs) =
     (if c = ''..'' then namei create fs k (butlast done) cs
      else (case lookup fs (done @ [c]) of
              Some (NLink t) \<Rightarrow>
                (case k of
                   0 \<Rightarrow> Inl FeIo
                 | Suc k' \<Rightarrow> namei create fs k' (if is_absolute t then [] else done) (components t @ cs))
            | Some _ \<Rightarrow> namei create fs k (done @ [c]) cs
            | None \<Rightarrow>
                (case lookup fs done of
                   Some (NDir _ _) \<Rightarrow> if create \<and> cs = [] then Inr (done @ [c]) else Inl FeNotFound
                 | _ \<Rightarrow> Inl FeNotADirectory)))"
  by pat_completeness auto
termination
  by (relation "measures [\<lambda>(_, _, k, _, _). k, \<lambda>(_, _, _, _, cs). length cs]") auto

definition max_links :: nat where "max_links = 40"

text \<open>
  What the kernel refuses, for any reason: \<open>fe_deny\<close> is the answer of \<open>lstat\<close>, which looks at a name, and
  \<open>fe_forbid\<close> that of the call which then acts on it. A name that cannot be looked at cannot be acted on:
  every call has to search the directories that \<open>lstat\<close> was not let through. After how many bytes writing a
  file fails is \<open>fe_room\<close>. Further the text of an error, the modes new files and directories get, and the
  blocks a file takes on the disk.
\<close>

datatype fs_call = CallOpen | CallMake | CallRename | CallUnlink | CallChmod | CallReadDir

record fs_env =
  fe_deny :: "fnode \<Rightarrow> path \<Rightarrow> fs_error_kind option"
  fe_forbid :: "fs_call \<Rightarrow> fnode \<Rightarrow> path \<Rightarrow> fs_error_kind option"
  fe_room :: "fnode \<Rightarrow> path \<Rightarrow> nat option"
  fe_text :: "fs_error_kind \<Rightarrow> str"
  fe_file_mode :: u32
  fe_dir_mode :: u32
  fe_blocks :: "fnode \<Rightarrow> nat"

definition refuses :: "fs_env \<Rightarrow> fs_call \<Rightarrow> fnode \<Rightarrow> path \<Rightarrow> fs_error_kind option" where
  "refuses env call fs p = (case fe_deny env fs p of Some k \<Rightarrow> Some k | None \<Rightarrow> fe_forbid env call fs p)"

definition safe_io :: "fs_env \<Rightarrow> path \<Rightarrow> fs_error_kind \<Rightarrow> safe_error" where
  "safe_io env p k = \<lparr>sf_kind = k, sf_message = display_path p @ '': '' @ fe_text env k\<rparr>"

definition escape_error :: "str \<Rightarrow> safe_error" where
  "escape_error p = \<lparr>sf_kind = FeEscape, sf_message = ''`'' @ p @ ''` resolves outside the account's home''\<rparr>"

definition invalid_name :: "str \<Rightarrow> safe_error" where
  "invalid_name msg = \<lparr>sf_kind = FeInvalid, sf_message = msg\<rparr>"

text \<open>\<open>lstat\<close>.\<close>

definition symlink_metadata :: "fs_env \<Rightarrow> path \<Rightarrow> fnode \<Rightarrow> fs_error_kind + fnode" where
  "symlink_metadata env p fs =
     (case fe_deny env fs p of
        Some k \<Rightarrow> Inl k
      | None \<Rightarrow>
          (case lookup fs p of
             Some n \<Rightarrow> Inr n
           | None \<Rightarrow> Inl (case lookup fs (butlast p) of Some (NFile _ _) \<Rightarrow> FeNotADirectory | _ \<Rightarrow> FeNotFound)))"

definition path_exists :: "fs_env \<Rightarrow> path \<Rightarrow> fnode \<Rightarrow> bool" where
  "path_exists env p fs =
     (fe_deny env fs p = None
      \<and> (case namei False fs max_links [] p of Inl _ \<Rightarrow> False | Inr q \<Rightarrow> fe_deny env fs q = None))"

section \<open>Safe paths\<close>

record safe_path =
  sp_absolute :: path
  sp_relative :: path

definition reject_bad_component :: "str \<Rightarrow> unit safe" where
  "reject_bad_component name =
     (if name = [] \<or> name = ''.'' \<or> name = ''..'' then Inl (invalid_name (''`'' @ name @ ''` is not a usable name''))
      else if CHR ''/'' \<in> set name \<or> CHR 0x00 \<in> set name then
        Inl (invalid_name ''a name may not contain a separator or a NUL'')
      else if length name > 255 then Inl (invalid_name ''a name may not exceed 255 bytes'')
      else Inr ())"

definition join_entry :: "safe_path \<Rightarrow> str \<Rightarrow> safe_path safe" where
  "join_entry sp name =
     r_bind (reject_bad_component name) (\<lambda>_.
       Inr \<lparr>sp_absolute = sp_absolute sp @ [name], sp_relative = sp_relative sp @ [name]\<rparr>)"

definition home_root :: "fs_env \<Rightarrow> str \<Rightarrow> fnode \<Rightarrow> safe_path safe" where
  "home_root env home fs =
     (case namei False fs max_links [] (components home) of
        Inl k \<Rightarrow> Inl (safe_io env (components home) k)
      | Inr p \<Rightarrow>
          (case fe_deny env fs p of
             Some k \<Rightarrow> Inl (safe_io env (components home) k)
           | None \<Rightarrow>
               (case lookup fs p of
                  Some (NDir _ _) \<Rightarrow> Inr \<lparr>sp_absolute = p, sp_relative = []\<rparr>
                | _ \<Rightarrow> Inl \<lparr>sf_kind = FeNotADirectory, sf_message = display_path p @ '' is not a directory''\<rparr>)))"

definition relative_to :: "safe_path \<Rightarrow> str \<Rightarrow> path safe" where
  "relative_to root p =
     r_bind (if is_absolute p then
               (if prefix (sp_absolute root) (components p)
                then Inr (drop (length (sp_absolute root)) (components p)) else Inl (escape_error p))
             else Inr (components p)) (\<lambda>relative.
       if ''..'' \<in> set relative then Inl (escape_error p) else Inr relative)"

definition step_down :: "fs_env \<Rightarrow> fnode \<Rightarrow> safe_path \<Rightarrow> str \<Rightarrow> safe_path safe" where
  "step_down env fs current name =
     r_bind (reject_bad_component name) (\<lambda>_.
       let p = sp_absolute current @ [name] in
       case symlink_metadata env p fs of
         Inl k \<Rightarrow> Inl (safe_io env p k)
       | Inr n \<Rightarrow> if is_link n then Inl (escape_error (display_path p)) else join_entry current name)"

fun steps_down :: "fs_env \<Rightarrow> fnode \<Rightarrow> safe_path \<Rightarrow> path \<Rightarrow> safe_path safe" where
  "steps_down env fs current [] = Inr current"
| "steps_down env fs current (c # cs) = r_bind (step_down env fs current c) (\<lambda>sp. steps_down env fs sp cs)"

definition resolve :: "fs_env \<Rightarrow> str \<Rightarrow> str \<Rightarrow> fnode \<Rightarrow> safe_path safe" where
  "resolve env home p fs =
     r_bind (home_root env home fs) (\<lambda>root. r_bind (relative_to root p) (steps_down env fs root))"

definition resolve_new :: "fs_env \<Rightarrow> str \<Rightarrow> str \<Rightarrow> fnode \<Rightarrow> (safe_path \<times> str) safe" where
  "resolve_new env home p fs =
     r_bind (reject_bad_component (last (str_split CHR ''/'' p))) (\<lambda>_.
     r_bind (home_root env home fs) (\<lambda>root.
     r_bind (relative_to root p) (\<lambda>cs.
       if cs = [] then Inl (invalid_name ''cannot create the home directory itself'')
       else
         r_bind (reject_bad_component (last cs)) (\<lambda>_.
         r_bind (steps_down env fs root (butlast cs)) (\<lambda>current.
           let candidate = sp_absolute current @ [last cs] in
           case symlink_metadata env candidate fs of
             Inr (NLink _) \<Rightarrow> Inl (escape_error (display_path candidate))
           | _ \<Rightarrow> Inr (current, last cs))))))"

section \<open>The operations\<close>

text \<open>System calls on the last component, which is not followed.\<close>

definition sys_mkdir :: "fs_env \<Rightarrow> path \<Rightarrow> fnode \<Rightarrow> fs_error_kind + fnode" where
  "sys_mkdir env p fs =
     (case fe_deny env fs p of
        Some k \<Rightarrow> Inl k
      | None \<Rightarrow>
          (case lookup fs p of
             Some _ \<Rightarrow> Inl FeAlreadyExists
           | None \<Rightarrow>
               (case fe_forbid env CallMake fs p of
                  Some k \<Rightarrow> Inl k
                | None \<Rightarrow>
                    (case lookup fs (butlast p) of
                       Some (NDir _ _) \<Rightarrow> Inr (put fs p (Some (NDir [] (fe_dir_mode env))))
                     | Some (NFile _ _) \<Rightarrow> Inl FeNotADirectory
                     | _ \<Rightarrow> Inl FeNotFound))))"

definition sys_rename :: "fs_env \<Rightarrow> path \<Rightarrow> path \<Rightarrow> fnode \<Rightarrow> fs_error_kind + fnode" where
  "sys_rename env p q fs =
     (case refuses env CallRename fs p of
        Some k \<Rightarrow> Inl k
      | None \<Rightarrow>
     (case lookup fs p of
        None \<Rightarrow> Inl FeNotFound
      | Some n \<Rightarrow>
          (case refuses env CallRename fs q of
             Some k \<Rightarrow> Inl k
           | None \<Rightarrow>
               if prefix p q \<and> p \<noteq> q then Inl FeIo
               else
                 (case lookup fs q of
                    None \<Rightarrow> Inr (put (put fs p None) q (Some n))
                  | Some (NDir es _) \<Rightarrow>
                      if \<not> is_dir n then Inl FeIsADirectory
                      else if es \<noteq> [] \<and> p \<noteq> q then Inl FeIo
                      else Inr (put (put fs p None) q (Some n))
                  | Some _ \<Rightarrow> if is_dir n then Inl FeNotADirectory else Inr (put (put fs p None) q (Some n))))))"

text \<open>\<open>open\<close> for writing: it follows links, and creates the file that is missing at their end.\<close>

definition sys_create :: "fs_env \<Rightarrow> path \<Rightarrow> fnode \<Rightarrow> fs_error_kind + path \<times> u32" where
  "sys_create env p fs =
     (case fe_deny env fs p of
        Some k \<Rightarrow> Inl k
      | None \<Rightarrow>
     (case namei True fs max_links [] p of
        Inl k \<Rightarrow> Inl k
      | Inr q \<Rightarrow>
          (case refuses env CallOpen fs q of
             Some k \<Rightarrow> Inl k
           | None \<Rightarrow>
               (case lookup fs q of
                  Some (NDir _ _) \<Rightarrow> Inl FeIsADirectory
                | Some (NFile _ m) \<Rightarrow> Inr (q, m)
                | _ \<Rightarrow> Inr (q, fe_file_mode env)))))"

definition chunk_size :: nat where "chunk_size = 64 * 1024"

text \<open>\<open>with_extension\<close>: what follows the last dot is replaced, unless it is the leading one.\<close>

definition file_stem :: "str \<Rightarrow> str" where
  "file_stem name =
     (let stem = butlast (str_split CHR ''.'' name) in
      if stem = [] \<or> stem = [[]] then name else str_join ''.'' stem)"

definition temp_path :: "path \<Rightarrow> path" where
  "temp_path p = butlast p @ [file_stem (last p) @ ''.unihelm-part'']"

text \<open>
  The chunks are written as they arrive: a payload that ends early leaves its whole chunks behind, and a
  write that fails what was written. The flag says whether all of it was.
\<close>

definition receive :: "fs_env \<Rightarrow> fnode \<Rightarrow> path \<Rightarrow> nat \<Rightarrow> str \<Rightarrow> str \<times> bool" where
  "receive env fs q len payload =
     (let whole = len \<le> length payload;
          data = take (if whole then len else length payload div chunk_size * chunk_size) payload in
      case fe_room env fs q of
        Some n \<Rightarrow> if n < length data then (take n data, False) else (data, whole)
      | None \<Rightarrow> (data, whole))"

text \<open>The rename takes the temporary name itself, link or not.\<close>

definition write_file :: "fs_env \<Rightarrow> safe_path \<Rightarrow> nat \<Rightarrow> str \<Rightarrow> fnode \<Rightarrow> fnode \<times> unit safe" where
  "write_file env sp len payload fs =
     (let p = sp_absolute sp; temp = temp_path p in
      case sys_create env temp fs of
        Inl k \<Rightarrow> (fs, Inl (safe_io env p k))
      | Inr (q, m) \<Rightarrow>
          (case receive env fs q len payload of
             (data, whole) \<Rightarrow>
               let fs1 = put fs q (Some (NFile data m)) in
               if \<not> whole then (fs1, Inl (safe_io env p FeIo))
               else
                 (case sys_rename env temp p fs1 of
                    Inl k \<Rightarrow> (if refuses env CallUnlink fs1 temp = None then put fs1 temp None else fs1, Inl (safe_io env p k))
                  | Inr fs2 \<Rightarrow> (fs2, Inr ()))))"

text \<open>Appending opens with \<open>O_NOFOLLOW\<close>.\<close>

definition append_file :: "fs_env \<Rightarrow> safe_path \<Rightarrow> nat \<Rightarrow> str \<Rightarrow> fnode \<Rightarrow> fnode \<times> unit safe" where
  "append_file env sp len payload fs =
     (let p = sp_absolute sp in
      case refuses env CallOpen fs p of
        Some k \<Rightarrow> (fs, Inl (safe_io env p k))
      | None \<Rightarrow>
          (case (case lookup fs p of
                   Some (NLink _) \<Rightarrow> Inl FeIo
                 | Some (NDir _ _) \<Rightarrow> Inl FeIsADirectory
                 | Some (NFile c m) \<Rightarrow> Inr (c, m)
                 | None \<Rightarrow> Inr ([], fe_file_mode env)) of
             Inl k \<Rightarrow> (fs, Inl (safe_io env p k))
           | Inr (c, m) \<Rightarrow>
               (case receive env fs p len payload of
                  (data, whole) \<Rightarrow>
                    (put fs p (Some (NFile (c @ data) m)), if whole then Inr () else Inl (safe_io env p FeIo)))))"

fun create_parents :: "fs_env \<Rightarrow> str \<Rightarrow> safe_path \<Rightarrow> path \<Rightarrow> fnode \<Rightarrow> fnode \<times> safe_path safe" where
  "create_parents env home current [] fs = (fs, Inr current)"
| "create_parents env home current (c # cs) fs =
     (case join_entry current c of
        Inl e \<Rightarrow> (fs, Inl e)
      | Inr step \<Rightarrow>
          (case (if path_exists env (sp_absolute step) fs then Inr fs else sys_mkdir env (sp_absolute step) fs) of
             Inl k \<Rightarrow> (fs, Inl (safe_io env (sp_absolute step) k))
           | Inr fs1 \<Rightarrow>
               (case resolve env home (str_join ''/'' (sp_relative step)) fs1 of
                  Inl e \<Rightarrow> (fs1, Inl e)
                | Inr sp \<Rightarrow> create_parents env home sp cs fs1)))"

definition make_parents :: "fs_env \<Rightarrow> str \<Rightarrow> str \<Rightarrow> fnode \<Rightarrow> fnode \<times> (safe_path \<times> str) safe" where
  "make_parents env home p fs =
     (case home_root env home fs of
        Inl e \<Rightarrow> (fs, Inl e)
      | Inr root \<Rightarrow>
          (case resolve_new env home p fs of
             Inr r \<Rightarrow> (fs, Inr r)
           | Inl e \<Rightarrow>
               if sf_kind e \<noteq> FeNotFound then (fs, Inl e)
               else
                 (case relative_to root p of
                    Inl e \<Rightarrow> (fs, Inl e)
                  | Inr cs \<Rightarrow>
                      if cs = [] then (fs, Inl (invalid_name ''cannot create the home directory itself''))
                      else
                        (case create_parents env home root (butlast cs) fs of
                           (fs1, Inl e) \<Rightarrow> (fs1, Inl e)
                         | (fs1, Inr sp) \<Rightarrow> (fs1, Inr (sp, last cs))))))"

text \<open>
  \<open>remove_dir_all\<close> empties a directory before it removes it, enters no link, and ends at the first error
  with what it had removed by then gone. The second node is the one found at the path.
\<close>

definition sys_unlink :: "fs_env \<Rightarrow> path \<Rightarrow> fnode \<Rightarrow> fnode \<times> (fs_error_kind + unit)" where
  "sys_unlink env p fs =
     (case refuses env CallUnlink fs p of Some k \<Rightarrow> (fs, Inl k) | None \<Rightarrow> (put fs p None, Inr ()))"

fun remove_node :: "fs_env \<Rightarrow> fnode \<Rightarrow> path \<Rightarrow> fnode \<Rightarrow> fnode \<times> (fs_error_kind + unit)"
and remove_entries :: "fs_env \<Rightarrow> (str \<times> fnode) list \<Rightarrow> path \<Rightarrow> fnode \<Rightarrow> fnode \<times> (fs_error_kind + unit)" where
  "remove_node env (NFile c m) p fs = sys_unlink env p fs"
| "remove_node env (NLink t) p fs = sys_unlink env p fs"
| "remove_node env (NDir es m) p fs =
     (case refuses env CallReadDir fs p of
        Some k \<Rightarrow> (fs, Inl k)
      | None \<Rightarrow>
          (case remove_entries env es p fs of
             (fs1, Inl k) \<Rightarrow> (fs1, Inl k)
           | (fs1, Inr _) \<Rightarrow> sys_unlink env p fs1))"
| "remove_entries env [] p fs = (fs, Inr ())"
| "remove_entries env ((c, n) # es) p fs =
     (case remove_node env n (p @ [c]) fs of
        (fs1, Inl k) \<Rightarrow> (fs1, Inl k)
      | (fs1, Inr _) \<Rightarrow> remove_entries env es p fs1)"

definition remove_tree :: "fs_env \<Rightarrow> safe_path \<Rightarrow> fnode \<Rightarrow> fnode \<times> unit safe" where
  "remove_tree env sp fs =
     (let p = sp_absolute sp in
      case symlink_metadata env p fs of
        Inl k \<Rightarrow> (fs, Inl (safe_io env p k))
      | Inr n \<Rightarrow> (case remove_node env n p fs of (fs1, r) \<Rightarrow> (fs1, r_map_err (safe_io env p) r)))"

definition safe_mode :: "u32 \<Rightarrow> u32 safe" where
  "safe_mode mode =
     (if mode AND 0xE00 \<noteq> 0 then
        Inl (invalid_name ''setuid, setgid and sticky bits cannot be set from the file manager'')
      else if mode AND NOT 0x1FF \<noteq> 0 then Inl (invalid_name ''mode must be permission bits only'')
      else Inr mode)"

fun set_mode :: "u32 \<Rightarrow> fnode \<Rightarrow> fnode" where
  "set_mode mode (NFile c _) = NFile c mode"
| "set_mode mode (NDir es _) = NDir es mode"
| "set_mode mode (NLink t) = NLink t"

text \<open>
  The walk of a recursive mode change: a directory first, then its entries under the new mode;
  what an entry answers is dropped. The second node is the one found at the path.
\<close>

fun chmod_tree :: "fs_env \<Rightarrow> u32 \<Rightarrow> bool \<Rightarrow> fnode \<Rightarrow> path \<Rightarrow> fnode \<Rightarrow> fnode \<times> unit safe"
and chmod_entries :: "fs_env \<Rightarrow> u32 \<Rightarrow> (str \<times> fnode) list \<Rightarrow> path \<Rightarrow> fnode \<Rightarrow> fnode" where
  "chmod_tree env mode recursive (NLink t) p fs = (fs, Inl (escape_error (display_path p)))"
| "chmod_tree env mode recursive (NFile c m) p fs =
     (case refuses env CallChmod fs p of
        Some k \<Rightarrow> (fs, Inl (safe_io env p k))
      | None \<Rightarrow> (put fs p (Some (NFile c mode)), Inr ()))"
| "chmod_tree env mode recursive (NDir es m) p fs =
     (case refuses env CallChmod fs p of
        Some k \<Rightarrow> (fs, Inl (safe_io env p k))
      | None \<Rightarrow>
          let fs1 = put fs p (map_option (set_mode mode) (lookup fs p)) in
          if recursive then
            (case refuses env CallReadDir fs1 p of
               Some k \<Rightarrow> (fs1, Inl (safe_io env p k))
             | None \<Rightarrow> (chmod_entries env mode es p fs1, Inr ()))
          else (fs1, Inr ()))"
| "chmod_entries env mode [] p fs = fs"
| "chmod_entries env mode ((c, n) # es) p fs =
     (case reject_bad_component c of
        Inl _ \<Rightarrow> chmod_entries env mode es p fs
      | Inr _ \<Rightarrow> chmod_entries env mode es p (fst (chmod_tree env mode True n (p @ [c]) fs)))"

text \<open>The symbolic answer about one path; sizes of directories and times are left out.\<close>

datatype entry_kind = EkFile | EkDir | EkSymlink

record fs_entry =
  en_path :: str
  en_name :: str
  en_kind :: entry_kind
  en_size :: nat
  en_mode :: u32
  en_target :: "str option"
  en_escapes :: bool

datatype fs_data = FdEntries "fs_entry list" | FdEntry fs_entry | FdContent nat bool bool | FdBytes nat | FdDone

definition entry_for :: "fs_env \<Rightarrow> safe_path \<Rightarrow> fnode \<Rightarrow> fs_entry safe" where
  "entry_for env sp fs =
     (case symlink_metadata env (sp_absolute sp) fs of
        Inl k \<Rightarrow> Inl (safe_io env (sp_absolute sp) k)
      | Inr n \<Rightarrow>
          let entry = (\<lambda>kind sz mode target escapes.
            \<lparr>en_path = str_join ''/'' (sp_relative sp),
             en_name = (if sp_absolute sp = [] then [] else last (sp_absolute sp)),
             en_kind = kind, en_size = sz, en_mode = mode, en_target = target, en_escapes = escapes\<rparr>) in
          Inr (case n of
                 NLink t \<Rightarrow> entry EkSymlink (length t) 0x1FF (Some t) (is_absolute t \<or> ''..'' \<in> set (components t))
               | NDir _ m \<Rightarrow> entry EkDir 0 (m AND 0xFFF) None False
               | NFile c m \<Rightarrow> entry EkFile (length c) (m AND 0xFFF) None False))"

definition trash_dir :: str where "trash_dir = ''.trash''"

definition dir_names :: "(str \<times> fnode) list \<Rightarrow> str list" where
  "dir_names es = remdups (map fst es)"

text \<open>
  \<open>lower\<close> is Unicode's lower case. Two stable sorts give the order by two keys.
\<close>

definition list_dir :: "(str \<Rightarrow> str) \<Rightarrow> fs_env \<Rightarrow> safe_path \<Rightarrow> bool \<Rightarrow> fnode \<Rightarrow> fs_entry list safe" where
  "list_dir lower env sp show_hidden fs =
     (case refuses env CallReadDir fs (sp_absolute sp) of
        Some k \<Rightarrow> Inl (safe_io env (sp_absolute sp) k)
      | None \<Rightarrow>
          (case lookup fs (sp_absolute sp) of
             Some (NDir es _) \<Rightarrow>
               let shown = filter (\<lambda>c. (show_hidden \<or> \<not> starts_with ''.'' c)
                     \<and> \<not> (c = trash_dir \<and> sp_relative sp = [])) (dir_names es);
                   found = List.map_filter (\<lambda>c. case r_bind (join_entry sp c) (\<lambda>child. entry_for env child fs) of
                     Inl _ \<Rightarrow> None | Inr e \<Rightarrow> Some e) shown
               in Inr (sort_key (\<lambda>e :: fs_entry. en_kind e \<noteq> EkDir) (sort_key (\<lambda>e. lower (en_name e)) found))
           | Some _ \<Rightarrow> Inl (safe_io env (sp_absolute sp) FeNotADirectory)
           | None \<Rightarrow> Inl (safe_io env (sp_absolute sp) FeNotFound)))"

definition max_editable :: nat where "max_editable = 16 * 1024 * 1024"

definition read_file :: "fs_env \<Rightarrow> safe_path \<Rightarrow> nat \<Rightarrow> nat \<Rightarrow> fnode \<Rightarrow> (fs_data \<times> str) safe" where
  "read_file env sp max_bytes offset fs =
     (case symlink_metadata env (sp_absolute sp) fs of
        Inl k \<Rightarrow> Inl (safe_io env (sp_absolute sp) k)
      | Inr (NFile c _) \<Rightarrow>
          case refuses env CallOpen fs (sp_absolute sp) of Some k \<Rightarrow> Inl (safe_io env (sp_absolute sp) k) | None \<Rightarrow>
          let start = min offset (length c); n = min (length c - start) max_bytes;
              truncated = start + n < length c; buffer = take n (drop start c);
              judged = (if truncated then take (length buffer - 3) buffer else buffer)
          in Inr (FdContent (length c) truncated (\<not> utf8_valid judged \<or> CHR 0x00 \<in> set judged), buffer)
      | Inr (NDir _ _) \<Rightarrow> Inl \<lparr>sf_kind = FeIsADirectory, sf_message = ''`'' @ str_join ''/'' (sp_relative sp) @ ''` is a directory''\<rparr>
      | Inr (NLink _) \<Rightarrow> Inl (safe_io env (sp_absolute sp) FeIo))"

text \<open>
  The search visits directories from a stack; the budget counts the entries looked at. A link is
  reported when its name matches and never entered.
\<close>

fun search_names ::
  "(str \<Rightarrow> str) \<Rightarrow> fs_env \<Rightarrow> str \<Rightarrow> nat \<Rightarrow> fnode \<Rightarrow> safe_path \<Rightarrow> str list
     \<Rightarrow> fs_entry list \<Rightarrow> nat \<Rightarrow> safe_path list \<Rightarrow> fs_entry list \<times> nat \<times> safe_path list" where
  "search_names lower env needle limit fs cur [] found budget queue = (found, budget, queue)"
| "search_names lower env needle limit fs cur (c # cs) found budget queue =
     (let budget = budget - 1 in
      if limit \<le> length found \<or> budget = 0 then (found, budget, queue)
      else
        (case join_entry cur c of
           Inl _ \<Rightarrow> search_names lower env needle limit fs cur cs found budget queue
         | Inr child \<Rightarrow>
             (case symlink_metadata env (sp_absolute child) fs of
                Inl _ \<Rightarrow> search_names lower env needle limit fs cur cs found budget queue
              | Inr n \<Rightarrow>
                  search_names lower env needle limit fs cur cs
                    (case entry_for env child fs of
                       Inr e \<Rightarrow> if str_contains needle (lower c) then found @ [e] else found
                     | Inl _ \<Rightarrow> found)
                    budget (if is_dir n then child # queue else queue))))"

fun weight :: "fnode \<Rightarrow> nat" where
  "weight (NDir es _) = Suc (sum_list (map (\<lambda>(_, n). weight n) es))"
| "weight _ = 1"

definition weight_at :: "fnode \<Rightarrow> path \<Rightarrow> nat" where
  "weight_at fs p = (case lookup fs p of None \<Rightarrow> 1 | Some n \<Rightarrow> weight n)"

lemma lookup_append: "lookup fs (p @ q) = (case lookup fs p of None \<Rightarrow> None | Some n \<Rightarrow> lookup n q)"
  by (induction fs p rule: lookup.induct) (auto split: option.splits)

lemma lookup_child: "lookup fs p = Some (NDir es m) \<Longrightarrow> lookup fs (p @ [c]) = map_of es c"
  by (simp add: lookup_append split: option.splits)

lemma weight_pos: "weight n \<ge> 1"
  by (cases n) simp_all

lemma dir_names_Cons: "dir_names ((c, n) # es) = (if c \<in> fst ` set es then dir_names es else c # dir_names es)"
  by (simp add: dir_names_def)

lemma entries_weight:
  "sum_list (map (\<lambda>c. weight (the (map_of es c))) (filter P (dir_names es))) \<le> sum_list (map (\<lambda>(_, n). weight n) es)"
proof -
  have le: "sum_list (map f (filter P (remdups xs))) \<le> sum_list (map f (remdups xs))" for f :: "str \<Rightarrow> nat" and xs
    by (induction "remdups xs" arbitrary: xs) (auto simp: sum_list_filter_le_nat)
  have "sum_list (map (\<lambda>c. weight (the (map_of es c))) (dir_names es)) = (\<Sum>c\<in>fst ` set es. weight (the (map_of es c)))"
    by (simp add: dir_names_def sum_list_distinct_conv_sum_set)
  also have "\<dots> \<le> sum_list (map (\<lambda>(_, n). weight n) es)"
  proof (induction es)
    case (Cons e es)
    obtain c n where e: "e = (c, n)" by (cases e)
    have "(\<Sum>d\<in>fst ` set (e # es). weight (the (map_of (e # es) d)))
        = weight n + (\<Sum>d\<in>fst ` set es - {c}. weight (the (map_of (e # es) d)))"
      by (simp add: e sum.insert_remove)
    also have "(\<Sum>d\<in>fst ` set es - {c}. weight (the (map_of (e # es) d))) = (\<Sum>d\<in>fst ` set es - {c}. weight (the (map_of es d)))"
      by (rule sum.cong) (auto simp: e)
    also have "\<dots> \<le> (\<Sum>d\<in>fst ` set es. weight (the (map_of es d)))"
      by (rule sum_mono2) auto
    finally show ?case using Cons.IH by (simp add: e)
  qed simp
  finally show ?thesis using le [of "\<lambda>c. weight (the (map_of es c))" "map fst es"] by (simp add: dir_names_def)
qed

lemma weight_at_pos: "0 < weight_at fs p"
  using weight_pos by (auto simp: weight_at_def Suc_le_eq split: option.splits)

lemma search_names_weight:
  "search_names lower env needle limit fs cur cs found budget queue = (found', budget', queue') \<Longrightarrow>
     sum_list (map (weight_at fs \<circ> sp_absolute) queue')
       \<le> sum_list (map (\<lambda>c. weight_at fs (sp_absolute cur @ [c])) cs) + sum_list (map (weight_at fs \<circ> sp_absolute) queue)"
proof (induction cs arbitrary: found budget queue)
  case (Cons c cs)
  have child: "sp_absolute child = sp_absolute cur @ [c]" if "join_entry cur c = Inr child" for child
    using that by (auto simp: join_entry_def result_simps)
  show ?case
    using Cons.prems child by (auto simp: Let_def split: if_splits sum.splits dest!: Cons.IH)
qed simp

lemma dir_weight:
  assumes "lookup fs p = Some (NDir es m)"
  shows "sum_list (map (\<lambda>c. weight_at fs (p @ [c])) (dir_names es)) < weight_at fs p"
proof -
  have "weight_at fs (p @ [c]) = weight (the (map_of es c))" if "c \<in> set (dir_names es)" for c
    using that lookup_child [OF assms, of c] by (auto simp: weight_at_def dir_names_def dest: weak_map_of_SomeI split: option.splits)
  then have "map (\<lambda>c. weight_at fs (p @ [c])) (dir_names es) = map (\<lambda>c. weight (the (map_of es c))) (dir_names es)"
    by simp
  then show ?thesis using entries_weight [of es "\<lambda>_. True"] assms by (simp add: weight_at_def del: map_eq_conv)
qed

lemma search_names_lighter:
  assumes "lookup fs (sp_absolute cur) = Some (NDir es m)"
    "search_names lower env needle limit fs cur (dir_names es) found budget rest = (found', budget', queue)"
  shows "sum_list (map (weight_at fs \<circ> sp_absolute) queue)
    < weight_at fs (sp_absolute cur) + sum_list (map (weight_at fs \<circ> sp_absolute) rest)"
  using search_names_weight [OF assms(2)] dir_weight [OF assms(1)] by linarith

function search_loop ::
  "(str \<Rightarrow> str) \<Rightarrow> fs_env \<Rightarrow> str \<Rightarrow> nat \<Rightarrow> fnode \<Rightarrow> safe_path list \<Rightarrow> fs_entry list \<Rightarrow> nat \<Rightarrow> fs_entry list" where
  "search_loop lower env needle limit fs [] found budget = found"
| "search_loop lower env needle limit fs (cur # rest) found budget =
     (if limit \<le> length found \<or> budget = 0 then found
      else
        (case (refuses env CallReadDir fs (sp_absolute cur), lookup fs (sp_absolute cur)) of
           (None, Some (NDir es _)) \<Rightarrow>
             (case search_names lower env needle limit fs cur (dir_names es) found budget rest of
                (found', budget', queue) \<Rightarrow> search_loop lower env needle limit fs queue found' budget')
         | _ \<Rightarrow> search_loop lower env needle limit fs rest found budget))"
  by pat_completeness auto
termination
  by (relation "measure (\<lambda>(_, _, _, _, fs, queue, _). sum_list (map (weight_at fs \<circ> sp_absolute) queue))")
    (auto simp: weight_at_pos dest!: search_names_lighter [OF sym sym])

definition search :: "(str \<Rightarrow> str) \<Rightarrow> fs_env \<Rightarrow> safe_path \<Rightarrow> str \<Rightarrow> nat \<Rightarrow> fnode \<Rightarrow> fs_entry list" where
  "search lower env dir needle limit fs = search_loop lower env needle limit fs [dir] [] 200000"

text \<open>What a tree takes on the disk; links and what cannot be read count nothing.\<close>

fun usage :: "fs_env \<Rightarrow> fnode \<Rightarrow> path \<Rightarrow> fnode \<Rightarrow> nat"
and usage_entries :: "fs_env \<Rightarrow> fnode \<Rightarrow> path \<Rightarrow> (str \<times> fnode) list \<Rightarrow> nat" where
  "usage env fs p (NLink t) = 0"
| "usage env fs p (NFile c m) = (if fe_deny env fs p \<noteq> None then 0 else fe_blocks env (NFile c m) * 512)"
| "usage env fs p (NDir es m) =
     (if fe_deny env fs p \<noteq> None then 0
      else fe_blocks env (NDir es m) * 512 + (if refuses env CallReadDir fs p \<noteq> None then 0 else usage_entries env fs p es))"
| "usage_entries env fs p [] = 0"
| "usage_entries env fs p ((c, n) # es) =
     (case reject_bad_component c of Inl _ \<Rightarrow> 0 | Inr _ \<Rightarrow> usage env fs (p @ [c]) n) + usage_entries env fs p es"

text \<open>
  Copying is a loop over what is left to copy, depth first: a directory is created before the
  source is listed. The flag marks the request's own path, where a link is refused; further down
  links are passed over. The kernel's bound on the length of a path is left out.
\<close>

type_synonym copy_item = "bool \<times> path \<times> path"

definition copy_one :: "fs_env \<Rightarrow> fnode \<Rightarrow> copy_item \<Rightarrow> fnode \<times> (copy_item list \<times> nat) safe" where
  "copy_one env fs item =
     (case item of (asked, p, q) \<Rightarrow>
        (case symlink_metadata env p fs of
           Inl k \<Rightarrow> (fs, Inl (safe_io env p k))
         | Inr (NLink _) \<Rightarrow> if asked then (fs, Inl (escape_error (display_path p))) else (fs, Inr ([], 0))
         | Inr (NFile c m) \<Rightarrow>
             (case refuses env CallOpen fs p of
                Some k \<Rightarrow> (fs, Inl (safe_io env p k))
              | None \<Rightarrow>
                  (case sys_create env q fs of
                     Inl k \<Rightarrow> (fs, Inl (safe_io env p k))
                   | Inr (q', _) \<Rightarrow>
                       (case receive env fs q' (length c) c of
                          (data, whole) \<Rightarrow>
                            (put fs q' (Some (NFile data m)), if whole then Inr ([], length c) else Inl (safe_io env p FeIo)))))
         | Inr (NDir _ _) \<Rightarrow>
             (case sys_mkdir env q fs of
                Inl k \<Rightarrow> (fs, Inl (safe_io env q k))
              | Inr fs1 \<Rightarrow>
                  (case (refuses env CallReadDir fs1 p, lookup fs1 p) of
                     (Some k, _) \<Rightarrow> (fs1, Inl (safe_io env p k))
                   | (None, Some (NDir es _)) \<Rightarrow>
                       (fs1, Inr (map (\<lambda>c. (False, p @ [c], q @ [c]))
                                (filter (\<lambda>c. is_ok (reject_bad_component c)) (dir_names es)), 0))
                   | _ \<Rightarrow> (fs1, Inl (safe_io env p FeNotFound))))))"

partial_function (option) copy_loop ::
  "fs_env \<Rightarrow> fnode \<Rightarrow> copy_item list \<Rightarrow> nat \<Rightarrow> (fnode \<times> nat safe) option" where
  "copy_loop env fs work acc =
     (case work of
        [] \<Rightarrow> Some (fs, Inr acc)
      | item # rest \<Rightarrow>
          (case copy_one env fs item of
             (fs1, Inl e) \<Rightarrow> Some (fs1, Inl e)
           | (fs1, Inr (items, n)) \<Rightarrow> copy_loop env fs1 (items @ rest) (acc + n)))"

definition copy_tree :: "fs_env \<Rightarrow> safe_path \<Rightarrow> safe_path \<Rightarrow> fnode \<Rightarrow> (fnode \<times> nat safe) option" where
  "copy_tree env source dest fs = copy_loop env fs [(True, sp_absolute source, sp_absolute dest)] 0"

section \<open>Requests\<close>

datatype fs_request =
    FrList str bool
  | FrStat str
  | FrRead str nat nat
  | FrWrite str nat bool bool
  | FrMkdir str
  | FrRename str str
  | FrCopy str str
  | FrRemove str
  | FrChmod str u32 bool
  | FrSearch str str nat
  | FrUsage str

definition reply :: "fs_data safe \<Rightarrow> (fs_data \<times> str) safe" where
  "reply r = r_bind r (\<lambda>d. Inr (d, []))"

text \<open>The two paths of a rename or a copy; the destination must be free.\<close>

definition two_paths :: "fs_env \<Rightarrow> str \<Rightarrow> str \<Rightarrow> str \<Rightarrow> fnode \<Rightarrow> (safe_path \<times> safe_path) safe" where
  "two_paths env home source dest fs =
     r_bind (resolve env home source fs) (\<lambda>s.
     r_bind (resolve_new env home dest fs) (\<lambda>(dir, name).
     r_bind (join_entry dir name) (\<lambda>d.
       if path_exists env (sp_absolute d) fs then
         Inl \<lparr>sf_kind = FeAlreadyExists, sf_message = ''`'' @ str_join ''/'' (sp_relative d) @ ''` already exists''\<rparr>
       else Inr (s, d))))"

definition serve_write ::
  "fs_env \<Rightarrow> str \<Rightarrow> str \<Rightarrow> nat \<Rightarrow> bool \<Rightarrow> bool \<Rightarrow> str \<Rightarrow> fnode \<Rightarrow> fnode \<times> fs_data safe" where
  "serve_write env home p len create_parents_flag append_flag payload fs =
     (case (if create_parents_flag then make_parents env home p fs else (fs, resolve_new env home p fs)) of
        (fs1, Inl e) \<Rightarrow> (fs1, Inl e)
      | (fs1, Inr (dir, name)) \<Rightarrow>
          (case join_entry dir name of
             Inl e \<Rightarrow> (fs1, Inl e)
           | Inr target \<Rightarrow>
               (case (if append_flag then append_file env target len payload fs1 else write_file env target len payload fs1) of
                  (fs2, r) \<Rightarrow> (fs2, r_bind r (\<lambda>_. Inr FdDone)))))"

definition serve_mkdir :: "fs_env \<Rightarrow> str \<Rightarrow> str \<Rightarrow> fnode \<Rightarrow> fnode \<times> fs_data safe" where
  "serve_mkdir env home p fs =
     (case r_bind (resolve_new env home p fs) (\<lambda>(dir, name). join_entry dir name) of
        Inl e \<Rightarrow> (fs, Inl e)
      | Inr target \<Rightarrow>
          (case sys_mkdir env (sp_absolute target) fs of
             Inl k \<Rightarrow> (fs, Inl (safe_io env (sp_absolute target) k))
           | Inr fs1 \<Rightarrow> (fs1, r_bind (entry_for env target fs1) (\<lambda>e. Inr (FdEntry e)))))"

definition serve_rename :: "fs_env \<Rightarrow> str \<Rightarrow> str \<Rightarrow> str \<Rightarrow> fnode \<Rightarrow> fnode \<times> fs_data safe" where
  "serve_rename env home source dest fs =
     (case two_paths env home source dest fs of
        Inl e \<Rightarrow> (fs, Inl e)
      | Inr (s, d) \<Rightarrow>
          (case sys_rename env (sp_absolute s) (sp_absolute d) fs of
             Inl k \<Rightarrow> (fs, Inl (safe_io env (sp_absolute s) k))
           | Inr fs1 \<Rightarrow> (fs1, r_bind (entry_for env d fs1) (\<lambda>e. Inr (FdEntry e)))))"

definition serve_remove :: "fs_env \<Rightarrow> str \<Rightarrow> str \<Rightarrow> fnode \<Rightarrow> fnode \<times> fs_data safe" where
  "serve_remove env home p fs =
     (case resolve env home p fs of
        Inl e \<Rightarrow> (fs, Inl e)
      | Inr target \<Rightarrow>
          if sp_relative target = [] then (fs, Inl (invalid_name ''the home directory itself cannot be deleted''))
          else (case remove_tree env target fs of (fs1, r) \<Rightarrow> (fs1, r_bind r (\<lambda>_. Inr FdDone))))"

definition serve_chmod :: "fs_env \<Rightarrow> str \<Rightarrow> str \<Rightarrow> u32 \<Rightarrow> bool \<Rightarrow> fnode \<Rightarrow> fnode \<times> fs_data safe" where
  "serve_chmod env home p mode recursive fs =
     (case r_bind (resolve env home p fs) (\<lambda>target. r_bind (safe_mode mode) (\<lambda>mode.
             case symlink_metadata env (sp_absolute target) fs of
               Inl k \<Rightarrow> Inl (safe_io env (sp_absolute target) k) | Inr n \<Rightarrow> Inr (target, mode, n))) of
        Inl e \<Rightarrow> (fs, Inl e)
      | Inr (target, mode, n) \<Rightarrow>
          (case chmod_tree env mode recursive n (sp_absolute target) fs of
             (fs1, r) \<Rightarrow> (fs1, r_bind r (\<lambda>_. Inr FdDone))))"

definition serve_copy :: "fs_env \<Rightarrow> str \<Rightarrow> str \<Rightarrow> str \<Rightarrow> fnode \<Rightarrow> (fnode \<times> fs_data safe) option" where
  "serve_copy env home source dest fs =
     (case two_paths env home source dest fs of
        Inl e \<Rightarrow> Some (fs, Inl e)
      | Inr (s, d) \<Rightarrow> map_option (\<lambda>(fs1, r). (fs1, r_bind r (\<lambda>n. Inr (FdBytes n)))) (copy_tree env s d fs))"

fun fs_dispatch ::
  "(str \<Rightarrow> str) \<Rightarrow> fs_env \<Rightarrow> str \<Rightarrow> fs_request \<Rightarrow> str \<Rightarrow> fnode \<Rightarrow> (fnode \<times> (fs_data \<times> str) safe) option" where
  "fs_dispatch lower env home (FrList p show_hidden) payload fs =
     Some (fs, reply (r_bind (resolve env home p fs) (\<lambda>dir. r_bind (list_dir lower env dir show_hidden fs) (\<lambda>es. Inr (FdEntries es)))))"
| "fs_dispatch lower env home (FrStat p) payload fs =
     Some (fs, reply (r_bind (resolve env home p fs) (\<lambda>t. r_bind (entry_for env t fs) (\<lambda>e. Inr (FdEntry e)))))"
| "fs_dispatch lower env home (FrRead p max_bytes offset) payload fs =
     Some (fs, r_bind (resolve env home p fs) (\<lambda>t. read_file env t (min max_bytes max_editable) offset fs))"
| "fs_dispatch lower env home (FrWrite p len parents appending) payload fs =
     Some (case serve_write env home p len parents appending payload fs of (fs1, r) \<Rightarrow> (fs1, reply r))"
| "fs_dispatch lower env home (FrMkdir p) payload fs =
     Some (case serve_mkdir env home p fs of (fs1, r) \<Rightarrow> (fs1, reply r))"
| "fs_dispatch lower env home (FrRename source dest) payload fs =
     Some (case serve_rename env home source dest fs of (fs1, r) \<Rightarrow> (fs1, reply r))"
| "fs_dispatch lower env home (FrCopy source dest) payload fs =
     map_option (\<lambda>(fs1, r). (fs1, reply r)) (serve_copy env home source dest fs)"
| "fs_dispatch lower env home (FrRemove p) payload fs =
     Some (case serve_remove env home p fs of (fs1, r) \<Rightarrow> (fs1, reply r))"
| "fs_dispatch lower env home (FrChmod p mode recursive) payload fs =
     Some (case serve_chmod env home p mode recursive fs of (fs1, r) \<Rightarrow> (fs1, reply r))"
| "fs_dispatch lower env home (FrSearch p query limit) payload fs =
     Some (fs, reply (r_bind (resolve env home p fs) (\<lambda>dir.
       Inr (FdEntries (search lower env dir (lower query) (min limit 2000) fs)))))"
| "fs_dispatch lower env home (FrUsage p) payload fs =
     Some (fs, reply (r_bind (resolve env home p fs) (\<lambda>t.
       Inr (FdBytes (case lookup fs (sp_absolute t) of None \<Rightarrow> 0 | Some n \<Rightarrow> usage env fs (sp_absolute t) n)))))"

section \<open>The tree\<close>

lemma lookup_prefix: "lookup fs (p @ q) = Some n \<Longrightarrow> \<exists>m. lookup fs p = Some m"
  by (cases "lookup fs p") (simp_all add: lookup_append)

lemma lookup_below: "lookup fs (p @ c # q) = Some n \<Longrightarrow> \<exists>es m. lookup fs p = Some (NDir es m)"
proof -
  assume a: "lookup fs (p @ c # q) = Some n"
  then obtain x where "lookup fs p = Some x" using lookup_prefix by blast
  then show ?thesis using a by (cases x) (simp_all add: lookup_append)
qed

lemma map_of_filter_ne: "map_of (filter (\<lambda>(d, _). d \<noteq> c) es) d = (if d = c then None else map_of es d)"
  by (induction es) auto

text \<open>A change at a path is seen at that path, below it, and in no label elsewhere.\<close>

lemma lookup_put_other:
  "\<not> prefix p q \<Longrightarrow> \<not> prefix q p \<Longrightarrow> lookup (put fs p x) q = lookup fs q"
proof (induction fs p x arbitrary: q rule: put.induct)
  case (2 es m c x)
  then show ?case by (cases q) (auto simp: map_of_filter_ne update_conv' split: option.splits)
next
  case (3 es m c d cs x)
  then show ?case by (cases q) (auto simp: update_conv' split: option.splits)
qed simp_all

lemma label_put_other: "\<not> prefix p q \<Longrightarrow> label_at (put fs p x) q = label_at fs q"
proof (induction fs p x arbitrary: q rule: put.induct)
  case (2 es m c x)
  then show ?case by (cases q) (auto simp: label_at_def map_of_filter_ne update_conv' split: option.splits)
next
  case (3 es m c d cs x)
  then show ?case by (cases q) (auto simp: label_at_def update_conv' split: option.splits)
qed simp_all

lemma lookup_put_same:
  assumes "lookup fs (butlast p) = Some (NDir es m)" "p \<noteq> []"
  shows "lookup (put fs p x) (p @ q) = (case x of None \<Rightarrow> None | Some n \<Rightarrow> lookup n q)"
  using assms
proof (induction fs p x arbitrary: es m rule: put.induct)
  case (3 es' m' c d cs x)
  then show ?case
    by (cases "map_of es' c") (auto simp: update_conv' split: if_splits)
qed (auto simp: map_of_filter_ne update_conv' split: option.splits if_splits)

text \<open>Where no link is.\<close>

definition no_link :: "fnode \<Rightarrow> path \<Rightarrow> bool" where
  "no_link fs p \<longleftrightarrow> (\<forall>n. lookup fs p = Some n \<longrightarrow> \<not> is_link n)"

definition link_free :: "fnode \<Rightarrow> path \<Rightarrow> bool" where
  "link_free fs p \<longleftrightarrow> (\<forall>q. prefix q p \<longrightarrow> no_link fs q)"

lemma label_no_link: "label_at fs' p = label_at fs p \<Longrightarrow> no_link fs' p \<longleftrightarrow> no_link fs p"
proof -
  assume a: "label_at fs' p = label_at fs p"
  have "is_link n \<longleftrightarrow> (\<exists>t. label_of n = LLink t)" for n by (cases n) auto
  then show ?thesis using a unfolding no_link_def label_at_def
    by (cases "lookup fs p"; cases "lookup fs' p") auto
qed

lemma namei_direct:
  assumes "\<And>q. prefix q (done @ cs) \<Longrightarrow> no_link fs q" "''..'' \<notin> set cs" "namei create fs k done cs = Inr p"
  shows "p = done @ cs"
  using assms
proof (induction cs arbitrary: "done")
  case (Cons c cs)
  have "no_link fs (done @ [c])" using Cons.prems(1) by simp
  moreover have "c \<noteq> ''..''" using Cons.prems(2) by auto
  ultimately have "p = done @ [c] \<and> cs = [] \<or> namei create fs k (done @ [c]) cs = Inr p"
    using Cons.prems(3) by (auto simp: no_link_def split: option.splits fnode.splits if_splits)
  then show ?case
    using Cons.IH [of "done @ [c]"] Cons.prems(1,2) by auto
qed simp

lemma namei_exists:
  assumes "lookup fs (done @ cs) = Some n" "\<And>q. prefix q (done @ cs) \<Longrightarrow> no_link fs q" "''..'' \<notin> set cs"
  shows "namei create fs k done cs = Inr (done @ cs)"
  using assms
proof (induction cs arbitrary: "done")
  case (Cons c cs)
  obtain m where m: "lookup fs (done @ [c]) = Some m"
    using Cons.prems(1) lookup_prefix [of fs "done @ [c]" cs] by auto
  moreover have "\<not> is_link m"
    using m Cons.prems(2) [of "done @ [c]"] by (auto simp: no_link_def)
  ultimately show ?case
    using Cons.IH [of "done @ [c]"] Cons.prems by (cases m) auto
qed simp

text \<open>What \<open>namei\<close> returns goes through no link, whatever it went through itself.\<close>

definition canonical_path :: "fnode \<Rightarrow> path \<Rightarrow> bool" where
  "canonical_path fs p \<longleftrightarrow> link_free fs p \<and> ''..'' \<notin> set p \<and> (\<exists>n. lookup fs p = Some n)"

lemma canonical_path_append: "canonical_path fs (p @ q) \<Longrightarrow> canonical_path fs p"
  unfolding canonical_path_def link_free_def using lookup_prefix by (auto simp: prefix_append)

lemma canonical_butlast: "canonical_path fs p \<Longrightarrow> canonical_path fs (butlast p)"
  using canonical_path_append [of fs "butlast p" "[last p]"] by (cases "p = []") simp_all

lemma canonical_snoc:
  "canonical_path fs p \<Longrightarrow> lookup fs (p @ [c]) = Some n \<Longrightarrow> \<not> is_link n \<Longrightarrow> c \<noteq> ''..'' \<Longrightarrow> canonical_path fs (p @ [c])"
  by (auto simp: canonical_path_def link_free_def no_link_def)

lemma namei_canonical:
  assumes "namei False fs k done cs = Inr p" "canonical_path fs done"
  shows "canonical_path fs p"
  using assms
proof (induction "False" fs k "done" cs rule: namei.induct)
  case (2 fs k "done" c cs)
  have top: "canonical_path fs []" using canonical_path_append [of fs "[]" "done"] "2.prems"(2) by simp
  show ?case
  proof (cases "c = ''..''")
    case True
    then show ?thesis using "2.hyps"(1) [OF True] "2.prems" by (simp add: canonical_butlast)
  next
    case False
    show ?thesis
    proof (cases "lookup fs (done @ [c])")
      case None
      then show ?thesis using "2.prems"(1) False by (auto split: option.splits fnode.splits)
    next
      case (Some n)
      note down = canonical_snoc [OF "2.prems"(2) Some _ False]
      show ?thesis
      proof (cases n)
        case (NLink t)
        obtain k' where k: "k = Suc k'" "namei False fs k' (if is_absolute t then [] else done) (components t @ cs) = Inr p"
          using "2.prems"(1) False Some NLink by (cases k) auto
        have "canonical_path fs (if is_absolute t then [] else done)"
          using top "2.prems"(2) by auto
        then show ?thesis
          using "2.hyps"(4) False Some NLink k by blast
      qed (use "2.hyps" "2.prems" False Some down in auto)
    qed
  qed
qed simp

lemma canonical_namei: "canonical_path fs p \<Longrightarrow> namei create fs k [] p = Inr p"
  unfolding canonical_path_def link_free_def using namei_exists [of fs "[]" p] by auto

section \<open>Resolved paths\<close>

definition good_name :: "str \<Rightarrow> bool" where
  "good_name c \<longleftrightarrow> c \<notin> {[], ''.'', ''..''} \<and> CHR ''/'' \<notin> set c \<and> CHR 0x00 \<notin> set c \<and> length c \<le> 255"

lemma reject_iff: "reject_bad_component c = Inr u \<longleftrightarrow> good_name c"
  by (auto simp: reject_bad_component_def good_name_def)

lemma join_entry_Inr:
  "join_entry sp c = Inr sp' \<longleftrightarrow> good_name c
     \<and> sp' = \<lparr>sp_absolute = sp_absolute sp @ [c], sp_relative = sp_relative sp @ [c]\<rparr>"
  by (auto simp: join_entry_def result_simps reject_iff)

definition resolved :: "fnode \<Rightarrow> path \<Rightarrow> safe_path \<Rightarrow> bool" where
  "resolved fs root sp \<longleftrightarrow>
     sp_absolute sp = root @ sp_relative sp \<and> list_all good_name (sp_relative sp) \<and> canonical_path fs (sp_absolute sp)"

lemma symlink_metadata_Inr: "symlink_metadata env p fs = Inr n \<longleftrightarrow> fe_deny env fs p = None \<and> lookup fs p = Some n"
  by (auto simp: symlink_metadata_def split: option.splits)

lemma step_down_Inr:
  "step_down env fs cur c = Inr sp \<longleftrightarrow> good_name c \<and> fe_deny env fs (sp_absolute cur @ [c]) = None
     \<and> (\<exists>n. lookup fs (sp_absolute cur @ [c]) = Some n \<and> \<not> is_link n)
     \<and> sp = \<lparr>sp_absolute = sp_absolute cur @ [c], sp_relative = sp_relative cur @ [c]\<rparr>"
proof (cases "symlink_metadata env (sp_absolute cur @ [c]) fs")
  case (Inl k)
  then have "\<not> (fe_deny env fs (sp_absolute cur @ [c]) = None \<and> lookup fs (sp_absolute cur @ [c]) = Some n)" for n
    using symlink_metadata_Inr [of env "sp_absolute cur @ [c]" fs n] by simp
  then show ?thesis using Inl by (auto simp: step_down_def result_simps Let_def)
next
  case (Inr n)
  then show ?thesis
    using Inr [unfolded symlink_metadata_Inr] by (auto simp: step_down_def result_simps Let_def reject_iff join_entry_Inr)
qed

lemma good_not_up: "good_name c \<Longrightarrow> c \<noteq> ''..''"
  by (simp add: good_name_def)

lemma steps_down_resolved:
  "steps_down env fs cur cs = Inr sp \<Longrightarrow> resolved fs root cur \<Longrightarrow> resolved fs root sp \<and> sp_relative sp = sp_relative cur @ cs"
proof (induction cs arbitrary: cur)
  case (Cons c cs)
  then obtain mid where mid: "step_down env fs cur c = Inr mid" "steps_down env fs mid cs = Inr sp"
    by (auto simp: result_simps)
  from mid(1) Cons.prems(2) have "resolved fs root mid"
    using canonical_snoc [of fs "root @ sp_relative cur" c] good_not_up
    unfolding step_down_Inr resolved_def by auto
  with Cons.IH [OF mid(2)] mid(1) show ?case by (simp add: step_down_Inr)
qed simp

lemma home_root_resolved:
  assumes "home_root env home fs = Inr root" "is_dir fs"
  shows "sp_relative root = []" "resolved fs (sp_absolute root) root" "\<exists>es m. lookup fs (sp_absolute root) = Some (NDir es m)"
proof -
  obtain p where p: "namei False fs max_links [] (components home) = Inr p" "root = \<lparr>sp_absolute = p, sp_relative = []\<rparr>"
    "\<exists>es m. lookup fs p = Some (NDir es m)"
    using assms(1) by (auto simp: home_root_def split: sum.splits option.splits fnode.splits)
  have "canonical_path fs []"
    using assms(2) by (cases fs) (auto simp: canonical_path_def link_free_def no_link_def)
  then have "canonical_path fs p" by (rule namei_canonical [OF p(1)])
  with p show "sp_relative root = []" "resolved fs (sp_absolute root) root" "\<exists>es m. lookup fs (sp_absolute root) = Some (NDir es m)"
    by (simp_all add: resolved_def)
qed

lemma resolve_resolved:
  assumes "resolve env home p fs = Inr sp" "is_dir fs"
  shows "\<exists>root. home_root env home fs = Inr root \<and> resolved fs (sp_absolute root) sp \<and> relative_to root p = Inr (sp_relative sp)"
proof -
  obtain root cs where root: "home_root env home fs = Inr root" "relative_to root p = Inr cs" "steps_down env fs root cs = Inr sp"
    using assms(1) by (auto simp: resolve_def result_simps)
  note h = home_root_resolved [OF root(1) assms(2)]
  from steps_down_resolved [OF root(3) h(2)] h(1) root show ?thesis by auto
qed

lemma not_a_link:
  "(case r of Inl _ \<Rightarrow> Inr x | Inr (NLink _) \<Rightarrow> Inl e | Inr _ \<Rightarrow> Inr x) = Inr y \<longleftrightarrow> y = x \<and> (\<forall>t. r \<noteq> Inr (NLink t))"
  by (auto split: sum.splits fnode.splits)

lemma resolve_new_resolved:
  assumes "resolve_new env home p fs = Inr (sp, name)" "is_dir fs"
  shows "\<exists>root. home_root env home fs = Inr root \<and> resolved fs (sp_absolute root) sp \<and> good_name name
     \<and> (fe_deny env fs (sp_absolute sp @ [name]) = None \<longrightarrow> no_link fs (sp_absolute sp @ [name]))"
proof -
  obtain root cs where root: "home_root env home fs = Inr root" "cs \<noteq> []" "good_name (last cs)"
      "steps_down env fs root (butlast cs) = Inr sp" "name = last cs"
    and meta: "\<And>t. symlink_metadata env (sp_absolute sp @ [name]) fs \<noteq> Inr (NLink t)"
    using assms(1) by (auto simp: resolve_new_def result_simps reject_iff Let_def not_a_link split: if_splits)
  note h = home_root_resolved [OF root(1) assms(2)]
  have "no_link fs (sp_absolute sp @ [name])" if "fe_deny env fs (sp_absolute sp @ [name]) = None"
    using meta that by (auto simp: no_link_def symlink_metadata_Inr elim!: is_link.elims)
  with steps_down_resolved [OF root(4) h(2)] root show ?thesis by auto
qed

section \<open>Confinement\<close>

definition confined :: "path \<Rightarrow> fnode \<Rightarrow> fnode \<Rightarrow> bool" where
  "confined root fs fs' \<longleftrightarrow> (\<forall>q. \<not> prefix root q \<longrightarrow> label_at fs' q = label_at fs q)"

lemma confined_refl [simp]: "confined root fs fs"
  by (simp add: confined_def)

lemma confined_trans: "confined root fs fs1 \<Longrightarrow> confined root fs1 fs2 \<Longrightarrow> confined root fs fs2"
  by (simp add: confined_def)

lemma put_confined: "prefix root p \<Longrightarrow> confined root fs (put fs p x)"
  unfolding confined_def using label_put_other prefix_order.trans by blast

lemma mkdir_confined: "sys_mkdir env p fs = Inr fs1 \<Longrightarrow> prefix root p \<Longrightarrow> confined root fs fs1"
  by (auto simp: sys_mkdir_def intro: put_confined split: option.splits fnode.splits)

lemma rename_confined:
  "sys_rename env p q fs = Inr fs1 \<Longrightarrow> prefix root p \<Longrightarrow> prefix root q \<Longrightarrow> confined root fs fs1"
  by (auto simp: sys_rename_def intro: put_confined confined_trans split: option.splits fnode.splits if_splits)

text \<open>A new directory hides nothing and adds no link.\<close>

definition extends :: "fnode \<Rightarrow> fnode \<Rightarrow> bool" where
  "extends fs fs1 \<longleftrightarrow> (\<forall>q n. lookup fs q = Some n \<longrightarrow> label_at fs1 q = Some (label_of n))
     \<and> (\<forall>q. no_link fs q \<longrightarrow> no_link fs1 q)"

lemma extends_refl [simp]: "extends fs fs"
  by (simp add: extends_def label_at_def)

lemma extends_trans: "extends fs fs1 \<Longrightarrow> extends fs1 fs2 \<Longrightarrow> extends fs fs2"
  unfolding extends_def label_at_def map_option_eq_Some by fastforce

lemma lookup_put_below:
  "lookup (put fs p (Some n)) (p @ q) = lookup n q \<or> lookup (put fs p (Some n)) (p @ q) = lookup fs (p @ q)"
proof (induction p arbitrary: fs)
  case (Cons c cs)
  show ?case
  proof (cases fs)
    case (NDir es m)
    show ?thesis
    proof (cases cs)
      case Nil
      then show ?thesis by (simp add: NDir update_conv')
    next
      case (Cons d ds)
      then show ?thesis
        using Cons.IH by (cases "map_of es c") (simp_all add: NDir update_conv')
    qed
  qed simp_all
qed simp

lemma no_link_put:
  assumes "no_link fs q" "\<And>r. no_link n r"
  shows "no_link (put fs p (Some n)) q"
proof (cases "prefix p q")
  case True
  then obtain r where "q = p @ r" by (auto simp: prefix_def)
  with assms lookup_put_below [of fs p n r] show ?thesis by (auto simp: no_link_def)
next
  case False
  with assms(1) label_no_link [OF label_put_other] show ?thesis by blast
qed

lemma no_link_plain: "no_link (NFile c m) r" "no_link (NDir [] m) r"
  by (cases r; simp add: no_link_def)+

lemma mkdir_extends:
  assumes "sys_mkdir env p fs = Inr fs1"
  shows "extends fs fs1"
proof -
  have fs1: "lookup fs p = None" "fs1 = put fs p (Some (NDir [] (fe_dir_mode env)))"
    using assms by (auto simp: sys_mkdir_def split: option.splits fnode.splits)
  have "\<not> prefix p q" if "lookup fs q = Some n" for q n
    using that fs1(1) lookup_prefix by (fastforce simp: prefix_def)
  then have "label_at fs1 q = Some (label_of n)" if "lookup fs q = Some n" for q n
    using that label_put_other [of p q fs] by (simp only: fs1(2)) (simp add: label_at_def)
  then show ?thesis by (simp add: extends_def fs1 no_link_put no_link_plain)
qed

lemma label_link: "label_of n = LLink t \<longleftrightarrow> n = NLink t"
  by (cases n) auto

lemma namei_extends:
  assumes "namei False fs k done cs = Inr p" "extends fs fs1"
  shows "namei False fs1 k done cs = Inr p"
  using assms
proof (induction "False" fs k "done" cs rule: namei.induct)
  case (2 fs k "done" c cs)
  show ?case
  proof (cases "c = ''..''")
    case True
    then show ?thesis using 2 by simp
  next
    case False
    then obtain n where n: "lookup fs (done @ [c]) = Some n"
      using "2.prems"(1) by (auto split: option.splits fnode.splits)
    then obtain n1 where n1: "lookup fs1 (done @ [c]) = Some n1" "label_of n1 = label_of n"
      using "2.prems"(2) unfolding extends_def label_at_def by (metis map_option_eq_Some)
    show ?thesis
    proof (cases n)
      case (NLink t)
      then obtain k' where k: "k = Suc k'" "namei False fs k' (if is_absolute t then [] else done) (components t @ cs) = Inr p"
        using "2.prems"(1) False n by (cases k) auto
      have "namei False fs1 k' (if is_absolute t then [] else done) (components t @ cs) = Inr p"
        using "2.hyps"(4) [OF False n NLink k(1) k(2) "2.prems"(2)] .
      moreover have "n1 = NLink t" using n1(2) NLink label_link [of n1 t] by simp
      ultimately show ?thesis using False n1(1) k(1) by simp
    next
      case (NFile x m)
      then have "namei False fs1 k (done @ [c]) cs = Inr p" using 2 False n by auto
      then show ?thesis using n1 NFile False by (cases n1) auto
    next
      case (NDir es m)
      then have "namei False fs1 k (done @ [c]) cs = Inr p" using 2 False n by auto
      then show ?thesis using n1 NDir False by (cases n1) auto
    qed
  qed
qed simp

lemma canonical_extends: "canonical_path fs p \<Longrightarrow> extends fs fs1 \<Longrightarrow> canonical_path fs1 p"
  unfolding canonical_path_def extends_def link_free_def label_at_def by (metis map_option_eq_Some)

lemma home_root_extends:
  assumes "home_root env home fs = Inr root" "extends fs fs1" "home_root env home fs1 = Inr root1"
  shows "root1 = root"
  using assms namei_extends [OF _ assms(2), of max_links "[]" "components home"]
  by (auto simp: home_root_def split: sum.splits option.splits fnode.splits)

lemma create_parents_ok:
  assumes "create_parents env home cur cs fs = (fs1, r)" "is_dir fs" "home_root env home fs = Inr root"
    "resolved fs (sp_absolute root) cur"
  shows "confined (sp_absolute root) fs fs1 \<and> extends fs fs1 \<and> (\<forall>sp. r = Inr sp \<longrightarrow> resolved fs1 (sp_absolute root) sp)"
  using assms
proof (induction cs arbitrary: cur fs)
  case (Cons c cs)
  note R = "Cons.prems"
  show ?case
  proof (cases "join_entry cur c")
    case (Inl e)
    then show ?thesis using R(1) by auto
  next
    case (Inr st)
    have st: "prefix (sp_absolute root) (sp_absolute st)"
      using Inr R(4) by (auto simp: join_entry_Inr resolved_def)
    define made where "made = (if path_exists env (sp_absolute st) fs then Inr fs else sys_mkdir env (sp_absolute st) fs)"
    show ?thesis
    proof (cases made)
      case (Inl k)
      then show ?thesis using R(1) \<open>join_entry cur c = Inr st\<close> by (auto simp: made_def)
    next
      case (Inr fs2)
      then have fs2: "confined (sp_absolute root) fs fs2" "extends fs fs2"
        using mkdir_confined mkdir_extends st by (auto simp: made_def split: if_splits)
      have dir2: "is_dir fs2"
        using fs2(2) R(2) by (cases fs; cases fs2) (auto simp: extends_def label_at_def dest!: spec [of _ "[]"])
      show ?thesis
      proof (cases "resolve env home (str_join ''/'' (sp_relative st)) fs2")
        case (Inl e)
        then show ?thesis
          using R(1) \<open>join_entry cur c = Inr st\<close> \<open>made = Inr fs2\<close> fs2 by (auto simp: made_def)
      next
        case (Inr sp)
        then obtain root2 where root2: "home_root env home fs2 = Inr root2" "resolved fs2 (sp_absolute root2) sp"
          using resolve_resolved [OF _ dir2] by blast
        then have "root2 = root" using home_root_extends [OF R(3) fs2(2)] by blast
        moreover have "create_parents env home sp cs fs2 = (fs1, r)"
          using R(1) \<open>join_entry cur c = Inr st\<close> \<open>made = Inr fs2\<close> Inr by (auto simp: made_def)
        ultimately show ?thesis
          using Cons.IH [OF _ dir2] root2 fs2 confined_trans extends_trans by blast
      qed
    qed
  qed
qed auto

lemma make_parents_ok:
  assumes "make_parents env home p fs = (fs1, r)" "is_dir fs"
  shows "extends fs fs1 \<and> (\<forall>root. home_root env home fs = Inr root \<longrightarrow> confined (sp_absolute root) fs fs1)
    \<and> (\<forall>sp name. r = Inr (sp, name) \<longrightarrow> (\<exists>root. home_root env home fs = Inr root \<and> resolved fs1 (sp_absolute root) sp))"
proof (cases "home_root env home fs")
  case (Inl e)
  then show ?thesis using assms(1) by (auto simp: make_parents_def)
next
  case root: (Inr root)
  show ?thesis
  proof (cases "resolve_new env home p fs")
    case (Inr x)
    then obtain sp0 name0 where x: "resolve_new env home p fs = Inr (sp0, name0)" by (cases x) auto
    from resolve_new_resolved [OF this assms(2)] root have "resolved fs (sp_absolute root) sp0" by auto
    then show ?thesis using assms(1) root x by (auto simp: make_parents_def)
  next
    case (Inl e)
    show ?thesis
    proof (cases "sf_kind e = FeNotFound \<and> (\<exists>cs. relative_to root p = Inr cs \<and> cs \<noteq> [])")
      case False
      then show ?thesis
        using assms(1) root Inl by (auto simp: make_parents_def split: sum.splits if_splits)
    next
      case True
      then obtain cs where cs: "relative_to root p = Inr cs" "cs \<noteq> []" "sf_kind e = FeNotFound" by blast
      obtain fs2 q where q: "create_parents env home root (butlast cs) fs = (fs2, q)" by fastforce
      have "fs1 = fs2" "r = (case q of Inl e \<Rightarrow> Inl e | Inr sp \<Rightarrow> Inr (sp, last cs))"
        using assms(1) root Inl cs q by (auto simp: make_parents_def split: sum.splits)
      then show ?thesis
        using create_parents_ok [OF q assms(2) root home_root_resolved(2) [OF root assms(2)]] root
        by (auto split: sum.splits)
    qed
  qed
qed

text \<open>The names of temporary files must not be links, or writing goes where they point.\<close>

definition no_part_links :: "path \<Rightarrow> fnode \<Rightarrow> bool" where
  "no_part_links root fs \<longleftrightarrow>
     (\<forall>p. prefix root p \<and> p \<noteq> [] \<and> suffix ''.unihelm-part'' (last p) \<longrightarrow> no_link fs p)"

lemma write_file_confined:
  assumes "write_file env sp len payload fs = (fs1, r)" "sp_absolute sp = d @ [name]" "canonical_path fs d"
    "prefix root d" "no_part_links root fs"
  shows "confined root fs fs1"
proof -
  let ?temp = "d @ [file_stem name @ ''.unihelm-part'']"
  have temp: "temp_path (sp_absolute sp) = ?temp"
    by (simp add: temp_path_def assms(2))
  have "prefix root ?temp \<and> ?temp \<noteq> [] \<and> suffix ''.unihelm-part'' (last ?temp)"
    using assms(4) by (auto simp: suffix_def)
  then have "no_link fs ?temp"
    using assms(5) unfolding no_part_links_def by blast
  then have "no_link fs q" if "prefix q ?temp" for q
    using that assms(3) by (auto simp: canonical_path_def link_free_def)
  then have direct: "q = ?temp" if "sys_create env ?temp fs = Inr (q, m)" for q m
    using that namei_direct [of "[]" ?temp fs True max_links q] assms(3)
    by (auto simp: sys_create_def canonical_path_def split: sum.splits option.splits fnode.splits)
  have pre: "prefix root ?temp" "prefix root (d @ [name])"
    using assms(4) by auto
  show ?thesis
  proof (cases "sys_create env ?temp fs")
    case (Inl k)
    then show ?thesis using assms(1) temp by (simp add: write_file_def Let_def)
  next
    case (Inr x)
    then obtain m where m: "sys_create env ?temp fs = Inr (?temp, m)"
      using direct by (cases x) auto
    obtain data whole where got: "receive env fs ?temp len payload = (data, whole)" by fastforce
    define fs2 where "fs2 = put fs ?temp (Some (NFile data m))"
    have fs2: "confined root fs fs2" "confined root fs2 (put fs2 ?temp None)"
      using put_confined [OF pre(1)] by (simp_all add: fs2_def)
    show ?thesis
    proof (cases whole)
      case False
      then show ?thesis
        using assms(1) temp m got fs2(1) by (auto simp: write_file_def Let_def fs2_def)
    next
      case True
      show ?thesis
      proof (cases "sys_rename env ?temp (sp_absolute sp) fs2")
        case (Inl k)
        then have "fs1 = put fs2 ?temp None \<or> fs1 = fs2"
          using assms(1) True temp m got by (auto simp: write_file_def Let_def fs2_def split: if_splits)
        then show ?thesis using fs2 confined_trans by blast
      next
        case (Inr fs3)
        then have "fs1 = fs3"
          using assms(1) True temp m got by (simp add: write_file_def Let_def fs2_def)
        moreover have "confined root fs2 fs3"
          using rename_confined [OF Inr pre(1)] pre(2) by (simp add: assms(2))
        ultimately show ?thesis using confined_trans [OF fs2(1)] by simp
      qed
    qed
  qed
qed

lemma append_file_confined:
  "append_file env sp len payload fs = (fs1, r) \<Longrightarrow> prefix root (sp_absolute sp) \<Longrightarrow> confined root fs fs1"
  by (auto simp: append_file_def Let_def put_confined split: option.splits sum.splits if_splits prod.splits)

lemma chmod_confined:
  "prefix root p \<Longrightarrow> confined root fs (fst (chmod_tree env mode recursive n p fs))"
  "prefix root p \<Longrightarrow> confined root fs (chmod_entries env mode es p fs)"
proof (induction env mode recursive n p fs and env mode es p fs rule: chmod_tree_chmod_entries.induct)
  case (3 env mode recursive es m p fs)
  then show ?case
    by (auto simp: Let_def split: option.splits intro: put_confined confined_trans)
next
  case (5 env mode c n es p fs)
  then show ?case
    by (auto split: sum.splits intro: confined_trans)
qed (auto intro: put_confined split: option.splits)

lemma unlink_confined: "prefix root p \<Longrightarrow> confined root fs (fst (sys_unlink env p fs))"
  by (auto simp: sys_unlink_def put_confined split: option.split)

lemma remove_confined:
  "prefix root p \<Longrightarrow> confined root fs (fst (remove_node env n p fs))"
  "prefix root p \<Longrightarrow> confined root fs (fst (remove_entries env es p fs))"
proof (induction env n p fs and env es p fs rule: remove_node_remove_entries.induct)
  case (3 env es m p fs)
  then show ?case
    using unlink_confined [OF "3.prems", of "fst (remove_entries env es p fs)" env]
    by (cases "remove_entries env es p fs") (auto split: option.splits sum.splits intro: confined_trans)
next
  case (5 env c n es p fs)
  then show ?case
    by (cases "remove_node env n (p @ [c]) fs") (auto split: sum.splits intro: confined_trans)
qed (simp_all add: unlink_confined)

text \<open>Copying writes below its destination, as long as nothing below it is a link.\<close>

definition copies_into :: "path \<Rightarrow> fnode \<Rightarrow> copy_item list \<Rightarrow> bool" where
  "copies_into d fs work \<longleftrightarrow> ''..'' \<notin> set d \<and> (\<forall>q. prefix q d \<longrightarrow> no_link fs q) \<and> (\<forall>q. prefix d q \<longrightarrow> no_link fs q)
     \<and> list_all (\<lambda>(_, _, q). prefix d q \<and> ''..'' \<notin> set q) work"

lemma copies_direct:
  assumes "copies_into d fs ((b, p, q) # work)" "sys_create env q fs = Inr (q', m)"
  shows "q' = q"
proof -
  have q: "prefix d q" "''..'' \<notin> set q" and links: "\<forall>r. prefix r d \<longrightarrow> no_link fs r" "\<forall>r. prefix d r \<longrightarrow> no_link fs r"
    using assms(1) by (auto simp: copies_into_def)
  have "no_link fs r" if "prefix r q" for r
    using that q(1) links prefix_same_cases by blast
  then show ?thesis
    using assms(2) namei_direct [of "[]" q fs True max_links q'] q(2)
    by (auto simp: sys_create_def split: sum.splits option.splits fnode.splits)
qed

lemma copy_one_into:
  assumes "copy_one env fs item = (fs1, r)" "copies_into d fs (item # work)"
  shows "confined d fs fs1 \<and> (\<forall>items n. r = Inr (items, n) \<longrightarrow> copies_into d fs1 (items @ work))"
proof -
  obtain b p q where item: "item = (b, p, q)" by (cases item)
  have q: "prefix d q" "''..'' \<notin> set q" and links: "\<forall>r. prefix r d \<longrightarrow> no_link fs r" "\<forall>r. prefix d r \<longrightarrow> no_link fs r"
    using assms(2) by (auto simp: copies_into_def item)
  have direct: "q' = q" if "sys_create env q fs = Inr (q', m)" for q' m
    using that copies_direct [OF assms(2) [unfolded item]] by blast
  have put_ok: "copies_into d (put fs q (Some n)) work" if "\<And>r. no_link n r" for n
    using assms(2) that by (auto simp: copies_into_def no_link_put)
  have file_ok: "copies_into d (put fs q (Some (NFile c m))) work" for c m
    by (rule put_ok) (rule no_link_plain)
  have dir_ok: "copies_into d fs2 work" if "sys_mkdir env q fs = Inr fs2" for fs2
    using that put_ok [OF no_link_plain(2)] by (auto simp: sys_mkdir_def split: option.splits fnode.splits)
  have kids: "copies_into d fs2 (map (\<lambda>c. (False, p @ [c], q @ [c])) (filter (\<lambda>c. is_ok (reject_bad_component c)) cs) @ work)"
    if "copies_into d fs2 work" for fs2 cs
    using that q by (auto simp: copies_into_def list_all_iff is_ok_iff reject_iff dest: good_not_up)
  have keep: "copies_into d fs work" using assms(2) by (simp add: copies_into_def)
  show ?thesis
    using assms(1) direct q(1) file_ok dir_ok kids keep
    by (auto simp: copy_one_def item split: sum.splits fnode.splits option.splits if_splits prod.splits
        intro: put_confined mkdir_confined)
qed

lemma copy_loop_confined:
  assumes "copy_loop env fs work acc = Some y" "copies_into d fs work"
  shows "confined d fs (fst y)"
proof -
  have "copies_into d fs work \<longrightarrow> confined d fs (fst y)"
  proof (rule copy_loop.raw_induct [OF _ assms(1)])
    fix loop env fs work acc y
    assume again: "\<And>env fs work acc y. loop env fs work acc = Some y \<Longrightarrow> copies_into d fs work \<longrightarrow> confined d fs (fst y)"
      and run: "(case work of [] \<Rightarrow> Some (fs, Inr acc)
        | item # rest \<Rightarrow> (case copy_one env fs item of (fs1, Inl e) \<Rightarrow> Some (fs1, Inl e)
            | (fs1, Inr (items, n)) \<Rightarrow> loop env fs1 (items @ rest) (acc + n))) = Some y"
    show "copies_into d fs work \<longrightarrow> confined d fs (fst y)"
    proof (intro impI, cases work)
      case Nil
      then show "confined d fs (fst y)" using run by auto
    next
      case (Cons item rest)
      assume into_work: "copies_into d fs work"
      obtain fs1 r where one: "copy_one env fs item = (fs1, r)" by fastforce
      note into = copy_one_into [OF one into_work [unfolded Cons]]
      show "confined d fs (fst y)"
      proof (cases r)
        case (Inl e)
        then show ?thesis using run Cons one into by auto
      next
        case (Inr x)
        then obtain items n where x: "r = Inr (items, n)" by (cases x) auto
        then have "loop env fs1 (items @ rest) (acc + n) = Some y"
          using run Cons one by simp
        from again [OF this] into x show ?thesis using confined_trans by blast
      qed
    qed
  qed
  then show ?thesis using assms(2) by simp
qed

lemma copy_loop_Nil: "copy_loop env fs [] acc = Some (fs, Inr acc)"
  by (subst copy_loop.simps) simp

lemma copy_loop_Cons:
  "copy_loop env fs (item # rest) acc =
     (case copy_one env fs item of
        (fs1, Inl e) \<Rightarrow> Some (fs1, Inl e)
      | (fs1, Inr (items, n)) \<Rightarrow> copy_loop env fs1 (items @ rest) (acc + n))"
  by (subst copy_loop.simps) simp

lemma two_paths_Inr:
  assumes "two_paths env home source dest fs = Inr (s, d)" "is_dir fs" "home_root env home fs = Inr root"
  shows "resolved fs (sp_absolute root) s
    \<and> (\<exists>p name. sp_absolute d = p @ [name] \<and> canonical_path fs p \<and> prefix (sp_absolute root) p \<and> name \<noteq> ''..''
        \<and> (fe_deny env fs (p @ [name]) = None \<longrightarrow> no_link fs (p @ [name])))
    \<and> \<not> path_exists env (sp_absolute d) fs"
proof -
  obtain dir name where d: "resolve env home source fs = Inr s" "resolve_new env home dest fs = Inr (dir, name)"
      "join_entry dir name = Inr d" "\<not> path_exists env (sp_absolute d) fs"
    using assms(1) by (auto simp: two_paths_def result_simps split: if_splits)
  have "resolved fs (sp_absolute root) s"
    using resolve_resolved [OF d(1) assms(2)] assms(3) by auto
  moreover have dir: "resolved fs (sp_absolute root) dir" "good_name name"
      "fe_deny env fs (sp_absolute dir @ [name]) = None \<longrightarrow> no_link fs (sp_absolute dir @ [name])"
    using resolve_new_resolved [OF d(2) assms(2)] assms(3) by auto
  ultimately show ?thesis
    using d(3,4) by (auto simp: join_entry_Inr resolved_def good_name_def)
qed

text \<open>
  What a copy may run into when it starts: nothing at its destination, or a refusal. A name that \<open>lstat\<close>
  was refused is refused again.
\<close>

lemma denied_calls:
  assumes "fe_deny env fs q = Some k"
  shows "sys_create env q fs = Inl k" "sys_mkdir env q fs = Inl k"
  using assms by (simp_all add: sys_create_def sys_mkdir_def)

lemma denied_copy:
  assumes "fe_deny env fs q = Some k"
  shows "(\<exists>e. copy_one env fs (b, s, q) = (fs, Inl e)) \<or> copy_one env fs (b, s, q) = (fs, Inr ([], 0))"
  using denied_calls [OF assms] by (auto simp: copy_one_def split: sum.splits fnode.splits option.splits)

lemma fresh_copy:
  assumes "canonical_path fs p" "name \<noteq> ''..''" "fe_deny env fs (p @ [name]) = None \<longrightarrow> no_link fs (p @ [name])"
    "\<not> path_exists env (p @ [name]) fs"
  shows "lookup fs (p @ [name]) = None \<and> copies_into (p @ [name]) fs [(b, s, p @ [name])]
    \<or> (\<exists>e. copy_one env fs (b, s, p @ [name]) = (fs, Inl e)) \<or> copy_one env fs (b, s, p @ [name]) = (fs, Inr ([], 0))"
proof (cases "lookup fs (p @ [name])")
  case None
  then have "no_link fs (p @ [name])" by (simp add: no_link_def)
  then have "no_link fs q" if "prefix q (p @ [name])" for q
    using that assms(1) by (auto simp: canonical_path_def link_free_def)
  moreover have "no_link fs q" if "prefix (p @ [name]) q" for q
  proof -
    from that obtain r where "q = (p @ [name]) @ r" by (auto simp: prefix_def)
    then have "lookup fs q = None" by (simp only: lookup_append [of fs "p @ [name]"] None) simp
    then show ?thesis by (simp add: no_link_def)
  qed
  ultimately show ?thesis
    using None assms(1,2) by (auto simp: copies_into_def canonical_path_def)
next
  case (Some n)
  show ?thesis
  proof (cases "fe_deny env fs (p @ [name])")
    case None
    then have "canonical_path fs (p @ [name])"
      using canonical_snoc [OF assms(1) Some _ assms(2)] assms(3) Some by (auto simp: no_link_def)
    then show ?thesis
      using assms(4) canonical_namei None by (simp add: path_exists_def)
  qed (use denied_copy in blast)
qed

lemma copy_tree_confined:
  assumes "copy_tree env s d fs = Some y" "sp_absolute d = p @ [name]" "canonical_path fs p" "name \<noteq> ''..''"
    "fe_deny env fs (p @ [name]) = None \<longrightarrow> no_link fs (p @ [name])" "\<not> path_exists env (p @ [name]) fs" "prefix root p"
  shows "confined root fs (fst y)"
proof -
  have run: "copy_loop env fs [(True, sp_absolute s, p @ [name])] 0 = Some y"
    using assms(1,2) by (simp add: copy_tree_def)
  have "confined (p @ [name]) fs (fst y) \<or> fst y = fs"
    using fresh_copy [OF assms(3-6), of True "sp_absolute s"]
  proof (elim disjE exE conjE)
    assume "copies_into (p @ [name]) fs [(True, sp_absolute s, p @ [name])]"
    then show ?thesis using copy_loop_confined [OF run] by blast
  qed (use run in \<open>auto simp: copy_loop_Cons copy_loop_Nil\<close>)
  moreover have "prefix root (p @ [name])" using assms(7) by simp
  ultimately show ?thesis
    unfolding confined_def using prefix_order.trans by blast
qed

lemma no_part_links_extends: "extends fs fs1 \<Longrightarrow> no_part_links root fs \<Longrightarrow> no_part_links root fs1"
  by (simp add: no_part_links_def extends_def)

lemma serve_write_confined:
  assumes "serve_write env home p len parents appending payload fs = (fs2, r)" "home_root env home fs = Inr root"
    "is_dir fs" "no_part_links (sp_absolute root) fs"
  shows "confined (sp_absolute root) fs fs2"
proof -
  obtain fs1 found where found: "(if parents then make_parents env home p fs else (fs, resolve_new env home p fs)) = (fs1, found)"
    by fastforce
  have made: "extends fs fs1" "confined (sp_absolute root) fs fs1"
      "found = Inr (sp, name) \<Longrightarrow> resolved fs1 (sp_absolute root) sp" for sp name
    using found make_parents_ok [OF _ assms(3)] resolve_new_resolved [OF _ assms(3)] assms(2)
    by (fastforce split: if_splits)+
  show ?thesis
  proof (cases "\<exists>dir name target. found = Inr (dir, name) \<and> join_entry dir name = Inr target")
    case True
    then obtain dir name target where t: "found = Inr (dir, name)" "join_entry dir name = Inr target" by blast
    then have at: "sp_absolute target = sp_absolute dir @ [name]" by (simp add: join_entry_Inr)
    have dir: "canonical_path fs1 (sp_absolute dir)" "prefix (sp_absolute root) (sp_absolute dir)"
      using made(3) [OF t(1)] by (auto simp: resolved_def)
    have pre: "prefix (sp_absolute root) (sp_absolute target)" using dir(2) at by simp
    obtain r' where "(if appending then append_file env target len payload fs1 else write_file env target len payload fs1) = (fs2, r')"
      using assms(1) found t by (auto simp: serve_write_def split: prod.splits)
    then have "confined (sp_absolute root) fs1 fs2"
      using append_file_confined [OF _ pre] write_file_confined [OF _ at dir]
        no_part_links_extends [OF made(1) assms(4)] by (auto split: if_splits)
    then show ?thesis using made(2) confined_trans by blast
  next
    case False
    then have "fs2 = fs1"
      using assms(1) found by (auto simp: serve_write_def split: sum.splits prod.splits)
    then show ?thesis using made(2) by simp
  qed
qed

lemma serve_mkdir_confined:
  assumes "serve_mkdir env home p fs = (fs1, x)" "home_root env home fs = Inr root" "is_dir fs"
  shows "confined (sp_absolute root) fs fs1"
proof (cases "r_bind (resolve_new env home p fs) (\<lambda>(dir, name). join_entry dir name)")
  case (Inr target)
  then obtain dir name where "resolve_new env home p fs = Inr (dir, name)" "join_entry dir name = Inr target"
    by (auto simp: result_simps)
  then have "prefix (sp_absolute root) (sp_absolute target)"
    using resolve_new_resolved [of env home p fs dir name] assms(2,3) by (auto simp: join_entry_Inr resolved_def)
  with assms(1) Inr show ?thesis
    by (auto simp: serve_mkdir_def mkdir_confined split: sum.splits)
qed (use assms(1) in \<open>auto simp: serve_mkdir_def\<close>)

lemma serve_rename_confined:
  assumes "serve_rename env home a b fs = (fs1, x)" "home_root env home fs = Inr root" "is_dir fs"
  shows "confined (sp_absolute root) fs fs1"
proof (cases "two_paths env home a b fs")
  case (Inr sd)
  then obtain s d where sd: "two_paths env home a b fs = Inr (s, d)" by (cases sd) auto
  with assms(1) two_paths_Inr [OF sd assms(3,2)] show ?thesis
    by (auto simp: serve_rename_def resolved_def intro: rename_confined split: sum.splits)
qed (use assms(1) in \<open>auto simp: serve_rename_def\<close>)

lemma serve_copy_confined:
  assumes "serve_copy env home a b fs = Some (fs1, x)" "home_root env home fs = Inr root" "is_dir fs"
  shows "confined (sp_absolute root) fs fs1"
proof (cases "two_paths env home a b fs")
  case (Inr sd)
  then obtain s d where sd: "two_paths env home a b fs = Inr (s, d)" by (cases sd) auto
  with assms(1) obtain y where y: "copy_tree env s d fs = Some y" "fst y = fs1"
    by (auto simp: serve_copy_def)
  from two_paths_Inr [OF sd assms(3,2)] copy_tree_confined [OF y(1)] show ?thesis
    by (auto simp: y(2))
qed (use assms(1) in \<open>auto simp: serve_copy_def\<close>)

lemma resolve_prefix:
  "resolve env home p fs = Inr sp \<Longrightarrow> is_dir fs \<Longrightarrow> home_root env home fs = Inr root \<Longrightarrow> prefix (sp_absolute root) (sp_absolute sp)"
  using resolve_resolved by (fastforce simp: resolved_def)

lemma serve_remove_confined:
  assumes "serve_remove env home p fs = (fs1, x)" "home_root env home fs = Inr root" "is_dir fs"
  shows "confined (sp_absolute root) fs fs1"
proof (cases "resolve env home p fs")
  case (Inr target)
  with assms(1) resolve_prefix [OF Inr assms(3,2)] show ?thesis
    by (auto simp: serve_remove_def remove_tree_def Let_def split: sum.splits if_splits prod.splits)
      (metis remove_confined(1) fst_conv)
qed (use assms(1) in \<open>auto simp: serve_remove_def\<close>)

lemma serve_chmod_confined:
  assumes "serve_chmod env home p mode recursive fs = (fs1, x)" "home_root env home fs = Inr root" "is_dir fs"
  shows "confined (sp_absolute root) fs fs1"
proof (cases "resolve env home p fs")
  case (Inr target)
  note walk = chmod_confined(1) [OF resolve_prefix [OF Inr assms(3,2)]]
  show ?thesis
  proof (cases "safe_mode mode")
    case mode: (Inr m)
    show ?thesis
    proof (cases "symlink_metadata env (sp_absolute target) fs")
      case n: (Inr n)
      have "fs1 = fst (chmod_tree env m recursive n (sp_absolute target) fs)"
        using assms(1) Inr mode n by (simp add: serve_chmod_def split: prod.splits)
      then show ?thesis using walk by simp
    qed (use assms(1) Inr mode in \<open>auto simp: serve_chmod_def\<close>)
  qed (use assms(1) Inr in \<open>auto simp: serve_chmod_def\<close>)
qed (use assms(1) in \<open>auto simp: serve_chmod_def\<close>)

section \<open>Copying ends, or does not\<close>

definition allows_all :: "fs_env \<Rightarrow> bool" where
  "allows_all env \<longleftrightarrow> (\<forall>fs p. fe_deny env fs p = None) \<and> (\<forall>call fs p. fe_forbid env call fs p = None) \<and> (\<forall>fs p. fe_room env fs p = None)"

lemma allowed:
  assumes "allows_all env"
  shows "fe_deny env fs p = None" "fe_forbid env call fs p = None" "fe_room env fs p = None" "refuses env call fs p = None"
  using assms by (simp_all add: allows_all_def refuses_def)

definition item_weight :: "fnode \<Rightarrow> copy_item \<Rightarrow> nat" where
  "item_weight fs item = (case item of (_, p, _) \<Rightarrow> weight_at fs p)"

lemma put_entry:
  "lookup fs p = Some (NDir [] m) \<Longrightarrow> lookup (put fs (p @ [c]) (Some n)) p = Some (NDir [(c, n)] m)"
proof (induction p arbitrary: fs)
  case (Cons d p)
  then show ?case
    by (cases fs; cases p) (auto simp: update_conv' split: option.splits)
qed simp

text \<open>One step of a copy whose destination is apart from its source leaves less to copy.\<close>

lemma copy_one_lighter:
  assumes "copy_one env fs (b, p, q) = (fs1, Inr (items, n))" "copies_into d fs ((b, p, q) # work)"
    "prefix s p" "\<not> prefix s d" "\<not> prefix d s"
  shows "sum_list (map (item_weight fs1) items) < item_weight fs (b, p, q)
    \<and> (\<forall>r. prefix s r \<longrightarrow> lookup fs1 r = lookup fs r) \<and> list_all (\<lambda>(_, r, _). prefix s r) items"
proof -
  have same: "lookup (put fs q' x) r = lookup fs r" if "prefix s r" "prefix d q'" for q' x r
    using that assms(4,5) by (intro lookup_put_other) (auto intro: prefix_order.trans dest: prefix_same_cases)
  have q: "prefix d q" using assms(2) by (simp add: copies_into_def)
  have direct: "q' = q" if "sys_create env q fs = Inr (q', m)" for q' m
    using that copies_direct [OF assms(2)] by blast
  show ?thesis
  proof (cases "lookup fs p")
    case None
    then show ?thesis using assms(1) by (auto simp: copy_one_def symlink_metadata_def split: option.splits)
  next
    case (Some x)
    show ?thesis
    proof (cases x)
      case (NDir es m)
      then obtain fs2 where fs2: "sys_mkdir env q fs = Inr fs2"
        using assms(1) Some by (auto simp: copy_one_def symlink_metadata_def split: option.splits sum.splits)
      then obtain y where y: "fs2 = put fs q y" by (auto simp: sys_mkdir_def split: option.splits fnode.splits)
      have keep: "lookup fs2 r = lookup fs r" if "prefix s r" for r
        using same [OF that q] by (simp add: y)
      have "lookup fs2 p = Some (NDir es m)" using keep [OF assms(3)] Some NDir by simp
      then have out: "fs1 = fs2" "items = map (\<lambda>c. (False, p @ [c], q @ [c])) (filter (\<lambda>c. is_ok (reject_bad_component c)) (dir_names es))"
        using assms(1) Some NDir fs2 by (auto simp: copy_one_def symlink_metadata_def split: option.splits)
      have "item_weight fs1 (False, p @ [c], q @ [c]) = weight (the (map_of es c))" if "c \<in> set (dir_names es)" for c
        using that lookup_child [OF \<open>lookup fs2 p = Some (NDir es m)\<close>, of c]
        by (auto simp: item_weight_def weight_at_def out(1) dir_names_def dest: weak_map_of_SomeI split: option.splits)
      then have "map (item_weight fs1) items = map (\<lambda>c. weight (the (map_of es c))) (filter (\<lambda>c. is_ok (reject_bad_component c)) (dir_names es))"
        by (simp add: out(2))
      then have "sum_list (map (item_weight fs1) items) < item_weight fs (b, p, q)"
        using entries_weight [of es "\<lambda>c. is_ok (reject_bad_component c)"] Some NDir by (simp add: item_weight_def weight_at_def)
      then show ?thesis using keep out assms(3) by (auto simp: list_all_iff)
    qed (use assms(1,3) Some same [OF _ q] direct in
        \<open>auto simp: copy_one_def symlink_metadata_def item_weight_def weight_at_def split: option.splits sum.splits if_splits prod.splits\<close>)
  qed
qed

lemma copy_loop_returns:
  "copies_into d fs work \<Longrightarrow> list_all (\<lambda>(_, p, _). prefix s p) work \<Longrightarrow> \<not> prefix s d \<Longrightarrow> \<not> prefix d s
    \<Longrightarrow> \<exists>y. copy_loop env fs work acc = Some y"
proof (induction "sum_list (map (item_weight fs) work)" arbitrary: fs work acc rule: less_induct)
  case less
  show ?case
  proof (cases work)
    case (Cons item rest)
    obtain b p q where item: "item = (b, p, q)" by (cases item)
    obtain fs1 r where one: "copy_one env fs item = (fs1, r)" by fastforce
    show ?thesis
    proof (cases r)
      case (Inr x)
      then obtain items n where x: "r = Inr (items, n)" by (cases x) auto
      have into: "copies_into d fs1 (items @ rest)"
        using copy_one_into [OF one] less.prems(1) Cons x by blast
      have pre: "prefix s p" "list_all (\<lambda>(_, p, _). prefix s p) rest" using less.prems(2) Cons item by simp_all
      note lighter = copy_one_lighter [OF one [unfolded item x] less.prems(1) [unfolded Cons item] pre(1) less.prems(3,4)]
      have "map (item_weight fs1) rest = map (item_weight fs) rest"
        using lighter pre(2) by (auto simp: list_all_iff item_weight_def weight_at_def)
      then have "sum_list (map (item_weight fs1) (items @ rest)) < sum_list (map (item_weight fs) work)"
        using lighter Cons item by (simp del: map_eq_conv)
      from less.hyps [OF this into _ less.prems(3,4)] lighter pre(2) show ?thesis
        using one x by (simp add: Cons copy_loop_Cons)
    qed (simp add: Cons copy_loop_Cons one)
  qed (simp add: copy_loop_Nil)
qed

text \<open>A copy into a directory's own new entry finds that entry when it lists the directory.\<close>

lemma copy_one_descends:
  assumes "lookup fs p = Some (NDir [] m)" "good_name c" "allows_all env"
  shows "\<exists>fs1. copy_one env fs (b, p, p @ [c]) = (fs1, Inr ([(False, p @ [c], p @ [c, c])], 0))
    \<and> lookup fs1 (p @ [c]) = Some (NDir [] (fe_dir_mode env))"
proof -
  let ?fs1 = "put fs (p @ [c]) (Some (NDir [] (fe_dir_mode env)))"
  have child: "lookup ?fs1 (p @ [c]) = Some (NDir [] (fe_dir_mode env))"
    using lookup_put_same [of fs "p @ [c]" "[]" m "Some (NDir [] (fe_dir_mode env))" "[]"] assms(1) by simp
  have "lookup ?fs1 p = Some (NDir [(c, NDir [] (fe_dir_mode env))] m)"
    using assms(1) by (rule put_entry)
  moreover have "sys_mkdir env (p @ [c]) fs = Inr ?fs1"
    using assms by (simp add: sys_mkdir_def lookup_append allowed)
  ultimately show ?thesis
    using assms child
    by (simp add: allowed copy_one_def symlink_metadata_def dir_names_def is_ok_iff reject_iff)
qed

lemma copy_loop_descends:
  assumes "copy_loop env fs work acc = Some y" "good_name c" "allows_all env"
    "work = [(b, p, p @ [c])]" "lookup fs p = Some (NDir [] m)"
  shows False
proof -
  have "(\<exists>b p m. work = [(b, p, p @ [c])] \<and> lookup fs p = Some (NDir [] m)) \<longrightarrow> allows_all env \<longrightarrow> False"
  proof (rule copy_loop.raw_induct [OF _ assms(1)], intro impI, elim exE conjE)
    fix loop env fs work acc y b p m
    assume again: "\<And>env fs work acc y. loop env fs work acc = Some y \<Longrightarrow>
        (\<exists>b p m. work = [(b, p, p @ [c])] \<and> lookup fs p = Some (NDir [] m)) \<longrightarrow> allows_all env \<longrightarrow> False"
      and run: "(case work of [] \<Rightarrow> Some (fs, Inr acc)
        | item # rest \<Rightarrow> (case copy_one env fs item of (fs1, Inl e) \<Rightarrow> Some (fs1, Inl e)
            | (fs1, Inr (items, n)) \<Rightarrow> loop env fs1 (items @ rest) (acc + n))) = Some y"
      and at: "work = [(b, p, p @ [c])]" "lookup fs p = Some (NDir [] m)" "allows_all env"
    obtain fs1 where fs1: "copy_one env fs (b, p, p @ [c]) = (fs1, Inr ([(False, p @ [c], p @ [c, c])], 0))"
        "lookup fs1 (p @ [c]) = Some (NDir [] (fe_dir_mode env))"
      using copy_one_descends [OF at(2) assms(2)] at(3) by blast
    then have "loop env fs1 [(False, p @ [c], (p @ [c]) @ [c])] acc = Some y"
      using run at(1) by simp
    from again [OF this] fs1(2) at(3) show False by blast
  qed
  then show ?thesis using assms(3-5) by blast
qed

section \<open>Writing through a link\<close>

lemma file_above:
  "lookup fs q = Some (NFile c m) \<Longrightarrow> prefix q r \<Longrightarrow> lookup fs r = Some n \<Longrightarrow> r = q"
  by (auto simp: prefix_def lookup_append elim: lookup.elims)

lemma lookup_put_file:
  "lookup fs q = Some (NFile c m) \<Longrightarrow> is_dir fs \<Longrightarrow> lookup (put fs q (Some n)) q = Some n"
  using lookup_below [of fs "butlast q" "last q" "[]"] lookup_put_same [of fs q _ _ "Some n" "[]"]
  by (cases "q = []") auto

lemma write_through_link:
  assumes "is_dir fs" "lookup fs (temp_path (d @ [name])) = Some (NLink t)"
    "sys_create env (temp_path (d @ [name])) fs = Inr (q, m)" "lookup fs q = Some (NFile old m)"
    "lookup fs (d @ [name]) = Some (NFile c m')" "len \<le> length payload" "allows_all env"
    "temp_path (d @ [name]) \<noteq> d @ [name]"
    "\<not> prefix (temp_path (d @ [name])) q" "\<not> prefix (d @ [name]) q" "\<not> prefix q (temp_path (d @ [name]))"
    "\<not> prefix q (d @ [name])"
  shows "\<exists>fs1. write_file env \<lparr>sp_absolute = d @ [name], sp_relative = rel\<rparr> len payload fs = (fs1, Inr ())
    \<and> lookup fs1 q = Some (NFile (take len payload) m) \<and> lookup fs1 (d @ [name]) = Some (NLink t)"
proof -
  let ?p = "d @ [name]" and ?temp = "temp_path (d @ [name])"
  define fs1 where "fs1 = put fs q (Some (NFile (take len payload) m))"
  define fs2 where "fs2 = put fs1 ?temp None"
  define fs3 where "fs3 = put fs2 ?p (Some (NLink t))"
  have one: "lookup fs1 q = Some (NFile (take len payload) m)" "lookup fs1 ?temp = Some (NLink t)"
      "lookup fs1 ?p = Some (NFile c m')"
    using assms(2,5,9-12) lookup_put_file [OF assms(4,1)] by (simp_all add: fs1_def lookup_put_other)
  have apart: "\<not> prefix ?temp ?p" "\<not> prefix ?temp d"
    using assms(8) by (auto simp: temp_path_def dest: prefix_length_le)
  then have "sys_rename env ?temp ?p fs1 = Inr fs3"
    using one assms(7) by (simp add: sys_rename_def fs2_def fs3_def allowed)
  moreover have "lookup fs3 q = Some (NFile (take len payload) m)"
    using one(1) assms(9-12) by (simp add: fs3_def fs2_def lookup_put_other)
  moreover obtain es dm where "lookup fs1 d = Some (NDir es dm)"
    using lookup_below [of fs1 d name "[]"] one(3) by auto
  then have "label_at fs2 d = Some (LDir dm)"
    using label_put_other [OF apart(2)] by (simp add: fs2_def label_at_def)
  then obtain es' where "lookup fs2 d = Some (NDir es' dm)"
    by (auto simp: label_at_def elim!: label_of.elims)
  then have "lookup fs3 ?p = Some (NLink t)"
    using lookup_put_same [of fs2 ?p es' dm "Some (NLink t)" "[]"] by (simp add: fs3_def)
  ultimately show ?thesis
    using assms(3,6,7) by (simp add: write_file_def receive_def allowed fs1_def Let_def)
qed

section \<open>Modes\<close>

lemma special_bits_are_high: "(mode :: u32) AND NOT 0x1FF = 0 \<Longrightarrow> mode AND 0xE00 = 0"
proof -
  assume a: "mode AND NOT 0x1FF = 0"
  have "(0xE00 :: u32) AND NOT 0x1FF = 0xE00" by simp
  then have "mode AND 0xE00 = (mode AND NOT 0x1FF) AND 0xE00" by (metis and.assoc and.commute)
  then show ?thesis using a by simp
qed

lemma permission_bits: "(mode :: u32) AND NOT 0x1FF = 0 \<longleftrightarrow> unat mode < 512"
proof -
  have m: "(0x1FF :: u32) = mask 9" by (simp add: mask_eq_exp_minus_1)
  have "mode AND NOT (mask 9) = 0 \<longleftrightarrow> take_bit 9 mode = mode"
    by (auto simp: bit_eq_iff bit_simps)
  also have "\<dots> \<longleftrightarrow> unat (take_bit 9 mode) = unat mode" by (simp add: word_unat_eq_iff)
  also have "\<dots> \<longleftrightarrow> unat mode < 512"
    by (simp add: unsigned_take_bit_eq take_bit_nat_eq_self_iff)
  finally show ?thesis by (simp add: m)
qed

section \<open>Theorems\<close>

text \<open>C34: A path the helper has resolved is a path of existing entries below the home, none of them a link, and the kernel, resolving it again for the system call that follows, arrives exactly there whatever its limits.\<close>

theorem resolved_path_is_what_the_kernel_opens:
  assumes "resolve env home p fs = Inr sp" "is_dir fs"
  shows "(\<exists>root. home_root env home fs = Inr root \<and> sp_absolute sp = sp_absolute root @ sp_relative sp)
    \<and> namei create fs k [] (sp_absolute sp) = Inr (sp_absolute sp)
    \<and> (\<exists>n. lookup fs (sp_absolute sp) = Some n \<and> \<not> is_link n)"
proof -
  obtain root where "home_root env home fs = Inr root" "resolved fs (sp_absolute root) sp"
    using resolve_resolved [OF assms] by blast
  then show ?thesis
    using canonical_namei by (auto simp: resolved_def canonical_path_def link_free_def no_link_def)
qed

text \<open>C9: Whatever a tenant asks the file helper, nothing outside the tenant's home is created, removed or changed, as long as no name ending in \<open>.unihelm-part\<close> below the home is a symbolic link when a file is replaced. What the kernel refuses, and where a write fails half way, is arbitrary.\<close>

theorem requests_stay_in_the_home:
  assumes "fs_dispatch lower env home rq payload fs = Some (fs1, r)" "home_root env home fs = Inr root"
    "is_dir fs" "no_part_links (sp_absolute root) fs"
  shows "confined (sp_absolute root) fs fs1"
proof (cases rq)
  case (FrWrite p len parents appending)
  then have "\<exists>x. serve_write env home p len parents appending payload fs = (fs1, x)"
    using assms(1) by (auto split: prod.splits)
  then show ?thesis using serve_write_confined assms(2-4) by blast
next
  case (FrMkdir p)
  then have "\<exists>x. serve_mkdir env home p fs = (fs1, x)" using assms(1) by (auto split: prod.splits)
  then show ?thesis using serve_mkdir_confined assms(2,3) by blast
next
  case (FrRename a b)
  then have "\<exists>x. serve_rename env home a b fs = (fs1, x)" using assms(1) by (auto split: prod.splits)
  then show ?thesis using serve_rename_confined assms(2,3) by blast
next
  case (FrCopy a b)
  then have "\<exists>x. serve_copy env home a b fs = Some (fs1, x)" using assms(1) by auto
  then show ?thesis using serve_copy_confined assms(2,3) by blast
next
  case (FrRemove p)
  then have "\<exists>x. serve_remove env home p fs = (fs1, x)" using assms(1) by (auto split: prod.splits)
  then show ?thesis using serve_remove_confined assms(2,3) by blast
next
  case (FrChmod p mode recursive)
  then have "\<exists>x. serve_chmod env home p mode recursive fs = (fs1, x)" using assms(1) by (auto split: prod.splits)
  then show ?thesis using serve_chmod_confined assms(2,3) by blast
qed (use assms(1) in auto)


text \<open>C10: A copy ends: whenever the destination does not lie below the source, the helper answers, whatever the tree, whatever the kernel refuses on the way, and wherever a write fails.\<close>

theorem copy_returns:
  assumes "is_dir fs" "home_root env home fs = Inr root"
    "two_paths env home source dest fs = Inr (s, d)" "\<not> prefix (sp_absolute s) (sp_absolute d)"
  shows "\<exists>y. serve_copy env home source dest fs = Some y"
proof -
  obtain p name where d: "sp_absolute d = p @ [name]" "canonical_path fs p" "name \<noteq> ''..''"
      "fe_deny env fs (p @ [name]) = None \<longrightarrow> no_link fs (p @ [name])"
    using two_paths_Inr [OF assms(3,1,2)] by (elim conjE exE)
  have free: "\<not> path_exists env (p @ [name]) fs" and s: "resolved fs (sp_absolute root) s"
    using two_paths_Inr [OF assms(3,1,2)] d(1) by auto
  have "\<exists>y. copy_loop env fs [(True, sp_absolute s, p @ [name])] 0 = Some y"
    using fresh_copy [OF d(2-4) free, of True "sp_absolute s"]
  proof (elim disjE exE conjE)
    assume into: "copies_into (p @ [name]) fs [(True, sp_absolute s, p @ [name])]"
      and none: "lookup fs (p @ [name]) = None"
    obtain n where "lookup fs (sp_absolute s) = Some n"
      using s by (auto simp: resolved_def canonical_path_def)
    then have "\<not> prefix (p @ [name]) (sp_absolute s)"
      using none by (auto simp: prefix_def lookup_append simp del: append_assoc)
    then show ?thesis
      using copy_loop_returns [OF into, of "sp_absolute s"] assms(4) d(1) by simp
  qed (simp_all add: copy_loop_Cons copy_loop_Nil)
  then show ?thesis
    using assms(3) d(1) by (auto simp: serve_copy_def copy_tree_def)
qed

text \<open>A directory copied into itself never ends: an empty directory and a new name inside it are enough, and the loop goes one directory deeper at every turn.\<close>

theorem copy_into_itself_never_returns:
  assumes "two_paths env home source dest fs = Inr (s, d)" "sp_absolute d = sp_absolute s @ [c]" "good_name c"
    "lookup fs (sp_absolute s) = Some (NDir [] m)" "allows_all env"
  shows "serve_copy env home source dest fs = None"
proof -
  have "lookup fs (sp_absolute s @ [c]) = None"
    using assms(4) by (simp add: lookup_append)
  then have "copy_loop env fs [(True, sp_absolute s, sp_absolute s @ [c])] 0 \<noteq> Some y" for y
    using copy_loop_descends [OF _ assms(3,5)] assms(4) by blast
  then have "copy_loop env fs [(True, sp_absolute s, sp_absolute s @ [c])] 0 = None"
    by (cases "copy_loop env fs [(True, sp_absolute s, sp_absolute s @ [c])] 0") blast+
  then show ?thesis
    using assms(1,2) by (simp add: serve_copy_def copy_tree_def)
qed

text \<open>A link planted under the name of the temporary file takes a write out of the home: the helper, asked to replace a file of the home, writes the payload to the file the link points to, reports success, and leaves the link in the place of the file.\<close>

theorem planted_part_link_redirects_a_write:
  assumes "resolve_new env home p fs = Inr (dir, name)" "is_dir fs" "home_root env home fs = Inr root"
    "lookup fs (temp_path (sp_absolute dir @ [name])) = Some (NLink t)" "temp_path [name] \<noteq> [name]"
    "sys_create env (temp_path (sp_absolute dir @ [name])) fs = Inr (q, m)" "\<not> prefix (sp_absolute root) q"
    "lookup fs q = Some (NFile old m)" "lookup fs (sp_absolute dir @ [name]) = Some (NFile c m')"
    "len \<le> length payload" "allows_all env"
  shows "\<exists>fs1. fs_dispatch lower env home (FrWrite p len False False) payload fs = Some (fs1, Inr (FdDone, []))
    \<and> lookup fs1 q = Some (NFile (take len payload) m) \<and> lookup fs1 (sp_absolute dir @ [name]) = Some (NLink t)"
proof -
  let ?p = "sp_absolute dir @ [name]" and ?temp = "temp_path (sp_absolute dir @ [name])"
  have "prefix (sp_absolute root) (sp_absolute dir)" "good_name name"
    using resolve_new_resolved [OF assms(1,2)] assms(3) by (auto simp: resolved_def)
  then have off: "\<not> prefix ?temp q" "\<not> prefix ?p q" "\<not> prefix q ?temp" "\<not> prefix q ?p"
    using assms(7) file_above [OF assms(8) _ assms(4)] file_above [OF assms(8) _ assms(9)]
    by (auto simp: temp_path_def dest: append_prefixD prefix_order.trans)
  obtain fs1 where "write_file env \<lparr>sp_absolute = ?p, sp_relative = sp_relative dir @ [name]\<rparr> len payload fs = (fs1, Inr ())"
      "lookup fs1 q = Some (NFile (take len payload) m)" "lookup fs1 ?p = Some (NLink t)"
    using write_through_link [OF assms(2,4,6,8,9,10,11) _ off] assms(5) by (auto simp: temp_path_def)
  then show ?thesis
    using assms(1) \<open>good_name name\<close> by (simp add: serve_write_def join_entry_Inr [THEN iffD2] reply_def)
qed

text \<open>A mode the file manager sets is its nine permission bits and nothing else: \<open>safe_mode\<close> accepts exactly the modes below \<open>0o1000\<close>, unchanged.\<close>

theorem only_permission_bits: "safe_mode mode = Inr m \<longleftrightarrow> m = mode \<and> unat mode < 512"
  using special_bits_are_high [of mode] permission_bits [of mode] by (auto simp: safe_mode_def)

section \<open>Witnesses\<close>

text \<open>Two homes' worth of a tree: a file beside a planted link, an empty directory, and \<open>/etc/x\<close>.\<close>

definition tree_env :: fs_env where
  "tree_env = \<lparr>fe_deny = \<lambda>_ _. None, fe_forbid = \<lambda>_ _ _. None, fe_room = \<lambda>_ _. None, fe_text = \<lambda>_. ''refused'', fe_file_mode = 0x1A4, fe_dir_mode = 0x1ED, fe_blocks = \<lambda>_. 8\<rparr>"

definition sample_home :: "(str \<times> fnode) list \<Rightarrow> fnode" where
  "sample_home es = NDir [(''h'', NDir ([(''a.t'', NFile ''ab'' 0x1A4), (''d'', NDir [] 0x1ED)] @ es) 0x1ED),
     (''e'', NDir [(''x'', NFile ''root'' 0x1A4)] 0x1ED)] 0x1ED"

definition planted :: "(str \<times> fnode) list" where
  "planted = [(''a.unihelm-part'', NLink ''/e/x'')]"

lemma sample_allows: "allows_all tree_env"
  by (simp add: allows_all_def tree_env_def)

lemma sample_facts:
  "is_dir (sample_home es)"
  "home_root tree_env ''/h'' (sample_home []) = Inr \<lparr>sp_absolute = [''h''], sp_relative = []\<rparr>"
  by (simp add: sample_home_def, code_simp)

lemma resolved_path_is_what_the_kernel_opens_witness:
  "\<exists>sp. resolve tree_env ''/h'' ''a.t'' (sample_home planted) = Inr sp
     \<and> namei False (sample_home planted) 0 [] (sp_absolute sp) = Inr (sp_absolute sp)"
proof -
  have "resolve tree_env ''/h'' ''a.t'' (sample_home planted) = Inr \<lparr>sp_absolute = [''h'', ''a.t''], sp_relative = [''a.t'']\<rparr>"
    by code_simp
  from resolved_path_is_what_the_kernel_opens [OF this sample_facts(1), of False 0] this show ?thesis by blast
qed

lemma sample_no_part_links: "no_part_links [''h''] (sample_home [])"
  unfolding no_part_links_def
proof (intro allI impI)
  fix p assume p: "prefix [''h''] p \<and> p \<noteq> [] \<and> suffix ''.unihelm-part'' (last p)"
  then obtain q where "p = ''h'' # q" by (auto simp: prefix_def)
  then show "no_link (sample_home []) p"
    by (cases q) (auto simp: no_link_def sample_home_def split: if_splits elim: lookup.elims)
qed

lemma requests_stay_in_the_home_witness:
  "\<exists>fs1. fs_dispatch (\<lambda>s. s) tree_env ''/h'' (FrWrite ''a.t'' 2 False False) ''xy'' (sample_home []) = Some (fs1, Inr (FdDone, []))
     \<and> confined [''h''] (sample_home []) fs1 \<and> lookup fs1 [''h'', ''a.t''] = Some (NFile ''xy'' 0x1A4)"
proof -
  let ?w = "fs_dispatch (\<lambda>s. s) tree_env ''/h'' (FrWrite ''a.t'' 2 False False) ''xy'' (sample_home [])"
  have "?w \<noteq> None \<and> snd (the ?w) = Inr (FdDone, []) \<and> lookup (fst (the ?w)) [''h'', ''a.t''] = Some (NFile ''xy'' 0x1A4)"
    by code_simp
  then obtain fs1 where w: "?w = Some (fs1, Inr (FdDone, []))" "lookup fs1 [''h'', ''a.t''] = Some (NFile ''xy'' 0x1A4)"
    by (cases ?w) auto
  from requests_stay_in_the_home [OF w(1) sample_facts(2,1)] sample_no_part_links w show ?thesis by auto
qed

lemma copy_returns_witness: "\<exists>y. serve_copy tree_env ''/h'' ''d'' ''f'' (sample_home []) = Some y"
proof (rule copy_returns [OF sample_facts(1,2)])
  show "two_paths tree_env ''/h'' ''d'' ''f'' (sample_home []) =
      Inr (\<lparr>sp_absolute = [''h'', ''d''], sp_relative = [''d'']\<rparr>, \<lparr>sp_absolute = [''h'', ''f''], sp_relative = [''f'']\<rparr>)"
    by code_simp
qed simp

lemma copy_into_itself_never_returns_witness: "serve_copy tree_env ''/h'' ''d'' ''d/f'' (sample_home []) = None"
proof (rule copy_into_itself_never_returns)
  show "two_paths tree_env ''/h'' ''d'' ''d/f'' (sample_home []) =
      Inr (\<lparr>sp_absolute = [''h'', ''d''], sp_relative = [''d'']\<rparr>, \<lparr>sp_absolute = [''h'', ''d'', ''f''], sp_relative = [''d'', ''f'']\<rparr>)"
    by code_simp
  show "good_name ''f''" by code_simp
qed (simp_all add: sample_home_def sample_allows)

lemma planted_part_link_redirects_a_write_witness:
  "\<exists>fs1. fs_dispatch (\<lambda>s. s) tree_env ''/h'' (FrWrite ''a.t'' 2 False False) ''xy'' (sample_home planted) = Some (fs1, Inr (FdDone, []))
     \<and> lookup fs1 [''e'', ''x''] = Some (NFile ''xy'' 0x1A4) \<and> lookup fs1 [''h'', ''a.t''] = Some (NLink ''/e/x'')"
proof -
  have at: "resolve_new tree_env ''/h'' ''a.t'' (sample_home planted) = Inr (\<lparr>sp_absolute = [''h''], sp_relative = []\<rparr>, ''a.t'')"
      "home_root tree_env ''/h'' (sample_home planted) = Inr \<lparr>sp_absolute = [''h''], sp_relative = []\<rparr>"
      "temp_path [''a.t''] = [''a.unihelm-part'']" "temp_path [''h'', ''a.t''] = [''h'', ''a.unihelm-part'']"
      "sys_create tree_env [''h'', ''a.unihelm-part''] (sample_home planted) = Inr ([''e'', ''x''], 0x1A4)"
    by code_simp+
  have "\<exists>fs1. fs_dispatch (\<lambda>s. s) tree_env ''/h'' (FrWrite ''a.t'' 2 False False) ''xy'' (sample_home planted) = Some (fs1, Inr (FdDone, []))
      \<and> lookup fs1 [''e'', ''x''] = Some (NFile (take 2 ''xy'') 0x1A4)
      \<and> lookup fs1 (sp_absolute \<lparr>sp_absolute = [''h''], sp_relative = []\<rparr> @ [''a.t'']) = Some (NLink ''/e/x'')"
    by (rule planted_part_link_redirects_a_write [OF at(1) sample_facts(1) at(2)])
      (simp_all add: at sample_allows, simp_all add: sample_home_def planted_def)
  then show ?thesis by (simp add: numeral_eq_Suc)
qed

end
