(* ===== verification/Cron_Text.thy ===== *)
theory Cron_Text
  imports Units
begin

text \<open>
  What may reach a crontab (\<open>unihelm-ops/src/cron.rs\<close>, the pure half): schedules, commands, the
  line a job becomes and the file a subscription's jobs become. The lemmas say what an accepted
  schedule is, that the command comes back from cron's own reading of the line, and which lines of
  the rendered file cron acts on.
\<close>

section \<open>Schedules\<close>

text \<open>\<open>split_whitespace\<close>.\<close>

fun chunks :: "('a \<Rightarrow> bool) \<Rightarrow> 'a list \<Rightarrow> 'a list list" where
  "chunks P [] = [[]]"
| "chunks P (x # xs) =
     (if P x then [] # chunks P xs
      else (case chunks P xs of [] \<Rightarrow> [[x]] | g # gs \<Rightarrow> (x # g) # gs))"

definition split_whitespace :: "str \<Rightarrow> str list" where
  "split_whitespace s = map concat (filter (\<lambda>g. g \<noteq> []) (chunks is_whitespace (str_chars s)))"

definition char_count :: "str \<Rightarrow> nat" where
  "char_count s = length (str_chars s)"

record field_spec =
  fs_name :: str
  fs_min :: nat
  fs_max :: nat

definition cron_fields :: "field_spec list" where
  "cron_fields =
    [\<lparr>fs_name = ''minute'', fs_min = 0, fs_max = 59\<rparr>,
     \<lparr>fs_name = ''hour'', fs_min = 0, fs_max = 23\<rparr>,
     \<lparr>fs_name = ''day of month'', fs_min = 1, fs_max = 31\<rparr>,
     \<lparr>fs_name = ''month'', fs_min = 1, fs_max = 12\<rparr>,
     \<lparr>fs_name = ''day of week'', fs_min = 0, fs_max = 7\<rparr>]"

definition max_schedule_chars :: nat where "max_schedule_chars = 256"
definition max_command_chars :: nat where "max_command_chars = 1024"
definition max_crontab_line_chars :: nat where "max_crontab_line_chars = 1000"

definition invalid_schedule :: "str \<Rightarrow> uni_error" where
  "invalid_schedule msg = with_field (new_error InvalidInput msg) ''schedule''"

definition field_error :: "field_spec \<Rightarrow> str \<Rightarrow> uni_error" where
  "field_error spec msg = invalid_schedule (fs_name spec @ '' field: '' @ msg)"

definition parse_number :: "str \<Rightarrow> nat option" where
  "parse_number text =
     (if text = [] \<or> 2 < length text \<or> \<not> list_all is_ascii_digit text then None else Some (digits_value text))"

definition en_dash :: str where "en_dash = bytes_of [226, 128, 147]"

definition parse_value :: "str \<Rightarrow> field_spec \<Rightarrow> nat res" where
  "parse_value text spec =
     r_bind (ok_or (field_error spec (''`'' @ text @ ''` is not a number'')) (parse_number text)) (\<lambda>v.
       if v < fs_min spec \<or> fs_max spec < v then
         Inl (field_error spec (show_nat v @ '' is outside '' @ show_nat (fs_min spec) @ en_dash @ show_nat (fs_max spec)))
       else Inr v)"

definition item_width :: "str \<Rightarrow> str option \<Rightarrow> field_spec \<Rightarrow> nat res" where
  "item_width base step spec =
     (if base = ''*'' then Inr (fs_max spec - fs_min spec + 1)
      else
        r_bind (case split_once CHR ''-'' base of
                  Some (lo, hi) \<Rightarrow> r_bind (parse_value lo spec) (\<lambda>lo. r_bind (parse_value hi spec) (\<lambda>hi. Inr (lo, hi)))
                | None \<Rightarrow> r_bind (parse_value base spec) (\<lambda>v. Inr (v, v)))
          (\<lambda>(lo, hi).
             if hi < lo then
               Inl (field_error spec (''`'' @ show_nat lo @ ''-'' @ show_nat hi @ ''` runs backwards''))
             else if step \<noteq> None \<and> CHR ''-'' \<notin> set base then
               Inl (field_error spec (''a step needs a range to walk: write `*/'' @ the step @ ''` or `''
                 @ show_nat lo @ ''-'' @ show_nat (fs_max spec) @ ''/'' @ the step @ ''`''))
             else Inr (hi - lo + 1)))"

definition validate_item :: "str \<Rightarrow> field_spec \<Rightarrow> unit res" where
  "validate_item item spec =
     (if item = [] then Inl (field_error spec ''empty list entry'')
      else
        (case (case split_once CHR ''/'' item of Some (b, s) \<Rightarrow> (b, Some s) | None \<Rightarrow> (item, None)) of
           (base, step) \<Rightarrow>
             r_bind (item_width base step spec) (\<lambda>width.
               case step of
                 None \<Rightarrow> Inr ()
               | Some text \<Rightarrow>
                   r_bind (ok_or (field_error spec (''`'' @ text @ ''` is not a step'')) (parse_number text)) (\<lambda>step.
                     if step = 0 then Inl (field_error spec ''a step of 0 selects nothing'')
                     else if width < step then
                       Inl (field_error spec (''a step of '' @ show_nat step @ '' is wider than the ''
                         @ show_nat width @ '' value(s) it walks''))
                     else Inr ()))))"

fun validate_items :: "str list \<Rightarrow> field_spec \<Rightarrow> unit res" where
  "validate_items [] spec = Inr ()"
| "validate_items (item # items) spec = r_bind (validate_item item spec) (\<lambda>_. validate_items items spec)"

definition validate_field :: "str \<Rightarrow> field_spec \<Rightarrow> unit res" where
  "validate_field fld spec = validate_items (str_split CHR '','' fld) spec"

fun validate_fields :: "(str \<times> field_spec) list \<Rightarrow> unit res" where
  "validate_fields [] = Inr ()"
| "validate_fields ((fld, spec) # fs) = r_bind (validate_field fld spec) (\<lambda>_. validate_fields fs)"

definition at_schedule_message :: str where
  "at_schedule_message = ''`@`-style schedules are not available to tenants '' @ bytes_of [226, 128, 148]
     @ '' `@reboot` would run before the panel has applied this tenant's resource limits, and every other ''
     @ ''alias has a five-field spelling (`@daily` is `0 0 * * *`)''"

definition validate_schedule :: "str \<Rightarrow> str res" where
  "validate_schedule raw =
     (let trimmed = str_trim raw in
      if trimmed = [] then Inl (invalid_schedule ''a schedule is required'')
      else if max_schedule_chars < char_count trimmed then
        Inl (invalid_schedule (''a schedule may be at most '' @ show_nat max_schedule_chars @ '' characters''))
      else if starts_with ''@'' trimmed then Inl (invalid_schedule at_schedule_message)
      else
        let fields = split_whitespace trimmed in
        if length fields \<noteq> 5 then
          Inl (invalid_schedule (''a schedule has exactly five fields (minute hour day-of-month month day-of-week); got ''
            @ show_nat (length fields)))
        else r_bind (validate_fields (zip fields cron_fields)) (\<lambda>_. Inr (str_join '' '' fields)))"

section \<open>Commands\<close>

definition invalid_command :: "str \<Rightarrow> uni_error" where
  "invalid_command msg = with_field (new_error InvalidInput msg) ''command''"

definition control_message :: "str \<Rightarrow> str" where
  "control_message ch =
     (if ch = [CHR 0x0A] \<or> ch = [CHR 0x0D] then
        ''a command may not contain a newline: a crontab line ends at the newline, so this would add a second job with its own schedule''
      else if ch = [CHR 0x00] then
        ''a command may not contain a NUL byte: it truncates the crontab line at whatever reads it first''
      else ''a command may not contain control characters'')"

definition validate_command :: "str \<Rightarrow> str res" where
  "validate_command raw =
     (let command = str_trim raw in
      if command = [] then Inl (invalid_command ''a command is required'')
      else if max_command_chars < char_count command then
        Inl (invalid_command (''a command may be at most '' @ show_nat max_command_chars
          @ '' characters; put a longer one in a script and run the script''))
      else
        (case find is_control (str_chars command) of
           Some ch \<Rightarrow> Inl (invalid_command (control_message ch))
         | None \<Rightarrow>
             if ends_with [CHR 0x5C] command then
               Inl (invalid_command (''a command may not end with a backslash '' @ bytes_of [226, 128, 148]
                 @ '' cron and the shell disagree about what it escapes at the end of a line''))
             else Inr command))"

definition escape_command :: "str \<Rightarrow> str" where
  "escape_command command = str_replace_char CHR ''%'' [CHR 0x5C, CHR ''%''] command"

section \<open>Lines\<close>

record slice_placement =
  pl_slice_unit :: str
  pl_linux_user :: str
  pl_home :: str

datatype cron_mail = MailTo email | Nobody

fun mail_value :: "cron_mail \<Rightarrow> str" where
  "mail_value (MailTo address) = email_as_str address"
| "mail_value Nobody = [CHR 0x22, CHR 0x22]"

text \<open>\<open>paths::tenant_home\<close> under the root directory of a server.\<close>

definition tenant_home :: "str \<Rightarrow> str" where
  "tenant_home linux_user = ''/home/'' @ linux_user"

definition placement_of :: "linux_user \<Rightarrow> slice_placement" where
  "placement_of user =
     \<lparr>pl_slice_unit = slice_file_name user, pl_linux_user = linux_user_as_str user, pl_home = tenant_home (linux_user_as_str user)\<rparr>"

definition quote_mark :: str where "quote_mark = [CHR 0x27]"

definition slice_wrapper :: "slice_placement \<Rightarrow> str" where
  "slice_wrapper p =
     ''root systemd-run --quiet --collect --wait --pipe --slice='' @ quote_mark @ pl_slice_unit p @ quote_mark
       @ '' --uid='' @ pl_linux_user p @ '' --working-directory='' @ pl_home p @ '' -- /bin/sh''"

definition job_line :: "str \<Rightarrow> str \<Rightarrow> slice_placement \<Rightarrow> str res" where
  "job_line schedule command p =
     (let wrapper = slice_wrapper p;
          line = schedule @ '' '' @ wrapper @ ''%'' @ escape_command command;
          len = char_count line
      in if max_crontab_line_chars < len then
           Inl (invalid_command (''this job's crontab line would be '' @ show_nat len
             @ '' characters and cron drops or truncates a line over '' @ show_nat max_crontab_line_chars
             @ ''; shorten the command by '' @ show_nat (len - max_crontab_line_chars)
             @ '' characters, or move it into a script the job calls. ('' @ show_nat (char_count wrapper + 1)
             @ '' characters of the budget place the job inside `'' @ pl_slice_unit p @ ''`, which is not optional.)''))
         else Inr line)"

record cron_job =
  cj_id :: int
  cj_subscription_id :: int
  cj_schedule :: str
  cj_command :: str
  cj_enabled :: bool
  cj_last_error :: "str option"
  cj_created_at :: int
  cj_updated_at :: int

definition managed_marker :: str where "managed_marker = ''# UNIHELM-MANAGED cron''"

definition newline :: str where "newline = [CHR 0x0A]"

definition crontab_header :: "int \<Rightarrow> slice_placement \<Rightarrow> str list" where
  "crontab_header subscription p =
    [managed_marker @ '' -- generated by the Unihelm panel (spec 11.8).'',
     ''#'',
     ''# Rendered from the panel database for subscription '' @ show_int subscription @ ''.'',
     ''# Edits made here are replaced the next time a job is saved in the'',
     ''# panel. Change jobs there; this file is not the source of truth.'',
     ''#'',
     ''# Jobs are sorted by schedule, then command, so the same set of jobs'',
     ''# always renders the same file.'',
     ''#'',
     ''# Each job runs as '' @ pl_linux_user p @ '' inside '' @ pl_slice_unit p @ '','',
     ''# so a runaway job is bounded by this subscription's plan and not by'',
     ''# the machine. The command itself reaches /bin/sh on standard input'',
     ''# (cron's % convention), so no part of it is ever parsed by the root'',
     ''# shell that starts systemd-run.'']"

definition job_text :: "slice_placement \<Rightarrow> cron_job \<Rightarrow> str res" where
  "job_text p job =
     r_bind (r_map_err (\<lambda>e. internal_error (''cron job '' @ show_int (cj_id job)
               @ '' has an unusable schedule and will not be written to a crontab: '' @ detail e))
             (validate_schedule (cj_schedule job))) (\<lambda>schedule.
     r_bind (r_map_err (\<lambda>e. internal_error (''cron job '' @ show_int (cj_id job)
               @ '' has an unusable command and will not be written to a crontab: '' @ detail e))
             (validate_command (cj_command job))) (\<lambda>command.
     r_bind (r_map_err (\<lambda>e. internal_error (''cron job '' @ show_int (cj_id job)
               @ '' cannot be written to a crontab: '' @ detail e))
             (job_line schedule command p)) (\<lambda>line.
       Inr (newline @
         (if cj_enabled job then ''# job '' @ show_int (cj_id job) @ newline @ line
          else ''# job '' @ show_int (cj_id job) @ '' (disabled in the panel)'' @ newline @ ''# '' @ line)
         @ newline))))"

fun jobs_text :: "slice_placement \<Rightarrow> cron_job list \<Rightarrow> str res" where
  "jobs_text p [] = Inr []"
| "jobs_text p (job # jobs) = r_bind (job_text p job) (\<lambda>t. r_bind (jobs_text p jobs) (\<lambda>ts. Inr (t @ ts)))"

definition render_crontab :: "int \<Rightarrow> cron_job list \<Rightarrow> slice_placement \<Rightarrow> cron_mail \<Rightarrow> str res" where
  "render_crontab subscription jobs p mail =
     r_bind (jobs_text p jobs) (\<lambda>body.
       Inr (concat (map (\<lambda>l. l @ newline) (crontab_header subscription p @ [''MAILTO='' @ mail_value mail])) @ body))"

fun ours_by_lines :: "str list \<Rightarrow> bool" where
  "ours_by_lines [] = True"
| "ours_by_lines (line # lines) =
     (let line = str_trim_start line in
      if starts_with managed_marker line then True
      else if str_trim line = [] \<or> starts_with ''#'' line then ours_by_lines lines
      else False)"

definition is_unihelm_crontab :: "str \<Rightarrow> bool" where
  "is_unihelm_crontab existing = ours_by_lines (str_lines existing)"


section \<open>What a schedule is\<close>

text \<open>The grammar the comment of \<open>validate_schedule\<close> documents.\<close>

definition field_value :: "field_spec \<Rightarrow> str \<Rightarrow> nat \<Rightarrow> bool" where
  "field_value spec t v \<longleftrightarrow> parse_number t = Some v \<and> fs_min spec \<le> v \<and> v \<le> fs_max spec"

definition step_suffix :: "nat \<Rightarrow> str \<Rightarrow> bool" where
  "step_suffix width st \<longleftrightarrow> st = [] \<or> (\<exists>t n. st = CHR ''/'' # t \<and> parse_number t = Some n \<and> 1 \<le> n \<and> n \<le> width)"

definition item_grammar :: "field_spec \<Rightarrow> str \<Rightarrow> bool" where
  "item_grammar spec item \<longleftrightarrow>
     (\<exists>st. item = CHR ''*'' # st \<and> step_suffix (fs_max spec - fs_min spec + 1) st)
     \<or> (\<exists>v. field_value spec item v)
     \<or> (\<exists>lo hi st a b. item = lo @ CHR ''-'' # hi @ st \<and> field_value spec lo a \<and> field_value spec hi b
          \<and> a \<le> b \<and> step_suffix (b - a + 1) st)"

definition schedule_char :: "char \<Rightarrow> bool" where
  "schedule_char c \<longleftrightarrow> is_ascii_digit c \<or> c \<in> {CHR ''*'', CHR '','', CHR ''-'', CHR ''/''}"

lemma parse_number_iff:
  "parse_number t = Some n \<longleftrightarrow> t \<noteq> [] \<and> length t \<le> 2 \<and> list_all is_ascii_digit t \<and> n = digits_value t"
  by (auto simp: parse_number_def)

lemma number_chars: "parse_number t = Some n \<Longrightarrow> list_all is_ascii_digit t \<and> t \<noteq> []"
  by (simp add: parse_number_iff)

lemma digits_fresh: "list_all is_ascii_digit t \<Longrightarrow> \<not> is_ascii_digit c \<Longrightarrow> c \<notin> set t"
  by (auto simp: list_all_iff)

lemma not_digit [simp]:
  "\<not> is_ascii_digit CHR ''/''" "\<not> is_ascii_digit CHR ''-''" "\<not> is_ascii_digit CHR ''*''" "\<not> is_ascii_digit CHR '',''"
  by (simp_all add: is_ascii_digit_def byte_def)

lemma value_fresh:
  assumes "field_value spec t v"
  shows "CHR ''/'' \<notin> set t" "CHR ''-'' \<notin> set t" "CHR ''*'' \<notin> set t" "t \<noteq> []"
  using assms digits_fresh number_chars by (auto simp: field_value_def)

lemma parse_value_iff: "parse_value t spec = Inr v \<longleftrightarrow> field_value spec t v"
  by (cases "parse_number t") (auto simp: parse_value_def field_value_def ok_or_def)

lemma item_width_iff:
  "item_width base step spec = Inr w \<longleftrightarrow>
     (base = ''*'' \<and> w = fs_max spec - fs_min spec + 1)
     \<or> (step = None \<and> (\<exists>v. field_value spec base v) \<and> w = 1)
     \<or> (\<exists>lo hi a b. base = lo @ CHR ''-'' # hi \<and> field_value spec lo a \<and> field_value spec hi b \<and> a \<le> b \<and> w = b - a + 1)"
proof (cases "base = ''*''")
  case True
  then have "\<not> field_value spec base v" "base \<noteq> lo @ CHR ''-'' # hi" for v lo hi
    using value_fresh(3) [of spec base v] by (auto simp: Cons_eq_append_conv)
  then show ?thesis using True by (auto simp: item_width_def)
next
  case False
  show ?thesis
  proof (cases "split_once CHR ''-'' base")
    case None
    then have "CHR ''-'' \<notin> set base" by (simp add: str_simps)
    then have "base \<noteq> lo @ CHR ''-'' # hi" for lo hi by auto
    then show ?thesis
      using False None \<open>CHR ''-'' \<notin> set base\<close>
      by (auto simp: item_width_def result_simps parse_value_iff)
  next
    case (Some p)
    then obtain lo hi where p: "p = (lo, hi)" "base = lo @ CHR ''-'' # hi" "CHR ''-'' \<notin> set lo"
      by (cases p) (auto simp: str_simps)
    have "lo' = lo \<and> hi' = hi" if "base = lo' @ CHR ''-'' # hi'" "field_value spec lo' a" for lo' hi' a
      using split_once_Some [of "CHR ''-''" base lo' hi'] that value_fresh(2) [OF that(2)] Some p(1) by auto
    moreover have "\<not> field_value spec base v" for v
      using value_fresh(2) [of spec base v] p(2) by auto
    moreover have "item_width base step spec = Inr w \<longleftrightarrow>
        (\<exists>a b. field_value spec lo a \<and> field_value spec hi b \<and> a \<le> b \<and> w = b - a + 1)"
    proof (cases "\<exists>a b. field_value spec lo a \<and> field_value spec hi b")
      case True
      then obtain a b where ab: "field_value spec lo a" "field_value spec hi b" by blast
      then have "field_value spec lo a' \<longleftrightarrow> a' = a" "field_value spec hi b' \<longleftrightarrow> b' = b" for a' b'
        by (auto simp: field_value_def)
      then show ?thesis
        using ab False Some p by (auto simp: item_width_def result_simps parse_value_iff [THEN iffD2] not_less)
    qed (use False Some p in \<open>auto simp: item_width_def result_simps parse_value_iff\<close>)
    ultimately show ?thesis using False p(2) by blast
  qed
qed

text \<open>\<open>validate_item\<close> is that grammar.\<close>

lemma grammar_slash: "item_grammar spec item \<longleftrightarrow>
   (case split_once CHR ''/'' item of
      None \<Rightarrow> \<exists>w. item_width item None spec = Inr w
    | Some (base, t) \<Rightarrow> \<exists>w n. item_width base (Some t) spec = Inr w \<and> parse_number t = Some n \<and> 1 \<le> n \<and> n \<le> w)"
proof (cases "split_once CHR ''/'' item")
  case None
  then have no: "CHR ''/'' \<notin> set item" by (simp add: str_simps)
  have empty: "st = []" if "item = x @ st" "step_suffix w st" for x st w
    using that no by (auto simp: step_suffix_def)
  have nil [simp]: "step_suffix w []" for w by (simp add: step_suffix_def)
  have "(\<exists>st. item = CHR ''*'' # st \<and> step_suffix w st) \<longleftrightarrow> item = ''*''" for w
    using empty [of "''*''" _ w] by auto
  moreover have "(\<exists>lo hi st a b. item = lo @ CHR ''-'' # hi @ st \<and> field_value spec lo a \<and> field_value spec hi b
          \<and> a \<le> b \<and> step_suffix (b - a + 1) st)
      \<longleftrightarrow> (\<exists>lo hi a b. item = lo @ CHR ''-'' # hi \<and> field_value spec lo a \<and> field_value spec hi b \<and> a \<le> b)" (is "?l = ?r")
  proof
    assume ?l
    then obtain lo hi st a b where i: "item = lo @ CHR ''-'' # hi @ st" "field_value spec lo a" "field_value spec hi b"
        "a \<le> b" "step_suffix (b - a + 1) st" by blast
    then have "st = []" using empty [of "lo @ CHR ''-'' # hi" st] by simp
    then show ?r using i by auto
  next
    assume ?r
    then obtain lo hi a b where i: "item = lo @ CHR ''-'' # hi @ []" "field_value spec lo a" "field_value spec hi b" "a \<le> b"
      by auto
    then show ?l using nil by blast
  qed
  ultimately show ?thesis
    using None by (simp add: item_grammar_def item_width_iff) blast
next
  case (Some p)
  then obtain base t where p: "p = (base, t)" "item = base @ CHR ''/'' # t" "CHR ''/'' \<notin> set base"
    by (cases p) (auto simp: str_simps)
  have split: "base = x \<and> t = y" if "item = x @ CHR ''/'' # y" "CHR ''/'' \<notin> set x" for x y
    using split_once_Some [of "CHR ''/''" item x y] that Some p(1) by auto
  have novalue: "\<not> (\<exists>v. field_value spec item v)" using value_fresh(1) [of spec item] p(2) by auto
  have star: "(\<exists>st. item = CHR ''*'' # st \<and> step_suffix w st)
      \<longleftrightarrow> base = ''*'' \<and> (\<exists>n. parse_number t = Some n \<and> 1 \<le> n \<and> n \<le> w)" for w
  proof -
    have "CHR ''/'' \<in> set item" using p(2) by simp
    then have "item \<noteq> ''*''" by auto
    show ?thesis (is "?l = ?r")
    proof
      assume ?l
      then obtain y n where y: "item = ''*'' @ CHR ''/'' # y" "parse_number y = Some n" "1 \<le> n" "n \<le> w"
        using \<open>item \<noteq> ''*''\<close> by (auto simp: step_suffix_def)
      then have "base = ''*'' \<and> t = y" by (intro split) simp_all
      then show ?r using y by blast
    next
      assume ?r
      then show ?l by (auto simp: p(2) step_suffix_def)
    qed
  qed
  have range: "(\<exists>lo hi st a b. item = lo @ CHR ''-'' # hi @ st \<and> field_value spec lo a \<and> field_value spec hi b
          \<and> a \<le> b \<and> step_suffix (b - a + 1) st)
      \<longleftrightarrow> (\<exists>lo hi a b n. base = lo @ CHR ''-'' # hi \<and> field_value spec lo a \<and> field_value spec hi b \<and> a \<le> b
            \<and> parse_number t = Some n \<and> 1 \<le> n \<and> n \<le> b - a + 1)" (is "?l = ?r")
  proof
    assume ?l
    then obtain lo hi st a b where i: "item = lo @ CHR ''-'' # hi @ st" "field_value spec lo a" "field_value spec hi b"
        "a \<le> b" "step_suffix (b - a + 1) st" by blast
    have "CHR ''/'' \<in> set item" using p(2) by simp
    then have "st \<noteq> []" using i(1) value_fresh(1) [OF i(2)] value_fresh(1) [OF i(3)] by auto
    then obtain y n where y: "st = CHR ''/'' # y" "parse_number y = Some n" "1 \<le> n" "n \<le> b - a + 1"
      using i(5) by (auto simp: step_suffix_def)
    have "base = lo @ CHR ''-'' # hi \<and> t = y"
      using split [of "lo @ CHR ''-'' # hi" y] i(1) y(1) value_fresh(1) [OF i(2)] value_fresh(1) [OF i(3)] by simp
    then show ?r using i y by blast
  next
    assume ?r
    then show ?l using p(2) by (fastforce simp: step_suffix_def)
  qed
  have "item_grammar spec item \<longleftrightarrow>
      (base = ''*'' \<and> (\<exists>n. parse_number t = Some n \<and> 1 \<le> n \<and> n \<le> fs_max spec - fs_min spec + 1))
      \<or> (\<exists>lo hi a b n. base = lo @ CHR ''-'' # hi \<and> field_value spec lo a \<and> field_value spec hi b \<and> a \<le> b
            \<and> parse_number t = Some n \<and> 1 \<le> n \<and> n \<le> b - a + 1)"
    unfolding item_grammar_def range star by (simp add: novalue)
  also have "\<dots> \<longleftrightarrow> (\<exists>w n. item_width base (Some t) spec = Inr w \<and> parse_number t = Some n \<and> 1 \<le> n \<and> n \<le> w)"
    unfolding item_width_iff by blast
  finally show ?thesis using Some p(1) by simp
qed

lemma validate_item_iff: "validate_item item spec = Inr () \<longleftrightarrow> item_grammar spec item"
proof (cases "item = []")
  case True
  then show ?thesis by (auto simp: validate_item_def item_grammar_def field_value_def parse_number_iff)
next
  case False
  then show ?thesis
    unfolding grammar_slash
    by (cases "split_once CHR ''/'' item")
      (auto simp: validate_item_def result_simps not_less Suc_le_eq split: if_splits prod.splits)
qed

lemma validate_field_iff: "validate_field fld spec = Inr () \<longleftrightarrow> list_all (item_grammar spec) (str_split CHR '','' fld)"
proof -
  have "validate_items items spec = Inr () \<longleftrightarrow> list_all (item_grammar spec) items" for items
    by (induction items) (auto simp: result_simps validate_item_iff)
  then show ?thesis by (simp add: validate_field_def)
qed

lemma validate_fields_iff:
  "validate_fields fs = Inr () \<longleftrightarrow> list_all (\<lambda>(f, spec). list_all (item_grammar spec) (str_split CHR '','' f)) fs"
  by (induction fs rule: validate_fields.induct) (auto simp: result_simps validate_field_iff)

lemma grammar_chars: "item_grammar spec item \<Longrightarrow> list_all schedule_char item \<and> item \<noteq> []"
  unfolding item_grammar_def field_value_def step_suffix_def
  by (auto simp: schedule_char_def list_all_iff dest!: number_chars)


section \<open>Words between white space\<close>

lemma chunks_nonempty [simp]: "chunks P xs \<noteq> []"
  by (induction xs) (auto split: list.splits)

lemma chunks_total: "sum_list (map length (chunks P xs)) + length (chunks P xs) = Suc (length xs)"
proof (induction xs)
  case (Cons x xs)
  then show ?case by (cases "chunks P xs") auto
qed simp

lemma chunks_one: "list_all (\<lambda>x. \<not> P x) w \<Longrightarrow> chunks P w = [w]"
  by (induction w) auto

lemma chunks_append: "list_all (\<lambda>x. \<not> P x) w \<Longrightarrow> P x \<Longrightarrow> chunks P (w @ x # xs) = w # chunks P xs"
  by (induction w) auto

lemma chunks_map: "chunks P (map f xs) = map (map f) (chunks (\<lambda>x. P (f x)) xs)"
proof (induction xs)
  case (Cons x xs)
  then show ?case by (cases "chunks (\<lambda>x. P (f x)) xs") auto
qed simp

lemma split_whitespace_ascii:
  assumes "ascii s"
  shows "split_whitespace s = filter (\<lambda>w. w \<noteq> []) (chunks is_ascii_whitespace s)"
proof -
  have "(\<lambda>c. is_whitespace [c]) = is_ascii_whitespace"
    by (rule ext) (simp add: is_whitespace_single)
  then show ?thesis
    by (simp add: split_whitespace_def str_chars_ascii [OF assms] chunks_map filter_map comp_def concat_map_singleton)
qed

lemma chunks_join:
  "ps \<noteq> [] \<Longrightarrow> list_all (list_all plain_char) ps \<Longrightarrow> chunks is_ascii_whitespace (str_join '' '' ps) = ps"
proof (induction ps rule: induct_list012)
  case (2 p)
  then show ?case by (simp add: chunks_one list_all_iff plain_char_def)
next
  case (3 p q ps)
  moreover have "is_ascii_whitespace CHR '' ''" by (simp add: is_ascii_whitespace_def byte_def)
  ultimately show ?case
    by (simp add: chunks_append list_all_iff plain_char_def)
qed simp

definition word_char :: "char \<Rightarrow> bool" where
  "word_char c \<longleftrightarrow> plain_char c \<or> c = CHR '' ''"

lemma join_chars: "list_all (list_all P) ps \<Longrightarrow> list_all (\<lambda>c. P c \<or> c = CHR '' '') (str_join '' '' ps)"
  by (induction ps rule: induct_list012) (auto simp: list_all_iff)

lemma join_ascii: "list_all (list_all plain_char) ps \<Longrightarrow> ascii (str_join '' '' ps)"
  using join_chars [of plain_char ps] by (auto simp: ascii_def list_all_iff plain_char_def byte_def)

lemma join_ends:
  "ps \<noteq> [] \<Longrightarrow> list_all (\<lambda>p. p \<noteq> []) ps \<Longrightarrow>
     str_join '' '' ps \<noteq> [] \<and> hd (str_join '' '' ps) = hd (hd ps) \<and> last (str_join '' '' ps) = last (last ps)"
  by (induction ps rule: induct_list012) auto

lemma length_join: "ps \<noteq> [] \<Longrightarrow> Suc (length (str_join '' '' ps)) = sum_list (map length ps) + length ps"
  by (induction ps rule: induct_list012) auto

lemma split_whitespace_join:
  assumes "ps \<noteq> []" "list_all (\<lambda>p. p \<noteq> [] \<and> list_all plain_char p) ps"
  shows "split_whitespace (str_join '' '' ps) = ps" "str_trim (str_join '' '' ps) = str_join '' '' ps"
    "char_count (str_join '' '' ps) = length (str_join '' '' ps)"
proof -
  have pl: "list_all (list_all plain_char) ps" "list_all (\<lambda>p. p \<noteq> []) ps"
    using assms(2) by (auto simp: list_all_iff)
  show "split_whitespace (str_join '' '' ps) = ps"
    using assms pl by (simp add: split_whitespace_ascii join_ascii chunks_join filter_id_conv list_all_iff)
  have "plain_char (hd (hd ps)) \<and> plain_char (last (last ps))"
    using assms by (auto simp: list_all_iff dest: hd_in_set last_in_set)
  then show "str_trim (str_join '' '' ps) = str_join '' '' ps"
    using join_ends [OF assms(1) pl(2)] by (intro str_trim_plain_ends join_ascii pl(1)) simp
  show "char_count (str_join '' '' ps) = length (str_join '' '' ps)"
    by (simp add: char_count_def str_chars_ascii [OF join_ascii [OF pl(1)]])
qed

text \<open>Joining the words of a text makes it no longer.\<close>

lemma words_shorter:
  assumes "split_whitespace t = ps" "ps \<noteq> []" "list_all (list_all plain_char) ps"
  shows "length (str_join '' '' ps) \<le> char_count t"
proof -
  let ?gs = "filter (\<lambda>g. g \<noteq> []) (chunks is_whitespace (str_chars t))"
  have ps: "ps = map concat ?gs" using assms(1) by (simp add: split_whitespace_def)
  have shape: "c \<noteq> [] \<and> list_all is_continuation (tl c)"
    if "g \<in> set (chunks is_whitespace (str_chars t))" "c \<in> set g" for g c
  proof -
    have "set (concat (chunks P xs)) \<subseteq> set xs" for P and xs :: "str list"
    proof (induction xs)
      case (Cons x xs)
      then show ?case by (cases "chunks P xs") auto
    qed simp
    then have "c \<in> set (str_chars t)" using that by fastforce
    moreover have "wf_chars cs \<Longrightarrow> c \<in> set cs \<Longrightarrow> c \<noteq> [] \<and> list_all is_continuation (tl c)" for cs
      by (induction cs) auto
    ultimately show ?thesis using wf_chars_str_chars by blast
  qed
  have "length (concat g) = length g" if g: "g \<in> set ?gs" for g
  proof -
    have asc: "byte d < 128" if "c \<in> set g" "d \<in> set c" for c d
      using g that assms(3) by (auto simp: ps list_all_iff plain_char_def)
    have "length c = 1" if "c \<in> set g" for c
      using shape [of g c] g that asc [OF that, of "hd (tl c)"]
      by (cases c; cases "tl c") (auto simp: is_continuation_def)
    then have "sum_list (map length g) = sum_list (map (\<lambda>_. 1) g)" by (intro arg_cong [of _ _ sum_list]) simp
    then show ?thesis by (simp add: length_concat sum_list_triv)
  qed
  then have "map length ps = map length ?gs" by (simp add: ps)
  then have total: "sum_list (map length ps) = sum_list (map length ?gs)" "length ps = length ?gs"
    by (metis, simp add: ps)
  have "sum_list (map length (filter (\<lambda>g. g \<noteq> []) cs)) + length (filter (\<lambda>g. g \<noteq> []) cs)
      \<le> sum_list (map length cs) + length cs" for cs :: "str list list"
    by (induction cs) auto
  from this [of "chunks is_whitespace (str_chars t)"] show ?thesis
    using chunks_total [of is_whitespace "str_chars t"] length_join [OF assms(2)] total
    unfolding char_count_def by linarith
qed


section \<open>Accepted schedules and commands\<close>

definition schedule_fields :: "str list \<Rightarrow> bool" where
  "schedule_fields fs \<longleftrightarrow>
     list_all2 (\<lambda>f spec. list_all (item_grammar spec) (str_split CHR '','' f)) fs cron_fields"

lemma schedule_char_plain: "schedule_char c \<Longrightarrow> plain_char c \<and> c \<noteq> CHR ''@'' \<and> c \<noteq> CHR ''#''"
  by (auto simp: schedule_char_def plain_char_def is_ascii_digit_def is_ascii_whitespace_def byte_def)

lemma field_chars:
  assumes "list_all (item_grammar spec) (str_split CHR '','' f)"
  shows "f \<noteq> [] \<and> list_all schedule_char f"
proof -
  have c: "schedule_char CHR '',''" by (simp add: schedule_char_def)
  have ne: "str_split CHR '','' f \<noteq> []" by simp
  have "list_all (\<lambda>p. list_all schedule_char p \<and> p \<noteq> []) (str_split CHR '','' f)"
    using assms grammar_chars unfolding list_all_iff by blast
  then have "(\<Union>p \<in> set (str_split CHR '','' f). set p) \<subseteq> Collect schedule_char" "f \<noteq> []"
    by (auto simp: list_all_iff)
  then show ?thesis
    using c by (auto simp: set_str_split list_all_iff)
qed

lemma schedule_fields_words:
  assumes "schedule_fields fs"
  shows "length fs = 5" "list_all (\<lambda>f. f \<noteq> [] \<and> list_all schedule_char f) fs"
    "list_all (\<lambda>f. f \<noteq> [] \<and> list_all plain_char f) fs"
proof -
  show len: "length fs = 5"
    using assms by (auto simp: schedule_fields_def cron_fields_def dest: list_all2_lengthD)
  show a: "list_all (\<lambda>f. f \<noteq> [] \<and> list_all schedule_char f) fs"
  proof (unfold list_all_iff, rule ballI)
    fix f assume "f \<in> set fs"
    then obtain i where "i < length fs" "f = fs ! i" by (auto simp: in_set_conv_nth)
    then have "list_all (item_grammar (cron_fields ! i)) (str_split CHR '','' f)"
      using list_all2_nthD [OF assms [unfolded schedule_fields_def]] by simp
    then show "f \<noteq> [] \<and> (\<forall>c\<in>set f. schedule_char c)"
      using field_chars by (simp add: list_all_iff)
  qed
  then show "list_all (\<lambda>f. f \<noteq> [] \<and> list_all plain_char f) fs"
    using schedule_char_plain by (auto simp: list_all_iff)
qed

lemma validate_zip: "length fs = 5 \<Longrightarrow> validate_fields (zip fs cron_fields) = Inr () \<longleftrightarrow> schedule_fields fs"
  by (simp add: validate_fields_iff schedule_fields_def list_all2_iff list_all_iff cron_fields_def)

lemma schedule_of_fields:
  assumes "schedule_fields fs" "length (str_join '' '' fs) \<le> 256"
  shows "validate_schedule (str_join '' '' fs) = Inr (str_join '' '' fs)"
proof -
  note w = schedule_fields_words [OF assms(1)]
  then have ne: "fs \<noteq> []" by auto
  have "hd (str_join '' '' fs) = hd (hd fs)" "str_join '' '' fs \<noteq> []"
    using join_ends [OF ne] w(3) by (auto simp: list_all_iff)
  moreover have "schedule_char (hd (hd fs))"
    using w(2) ne by (auto simp: list_all_iff dest: hd_in_set)
  ultimately have "\<not> starts_with ''@'' (str_join '' '' fs)"
    using schedule_char_plain [of "hd (str_join '' '' fs)"] by (cases "str_join '' '' fs") (auto simp: starts_with_def)
  then show ?thesis
    using \<open>str_join '' '' fs \<noteq> []\<close> assms validate_zip [OF w(1)] w(1) split_whitespace_join [OF ne w(3)]
    by (simp add: validate_schedule_def max_schedule_chars_def Let_def)
qed

lemma accepted_schedule:
  assumes "validate_schedule raw = Inr s"
  obtains fs where "s = str_join '' '' fs" "schedule_fields fs" "fs \<noteq> []" "length s \<le> 256"
proof -
  define fs where "fs = split_whitespace (str_trim raw)"
  have len: "length fs = 5" and s: "s = str_join '' '' fs" and count: "char_count (str_trim raw) \<le> 256"
    and "validate_fields (zip fs cron_fields) = Inr ()"
    using assms
    by (auto simp: validate_schedule_def Let_def result_simps fs_def max_schedule_chars_def not_less split: if_splits)
  then have f: "schedule_fields fs" by (simp add: validate_zip)
  moreover have "length s \<le> 256"
    using words_shorter [OF fs_def [symmetric]] schedule_fields_words(3) [OF f] len count
    by (fastforce simp: s list_all_iff)
  ultimately show ?thesis using that [OF s] len by fastforce
qed

lemma schedule_line_chars:
  assumes "validate_schedule raw = Inr s"
  shows "list_all (\<lambda>c. schedule_char c \<or> c = CHR '' '') s \<and> s \<noteq> [] \<and> schedule_char (hd s)"
proof -
  from assms obtain fs where s: "s = str_join '' '' fs" "schedule_fields fs" "fs \<noteq> []" by (rule accepted_schedule)
  note w = schedule_fields_words(2) [OF s(2)]
  then have "schedule_char (hd (hd fs))" using s(3) by (auto simp: list_all_iff dest: hd_in_set)
  then show ?thesis
    using join_ends [OF s(3)] join_chars [of schedule_char fs] w s(1) by (auto simp: list_all_iff)
qed

lemma find_None_iff_all: "find P xs = None \<longleftrightarrow> list_all (\<lambda>x. \<not> P x) xs"
  by (induction xs) auto

lemma validate_command_iff:
  "validate_command raw = Inr c \<longleftrightarrow> c = str_trim raw \<and> c \<noteq> [] \<and> char_count c \<le> 1024
     \<and> list_all (\<lambda>ch. \<not> is_control ch) (str_chars c) \<and> last c \<noteq> CHR 0x5C"
proof -
  have "suffix [x] c \<longleftrightarrow> c \<noteq> [] \<and> last c = x" for x and c :: str
    by (cases c rule: rev_cases) auto
  note suffix_last = this
  show ?thesis
  proof (cases "find is_control (str_chars (str_trim raw))")
    case None
    then show ?thesis
      using None [unfolded find_None_iff_all]
      by (auto simp: validate_command_def Let_def ends_with_def suffix_last max_command_chars_def not_less)
  next
    case (Some ch)
    then have "\<not> list_all (\<lambda>ch. \<not> is_control ch) (str_chars (str_trim raw))"
      using find_None_iff_all [of is_control "str_chars (str_trim raw)"] by simp
    then show ?thesis using Some by (auto simp: validate_command_def Let_def)
  qed
qed

lemma command_again: "validate_command raw = Inr c \<Longrightarrow> validate_command c = Inr c"
  unfolding validate_command_iff by auto


section \<open>The line of a job\<close>

text \<open>An ASCII byte is a character of its own, as it is in every valid UTF-8 text.\<close>

definition ascii_alone :: "str \<Rightarrow> bool" where
  "ascii_alone s \<longleftrightarrow> list_all (\<lambda>ch. byte (hd ch) < 128 \<longrightarrow> length ch = 1) (str_chars s)"

lemma in_some_char: "c \<in> set s \<Longrightarrow> byte c < 128 \<Longrightarrow> \<exists>ch \<in> set (str_chars s). hd ch = c \<and> ch \<noteq> []"
proof (induction s rule: str_chars.induct)
  case (2 d cs)
  show ?case
  proof (cases "c = d")
    case False
    have "c \<notin> set (takeWhile is_continuation cs)"
      using 2(3) by (auto simp: is_continuation_def dest: set_takeWhileD)
    moreover have "set cs = set (takeWhile is_continuation cs) \<union> set (dropWhile is_continuation cs)"
      by (metis set_append takeWhile_dropWhile_id)
    ultimately have "c \<in> set (dropWhile is_continuation cs)" using 2(2) False by auto
    then show ?thesis using 2(1,3) by auto
  qed simp
qed simp

lemma no_control_bytes:
  assumes "ascii_alone s" "list_all (\<lambda>ch. \<not> is_control ch) (str_chars s)" "c \<in> set s"
  shows "\<not> is_ascii_control c"
proof
  assume c: "is_ascii_control c"
  then have b: "byte c < 128" by (auto simp: is_ascii_control_def)
  then obtain ch where ch: "ch \<in> set (str_chars s)" "hd ch = c" "ch \<noteq> []" using in_some_char assms(3) by blast
  then have "length ch = 1" using assms(1) b unfolding ascii_alone_def list_all_iff by blast
  then have "ch = [c]" using ch(2) by (cases ch) simp_all
  then have "is_control ch" using c by (simp add: is_control_def)
  then show False using assms(2) ch(1) by (simp add: list_all_iff)
qed

definition one_line :: "str \<Rightarrow> bool" where
  "one_line s \<longleftrightarrow> list_all (\<lambda>c. c \<noteq> CHR 0x0A \<and> c \<noteq> CHR 0x0D) s"

lemma one_line_append [simp]: "one_line (s @ t) \<longleftrightarrow> one_line s \<and> one_line t"
  by (simp add: one_line_def)

lemma one_line_Cons [simp]: "one_line (c # t) \<longleftrightarrow> c \<noteq> CHR 0x0A \<and> c \<noteq> CHR 0x0D \<and> one_line t"
  by (simp add: one_line_def)

lemma one_line_Nil [simp]: "one_line []"
  by (simp add: one_line_def)

lemma control_ends [simp]: "is_ascii_control CHR 0x0A" "is_ascii_control CHR 0x0D"
  by (simp_all add: is_ascii_control_def byte_def)

lemma one_line_command: "validate_command raw = Inr c \<Longrightarrow> ascii_alone c \<Longrightarrow> one_line c"
  using no_control_bytes [of c] by (fastforce simp: validate_command_iff one_line_def list_all_iff)

lemma one_line_escape: "one_line c \<Longrightarrow> one_line (escape_command c)"
  by (auto simp: escape_command_def str_replace_char_def one_line_def list_all_iff)

lemma one_line_schedule: "validate_schedule raw = Inr s \<Longrightarrow> one_line s"
proof -
  assume a: "validate_schedule raw = Inr s"
  have "\<not> schedule_char CHR 0x0A" "\<not> schedule_char CHR 0x0D"
    by (simp_all add: schedule_char_def is_ascii_digit_def byte_def)
  then show ?thesis using schedule_line_chars [OF a] by (auto simp: one_line_def list_all_iff)
qed

lemma digit_one_line: "one_line (show_nat n)" "one_line (show_int i)"
proof -
  show n: "one_line (show_nat n)" for n
    using show_nat_digits [of n] by (auto simp: one_line_def list_all_iff is_ascii_digit_def byte_def)
  show "one_line (show_int i)" using n by (simp add: show_int_def)
qed

text \<open>What a placement puts on a line.\<close>

definition placement_char :: "char \<Rightarrow> bool" where
  "placement_char c \<longleftrightarrow> user_char c \<or> c \<in> {CHR ''.'', CHR ''/'', CHR 0x5C}"

lemma placement_char_facts: "placement_char c \<Longrightarrow> c \<noteq> CHR ''%'' \<and> c \<noteq> CHR 0x0A \<and> c \<noteq> CHR 0x0D \<and> c \<noteq> CHR 0x27 \<and> c \<noteq> CHR '' ''"
  by (auto simp: placement_char_def user_char_def ascii_defs byte_def)

lemma placement_chars:
  assumes "linux_user_parse raw = Inr u"
  shows "list_all placement_char (pl_slice_unit (placement_of u))"
    "list_all placement_char (pl_linux_user (placement_of u))"
    "list_all placement_char (pl_home (placement_of u))"
proof -
  have u: "list_all user_char (linux_user_as_str u)"
    using assms by (auto simp: linux_user_parse_iff Let_def)
  have lit: "list_all placement_char ''unihelm-''" "list_all placement_char ''.slice''" "list_all placement_char ''/home/''"
      "list_all placement_char (CHR 0x5C # ''x2d'')"
    by (simp_all add: placement_char_def user_char_def ascii_defs byte_def)
  show "list_all placement_char (pl_slice_unit (placement_of u))"
    using u lit by (auto simp: placement_of_def slice_file_name_def str_replace_char_def list_all_iff placement_char_def)
  show "list_all placement_char (pl_linux_user (placement_of u))" "list_all placement_char (pl_home (placement_of u))"
    using u lit by (auto simp: placement_of_def tenant_home_def list_all_iff placement_char_def)
qed

lemma wrapper_chars:
  assumes "linux_user_parse raw = Inr u"
  shows "CHR ''%'' \<notin> set (slice_wrapper (placement_of u))" "one_line (slice_wrapper (placement_of u))"
  using placement_chars [OF assms] placement_char_facts
  by (auto simp: slice_wrapper_def quote_mark_def one_line_def list_all_iff)

lemma one_line_job:
  assumes "linux_user_parse raw = Inr u" "validate_schedule x = Inr s" "validate_command y = Inr c" "ascii_alone c"
    "job_line s c (placement_of u) = Inr line"
  shows "one_line line" "line = s @ '' '' @ slice_wrapper (placement_of u) @ ''%'' @ escape_command c"
  using assms(5) wrapper_chars(2) [OF assms(1)] one_line_schedule [OF assms(2)]
    one_line_escape [OF one_line_command [OF assms(3,4)]]
  by (auto simp: job_line_def Let_def split: if_splits)


section \<open>The lines of the file\<close>

text \<open>What cron acts on in a file: what is neither blank nor a comment.\<close>

definition active :: "str \<Rightarrow> bool" where
  "active l \<longleftrightarrow> str_trim l \<noteq> [] \<and> \<not> starts_with ''#'' (str_trim_start l)"

lemma str_lines_Nil [simp]: "str_lines [] = []"
  by (simp add: str_lines_def)

lemma one_line_end: "one_line l \<Longrightarrow> line_end l = l"
  unfolding line_end_def one_line_def list_all_iff using last_in_set by (cases "l = []") force+

lemma str_lines_line: "one_line l \<Longrightarrow> str_lines (l @ newline @ s) = l # str_lines s"
proof -
  assume l: "one_line l"
  then have "CHR 0x0A \<notin> set l" by (auto simp: one_line_def list_all_iff)
  then have "str_split CHR 0x0A (l @ newline @ s) = l # str_split CHR 0x0A s"
    using str_split_append [of "CHR 0x0A" l s] by (simp add: newline_def)
  then show ?thesis by (simp add: str_lines_def Let_def one_line_end [OF l])
qed

lemma str_lines_concat:
  "list_all one_line ls \<Longrightarrow> str_lines (concat (map (\<lambda>l. l @ newline) ls) @ s) = ls @ str_lines s"
proof (induction ls)
  case (Cons l ls)
  then show ?case using str_lines_line [of l "concat (map (\<lambda>l. l @ newline) ls) @ s"] by simp
qed simp

lemma chars_of_plain: "plain_char c \<Longrightarrow> str_chars (c # s) = (c # takeWhile is_continuation s) # str_chars (dropWhile is_continuation s)"
  by simp

lemma trim_start_keeps:
  assumes "plain_char c" "s = [] \<or> \<not> is_continuation (hd s)"
  shows "str_trim_start (c # s) = c # s" "str_trim (c # s) \<noteq> []"
proof -
  have t: "takeWhile is_continuation s = []" "dropWhile is_continuation s = s"
    using assms(2) by (cases s; simp)+
  have nw: "\<not> is_whitespace [c]" using assms(1) by (simp add: is_whitespace_single plain_char_def)
  then show "str_trim_start (c # s) = c # s" by (simp add: str_trim_start_def t)
  have "set (str_trim (c # s)) \<noteq> {}"
  proof -
    have "dropWhile is_whitespace (rev (str_chars s) @ [[c]]) \<noteq> []" using nw by (simp add: dropWhile_eq_Nil_conv)
    moreover have "x \<noteq> []" if "x \<in> set (dropWhile is_whitespace (rev (str_chars s) @ [[c]]))" for x
    proof -
      have "x = [c] \<or> x \<in> set (str_chars s)" using set_dropWhileD [OF that] by auto
      moreover have "wf_chars cs \<Longrightarrow> x \<in> set cs \<Longrightarrow> x \<noteq> []" for cs by (induction cs) auto
      ultimately show ?thesis using wf_chars_str_chars [of s] by blast
    qed
    ultimately show ?thesis
      by (cases "dropWhile is_whitespace (rev (str_chars s) @ [[c]])") (auto simp: str_trim_def t nw)
  qed
  then show "str_trim (c # s) \<noteq> []" by auto
qed

lemma active_plain: "plain_char c \<Longrightarrow> c \<noteq> CHR ''#'' \<Longrightarrow> s = [] \<or> \<not> is_continuation (hd s) \<Longrightarrow> active (c # s)"
  using trim_start_keeps by (simp add: active_def starts_with_def)

lemma comment_inactive: "s = [] \<or> \<not> is_continuation (hd s) \<Longrightarrow> \<not> active (CHR ''#'' # s)"
  using trim_start_keeps(1) [of "CHR ''#''" s]
  by (simp add: active_def starts_with_def plain_char_def is_ascii_whitespace_def byte_def)

lemma blank_inactive: "\<not> active []"
  by (simp add: active_def str_trim_def)

lemma ascii_no_continuation: "byte c < 128 \<Longrightarrow> \<not> is_continuation c"
  by (simp add: is_continuation_def)

lemma job_line_active:
  assumes "validate_schedule x = Inr s"
  shows "active (s @ '' '' @ t)"
proof -
  obtain c cs where s: "s = c # cs" "schedule_char c" "list_all (\<lambda>c. schedule_char c \<or> c = CHR '' '') cs"
    using schedule_line_chars [OF assms] by (cases s) auto
  have "\<not> is_continuation (hd (cs @ '' '' @ t))"
    using s(3) schedule_char_plain [of "hd cs"] by (cases cs) (auto simp: is_continuation_def plain_char_def byte_def)
  then show ?thesis
    using schedule_char_plain [OF s(2)] active_plain [of c "cs @ '' '' @ t"] by (simp add: s(1))
qed

definition job_lines :: "slice_placement \<Rightarrow> cron_job \<Rightarrow> str res" where
  "job_lines p job =
     r_bind (validate_schedule (cj_schedule job)) (\<lambda>s. r_bind (validate_command (cj_command job)) (\<lambda>c. job_line s c p))"

lemma job_text_lines:
  assumes "linux_user_parse raw = Inr u" "ascii_alone (str_trim (cj_command job))"
    "job_text (placement_of u) job = Inr t"
  shows "\<exists>line. job_lines (placement_of u) job = Inr line \<and>
    filter active (str_lines (t @ rest)) = (if cj_enabled job then [line] else []) @ filter active (str_lines rest)"
proof -
  obtain s c line where j: "validate_schedule (cj_schedule job) = Inr s" "validate_command (cj_command job) = Inr c"
      "job_line s c (placement_of u) = Inr line"
    and t: "t = newline @ (if cj_enabled job then ''# job '' @ show_int (cj_id job) @ newline @ line
          else ''# job '' @ show_int (cj_id job) @ '' (disabled in the panel)'' @ newline @ ''# '' @ line) @ newline"
    using assms(3) unfolding job_text_def
    by (auto simp: result_simps r_map_err_Inr)
  have "c = str_trim (cj_command job)" using j(2) by (simp add: validate_command_iff)
  then have one: "one_line line" and line: "line = s @ '' '' @ slice_wrapper (placement_of u) @ ''%'' @ escape_command c"
    using one_line_job [OF assms(1) j(1,2) _ j(3)] assms(2) by simp_all
  have act: "active line" unfolding line using job_line_active [OF j(1)] by simp
  have cm: "\<not> active (''# job '' @ x)" "\<not> active (''# '' @ x)" for x
    using comment_inactive [of "'' job '' @ x"] comment_inactive [of "'' '' @ x"] by (simp_all add: is_continuation_def byte_def)
  have note_lines: "one_line (''# job '' @ show_int (cj_id job))"
      "one_line (''# job '' @ show_int (cj_id job) @ '' (disabled in the panel)'')" "one_line (''# '' @ line)"
    using digit_one_line(2) one by simp_all
  have "filter active (str_lines (t @ rest)) = (if cj_enabled job then [line] else []) @ filter active (str_lines rest)"
  proof (cases "cj_enabled job")
    case True
    then have "t @ rest = [] @ newline @ (''# job '' @ show_int (cj_id job)) @ newline @ line @ newline @ rest"
      by (simp add: t)
    then show ?thesis
      using True act cm(1) blank_inactive by (simp only: str_lines_line one note_lines one_line_Nil) simp
  next
    case False
    then have "t @ rest = [] @ newline @ (''# job '' @ show_int (cj_id job) @ '' (disabled in the panel)'') @ newline
        @ (''# '' @ line) @ newline @ rest"
      by (simp add: t)
    then show ?thesis
      using False cm blank_inactive by (simp only: str_lines_line one note_lines one_line_Nil) simp
  qed
  then show ?thesis using j by (auto simp: job_lines_def)
qed


lemma ascii_alone_trim: "ascii_alone s \<Longrightarrow> ascii_alone (str_trim s)"
proof -
  assume a: "ascii_alone s"
  obtain ys zs where "str_chars s = ys @ str_chars (str_trim s) @ zs"
    using trim_list_sub [of "str_chars s" is_whitespace] by (auto simp: str_chars_trim)
  with a show ?thesis by (simp add: ascii_alone_def)
qed

lemma jobs_text_lines:
  assumes "linux_user_parse raw = Inr u" "list_all (\<lambda>j. ascii_alone (cj_command j)) jobs"
    "jobs_text (placement_of u) jobs = Inr t"
  shows "\<exists>ls. collect_results (map (job_lines (placement_of u)) (filter cj_enabled jobs)) = Inr ls
    \<and> filter active (str_lines t) = ls"
  using assms(2,3)
proof (induction jobs arbitrary: t)
  case (Cons job jobs)
  then obtain a b where ab: "job_text (placement_of u) job = Inr a" "jobs_text (placement_of u) jobs = Inr b" "t = a @ b"
    by (auto simp: result_simps)
  from Cons.IH [OF _ ab(2)] Cons.prems(1) obtain ls where
    ls: "collect_results (map (job_lines (placement_of u)) (filter cj_enabled jobs)) = Inr ls" "filter active (str_lines b) = ls"
    by auto
  have "ascii_alone (str_trim (cj_command job))" using Cons.prems(1) ascii_alone_trim by simp
  from job_text_lines [OF assms(1) this ab(1), of b] ls show ?case
    by (auto simp: ab(3) result_simps)
qed simp

lemma header_lines:
  assumes "linux_user_parse raw = Inr u"
  shows "list_all one_line (crontab_header i (placement_of u))" "list_all (\<lambda>l. \<not> active l) (crontab_header i (placement_of u))"
proof -
  have p: "one_line (pl_linux_user (placement_of u))" "one_line (pl_slice_unit (placement_of u))"
    using placement_chars [OF assms] placement_char_facts by (auto simp: one_line_def list_all_iff)
  show "list_all one_line (crontab_header i (placement_of u))"
    using p by (simp add: crontab_header_def managed_marker_def digit_one_line)
  show "list_all (\<lambda>l. \<not> active l) (crontab_header i (placement_of u))"
    by (simp add: crontab_header_def managed_marker_def comment_inactive is_continuation_def byte_def)
qed

definition mail_ok :: "cron_mail \<Rightarrow> bool" where
  "mail_ok m = (case m of Nobody \<Rightarrow> True | MailTo e \<Rightarrow> email_parse (email_as_str e) = Inr e)"

lemma mail_line:
  assumes "mail_ok m"
  shows "one_line (''MAILTO='' @ mail_value m)" "active (''MAILTO='' @ mail_value m)"
proof -
  have "email_char_ok c \<Longrightarrow> c \<noteq> CHR 0x0A \<and> c \<noteq> CHR 0x0D" for c by (auto simp: email_char_ok_def)
  moreover have "list_all email_char_ok (email_as_str e)" if "email_parse (email_as_str e) = Inr e" for e
    using that by (metis email.sel email_parse_iff)
  ultimately have "one_line (mail_value m)"
    using assms by (cases m) (auto simp: mail_ok_def one_line_def list_all_iff)
  then show "one_line (''MAILTO='' @ mail_value m)" by simp
  show "active (''MAILTO='' @ mail_value m)"
    using active_plain [of "CHR ''M''" "''AILTO='' @ mail_value m"]
    by (simp add: plain_char_def is_ascii_whitespace_def is_continuation_def byte_def)
qed

section \<open>Backslashes\<close>

text \<open>Every backslash is followed by a character that is neither a backslash nor a percent sign.\<close>

fun lone_backslashes :: "str \<Rightarrow> bool" where
  "lone_backslashes [] = True"
| "lone_backslashes [c] = (c \<noteq> CHR 0x5C)"
| "lone_backslashes (c # d # s) = ((c = CHR 0x5C \<longrightarrow> d \<noteq> CHR 0x5C \<and> d \<noteq> CHR ''%'') \<and> lone_backslashes (d # s))"

lemma lone_append: "lone_backslashes a \<Longrightarrow> lone_backslashes b \<Longrightarrow> lone_backslashes (a @ b)"
proof (induction a rule: lone_backslashes.induct)
  case (2 c)
  then show ?case by (cases b) auto
qed auto

lemma lone_fresh: "CHR 0x5C \<notin> set a \<Longrightarrow> lone_backslashes a"
  by (induction a rule: lone_backslashes.induct) auto

lemma lone_slice: "list_all user_char u \<Longrightarrow> lone_backslashes (str_replace_char CHR ''-'' (CHR 0x5C # ''x2d'') u)"
proof (induction u)
  case (Cons c u)
  have "c \<noteq> CHR 0x5C" using Cons.prems by (auto simp: user_char_def ascii_defs byte_def)
  then have "lone_backslashes (if c = CHR ''-'' then CHR 0x5C # ''x2d'' else [c])" by simp
  moreover have "lone_backslashes (str_replace_char CHR ''-'' (CHR 0x5C # ''x2d'') u)" using Cons by simp
  ultimately have "lone_backslashes ((if c = CHR ''-'' then CHR 0x5C # ''x2d'' else [c])
      @ str_replace_char CHR ''-'' (CHR 0x5C # ''x2d'') u)" by (rule lone_append)
  then show ?case by (simp add: str_replace_char_def)
qed (simp add: str_replace_char_def)

lemma lone_wrapper:
  assumes "linux_user_parse raw = Inr u"
  shows "lone_backslashes (slice_wrapper (placement_of u))"
proof -
  have u: "list_all user_char (linux_user_as_str u)"
    using assms by (auto simp: linux_user_parse_iff Let_def)
  then have "CHR 0x5C \<notin> set (linux_user_as_str u)" by (auto simp: list_all_iff user_char_def ascii_defs byte_def)
  then have "lone_backslashes (linux_user_as_str u)" "lone_backslashes (''/home/'' @ linux_user_as_str u)"
    by (auto intro!: lone_fresh)
  moreover have "lone_backslashes (slice_file_name u)"
    unfolding slice_file_name_def by (intro lone_append lone_slice u) simp_all
  ultimately show ?thesis
    unfolding slice_wrapper_def placement_of_def tenant_home_def quote_mark_def
    by (simp only: slice_placement.simps) (intro lone_append; simp)
qed

text \<open>
  How cron reads the command field, as the module documents it: the first unescaped percent sign
  ends what the shell gets, the rest is its standard input, and an escaped one is a percent sign.
\<close>

definition reads_as_cron :: "(str \<Rightarrow> str \<times> str) \<Rightarrow> (str \<Rightarrow> str) \<Rightarrow> bool" where
  "reads_as_cron split stdin \<longleftrightarrow>
     (\<forall>a b. CHR ''%'' \<notin> set a \<longrightarrow> lone_backslashes a \<longrightarrow> split (a @ CHR ''%'' # b) = (a, stdin b))
     \<and> stdin [] = []
     \<and> (\<forall>c s. c \<noteq> CHR ''%'' \<longrightarrow> c \<noteq> CHR 0x5C \<longrightarrow> stdin (c # s) = c # stdin s)
     \<and> (\<forall>s. stdin (CHR 0x5C # CHR ''%'' # s) = CHR ''%'' # stdin s)
     \<and> (\<forall>c s. c \<noteq> CHR ''%'' \<longrightarrow> stdin (CHR 0x5C # c # s) = CHR 0x5C # stdin (c # s))"

lemma escape_Cons: "escape_command (c # s) = (if c = CHR ''%'' then [CHR 0x5C, CHR ''%''] else [c]) @ escape_command s"
  by (simp add: escape_command_def str_replace_char_def)

lemma escape_Nil [simp]: "escape_command [] = []"
  by (simp add: escape_command_def str_replace_char_def)

lemma stdin_escape:
  assumes "reads_as_cron split stdin" "c = [] \<or> last c \<noteq> CHR 0x5C"
  shows "stdin (escape_command c) = c"
  using assms(2)
proof (induction c)
  case Nil
  then show ?case using assms(1) by (simp add: reads_as_cron_def)
next
  case (Cons d c)
  then have IH: "stdin (escape_command c) = c" by (cases "c = []") auto
  consider "d = CHR ''%''" | "d = CHR 0x5C" | "d \<noteq> CHR ''%''" "d \<noteq> CHR 0x5C" by blast
  then show ?case
  proof cases
    case 2
    then obtain e r where c: "c = e # r" using Cons.prems by (cases c) auto
    then show ?thesis
      using 2 IH assms(1) by (cases "e = CHR ''%''") (auto simp: reads_as_cron_def escape_Cons)
  qed (use IH assms(1) in \<open>auto simp: reads_as_cron_def escape_Cons\<close>)
qed

section \<open>Theorems\<close>

text \<open>A schedule the panel stores has exactly five fields joined by single spaces, each a list of items of the documented grammar with values in the field's range and a step no wider than what it walks; it is made of digits, stars, commas, hyphens, slashes and these spaces only, and validating it again gives it back.\<close>

theorem accepted_schedules_are_canonical:
  assumes "validate_schedule raw = Inr s"
  shows "(\<exists>fs. s = str_join '' '' fs \<and> schedule_fields fs)
    \<and> list_all (\<lambda>c. schedule_char c \<or> c = CHR '' '') s
    \<and> validate_schedule s = Inr s"
proof -
  from assms obtain fs where fs: "s = str_join '' '' fs" "schedule_fields fs" "fs \<noteq> []" "length s \<le> 256"
    by (rule accepted_schedule)
  then show ?thesis
    using schedule_of_fields [of fs] schedule_line_chars [OF assms] by auto
qed

text \<open>C11: Whatever command a tenant saves, cron, reading the line the panel writes for it, gives root's shell the panel's own words only and hands the command, byte for byte, to the shell of the tenant on standard input. What it writes is one line of the file: without the bytes of a newline or a carriage return, for a command that is valid text (\<open>ascii_alone\<close>), as every Rust string is.\<close>

theorem command_reaches_only_standard_input:
  assumes "reads_as_cron split stdin" "linux_user_parse user = Inr u" "validate_schedule raw = Inr s"
    "validate_command given = Inr c" "job_line s c (placement_of u) = Inr line"
  shows "line = s @ '' '' @ slice_wrapper (placement_of u) @ ''%'' @ escape_command c
    \<and> split (slice_wrapper (placement_of u) @ ''%'' @ escape_command c) = (slice_wrapper (placement_of u), c)
    \<and> (ascii_alone c \<longrightarrow> one_line line)"
proof -
  have "stdin (escape_command c) = c"
    using stdin_escape [OF assms(1)] assms(4) [unfolded validate_command_iff] by blast
  moreover have "split (slice_wrapper (placement_of u) @ CHR ''%'' # escape_command c)
      = (slice_wrapper (placement_of u), stdin (escape_command c))"
    using assms(1) wrapper_chars(1) [OF assms(2)] lone_wrapper [OF assms(2)] by (simp add: reads_as_cron_def)
  moreover have "one_line line" if "ascii_alone c" using one_line_job(1) [OF assms(2-4) that assms(5)] .
  ultimately show ?thesis
    using assms(5) by (auto simp: job_line_def Let_def split: if_splits)
qed

text \<open>In the file rendered for a subscription, the lines cron acts on are the mail setting and one line for each enabled job, in order, whatever the jobs' commands contain, and the panel recognises the file as its own.\<close>

theorem crontab_runs_only_the_jobs:
  assumes "linux_user_parse user = Inr u" "mail_ok mail" "list_all (\<lambda>j. ascii_alone (cj_command j)) jobs"
    "render_crontab subscription jobs (placement_of u) mail = Inr text"
  shows "\<exists>ls. collect_results (map (job_lines (placement_of u)) (filter cj_enabled jobs)) = Inr ls
    \<and> filter active (str_lines text) = (''MAILTO='' @ mail_value mail) # ls
    \<and> is_unihelm_crontab text"
proof -
  obtain body where body: "jobs_text (placement_of u) jobs = Inr body"
    and out: "text = concat (map (\<lambda>l. l @ newline) (crontab_header subscription (placement_of u) @ [''MAILTO='' @ mail_value mail])) @ body"
    using assms(4) by (auto simp: render_crontab_def result_simps)
  have lines: "str_lines text = crontab_header subscription (placement_of u) @ (''MAILTO='' @ mail_value mail) # str_lines body"
    unfolding out using header_lines(1) [OF assms(1)] mail_line(1) [OF assms(2)]
    by (subst str_lines_concat) simp_all
  have "filter active (crontab_header subscription (placement_of u)) = []"
    using header_lines(2) [OF assms(1)] by (simp add: filter_empty_conv list_all_iff)
  moreover have "is_unihelm_crontab text"
    using trim_start_keeps(1) [of "CHR ''#''" "tl (hd (crontab_header subscription (placement_of u)))"]
    by (simp add: is_unihelm_crontab_def lines crontab_header_def managed_marker_def starts_with_def
        plain_char_def is_ascii_whitespace_def is_continuation_def byte_def)
  ultimately show ?thesis
    using jobs_text_lines [OF assms(1,3) body] mail_line(2) [OF assms(2)] by (simp add: lines)
qed


section \<open>Witnesses\<close>

lemma grammar_star: "item_grammar spec ''*''"
  by (simp add: item_grammar_def step_suffix_def)

lemma grammar_value:
  "list_all is_ascii_digit t \<Longrightarrow> t \<noteq> [] \<Longrightarrow> length t \<le> 2 \<Longrightarrow> fs_min spec \<le> digits_value t \<Longrightarrow> digits_value t \<le> fs_max spec
    \<Longrightarrow> item_grammar spec t"
  by (simp add: item_grammar_def field_value_def parse_number_iff)

definition nightly :: str where "nightly = str_join '' '' [''0'', ''3'', ''*'', ''*'', ''*'']"

lemma nightly_valid: "validate_schedule nightly = Inr nightly"
proof -
  have "schedule_fields [''0'', ''3'', ''*'', ''*'', ''*'']"
    by (simp add: schedule_fields_def cron_fields_def grammar_star grammar_value is_ascii_digit_def byte_def
        digits_value_def digit_val_def)
  then show ?thesis unfolding nightly_def by (rule schedule_of_fields) simp
qed

theorem accepted_schedules_are_canonical_witness:
  "list_all (\<lambda>c. schedule_char c \<or> c = CHR '' '') nightly \<and> validate_schedule nightly = Inr nightly"
  using accepted_schedules_are_canonical [OF nightly_valid] by blast

text \<open>A reader of the command field that reads as documented.\<close>

fun cron_stdin :: "str \<Rightarrow> str" where
  "cron_stdin [] = []"
| "cron_stdin [c] = [c]"
| "cron_stdin (c # d # s) =
     (if c = CHR 0x5C \<and> d = CHR ''%'' then CHR ''%'' # cron_stdin s else c # cron_stdin (d # s))"

fun cron_split :: "str \<Rightarrow> str \<times> str" where
  "cron_split [] = ([], [])"
| "cron_split [c] = (if c = CHR ''%'' then ([], []) else ([c], []))"
| "cron_split (c # d # s) =
     (if c = CHR ''%'' then ([], cron_stdin (d # s))
      else if c = CHR 0x5C then (case cron_split s of (a, b) \<Rightarrow> (c # d # a, b))
      else (case cron_split (d # s) of (a, b) \<Rightarrow> (c # a, b)))"

lemma cron_stdin_Cons: "c \<noteq> CHR 0x5C \<Longrightarrow> cron_stdin (c # s) = c # cron_stdin s"
  by (cases s) auto

lemma lone_tl: "lone_backslashes (d # s) \<Longrightarrow> lone_backslashes s"
  by (cases s) auto

lemma cron_split_at: "CHR ''%'' \<notin> set a \<Longrightarrow> lone_backslashes a \<Longrightarrow> cron_split (a @ CHR ''%'' # b) = (a, cron_stdin b)"
proof (induction a rule: cron_split.induct)
  case 1
  then show ?case by (cases b) auto
next
  case (2 c)
  then show ?case by (cases b) auto
next
  case (3 c d s)
  then show ?case using lone_tl [of d s] by auto
qed

lemma cron_reads: "reads_as_cron cron_split cron_stdin"
  using cron_split_at cron_stdin_Cons by (auto simp: reads_as_cron_def)

definition alice :: linux_user where "alice = LinuxUser ''al-x''"

lemma alice_parses: "linux_user_parse ''al-x'' = Inr alice"
proof -
  have "str_trim ''al-x'' = ''al-x''"
    by (rule str_trim_plain) (simp add: plain_char_def is_ascii_whitespace_def byte_def)
  then show ?thesis
    by (simp add: linux_user_parse_iff alice_def user_char_def ascii_defs byte_def reserved_system_users_def)
qed

definition sample_command :: str where "sample_command = ''date +%F'' @ [CHR 0x5C, CHR ''%'', CHR ''z'']"

definition sample_line :: str where
  "sample_line = nightly @ '' '' @ slice_wrapper (placement_of alice) @ ''%'' @ escape_command sample_command"

lemma ascii_count: "ascii s \<Longrightarrow> char_count s = length s"
  by (simp add: char_count_def str_chars_ascii)

lemma sample_command_facts: "ascii sample_command" "str_trim sample_command = sample_command"
proof -
  show a: "ascii sample_command" by (simp add: ascii_def sample_command_def byte_def)
  show "str_trim sample_command = sample_command"
    by (rule str_trim_plain_ends [OF a]) (simp add: sample_command_def plain_char_def is_ascii_whitespace_def byte_def)
qed

lemma sample_command_valid: "validate_command sample_command = Inr sample_command"
  unfolding validate_command_iff sample_command_facts(2) ascii_count [OF sample_command_facts(1)]
    str_chars_ascii [OF sample_command_facts(1)]
  by (simp add: sample_command_def is_control_def is_ascii_control_def byte_def)

lemma sample_line_short: "char_count sample_line \<le> 1000"
proof -
  have line: "sample_line = ''0 3 * * * root systemd-run --quiet --collect --wait --pipe --slice='' @ [CHR 0x27]
      @ ''unihelm-al'' @ [CHR 0x5C] @ ''x2dx.slice'' @ [CHR 0x27]
      @ '' --uid=al-x --working-directory=/home/al-x -- /bin/sh%date +'' @ [CHR 0x5C] @ ''%F'' @ [CHR 0x5C, CHR 0x5C] @ ''%z''"
    by (simp add: sample_line_def nightly_def slice_wrapper_def placement_of_def tenant_home_def quote_mark_def alice_def
        slice_file_name_def str_replace_char_def escape_command_def sample_command_def)
  have "ascii sample_line" unfolding line by (simp add: ascii_def byte_def)
  then show ?thesis by (simp only: ascii_count) (simp add: line)
qed

lemma sample_line_facts: "job_line nightly sample_command (placement_of alice) = Inr sample_line"
  using sample_line_short by (simp add: job_line_def Let_def max_crontab_line_chars_def sample_line_def)

theorem command_reaches_only_standard_input_witness:
  "cron_split (slice_wrapper (placement_of alice) @ ''%'' @ escape_command sample_command) = (slice_wrapper (placement_of alice), sample_command)"
  using command_reaches_only_standard_input [OF cron_reads alice_parses nightly_valid sample_command_valid sample_line_facts] by blast

definition sample_jobs :: "cron_job list" where
  "sample_jobs =
    [\<lparr>cj_id = 1, cj_subscription_id = 4, cj_schedule = nightly, cj_command = sample_command, cj_enabled = True,
      cj_last_error = None, cj_created_at = 0, cj_updated_at = 0\<rparr>,
     \<lparr>cj_id = 2, cj_subscription_id = 4, cj_schedule = nightly, cj_command = sample_command, cj_enabled = False,
      cj_last_error = None, cj_created_at = 0, cj_updated_at = 0\<rparr>]"

theorem crontab_runs_only_the_jobs_witness:
  "\<exists>out. render_crontab 4 sample_jobs (placement_of alice) Nobody = Inr out
     \<and> filter active (str_lines out) = [''MAILTO='' @ mail_value Nobody, sample_line]"
proof -
  have alone: "ascii_alone sample_command"
    by (simp add: ascii_alone_def str_chars_ascii [OF sample_command_facts(1)] list_all_iff)
  have j: "collect_results (map (job_lines (placement_of alice)) (filter cj_enabled sample_jobs)) = Inr [sample_line]"
      "list_all (\<lambda>j. ascii_alone (cj_command j)) sample_jobs" "mail_ok Nobody"
    by (simp_all add: sample_jobs_def job_lines_def nightly_valid sample_command_valid sample_line_facts alone mail_ok_def)
  obtain out where r: "render_crontab 4 sample_jobs (placement_of alice) Nobody = Inr out"
    by (simp add: render_crontab_def sample_jobs_def job_text_def nightly_valid sample_command_valid sample_line_facts)
  from crontab_runs_only_the_jobs [OF alice_parses j(3,2) r] r show ?thesis by (simp add: j)
qed

end
