(* ===== verification/Cron_Jobs.thy ===== *)
theory Cron_Jobs
  imports Subscriptions Cron_Text
begin

text \<open>
  Cron jobs as rows and as files: the \<open>cron_jobs\<close> table (\<open>unihelm-db/src/cron.rs\<close>) and the
  operations \<open>cron.list\<close>, \<open>cron.set\<close> and \<open>cron.delete\<close> (\<open>unihelm-ops/src/cron.rs\<close>). The machine is
  what the trait \<open>CronHost\<close> shows of it, and what its calls answer when they fail is an argument.
  The lemmas show that every stored row can be rendered, that the installed file is the rendering of
  the table, that foreign files are never touched, and that tenants only reach their own jobs.
\<close>

section \<open>The table\<close>

record cron_job_row =
  cr_id :: int
  cr_subscription_id :: int
  cr_schedule :: str
  cr_command :: str
  cr_enabled :: int
  cr_last_error :: "str option"
  cr_created_at :: str
  cr_updated_at :: str

record machine =
  mc_spool :: "str \<Rightarrow> str option"
  mc_managed :: "str \<Rightarrow> str option"
  mc_slices :: "str \<Rightarrow> bool"

record cron_world =
  cw_db :: accounts_db
  cw_jobs :: "cron_job_row list"
  cw_seq :: int
  cw_machine :: machine

definition max_jobs_per_subscription :: nat where "max_jobs_per_subscription = 100"

definition cron_job_of_row :: "'j codec \<Rightarrow> cron_job_row \<Rightarrow> cron_job db_res" where
  "cron_job_of_row c r =
     r_bind (from_sql_time c (cr_created_at r)) (\<lambda>created.
     r_bind (from_sql_time c (cr_updated_at r)) (\<lambda>updated.
       Inr \<lparr>cj_id = cr_id r, cj_subscription_id = cr_subscription_id r, cj_schedule = cr_schedule r,
            cj_command = cr_command r, cj_enabled = (cr_enabled r \<noteq> 0), cj_last_error = cr_last_error r,
            cj_created_at = created, cj_updated_at = updated\<rparr>))"

definition cron_visible :: "accounts_db \<Rightarrow> scope_filter \<Rightarrow> cron_job_row \<Rightarrow> bool" where
  "cron_visible db f r =
     (case f of
        FAll \<Rightarrow> True
      | FReseller reseller \<Rightarrow>
          list_ex (\<lambda>s. sbr_id s = cr_subscription_id r
            \<and> list_ex (\<lambda>u. ur_id u = sbr_customer_id s \<and> ur_reseller_id u = Some reseller) (ut_rows (ad_users db))) (ad_subs db)
      | FCustomer customer \<Rightarrow> list_ex (\<lambda>s. sbr_id s = cr_subscription_id r \<and> sbr_customer_id s = customer) (ad_subs db)
      | FSubscription s _ \<Rightarrow> cr_subscription_id r = s)"

definition fetch_cron_job :: "accounts_db \<Rightarrow> scope_filter \<Rightarrow> cron_job_row list \<Rightarrow> int \<Rightarrow> cron_job_row option" where
  "fetch_cron_job db f rows i = find (\<lambda>r. cr_id r = i \<and> cron_visible db f r) rows"

definition cron_job_by_id :: "'j codec \<Rightarrow> scope_filter \<Rightarrow> cron_world \<Rightarrow> int \<Rightarrow> cron_job option db_res" where
  "cron_job_by_id c f w i =
     (case fetch_cron_job (cw_db w) f (cw_jobs w) i of
        None \<Rightarrow> Inr None
      | Some r \<Rightarrow> r_bind (cron_job_of_row c r) (\<lambda>j. Inr (Some j)))"

text \<open>\<open>ORDER BY\<close> is sorting by the last key first, as sorting is stable.\<close>

definition render_order :: "cron_job_row list \<Rightarrow> cron_job_row list" where
  "render_order rows = sort_key cr_schedule (sort_key cr_command (sort_key cr_id rows))"

definition cron_jobs_page :: "scope_filter \<Rightarrow> cron_world \<Rightarrow> int \<Rightarrow> int \<Rightarrow> cron_job_row list" where
  "cron_jobs_page f w lim off =
     take (nat (max 1 (min lim 500))) (drop (nat off)
       (sort_key cr_subscription_id (render_order (filter (cron_visible (cw_db w) f) (cw_jobs w)))))"

definition list_cron_jobs :: "'j codec \<Rightarrow> scope_filter \<Rightarrow> cron_world \<Rightarrow> int \<Rightarrow> int \<Rightarrow> cron_job list db_res" where
  "list_cron_jobs c f w lim off = collect_results (map (cron_job_of_row c) (cron_jobs_page f w lim off))"

definition jobs_of :: "int \<Rightarrow> cron_job_row list \<Rightarrow> cron_job_row list" where
  "jobs_of s rows = filter (\<lambda>r. cr_subscription_id r = s) rows"

definition create_cron_job ::
  "'j codec \<Rightarrow> int \<Rightarrow> int \<Rightarrow> str \<Rightarrow> str \<Rightarrow> bool \<Rightarrow> cron_world \<Rightarrow> cron_world \<times> cron_job db_res" where
  "create_cron_job c now sub schedule command enabled w =
     (if max_jobs_per_subscription \<le> length (jobs_of sub (cw_jobs w)) then
        (w, Inl (DbConflict ''cron job (this subscription is at its job limit)''))
      else if \<not> list_ex (\<lambda>s. sbr_id s = sub) (ad_subs (cw_db w)) then
        (w, Inl (Sqlx ''FOREIGN KEY constraint failed''))
      else
        let i = cw_seq w + 1; ts = to_sql_time c now;
            row = \<lparr>cr_id = i, cr_subscription_id = sub, cr_schedule = schedule, cr_command = command,
                   cr_enabled = of_bool enabled, cr_last_error = None, cr_created_at = ts, cr_updated_at = ts\<rparr>
        in (w\<lparr>cw_jobs := cw_jobs w @ [row], cw_seq := i\<rparr>, cron_job_of_row c row))"

definition cron_jobs_for_render :: "'j codec \<Rightarrow> int \<Rightarrow> cron_world \<Rightarrow> cron_job list db_res" where
  "cron_jobs_for_render c sub w = collect_results (map (cron_job_of_row c) (render_order (jobs_of sub (cw_jobs w))))"

definition set_cron_last_error :: "'j codec \<Rightarrow> int \<Rightarrow> int \<Rightarrow> str option \<Rightarrow> cron_world \<Rightarrow> cron_world" where
  "set_cron_last_error c now sub err w =
     w\<lparr>cw_jobs := fst (sql_update (\<lambda>r. cr_subscription_id r = sub)
         (\<lambda>r. r\<lparr>cr_last_error := err, cr_updated_at := to_sql_time c now\<rparr>) (cw_jobs w))\<rparr>"

record cron_job_update =
  cu_schedule :: "str option"
  cu_command :: "str option"
  cu_enabled :: "bool option"

definition updated_cron_job :: "'j codec \<Rightarrow> int \<Rightarrow> cron_job_update \<Rightarrow> cron_job_row \<Rightarrow> cron_job_row" where
  "updated_cron_job c now u r =
     r\<lparr>cr_schedule := coalesce (cu_schedule u) (cr_schedule r), cr_command := coalesce (cu_command u) (cr_command r),
       cr_enabled := coalesce (map_option of_bool (cu_enabled u)) (cr_enabled r), cr_updated_at := to_sql_time c now\<rparr>"

definition update_cron_job ::
  "'j codec \<Rightarrow> scope_filter \<Rightarrow> int \<Rightarrow> int \<Rightarrow> cron_job_update \<Rightarrow> cron_world \<Rightarrow> cron_world \<times> cron_job db_res" where
  "update_cron_job c f now i u w =
     (case r_bind (cron_job_by_id c f w i) (ok_or (DbNotFound ''cron job'')) of
        Inl e \<Rightarrow> (w, Inl e)
      | Inr _ \<Rightarrow>
          let w1 = w\<lparr>cw_jobs := fst (sql_update (\<lambda>r. cr_id r = i) (updated_cron_job c now u) (cw_jobs w))\<rparr>
          in (w1, r_bind (cron_job_by_id c f w1 i) (ok_or (DbNotFound ''cron job''))))"

definition delete_cron_job :: "'j codec \<Rightarrow> scope_filter \<Rightarrow> int \<Rightarrow> cron_world \<Rightarrow> cron_world \<times> cron_job db_res" where
  "delete_cron_job c f i w =
     (case r_bind (cron_job_by_id c f w i) (ok_or (DbNotFound ''cron job'')) of
        Inl e \<Rightarrow> (w, Inl e)
      | Inr job \<Rightarrow> (w\<lparr>cw_jobs := filter (\<lambda>r. cr_id r \<noteq> i) (cw_jobs w)\<rparr>, Inr job))"

section \<open>The machine\<close>

text \<open>What a call of \<open>CronHost\<close> answers instead of doing its work, by account (or unit).\<close>

record cron_env =
  ce_read_spool :: "str \<Rightarrow> uni_error option"
  ce_remove_spool :: "str \<Rightarrow> uni_error option"
  ce_read_managed :: "str \<Rightarrow> uni_error option"
  ce_install :: "str \<Rightarrow> uni_error option"
  ce_slice :: "str \<Rightarrow> uni_error option"

definition host_call :: "uni_error option \<Rightarrow> 'a \<Rightarrow> 'a res" where
  "host_call failure v = (case failure of Some e \<Rightarrow> Inl e | None \<Rightarrow> Inr v)"

definition conflict_error :: "str \<Rightarrow> uni_error" where
  "conflict_error msg = new_error Conflict msg"

definition resolve_placement :: "cron_env \<Rightarrow> machine \<Rightarrow> linux_user \<Rightarrow> slice_placement res" where
  "resolve_placement env mc user =
     (let slice_unit = slice_file_name user in
      r_bind (host_call (ce_slice env slice_unit) (mc_slices mc slice_unit)) (\<lambda>exists.
        if \<not> exists then
          Inl (conflict_error (''`'' @ linux_user_as_str user @ ''` has no resource-limit slice on this host: /etc/systemd/system/''
            @ slice_unit @ '' is missing, so a cron job for this subscription could only run with the whole machine's memory ''
            @ ''and CPU. The panel will not schedule it unconfined. Re-provision this subscription to write the slice unit, ''
            @ ''then save the job again.''))
        else Inr (placement_of user)))"

definition resolve_cron_mail :: "'j codec \<Rightarrow> accounts_db \<Rightarrow> subscription \<Rightarrow> cron_mail res" where
  "resolve_cron_mail c db s =
     r_bind (r_map_err uni_error_from (user_by_id c FAll (ad_users db) (sb_customer_id s))) (\<lambda>owner.
       case owner of
         None \<Rightarrow> Inr Nobody
       | Some u \<Rightarrow> Inr (case email_parse (email_as_str (u_email u)) of Inr e \<Rightarrow> MailTo e | Inl _ \<Rightarrow> Nobody))"

definition ensure_plan_allows_cron :: "'j codec \<Rightarrow> accounts_db \<Rightarrow> subscription \<Rightarrow> unit res" where
  "ensure_plan_allows_cron c db s =
     r_bind (r_map_err uni_error_from (plan_of_subscription c db (sb_id s))) (\<lambda>p.
       case p of
         None \<Rightarrow> Inr ()
       | Some p \<Rightarrow>
           if pl_can_cron p then Inr ()
           else Inl (new_error PlanFeatureDisabled (''plan `'' @ pl_name p @ ''` does not include cron jobs'')))"

definition ensure_crontab_is_ours :: "cron_env \<Rightarrow> machine \<Rightarrow> linux_user \<Rightarrow> bool res" where
  "ensure_crontab_is_ours env mc user =
     (let u = linux_user_as_str user in
      r_bind (host_call (ce_read_spool env u) (mc_spool mc u)) (\<lambda>existing.
        case existing of
          None \<Rightarrow> Inr False
        | Some content \<Rightarrow>
            if is_unihelm_crontab content then Inr True
            else Inl (conflict_error (''`'' @ u @ ''` already has a crontab that Unihelm did not write. Its jobs run outside ''
              @ ''this subscription's resource limits and the panel cannot show or replace them. Save a copy (`crontab -u ''
              @ u @ '' -l`), remove it (`crontab -u '' @ u @ '' -r`), then add the jobs here.''))))"

definition ensure_managed_file_is_ours :: "cron_env \<Rightarrow> machine \<Rightarrow> linux_user \<Rightarrow> unit res" where
  "ensure_managed_file_is_ours env mc user =
     (let u = linux_user_as_str user in
      r_bind (host_call (ce_read_managed env u) (mc_managed mc u)) (\<lambda>existing.
        case existing of
          None \<Rightarrow> Inr ()
        | Some content \<Rightarrow>
            if is_unihelm_crontab content then Inr ()
            else Inl (conflict_error (''/etc/cron.d/unihelm-'' @ u
              @ '' exists and Unihelm did not write it, so the panel will not replace it. Move it aside, then save the job again.''))))"

record cron_target =
  ct_placement :: slice_placement
  ct_mail :: cron_mail
  ct_legacy :: bool

definition prepare_cron :: "'j codec \<Rightarrow> cron_env \<Rightarrow> cron_world \<Rightarrow> subscription \<Rightarrow> cron_target res" where
  "prepare_cron c env w s =
     r_bind (linux_user_parse (sb_linux_user s)) (\<lambda>user.
     r_bind (ensure_crontab_is_ours env (cw_machine w) user) (\<lambda>legacy.
     r_bind (ensure_managed_file_is_ours env (cw_machine w) user) (\<lambda>_.
     r_bind (resolve_placement env (cw_machine w) user) (\<lambda>p.
     r_bind (resolve_cron_mail c (cw_db w) s) (\<lambda>mail.
       Inr \<lparr>ct_placement = p, ct_mail = mail, ct_legacy = legacy\<rparr>)))))"

definition retire_spool :: "cron_env \<Rightarrow> str \<Rightarrow> cron_world \<Rightarrow> cron_world \<times> unit res" where
  "retire_spool env u w =
     (case ce_remove_spool env u of
        Some e \<Rightarrow> (w, Inl e)
      | None \<Rightarrow> (w\<lparr>cw_machine := (cw_machine w)\<lparr>mc_spool := (mc_spool (cw_machine w))(u := None)\<rparr>\<rparr>, Inr ()))"

definition install_from_db ::
  "'j codec \<Rightarrow> int \<Rightarrow> cron_env \<Rightarrow> subscription \<Rightarrow> cron_target \<Rightarrow> cron_world \<Rightarrow> cron_world \<times> nat res" where
  "install_from_db c now env s t w =
     (case r_bind (linux_user_parse (sb_linux_user s)) (\<lambda>user.
           r_bind (r_map_err uni_error_from (cron_jobs_for_render c (sb_id s) w)) (\<lambda>jobs.
           r_bind (render_crontab (sb_id s) jobs (ct_placement t) (ct_mail t)) (\<lambda>content.
             Inr (linux_user_as_str user, jobs, content)))) of
        Inl e \<Rightarrow> (w, Inl e)
      | Inr (u, jobs, content) \<Rightarrow>
          (case ce_install env u of
             Some e \<Rightarrow> (set_cron_last_error c now (sb_id s) (Some (detail e)) w, Inl e)
           | None \<Rightarrow>
               let w1 = w\<lparr>cw_machine := (cw_machine w)\<lparr>mc_managed := (mc_managed (cw_machine w))(u \<mapsto> content)\<rparr>\<rparr>;
                   w2 = set_cron_last_error c now (sb_id s) None w1;
                   scheduled = length (filter cj_enabled jobs)
               in if ct_legacy t then
                    (case retire_spool env u w2 of
                       (w3, Inl e) \<Rightarrow> (w3, Inl e)
                     | (w3, Inr _) \<Rightarrow> (w3, Inr scheduled))
                  else (w2, Inr scheduled)))"

section \<open>The operations\<close>

definition cron_subscription ::
  "'j codec \<Rightarrow> int \<Rightarrow> (nat \<Rightarrow> nat list) \<Rightarrow> auth_context \<Rightarrow> int option \<Rightarrow> cron_world \<Rightarrow> cron_world \<times> subscription res" where
  "cron_subscription c now draws auth i w =
     (case i of
        Some raw \<Rightarrow>
          (w, r_bind (r_map_err uni_error_from (subscription_by_id c (filter_from_scope (tenant_scope auth)) (cw_db w) raw))
                (ok_or (not_found_error ''subscription'')))
      | None \<Rightarrow>
          (case default_subscription_for c now draws (actor_user_id auth) (cw_db w) of
             (db, r) \<Rightarrow> (w\<lparr>cw_db := db\<rparr>, r_map_err uni_error_from r)))"

definition cron_list ::
  "'j codec \<Rightarrow> int \<Rightarrow> (nat \<Rightarrow> nat list) \<Rightarrow> auth_context \<Rightarrow> int option \<Rightarrow> int option \<Rightarrow> int option \<Rightarrow> cron_world
     \<Rightarrow> cron_world \<times> cron_job list res" where
  "cron_list c now draws auth sub lim off w =
     (let page = (\<lambda>f w. r_map_err uni_error_from (list_cron_jobs c f w (coalesce lim 200) (coalesce off 0))) in
      case sub of
        Some raw \<Rightarrow>
          (case cron_subscription c now draws auth (Some raw) w of
             (w1, Inl e) \<Rightarrow> (w1, Inl e)
           | (w1, Inr s) \<Rightarrow> (w1, page (FSubscription (sb_id s) (sb_customer_id s)) w1))
      | None \<Rightarrow> (w, page (filter_from_scope (tenant_scope auth)) w))"

record cron_set_input =
  cs_id :: "int option"
  cs_subscription_id :: "int option"
  cs_schedule :: str
  cs_command :: str
  cs_enabled :: bool

record cron_set_output =
  co_job :: cron_job
  co_scheduled :: nat
  co_linux_user :: str

definition subscription_of_job :: "'j codec \<Rightarrow> cron_world \<Rightarrow> cron_job \<Rightarrow> subscription res" where
  "subscription_of_job c w job =
     r_bind (r_map_err uni_error_from (subscription_by_id c FAll (cw_db w) (cj_subscription_id job)))
       (ok_or (internal_error ''the job's subscription is missing''))"

definition visible_job :: "'j codec \<Rightarrow> auth_context \<Rightarrow> int \<Rightarrow> cron_world \<Rightarrow> cron_job res" where
  "visible_job c auth i w =
     r_bind (r_map_err uni_error_from (cron_job_by_id c (filter_from_scope (tenant_scope auth)) w i))
       (ok_or (not_found_error ''cron job''))"

text \<open>Whose job it is: that of the job it changes, or the subscription the caller names or owns.\<close>

definition set_target ::
  "'j codec \<Rightarrow> int \<Rightarrow> (nat \<Rightarrow> nat list) \<Rightarrow> auth_context \<Rightarrow> cron_set_input \<Rightarrow> cron_world
     \<Rightarrow> cron_world \<times> (cron_job option \<times> subscription) res" where
  "set_target c now draws auth inp w =
     (case cs_id inp of
        Some i \<Rightarrow>
          (w, r_bind (visible_job c auth i w) (\<lambda>job.
                if cs_subscription_id inp \<noteq> None \<and> cs_subscription_id inp \<noteq> Some (cj_subscription_id job) then
                  Inl (with_field (new_error InvalidInput
                    ''a cron job cannot be moved to another subscription; delete it and create it where it belongs'') ''subscription_id'')
                else r_bind (subscription_of_job c w job) (\<lambda>s. Inr (Some job, s))))
      | None \<Rightarrow>
          (case cron_subscription c now draws auth (cs_subscription_id inp) w of
             (w1, r) \<Rightarrow> (w1, r_bind r (\<lambda>s. Inr (None, s)))))"

text \<open>Everything that is checked before a row is written.\<close>

definition check_set ::
  "'j codec \<Rightarrow> cron_env \<Rightarrow> cron_set_input \<Rightarrow> subscription \<Rightarrow> cron_world \<Rightarrow> (str \<times> str \<times> cron_target) res" where
  "check_set c env inp s w =
     (if \<not> can_serve (sb_status s) then
        Inl (new_error AccountSuspended ''this subscription is suspended and cannot run cron jobs'')
      else
        r_bind (ensure_plan_allows_cron c (cw_db w) s) (\<lambda>_.
        r_bind (validate_schedule (cs_schedule inp)) (\<lambda>schedule.
        r_bind (validate_command (cs_command inp)) (\<lambda>command.
        r_bind (prepare_cron c env w s) (\<lambda>target.
        r_bind (job_line schedule command (ct_placement target)) (\<lambda>_.
          Inr (schedule, command, target)))))))"

definition write_job ::
  "'j codec \<Rightarrow> int \<Rightarrow> auth_context \<Rightarrow> cron_job option \<Rightarrow> int \<Rightarrow> str \<Rightarrow> str \<Rightarrow> bool \<Rightarrow> cron_world
     \<Rightarrow> cron_world \<times> cron_job res" where
  "write_job c now auth existing sub schedule command enabled w =
     (case (case existing of
              Some job \<Rightarrow>
                update_cron_job c (filter_from_scope (tenant_scope auth)) now (cj_id job)
                  \<lparr>cu_schedule = Some schedule, cu_command = Some command, cu_enabled = Some enabled\<rparr> w
            | None \<Rightarrow> create_cron_job c now sub schedule command enabled w) of
        (w1, r) \<Rightarrow> (w1, r_map_err uni_error_from r))"

definition cron_set ::
  "'j codec \<Rightarrow> int \<Rightarrow> (nat \<Rightarrow> nat list) \<Rightarrow> cron_env \<Rightarrow> auth_context \<Rightarrow> cron_set_input \<Rightarrow> cron_world
     \<Rightarrow> cron_world \<times> cron_set_output res" where
  "cron_set c now draws env auth inp w =
     (case set_target c now draws auth inp w of
        (w1, Inl e) \<Rightarrow> (w1, Inl e)
      | (w1, Inr (existing, s)) \<Rightarrow>
          (case check_set c env inp s w1 of
             Inl e \<Rightarrow> (w1, Inl e)
           | Inr (schedule, command, target) \<Rightarrow>
               (case write_job c now auth existing (sb_id s) schedule command (cs_enabled inp) w1 of
                  (w2, Inl e) \<Rightarrow> (w2, Inl e)
                | (w2, Inr job) \<Rightarrow>
                    (case install_from_db c now env s target w2 of
                       (w3, Inl e) \<Rightarrow> (w3, Inl e)
                     | (w3, Inr scheduled) \<Rightarrow>
                         (w3, r_bind (r_map_err uni_error_from
                                (cron_job_by_id c (filter_from_scope (tenant_scope auth)) w3 (cj_id job))) (\<lambda>again.
                                Inr \<lparr>co_job = (case again of Some j \<Rightarrow> j | None \<Rightarrow> job), co_scheduled = scheduled,
                                     co_linux_user = sb_linux_user s\<rparr>))))))"

definition cron_delete ::
  "'j codec \<Rightarrow> int \<Rightarrow> cron_env \<Rightarrow> auth_context \<Rightarrow> int \<Rightarrow> cron_world \<Rightarrow> cron_world \<times> (int \<times> nat) res" where
  "cron_delete c now env auth i w =
     (case r_bind (visible_job c auth i w) (\<lambda>job. r_bind (subscription_of_job c w job) (\<lambda>s.
           r_bind (prepare_cron c env w s) (\<lambda>t. Inr (job, s, t)))) of
        Inl e \<Rightarrow> (w, Inl e)
      | Inr (job, s, t) \<Rightarrow>
          (case delete_cron_job c (filter_from_scope (tenant_scope auth)) i w of
             (w1, Inl e) \<Rightarrow> (w1, Inl (uni_error_from e))
           | (w1, Inr _) \<Rightarrow>
               (case install_from_db c now env s t w1 of
                  (w2, r) \<Rightarrow> (w2, r_bind r (\<lambda>n. Inr (cj_subscription_id job, n))))))"


interpretation crons: scoped_repo "cron_visible db" cr_id "fetch_cron_job db"
proof
  show "fetch_cron_job db f rows i = Some r \<Longrightarrow> r \<in> set rows \<and> cr_id r = i \<and> cron_visible db f r" for f rows i r
    by (auto simp: fetch_cron_job_def find_Some_iff)
  show "r \<in> set rows \<Longrightarrow> cron_visible db f r \<Longrightarrow> fetch_cron_job db f rows (cr_id r) \<noteq> None" for f rows r
    by (auto simp: fetch_cron_job_def find_None_iff)
  show "cron_visible db FAll r" for r
    by (simp add: cron_visible_def)
qed

lemma cron_job_of_row_fields:
  "cron_job_of_row c r = Inr j \<Longrightarrow> cj_id j = cr_id r \<and> cj_subscription_id j = cr_subscription_id r
     \<and> cj_schedule j = cr_schedule r \<and> cj_command j = cr_command r \<and> cj_enabled j = (cr_enabled r \<noteq> 0)"
  by (auto simp: cron_job_of_row_def result_simps)

lemma cron_job_by_id_Some:
  "cron_job_by_id c f w i = Inr (Some j) \<longleftrightarrow>
     (\<exists>r. fetch_cron_job (cw_db w) f (cw_jobs w) i = Some r \<and> cron_job_of_row c r = Inr j)"
  by (auto simp: cron_job_by_id_def result_simps split: option.splits)

section \<open>What each step changes\<close>

definition job_core :: "cron_job_row \<Rightarrow> int \<times> int \<times> str \<times> str \<times> int \<times> str" where
  "job_core r = (cr_id r, cr_subscription_id r, cr_schedule r, cr_command r, cr_enabled r, cr_created_at r)"

lemma mark_core: "map job_core (cw_jobs (set_cron_last_error c now s err w)) = map job_core (cw_jobs w)"
  by (simp add: set_cron_last_error_def sql_update_def job_core_def)

lemma mark_world [simp]:
  "cw_db (set_cron_last_error c now s err w) = cw_db w" "cw_seq (set_cron_last_error c now s err w) = cw_seq w"
  "cw_machine (set_cron_last_error c now s err w) = cw_machine w"
  by (simp_all add: set_cron_last_error_def)

lemma retire_world:
  "retire_spool env u w = (w', r) \<Longrightarrow> cw_db w' = cw_db w \<and> cw_jobs w' = cw_jobs w \<and> cw_seq w' = cw_seq w
     \<and> mc_managed (cw_machine w') = mc_managed (cw_machine w) \<and> (\<forall>v. v \<noteq> u \<longrightarrow> mc_spool (cw_machine w') v = mc_spool (cw_machine w) v)"
  by (auto simp: retire_spool_def split: option.splits)

text \<open>What an installation does: at most the rows' marks and the files of one account.\<close>

lemma install_cases:
  assumes "install_from_db c now env s t w = (w', r)"
  shows "w' = w \<and> (\<exists>e. r = Inl e)
    \<or> (\<exists>user jobs content. linux_user_parse (sb_linux_user s) = Inr user
        \<and> cron_jobs_for_render c (sb_id s) w = Inr jobs \<and> render_crontab (sb_id s) jobs (ct_placement t) (ct_mail t) = Inr content
        \<and> cw_db w' = cw_db w \<and> cw_seq w' = cw_seq w
        \<and> (\<exists>err. cw_jobs w' = cw_jobs (set_cron_last_error c now (sb_id s) err w))
        \<and> (mc_managed (cw_machine w') = mc_managed (cw_machine w) \<and> mc_spool (cw_machine w') = mc_spool (cw_machine w) \<and> (\<exists>e. r = Inl e)
           \<or> mc_managed (cw_machine w') = (mc_managed (cw_machine w))(linux_user_as_str user \<mapsto> content)
             \<and> (\<forall>v. mc_spool (cw_machine w') v \<noteq> mc_spool (cw_machine w) v \<longrightarrow> v = linux_user_as_str user \<and> ct_legacy t)
             \<and> (\<forall>n. r = Inr n \<longrightarrow> n = length (filter cj_enabled jobs))))"
proof (cases "r_bind (linux_user_parse (sb_linux_user s)) (\<lambda>user.
           r_bind (r_map_err uni_error_from (cron_jobs_for_render c (sb_id s) w)) (\<lambda>jobs.
           r_bind (render_crontab (sb_id s) jobs (ct_placement t) (ct_mail t)) (\<lambda>content.
             Inr (linux_user_as_str user, jobs, content))))")
  case (Inl e)
  then have "w' = w" "r = Inl e" using assms by (simp_all add: install_from_db_def)
  then show ?thesis by blast
next
  case (Inr x)
  then obtain user jobs content where x: "x = (linux_user_as_str user, jobs, content)"
      "linux_user_parse (sb_linux_user s) = Inr user" "cron_jobs_for_render c (sb_id s) w = Inr jobs"
      "render_crontab (sb_id s) jobs (ct_placement t) (ct_mail t) = Inr content"
    by (auto simp: result_simps)
  show ?thesis
  proof (cases "ce_install env (linux_user_as_str user)")
    case (Some e)
    then have "w' = set_cron_last_error c now (sb_id s) (Some (detail e)) w" "r = Inl e"
      using assms by (simp_all add: install_from_db_def Inr [unfolded x(1)])
    then show ?thesis using x by auto
  next
    case None
    define w1 where "w1 = w\<lparr>cw_machine := (cw_machine w)\<lparr>mc_managed := (mc_managed (cw_machine w))(linux_user_as_str user \<mapsto> content)\<rparr>\<rparr>"
    define w2 where "w2 = set_cron_last_error c now (sb_id s) None w1"
    have w2: "cw_db w2 = cw_db w" "cw_seq w2 = cw_seq w" "cw_jobs w2 = cw_jobs (set_cron_last_error c now (sb_id s) None w)"
        "mc_managed (cw_machine w2) = (mc_managed (cw_machine w))(linux_user_as_str user \<mapsto> content)"
        "mc_spool (cw_machine w2) = mc_spool (cw_machine w)"
      by (simp_all add: w2_def w1_def set_cron_last_error_def)
    show ?thesis
    proof (cases "ct_legacy t")
      case False
      then have "w' = w2" "r = Inr (length (filter cj_enabled jobs))"
        using assms None by (simp_all add: install_from_db_def Inr [unfolded x(1)] w1_def w2_def Let_def)
      then show ?thesis using x w2 by auto
    next
      case True
      obtain w3 q where q: "retire_spool env (linux_user_as_str user) w2 = (w3, q)" by fastforce
      then have "w' = w3" "\<forall>n. r = Inr n \<longrightarrow> n = length (filter cj_enabled jobs)"
        using assms None True by (auto simp: install_from_db_def Inr [unfolded x(1)] w1_def w2_def Let_def split: sum.splits)
      then show ?thesis using x w2 retire_world [OF q] True by metis
    qed
  qed
qed


lemma mail_resolved:
  assumes "resolve_cron_mail c db s = Inr m"
  shows "mail_ok m"
proof (cases "user_by_id c FAll (ad_users db) (sb_customer_id s)")
  case (Inl e)
  then show ?thesis using assms by (simp add: resolve_cron_mail_def result_simps)
next
  case (Inr owner)
  then have o: "(case owner of None \<Rightarrow> Inr Nobody
      | Some u \<Rightarrow> Inr (case email_parse (email_as_str (u_email u)) of Inr e \<Rightarrow> MailTo e | Inl _ \<Rightarrow> Nobody)) = (Inr m :: cron_mail res)"
    using assms by (simp add: resolve_cron_mail_def)
  show ?thesis
  proof (cases owner)
    case None
    then show ?thesis using o by (auto simp: mail_ok_def)
  next
    case (Some u)
    then show ?thesis
      using o em.reparse [of "email_as_str (u_email u)"]
      by (cases "email_parse (email_as_str (u_email u))") (auto simp: mail_ok_def)
  qed
qed

lemma prepare_Inr:
  assumes "prepare_cron c env w s = Inr t"
  obtains user where "linux_user_parse (sb_linux_user s) = Inr user" "ct_placement t = placement_of user"
    "mail_ok (ct_mail t)" "mc_slices (cw_machine w) (slice_file_name user)"
    "\<And>f. mc_managed (cw_machine w) (linux_user_as_str user) = Some f \<Longrightarrow> is_unihelm_crontab f"
    "\<And>f. mc_spool (cw_machine w) (linux_user_as_str user) = Some f \<Longrightarrow> is_unihelm_crontab f"
proof -
  obtain user legacy p mail where u: "linux_user_parse (sb_linux_user s) = Inr user"
      "ensure_crontab_is_ours env (cw_machine w) user = Inr legacy" "ensure_managed_file_is_ours env (cw_machine w) user = Inr ()"
      "resolve_placement env (cw_machine w) user = Inr p" "resolve_cron_mail c (cw_db w) s = Inr mail"
      "t = \<lparr>ct_placement = p, ct_mail = mail, ct_legacy = legacy\<rparr>"
    using assms by (auto simp: prepare_cron_def result_simps)
  have "p = placement_of user" "mc_slices (cw_machine w) (slice_file_name user)"
    using u(4) by (auto simp: resolve_placement_def Let_def result_simps host_call_def split: option.splits if_splits)
  moreover have "is_unihelm_crontab f" if "mc_managed (cw_machine w) (linux_user_as_str user) = Some f" for f
    using u(3) that by (auto simp: ensure_managed_file_is_ours_def Let_def result_simps host_call_def split: option.splits if_splits)
  moreover have "is_unihelm_crontab f" if "mc_spool (cw_machine w) (linux_user_as_str user) = Some f" for f
    using u(2) that by (auto simp: ensure_crontab_is_ours_def Let_def result_simps host_call_def split: option.splits if_splits)
  moreover have "mail_ok mail" using mail_resolved [OF u(5)] .
  ultimately show ?thesis using that u by auto
qed

lemma fetch_by_id:
  assumes "subscription_by_id c f db i = Inr (Some s)"
  shows "\<exists>row \<in> set (ad_subs db). subscription_visible (ad_users db) f row \<and> sbr_id row = sb_id s
    \<and> sbr_linux_user row = sb_linux_user s \<and> sbr_customer_id row = sb_customer_id s \<and> sb_id s = i"
proof -
  obtain row where row: "fetch_subscription (ad_users db) f (ad_subs db) i = Some row" "subscription_of_row c row = Inr s"
    using assms by (auto simp: subscription_by_id_Some)
  then show ?thesis
    using subs.fetch_sound [OF row(1)] subscription_of_row_fields [OF row(2)] by auto
qed

text \<open>The target of a request is the row of a subscription the caller may use.\<close>

definition target_row :: "auth_context \<Rightarrow> cron_world \<Rightarrow> subscription \<Rightarrow> subscription_row \<Rightarrow> bool" where
  "target_row auth w s row \<longleftrightarrow> row \<in> set (ad_subs (cw_db w)) \<and> sbr_id row = sb_id s \<and> sbr_linux_user row = sb_linux_user s
     \<and> (subscription_visible (ad_users (cw_db w)) (filter_from_scope (tenant_scope auth)) row \<or> sbr_customer_id row = actor_user_id auth)"


lemma cron_visible_by_sub:
  assumes "accounts_inv db" "sub \<in> set (ad_subs db)" "sbr_id sub = cr_subscription_id r"
  shows "cron_visible db f r \<longleftrightarrow> subscription_visible (ad_users db) f sub"
proof -
  have "inj_on sbr_id (set (ad_subs db))"
    using assms(1) by (simp add: accounts_inv_def distinct_map)
  then have one: "list_ex (\<lambda>s. sbr_id s = cr_subscription_id r \<and> P s) (ad_subs db) \<longleftrightarrow> P sub" for P
    unfolding list_ex_iff using assms(2,3) by (metis (no_types, lifting) inj_onD)
  show ?thesis
    using assms(3) by (cases f) (simp_all add: cron_visible_def subscription_visible_def one)
qed

lemma default_world:
  assumes "default_subscription_for c now draws customer db = (db', r)"
  shows "(db' = db \<or> (\<exists>lu q. inserted c now customer lu db db' q))
    \<and> (\<forall>s. r = Inr s \<longrightarrow> (\<exists>row \<in> set (ad_subs db'). sbr_id row = sb_id s \<and> sbr_linux_user row = sb_linux_user s
          \<and> sbr_customer_id row = customer))"
proof (cases "sort_key sbr_id (filter (\<lambda>r. sbr_customer_id r = customer \<and> sbr_status r = ''active'') (ad_subs db))")
  case (Cons row rows)
  then have "row \<in> set (sort_key sbr_id (filter (\<lambda>r. sbr_customer_id r = customer \<and> sbr_status r = ''active'') (ad_subs db)))"
    by simp
  then have "row \<in> set (ad_subs db)" "sbr_customer_id row = customer" by simp_all
  moreover have "db' = db" "r = subscription_of_row c row"
    using assms Cons by (auto simp: default_subscription_for_def)
  ultimately show ?thesis by (auto dest!: subscription_of_row_fields)
next
  case Nil
  then consider "db' = db \<and> (\<exists>e. r = Inl e)" | "create_subscription c now draws customer db = (db', r)"
    using assms by (auto simp: default_subscription_for_def split: sum.splits if_splits)
  then show ?thesis
  proof cases
    case 2
    then consider "db' = db \<and> (\<exists>e. r = Inl e)" | lu where "inserted c now customer lu db db' r"
      using create_attempts_cases unfolding create_subscription_def by blast
    then show ?thesis
    proof cases
      case (2 lu)
      then have "\<exists>row \<in> set (ad_subs db'). r = subscription_of_row c row \<and> sbr_customer_id row = customer"
        by (simp add: inserted_def new_subscription_row_def)
      then show ?thesis using 2 by (auto dest!: subscription_of_row_fields)
    qed auto
  qed auto
qed

lemma cron_subscription_world:
  assumes "cron_subscription c now draws auth i w = (w', r)"
  shows "w' = w\<lparr>cw_db := cw_db w'\<rparr> \<and> (cw_db w' = cw_db w \<or> (\<exists>lu q. inserted c now (actor_user_id auth) lu (cw_db w) (cw_db w') q))
    \<and> (\<forall>s. r = Inr s \<longrightarrow> (\<exists>row. target_row auth w' s row))"
proof (cases i)
  case None
  obtain db q where db: "default_subscription_for c now draws (actor_user_id auth) (cw_db w) = (db, q)" by fastforce
  then have w': "w' = w\<lparr>cw_db := db\<rparr>" and r: "r = r_map_err uni_error_from q"
    using assms None by (simp_all add: cron_subscription_def)
  have "\<exists>row. target_row auth w' s row" if "r = Inr s" for s
  proof -
    have "q = Inr s" using that r by (cases q) simp_all
    then show ?thesis using default_world [OF db] w' by (auto simp: target_row_def)
  qed
  then show ?thesis using default_world [OF db] w' by simp
next
  case (Some raw)
  then have "w' = w" and r: "r = r_bind (r_map_err uni_error_from (subscription_by_id c (filter_from_scope (tenant_scope auth)) (cw_db w) raw))
                (ok_or (not_found_error ''subscription''))"
    using assms by (auto simp: cron_subscription_def)
  moreover have "\<exists>row. target_row auth w s row" if "r = Inr s" for s
  proof -
    have "subscription_by_id c (filter_from_scope (tenant_scope auth)) (cw_db w) raw = Inr (Some s)"
      using that r by (auto simp: result_simps ok_or_def split: option.splits)
    from fetch_by_id [OF this] show ?thesis by (auto simp: target_row_def)
  qed
  ultimately show ?thesis by simp
qed

lemma visible_job_row:
  assumes "visible_job c auth i w = Inr job"
  shows "\<exists>r \<in> set (cw_jobs w). cr_id r = i \<and> cj_id job = i \<and> cj_subscription_id job = cr_subscription_id r
    \<and> cron_visible (cw_db w) (filter_from_scope (tenant_scope auth)) r"
proof -
  have "cron_job_by_id c (filter_from_scope (tenant_scope auth)) w i = Inr (Some job)"
    using assms by (auto simp: visible_job_def result_simps ok_or_def split: option.splits)
  then obtain r where r: "fetch_cron_job (cw_db w) (filter_from_scope (tenant_scope auth)) (cw_jobs w) i = Some r"
      "cron_job_of_row c r = Inr job"
    by (auto simp: cron_job_by_id_Some)
  then show ?thesis
    using crons.fetch_sound [OF r(1)] cron_job_of_row_fields [OF r(2)] by auto
qed

lemma job_target:
  assumes "accounts_inv (cw_db w)" "visible_job c auth i w = Inr job" "subscription_of_job c w job = Inr s"
  shows "(\<exists>row. target_row auth w s row) \<and> (\<exists>r \<in> set (cw_jobs w). cr_id r = i \<and> cj_id job = i \<and> cr_subscription_id r = sb_id s)"
proof -
  obtain r where r: "r \<in> set (cw_jobs w)" "cr_id r = i" "cj_id job = i" "cj_subscription_id job = cr_subscription_id r"
      "cron_visible (cw_db w) (filter_from_scope (tenant_scope auth)) r"
    using visible_job_row [OF assms(2)] by blast
  have "subscription_by_id c FAll (cw_db w) (cj_subscription_id job) = Inr (Some s)"
    using assms(3) by (auto simp: subscription_of_job_def result_simps ok_or_def split: option.splits)
  then obtain row where row: "row \<in> set (ad_subs (cw_db w))" "sbr_id row = sb_id s" "sbr_linux_user row = sb_linux_user s"
      "sb_id s = cj_subscription_id job"
    using fetch_by_id by blast
  then have "subscription_visible (ad_users (cw_db w)) (filter_from_scope (tenant_scope auth)) row"
    using r cron_visible_by_sub [OF assms(1) row(1)] by auto
  then show ?thesis using row r by (auto simp: target_row_def)
qed

lemma set_target_world:
  assumes "set_target c now draws auth inp w = (w', r)" "accounts_inv (cw_db w)"
  shows "w' = w\<lparr>cw_db := cw_db w'\<rparr> \<and> (cw_db w' = cw_db w \<or> (\<exists>lu q. inserted c now (actor_user_id auth) lu (cw_db w) (cw_db w') q))
    \<and> (\<forall>job s. r = Inr (job, s) \<longrightarrow> (\<exists>row. target_row auth w' s row)
          \<and> (\<forall>j. job = Some j \<longrightarrow> (\<exists>r \<in> set (cw_jobs w'). cr_id r = cj_id j \<and> cr_subscription_id r = sb_id s)))"
proof (cases "cs_id inp")
  case None
  obtain w1 q where q: "cron_subscription c now draws auth (cs_subscription_id inp) w = (w1, q)" by fastforce
  then have "w' = w1" "r = r_bind q (\<lambda>s. Inr (None, s))"
    using assms(1) None by (simp_all add: set_target_def)
  then show ?thesis using cron_subscription_world [OF q] by (auto simp: result_simps)
next
  case (Some i)
  have "\<exists>s. visible_job c auth i w = Inr j \<and> subscription_of_job c w j = Inr s \<and> x = (Some j, s)" if "r = Inr x" "fst x = Some j" for x j
    using assms(1) Some that by (auto simp: set_target_def result_simps split: if_splits)
  moreover have "\<exists>j. fst x = Some j" if "r = Inr x" for x
    using assms(1) Some that by (auto simp: set_target_def result_simps split: if_splits)
  moreover have "w' = w" using assms(1) Some by (simp add: set_target_def)
  ultimately show ?thesis using job_target [OF assms(2)] by fastforce
qed


section \<open>The invariant of the table\<close>

definition sub_keys :: "accounts_db \<Rightarrow> (int \<times> str) set" where
  "sub_keys db = (\<lambda>s. (sbr_id s, sbr_linux_user s)) ` set (ad_subs db)"

text \<open>A row that can be read, and that can be written as a line of its account's crontab.\<close>

definition job_ok :: "'j codec \<Rightarrow> accounts_db \<Rightarrow> cron_job_row \<Rightarrow> bool" where
  "job_ok c db r \<longleftrightarrow> is_ok (cron_job_of_row c r)
     \<and> validate_schedule (cr_schedule r) = Inr (cr_schedule r) \<and> validate_command (cr_command r) = Inr (cr_command r)
     \<and> (\<exists>lu user. (cr_subscription_id r, lu) \<in> sub_keys db \<and> linux_user_parse lu = Inr user
          \<and> is_ok (job_line (cr_schedule r) (cr_command r) (placement_of user)))"

definition jobs_inv :: "'j codec \<Rightarrow> cron_world \<Rightarrow> bool" where
  "jobs_inv c w \<longleftrightarrow> distinct (map cr_id (cw_jobs w)) \<and> (\<forall>r \<in> set (cw_jobs w). cr_id r \<le> cw_seq w \<and> job_ok c (cw_db w) r)
     \<and> (\<forall>s. length (jobs_of s (cw_jobs w)) \<le> max_jobs_per_subscription)"

definition cron_inv :: "'j codec \<Rightarrow> cron_world \<Rightarrow> bool" where
  "cron_inv c w \<longleftrightarrow> accounts_inv (cw_db w) \<and> jobs_inv c w"

lemma job_ok_mono: "sub_keys db \<subseteq> sub_keys db' \<Longrightarrow> job_ok c db r \<Longrightarrow> job_ok c db' r"
  unfolding job_ok_def by blast

lemma jobs_inv_mono:
  "jobs_inv c w \<Longrightarrow> cw_jobs w' = cw_jobs w \<Longrightarrow> cw_seq w' = cw_seq w \<Longrightarrow> sub_keys (cw_db w) \<subseteq> sub_keys (cw_db w')
     \<Longrightarrow> jobs_inv c w'"
  unfolding jobs_inv_def using job_ok_mono by metis

lemma jobs_of_map: "(\<And>r. cr_subscription_id (g r) = cr_subscription_id r) \<Longrightarrow> length (jobs_of s (map g rows)) = length (jobs_of s rows)"
  by (simp add: jobs_of_def filter_map o_def)

lemma jobs_inv_update:
  assumes "jobs_inv c w" "\<And>r. cr_id (g r) = cr_id r" "\<And>r. cr_subscription_id (g r) = cr_subscription_id r"
    and "\<And>r. r \<in> set (cw_jobs w) \<Longrightarrow> P r \<Longrightarrow> job_ok c (cw_db w) r \<Longrightarrow> job_ok c (cw_db w) (g r)"
  shows "jobs_inv c (w\<lparr>cw_jobs := fst (sql_update P g (cw_jobs w))\<rparr>)"
proof -
  have "map cr_id (fst (sql_update P g (cw_jobs w))) = map cr_id (cw_jobs w)"
    by (rule sql_update_map) (simp add: assms(2))
  moreover have "length (jobs_of s (fst (sql_update P g (cw_jobs w)))) = length (jobs_of s (cw_jobs w))" for s
    by (simp add: sql_update_def jobs_of_map assms(3))
  moreover have "\<forall>r \<in> set (fst (sql_update P g (cw_jobs w))). cr_id r \<le> cw_seq w \<and> job_ok c (cw_db w) r"
    using assms by (auto simp: sql_update_set jobs_inv_def)
  ultimately show ?thesis using assms(1) by (simp add: jobs_inv_def)
qed

lemma job_ok_mark: "codec_ok c \<Longrightarrow> job_ok c db r \<Longrightarrow> job_ok c db (r\<lparr>cr_last_error := err, cr_updated_at := to_sql_time c now\<rparr>)"
  by (auto simp: job_ok_def cron_job_of_row_def is_ok_iff result_simps)

lemma jobs_inv_mark: "codec_ok c \<Longrightarrow> jobs_inv c w \<Longrightarrow> jobs_inv c (set_cron_last_error c now s err w)"
  unfolding set_cron_last_error_def by (rule jobs_inv_update) (simp_all add: job_ok_mark)

lemma install_inv:
  assumes "codec_ok c" "jobs_inv c w" "install_from_db c now env s t w = (w', r)"
  shows "jobs_inv c w' \<and> cw_db w' = cw_db w \<and> cw_seq w' = cw_seq w"
proof -
  have "jobs_inv c w'" if "cw_db w' = cw_db w" "cw_seq w' = cw_seq w" "cw_jobs w' = cw_jobs (set_cron_last_error c now (sb_id s) err w)" for err
    using jobs_inv_mono [OF jobs_inv_mark [OF assms(1,2)], of w'] that by simp
  then show ?thesis using install_cases [OF assms(3)] assms(2) by blast
qed

text \<open>What the checks of \<open>cron.set\<close> establish about the row it writes.\<close>

lemma check_set_Inr:
  assumes "check_set c env inp s w = Inr (schedule, command, target)"
  obtains user where "linux_user_parse (sb_linux_user s) = Inr user" "ct_placement target = placement_of user"
    "validate_schedule schedule = Inr schedule" "validate_command command = Inr command"
    "is_ok (job_line schedule command (placement_of user))" "prepare_cron c env w s = Inr target" "can_serve (sb_status s)"
proof -
  have p: "validate_schedule (cs_schedule inp) = Inr schedule" "validate_command (cs_command inp) = Inr command"
      "prepare_cron c env w s = Inr target" "is_ok (job_line schedule command (ct_placement target))" "can_serve (sb_status s)"
    using assms by (auto simp: check_set_def result_simps is_ok_iff split: if_splits)
  from p(1) obtain fs where "schedule = str_join '' '' fs" "schedule_fields fs" "fs \<noteq> []" "length schedule \<le> 256"
    by (rule accepted_schedule)
  then have "validate_schedule schedule = Inr schedule" using schedule_of_fields [of fs] by simp
  moreover obtain user where "linux_user_parse (sb_linux_user s) = Inr user" "ct_placement target = placement_of user"
    using p(3) by (rule prepare_Inr)
  ultimately show ?thesis using that [of user] p command_again [OF p(2)] by simp
qed

lemma written_row_ok:
  assumes "codec_ok c" "check_set c env inp s w = Inr (schedule, command, target)" "(sb_id s, sb_linux_user s) \<in> sub_keys db"
    and "cr_subscription_id r = sb_id s" "cr_schedule r = schedule" "cr_command r = command" "is_ok (cron_job_of_row c r)"
  shows "job_ok c db r"
proof -
  obtain user where "linux_user_parse (sb_linux_user s) = Inr user" "is_ok (job_line schedule command (placement_of user))"
      "validate_schedule schedule = Inr schedule" "validate_command command = Inr command"
    using assms(2) by (rule check_set_Inr)
  then show ?thesis using assms(3-) unfolding job_ok_def by auto
qed

lemma updated_row_ok:
  "codec_ok c \<Longrightarrow> is_ok (cron_job_of_row c r) \<Longrightarrow> is_ok (cron_job_of_row c (updated_cron_job c now u r))"
  by (auto simp: cron_job_of_row_def updated_cron_job_def is_ok_iff result_simps)

lemma write_job_inv:
  assumes "codec_ok c" "jobs_inv c w" "check_set c env inp s w = Inr (schedule, command, target)"
    and "(sb_id s, sb_linux_user s) \<in> sub_keys (cw_db w)"
    and "\<And>j. existing = Some j \<Longrightarrow> \<exists>r \<in> set (cw_jobs w). cr_id r = cj_id j \<and> cr_subscription_id r = sb_id s"
    and "write_job c now auth existing (sb_id s) schedule command enabled w = (w', r)"
  shows "jobs_inv c w' \<and> cw_db w' = cw_db w \<and> cw_machine w' = cw_machine w"
proof (cases existing)
  case None
  let ?row = "\<lparr>cr_id = cw_seq w + 1, cr_subscription_id = sb_id s, cr_schedule = schedule, cr_command = command,
                   cr_enabled = of_bool enabled, cr_last_error = None, cr_created_at = to_sql_time c now, cr_updated_at = to_sql_time c now\<rparr>"
  consider "w' = w" | "length (jobs_of (sb_id s) (cw_jobs w)) < max_jobs_per_subscription"
      "w' = w\<lparr>cw_jobs := cw_jobs w @ [?row], cw_seq := cw_seq w + 1\<rparr>"
    using assms(6) None by (auto simp: write_job_def create_cron_job_def Let_def not_le split: if_splits)
  then show ?thesis
  proof cases
    case 2
    have "is_ok (cron_job_of_row c ?row)" using assms(1) by (simp add: cron_job_of_row_def is_ok_iff)
    then have ok: "job_ok c (cw_db w) ?row" by (intro written_row_ok [OF assms(1,3,4)]) simp_all
    have "length (jobs_of i (cw_jobs w @ [?row])) \<le> max_jobs_per_subscription" for i
      using assms(2) 2(1) by (auto simp: jobs_inv_def jobs_of_def)
    moreover have "cr_id r \<noteq> cw_seq w + 1 \<and> cr_id r \<le> cw_seq w + 1" if "r \<in> set (cw_jobs w)" for r
      using that assms(2) by (fastforce simp: jobs_inv_def)
    ultimately show ?thesis using assms(2) ok unfolding 2(2) by (auto simp: jobs_inv_def)
  qed (use assms(2) in simp)
next
  case (Some j)
  let ?u = "\<lparr>cu_schedule = Some schedule, cu_command = Some command, cu_enabled = Some enabled\<rparr>"
  consider "w' = w" | "w' = w\<lparr>cw_jobs := fst (sql_update (\<lambda>r. cr_id r = cj_id j) (updated_cron_job c now ?u) (cw_jobs w))\<rparr>"
    using assms(6) Some by (auto simp: write_job_def update_cron_job_def Let_def split: sum.splits)
  then show ?thesis
  proof cases
    case 2
    obtain r0 where r0: "r0 \<in> set (cw_jobs w)" "cr_id r0 = cj_id j" "cr_subscription_id r0 = sb_id s"
      using assms(5) Some by blast
    have "job_ok c (cw_db w) (updated_cron_job c now ?u r)"
      if "r \<in> set (cw_jobs w)" "cr_id r = cj_id j" "job_ok c (cw_db w) r" for r
    proof -
      have "inj_on cr_id (set (cw_jobs w))" using assms(2) by (simp add: jobs_inv_def distinct_map)
      then have "r = r0" using that(1,2) r0 by (metis inj_onD)
      then show ?thesis
        using that(3) r0(3) by (intro written_row_ok [OF assms(1,3,4)] updated_row_ok [OF assms(1)])
          (simp_all add: updated_cron_job_def job_ok_def coalesce_def)
    qed
    then have "jobs_inv c w'"
      unfolding 2 by (intro jobs_inv_update [OF assms(2)]) (simp_all add: updated_cron_job_def)
    then show ?thesis using 2 by simp
  qed (use assms(2) in simp)
qed

lemma target_key: "target_row auth w s row \<Longrightarrow> (sb_id s, sb_linux_user s) \<in> sub_keys (cw_db w)"
  by (force simp: target_row_def sub_keys_def)

lemma inserted_keys: "inserted c now customer lu db db' q \<Longrightarrow> sub_keys db \<subseteq> sub_keys db'"
  by (auto simp: inserted_def sub_keys_def)

lemma set_target_inv:
  assumes "cron_inv c w" "set_target c now draws auth inp w = (w', r)"
  shows "cron_inv c w' \<and> cw_jobs w' = cw_jobs w \<and> cw_machine w' = cw_machine w"
proof -
  have w: "accounts_inv (cw_db w)" "jobs_inv c w" using assms(1) by (simp_all add: cron_inv_def)
  note t = set_target_world [OF assms(2) w(1)]
  then have "cw_jobs w' = cw_jobs w" "cw_seq w' = cw_seq w" "cw_machine w' = cw_machine w"
    by (metis (no_types, lifting) cron_world.select_convs cron_world.surjective cron_world.update_convs(1))+
  moreover have "accounts_inv (cw_db w')" "sub_keys (cw_db w) \<subseteq> sub_keys (cw_db w')"
    using t w(1) inserted_inv inserted_keys by (metis, metis order_refl)
  ultimately show ?thesis using jobs_inv_mono [OF w(2)] by (simp add: cron_inv_def)
qed

lemma cron_set_cases:
  assumes "cron_set c now draws env auth inp w = (w', r)"
  obtains (target) q e where "set_target c now draws auth inp w = (w', q)" "r = Inl e"
  | (refused) w1 existing s schedule command target e where "set_target c now draws auth inp w = (w1, Inr (existing, s))"
      "check_set c env inp s w1 = Inr (schedule, command, target)" "r = Inl e"
      "write_job c now auth existing (sb_id s) schedule command (cs_enabled inp) w1 = (w', Inl e)"
  | (install) w1 existing s schedule command target w2 job q where "set_target c now draws auth inp w = (w1, Inr (existing, s))"
      "check_set c env inp s w1 = Inr (schedule, command, target)"
      "write_job c now auth existing (sb_id s) schedule command (cs_enabled inp) w1 = (w2, Inr job)"
      "install_from_db c now env s target w2 = (w', q)"
      "\<And>out. r = Inr out \<Longrightarrow> q = Inr (co_scheduled out) \<and> co_linux_user out = sb_linux_user s
          \<and> (\<exists>again. cron_job_by_id c (filter_from_scope (tenant_scope auth)) w' (cj_id job) = Inr again
             \<and> co_job out = (case again of Some j \<Rightarrow> j | None \<Rightarrow> job))"
proof -
  obtain w1 q where q: "set_target c now draws auth inp w = (w1, q)" by fastforce
  show thesis
  proof (cases q)
    case (Inl e)
    then have "w1 = w'" "r = Inl e" using assms q by (auto simp: cron_set_def)
    then show thesis using target q by blast
  next
    case (Inr x)
    obtain existing s where x: "x = (existing, s)" by fastforce
    show thesis
    proof (cases "check_set c env inp s w1")
      case (Inl e)
      then have "w1 = w'" "r = Inl e" using assms q x \<open>q = Inr x\<close> by (auto simp: cron_set_def)
      then show thesis using target q by blast
    next
      case chk: (Inr y)
      obtain schedule command t where y: "y = (schedule, command, t)" by (cases y)
      obtain w2 q2 where q2: "write_job c now auth existing (sb_id s) schedule command (cs_enabled inp) w1 = (w2, q2)" by fastforce
      show thesis
      proof (cases q2)
        case (Inl e)
        then have "w2 = w'" "r = Inl e" using assms q Inr x chk y q2 by (auto simp: cron_set_def)
        then show thesis using refused q Inr x chk y q2 \<open>q2 = Inl e\<close> by blast
      next
        case job: (Inr job)
        obtain w3 q3 where q3: "install_from_db c now env s t w2 = (w3, q3)" by fastforce
        have "w3 = w'" "\<And>out. r = Inr out \<Longrightarrow> q3 = Inr (co_scheduled out) \<and> co_linux_user out = sb_linux_user s
             \<and> (\<exists>again. cron_job_by_id c (filter_from_scope (tenant_scope auth)) w3 (cj_id job) = Inr again
             \<and> co_job out = (case again of Some j \<Rightarrow> j | None \<Rightarrow> job))"
          using assms q Inr x chk y q2 job q3 by (cases q3; auto simp: cron_set_def result_simps)+
        then show thesis using install q Inr x chk y q2 job q3 by blast
      qed
    qed
  qed
qed

lemma target_written:
  assumes "codec_ok c" "cron_inv c w" "set_target c now draws auth inp w = (w1, Inr (existing, s))"
    "check_set c env inp s w1 = Inr (schedule, command, target)"
    "write_job c now auth existing (sb_id s) schedule command enabled w1 = (w2, q)"
  shows "jobs_inv c w2 \<and> cw_db w2 = cw_db w1 \<and> cw_machine w2 = cw_machine w \<and> cron_inv c w2"
proof -
  have i1: "cron_inv c w1" "cw_machine w1 = cw_machine w" using set_target_inv [OF assms(2,3)] by simp_all
  have "accounts_inv (cw_db w)" using assms(2) by (simp add: cron_inv_def)
  note t = set_target_world [OF assms(3) this]
  have "jobs_inv c w2 \<and> cw_db w2 = cw_db w1 \<and> cw_machine w2 = cw_machine w1"
    using t target_key i1 by (intro write_job_inv [OF assms(1) _ assms(4) _ _ assms(5)]) (auto simp: cron_inv_def)
  then show ?thesis using i1 by (simp add: cron_inv_def)
qed

lemma cron_set_inv:
  assumes "codec_ok c" "cron_inv c w" "cron_set c now draws env auth inp w = (w', r)"
  shows "cron_inv c w'"
  using assms(3)
proof (cases rule: cron_set_cases)
  case (target q e)
  then show ?thesis using set_target_inv [OF assms(2)] by blast
next
  case (refused w1 existing s schedule command target e)
  then show ?thesis using target_written [OF assms(1,2) refused(1,2,4)] by blast
next
  case (install w1 existing s schedule command target w2 job q)
  note w2 = target_written [OF assms(1,2) install(1,2,3)]
  moreover have "jobs_inv c w' \<and> cw_db w' = cw_db w2" using install_inv [OF assms(1) _ install(4)] w2 by simp
  ultimately show ?thesis unfolding cron_inv_def by metis
qed

lemma cron_delete_cases:
  assumes "cron_delete c now env auth i w = (w', r)"
  obtains e where "w' = w" "r = Inl e"
  | job s t w1 q where "visible_job c auth i w = Inr job" "subscription_of_job c w job = Inr s" "prepare_cron c env w s = Inr t"
      "w1 = w\<lparr>cw_jobs := filter (\<lambda>r. cr_id r \<noteq> i) (cw_jobs w)\<rparr>" "install_from_db c now env s t w1 = (w', q)"
      "r = r_bind q (\<lambda>n. Inr (cj_subscription_id job, n))"
proof (cases "r_bind (visible_job c auth i w) (\<lambda>job. r_bind (subscription_of_job c w job) (\<lambda>s.
           r_bind (prepare_cron c env w s) (\<lambda>t. Inr (job, s, t))))")
  case (Inl e)
  then have "(w', r) = (w, Inl e)" using assms unfolding cron_delete_def by simp
  then show ?thesis using that(1) by blast
next
  case (Inr x)
  then obtain job s t where x: "x = (job, s, t)" "visible_job c auth i w = Inr job" "subscription_of_job c w job = Inr s"
      "prepare_cron c env w s = Inr t"
    by (auto simp: result_simps)
  obtain w1 q1 where d: "delete_cron_job c (filter_from_scope (tenant_scope auth)) i w = (w1, q1)" by fastforce
  show ?thesis
  proof (cases q1)
    case (Inl e)
    then have "w1 = w" using d by (auto simp: delete_cron_job_def split: sum.splits)
    then have "(w', r) = (w, Inl (uni_error_from e))" using assms Inr x(1) d \<open>w1 = w\<close> \<open>q1 = Inl e\<close> by (simp add: cron_delete_def)
    then show ?thesis using that(1) by blast
  next
    case q1: (Inr y)
    then have w1: "w1 = w\<lparr>cw_jobs := filter (\<lambda>r. cr_id r \<noteq> i) (cw_jobs w)\<rparr>"
      using d by (auto simp: delete_cron_job_def split: sum.splits)
    obtain w2 q2 where q2: "install_from_db c now env s t w1 = (w2, q2)" by fastforce
    have "w' = w2" "r = r_bind q2 (\<lambda>n. Inr (cj_subscription_id job, n))"
      using assms Inr x(1) d q1 q2 by (simp_all add: cron_delete_def)
    then show ?thesis using that(2) [OF x(2-4) w1] q2 by simp
  qed
qed

lemma jobs_inv_filter: "jobs_inv c w \<Longrightarrow> jobs_inv c (w\<lparr>cw_jobs := filter P (cw_jobs w)\<rparr>)"
proof -
  assume inv: "jobs_inv c w"
  have "length (jobs_of s (filter P (cw_jobs w))) \<le> length (jobs_of s (cw_jobs w))" for s
  proof -
    have "jobs_of s (filter P (cw_jobs w)) = filter P (jobs_of s (cw_jobs w))"
      by (simp add: jobs_of_def conj_commute)
    then show ?thesis by simp
  qed
  then show ?thesis using inv by (auto simp: jobs_inv_def distinct_map_filter intro: order_trans)
qed

lemma cron_delete_inv:
  assumes "codec_ok c" "cron_inv c w" "cron_delete c now env auth i w = (w', r)"
  shows "cron_inv c w'"
  using assms(3)
proof (cases rule: cron_delete_cases)
  case (2 job s t w1 q)
  have "jobs_inv c w1" using assms(2) 2(4) jobs_inv_filter [of c w] by (simp add: cron_inv_def)
  from install_inv [OF assms(1) this 2(5)] show ?thesis using assms(2) 2(4) by (simp add: cron_inv_def)
qed (use assms(2) in simp)

datatype cron_op =
    CronSet int "nat \<Rightarrow> nat list" cron_env auth_context cron_set_input
  | CronDelete int cron_env auth_context int
  | CronAccount account_op

fun cron_step :: "'j codec \<Rightarrow> cron_op \<Rightarrow> cron_world \<Rightarrow> cron_world" where
  "cron_step c (CronSet now draws env auth inp) w = fst (cron_set c now draws env auth inp w)"
| "cron_step c (CronDelete now env auth i) w = fst (cron_delete c now env auth i w)"
| "cron_step c (CronAccount op) w = w\<lparr>cw_db := account_step c op (cw_db w)\<rparr>"

lemma update_keys: "(\<And>r. sbr_id (g r) = sbr_id r \<and> sbr_linux_user (g r) = sbr_linux_user r)
  \<Longrightarrow> (\<lambda>s. (sbr_id s, sbr_linux_user s)) ` set (fst (sql_update P g rows)) = (\<lambda>s. (sbr_id s, sbr_linux_user s)) ` set rows"
  using sql_update_map [of "\<lambda>s. (sbr_id s, sbr_linux_user s)" g P rows] by (metis (no_types, lifting) list.set_map)

lemma create_keys: "sub_keys db \<subseteq> sub_keys (fst (create_subscription c now draws customer db))"
  using create_attempts_cases [of c now customer "map (\<lambda>k. generate_linux_user (draws k)) [0..<8]" db] inserted_keys
  by (metis create_subscription_def order_refl prod.collapse)

lemma assign_keys: "sub_keys (fst (assign_in_scope c f now i p db)) = sub_keys db"
proof -
  obtain db' r where eq: "assign_in_scope c f now i p db = (db', r)" by fastforce
  have "db' = db \<or> (\<exists>j q x. assign_plan c now j q db = (db', x))"
    using eq by (auto simp: assign_in_scope_def result_simps split: sum.splits prod.splits)
  then have "db' = db \<or> (\<exists>j q. db' = db\<lparr>ad_subs := fst (sql_update (\<lambda>r. sbr_id r = j)
                  (\<lambda>r. r\<lparr>sbr_plan_id := Some q, sbr_updated_at := to_sql_time c now\<rparr>) (ad_subs db))\<rparr>)"
    using assign_plan_cases by metis
  then have "sub_keys db' = sub_keys db" unfolding sub_keys_def by (elim disjE exE) (simp_all add: update_keys)
  then show ?thesis using eq by simp
qed

lemma account_step_keys: "sub_keys db \<subseteq> sub_keys (account_step c op db)"
proof (cases op)
  case (AcDefault now draws customer)
  then show ?thesis using default_cases [of c now draws customer db] create_keys by (metis account_step.simps(2) order_refl)
next
  case (AcStatus now i status reason)
  then show ?thesis by (simp add: sub_keys_def set_subscription_status_def Let_def update_keys)
next
  case (AcNewPlan f now new)
  then show ?thesis using create_plan_cases [of c f now new db, OF prod.collapse [symmetric]] by (auto simp: sub_keys_def)
next
  case (AcChangePlan f now i u)
  then show ?thesis using update_plan_cases [of c f now i u db, OF prod.collapse [symmetric]] by (auto simp: sub_keys_def)
next
  case (AcDropPlan f i)
  then show ?thesis using delete_plan_cases [of c f i db, OF prod.collapse [symmetric]] by (auto simp: sub_keys_def)
qed (simp_all add: create_keys assign_keys)

lemma cron_step_inv:
  assumes "codec_ok c" "cron_inv c w"
  shows "cron_inv c (cron_step c op w)"
proof (cases op)
  case (CronSet now draws env auth inp)
  then show ?thesis using cron_set_inv [OF assms prod.collapse [symmetric]] by simp
next
  case (CronDelete now env auth i)
  then show ?thesis using cron_delete_inv [OF assms prod.collapse [symmetric]] by simp
next
  case (CronAccount op)
  then show ?thesis
    using assms(2) account_step_inv [of "cw_db w" c] jobs_inv_mono [of c w] account_step_keys [of "cw_db w" c] by (simp add: cron_inv_def)
qed

lemma cron_run_inv: "codec_ok c \<Longrightarrow> cron_inv c w \<Longrightarrow> cron_inv c (fold (cron_step c) ops w)"
  by (induction ops arbitrary: w) (simp_all add: cron_step_inv)

section \<open>What is installed\<close>

lemma sort_key_map: "sort_key k (map g xs) = map g (sort_key (\<lambda>x. k (g x)) xs)"
proof (induction xs)
  case (Cons a xs)
  have "insort_key k (g a) (map g ys) = map g (insort_key (\<lambda>x. k (g x)) a ys)" for ys
    by (induction ys) simp_all
  with Cons show ?case by simp
qed simp

definition with_last_error :: "str option \<Rightarrow> str \<Rightarrow> cron_job_row \<Rightarrow> cron_job_row" where
  "with_last_error err ts r = r\<lparr>cr_last_error := err, cr_updated_at := ts\<rparr>"

lemma mark_fields [simp]: "cr_id (with_last_error err ts r) = cr_id r" "cr_subscription_id (with_last_error err ts r) = cr_subscription_id r"
  "cr_schedule (with_last_error err ts r) = cr_schedule r" "cr_command (with_last_error err ts r) = cr_command r"
  "cr_enabled (with_last_error err ts r) = cr_enabled r" "cr_created_at (with_last_error err ts r) = cr_created_at r"
  "cr_updated_at (with_last_error err ts r) = ts" "cr_last_error (with_last_error err ts r) = err"
  by (simp_all add: with_last_error_def)

lemma marked_jobs:
  "jobs_of s (cw_jobs (set_cron_last_error c now s err w)) = map (with_last_error err (to_sql_time c now)) (jobs_of s (cw_jobs w))"
proof -
  have "filter (\<lambda>r. cr_subscription_id r = s) (map (\<lambda>r. if cr_subscription_id r = s then with_last_error err ts r else r) rows)
      = map (with_last_error err ts) (filter (\<lambda>r. cr_subscription_id r = s) rows)" for rows ts
    by (induction rows) simp_all
  then show ?thesis by (simp add: set_cron_last_error_def sql_update_def jobs_of_def with_last_error_def [symmetric])
qed

lemma render_order_map: "render_order (map (with_last_error err ts) rows) = map (with_last_error err ts) (render_order rows)"
  by (simp add: render_order_def sort_key_map)

lemma set_render_order [simp]: "set (render_order rows) = set rows"
  by (simp add: render_order_def)

text \<open>Two lists of jobs that differ in their marks only are rendered alike.\<close>

definition same_job :: "cron_job \<Rightarrow> cron_job \<Rightarrow> bool" where
  "same_job a b \<longleftrightarrow> cj_id a = cj_id b \<and> cj_schedule a = cj_schedule b \<and> cj_command a = cj_command b \<and> cj_enabled a = cj_enabled b"

lemma same_render: "list_all2 same_job xs ys \<Longrightarrow> jobs_text p xs = jobs_text p ys"
proof (induction rule: list_all2_induct)
  case (Cons x xs y ys)
  then have "job_text p x = job_text p y" by (simp add: job_text_def same_job_def cong: if_cong)
  then show ?case using Cons by simp
qed simp

lemma same_enabled: "list_all2 same_job xs ys \<Longrightarrow> length (filter cj_enabled xs) = length (filter cj_enabled ys)"
  by (induction rule: list_all2_induct) (auto simp: same_job_def)

lemma mark_same: "codec_ok c \<Longrightarrow> cron_job_of_row c r = Inr j \<Longrightarrow>
    \<exists>k. cron_job_of_row c (with_last_error err (to_sql_time c now) r) = Inr k \<and> same_job j k"
  by (auto simp: cron_job_of_row_def result_simps same_job_def)

lemma marks_same:
  assumes "codec_ok c" "collect_results (map (cron_job_of_row c) rows) = Inr js"
  shows "\<exists>ks. collect_results (map (cron_job_of_row c) (map (with_last_error err (to_sql_time c now)) rows)) = Inr ks \<and> list_all2 same_job js ks"
  using assms(2)
proof (induction rows arbitrary: js)
  case (Cons r rows)
  then obtain j js' where j: "cron_job_of_row c r = Inr j" "collect_results (map (cron_job_of_row c) rows) = Inr js'" "js = j # js'"
    by (auto simp: result_simps)
  then obtain k where "cron_job_of_row c (with_last_error err (to_sql_time c now) r) = Inr k" "same_job j k"
    using mark_same [OF assms(1) j(1)] by blast
  with Cons.IH [OF j(2)] j(3) show ?case by auto
qed simp

text \<open>
  After an installation that succeeds, \<open>lu\<close> is the account of the subscription, and of all files the one of
  this account, and it alone, has changed: it is the rendering of the jobs that the table then holds for the
  subscription, each of them and no other.
\<close>

definition installed :: "'j codec \<Rightarrow> int \<Rightarrow> str \<Rightarrow> cron_world \<Rightarrow> cron_world \<Rightarrow> nat \<Rightarrow> bool" where
  "installed c sub lu w w' n \<longleftrightarrow>
     (sub, lu) \<in> sub_keys (cw_db w')
     \<and> (\<exists>user jobs mail content. linux_user_parse lu = Inr user \<and> cron_jobs_for_render c sub w' = Inr jobs
        \<and> map cj_id jobs = map cr_id (render_order (filter (\<lambda>r. cr_subscription_id r = sub) (cw_jobs w')))
        \<and> render_crontab sub jobs (placement_of user) mail = Inr content \<and> mail_ok mail
        \<and> mc_managed (cw_machine w') = (mc_managed (cw_machine w))(linux_user_as_str user \<mapsto> content)
        \<and> mc_slices (cw_machine w) (slice_file_name user) \<and> n = length (filter cj_enabled jobs))"

lemma rendered_ids:
  "cron_jobs_for_render c sub w = Inr jobs \<Longrightarrow>
     map cj_id jobs = map cr_id (render_order (filter (\<lambda>r. cr_subscription_id r = sub) (cw_jobs w)))"
proof -
  have "collect_results (map (cron_job_of_row c) rows) = Inr js \<Longrightarrow> map cj_id js = map cr_id rows" for rows js
    by (induction rows arbitrary: js) (auto simp: result_simps dest: cron_job_of_row_fields)
  then show "cron_jobs_for_render c sub w = Inr jobs \<Longrightarrow>
     map cj_id jobs = map cr_id (render_order (filter (\<lambda>r. cr_subscription_id r = sub) (cw_jobs w)))"
    by (simp add: cron_jobs_for_render_def jobs_of_def)
qed

lemma install_ok:
  assumes "codec_ok c" "prepare_cron c env w0 s = Inr t" "cw_machine w = cw_machine w0"
    "install_from_db c now env s t w = (w', Inr n)" "(sb_id s, sb_linux_user s) \<in> sub_keys (cw_db w)"
  shows "installed c (sb_id s) (sb_linux_user s) w0 w' n"
proof -
  obtain user where u: "linux_user_parse (sb_linux_user s) = Inr user" "ct_placement t = placement_of user"
      "mail_ok (ct_mail t)" "mc_slices (cw_machine w0) (slice_file_name user)"
    using assms(2) by (rule prepare_Inr)
  then obtain jobs content err where i: "cron_jobs_for_render c (sb_id s) w = Inr jobs"
      "render_crontab (sb_id s) jobs (placement_of user) (ct_mail t) = Inr content"
      "cw_jobs w' = cw_jobs (set_cron_last_error c now (sb_id s) err w)"
      "mc_managed (cw_machine w') = (mc_managed (cw_machine w))(linux_user_as_str user \<mapsto> content)"
      "cw_db w' = cw_db w" "n = length (filter cj_enabled jobs)"
    using install_cases [OF assms(4)] by fastforce
  have "\<exists>ks. cron_jobs_for_render c (sb_id s) w' = Inr ks \<and> list_all2 same_job jobs ks"
    using marks_same [OF assms(1) i(1) [unfolded cron_jobs_for_render_def]]
    by (simp only: cron_jobs_for_render_def i(3) marked_jobs render_order_map)
  then obtain ks where "cron_jobs_for_render c (sb_id s) w' = Inr ks" "list_all2 same_job jobs ks" by blast
  moreover from this rendered_ids have "map cj_id ks = map cr_id (render_order (filter (\<lambda>r. cr_subscription_id r = sb_id s) (cw_jobs w')))"
    by blast
  ultimately show ?thesis
    using i(1,2,4-) u assms(3,5) unfolding installed_def by (auto simp: render_crontab_def same_render same_enabled)
qed

lemma written_row:
  assumes "codec_ok c" "\<And>j. existing = Some j \<Longrightarrow> \<forall>r \<in> set (cw_jobs w). cr_id r = cj_id j \<longrightarrow> cr_subscription_id r = sub"
    "write_job c now auth existing sub schedule command enabled w = (w', Inr job)"
  shows "cj_subscription_id job = sub \<and> (\<exists>r \<in> set (cw_jobs w'). cr_id r = cj_id job \<and> cr_subscription_id r = sub)"
proof (cases existing)
  case None
  then show ?thesis
    using assms(3) by (auto simp: write_job_def create_cron_job_def Let_def result_simps split: if_splits dest!: cron_job_of_row_fields)
next
  case (Some j)
  let ?u = "\<lparr>cu_schedule = Some schedule, cu_command = Some command, cu_enabled = Some enabled\<rparr>"
  let ?w = "w\<lparr>cw_jobs := fst (sql_update (\<lambda>r. cr_id r = cj_id j) (updated_cron_job c now ?u) (cw_jobs w))\<rparr>"
  have "w' = ?w" "cron_job_by_id c (filter_from_scope (tenant_scope auth)) ?w (cj_id j) = Inr (Some job)"
    using assms(3) Some
    by (auto simp: write_job_def update_cron_job_def Let_def result_simps ok_or_def split: sum.splits option.splits)
  then obtain r where r: "fetch_cron_job (cw_db ?w) (filter_from_scope (tenant_scope auth)) (cw_jobs w') (cj_id j) = Some r"
      "cron_job_of_row c r = Inr job"
    by (auto simp: cron_job_by_id_Some)
  then have "r \<in> set (cw_jobs w')" "cr_id r = cj_id j" using crons.fetch_sound by blast+
  moreover have "cr_subscription_id r = sub"
    using calculation assms(2) [OF Some] \<open>w' = ?w\<close> by (auto simp: sql_update_set updated_cron_job_def split: if_splits)
  ultimately show ?thesis using cron_job_of_row_fields [OF r(2)] by auto
qed

lemma saved_job:
  assumes "codec_ok c" "cron_inv c w" "cj_subscription_id job = sb_id s \<and> (\<exists>r \<in> set (cw_jobs w). cr_id r = cj_id job \<and> cr_subscription_id r = sb_id s)"
    "install_from_db c now env s t w = (w', q)" "cron_job_by_id c f w' (cj_id job) = Inr again"
    "j = (case again of Some j \<Rightarrow> j | None \<Rightarrow> job)"
  shows "cj_subscription_id j = sb_id s"
proof (cases again)
  case (Some k)
  then obtain r where r: "r \<in> set (cw_jobs w')" "cr_id r = cj_id job" "cron_job_of_row c r = Inr k"
    using assms(5) by (auto simp: cron_job_by_id_Some dest!: crons.fetch_sound)
  have "map job_core (cw_jobs w') = map job_core (cw_jobs w)"
    using install_cases [OF assms(4)] mark_core by metis
  then have "job_core ` set (cw_jobs w') = job_core ` set (cw_jobs w)" by (metis list.set_map)
  then obtain r1 where r1: "r1 \<in> set (cw_jobs w)" "job_core r1 = job_core r" using r(1) by (metis imageE imageI)
  obtain r2 where r2: "r2 \<in> set (cw_jobs w)" "cr_id r2 = cj_id job" "cr_subscription_id r2 = sb_id s" using assms(3) by blast
  have "inj_on cr_id (set (cw_jobs w))" using assms(2) by (simp add: cron_inv_def jobs_inv_def distinct_map)
  moreover have "cr_id r1 = cr_id r2" using r1 r2 r by (simp add: job_core_def)
  ultimately have "r1 = r2" using r1 r2 by (metis inj_onD)
  then show ?thesis using r1 r2 Some assms(6) cron_job_of_row_fields [OF r(3)] by (simp add: job_core_def)
qed (use assms in simp)

lemma target_row_of_job:
  assumes "cron_inv c w" "set_target c now draws auth inp w = (w1, Inr (existing, s))" "existing = Some j"
  shows "\<forall>r \<in> set (cw_jobs w1). cr_id r = cj_id j \<longrightarrow> cr_subscription_id r = sb_id s"
proof -
  have inv: "accounts_inv (cw_db w)" "inj_on cr_id (set (cw_jobs w1))"
    using assms(1) set_target_inv [OF assms(1,2)] by (simp_all add: cron_inv_def jobs_inv_def distinct_map)
  then show ?thesis using set_target_world [OF assms(2) inv(1)] assms(3) by (metis inj_onD)
qed

lemma target_keys:
  assumes "cron_inv c w" "set_target c now draws auth inp w = (w1, Inr (existing, s))"
  shows "(sb_id s, sb_linux_user s) \<in> sub_keys (cw_db w1)"
proof -
  have "accounts_inv (cw_db w)" using assms(1) by (simp add: cron_inv_def)
  then obtain row where "target_row auth w1 s row" using set_target_world [OF assms(2)] by blast
  then show ?thesis by (force simp: target_row_def sub_keys_def)
qed

lemma install_ids: "install_from_db c now env s t w = (w', q) \<Longrightarrow> cr_id ` set (cw_jobs w') = cr_id ` set (cw_jobs w)"
proof -
  assume "install_from_db c now env s t w = (w', q)"
  then have "map job_core (cw_jobs w') = map job_core (cw_jobs w)"
    using install_cases mark_core by metis
  then have "fst ` job_core ` set (cw_jobs w') = fst ` job_core ` set (cw_jobs w)" by (metis list.set_map)
  then show ?thesis by (simp add: image_image job_core_def)
qed

lemma saved_id:
  assumes "install_from_db c now env s t w = (w', q)" "\<exists>r \<in> set (cw_jobs w). cr_id r = cj_id job"
    "\<And>out. r = Inr out \<Longrightarrow> q = Inr (co_scheduled out) \<and> co_linux_user out = lu
        \<and> (\<exists>again. cron_job_by_id c f w' (cj_id job) = Inr again \<and> co_job out = (case again of Some j \<Rightarrow> j | None \<Rightarrow> job))"
    "r = Inr out"
  shows "cj_id (co_job out) \<in> cr_id ` set (cw_jobs w')"
proof -
  obtain again where again: "cron_job_by_id c f w' (cj_id job) = Inr again" "co_job out = (case again of Some j \<Rightarrow> j | None \<Rightarrow> job)"
    using assms(3,4) by blast
  show ?thesis
  proof (cases again)
    case (Some k)
    then show ?thesis
      using again by (auto simp: cron_job_by_id_Some dest!: crons.fetch_sound cron_job_of_row_fields)
  next
    case None
    then show ?thesis using again(2) assms(2) install_ids [OF assms(1)] by force
  qed
qed

lemma install_files:
  assumes "prepare_cron c env w0 s = Inr t" "cw_machine w = cw_machine w0" "install_from_db c now env s t w = (w', q)"
    "\<not> is_unihelm_crontab f"
  shows "(mc_managed (cw_machine w0) u = Some f \<longrightarrow> mc_managed (cw_machine w') u = Some f)
    \<and> (mc_spool (cw_machine w0) u = Some f \<longrightarrow> mc_spool (cw_machine w') u = Some f
         \<and> mc_managed (cw_machine w') u = mc_managed (cw_machine w0) u)"
proof -
  obtain user where p: "linux_user_parse (sb_linux_user s) = Inr user"
      "\<And>f. mc_managed (cw_machine w0) (linux_user_as_str user) = Some f \<Longrightarrow> is_unihelm_crontab f"
      "\<And>f. mc_spool (cw_machine w0) (linux_user_as_str user) = Some f \<Longrightarrow> is_unihelm_crontab f"
    using assms(1) by (elim prepare_Inr) metis
  consider "cw_machine w' = cw_machine w0"
    | "mc_managed (cw_machine w') = mc_managed (cw_machine w0)" "mc_spool (cw_machine w') = mc_spool (cw_machine w0)"
    | content where "mc_managed (cw_machine w') = (mc_managed (cw_machine w0))(linux_user_as_str user \<mapsto> content)"
        "\<And>v. mc_spool (cw_machine w') v \<noteq> mc_spool (cw_machine w0) v \<Longrightarrow> v = linux_user_as_str user"
    using install_cases [OF assms(3)] assms(2) p(1) by auto
  then show ?thesis
  proof cases
    case (3 content)
    then have "mc_spool (cw_machine w') u = mc_spool (cw_machine w0) u" if "u \<noteq> linux_user_as_str user" using that by metis
    then show ?thesis using 3(1) p(2,3) assms(4) by (cases "u = linux_user_as_str user") auto
  qed simp_all
qed

lemma jobs_of_update:
  assumes "\<And>r. r \<in> set rows \<Longrightarrow> P r \<Longrightarrow> cr_subscription_id r \<noteq> x" "\<And>r. cr_subscription_id (g r) = cr_subscription_id r"
  shows "jobs_of x (fst (sql_update P g rows)) = jobs_of x rows"
  using assms by (induction rows) (auto simp: jobs_of_def sql_update_def)

lemma install_others:
  assumes "install_from_db c now env s t w = (w', q)" "x \<noteq> sb_id s"
  shows "jobs_of x (cw_jobs w') = jobs_of x (cw_jobs w)"
proof -
  have "jobs_of x (cw_jobs (set_cron_last_error c now (sb_id s) err w)) = jobs_of x (cw_jobs w)" for err
    unfolding set_cron_last_error_def using assms(2) by (simp, subst jobs_of_update) auto
  then show ?thesis using install_cases [OF assms(1)] by metis
qed

lemma write_others:
  assumes "write_job c now auth existing sub schedule command enabled w = (w', q)" "x \<noteq> sub"
    "\<And>j. existing = Some j \<Longrightarrow> \<forall>r \<in> set (cw_jobs w). cr_id r = cj_id j \<longrightarrow> cr_subscription_id r = sub"
  shows "jobs_of x (cw_jobs w') = jobs_of x (cw_jobs w)"
proof (cases existing)
  case None
  then show ?thesis
    using assms(1,2) by (auto simp: write_job_def create_cron_job_def Let_def jobs_of_def split: if_splits)
next
  case (Some j)
  have "jobs_of x (fst (sql_update (\<lambda>r. cr_id r = cj_id j) (updated_cron_job c now u) (cw_jobs w))) = jobs_of x (cw_jobs w)" for u
    using assms(2,3) Some by (intro jobs_of_update) (auto simp: updated_cron_job_def)
  then show ?thesis
    using assms(1) Some by (auto simp: write_job_def update_cron_job_def Let_def split: sum.splits)
qed

lemma hidden_target:
  assumes "target_row auth w s row" "accounts_inv (cw_db w)" "sub \<in> set (ad_subs (cw_db w))"
    "\<not> subscription_visible (ad_users (cw_db w)) (filter_from_scope (tenant_scope auth)) sub" "sbr_customer_id sub \<noteq> actor_user_id auth"
  shows "sbr_id sub \<noteq> sb_id s"
proof
  assume "sbr_id sub = sb_id s"
  moreover have "inj_on sbr_id (set (ad_subs (cw_db w)))" using assms(2) by (simp add: accounts_inv_def distinct_map)
  ultimately have "row = sub" using assms(1,3) unfolding target_row_def by (metis inj_onD)
  then show False using assms by (simp add: target_row_def)
qed

section \<open>Properties\<close>

lemma all_rendered:
  assumes "cron_inv c w" "sub \<in> set (ad_subs (cw_db w))" "linux_user_parse (sbr_linux_user sub) = Inr user"
  shows "\<exists>jobs. cron_jobs_for_render c (sbr_id sub) w = Inr jobs \<and> is_ok (render_crontab (sbr_id sub) jobs (placement_of user) mail)"
proof -
  have good: "is_ok (cron_job_of_row c r) \<and> (\<forall>j. cron_job_of_row c r = Inr j \<longrightarrow> is_ok (job_text (placement_of user) j))"
    if "r \<in> set (jobs_of (sbr_id sub) (cw_jobs w))" for r
  proof -
    have r: "r \<in> set (cw_jobs w)" "cr_subscription_id r = sbr_id sub" using that by (auto simp: jobs_of_def)
    then have "job_ok c (cw_db w) r" using assms(1) by (simp add: cron_inv_def jobs_inv_def)
    then obtain lu u where j: "is_ok (cron_job_of_row c r)" "validate_schedule (cr_schedule r) = Inr (cr_schedule r)"
        "validate_command (cr_command r) = Inr (cr_command r)" "(cr_subscription_id r, lu) \<in> sub_keys (cw_db w)"
        "linux_user_parse lu = Inr u" "is_ok (job_line (cr_schedule r) (cr_command r) (placement_of u))"
      unfolding job_ok_def by blast
    from j(4) obtain sub2 where "sub2 \<in> set (ad_subs (cw_db w))" "sbr_id sub2 = sbr_id sub" "sbr_linux_user sub2 = lu"
      using r(2) by (auto simp: sub_keys_def)
    moreover have "inj_on sbr_id (set (ad_subs (cw_db w)))"
      using assms(1) by (simp add: cron_inv_def accounts_inv_def distinct_map)
    ultimately have "lu = sbr_linux_user sub" using assms(2) by (metis inj_onD)
    then have "u = user" using j(5) assms(3) by simp
    then show ?thesis
      using j by (auto simp: job_text_def is_ok_iff dest!: cron_job_of_row_fields)
  qed
  have ok: "\<exists>js. collect_results (map (cron_job_of_row c) rows) = Inr js \<and> is_ok (jobs_text (placement_of user) js)"
    if "set rows \<subseteq> set (jobs_of (sbr_id sub) (cw_jobs w))" for rows
    using that
  proof (induction rows)
    case (Cons r rows)
    then show ?case using good [of r] by (auto simp: is_ok_iff)
  qed simp
  from ok [of "render_order (jobs_of (sbr_id sub) (cw_jobs w))"] show ?thesis
    by (auto simp: cron_jobs_for_render_def render_crontab_def is_ok_iff)
qed

text \<open>C13: Whatever callers do with jobs, subscriptions and plans, starting from empty tables, every subscription's jobs can always be read back and written to its account's crontab, no subscription has more than a hundred, and no job belongs to a subscription that does not exist.\<close>

theorem stored_jobs_can_always_be_rendered:
  assumes "codec_ok c"
  shows "let w = fold (cron_step c) ops \<lparr>cw_db = empty_accounts users, cw_jobs = [], cw_seq = 0, cw_machine = mc\<rparr> in
    (\<forall>sub \<in> set (ad_subs (cw_db w)). \<forall>user. linux_user_parse (sbr_linux_user sub) = Inr user \<longrightarrow>
       (\<exists>jobs. cron_jobs_for_render c (sbr_id sub) w = Inr jobs
          \<and> is_ok (render_crontab (sbr_id sub) jobs (placement_of user) mail) \<and> length jobs \<le> 100))
    \<and> (\<forall>r \<in> set (cw_jobs w). cr_subscription_id r \<in> sbr_id ` set (ad_subs (cw_db w)))"
proof -
  define w where "w = fold (cron_step c) ops \<lparr>cw_db = empty_accounts users, cw_jobs = [], cw_seq = 0, cw_machine = mc\<rparr>"
  have "cron_inv c w"
    unfolding w_def by (rule cron_run_inv [OF assms]) (simp add: cron_inv_def jobs_inv_def jobs_of_def empty_accounts_inv)
  moreover have "length jobs \<le> 100" if "cron_jobs_for_render c s w = Inr jobs" for s jobs
  proof -
    have "length jobs = length (jobs_of s (cw_jobs w))"
      using that by (auto simp: cron_jobs_for_render_def collect_results_Inr render_order_def dest!: arg_cong [of _ _ length])
    then show ?thesis using \<open>cron_inv c w\<close> by (simp add: cron_inv_def jobs_inv_def max_jobs_per_subscription_def)
  qed
  moreover have "cr_subscription_id r \<in> sbr_id ` set (ad_subs (cw_db w))" if "r \<in> set (cw_jobs w)" for r
    using \<open>cron_inv c w\<close> that by (force simp: cron_inv_def jobs_inv_def job_ok_def sub_keys_def)
  ultimately show ?thesis
    unfolding w_def [symmetric] Let_def using all_rendered by blast
qed

text \<open>
  C12: When a job is saved or deleted, the file in /etc/cron.d of the account of its subscription is exactly
  the rendering of the jobs the table then holds for this subscription, in the fixed order, inside the
  account's existing slice; no other account's file changes; and the count answered is the number of enabled
  jobs. The saved job is in the table then, a deleted one, which was of the subscription answered, is not.
\<close>

theorem installed_file_is_the_table:
  assumes "codec_ok c" "cron_inv c w"
  shows "(cron_set c now draws env auth inp w = (w', Inr out) \<longrightarrow>
            installed c (cj_subscription_id (co_job out)) (co_linux_user out) w w' (co_scheduled out)
            \<and> cj_id (co_job out) \<in> cr_id ` set (cw_jobs w'))
    \<and> (cron_delete c now env auth i w = (w'', Inr (sub, n)) \<longrightarrow>
         (\<exists>lu. installed c sub lu w w'' n) \<and> (i, sub) \<in> (\<lambda>r. (cr_id r, cr_subscription_id r)) ` set (cw_jobs w)
         \<and> i \<notin> cr_id ` set (cw_jobs w''))"
proof (intro conjI [of "_ \<longrightarrow> _"] impI)
  assume "cron_set c now draws env auth inp w = (w', Inr out)"
  then show "installed c (cj_subscription_id (co_job out)) (co_linux_user out) w w' (co_scheduled out)
      \<and> cj_id (co_job out) \<in> cr_id ` set (cw_jobs w')"
  proof (cases rule: cron_set_cases)
    case (install w1 existing s schedule command target w2 job q)
    obtain user where p: "prepare_cron c env w1 s = Inr target" using install(2) by (rule check_set_Inr)
    have m: "cw_machine w1 = cw_machine w" using set_target_inv [OF assms(2) install(1)] by simp
    have w2: "cw_machine w2 = cw_machine w1" "cron_inv c w2" "cw_db w2 = cw_db w1" using target_written [OF assms install(1-3)] m by simp_all
    have row: "(sb_id s, sb_linux_user s) \<in> sub_keys (cw_db w2)"
      using target_keys [OF assms(2) install(1)] w2(3) by simp
    note written = written_row [OF assms(1) _ install(3)]
    have "cj_subscription_id (co_job out) = sb_id s"
      using saved_job [OF assms(1) w2(2) written install(4)] target_row_of_job [OF assms(2) install(1)] install(5)
      by blast
    moreover have "q = Inr (co_scheduled out)" "co_linux_user out = sb_linux_user s" using install(5) by blast+
    ultimately have "installed c (cj_subscription_id (co_job out)) (co_linux_user out) w1 w' (co_scheduled out)"
      using install_ok [OF assms(1) p w2(1) _ row] install(4) by simp
    moreover have "cj_id (co_job out) \<in> cr_id ` set (cw_jobs w')"
      using saved_id [OF install(4) _ install(5)] written target_row_of_job [OF assms(2) install(1)] by blast
    ultimately show ?thesis using m by (simp add: installed_def)
  qed simp_all
next
  assume "cron_delete c now env auth i w = (w'', Inr (sub, n))"
  then show "(\<exists>lu. installed c sub lu w w'' n) \<and> (i, sub) \<in> (\<lambda>r. (cr_id r, cr_subscription_id r)) ` set (cw_jobs w)
      \<and> i \<notin> cr_id ` set (cw_jobs w'')"
  proof (cases rule: cron_delete_cases)
    case (2 job s t w1 q)
    have sub: "sub = cj_subscription_id job" "q = Inr n" using 2(6) by (auto simp: result_simps dest: sym)
    have "subscription_by_id c FAll (cw_db w) (cj_subscription_id job) = Inr (Some s)"
      using 2(2) by (auto simp: subscription_of_job_def result_simps ok_or_def split: option.splits)
    from fetch_by_id [OF this] have s: "sb_id s = cj_subscription_id job" "(sb_id s, sb_linux_user s) \<in> sub_keys (cw_db w1)"
      using 2(4) by (force simp: sub_keys_def)+
    have "cr_id ` set (cw_jobs w'') = cr_id ` set (cw_jobs w1)" by (rule install_ids [OF 2(5)])
    then have "i \<notin> cr_id ` set (cw_jobs w'')" using 2(4) by auto
    moreover have "(i, sub) \<in> (\<lambda>r. (cr_id r, cr_subscription_id r)) ` set (cw_jobs w)"
      using visible_job_row [OF 2(1)] sub(1) by force
    moreover have "installed c sub (sb_linux_user s) w w'' n"
      using install_ok [OF assms(1) 2(3) _ _ s(2)] 2(4,5) sub s(1) by simp
    ultimately show ?thesis by blast
  qed simp
qed

text \<open>C14: No sequence of calls changes or removes a crontab Unihelm did not write, neither in /etc/cron.d nor in an account's own spool, and while an account has such a spool file nothing is installed for it.\<close>

theorem foreign_crontabs_are_never_touched:
  assumes "codec_ok c" "cron_inv c w" "\<not> is_unihelm_crontab f"
  shows "(mc_managed (cw_machine w) u = Some f \<longrightarrow> mc_managed (cw_machine (cron_step c op w)) u = Some f)
    \<and> (mc_spool (cw_machine w) u = Some f \<longrightarrow> mc_spool (cw_machine (cron_step c op w)) u = Some f
         \<and> mc_managed (cw_machine (cron_step c op w)) u = mc_managed (cw_machine w) u)"
proof (cases op)
  case (CronSet now draws env auth inp)
  obtain w' r where set: "cron_set c now draws env auth inp w = (w', r)" by fastforce
  from set show ?thesis
  proof (cases rule: cron_set_cases)
    case (target q e)
    then show ?thesis using set CronSet set_target_inv [OF assms(2)] by simp
  next
    case (refused w1 existing s schedule command target e)
    then show ?thesis using set CronSet target_written [OF assms(1,2) refused(1,2,4)] by simp
  next
    case (install w1 existing s schedule command target w2 job q)
    have p: "prepare_cron c env w1 s = Inr target" using install(2) by (rule check_set_Inr)
    have m: "cw_machine w1 = cw_machine w" using set_target_inv [OF assms(2) install(1)] by simp
    then have "cw_machine w2 = cw_machine w1" using target_written [OF assms(1,2) install(1-3)] by simp
    from install_files [OF p this install(4) assms(3)] show ?thesis using m set CronSet by simp
  qed
next
  case (CronDelete now env auth i)
  obtain w' r where del: "cron_delete c now env auth i w = (w', r)" by fastforce
  from del show ?thesis
  proof (cases rule: cron_delete_cases)
    case (2 job s t w1 q)
    have "cw_machine w1 = cw_machine w" using 2(4) by simp
    from install_files [OF 2(3) this 2(5) assms(3)] show ?thesis using del CronDelete by simp
  qed (use del CronDelete in simp)
qed simp

text \<open>C15: A caller never creates, changes, marks or deletes a job of a subscription outside the caller's scope that is not the caller's own: its jobs are the same rows before and after.\<close>

theorem tenants_reach_only_their_own_jobs:
  assumes "codec_ok c" "cron_inv c w" "sub \<in> set (ad_subs (cw_db w))"
    "\<not> subscription_visible (ad_users (cw_db w)) (filter_from_scope (tenant_scope auth)) sub" "sbr_customer_id sub \<noteq> actor_user_id auth"
  shows "jobs_of (sbr_id sub) (cw_jobs (fst (cron_set c now draws env auth inp w))) = jobs_of (sbr_id sub) (cw_jobs w)
    \<and> jobs_of (sbr_id sub) (cw_jobs (fst (cron_delete c now env auth i w))) = jobs_of (sbr_id sub) (cw_jobs w)"
proof -
  have acc: "accounts_inv (cw_db w)" using assms(2) by (simp add: cron_inv_def)
  have other: "sbr_id sub \<noteq> sb_id s \<and> cw_jobs w1 = cw_jobs w" if t: "set_target c now draws auth inp w = (w1, Inr (existing, s))" for w1 existing s
  proof -
    note tw = set_target_world [OF t acc]
    have inv: "cron_inv c w1" "cw_jobs w1 = cw_jobs w" using set_target_inv [OF assms(2) t] by simp_all
    have "sub \<in> set (ad_subs (cw_db w1))" "ad_users (cw_db w1) = ad_users (cw_db w)"
      using tw assms(3) by (auto simp: inserted_def)
    then show ?thesis
      using hidden_target [of auth w1 s _ sub] tw inv assms(4,5) by (auto simp: cron_inv_def)
  qed
  obtain w' r where set: "cron_set c now draws env auth inp w = (w', r)" by fastforce
  then have "jobs_of (sbr_id sub) (cw_jobs w') = jobs_of (sbr_id sub) (cw_jobs w)"
  proof (cases rule: cron_set_cases)
    case (target q e)
    then show ?thesis using set_target_inv [OF assms(2)] by metis
  next
    case (refused w1 existing s schedule command target e)
    then show ?thesis using write_others [OF refused(4)] other target_row_of_job [OF assms(2) refused(1)] by metis
  next
    case (install w1 existing s schedule command target w2 job q)
    then show ?thesis
      using write_others [OF install(3)] install_others [OF install(4)] other target_row_of_job [OF assms(2) install(1)] by metis
  qed
  moreover obtain w'' r' where del: "cron_delete c now env auth i w = (w'', r')" by fastforce
  then have "jobs_of (sbr_id sub) (cw_jobs w'') = jobs_of (sbr_id sub) (cw_jobs w)"
  proof (cases rule: cron_delete_cases)
    case (2 job s t w1 q)
    note j = job_target [OF acc 2(1,2)]
    then have ne: "sbr_id sub \<noteq> sb_id s" using hidden_target [OF _ acc assms(3-5)] by blast
    have "inj_on cr_id (set (cw_jobs w))" using assms(2) by (simp add: cron_inv_def jobs_inv_def distinct_map)
    then have "\<forall>r \<in> set (cw_jobs w). cr_id r = i \<longrightarrow> cr_subscription_id r = sb_id s" using j by (metis inj_onD)
    then have "jobs_of (sbr_id sub) (cw_jobs w1) = jobs_of (sbr_id sub) (cw_jobs w)"
      using ne unfolding 2(4) jobs_of_def by (auto intro!: filter_cong)
    then show ?thesis using install_others [OF 2(5) ne] by simp
  qed simp
  ultimately show ?thesis using set del by simp
qed

section \<open>Witnesses\<close>

definition sample_subscription :: subscription_row where
  "sample_subscription =
     \<lparr>sbr_id = 4, sbr_customer_id = 7, sbr_plan_id = None, sbr_linux_user = ''al-x'', sbr_home_dir = ''/home/al-x'',
      sbr_status = ''active'', sbr_suspended_reason = None, sbr_suspended_at = None,
      sbr_created_at = to_sql_time sample_codec 5, sbr_updated_at = to_sql_time sample_codec 5\<rparr>"

definition sample_job :: cron_job_row where
  "sample_job =
     \<lparr>cr_id = 1, cr_subscription_id = 4, cr_schedule = nightly, cr_command = sample_command, cr_enabled = 1,
      cr_last_error = None, cr_created_at = to_sql_time sample_codec 5, cr_updated_at = to_sql_time sample_codec 5\<rparr>"

definition sample_world :: cron_world where
  "sample_world =
     \<lparr>cw_db = \<lparr>ad_users = \<lparr>ut_rows = [], ut_seq = 0\<rparr>, ad_subs = [sample_subscription], ad_sub_seq = 4, ad_plans = [], ad_plan_seq = 0\<rparr>,
      cw_jobs = [sample_job], cw_seq = 1,
      cw_machine = \<lparr>mc_spool = (\<lambda>u. if u = ''bob'' then Some ''5 4 * * * x'' else None), mc_managed = (\<lambda>_. None),
                    mc_slices = (\<lambda>u. u = slice_file_name alice)\<rparr>\<rparr>"

definition quiet :: cron_env where
  "quiet = \<lparr>ce_read_spool = (\<lambda>_. None), ce_remove_spool = (\<lambda>_. None), ce_read_managed = (\<lambda>_. None),
            ce_install = (\<lambda>_. None), ce_slice = (\<lambda>_. None)\<rparr>"

definition tenant :: "int \<Rightarrow> auth_context" where
  "tenant i = from_role i Customer (ScCustomer i) ''r''"

lemma tenant_facts [simp]: "tenant_scope (tenant i) = ScCustomer i" "actor_user_id (tenant i) = i"
  by (simp_all add: tenant_def from_role_def)

lemma sample_world_inv: "cron_inv sample_codec sample_world"
proof -
  have "job_ok sample_codec (cw_db sample_world) sample_job"
    unfolding job_ok_def
    by (intro conjI exI [of _ "''al-x''"] exI [of _ alice])
      (simp_all add: sample_job_def sample_world_def sample_subscription_def sub_keys_def cron_job_of_row_def
        sample_codec_ok nightly_valid sample_command_valid alice_parses sample_line_facts)
  then show ?thesis
    by (simp add: cron_inv_def jobs_inv_def accounts_inv_def jobs_of_def max_jobs_per_subscription_def)
      (simp add: sample_world_def sample_job_def sample_subscription_def plan_exists_def)
qed

lemma sample_prepared:
  assumes "sb_linux_user s = ''al-x''" "sb_id s = 4" "sb_customer_id s = 7"
  shows "prepare_cron sample_codec quiet sample_world s = Inr \<lparr>ct_placement = placement_of alice, ct_mail = Nobody, ct_legacy = False\<rparr>"
  using assms alice_parses
  by (simp add: prepare_cron_def ensure_crontab_is_ours_def ensure_managed_file_is_ours_def resolve_placement_def resolve_cron_mail_def
      host_call_def quiet_def sample_world_def Let_def alice_def user_by_id_def fetch_user_def)

theorem stored_jobs_can_always_be_rendered_witness:
  "let w = fold (cron_step sample_codec)
       [CronAccount (AcCreate 5 (\<lambda>_. [0, 1, 2, 3, 4, 5, 6, 7]) 1), CronDelete 6 quiet (tenant 1) 3]
       \<lparr>cw_db = empty_accounts one_customer, cw_jobs = [], cw_seq = 0, cw_machine = cw_machine sample_world\<rparr> in
    \<forall>sub \<in> set (ad_subs (cw_db w)). \<forall>user. linux_user_parse (sbr_linux_user sub) = Inr user \<longrightarrow>
       (\<exists>jobs. cron_jobs_for_render sample_codec (sbr_id sub) w = Inr jobs
          \<and> is_ok (render_crontab (sbr_id sub) jobs (placement_of user) Nobody))"
  using stored_jobs_can_always_be_rendered [OF sample_codec_ok, of
      "[CronAccount (AcCreate 5 (\<lambda>_. [0, 1, 2, 3, 4, 5, 6, 7]) 1), CronDelete 6 quiet (tenant 1) 3]" one_customer
      "cw_machine sample_world" Nobody]
  unfolding Let_def by blast

theorem foreign_crontabs_are_never_touched_witness:
  "mc_spool (cw_machine (cron_step sample_codec (CronDelete 6 quiet (tenant 7) 1) sample_world)) ''bob'' = Some ''5 4 * * * x''"
proof -
  have "\<not> is_unihelm_crontab ''5 4 * * * x''" by code_simp
  note safe = foreign_crontabs_are_never_touched [OF sample_codec_ok sample_world_inv this]
  have "mc_spool (cw_machine sample_world) ''bob'' = Some ''5 4 * * * x''" by (simp add: sample_world_def)
  then show ?thesis using safe by blast
qed

theorem tenants_reach_only_their_own_jobs_witness:
  "jobs_of 4 (cw_jobs (fst (cron_delete sample_codec 6 quiet (tenant 8) 1 sample_world))) = [sample_job]"
  using conjunct2 [OF tenants_reach_only_their_own_jobs [OF sample_codec_ok sample_world_inv, of sample_subscription "tenant 8"]]
  by (simp add: sample_world_def sample_subscription_def subscription_visible_def  jobs_of_def sample_job_def)

definition sample_input :: cron_set_input where
  "sample_input = \<lparr>cs_id = None, cs_subscription_id = Some 4, cs_schedule = nightly, cs_command = sample_command, cs_enabled = True\<rparr>"

definition sample_tenant :: subscription where
  "sample_tenant =
     \<lparr>sb_id = 4, sb_customer_id = 7, sb_plan_id = None, sb_linux_user = ''al-x'', sb_home_dir = ''/home/al-x'',
      sb_status = SubActive, sb_suspended_reason = None, sb_suspended_at = None, sb_created_at = 5\<rparr>"

lemma sample_target:
  "set_target sample_codec 6 d (tenant 7) sample_input sample_world = (sample_world, Inr (None, sample_tenant))"
  using sample_codec_ok subscription_status_reads [of SubActive]
  by (simp add: set_target_def cron_subscription_def sample_input_def subscription_by_id_def fetch_subscription_def sample_world_def
      sample_subscription_def subscription_visible_def subscription_of_row_def ok_or_def sample_tenant_def from_sql_time_opt_def)

lemma sample_check:
  "check_set sample_codec quiet sample_input sample_tenant sample_world
     = Inr (nightly, sample_command, \<lparr>ct_placement = placement_of alice, ct_mail = Nobody, ct_legacy = False\<rparr>)"
  using sample_prepared [of sample_tenant]
  by (simp add: check_set_def sample_input_def sample_tenant_def nightly_valid sample_command_valid sample_line_facts
      ensure_plan_allows_cron_def plan_of_subscription_def sample_world_def)

lemma sample_set: "\<exists>w' out. cron_set sample_codec 6 d quiet (tenant 7) sample_input sample_world = (w', Inr out) \<and> co_linux_user out = ''al-x''"
proof -
  define row where "row = \<lparr>cr_id = 2, cr_subscription_id = 4, cr_schedule = nightly, cr_command = sample_command,
                   cr_enabled = 1, cr_last_error = None, cr_created_at = to_sql_time sample_codec 6, cr_updated_at = to_sql_time sample_codec 6\<rparr>"
  define w2 where "w2 = sample_world\<lparr>cw_jobs := [sample_job, row], cw_seq := 2\<rparr>"
  obtain job where job: "cron_job_of_row sample_codec row = Inr job"
    using sample_codec_ok by (simp add: row_def cron_job_of_row_def)
  have wr: "write_job sample_codec 6 (tenant 7) None (sb_id sample_tenant) nightly sample_command (cs_enabled sample_input) sample_world = (w2, Inr job)"
    using job by (simp add: write_job_def create_cron_job_def sample_world_def sample_job_def sample_subscription_def sample_tenant_def
        sample_input_def max_jobs_per_subscription_def jobs_of_def Let_def w2_def row_def)
  have "cron_inv sample_codec w2"
    using target_written [OF sample_codec_ok sample_world_inv sample_target sample_check wr] by simp
  then obtain jobs text' where r: "cron_jobs_for_render sample_codec 4 w2 = Inr jobs"
      "render_crontab 4 jobs (placement_of alice) Nobody = Inr text'"
    using all_rendered [of sample_codec w2 sample_subscription alice Nobody] alice_parses
    by (auto simp: w2_def sample_world_def sample_subscription_def is_ok_iff)
  then obtain w3 n where ins: "install_from_db sample_codec 6 quiet sample_tenant
        \<lparr>ct_placement = placement_of alice, ct_mail = Nobody, ct_legacy = False\<rparr> w2 = (w3, Inr n)"
    using alice_parses by (simp add: install_from_db_def sample_tenant_def quiet_def Let_def)
  have inv3: "cron_inv sample_codec w3"
    using \<open>cron_inv sample_codec w2\<close> install_inv [OF sample_codec_ok _ ins] by (simp add: cron_inv_def)
  have "\<exists>again. cron_job_by_id sample_codec f w3 i = Inr again" for f i
  proof (cases "fetch_cron_job (cw_db w3) f (cw_jobs w3) i")
    case (Some x)
    then have "x \<in> set (cw_jobs w3)" using crons.fetch_sound by blast
    then have "is_ok (cron_job_of_row sample_codec x)" using inv3 by (auto simp: cron_inv_def jobs_inv_def job_ok_def)
    then show ?thesis using Some by (auto simp: cron_job_by_id_def is_ok_iff)
  qed (simp add: cron_job_by_id_def)
  then obtain again where "cron_job_by_id sample_codec (filter_from_scope (tenant_scope (tenant 7))) w3 (cj_id job) = Inr again" by blast
  then show ?thesis
    by (simp add: cron_set_def sample_target sample_check wr ins del: tenant_facts) (simp add: sample_tenant_def)
qed

theorem installed_file_is_the_table_witness:
  "\<exists>w' out. cron_set sample_codec 6 (\<lambda>_. []) quiet (tenant 7) sample_input sample_world = (w', Inr out)
     \<and> installed sample_codec (cj_subscription_id (co_job out)) ''al-x'' sample_world w' (co_scheduled out)"
proof -
  obtain w' out where s: "cron_set sample_codec 6 (\<lambda>_. []) quiet (tenant 7) sample_input sample_world = (w', Inr out)"
      "co_linux_user out = ''al-x''"
    using sample_set by blast
  then show ?thesis
    using conjunct1 [OF installed_file_is_the_table [OF sample_codec_ok sample_world_inv], THEN mp, OF s(1)] by auto
qed

end
