(* ===== verification/Backup_Schedule.thy ===== *)
theory Backup_Schedule
  imports Cron_Text "HOL-Library.Word"
begin

unbundle bit_operations_syntax

text \<open>
  When a backup is due (\<open>CronSpec\<close> in \<open>unihelm-ops/src/backup.rs\<close>): the parser that turns each of the
  five fields into a bit mask, the day rule, and the walk back over missed minutes. The lemmas show
  that parsing always returns, that the masks hold the values the text names, and which minutes make a
  schedule due. \<open>u32\<close> arithmetic wraps, as it does in the release build.
\<close>

section \<open>Fields as masks\<close>

definition cron_invalid :: "str \<Rightarrow> uni_error" where
  "cron_invalid msg = with_field (new_error InvalidInput msg) ''cron''"

definition cron_value :: "str \<Rightarrow> 32 word \<Rightarrow> 32 word \<Rightarrow> str \<Rightarrow> 32 word res" where
  "cron_value s lo hi what =
     r_bind (ok_or (cron_invalid (''`'' @ s @ ''` is not a number in the '' @ what @ '' field'')) (parse_u32 (str_trim s))) (\<lambda>n.
       if n < lo \<or> hi < n then
         Inl (cron_invalid (show_nat (unat n) @ '' is outside '' @ show_nat (unat lo) @ ''-'' @ show_nat (unat hi) @ '' in the '' @ what @ '' field''))
       else Inr n)"

text \<open>One item of a field: where it starts, where it ends and how far apart its values are.\<close>

definition item_range :: "str \<Rightarrow> 32 word \<Rightarrow> 32 word \<Rightarrow> str \<Rightarrow> (32 word \<times> 32 word \<times> 32 word) res" where
  "item_range raw lo hi what =
     (let item = str_trim raw in
      if item = [] then Inl (cron_invalid (''empty '' @ what @ '' field''))
      else
        r_bind (case split_once CHR ''/'' item of
                  Some (span, step) \<Rightarrow>
                    r_bind (ok_or (cron_invalid (''`'' @ step @ ''` is not a step in the '' @ what @ '' field'')) (parse_u32 step)) (\<lambda>n.
                      if n = 0 then Inl (cron_invalid (''a step of zero in the '' @ what @ '' field'')) else Inr (span, n))
                | None \<Rightarrow> Inr (item, 1)) (\<lambda>(span, step).
        r_bind (if span = ''*'' then Inr (lo, hi)
                else case split_once CHR ''-'' span of
                  Some (a, b) \<Rightarrow> r_bind (cron_value a lo hi what) (\<lambda>x. r_bind (cron_value b lo hi what) (\<lambda>y. Inr (x, y)))
                | None \<Rightarrow> r_bind (cron_value span lo hi what) (\<lambda>n. if 1 < step then Inr (n, hi) else Inr (n, n))) (\<lambda>(x, y).
          if y < x then Inl (cron_invalid (''`'' @ span @ ''` runs backwards in the '' @ what @ '' field''))
          else Inr (x, y, step))))"

partial_function (option) set_every :: "32 word \<Rightarrow> 32 word \<Rightarrow> 32 word \<Rightarrow> 64 word \<Rightarrow> 64 word option" where
  "set_every n hi step acc =
     (if n \<le> hi then set_every (n + step) hi step (acc OR push_bit (unat n) 1) else Some acc)"

fun mask_items :: "str list \<Rightarrow> 32 word \<Rightarrow> 32 word \<Rightarrow> str \<Rightarrow> 64 word \<Rightarrow> 64 word res option" where
  "mask_items [] lo hi what acc = Some (Inr acc)"
| "mask_items (item # items) lo hi what acc =
     (case item_range item lo hi what of
        Inl e \<Rightarrow> Some (Inl e)
      | Inr (x, y, step) \<Rightarrow>
          (case set_every x y step acc of None \<Rightarrow> None | Some acc2 \<Rightarrow> mask_items items lo hi what acc2))"

definition mask_field :: "str \<Rightarrow> 32 word \<Rightarrow> 32 word \<Rightarrow> str \<Rightarrow> 64 word res option" where
  "mask_field text lo hi what = mask_items (str_split CHR '','' text) lo hi what 0"

definition mask_bit :: "64 word \<Rightarrow> nat \<Rightarrow> bool" where
  "mask_bit acc n \<longleftrightarrow> n < 64 \<and> acc AND push_bit n 1 \<noteq> 0"

definition normalise_sunday :: "64 word \<Rightarrow> 64 word" where
  "normalise_sunday acc = (if acc AND push_bit 7 1 \<noteq> 0 then (acc OR 1) AND NOT (push_bit 7 1) else acc)"

section \<open>A schedule\<close>

record cron_spec =
  sp_minute :: "64 word"
  sp_hour :: "64 word"
  sp_day_of_month :: "64 word"
  sp_month :: "64 word"
  sp_day_of_week :: "64 word"
  sp_dom_restricted :: bool
  sp_dow_restricted :: bool

fun and_then :: "'a res option \<Rightarrow> ('a \<Rightarrow> 'b res option) \<Rightarrow> 'b res option" where
  "and_then None k = None"
| "and_then (Some (Inl e)) k = Some (Inl e)"
| "and_then (Some (Inr v)) k = k v"

definition parse_spec :: "str \<Rightarrow> cron_spec res option" where
  "parse_spec expression =
     (case split_whitespace expression of
        [f0, f1, f2, f3, f4] \<Rightarrow>
          and_then (mask_field f0 0 59 ''minute'') (\<lambda>minute.
          and_then (mask_field f1 0 23 ''hour'') (\<lambda>hour.
          and_then (mask_field f2 1 31 ''day of month'') (\<lambda>day.
          and_then (mask_field f3 1 12 ''month'') (\<lambda>month.
          and_then (mask_field f4 0 7 ''day of week'') (\<lambda>week.
            Some (Inr \<lparr>sp_minute = minute, sp_hour = hour, sp_day_of_month = day, sp_month = month,
                       sp_day_of_week = normalise_sunday week, sp_dom_restricted = (f2 \<noteq> ''*''),
                       sp_dow_restricted = (f4 \<noteq> ''*'')\<rparr>))))))
      | fs \<Rightarrow> Some (Inl (cron_invalid (''a cron expression has five fields (minute hour day-of-month month day-of-week); `''
                @ expression @ ''` has '' @ show_nat (length fs)))))"

text \<open>What the \<open>time\<close> crate says of an instant.\<close>

record civil_time =
  cv_minute :: nat
  cv_hour :: nat
  cv_day :: nat
  cv_month :: nat
  cv_weekday :: nat

definition spec_matches :: "cron_spec \<Rightarrow> civil_time \<Rightarrow> bool" where
  "spec_matches spec t =
     (if \<not> mask_bit (sp_minute spec) (cv_minute t) \<or> \<not> mask_bit (sp_hour spec) (cv_hour t) then False
      else if \<not> mask_bit (sp_month spec) (cv_month t) then False
      else
        let dom = mask_bit (sp_day_of_month spec) (cv_day t); dow = mask_bit (sp_day_of_week spec) (cv_weekday t)
        in case (sp_dom_restricted spec, sp_dow_restricted spec) of
             (True, True) \<Rightarrow> dom \<or> dow
           | (True, False) \<Rightarrow> dom
           | (False, True) \<Rightarrow> dow
           | (False, False) \<Rightarrow> True)"

definition max_catchup_minutes :: nat where "max_catchup_minutes = 24 * 60"
definition first_run_catchup_minutes :: nat where "first_run_catchup_minutes = 5"

text \<open>Instants are nanoseconds since the epoch.\<close>

definition minute_nanos :: int where "minute_nanos = 60000000000"

definition floor_to_minute :: "int \<Rightarrow> int" where
  "floor_to_minute t = t - t mod minute_nanos"

fun catch_up :: "(int \<Rightarrow> civil_time) \<Rightarrow> cron_spec \<Rightarrow> int \<Rightarrow> int \<Rightarrow> nat list \<Rightarrow> bool" where
  "catch_up civil spec now bound [] = False"
| "catch_up civil spec now bound (ago # later) =
     (let candidate = now - int ago * minute_nanos in
      if candidate \<le> bound then False
      else if spec_matches spec (civil candidate) then True
      else catch_up civil spec now bound later)"

definition is_due :: "(int \<Rightarrow> civil_time) \<Rightarrow> cron_spec \<Rightarrow> int option \<Rightarrow> int \<Rightarrow> bool" where
  "is_due civil spec last_run t =
     (let now = floor_to_minute t;
          (bound, limit) = (case last_run of
             Some l \<Rightarrow> (floor_to_minute l, max_catchup_minutes)
           | None \<Rightarrow> (now - int first_run_catchup_minutes * minute_nanos, first_run_catchup_minutes))
      in catch_up civil spec now bound [0..<Suc limit])"

section \<open>The loop over a field\<close>

lemma unat_less_exp: "hi < (64 :: 32 word) \<Longrightarrow> unat hi < 64"
  by (simp add: word_less_nat_alt)

lemma step_small: "unat (n :: 32 word) < 64 \<Longrightarrow> unat step \<le> 2 ^ 32 - 64 \<Longrightarrow> unat (n + step) = unat n + unat step"
  by (subst unat_add_lem [THEN iffD1]) simp_all

lemma step_large:
  "unat (n :: 32 word) < 64 \<Longrightarrow> 2 ^ 32 - 64 < unat step \<Longrightarrow>
     unat (n + step) = unat n + unat step \<and> 64 \<le> unat (n + step) \<or> unat (n + step) < unat n"
proof -
  assume n: "unat n < 64" and big: "2 ^ 32 - 64 < unat step"
  have lt: "unat step < 2 ^ 32" using unsigned_less [of step] by simp
  have sum: "unat (n + step) = (unat n + unat step) mod 2 ^ 32" by (simp add: unat_word_ariths)
  show ?thesis
  proof (cases "unat n + unat step < 2 ^ 32")
    case True
    then show ?thesis using sum big by simp
  next
    case False
    then have "(unat n + unat step) mod 2 ^ 32 = unat n + unat step - 2 ^ 32"
      using n lt by (subst le_mod_geq) simp_all
    then show ?thesis using sum False lt by linarith
  qed
qed

lemma set_every_returns:
  assumes "unat hi < 64" "step \<noteq> 0"
  shows "\<exists>m. set_every n hi step acc = Some m"
proof (cases "unat step \<le> 2 ^ 32 - 64")
  case True
  have nonzero: "0 < unat step" using assms(2) unat_gt_0 by blast
  show ?thesis
  proof (induction "64 - unat n" arbitrary: n acc rule: less_induct)
    case less
    show ?case
    proof (cases "n \<le> hi")
      case n: True
      then have "unat n < 64" using assms(1) by (simp add: word_le_nat_alt)
      then have "64 - unat (n + step) < 64 - unat n"
        using step_small [OF _ True] nonzero by simp
      from less.hyps [OF this] show ?thesis using n by (subst set_every.simps) simp
    qed (subst set_every.simps, simp)
  qed
next
  case False
  have stop: "64 \<le> unat m \<Longrightarrow> set_every m hi step acc = Some acc" for m acc
    using assms(1) by (subst set_every.simps) (simp add: word_le_nat_alt)
  show ?thesis
  proof (induction "unat n" arbitrary: n acc rule: less_induct)
    case less
    show ?case
    proof (cases "n \<le> hi")
      case n: True
      then have "unat n < 64" using assms(1) by (simp add: word_le_nat_alt)
      then have "64 \<le> unat (n + step) \<or> unat (n + step) < unat n" using step_large [of n step] False by linarith
      then show ?thesis using less.hyps stop n by (subst set_every.simps) auto
    qed (subst set_every.simps, simp)
  qed
qed

lemma bit_mask_or: "n < 64 \<Longrightarrow> bit (acc OR push_bit n (1 :: 64 word)) i \<longleftrightarrow> bit acc i \<or> i = n"
  by (auto simp: bit_or_iff push_bit_of_1 bit_exp_iff)

lemma set_every_bits:
  assumes "unat hi < 64" "step \<noteq> 0" "unat step \<le> 2 ^ 32 - 64" "set_every n hi step acc = Some m"
  shows "bit m i \<longleftrightarrow> bit acc i \<or> unat n \<le> i \<and> i \<le> unat hi \<and> (i - unat n) mod unat step = 0"
  using assms(4)
proof (induction "64 - unat n" arbitrary: n acc rule: less_induct)
  case less
  show ?case
  proof (cases "n \<le> hi")
    case True
    then have n: "unat n < 64" "unat n \<le> unat hi" using assms(1) by (simp_all add: word_le_nat_alt)
    then have plus: "unat (n + step) = unat n + unat step" using step_small assms(3) by blast
    then have "64 - unat (n + step) < 64 - unat n" using n assms(2) unat_gt_0 [of step] by linarith
    then have "bit m i \<longleftrightarrow> bit (acc OR push_bit (unat n) 1) i
        \<or> unat n + unat step \<le> i \<and> i \<le> unat hi \<and> (i - (unat n + unat step)) mod unat step = 0"
      using less.hyps [of "n + step"] less.prems True plus by (subst (asm) set_every.simps) simp
    moreover have "unat n \<le> i \<and> (i - unat n) mod unat step = 0 \<longleftrightarrow>
        i = unat n \<or> unat n + unat step \<le> i \<and> (i - (unat n + unat step)) mod unat step = 0"
    proof (cases "unat n + unat step \<le> i")
      case True
      then show ?thesis using unat_gt_0 [of step] assms(2) by (auto simp: le_mod_geq diff_diff_left)
    next
      case False
      then have "(i - unat n) mod unat step = i - unat n" if "unat n \<le> i" using that by (intro mod_less) arith
      with False show ?thesis by (cases "unat n \<le> i") (simp_all del: mod_eq_0_iff_dvd)
    qed
    moreover have "bit (acc OR push_bit (unat n) 1) i \<longleftrightarrow> bit acc i \<or> i = unat n" using n(1) by (rule bit_mask_or)
    ultimately show ?thesis using n(2) by metis
  next
    case False
    then show ?thesis using less.prems by (subst (asm) set_every.simps) (auto simp: word_le_nat_alt)
  qed
qed

lemma mask_bit_iff: "mask_bit acc n \<longleftrightarrow> bit acc n"
  using bit_imp_le_length [of acc n] by (auto simp: mask_bit_def push_bit_of_1 and_exp_eq_0_iff_not_bit)

lemma cron_value_bounds: "cron_value t lo hi what = Inr n \<Longrightarrow> lo \<le> n \<and> n \<le> hi"
  by (auto simp: cron_value_def result_simps not_less split: if_splits)

lemma item_range_Inr:
  assumes "item_range item lo hi what = Inr (x, y, step)" "lo \<le> hi"
  shows "lo \<le> x \<and> x \<le> y \<and> y \<le> hi \<and> step \<noteq> 0"
  using assms
  by (auto simp: item_range_def Let_def result_simps not_less split: if_splits option.splits dest!: cron_value_bounds)

section \<open>What a schedule says\<close>

text \<open>
  The values a field of a schedule names, as crontab(5) and the comments of the source have it: rules
  over the text, with no use of the parser. \<open>lo\<close> and \<open>hi\<close> bound the field.
\<close>

definition reads_number :: "str \<Rightarrow> nat \<Rightarrow> bool" where
  "reads_number t n \<longleftrightarrow> map_option unat (parse_u32 (str_trim t)) = Some n"

definition reads_step :: "str \<Rightarrow> nat \<Rightarrow> bool" where
  "reads_step t k \<longleftrightarrow> map_option unat (parse_u32 t) = Some k \<and> k \<noteq> 0"

inductive from_to :: "nat \<Rightarrow> nat \<Rightarrow> str \<Rightarrow> nat \<Rightarrow> nat \<Rightarrow> bool" for lo hi where
  star: "from_to lo hi ''*'' lo hi"
| dash: "from_to lo hi (a @ CHR ''-'' # b) x y"
    if "reads_number a x" "reads_number b y" "CHR ''-'' \<notin> set a" "lo \<le> x" "x \<le> y" "y \<le> hi"

text \<open>A span, a single value, a span with a step, and a value with a step, which has no end but the field's.\<close>

inductive item_names :: "nat \<Rightarrow> nat \<Rightarrow> str \<Rightarrow> nat \<Rightarrow> bool" for lo hi where
  within: "item_names lo hi t v" if "from_to lo hi t x y" "CHR ''/'' \<notin> set t" "x \<le> v" "v \<le> y"
| single: "item_names lo hi t v" if "reads_number t v" "CHR ''/'' \<notin> set t" "CHR ''-'' \<notin> set t" "lo \<le> v" "v \<le> hi"
| stepped: "item_names lo hi (t @ CHR ''/'' # s) v"
    if "from_to lo hi t x y" "CHR ''/'' \<notin> set t" "reads_step s k" "x \<le> v" "v \<le> y" "(v - x) mod k = 0"
| onwards: "item_names lo hi (t @ CHR ''/'' # s) v"
    if "reads_number t x" "CHR ''/'' \<notin> set t" "CHR ''-'' \<notin> set t" "reads_step s k" "lo \<le> x" "x \<le> v" "v \<le> hi" "(v - x) mod k = 0"

inductive_simps from_to_iff: "from_to lo hi t x y"
inductive_simps item_names_iff: "item_names lo hi t v"

definition field_has :: "str \<Rightarrow> nat \<Rightarrow> nat \<Rightarrow> nat \<Rightarrow> bool" where
  "field_has text lo hi v = list_ex (\<lambda>item. item_names lo hi (str_trim item) v) (str_split CHR '','' text)"

text \<open>Every item of the field names some value.\<close>

definition field_reads :: "str \<Rightarrow> nat \<Rightarrow> nat \<Rightarrow> bool" where
  "field_reads text lo hi = list_all (\<lambda>item. \<exists>v. item_names lo hi (str_trim item) v) (str_split CHR '','' text)"

text \<open>
  The two steps the code treats otherwise: one so close to the top of \<open>u32\<close> that adding it wraps, and
  the step 1 after a single value, which the code reads as that value alone.
\<close>

definition step_fits :: "str \<Rightarrow> bool" where
  "step_fits item =
     (case split_once CHR ''/'' (str_trim item) of
        None \<Rightarrow> True
      | Some (t, s) \<Rightarrow>
          (case parse_u32 s of
             None \<Rightarrow> True
           | Some k \<Rightarrow> unat k \<le> 2 ^ 32 - 64 \<and> (k = 1 \<longrightarrow> t = ''*'' \<or> CHR ''-'' \<in> set t)))"

definition steps_fit :: "str \<Rightarrow> bool" where
  "steps_fit text = list_all step_fits (str_split CHR '','' text)"

lemma cron_value_Inr: "cron_value t lo hi what = Inr n \<longleftrightarrow> parse_u32 (str_trim t) = Some n \<and> lo \<le> n \<and> n \<le> hi"
  by (auto simp: cron_value_def result_simps not_less split: if_splits)

text \<open>The span of an item in the code.\<close>

definition span_of :: "str \<Rightarrow> 32 word \<Rightarrow> 32 word \<Rightarrow> str \<Rightarrow> 32 word \<Rightarrow> (32 word \<times> 32 word) res" where
  "span_of span lo hi what step =
     (if span = ''*'' then Inr (lo, hi)
      else case split_once CHR ''-'' span of
        Some (a, b) \<Rightarrow> r_bind (cron_value a lo hi what) (\<lambda>x. r_bind (cron_value b lo hi what) (\<lambda>y. Inr (x, y)))
      | None \<Rightarrow> r_bind (cron_value span lo hi what) (\<lambda>n. if 1 < step then Inr (n, hi) else Inr (n, n)))"

lemma item_range_plain:
  assumes "CHR ''/'' \<notin> set (str_trim item)"
  shows "item_range item lo hi what = Inr (x, y, k) \<longleftrightarrow>
    str_trim item \<noteq> [] \<and> k = 1 \<and> span_of (str_trim item) lo hi what 1 = Inr (x, y) \<and> x \<le> y"
proof -
  have "split_once CHR ''/'' (str_trim item) = None" using assms by (simp add: split_once_None)
  then have "item_range item lo hi what =
     (if str_trim item = [] then Inl (cron_invalid (''empty '' @ what @ '' field''))
      else r_bind (span_of (str_trim item) lo hi what 1) (\<lambda>(x, y).
        if y < x then Inl (cron_invalid (''`'' @ str_trim item @ ''` runs backwards in the '' @ what @ '' field'')) else Inr (x, y, 1)))"
    by (simp add: item_range_def span_of_def Let_def)
  then show ?thesis by (auto simp: result_simps not_less split: if_splits)
qed

lemma item_range_stepped:
  assumes "str_trim item = t @ CHR ''/'' # s" "CHR ''/'' \<notin> set t"
  shows "item_range item lo hi what = Inr (x, y, k) \<longleftrightarrow>
    parse_u32 s = Some k \<and> k \<noteq> 0 \<and> span_of t lo hi what k = Inr (x, y) \<and> x \<le> y"
proof -
  have "split_once CHR ''/'' (str_trim item) = Some (t, s)" using assms by (simp add: split_once_Some)
  then have "item_range item lo hi what =
     r_bind (r_bind (ok_or (cron_invalid (''`'' @ s @ ''` is not a step in the '' @ what @ '' field'')) (parse_u32 s)) (\<lambda>n.
         if n = 0 then Inl (cron_invalid (''a step of zero in the '' @ what @ '' field'')) else Inr (t, n))) (\<lambda>(span, step).
       r_bind (span_of span lo hi what step) (\<lambda>(x, y).
        if y < x then Inl (cron_invalid (''`'' @ span @ ''` runs backwards in the '' @ what @ '' field'')) else Inr (x, y, step)))"
    using assms(1) by (simp add: item_range_def span_of_def Let_def)
  then show ?thesis by (auto simp: result_simps not_less split: if_splits)
qed

lemma str_trim_star: "str_trim ''*'' = ''*''"
  by (rule str_trim_plain) (simp_all add: plain_char_def is_ascii_whitespace_def byte_def)

lemma str_trim_nil: "str_trim [] = []"
  by (rule str_trim_plain) simp_all

lemma star_no_number: "\<not> reads_number ''*'' n"
  by (simp add: reads_number_def str_trim_star parse_u32_def parse_unsigned_def is_ascii_digit_def byte_def)

lemma from_to_span:
  assumes "lo \<le> hi"
  shows "from_to (unat lo) (unat hi) t x y \<longleftrightarrow> (t = ''*'' \<or> CHR ''-'' \<in> set t)
    \<and> (\<exists>u v. span_of t lo hi what k = Inr (u, v) \<and> u \<le> v \<and> x = unat u \<and> y = unat v)"
proof (cases "split_once CHR ''-'' t")
  case None
  then have "CHR ''-'' \<notin> set t" by (simp add: split_once_None)
  then have "from_to (unat lo) (unat hi) t x y \<longleftrightarrow> t = ''*'' \<and> x = unat lo \<and> y = unat hi" by (auto simp: from_to_iff)
  then show ?thesis using assms \<open>CHR ''-'' \<notin> set t\<close> by (auto simp: span_of_def)
next
  case (Some ab)
  obtain a b where ab: "ab = (a, b)" by (cases ab)
  then have t: "t = a @ CHR ''-'' # b" "CHR ''-'' \<notin> set a" using Some by (simp_all add: split_once_Some)
  have "t \<noteq> ''*''" using t(1) by (cases a) auto
  moreover have "a' = a \<and> b' = b" if "t = a' @ CHR ''-'' # b'" "CHR ''-'' \<notin> set a'" for a' b'
  proof -
    have "split_once CHR ''-'' t = Some (a', b')" using that by (simp add: split_once_Some)
    then show ?thesis using Some ab by simp
  qed
  ultimately have "from_to (unat lo) (unat hi) t x y \<longleftrightarrow>
      reads_number a x \<and> reads_number b y \<and> unat lo \<le> x \<and> x \<le> y \<and> y \<le> unat hi"
    using t unfolding from_to_iff by blast
  also have "\<dots> \<longleftrightarrow> (\<exists>u v. parse_u32 (str_trim a) = Some u \<and> parse_u32 (str_trim b) = Some v
      \<and> lo \<le> u \<and> u \<le> v \<and> v \<le> hi \<and> x = unat u \<and> y = unat v)"
    by (auto simp: reads_number_def word_le_nat_alt)
  also have "\<dots> \<longleftrightarrow> (\<exists>u v. span_of t lo hi what k = Inr (u, v) \<and> u \<le> v \<and> x = unat u \<and> y = unat v)"
    using \<open>t \<noteq> ''*''\<close> Some ab by (auto simp: span_of_def result_simps cron_value_Inr intro: order.trans)
  finally show ?thesis using t(1) by simp
qed

lemma span_single:
  assumes "t \<noteq> ''*''" "CHR ''-'' \<notin> set t"
  shows "span_of t lo hi what k = Inr (u, v) \<longleftrightarrow>
    parse_u32 (str_trim t) = Some u \<and> lo \<le> u \<and> u \<le> hi \<and> v = (if 1 < k then hi else u)"
proof -
  have "split_once CHR ''-'' t = None" using assms by (simp add: split_once_None)
  then show ?thesis using assms by (auto simp: span_of_def result_simps cron_value_Inr)
qed

lemma item_names_plain:
  assumes "CHR ''/'' \<notin> set t"
  shows "item_names lo hi t v \<longleftrightarrow> (\<exists>x y. from_to lo hi t x y \<and> x \<le> v \<and> v \<le> y)
    \<or> reads_number t v \<and> CHR ''-'' \<notin> set t \<and> lo \<le> v \<and> v \<le> hi"
  using assms by (auto simp: item_names_iff)

lemma item_names_stepped:
  assumes "CHR ''/'' \<notin> set t"
  shows "item_names lo hi (t @ CHR ''/'' # s) v \<longleftrightarrow>
    (\<exists>k. reads_step s k \<and> ((\<exists>x y. from_to lo hi t x y \<and> x \<le> v \<and> v \<le> y \<and> (v - x) mod k = 0)
      \<or> (\<exists>x. reads_number t x \<and> CHR ''-'' \<notin> set t \<and> lo \<le> x \<and> x \<le> v \<and> v \<le> hi \<and> (v - x) mod k = 0)))"
proof (intro iffI; (elim exE conjE disjE)?)
  have parts: "t' = t \<and> s' = s" if "t @ CHR ''/'' # s = t' @ CHR ''/'' # s'" "CHR ''/'' \<notin> set t'" for t' s'
    using that assms split_once_Some [of "CHR ''/''" "t @ CHR ''/'' # s" t s]
      split_once_Some [of "CHR ''/''" "t @ CHR ''/'' # s" t' s'] by simp
  assume "item_names lo hi (t @ CHR ''/'' # s) v"
  then show "\<exists>k. reads_step s k \<and> ((\<exists>x y. from_to lo hi t x y \<and> x \<le> v \<and> v \<le> y \<and> (v - x) mod k = 0)
      \<or> (\<exists>x. reads_number t x \<and> CHR ''-'' \<notin> set t \<and> lo \<le> x \<and> x \<le> v \<and> v \<le> hi \<and> (v - x) mod k = 0))"
  proof cases
    case (stepped t' x y s' k)
    have eq: "t' = t" "s' = s" using parts [OF stepped(1,3)] by simp_all
    show ?thesis using stepped(2,4-) unfolding eq by (intro exI [of _ k] conjI disjI1 exI [of _ x] exI [of _ y])
  next
    case (onwards t' x s' k)
    have eq: "t' = t" "s' = s" using parts [OF onwards(1,3)] by simp_all
    show ?thesis using onwards(2,4-) unfolding eq by (intro exI [of _ k] conjI disjI2 exI [of _ x])
  qed simp_all
next
  fix k x y
  assume "reads_step s k" "from_to lo hi t x y" "x \<le> v" "v \<le> y" "(v - x) mod k = 0"
  then show "item_names lo hi (t @ CHR ''/'' # s) v" using assms stepped by simp
next
  fix k x
  assume "reads_step s k" "reads_number t x" "CHR ''-'' \<notin> set t" "lo \<le> x" "x \<le> v" "v \<le> hi" "(v - x) mod k = 0"
  then show "item_names lo hi (t @ CHR ''/'' # s) v" using assms onwards by simp
qed

text \<open>The code's reading of an item is the rules'.\<close>

lemma item_range_names:
  assumes r: "item_range item lo hi what = Inr (x, y, k)" and lo: "lo \<le> hi" and fits: "step_fits item"
  shows "item_names (unat lo) (unat hi) (str_trim item) v \<longleftrightarrow> unat x \<le> v \<and> v \<le> unat y \<and> (v - unat x) mod unat k = 0"
    "unat k \<le> 2 ^ 32 - 64"
proof -
  define t where "t = str_trim item"
  have "(item_names (unat lo) (unat hi) t v \<longleftrightarrow> unat x \<le> v \<and> v \<le> unat y \<and> (v - unat x) mod unat k = 0) \<and> unat k \<le> 2 ^ 32 - 64"
  proof (cases "split_once CHR ''/'' t")
    case None
    then have no: "CHR ''/'' \<notin> set t" by (simp add: split_once_None)
    then have c: "k = 1" "span_of t lo hi what 1 = Inr (x, y)" "x \<le> y"
      using r item_range_plain [of item lo hi what x y k] by (simp_all add: t_def)
    show ?thesis
    proof (cases "t = ''*'' \<or> CHR ''-'' \<in> set t")
      case True
      then have "\<not> (reads_number t v \<and> CHR ''-'' \<notin> set t)" using star_no_number by blast
      then show ?thesis using True c from_to_span [OF lo, of t _ _ what 1] by (auto simp: item_names_plain [OF no])
    next
      case False
      then have s: "parse_u32 (str_trim t) = Some x" "lo \<le> x" "x \<le> hi" "y = x"
        using c(2) span_single [of t lo hi what 1 x y] by auto
      have "\<not> from_to (unat lo) (unat hi) t a b" for a b using False from_to_span [OF lo, of t a b what 1] by blast
      then show ?thesis
        using False c(1) s by (auto simp: item_names_plain [OF no] reads_number_def word_le_nat_alt)
    qed
  next
    case (Some bs)
    obtain b s where bs: "bs = (b, s)" by (cases bs)
    then have tb: "t = b @ CHR ''/'' # s" and no: "CHR ''/'' \<notin> set b" using Some by (simp_all add: split_once_Some)
    then have c: "parse_u32 s = Some k" "k \<noteq> 0" "span_of b lo hi what k = Inr (x, y)" "x \<le> y"
      using r item_range_stepped [of item b s lo hi what x y k] by (simp_all add: t_def)
    have fit: "unat k \<le> 2 ^ 32 - 64" "k = 1 \<longrightarrow> b = ''*'' \<or> CHR ''-'' \<in> set b"
      using fits Some bs c(1) by (simp_all add: step_fits_def t_def)
    have step: "reads_step s n \<longleftrightarrow> n = unat k" for n using c(1,2) unat_gt_0 [of k] by (auto simp: reads_step_def)
    show ?thesis
    proof (cases "b = ''*'' \<or> CHR ''-'' \<in> set b")
      case True
      then have "\<not> (reads_number b n \<and> CHR ''-'' \<notin> set b)" for n using star_no_number by blast
      then show ?thesis
        using True c fit(1) from_to_span [OF lo, of b _ _ what k] by (auto simp: tb item_names_stepped [OF no] step)
    next
      case False
      then have "k \<noteq> 1" using fit(2) by blast
      then have "unat k \<noteq> 0" "unat k \<noteq> 1" using c(2) word_unat_eq_iff [of k 0] word_unat_eq_iff [of k 1] by simp_all
      then have "1 < k" by (simp add: word_less_nat_alt)
      then have s: "parse_u32 (str_trim b) = Some x" "lo \<le> x" "x \<le> hi" "y = hi"
        using c(3) False span_single [of b lo hi what k x y] by auto
      have "\<not> from_to (unat lo) (unat hi) b p q" for p q using False from_to_span [OF lo, of b p q what k] by blast
      then show ?thesis
        using False s fit(1) by (auto simp: tb item_names_stepped [OF no] step reads_number_def word_le_nat_alt)
    qed
  qed
  then show "item_names (unat lo) (unat hi) (str_trim item) v \<longleftrightarrow> unat x \<le> v \<and> v \<le> unat y \<and> (v - unat x) mod unat k = 0"
    "unat k \<le> 2 ^ 32 - 64" by (simp_all add: t_def)
qed

lemma item_reads:
  assumes "lo \<le> hi" "step_fits item"
  shows "(\<exists>x y k. item_range item lo hi what = Inr (x, y, k)) \<longleftrightarrow> (\<exists>v. item_names (unat lo) (unat hi) (str_trim item) v)"
proof
  assume "\<exists>x y k. item_range item lo hi what = Inr (x, y, k)"
  then obtain x y k where r: "item_range item lo hi what = Inr (x, y, k)" by blast
  then have "unat x \<le> unat y" using item_range_Inr [OF r assms(1)] by (simp add: word_le_nat_alt)
  then show "\<exists>v. item_names (unat lo) (unat hi) (str_trim item) v"
    using item_range_names(1) [OF r assms] by (intro exI [of _ "unat x"]) simp
next
  assume "\<exists>v. item_names (unat lo) (unat hi) (str_trim item) v"
  then obtain v where v: "item_names (unat lo) (unat hi) (str_trim item) v" by blast
  define t where "t = str_trim item"
  have alone: "\<exists>u w. span_of b lo hi what k = Inr (u, w) \<and> u \<le> w"
    if "reads_number b x" "CHR ''-'' \<notin> set b" "unat lo \<le> x" "x \<le> unat hi" for b x k
  proof -
    note b = that
    have "b \<noteq> ''*''" using b(1) star_no_number by blast
    moreover obtain u where "parse_u32 (str_trim b) = Some u" "unat u = x" using b(1) by (auto simp: reads_number_def)
    ultimately show ?thesis using b span_single [of b lo hi what k] by (auto simp: word_le_nat_alt)
  qed
  have step: "\<exists>u. parse_u32 s = Some u \<and> u \<noteq> 0" if "reads_step s k" for s k
    using that by (auto simp: reads_step_def)
  from v show "\<exists>x y k. item_range item lo hi what = Inr (x, y, k)"
    unfolding t_def [symmetric]
  proof cases
    case (within x y)
    then have "t \<noteq> []" by (auto simp: from_to_iff)
    moreover have "\<exists>u w. span_of t lo hi what 1 = Inr (u, w) \<and> u \<le> w"
      using within from_to_span [OF assms(1), of t x y what 1] by blast
    ultimately show ?thesis using within(2) by (auto simp: item_range_plain t_def)
  next
    case single
    then have "t \<noteq> []" by (auto simp: reads_number_def parse_u32_def parse_unsigned_def str_trim_nil)
    moreover have "\<exists>u w. span_of t lo hi what 1 = Inr (u, w) \<and> u \<le> w" using alone single by blast
    ultimately show ?thesis using single(2) by (auto simp: item_range_plain t_def)
  next
    case (stepped b x y s k)
    obtain u where u: "parse_u32 s = Some u" "u \<noteq> 0" using step [OF stepped(4)] by blast
    obtain p q where "span_of b lo hi what u = Inr (p, q)" "p \<le> q"
      using stepped(2) from_to_span [OF assms(1), of b x y what u] by blast
    then show ?thesis using u stepped(1,3) item_range_stepped [of item b s lo hi what p q u] by (auto simp: t_def)
  next
    case (onwards b x s k)
    obtain u where u: "parse_u32 s = Some u" "u \<noteq> 0" using step [OF onwards(5)] by blast
    have "unat lo \<le> x" "x \<le> unat hi" using onwards by simp_all
    then obtain p q where "span_of b lo hi what u = Inr (p, q)" "p \<le> q"
      using alone [OF onwards(2,4)] by blast
    then show ?thesis using u onwards(1,3) item_range_stepped [of item b s lo hi what p q u] by (auto simp: t_def)
  qed
qed

lemma mask_items_returns: "lo \<le> hi \<Longrightarrow> unat hi < 64 \<Longrightarrow> \<exists>r. mask_items items lo hi what acc = Some r"
proof (induction items arbitrary: acc)
  case (Cons item items)
  show ?case
  proof (cases "item_range item lo hi what")
    case (Inr p)
    obtain x y step where p: "p = (x, y, step)" by (cases p)
    have r: "y \<le> hi" "step \<noteq> 0" using item_range_Inr [OF Inr [unfolded p] Cons.prems(1)] by simp_all
    then have "unat y < 64" using Cons.prems(2) by (simp add: word_le_nat_alt)
    then obtain m where "set_every x y step acc = Some m" using set_every_returns r(2) by blast
    then show ?thesis using Cons Inr p by simp
  qed simp
qed simp

lemma mask_items_bits:
  assumes "lo \<le> hi" "unat hi < 64" "list_all step_fits items" "mask_items items lo hi what acc = Some (Inr m)"
  shows "bit m i \<longleftrightarrow> bit acc i \<or> list_ex (\<lambda>item. item_names (unat lo) (unat hi) (str_trim item) i) items"
  using assms(3,4)
proof (induction items arbitrary: acc)
  case (Cons item items)
  show ?case
  proof (cases "item_range item lo hi what")
    case (Inl e)
    then show ?thesis using Cons.prems by simp
  next
    case (Inr p)
    obtain x y step where p: "p = (x, y, step)" by (cases p)
    have r: "y \<le> hi" "step \<noteq> 0" using item_range_Inr [OF Inr [unfolded p] assms(1)] by simp_all
    then have y: "unat y < 64" using assms(2) by (simp add: word_le_nat_alt)
    obtain acc' where s: "set_every x y step acc = Some acc'" using set_every_returns [OF y r(2)] by blast
    have fits: "step_fits item" using Cons.prems(1) by simp
    have "bit acc' i \<longleftrightarrow> bit acc i \<or> item_names (unat lo) (unat hi) (str_trim item) i"
      using set_every_bits [OF y r(2) item_range_names(2) [OF Inr [unfolded p] assms(1) fits] s]
        item_range_names(1) [OF Inr [unfolded p] assms(1) fits] by simp
    then show ?thesis using Cons.IH [of acc'] Cons.prems s Inr p by auto
  qed
qed simp

lemma mask_field_bits:
  "lo \<le> hi \<Longrightarrow> unat hi < 64 \<Longrightarrow> steps_fit text \<Longrightarrow> mask_field text lo hi what = Some (Inr m)
     \<Longrightarrow> mask_bit m v \<longleftrightarrow> field_has text (unat lo) (unat hi) v"
  using mask_items_bits [of lo hi "str_split CHR '','' text" what 0 m v]
  by (simp add: mask_field_def steps_fit_def field_has_def mask_bit_iff)

lemma mask_items_reads:
  assumes "lo \<le> hi" "unat hi < 64" "list_all step_fits items"
  shows "(\<exists>m. mask_items items lo hi what acc = Some (Inr m)) \<longleftrightarrow>
    list_all (\<lambda>item. \<exists>v. item_names (unat lo) (unat hi) (str_trim item) v) items"
  using assms(3)
proof (induction items arbitrary: acc)
  case (Cons item items)
  have fits: "step_fits item" using Cons.prems by simp
  show ?case
  proof (cases "item_range item lo hi what")
    case (Inl e)
    then show ?thesis using item_reads [OF assms(1) fits, of what] by simp
  next
    case (Inr p)
    obtain x y step where p: "p = (x, y, step)" by (cases p)
    have r: "y \<le> hi" "step \<noteq> 0" using item_range_Inr [OF Inr [unfolded p] assms(1)] by simp_all
    then have y: "unat y < 64" using assms(2) by (simp add: word_le_nat_alt)
    obtain acc' where "set_every x y step acc = Some acc'" using set_every_returns [OF y r(2)] by blast
    then show ?thesis using Cons.IH [of acc'] Cons.prems Inr p item_reads [OF assms(1) fits, of what] by auto
  qed
qed simp

lemma mask_field_reads:
  "lo \<le> hi \<Longrightarrow> unat hi < 64 \<Longrightarrow> steps_fit text \<Longrightarrow>
     (\<exists>m. mask_field text lo hi what = Some (Inr m)) \<longleftrightarrow> field_reads text (unat lo) (unat hi)"
  using mask_items_reads [of lo hi "str_split CHR '','' text" what 0]
  by (simp add: mask_field_def steps_fit_def field_reads_def)

lemma mask_field_returns: "lo \<le> hi \<Longrightarrow> unat hi < 64 \<Longrightarrow> \<exists>r. mask_field text lo hi what = Some r"
  unfolding mask_field_def by (rule mask_items_returns)

lemma star_range: "lo \<le> hi \<Longrightarrow> item_range ''*'' lo hi what = Inr (lo, hi, 1)"
proof -
  assume "lo \<le> hi"
  then show ?thesis by (simp add: item_range_def str_trim_star not_less)
qed

lemma star_has: "lo \<le> v \<Longrightarrow> v \<le> hi \<Longrightarrow> field_has ''*'' lo hi v"
  using within [OF star, of lo v hi] by (simp add: field_has_def str_trim_star)

lemma sunday_bits:
  "mask_bit (normalise_sunday m) v \<longleftrightarrow> (if v = 0 then mask_bit m 0 \<or> mask_bit m 7 else v \<noteq> 7 \<and> mask_bit m v)"
proof -
  define k :: "64 word" where "k = NOT (push_bit 7 1)"
  have k: "bit k v \<longleftrightarrow> v < 64 \<and> v \<noteq> 7" for v
    unfolding k_def by (simp only: bit_not_iff push_bit_of_1 bit_exp_iff) auto
  have seven: "m AND push_bit 7 1 \<noteq> 0 \<longleftrightarrow> bit m 7"
    by (simp only: push_bit_of_1 and_exp_eq_0_iff_not_bit) simp
  show ?thesis
    unfolding normalise_sunday_def mask_bit_iff seven k_def [symmetric]
    using bit_imp_le_length [of m v] by (auto simp: bit_and_iff bit_or_iff bit_1_iff k)
qed

section \<open>The walk back\<close>

lemma floor_minutes: "floor_to_minute t = minute_nanos * (t div minute_nanos)"
  by (simp add: floor_to_minute_def minus_mod_eq_mult_div)

lemma catch_up_iff:
  "catch_up civil spec now bound [k..<Suc k + d] \<longleftrightarrow>
     (\<exists>ago. k \<le> ago \<and> ago \<le> k + d \<and> bound < now - int ago * minute_nanos
        \<and> spec_matches spec (civil (now - int ago * minute_nanos)))"
proof (induction d arbitrary: k)
  case 0
  have "k \<le> ago \<and> ago \<le> k + 0 \<longleftrightarrow> ago = k" for ago :: nat by auto
  then show ?case by (auto simp: Let_def not_le)
next
  case (Suc d)
  let ?t = "\<lambda>ago. now - int ago * minute_nanos"
  have split: "[k..<Suc k + Suc d] = k # [Suc k..<Suc (Suc k) + d]" by (simp add: upt_conv_Cons)
  show ?case
  proof (cases "?t k \<le> bound")
    case True
    have "?t ago \<le> bound" if "k \<le> ago" for ago
    proof -
      have "int k * minute_nanos \<le> int ago * minute_nanos" using that by (intro mult_right_mono) (simp_all add: minute_nanos_def)
      then show ?thesis using True by linarith
    qed
    then have "\<not> (k \<le> ago \<and> ago \<le> k + Suc d \<and> bound < ?t ago \<and> spec_matches spec (civil (?t ago)))" for ago
      by (meson not_le)
    then show ?thesis unfolding split using True by (simp add: Let_def)
  next
    case False
    have "(\<exists>ago. k \<le> ago \<and> ago \<le> k + Suc d \<and> P ago) \<longleftrightarrow> P k \<or> (\<exists>ago. Suc k \<le> ago \<and> ago \<le> Suc k + d \<and> P ago)" for P
      by (metis add_Suc_right add_Suc_shift le_add1 le_refl le_SucI not_less_eq_eq le_antisym Suc_leD)
    then show ?thesis unfolding split using False Suc.IH [of "Suc k"] by (simp add: Let_def not_le)
  qed
qed

lemma due_minutes:
  "(\<exists>ago. 0 \<le> ago \<and> ago \<le> 0 + d \<and> bound * minute_nanos < floor_to_minute t - int ago * minute_nanos
       \<and> P (floor_to_minute t - int ago * minute_nanos))
   \<longleftrightarrow> (\<exists>m. bound < m \<and> m \<le> t div minute_nanos \<and> t div minute_nanos - int d \<le> m \<and> P (m * minute_nanos))"
proof -
  have eq: "floor_to_minute t - int ago * minute_nanos = (t div minute_nanos - int ago) * minute_nanos" for ago
    by (simp add: floor_minutes algebra_simps)
  have lt: "bound * minute_nanos < m * minute_nanos \<longleftrightarrow> bound < m" for m by (simp add: minute_nanos_def)
  show ?thesis
    unfolding eq lt
  proof (intro iffI; elim exE conjE)
    fix m assume "bound < m" "m \<le> t div minute_nanos" "t div minute_nanos - int d \<le> m" "P (m * minute_nanos)"
    then show "\<exists>ago. 0 \<le> ago \<and> ago \<le> 0 + d \<and> bound < t div minute_nanos - int ago \<and> P ((t div minute_nanos - int ago) * minute_nanos)"
      by (intro exI [of _ "nat (t div minute_nanos - m)"]) auto
  qed auto
qed

lemma huge_steps_wrap:
  "mask_field ''5-59/4294967295'' 0 59 ''minute'' = Some (Inr 63)"
proof -
  have p: "parse_u32 ''4294967295'' = Some 4294967295" "parse_u32 ''5'' = Some 5" "parse_u32 ''59'' = Some 59"
    by (simp_all add: parse_u32_def parse_unsigned_def digits_value_def digit_val_def is_ascii_digit_def byte_def)
  have t: "str_trim ''5-59/4294967295'' = ''5-59/4294967295''" "str_trim ''5'' = ''5''" "str_trim ''59'' = ''59''"
    by (rule str_trim_plain; simp add: plain_char_def is_ascii_whitespace_def byte_def)+
  have "item_range ''5-59/4294967295'' 0 59 ''minute'' = Inr (5, 59, 4294967295)"
    by (simp add: item_range_def t p cron_value_def ok_or_def)
  moreover have "set_every 5 59 4294967295 0 = Some 63"
    by (simp add: set_every.simps)
  ultimately show ?thesis by (simp add: mask_field_def)
qed

section \<open>Properties\<close>

text \<open>C32: Parsing a schedule returns for every text, however large the numbers in it: the loop over a field ends even where adding the step wraps.\<close>

theorem schedule_text_is_always_decided: "\<exists>r. parse_spec text = Some r"
proof -
  have more: "\<exists>r. and_then m k = Some r" if "\<exists>r. m = Some r" "\<And>v. \<exists>r. k v = Some r" for m :: "'a res option" and k :: "'a \<Rightarrow> 'b res option"
    using that by (cases "(m, k)" rule: and_then.cases) auto
  show ?thesis
    by (auto simp: parse_spec_def split: list.splits intro!: more mask_field_returns)
qed

text \<open>
  C31: A schedule of five fields is accepted exactly when every item of every field can be read by the rules
  of \<open>item_names\<close>, and then it fires in a minute exactly when the minute, hour and month are among the values
  its fields name and the day is: both day fields must hold when one of them is a plain star, either is
  enough when both are restricted, and 7 names Sunday as 0 does. A step within 64 of \<open>2 ^ 32\<close> and the step
  1 after a single value, which the code reads differently, are left out.
\<close>

theorem schedule_fires_as_written:
  assumes "split_whitespace text = [f0, f1, f2, f3, f4]" "list_all steps_fit [f0, f1, f2, f3, f4]"
    and "1 \<le> cv_day t" "cv_day t \<le> 31" "cv_weekday t \<le> 6"
  shows "((\<exists>spec. parse_spec text = Some (Inr spec)) \<longleftrightarrow>
      field_reads f0 0 59 \<and> field_reads f1 0 23 \<and> field_reads f2 1 31 \<and> field_reads f3 1 12 \<and> field_reads f4 0 7)
   \<and> (\<forall>spec. parse_spec text = Some (Inr spec) \<longrightarrow> (spec_matches spec t \<longleftrightarrow>
     field_has f0 0 59 (cv_minute t) \<and> field_has f1 0 23 (cv_hour t) \<and> field_has f3 1 12 (cv_month t)
     \<and> (let dom = field_has f2 1 31 (cv_day t); dow = field_has f4 0 7 (cv_weekday t) \<or> cv_weekday t = 0 \<and> field_has f4 0 7 7
         in if f2 = ''*'' \<or> f4 = ''*'' then dom \<and> dow else dom \<or> dow)))"
proof (intro conjI allI impI)
  have inr: "and_then m k = Some (Inr x) \<longleftrightarrow> (\<exists>v. m = Some (Inr v) \<and> k v = Some (Inr x))" for m :: "'a res option" and k :: "'a \<Rightarrow> 'b res option" and x
    by (cases "(m, k)" rule: and_then.cases) auto
  have fits: "steps_fit f0" "steps_fit f1" "steps_fit f2" "steps_fit f3" "steps_fit f4" using assms(2) by simp_all
  note reads = mask_field_reads [of 0 59 f0 "''minute''"] mask_field_reads [of 0 23 f1 "''hour''"] mask_field_reads [of 1 31 f2 "''day of month''"]
    mask_field_reads [of 1 12 f3 "''month''"] mask_field_reads [of 0 7 f4 "''day of week''"]
  show "(\<exists>spec. parse_spec text = Some (Inr spec)) \<longleftrightarrow>
      field_reads f0 0 59 \<and> field_reads f1 0 23 \<and> field_reads f2 1 31 \<and> field_reads f3 1 12 \<and> field_reads f4 0 7"
    using reads fits assms(1) by (auto simp: parse_spec_def inr)
  fix spec
  assume "parse_spec text = Some (Inr spec)"
  then obtain minute hour day month week where f: "mask_field f0 0 59 ''minute'' = Some (Inr minute)" "mask_field f1 0 23 ''hour'' = Some (Inr hour)"
      "mask_field f2 1 31 ''day of month'' = Some (Inr day)" "mask_field f3 1 12 ''month'' = Some (Inr month)"
      "mask_field f4 0 7 ''day of week'' = Some (Inr week)"
    and spec: "spec = \<lparr>sp_minute = minute, sp_hour = hour, sp_day_of_month = day, sp_month = month,
       sp_day_of_week = normalise_sunday week, sp_dom_restricted = (f2 \<noteq> ''*''), sp_dow_restricted = (f4 \<noteq> ''*'')\<rparr>"
    using assms(1) by (auto simp: parse_spec_def inr)
  have bits: "mask_bit minute v \<longleftrightarrow> field_has f0 0 59 v" "mask_bit hour v \<longleftrightarrow> field_has f1 0 23 v" "mask_bit day v \<longleftrightarrow> field_has f2 1 31 v"
    "mask_bit month v \<longleftrightarrow> field_has f3 1 12 v" "mask_bit week v \<longleftrightarrow> field_has f4 0 7 v" for v
    using mask_field_bits [OF _ _ fits(1) f(1)] mask_field_bits [OF _ _ fits(2) f(2)] mask_field_bits [OF _ _ fits(3) f(3)]
      mask_field_bits [OF _ _ fits(4) f(4)] mask_field_bits [OF _ _ fits(5) f(5)] by simp_all
  have "field_has ''*'' 1 31 (cv_day t)" "field_has ''*'' 0 7 (cv_weekday t)"
    using assms(3-5) by (simp_all add: star_has)
  moreover have "mask_bit (normalise_sunday week) (cv_weekday t) \<longleftrightarrow>
      field_has f4 0 7 (cv_weekday t) \<or> cv_weekday t = 0 \<and> field_has f4 0 7 7"
    using assms(5) by (auto simp: sunday_bits bits)
  ultimately show "spec_matches spec t \<longleftrightarrow>
     field_has f0 0 59 (cv_minute t) \<and> field_has f1 0 23 (cv_hour t) \<and> field_has f3 1 12 (cv_month t)
     \<and> (let dom = field_has f2 1 31 (cv_day t); dow = field_has f4 0 7 (cv_weekday t) \<or> cv_weekday t = 0 \<and> field_has f4 0 7 7
         in if f2 = ''*'' \<or> f4 = ''*'' then dom \<and> dow else dom \<or> dow)"
    by (cases "f2 = ''*''"; cases "f4 = ''*''") (auto simp: spec_matches_def spec bits Let_def)
qed

text \<open>A schedule that has run is due exactly when one of its minutes lies after the minute of its last run, not after the current one, and no more than a day back, so a run missed while the agent was down is made up once and no minute fires twice; one that has never run looks back less than five minutes.\<close>

theorem due_is_one_missed_minute:
  "(is_due civil spec (Some previous) t \<longleftrightarrow>
     (\<exists>m. previous div minute_nanos < m \<and> m \<le> t div minute_nanos \<and> t div minute_nanos - 1440 \<le> m
        \<and> spec_matches spec (civil (m * minute_nanos))))
   \<and> (is_due civil spec None t \<longleftrightarrow>
     (\<exists>m. t div minute_nanos - 5 < m \<and> m \<le> t div minute_nanos \<and> spec_matches spec (civil (m * minute_nanos))))"
proof
  let ?P = "\<lambda>x. spec_matches spec (civil x)"
  have "is_due civil spec (Some previous) t \<longleftrightarrow>
      catch_up civil spec (floor_to_minute t) (previous div minute_nanos * minute_nanos) [0..<Suc 0 + max_catchup_minutes]"
    by (simp add: is_due_def floor_minutes mult.commute)
  also have "\<dots> \<longleftrightarrow> (\<exists>m. previous div minute_nanos < m \<and> m \<le> t div minute_nanos
      \<and> t div minute_nanos - int max_catchup_minutes \<le> m \<and> ?P (m * minute_nanos))"
    unfolding catch_up_iff by (rule due_minutes)
  finally show "is_due civil spec (Some previous) t \<longleftrightarrow> (\<exists>m. previous div minute_nanos < m \<and> m \<le> t div minute_nanos
      \<and> t div minute_nanos - 1440 \<le> m \<and> ?P (m * minute_nanos))"
    by (simp add: max_catchup_minutes_def)
  have "is_due civil spec None t \<longleftrightarrow>
      catch_up civil spec (floor_to_minute t) ((t div minute_nanos - 5) * minute_nanos) [0..<Suc 0 + first_run_catchup_minutes]"
    by (simp add: is_due_def floor_minutes algebra_simps first_run_catchup_minutes_def Let_def del: upt_Suc)
  also have "\<dots> \<longleftrightarrow> (\<exists>m. t div minute_nanos - 5 < m \<and> m \<le> t div minute_nanos
      \<and> t div minute_nanos - int first_run_catchup_minutes \<le> m \<and> ?P (m * minute_nanos))"
    unfolding catch_up_iff by (rule due_minutes)
  finally show "is_due civil spec None t \<longleftrightarrow>
      (\<exists>m. t div minute_nanos - 5 < m \<and> m \<le> t div minute_nanos \<and> ?P (m * minute_nanos))"
    by (auto simp: first_run_catchup_minutes_def)
qed

section \<open>Witnesses\<close>

text \<open>Every quarter of an hour from the fifth minute, from eight to ten, on the first of the month and on Mondays.\<close>

definition office_hours :: str where "office_hours = str_join '' '' [''5/15'', ''8-10'', ''1'', ''*'', ''1'']"

lemma office_hours_fields: "split_whitespace office_hours = [''5/15'', ''8-10'', ''1'', ''*'', ''1'']"
  unfolding office_hours_def
  by (rule split_whitespace_join) (simp_all add: plain_char_def is_ascii_whitespace_def byte_def)

lemma office_hours_trim:
  "str_trim ''5/15'' = ''5/15''" "str_trim ''8-10'' = ''8-10''" "str_trim ''1'' = ''1''" "str_trim ''5'' = ''5''" "str_trim ''8'' = ''8''"
  "str_trim ''10'' = ''10''"
  by (rule str_trim_plain; simp add: plain_char_def is_ascii_whitespace_def byte_def)+

lemma office_hours_numbers:
  "parse_u32 ''5'' = Some 5" "parse_u32 ''15'' = Some 15" "parse_u32 ''8'' = Some 8" "parse_u32 ''10'' = Some 10" "parse_u32 ''1'' = Some 1"
  by (simp_all add: parse_u32_def parse_unsigned_def digits_value_def digit_val_def is_ascii_digit_def byte_def)

lemma office_hours_items:
  "item_range ''5/15'' 0 59 ''minute'' = Inr (5, 59, 15)" "item_range ''8-10'' 0 23 ''hour'' = Inr (8, 10, 1)"
  "item_range ''1'' 1 31 ''day of month'' = Inr (1, 1, 1)" "item_range ''*'' 1 12 ''month'' = Inr (1, 12, 1)"
  "item_range ''1'' 0 7 ''day of week'' = Inr (1, 1, 1)"
  using star_range [of 1 12 "''month''"]
  by (simp_all add: item_range_def office_hours_trim office_hours_numbers cron_value_def ok_or_def)

lemma one_item:
  assumes "str_split CHR '','' text = [text]" "item_range text lo hi what = Inr (x, y, k)" "lo \<le> hi" "step_fits text"
  shows "steps_fit text" "field_reads text (unat lo) (unat hi)"
    "field_has text (unat lo) (unat hi) v \<longleftrightarrow> unat x \<le> v \<and> v \<le> unat y \<and> (v - unat x) mod unat k = 0"
proof -
  have "\<exists>v. item_names (unat lo) (unat hi) (str_trim text) v" using item_reads [OF assms(3,4), of what] assms(2) by blast
  then show "field_reads text (unat lo) (unat hi)" using assms(1) by (simp add: field_reads_def)
  show "steps_fit text" using assms(1,4) by (simp add: steps_fit_def)
  show "field_has text (unat lo) (unat hi) v \<longleftrightarrow> unat x \<le> v \<and> v \<le> unat y \<and> (v - unat x) mod unat k = 0"
    using assms(1) item_range_names(1) [OF assms(2-4)] by (simp add: field_has_def)
qed

lemma office_hours_fit: "step_fits ''5/15''" "step_fits ''8-10''" "step_fits ''1''" "step_fits ''*''"
  by (simp_all add: step_fits_def office_hours_trim str_trim_star office_hours_numbers)

theorem schedule_fires_as_written_witness:
  "\<exists>spec. parse_spec office_hours = Some (Inr spec)
     \<and> spec_matches spec \<lparr>cv_minute = 20, cv_hour = 9, cv_day = 5, cv_month = 8, cv_weekday = 1\<rparr>
     \<and> spec_matches spec \<lparr>cv_minute = 50, cv_hour = 10, cv_day = 1, cv_month = 8, cv_weekday = 4\<rparr>
     \<and> \<not> spec_matches spec \<lparr>cv_minute = 6, cv_hour = 9, cv_day = 5, cv_month = 8, cv_weekday = 1\<rparr>
     \<and> \<not> spec_matches spec \<lparr>cv_minute = 20, cv_hour = 9, cv_day = 6, cv_month = 8, cv_weekday = 2\<rparr>"
proof -
  have "str_split CHR '','' s = [s]" if "s \<in> {''5/15'', ''8-10'', ''1'', ''*''}" for s using that by auto
  note items = one_item [OF this office_hours_items(1) _ office_hours_fit(1), simplified] one_item [OF this office_hours_items(2) _ office_hours_fit(2), simplified]
    one_item [OF this office_hours_items(3) _ office_hours_fit(3), simplified] one_item [OF this office_hours_items(4) _ office_hours_fit(4), simplified]
    one_item [OF this office_hours_items(5) _ office_hours_fit(3), simplified]
  have fits: "list_all steps_fit [''5/15'', ''8-10'', ''1'', ''*'', ''1'']" using items by simp
  note fires = schedule_fires_as_written [OF office_hours_fields fits]
  have "\<exists>spec. parse_spec office_hours = Some (Inr spec)"
    using fires [of "\<lparr>cv_minute = 20, cv_hour = 9, cv_day = 5, cv_month = 8, cv_weekday = 1\<rparr>"] items by simp
  then obtain spec where spec: "parse_spec office_hours = Some (Inr spec)" by blast
  then have "1 \<le> cv_day t \<Longrightarrow> cv_day t \<le> 31 \<Longrightarrow> cv_weekday t \<le> 6 \<Longrightarrow> spec_matches spec t \<longleftrightarrow>
     (5 \<le> cv_minute t \<and> cv_minute t \<le> 59 \<and> (cv_minute t - 5) mod 15 = 0) \<and> (8 \<le> cv_hour t \<and> cv_hour t \<le> 10)
     \<and> (1 \<le> cv_month t \<and> cv_month t \<le> 12) \<and> (cv_day t = 1 \<or> cv_weekday t = 1)" for t
    using fires [of t] items by (auto simp: Let_def)
  then show ?thesis using spec by (intro exI [of _ spec]) simp
qed

end
