(* ===== verification/Scheduler.thy ===== *)
theory Scheduler
  imports Tasks
begin

text \<open>
  The internal scheduler: its table (\<open>unihelm-db/src/scheduler.rs\<close>) and the loop that reads it, claims
  jobs and spawns their passes (\<open>unihelm-agentd/src/scheduler.rs\<close>). Passes run beside the loop, so the
  steps of both interleave; what a pass does is its outcome, an argument. The lemmas show that a job
  never has two passes at once, and that no outcome and no restart stops a job for good.
\<close>

section \<open>The table\<close>

record sched_row =
  sj_name :: str
  sj_interval :: int
  sj_jitter :: int
  sj_enabled :: int
  sj_last_run_at :: "str option"
  sj_next_run_at :: str
  sj_last_status :: "str option"
  sj_last_error :: "str option"
  sj_last_duration :: "int option"
  sj_run_count :: int
  sj_failure_count :: int
  sj_created_at :: str
  sj_updated_at :: str

record scheduled_job =
  jb_name :: str
  jb_interval :: int
  jb_jitter :: int
  jb_enabled :: bool
  jb_last_run_at :: "int option"
  jb_next_run_at :: int
  jb_last_status :: "str option"
  jb_last_error :: "str option"
  jb_last_duration :: "int option"
  jb_run_count :: int
  jb_failure_count :: int

definition job_of_row :: "'j codec \<Rightarrow> sched_row \<Rightarrow> scheduled_job db_res" where
  "job_of_row c r =
     r_bind (from_sql_time_opt c (sj_last_run_at r)) (\<lambda>last_run.
     r_bind (from_sql_time c (sj_next_run_at r)) (\<lambda>next_run.
       Inr \<lparr>jb_name = sj_name r, jb_interval = sj_interval r, jb_jitter = sj_jitter r, jb_enabled = (sj_enabled r \<noteq> 0),
            jb_last_run_at = last_run, jb_next_run_at = next_run, jb_last_status = sj_last_status r,
            jb_last_error = sj_last_error r, jb_last_duration = sj_last_duration r, jb_run_count = sj_run_count r,
            jb_failure_count = sj_failure_count r\<rparr>))"

text \<open>A random offset: \<open>draw\<close> is what the generator gives for the range \<open>0..=seconds\<close>.\<close>

definition jitter_offset :: "(int \<Rightarrow> int) \<Rightarrow> int \<Rightarrow> int" where
  "jitter_offset draw seconds = (if seconds \<le> 0 then 0 else draw seconds)"

definition register_job :: "'j codec \<Rightarrow> int \<Rightarrow> (int \<Rightarrow> int) \<Rightarrow> str \<Rightarrow> int \<Rightarrow> int \<Rightarrow> sched_row list \<Rightarrow> sched_row list" where
  "register_job c now draw name interval jitter rows =
     (let ts = to_sql_time c now in
      if list_ex (\<lambda>r. sj_name r = name) rows then
        fst (sql_update (\<lambda>r. sj_name r = name)
          (\<lambda>r. r\<lparr>sj_interval := max 1 interval, sj_jitter := max 0 jitter, sj_updated_at := ts\<rparr>) rows)
      else
        rows @ [\<lparr>sj_name = name, sj_interval = max 1 interval, sj_jitter = max 0 jitter, sj_enabled = 1,
                 sj_last_run_at = None, sj_next_run_at = to_sql_time c (now + jitter_offset draw jitter),
                 sj_last_status = None, sj_last_error = None, sj_last_duration = None, sj_run_count = 0,
                 sj_failure_count = 0, sj_created_at = ts, sj_updated_at = ts\<rparr>])"

definition due_jobs :: "'j codec \<Rightarrow> int \<Rightarrow> sched_row list \<Rightarrow> scheduled_job list db_res" where
  "due_jobs c now rows =
     collect_results (map (job_of_row c)
       (sort_key sj_next_run_at (filter (\<lambda>r. sj_enabled r = 1 \<and> sj_next_run_at r \<le> to_sql_time c now) rows)))"

definition job_named :: "'j codec \<Rightarrow> str \<Rightarrow> sched_row list \<Rightarrow> scheduled_job option db_res" where
  "job_named c name rows =
     (case find (\<lambda>r. sj_name r = name) rows of
        None \<Rightarrow> Inr None
      | Some r \<Rightarrow> r_bind (job_of_row c r) (\<lambda>j. Inr (Some j)))"

definition finished_row :: "'j codec \<Rightarrow> int \<Rightarrow> int \<Rightarrow> str + unit \<Rightarrow> int \<Rightarrow> sched_row \<Rightarrow> sched_row" where
  "finished_row c now next_run outcome millis r =
     r\<lparr>sj_last_run_at := Some (to_sql_time c now), sj_next_run_at := to_sql_time c next_run,
       sj_last_status := Some (case outcome of Inr _ \<Rightarrow> ''ok'' | Inl _ \<Rightarrow> ''failed''),
       sj_last_error := (case outcome of Inr _ \<Rightarrow> None | Inl e \<Rightarrow> Some (truncate_line 2000 e)),
       sj_last_duration := Some millis, sj_run_count := sj_run_count r + 1,
       sj_failure_count := (case outcome of Inr _ \<Rightarrow> 0 | Inl _ \<Rightarrow> sj_failure_count r + 1),
       sj_updated_at := to_sql_time c now\<rparr>"

definition finish_job ::
  "'j codec \<Rightarrow> int \<Rightarrow> (int \<Rightarrow> int) \<Rightarrow> str \<Rightarrow> str + unit \<Rightarrow> int \<Rightarrow> sched_row list \<Rightarrow> sched_row list \<times> unit db_res" where
  "finish_job c now draw name outcome millis rows =
     (case job_named c name rows of
        Inl e \<Rightarrow> (rows, Inl e)
      | Inr None \<Rightarrow> (rows, Inr ())
      | Inr (Some job) \<Rightarrow>
          (fst (sql_update (\<lambda>r. sj_name r = name)
             (finished_row c now (now + jb_interval job + jitter_offset draw (jb_jitter job)) outcome millis) rows), Inr ()))"

definition defer_job :: "'j codec \<Rightarrow> int \<Rightarrow> str \<Rightarrow> int \<Rightarrow> sched_row list \<Rightarrow> sched_row list" where
  "defer_job c now name delay rows =
     fst (sql_update (\<lambda>r. sj_name r = name) (\<lambda>r. r\<lparr>sj_next_run_at := to_sql_time c (now + delay)\<rparr>) rows)"

section \<open>The loop and its passes\<close>

definition builtin_jobs :: "(str \<times> int \<times> int) list" where
  "builtin_jobs =
     [(''cert.renew'', 3600, 3600), (''cert.expire-stale'', 3600, 300), (''session.purge'', 86400, 3600),
      (''audit.purge'', 86400, 3600), (''sentinel.scan'', 60, 5), (''alerts.evaluate'', 60, 10),
      (''backup.scheduler'', 60, 10), (''webhook.deliver'', 30, 5)]"

text \<open>
  The set of claimed names, the passes that run (each a task of its own that holds its claim until
  it ends) and the rest of the due jobs the current tick has read.
\<close>

record run_pass =
  ps_job :: scheduled_job
  ps_recorded :: bool

record scheduler =
  sc_rows :: "sched_row list"
  sc_in_flight :: "str set"
  sc_passes :: "run_pass list"
  sc_due :: "scheduled_job list"

definition claim :: "str \<Rightarrow> scheduler \<Rightarrow> scheduler \<times> bool" where
  "claim name s = (s\<lparr>sc_in_flight := insert name (sc_in_flight s)\<rparr>, name \<notin> sc_in_flight s)"

definition drop_claim :: "str \<Rightarrow> scheduler \<Rightarrow> scheduler" where
  "drop_claim name s = s\<lparr>sc_in_flight := sc_in_flight s - {name}\<rparr>"

definition running :: "scheduler \<Rightarrow> str set" where
  "running s = sc_in_flight s"

definition register_all_jobs :: "'j codec \<Rightarrow> int \<Rightarrow> (int \<Rightarrow> int) \<Rightarrow> scheduler \<Rightarrow> scheduler" where
  "register_all_jobs c now draw s =
     s\<lparr>sc_rows := fold (\<lambda>(name, interval, jitter). register_job c now draw name interval jitter) builtin_jobs (sc_rows s)\<rparr>"

text \<open>A tick reads the due jobs once, then takes them one by one.\<close>

definition tick_read :: "'j codec \<Rightarrow> int \<Rightarrow> scheduler \<Rightarrow> scheduler" where
  "tick_read c now s =
     (if sc_due s \<noteq> [] then s
      else case due_jobs c now (sc_rows s) of Inl _ \<Rightarrow> s | Inr jobs \<Rightarrow> s\<lparr>sc_due := jobs\<rparr>)"

definition tick_next :: "scheduler \<Rightarrow> scheduler" where
  "tick_next s =
     (case sc_due s of
        [] \<Rightarrow> s
      | job # jobs \<Rightarrow>
          (case claim (jb_name job) (s\<lparr>sc_due := jobs\<rparr>) of
             (s1, False) \<Rightarrow> s\<lparr>sc_due := jobs\<rparr>
           | (s1, True) \<Rightarrow> s1\<lparr>sc_passes := sc_passes s1 @ [\<lparr>ps_job = job, ps_recorded = False\<rparr>]\<rparr>))"

text \<open>A pass of that name ends: its result is recorded, and then its claim is dropped.\<close>

definition record_pass :: "'j codec \<Rightarrow> int \<Rightarrow> (int \<Rightarrow> int) \<Rightarrow> str \<Rightarrow> str + unit \<Rightarrow> int \<Rightarrow> scheduler \<Rightarrow> scheduler" where
  "record_pass c now draw name outcome millis s =
     (if list_ex (\<lambda>p. jb_name (ps_job p) = name \<and> \<not> ps_recorded p) (sc_passes s) then
        s\<lparr>sc_rows := fst (finish_job c now draw name outcome millis (sc_rows s)),
          sc_passes := map (\<lambda>p. if jb_name (ps_job p) = name then p\<lparr>ps_recorded := True\<rparr> else p) (sc_passes s)\<rparr>
      else s)"

definition end_pass :: "str \<Rightarrow> scheduler \<Rightarrow> scheduler" where
  "end_pass name s =
     (if list_ex (\<lambda>p. jb_name (ps_job p) = name \<and> ps_recorded p) (sc_passes s) then
        drop_claim name (s\<lparr>sc_passes := filter (\<lambda>p. jb_name (ps_job p) \<noteq> name) (sc_passes s)\<rparr>)
      else s)"

text \<open>The agent stops, with or without its passes, and starts again on the same table.\<close>

definition restart :: "'j codec \<Rightarrow> int \<Rightarrow> (int \<Rightarrow> int) \<Rightarrow> scheduler \<Rightarrow> scheduler" where
  "restart c now draw s = register_all_jobs c now draw \<lparr>sc_rows = sc_rows s, sc_in_flight = {}, sc_passes = [], sc_due = []\<rparr>"

datatype sched_op =
    TickRead int
  | TickNext
  | Record int "int \<Rightarrow> int" str "str + unit" int
  | EndPass str
  | Restart int "int \<Rightarrow> int"
  | Defer int str int

fun sched_step :: "'j codec \<Rightarrow> sched_op \<Rightarrow> scheduler \<Rightarrow> scheduler" where
  "sched_step c (TickRead now) s = tick_read c now s"
| "sched_step c TickNext s = tick_next s"
| "sched_step c (Record now draw name outcome millis) s = record_pass c now draw name outcome millis s"
| "sched_step c (EndPass name) s = end_pass name s"
| "sched_step c (Restart now draw) s = restart c now draw s"
| "sched_step c (Defer now name delay) s = s\<lparr>sc_rows := defer_job c now name delay (sc_rows s)\<rparr>"

section \<open>The invariant\<close>

definition pass_names :: "scheduler \<Rightarrow> str list" where
  "pass_names s = map (\<lambda>p. jb_name (ps_job p)) (sc_passes s)"

definition sched_row_ok :: "'j codec \<Rightarrow> sched_row \<Rightarrow> bool" where
  "sched_row_ok c r \<longleftrightarrow> is_ok (job_of_row c r) \<and> 1 \<le> sj_interval r \<and> 0 \<le> sj_jitter r"

definition rows_inv :: "'j codec \<Rightarrow> sched_row list \<Rightarrow> bool" where
  "rows_inv c rows \<longleftrightarrow> distinct (map sj_name rows) \<and> list_all (sched_row_ok c) rows"

definition sched_inv :: "'j codec \<Rightarrow> scheduler \<Rightarrow> bool" where
  "sched_inv c s \<longleftrightarrow> rows_inv c (sc_rows s) \<and> distinct (pass_names s) \<and> sc_in_flight s = set (pass_names s)"

lemma job_of_row_fields:
  "job_of_row c r = Inr j \<Longrightarrow> jb_name j = sj_name r \<and> jb_interval j = sj_interval r \<and> jb_jitter j = sj_jitter r
     \<and> from_sql_time c (sj_next_run_at r) = Inr (jb_next_run_at j)"
  by (auto simp: job_of_row_def result_simps)

lemma rows_inv_update:
  assumes "rows_inv c rows" "\<And>r. sj_name (g r) = sj_name r" "\<And>r. sched_row_ok c r \<Longrightarrow> sched_row_ok c (g r)"
  shows "rows_inv c (fst (sql_update P g rows))"
proof -
  have "map sj_name (fst (sql_update P g rows)) = map sj_name rows" by (rule sql_update_map) (simp add: assms(2))
  then show ?thesis using assms(1,3) by (auto simp: rows_inv_def list_all_iff sql_update_set)
qed

lemma finished_row_ok: "codec_ok c \<Longrightarrow> sched_row_ok c r \<Longrightarrow> sched_row_ok c (finished_row c now next_run outcome millis r)"
  by (auto simp: sched_row_ok_def job_of_row_def finished_row_def is_ok_iff result_simps from_sql_time_opt_def)

lemma finish_cases:
  "finish_job c now draw name outcome millis rows = (rows', r) \<Longrightarrow>
     rows' = rows \<or> (\<exists>t. rows' = fst (sql_update (\<lambda>r. sj_name r = name) (finished_row c now t outcome millis) rows))"
  by (auto simp: finish_job_def split: sum.splits option.splits)

lemma rows_inv_finish:
  assumes "codec_ok c" "rows_inv c rows"
  shows "rows_inv c (fst (finish_job c now draw name outcome millis rows))"
proof -
  have "rows_inv c (fst (sql_update (\<lambda>r. sj_name r = name) (finished_row c now t outcome millis) rows))" for t
    by (rule rows_inv_update [OF assms(2) _ finished_row_ok [OF assms(1)]]) (simp_all add: finished_row_def)
  then show ?thesis using finish_cases [OF prod.collapse [symmetric]] assms(2) by metis
qed

lemma rows_inv_register:
  assumes "codec_ok c" "rows_inv c rows"
  shows "rows_inv c (register_job c now draw name interval jitter rows)"
proof (cases "list_ex (\<lambda>r. sj_name r = name) rows")
  case True
  then show ?thesis
    unfolding register_job_def Let_def
    by (simp, intro rows_inv_update [OF assms(2)]) (auto simp: sched_row_ok_def job_of_row_def is_ok_iff result_simps)
next
  case False
  then show ?thesis
    using assms by (auto simp: register_job_def Let_def rows_inv_def list_all_iff list_ex_iff sched_row_ok_def job_of_row_def
        is_ok_iff from_sql_time_opt_def)
qed

lemma rows_inv_register_all:
  assumes "codec_ok c" "rows_inv c rows"
  shows "rows_inv c (fold (\<lambda>(name, interval, jitter). register_job c now draw name interval jitter) jobs rows)"
  using assms(2) by (induction jobs arbitrary: rows) (auto simp: rows_inv_register [OF assms(1)])

lemma rows_inv_defer: "codec_ok c \<Longrightarrow> rows_inv c rows \<Longrightarrow> rows_inv c (defer_job c now name delay rows)"
  unfolding defer_job_def
  by (rule rows_inv_update) (auto simp: sched_row_ok_def job_of_row_def is_ok_iff result_simps)

lemma distinct_other: "distinct (map f xs) \<Longrightarrow> f ` (set xs \<inter> {x. f x \<noteq> n}) = f ` set xs - {n}"
  by auto

lemma record_pass_fields:
  "pass_names (record_pass c now draw name outcome millis s) = pass_names s"
  "sc_in_flight (record_pass c now draw name outcome millis s) = sc_in_flight s"
  "sc_rows (record_pass c now draw name outcome millis s) = sc_rows s
   \<or> sc_rows (record_pass c now draw name outcome millis s) = fst (finish_job c now draw name outcome millis (sc_rows s))"
  by (auto simp: record_pass_def pass_names_def)

lemma sched_step_inv:
  assumes "codec_ok c" "sched_inv c s"
  shows "sched_inv c (sched_step c op s)"
proof (cases op)
  case (TickRead now)
  then show ?thesis using assms(2) by (simp add: tick_read_def sched_inv_def pass_names_def split: sum.splits)
next
  case TickNext
  then show ?thesis
    using assms(2) by (auto simp: tick_next_def claim_def sched_inv_def pass_names_def split: list.splits bool.splits)
next
  case (Record now draw name outcome millis)
  then show ?thesis
    using assms(2) rows_inv_finish [OF assms(1), of "sc_rows s" now draw name outcome millis]
      record_pass_fields [of c now draw name outcome millis s] by (auto simp: sched_inv_def)
next
  case (EndPass name)
  then show ?thesis
    using assms(2) by (auto simp: end_pass_def drop_claim_def sched_inv_def pass_names_def distinct_map_filter)
next
  case (Restart now draw)
  then show ?thesis
    using assms by (simp add: restart_def register_all_jobs_def sched_inv_def pass_names_def rows_inv_register_all)
next
  case (Defer now name delay)
  then show ?thesis using assms by (simp add: sched_inv_def pass_names_def rows_inv_defer)
qed

lemma sched_run_inv: "codec_ok c \<Longrightarrow> sched_inv c s \<Longrightarrow> sched_inv c (fold (sched_step c) ops s)"
  by (induction ops arbitrary: s) (simp_all add: sched_step_inv)

definition first_start :: "'j codec \<Rightarrow> int \<Rightarrow> (int \<Rightarrow> int) \<Rightarrow> scheduler" where
  "first_start c now draw = restart c now draw \<lparr>sc_rows = [], sc_in_flight = {}, sc_passes = [], sc_due = []\<rparr>"

lemma first_start_inv: "codec_ok c \<Longrightarrow> sched_inv c (first_start c now draw)"
  unfolding first_start_def restart_def register_all_jobs_def
  by (simp add: sched_inv_def pass_names_def, intro rows_inv_register_all) (simp_all add: rows_inv_def)

section \<open>Ticks\<close>

text \<open>A whole tick with nothing else in between.\<close>

definition tick :: "'j codec \<Rightarrow> int \<Rightarrow> scheduler \<Rightarrow> scheduler" where
  "tick c now s = (let s1 = tick_read c now s in (tick_next ^^ length (sc_due s1)) s1)"

lemma tick_next_takes:
  "(tick_next ^^ length jobs) (s\<lparr>sc_due := jobs\<rparr>) = s' \<Longrightarrow>
     sc_in_flight s' = sc_in_flight s \<union> jb_name ` set jobs \<and> sc_due s' = [] \<and> sc_rows s' = sc_rows s"
proof (induction jobs arbitrary: s)
  case (Cons job jobs)
  define s1 where "s1 = (if jb_name job \<in> sc_in_flight s then s
    else s\<lparr>sc_in_flight := insert (jb_name job) (sc_in_flight s), sc_passes := sc_passes s @ [\<lparr>ps_job = job, ps_recorded = False\<rparr>]\<rparr>)"
  have "tick_next (s\<lparr>sc_due := job # jobs\<rparr>) = s1\<lparr>sc_due := jobs\<rparr>"
    by (simp add: tick_next_def claim_def s1_def)
  then have "(tick_next ^^ length jobs) (s1\<lparr>sc_due := jobs\<rparr>) = s'"
    using Cons.prems by (simp add: funpow_swap1)
  from Cons.IH [OF this] show ?case by (auto simp: s1_def)
qed auto

lemma due_jobs_ok:
  assumes "rows_inv c rows"
  shows "\<exists>jobs. due_jobs c now rows = Inr jobs
    \<and> jb_name ` set jobs = sj_name ` {r \<in> set rows. sj_enabled r = 1 \<and> sj_next_run_at r \<le> to_sql_time c now}"
proof -
  have ok: "\<exists>jobs. collect_results (map (job_of_row c) rs) = Inr jobs \<and> map jb_name jobs = map sj_name rs"
    if "list_all (sched_row_ok c) rs" for rs
    using that by (induction rs) (auto simp: sched_row_ok_def is_ok_iff dest: job_of_row_fields)
  define rs where "rs = sort_key sj_next_run_at (filter (\<lambda>r. sj_enabled r = 1 \<and> sj_next_run_at r \<le> to_sql_time c now) rows)"
  have "list_all (sched_row_ok c) rs" using assms by (auto simp: rs_def rows_inv_def list_all_iff)
  then obtain jobs where "due_jobs c now rows = Inr jobs" "map jb_name jobs = map sj_name rs"
    using ok unfolding due_jobs_def rs_def by blast
  moreover from this(2) have "jb_name ` set jobs = sj_name ` set rs" by (metis list.set_map)
  ultimately show ?thesis by (auto simp: rs_def)
qed

lemma tick_starts:
  assumes "sched_inv c s" "sc_due s = []" "r \<in> set (sc_rows s)" "sj_enabled r = 1" "sj_next_run_at r \<le> to_sql_time c now"
  shows "sj_name r \<in> running (tick c now s) \<and> sc_due (tick c now s) = [] \<and> sc_rows (tick c now s) = sc_rows s"
proof -
  obtain jobs where jobs: "due_jobs c now (sc_rows s) = Inr jobs"
      "jb_name ` set jobs = sj_name ` {r \<in> set (sc_rows s). sj_enabled r = 1 \<and> sj_next_run_at r \<le> to_sql_time c now}"
    using due_jobs_ok assms(1) unfolding sched_inv_def by blast
  have "tick c now s = (tick_next ^^ length jobs) (s\<lparr>sc_due := jobs\<rparr>)"
    using assms(2) jobs(1) by (simp add: tick_def tick_read_def)
  from tick_next_takes [OF this [symmetric]] show ?thesis
    using jobs(2) assms(3-5) by (auto simp: running_def)
qed

lemma tick_running:
  assumes "sched_inv c s" "sc_due s = []"
  shows "running (tick c now s) = running s \<union> sj_name ` {r \<in> set (sc_rows s). sj_enabled r = 1 \<and> sj_next_run_at r \<le> to_sql_time c now}"
proof -
  obtain jobs where jobs: "due_jobs c now (sc_rows s) = Inr jobs"
      "jb_name ` set jobs = sj_name ` {r \<in> set (sc_rows s). sj_enabled r = 1 \<and> sj_next_run_at r \<le> to_sql_time c now}"
    using due_jobs_ok assms(1) unfolding sched_inv_def by blast
  have "tick c now s = (tick_next ^^ length jobs) (s\<lparr>sc_due := jobs\<rparr>)"
    using assms(2) jobs(1) by (simp add: tick_def tick_read_def)
  from tick_next_takes [OF this [symmetric]] show ?thesis
    unfolding jobs(2) [symmetric] by (auto simp: running_def)
qed

section \<open>Properties\<close>

text \<open>
  C16: However ticks, ends of passes, deferrals and restarts interleave, no job ever has two passes at once,
  and exactly the jobs with a pass are claimed. A tick that nothing interrupts then starts exactly the
  enabled jobs whose time has come and that have no pass.
\<close>

theorem one_pass_per_job:
  assumes "codec_ok c"
  shows "let s = fold (sched_step c) ops (first_start c now draw) in
     distinct (pass_names s) \<and> running s = set (pass_names s) \<and> distinct (map sj_name (sc_rows s))
     \<and> (sc_due s = [] \<longrightarrow> running (tick c at s) = running s
          \<union> sj_name ` {r \<in> set (sc_rows s). sj_enabled r = 1 \<and> sj_next_run_at r \<le> to_sql_time c at})"
proof -
  have inv: "sched_inv c (fold (sched_step c) ops (first_start c now draw))"
    by (rule sched_run_inv [OF assms first_start_inv [OF assms]])
  then show ?thesis
    using tick_running [OF inv] by (simp add: Let_def sched_inv_def rows_inv_def running_def)
qed

definition fair_draw :: "(int \<Rightarrow> int) \<Rightarrow> bool" where
  "fair_draw draw \<longleftrightarrow> (\<forall>n. 0 < n \<longrightarrow> 0 \<le> draw n \<and> draw n \<le> n)"

lemma jitter_bounds: "fair_draw draw \<Longrightarrow> 0 \<le> j \<Longrightarrow> 0 \<le> jitter_offset draw j \<and> jitter_offset draw j \<le> j"
  by (auto simp: jitter_offset_def fair_draw_def)

lemma finish_job_row:
  assumes "codec_ok c" "rows_inv c rows" "r \<in> set rows"
  shows "\<exists>next_run. fst (finish_job c now draw (sj_name r) outcome millis rows)
      = fst (sql_update (\<lambda>q. sj_name q = sj_name r) (finished_row c now next_run outcome millis) rows)
    \<and> next_run = now + sj_interval r + jitter_offset draw (sj_jitter r)"
proof -
  have inj: "inj_on sj_name (set rows)" using assms(2) by (simp add: rows_inv_def distinct_map)
  have "find (\<lambda>q. sj_name q = sj_name r) rows \<noteq> None" using assms(3) by (auto simp: find_None_iff)
  then obtain q where q: "find (\<lambda>q. sj_name q = sj_name r) rows = Some q" by blast
  then have "q \<in> set rows" "sj_name q = sj_name r" by (auto simp: find_Some_iff)
  then have "q = r" using inj assms(3) by (metis inj_onD)
  obtain j where j: "job_of_row c r = Inr j"
    using assms(2,3) by (auto simp: rows_inv_def list_all_iff sched_row_ok_def is_ok_iff)
  show ?thesis
    using job_of_row_fields [OF j] by (simp add: finish_job_def job_named_def q \<open>q = r\<close> j)
qed

text \<open>C17: No outcome stops a job: when the pass of an enabled job ends, well or not, its failures are counted and its next run is set no later than its interval and jitter from now; and the first tick after that starts it again.\<close>

theorem no_outcome_stops_a_job:
  assumes "codec_ok c" "fair_draw draw" "sched_inv c s" "sc_due s = []"
    and "r \<in> set (sc_rows s)" "sj_enabled r = 1" "p \<in> set (sc_passes s)" "jb_name (ps_job p) = sj_name r" "\<not> ps_recorded p"
    and "now + sj_interval r + sj_jitter r \<le> later"
  shows "let s1 = end_pass (sj_name r) (record_pass c now draw (sj_name r) outcome millis s) in
     sj_name r \<notin> running s1 \<and> sj_name r \<in> running (tick c later s1)
     \<and> (\<exists>q \<in> set (sc_rows s1). sj_name q = sj_name r \<and> sj_enabled q = 1 \<and> sj_run_count q = sj_run_count r + 1
          \<and> sj_failure_count q = (if is_ok outcome then 0 else sj_failure_count r + 1))"
proof -
  define s0 where "s0 = record_pass c now draw (sj_name r) outcome millis s"
  define s1 where "s1 = end_pass (sj_name r) s0"
  have rows: "rows_inv c (sc_rows s)" using assms(3) by (simp add: sched_inv_def)
  obtain next_run where fin: "fst (finish_job c now draw (sj_name r) outcome millis (sc_rows s))
      = fst (sql_update (\<lambda>q. sj_name q = sj_name r) (finished_row c now next_run outcome millis) (sc_rows s))"
      "next_run = now + sj_interval r + jitter_offset draw (sj_jitter r)"
    using finish_job_row [OF assms(1) rows assms(5)] by blast
  have "0 \<le> sj_jitter r" using rows assms(5) by (auto simp: rows_inv_def list_all_iff sched_row_ok_def)
  then have le: "next_run \<le> later" using jitter_bounds [OF assms(2)] fin(2) assms(10) by (meson add_left_mono order_trans)
  have rec: "list_ex (\<lambda>p. jb_name (ps_job p) = sj_name r \<and> \<not> ps_recorded p) (sc_passes s)"
    using assms(7-9) by (auto simp: list_ex_iff)
  have s0: "sc_rows s0 = fst (sql_update (\<lambda>q. sj_name q = sj_name r) (finished_row c now next_run outcome millis) (sc_rows s))"
      "sc_passes s0 = map (\<lambda>p. if jb_name (ps_job p) = sj_name r then p\<lparr>ps_recorded := True\<rparr> else p) (sc_passes s)" "sc_due s0 = []"
    using rec fin(1) assms(4) by (simp_all add: s0_def record_pass_def)
  have over: "list_ex (\<lambda>p. jb_name (ps_job p) = sj_name r \<and> ps_recorded p) (sc_passes s0)"
    unfolding s0 list_ex_iff using assms(7,8) by (intro bexI [of _ "p\<lparr>ps_recorded := True\<rparr>"]) auto
  have s1: "sc_rows s1 = sc_rows s0" "sc_due s1 = []" "sj_name r \<notin> running s1"
    using over s0(3) by (simp_all add: s1_def end_pass_def drop_claim_def running_def)
  define q where "q = finished_row c now next_run outcome millis r"
  have q: "q \<in> set (sc_rows s1)" using assms(5) by (force simp: s1 s0 q_def sql_update_set)
  have f: "sj_name q = sj_name r" "sj_enabled q = 1" "sj_run_count q = sj_run_count r + 1"
      "sj_failure_count q = (if is_ok outcome then 0 else sj_failure_count r + 1)" "sj_next_run_at q = to_sql_time c next_run"
    using assms(6) by (simp_all add: q_def finished_row_def split: sum.splits)
  have "sched_inv c s0" using sched_step_inv [OF assms(1,3), of "Record now draw (sj_name r) outcome millis"] by (simp add: s0_def)
  then have "sched_inv c s1" using sched_step_inv [OF assms(1), of s0 "EndPass (sj_name r)"] by (simp add: s1_def)
  moreover have "sj_next_run_at q \<le> to_sql_time c later" using le f(5) enc_time_le [OF assms(1)] by (simp add: to_sql_time_def)
  ultimately have "sj_name r \<in> running (tick c later s1)" using tick_starts s1(2) q f(1,2) by metis
  then show ?thesis using s1(3) q f unfolding Let_def s1_def s0_def by blast
qed

definition history :: "sched_row \<Rightarrow> str \<times> int \<times> str option \<times> str \<times> str option \<times> str option \<times> int \<times> int" where
  "history r = (sj_name r, sj_enabled r, sj_last_run_at r, sj_next_run_at r, sj_last_status r, sj_last_error r, sj_run_count r, sj_failure_count r)"

lemma register_keeps: "\<exists>new. map history (register_job c now draw name interval jitter rows) = map history rows @ new"
proof (cases "list_ex (\<lambda>r. sj_name r = name) rows")
  case True
  have "map history (fst (sql_update P (\<lambda>r. r\<lparr>sj_interval := a, sj_jitter := b, sj_updated_at := t\<rparr>) rows)) = map history rows" for P a b t
    by (rule sql_update_map) (simp add: history_def)
  then show ?thesis using True by (simp add: register_job_def Let_def)
qed (simp add: register_job_def Let_def)
lemma register_all_keeps:
  "\<exists>new. map history (fold (\<lambda>(name, interval, jitter). register_job c now draw name interval jitter) jobs rows)
     = map history rows @ new"
proof (induction jobs arbitrary: rows)
  case (Cons job jobs)
  obtain name interval jitter where "job = (name, interval, jitter)" by (cases job)
  then show ?case
    using register_keeps [of c now draw name interval jitter rows] Cons [of "register_job c now draw name interval jitter rows"] by auto
qed simp

text \<open>A restart loses no schedule: every row keeps its next run, its last result, its counts and whether it is enabled; only the interval and the jitter of the built-in jobs are refreshed, and no claim survives.\<close>

theorem restart_keeps_the_schedule:
  "\<exists>new. map history (sc_rows (restart c now draw s)) = map history (sc_rows s) @ new
     \<and> running (restart c now draw s) = {} \<and> sc_passes (restart c now draw s) = []"
  using register_all_keeps [of c now draw builtin_jobs "sc_rows s"]
  by (simp add: restart_def register_all_jobs_def running_def)

section \<open>Witnesses\<close>

definition no_jitter :: "int \<Rightarrow> int" where "no_jitter n = 0"

lemma no_jitter_fair: "fair_draw no_jitter"
  by (simp add: fair_draw_def no_jitter_def)

theorem one_pass_per_job_witness:
  "let s = fold (sched_step sample_codec) [TickRead 100, TickNext, TickNext, TickRead 200, TickNext] (first_start sample_codec 0 no_jitter) in
     distinct (pass_names s) \<and> running s = set (pass_names s)"
  using one_pass_per_job [OF sample_codec_ok, of "[TickRead 100, TickNext, TickNext, TickRead 200, TickNext]" 0 no_jitter]
  by (simp add: Let_def)

definition one_job :: sched_row where
  "one_job = \<lparr>sj_name = ''cert.renew'', sj_interval = 3600, sj_jitter = 60, sj_enabled = 1, sj_last_run_at = None,
     sj_next_run_at = to_sql_time sample_codec 5, sj_last_status = None, sj_last_error = None, sj_last_duration = None,
     sj_run_count = 4, sj_failure_count = 2, sj_created_at = to_sql_time sample_codec 0, sj_updated_at = to_sql_time sample_codec 0\<rparr>"

definition one_run :: scheduled_job where
  "one_run = \<lparr>jb_name = ''cert.renew'', jb_interval = 3600, jb_jitter = 60, jb_enabled = True, jb_last_run_at = None,
     jb_next_run_at = 5, jb_last_status = None, jb_last_error = None, jb_last_duration = None, jb_run_count = 4, jb_failure_count = 2\<rparr>"

lemma one_job_read: "job_of_row sample_codec one_job = Inr one_run"
  using sample_codec_ok by (simp add: one_job_def one_run_def job_of_row_def from_sql_time_opt_def)

definition one_running :: scheduler where
  "one_running = \<lparr>sc_rows = [one_job], sc_in_flight = {''cert.renew''}, sc_passes = [\<lparr>ps_job = one_run, ps_recorded = False\<rparr>], sc_due = []\<rparr>"

lemma one_running_inv: "sched_inv sample_codec one_running"
  by (simp add: sched_inv_def rows_inv_def one_running_def pass_names_def one_run_def sched_row_ok_def one_job_read)
    (simp add: one_job_def)

theorem no_outcome_stops_a_job_witness:
  "let s1 = end_pass ''cert.renew'' (record_pass sample_codec 10 no_jitter ''cert.renew'' (Inl ''no such host'') 7 one_running) in
     ''cert.renew'' \<notin> running s1 \<and> ''cert.renew'' \<in> running (tick sample_codec 9000 s1)"
  using no_outcome_stops_a_job [OF sample_codec_ok no_jitter_fair one_running_inv, of one_job "\<lparr>ps_job = one_run, ps_recorded = False\<rparr>" 10 9000
      "Inl ''no such host''" 7]
  by (simp add: one_running_def Let_def) (simp add: one_job_def one_run_def)

text \<open>
  The due jobs are read before they are claimed. A pass that ends in between is run again at once,
  although its next run has just been set an hour ahead.
\<close>

lemma stale_due_list_runs_a_job_again:
  "running (fold (sched_step sample_codec)
      [TickRead 9, Record 10 no_jitter ''cert.renew'' (Inr ()) 7, EndPass ''cert.renew'', TickNext] one_running) = {''cert.renew''}
   \<and> due_jobs sample_codec 10 (sc_rows (fold (sched_step sample_codec)
      [TickRead 9, Record 10 no_jitter ''cert.renew'' (Inr ()) 7, EndPass ''cert.renew'', TickNext] one_running)) = Inr []"
proof -
  have due: "due_jobs sample_codec 9 [one_job] = Inr [one_run]"
    using one_job_read enc_time_le [OF sample_codec_ok, of 5 9] by (simp add: due_jobs_def to_sql_time_def) (simp add: one_job_def to_sql_time_def)
  have fin: "finish_job sample_codec 10 no_jitter ''cert.renew'' (Inr ()) 7 [one_job]
      = ([finished_row sample_codec 10 3610 (Inr ()) 7 one_job], Inr ())"
    using one_job_read by (simp add: finish_job_def job_named_def sql_update_def one_run_def no_jitter_def jitter_offset_def one_job_def)
  have late: "\<not> to_sql_time sample_codec 3610 \<le> to_sql_time sample_codec 10"
    using enc_time_le [OF sample_codec_ok, of 3610 10] by (simp add: to_sql_time_def)
  have final: "fold (sched_step sample_codec)
      [TickRead 9, Record 10 no_jitter ''cert.renew'' (Inr ()) 7, EndPass ''cert.renew'', TickNext] one_running
    = \<lparr>sc_rows = [finished_row sample_codec 10 3610 (Inr ()) 7 one_job], sc_in_flight = {''cert.renew''},
       sc_passes = [\<lparr>ps_job = one_run, ps_recorded = False\<rparr>], sc_due = []\<rparr>"
    by (simp add: one_running_def tick_read_def due record_pass_def fin end_pass_def drop_claim_def tick_next_def claim_def)
      (simp add: one_run_def)
  show ?thesis unfolding final using late by (simp add: running_def due_jobs_def finished_row_def)
qed

end
