(* ===== verification/Ipc_Client.thy ===== *)
theory Ipc_Client
  imports Frames
begin

text \<open>
  The client side of the socket (\<open>unihelm-ipc/src/client.rs\<close>): callers, a writer task and a reader task
  around one table of waiting requests. Their steps interleave; each step is what happens under one
  lock or on one channel. The lemmas show that a caller only ever gets the reply to its own request,
  that no call waits for ever, and what a connection that closes does to those who wait.
\<close>

section \<open>State\<close>

text \<open>The receiving end of a one-shot channel, a call on its way, and the reader task.\<close>

datatype 'j slot = Empty | Filled "'j response_frame" | Dropped

datatype 'j call_state = Checked str | Registered str | Waiting | Returned "ipc_error + 'j response_frame"

datatype reader = Reading | Closing | Ended

record 'j client =
  cl_closed :: bool
  cl_reader :: reader
  cl_writing :: bool
  cl_pending :: "uuid set"
  cl_slots :: "uuid \<Rightarrow> 'j slot"
  cl_calls :: "uuid \<Rightarrow> 'j call_state option"
  cl_outbound :: "str list"
  cl_sending :: "str option"
  cl_wire :: "str list"
  cl_events :: "event_frame list"

definition from_transport :: "'j client" where
  "from_transport =
     \<lparr>cl_closed = False, cl_reader = Reading, cl_writing = True, cl_pending = {}, cl_slots = (\<lambda>_. Empty),
      cl_calls = (\<lambda>_. None), cl_outbound = [], cl_sending = None, cl_wire = [], cl_events = []\<rparr>"

definition is_closed :: "'j client \<Rightarrow> bool" where
  "is_closed s = cl_closed s"

definition set_call :: "uuid \<Rightarrow> 'j call_state \<Rightarrow> 'j client \<Rightarrow> 'j client" where
  "set_call i k s = s\<lparr>cl_calls := (cl_calls s)(i \<mapsto> k)\<rparr>"

section \<open>A call\<close>

text \<open>The steps of \<open>send_and_wait\<close> for the request with id \<open>i\<close>; \<open>enc\<close> writes a frame as JSON.\<close>

definition begin_call :: "('j client_frame \<Rightarrow> str + str) \<Rightarrow> 'j request_frame \<Rightarrow> 'j client \<Rightarrow> 'j client" where
  "begin_call enc rq s =
     set_call (rq_id rq)
       (if is_closed s then Returned (Inl IpcClosed)
        else case enc (Request rq) of Inl e \<Rightarrow> Returned (Inl (Malformed e)) | Inr bytes \<Rightarrow> Checked bytes) s"

definition register_call :: "uuid \<Rightarrow> str \<Rightarrow> 'j client \<Rightarrow> 'j client" where
  "register_call i bytes s =
     set_call i (Registered bytes) (s\<lparr>cl_pending := insert i (cl_pending s), cl_slots := (cl_slots s)(i := Empty)\<rparr>)"

text \<open>
  The channel to the writer holds 256 frames; \<open>send\<close> waits, for any time, until it has room or its receiver
  is gone, so the step is not taken before.
\<close>

definition channel_ready :: "'j client \<Rightarrow> bool" where
  "channel_ready s \<longleftrightarrow> (cl_writing s \<longrightarrow> length (cl_outbound s) < 256)"

definition outbound_send :: "str \<Rightarrow> 'j client \<Rightarrow> 'j client \<times> (ipc_error + unit)" where
  "outbound_send bytes s =
     (if cl_writing s then (s\<lparr>cl_outbound := cl_outbound s @ [bytes]\<rparr>, Inr ()) else (s, Inl IpcClosed))"

definition send_call :: "uuid \<Rightarrow> str \<Rightarrow> 'j client \<Rightarrow> 'j client" where
  "send_call i bytes s =
     (case outbound_send bytes s of
        (s1, Inr _) \<Rightarrow> set_call i Waiting s1
      | (s1, Inl _) \<Rightarrow> set_call i (Returned (Inl IpcClosed)) (s1\<lparr>cl_pending := cl_pending s1 - {i}\<rparr>))"

text \<open>What the caller gets when its channel has news, or when its time is up.\<close>

definition wake_call :: "uuid \<Rightarrow> 'j client \<Rightarrow> 'j client" where
  "wake_call i s =
     (case cl_slots s i of
        Filled resp \<Rightarrow> set_call i (Returned (Inr resp)) s
      | Dropped \<Rightarrow> set_call i (Returned (Inl IpcClosed)) s
      | Empty \<Rightarrow> s)"

definition time_out_call :: "uuid \<Rightarrow> 'j client \<Rightarrow> 'j client" where
  "time_out_call i s =
     (case cl_slots s i of
        Empty \<Rightarrow> set_call i (Returned (Inl IpcTimeout)) (s\<lparr>cl_pending := cl_pending s - {i}\<rparr>)
      | _ \<Rightarrow> wake_call i s)"

text \<open>\<open>call\<close> and \<open>call_ok\<close> on what \<open>send_and_wait\<close> returned; \<open>task_json\<close> is the object with the task's id.\<close>

definition call_body :: "ipc_error + 'j response_frame \<Rightarrow> ipc_error + 'j response_body" where
  "call_body r = r_bind r (\<lambda>resp. if rs_v resp \<noteq> protocol_version then Inl (UnsupportedVersion (rs_v resp)) else Inr (rs_body resp))"

definition call_ok :: "(task_id \<Rightarrow> 'j) \<Rightarrow> ipc_error + 'j response_frame \<Rightarrow> uni_error + 'j" where
  "call_ok task_json r =
     (case call_body r of
        Inl e \<Rightarrow> Inl (uni_error_of_ipc e)
      | Inr (RespOk data) \<Rightarrow> Inr data
      | Inr (RespErr e) \<Rightarrow> Inl e
      | Inr (RespTask t) \<Rightarrow> Inr (task_json t))"

definition send_control :: "('j client_frame \<Rightarrow> str + str) \<Rightarrow> control_frame \<Rightarrow> 'j client \<Rightarrow> 'j client \<times> (ipc_error + unit)" where
  "send_control enc f s =
     (case enc (Control f) of Inl e \<Rightarrow> (s, Inl (Malformed e)) | Inr bytes \<Rightarrow> outbound_send bytes s)"

section \<open>The two tasks\<close>

definition writer_stops :: "'j client \<Rightarrow> 'j client" where
  "writer_stops s = s\<lparr>cl_writing := False, cl_outbound := [], cl_sending := None, cl_closed := True\<rparr>"

text \<open>The writer takes a frame off the channel, and then writes it.\<close>

definition writer_takes :: "'j client \<Rightarrow> 'j client" where
  "writer_takes s =
     (case (cl_sending s, cl_outbound s) of
        (None, bytes # rest) \<Rightarrow> s\<lparr>cl_sending := Some bytes, cl_outbound := rest\<rparr>
      | _ \<Rightarrow> s)"

definition writer_frame :: "'j client \<Rightarrow> 'j client" where
  "writer_frame s =
     (case cl_sending s of
        None \<Rightarrow> s
      | Some bytes \<Rightarrow>
          (case write_frame bytes of
             Inl _ \<Rightarrow> writer_stops s
           | Inr sent \<Rightarrow> s\<lparr>cl_sending := None, cl_wire := cl_wire s @ [sent]\<rparr>))"

definition reader_frame :: "'j server_frame \<Rightarrow> 'j client \<Rightarrow> 'j client" where
  "reader_frame f s =
     (case f of
        Response resp \<Rightarrow>
          if rs_id resp \<in> cl_pending s then
            s\<lparr>cl_pending := cl_pending s - {rs_id resp}, cl_slots := (cl_slots s)(rs_id resp := Filled resp)\<rparr>
          else s
      | Event ev \<Rightarrow> s\<lparr>cl_events := cl_events s @ [ev]\<rparr>)"

text \<open>The reader ends in two steps: it marks the client closed and then drops every waiting channel.\<close>

definition reader_stops :: "'j client \<Rightarrow> 'j client" where
  "reader_stops s = s\<lparr>cl_reader := Closing, cl_closed := True\<rparr>"

definition reader_clears :: "'j client \<Rightarrow> 'j client" where
  "reader_clears s =
     s\<lparr>cl_reader := Ended, cl_slots := (\<lambda>i. if i \<in> cl_pending s then Dropped else cl_slots s i), cl_pending := {}\<rparr>"

text \<open>One step of the client; a request id is used once, and a socket may fail at any time.\<close>

inductive client_step :: "('j client_frame \<Rightarrow> str + str) \<Rightarrow> 'j client \<Rightarrow> 'j client \<Rightarrow> bool" for enc where
  Begin: "cl_calls s (rq_id rq) = None \<Longrightarrow> client_step enc s (begin_call enc rq s)"
| Register: "cl_calls s i = Some (Checked bytes) \<Longrightarrow> client_step enc s (register_call i bytes s)"
| Send: "cl_calls s i = Some (Registered bytes) \<Longrightarrow> channel_ready s \<Longrightarrow> client_step enc s (send_call i bytes s)"
| Wake: "cl_calls s i = Some Waiting \<Longrightarrow> client_step enc s (wake_call i s)"
| TimeOut: "cl_calls s i = Some Waiting \<Longrightarrow> client_step enc s (time_out_call i s)"
| Push: "channel_ready s \<Longrightarrow> client_step enc s (fst (send_control enc f s))"
| Receive: "cl_reader s = Reading \<Longrightarrow> client_step enc s (reader_frame f s)"
| StopReading: "cl_reader s = Reading \<Longrightarrow> client_step enc s (reader_stops s)"
| Clear: "cl_reader s = Closing \<Longrightarrow> client_step enc s (reader_clears s)"
| Take: "cl_writing s \<Longrightarrow> client_step enc s (writer_takes s)"
| Transmit: "cl_writing s \<Longrightarrow> client_step enc s (writer_frame s)"
| StopWriting: "client_step enc s (writer_stops s)"

inductive reachable :: "('j client_frame \<Rightarrow> str + str) \<Rightarrow> 'j client \<Rightarrow> bool" for enc where
  Start: "reachable enc from_transport"
| Step: "reachable enc s \<Longrightarrow> client_step enc s s' \<Longrightarrow> reachable enc s'"

section \<open>The invariant\<close>

text \<open>
  A call is in the table exactly while its channel is empty and it has registered and not returned;
  what a channel or a call holds is the reply to that very request.
\<close>

definition call_inv :: "uuid \<Rightarrow> 'j call_state option \<Rightarrow> bool \<Rightarrow> 'j slot \<Rightarrow> bool" where
  "call_inv i k pending slot \<longleftrightarrow>
     (case k of
        None \<Rightarrow> \<not> pending
      | Some (Checked _) \<Rightarrow> \<not> pending
      | Some (Registered _) \<Rightarrow> pending \<longleftrightarrow> slot = Empty
      | Some Waiting \<Rightarrow> pending \<longleftrightarrow> slot = Empty
      | Some (Returned (Inr resp)) \<Rightarrow> rs_id resp = i \<and> \<not> pending
      | Some (Returned (Inl e)) \<Rightarrow> (e = IpcClosed \<or> e = IpcTimeout \<or> (\<exists>m. e = Malformed m)) \<and> \<not> pending)
     \<and> (case slot of Filled resp \<Rightarrow> rs_id resp = i | _ \<Rightarrow> True)"

definition client_inv :: "'j client \<Rightarrow> bool" where
  "client_inv s \<longleftrightarrow> (\<forall>i. call_inv i (cl_calls s i) (i \<in> cl_pending s) (cl_slots s i)) \<and> (cl_reader s = Reading \<or> cl_closed s)"

lemmas client_defs = begin_call_def register_call_def send_call_def outbound_send_def wake_call_def time_out_call_def
  send_control_def reader_frame_def reader_stops_def reader_clears_def writer_stops_def writer_takes_def writer_frame_def set_call_def is_closed_def

lemma call_inv_simps:
  "call_inv i None p sl \<longleftrightarrow> \<not> p \<and> (case sl of Filled resp \<Rightarrow> rs_id resp = i | _ \<Rightarrow> True)"
  "call_inv i (Some (Checked b)) p sl \<longleftrightarrow> \<not> p \<and> (case sl of Filled resp \<Rightarrow> rs_id resp = i | _ \<Rightarrow> True)"
  "call_inv i (Some (Registered b)) p sl \<longleftrightarrow> (p \<longleftrightarrow> sl = Empty) \<and> (case sl of Filled resp \<Rightarrow> rs_id resp = i | _ \<Rightarrow> True)"
  "call_inv i (Some Waiting) p sl \<longleftrightarrow> (p \<longleftrightarrow> sl = Empty) \<and> (case sl of Filled resp \<Rightarrow> rs_id resp = i | _ \<Rightarrow> True)"
  "call_inv i (Some (Returned (Inr resp))) p sl \<longleftrightarrow>
     rs_id resp = i \<and> \<not> p \<and> (case sl of Filled resp \<Rightarrow> rs_id resp = i | _ \<Rightarrow> True)"
  "call_inv i (Some (Returned (Inl e))) p sl \<longleftrightarrow>
     (e = IpcClosed \<or> e = IpcTimeout \<or> (\<exists>m. e = Malformed m)) \<and> \<not> p \<and> (case sl of Filled resp \<Rightarrow> rs_id resp = i | _ \<Rightarrow> True)"
  by (auto simp: call_inv_def)

lemma client_step_call_inv:
  assumes "client_step enc s s'" "call_inv i (cl_calls s i) (i \<in> cl_pending s) (cl_slots s i)"
  shows "call_inv i (cl_calls s' i) (i \<in> cl_pending s') (cl_slots s' i)"
  using assms
proof (cases rule: client_step.cases)
  case (Begin rq)
  then show ?thesis using assms(2) by (cases "i = rq_id rq") (auto simp: client_defs call_inv_simps split: sum.splits)
next
  case (Register j bytes)
  then show ?thesis using assms(2) by (cases "i = j") (auto simp: client_defs call_inv_simps)
next
  case (Send j bytes)
  then show ?thesis using assms(2) by (cases "i = j"; cases "cl_writing s") (auto simp: client_defs call_inv_simps)
next
  case (Wake j)
  then show ?thesis using assms(2) by (cases "i = j") (auto simp: client_defs call_inv_simps split: slot.splits)
next
  case (TimeOut j)
  then show ?thesis using assms(2) by (cases "i = j") (auto simp: client_defs call_inv_simps split: slot.splits)
next
  case (Receive f)
  then show ?thesis
    using assms(2) by (cases f) (auto simp: client_defs call_inv_def split: option.splits call_state.splits sum.splits)
next
  case Clear
  then show ?thesis using assms(2) by (auto simp: client_defs call_inv_def split: option.splits call_state.splits sum.splits)
qed (use assms(2) in \<open>auto simp: client_defs split: sum.splits list.splits option.splits\<close>)

lemma client_step_closed:
  assumes "client_step enc s s'" "cl_reader s = Reading \<or> cl_closed s"
  shows "cl_reader s' = Reading \<or> cl_closed s'"
  using assms by (cases rule: client_step.cases) (auto simp: client_defs split: sum.splits list.splits slot.splits option.splits server_frame.splits)

lemma reachable_inv: "reachable enc s \<Longrightarrow> client_inv s"
proof (induction rule: reachable.induct)
  case Start
  show ?case by (simp add: client_inv_def call_inv_def from_transport_def)
next
  case (Step s s')
  then show ?case using client_step_call_inv client_step_closed unfolding client_inv_def by blast
qed

lemmas reachable_call = reachable_inv [unfolded client_inv_def, THEN conjunct1, THEN spec]

section \<open>What a caller gets\<close>

lemma call_step_kept:
  assumes "client_step enc s s'" "cl_calls s i = Some (Returned r)"
  shows "cl_calls s' i = Some (Returned r)"
  using assms by (cases rule: client_step.cases) (auto simp: client_defs split: sum.splits slot.splits list.splits option.splits server_frame.splits)

text \<open>
  C29: In every reachable state a call that has returned has the reply with its own id, or one of three
  errors; it is no longer in the table, and no later step changes what it returned.
\<close>

theorem replies_reach_their_caller:
  assumes "reachable enc s" "cl_calls s i = Some (Returned r)"
  shows "(case r of Inr resp \<Rightarrow> rs_id resp = i | Inl e \<Rightarrow> e = IpcClosed \<or> e = IpcTimeout \<or> (\<exists>m. e = Malformed m))
      \<and> i \<notin> cl_pending s \<and> (\<nexists>s'. client_step enc s s' \<and> cl_calls s' i \<noteq> Some (Returned r))"
proof -
  have "call_inv i (Some (Returned r)) (i \<in> cl_pending s) (cl_slots s i)"
    using reachable_call [OF assms(1), of i] assms(2) by simp
  then show ?thesis using call_step_kept [OF _ assms(2)] by (auto simp: call_inv_def split: sum.splits)
qed

text \<open>
  C30: A waiting call can always end: its reply, or the end of the connection, wakes it, and otherwise its
  time runs out. Once the reader has dropped the waiting channels, each call then waiting has been
  answered or is told that the connection closed, without waiting for its time. A call waits, in this
  sense, once its frame is in the channel to the writer; before that it has no time limit.
\<close>

theorem waiting_calls_end:
  assumes "reachable enc s" "cl_calls s i = Some Waiting"
  shows "(case cl_slots s i of
            Empty \<Rightarrow> i \<in> cl_pending s \<and> cl_calls (time_out_call i s) i = Some (Returned (Inl IpcTimeout))
          | Filled resp \<Rightarrow> rs_id resp = i \<and> cl_calls (wake_call i s) i = Some (Returned (Inr resp))
          | Dropped \<Rightarrow> cl_calls (wake_call i s) i = Some (Returned (Inl IpcClosed)))
      \<and> cl_calls (wake_call i (reader_clears s)) i
          = Some (Returned (case cl_slots s i of Filled resp \<Rightarrow> Inr resp | _ \<Rightarrow> Inl IpcClosed))"
proof -
  have inv: "call_inv i (Some Waiting) (i \<in> cl_pending s) (cl_slots s i)"
    using reachable_call [OF assms(1), of i] assms(2) by simp
  show ?thesis using inv assms(2) by (cases "cl_slots s i") (auto simp: call_inv_def client_defs)
qed

text \<open>
  The check of the closed flag and the entry in the table are two steps. A caller between them when
  the reader clears the table enters afterwards, and then only its time wakes it.
\<close>

lemma orphan_waits_for_its_timeout:
  assumes "client_step enc s s'" "cl_reader s = Ended" "cl_calls s i = Some Waiting" "cl_slots s i = Empty"
    "cl_calls s' i \<noteq> Some (Returned (Inl IpcTimeout))"
  shows "cl_reader s' = Ended \<and> cl_calls s' i = Some Waiting \<and> cl_slots s' i = Empty"
  using assms
  by (cases rule: client_step.cases) (auto simp: client_defs split: sum.splits slot.splits list.splits option.splits server_frame.splits if_splits)

definition orphan_run :: "('j client_frame \<Rightarrow> str + str) \<Rightarrow> 'j request_frame \<Rightarrow> str \<Rightarrow> 'j client" where
  "orphan_run enc rq bytes =
     send_call (rq_id rq) bytes (register_call (rq_id rq) bytes (reader_clears (reader_stops (begin_call enc rq from_transport))))"

lemma late_registration_is_an_orphan:
  assumes "enc (Request rq) = Inr bytes"
  shows "reachable enc (orphan_run enc rq bytes) \<and> is_closed (orphan_run enc rq bytes)
      \<and> cl_reader (orphan_run enc rq bytes) = Ended \<and> cl_calls (orphan_run enc rq bytes) (rq_id rq) = Some Waiting
      \<and> cl_slots (orphan_run enc rq bytes) (rq_id rq) = Empty"
proof -
  note f = assms from_transport_def client_defs
  let ?s1 = "begin_call enc rq from_transport"
  have s1: "reachable enc ?s1" by (rule Step [OF Start Begin]) (simp add: from_transport_def)
  have s2: "reachable enc (reader_stops ?s1)" by (rule Step [OF s1 StopReading]) (simp add: f)
  have s3: "reachable enc (reader_clears (reader_stops ?s1))" by (rule Step [OF s2 Clear]) (simp add: f)
  have s4: "reachable enc (register_call (rq_id rq) bytes (reader_clears (reader_stops ?s1)))"
    by (rule Step [OF s3 Register]) (simp add: f)
  have "reachable enc (orphan_run enc rq bytes)"
    unfolding orphan_run_def by (rule Step [OF s4 Send]) (simp_all add: f channel_ready_def)
  then show ?thesis by (simp add: orphan_run_def f)
qed

text \<open>A request too long for a frame ends the writer, and with it the client for every caller.\<close>

lemma oversized_request_closes_the_client:
  assumes "cl_sending s = Some bytes" "max_frame_bytes < length bytes"
  shows "cl_calls (begin_call enc rq (writer_frame s)) (rq_id rq) = Some (Returned (Inl IpcClosed))"
  using assms by (simp add: client_defs write_frame_def)

text \<open>
  While the writer neither takes a frame nor stops, a call that has registered and finds the channel full
  stays where it is: no reply and no time limit ends its wait for room, though \<open>call_timeout\<close> is meant
  for the whole call.
\<close>

lemma full_channel_blocks:
  assumes "client_step enc s s'" "cl_calls s i = Some (Registered bytes)" "\<not> channel_ready s"
    "s' \<noteq> writer_takes s" "s' \<noteq> writer_frame s" "s' \<noteq> writer_stops s"
  shows "cl_calls s' i = Some (Registered bytes) \<and> \<not> channel_ready s'"
  using assms
  by (cases rule: client_step.cases)
    (auto simp: channel_ready_def begin_call_def register_call_def wake_call_def time_out_call_def reader_frame_def reader_stops_def
      reader_clears_def set_call_def split: sum.splits slot.splits server_frame.splits)

lemma channel_bound: "reachable enc s \<Longrightarrow> length (cl_outbound s) \<le> 256"
proof (induction rule: reachable.induct)
  case (Step s s')
  from Step.hyps(2) show ?case
    using Step.IH by cases (auto simp: client_defs channel_ready_def split: sum.splits slot.splits list.splits option.splits server_frame.splits)
qed (simp add: from_transport_def)

section \<open>A concrete run\<close>

definition plain_enc :: "nat client_frame \<Rightarrow> str + str" where
  "plain_enc f = Inr ''{}''"

definition first_request :: "nat request_frame" where
  "first_request =
     \<lparr>rq_v = protocol_version, rq_id = 7, rq_op = ''sys.ping'', rq_auth = from_role 1 Customer (ScCustomer 1) ''r'', rq_input = 0\<rparr>"

definition asked :: "nat client" where
  "asked = send_call 7 ''{}'' (register_call 7 ''{}'' (begin_call plain_enc first_request from_transport))"

definition answered :: "nat client" where
  "answered = wake_call 7 (reader_frame (Response (response_ok 7 5)) asked)"

lemmas run_defs = asked_def answered_def plain_enc_def first_request_def from_transport_def response_ok_def client_defs

lemma asked_reachable: "reachable plain_enc asked"
proof -
  have s1: "reachable plain_enc (begin_call plain_enc first_request from_transport)"
    by (rule Step [OF Start Begin]) (simp add: run_defs)
  have s2: "reachable plain_enc (register_call 7 ''{}'' (begin_call plain_enc first_request from_transport))"
    by (rule Step [OF s1 Register]) (simp add: run_defs)
  show ?thesis unfolding asked_def by (rule Step [OF s2 Send]) (simp_all add: run_defs channel_ready_def)
qed

lemma answered_reachable: "reachable plain_enc answered"
proof -
  have "reachable plain_enc (reader_frame (Response (response_ok 7 5)) asked)"
    by (rule Step [OF asked_reachable Receive]) (simp add: run_defs)
  then show ?thesis unfolding answered_def by (rule Step [OF _ Wake]) (simp add: run_defs)
qed

theorem replies_reach_their_caller_witness:
  "cl_calls answered 7 = Some (Returned (Inr (response_ok 7 5)))
   \<and> (\<nexists>s'. client_step plain_enc answered s' \<and> cl_calls s' 7 \<noteq> Some (Returned (Inr (response_ok 7 5))))"
proof -
  have r: "cl_calls answered 7 = Some (Returned (Inr (response_ok 7 5)))" by (simp add: run_defs)
  show ?thesis using replies_reach_their_caller [OF answered_reachable r] r by simp
qed

theorem waiting_calls_end_witness:
  "cl_calls (time_out_call 7 asked) 7 = Some (Returned (Inl IpcTimeout))
   \<and> cl_calls (wake_call 7 (reader_clears asked)) 7 = Some (Returned (Inl IpcClosed))"
proof -
  have w: "cl_calls asked 7 = Some Waiting" and e: "cl_slots asked 7 = Empty" by (simp_all add: run_defs)
  show ?thesis using waiting_calls_end [OF asked_reachable w] e by simp
qed

end
