(* ===== verification/Ip_Addr.thy ===== *)
theory Ip_Addr
  imports Bytes
begin

text \<open>
  Internet addresses as the standard library reads, prints and classifies them, and the address
  ranges of \<open>unihelm-ops/src/fwops.rs\<close> (\<open>canonical\<close>, \<open>parse_cidr\<close>, \<open>cidr_contains\<close>,
  \<open>prefix_matches\<close>). The lemmas show that an address reads back from its text, and that the
  byte-wise comparison of prefixes is the comparison of their leading bits where it does not panic.
\<close>

unbundle bit_operations_syntax

section \<open>Addresses\<close>

datatype ip_addr = V4 u32 | V6 "128 word"

text \<open>\<open>Ord\<close> of \<open>IpAddr\<close>: by variant, then by value.\<close>

instantiation ip_addr :: linorder
begin

fun less_eq_ip_addr :: "ip_addr \<Rightarrow> ip_addr \<Rightarrow> bool" where
  "less_eq_ip_addr (V4 a) (V4 b) = (a \<le> b)"
| "less_eq_ip_addr (V4 a) (V6 b) = True"
| "less_eq_ip_addr (V6 a) (V4 b) = False"
| "less_eq_ip_addr (V6 a) (V6 b) = (a \<le> b)"

definition less_ip_addr :: "ip_addr \<Rightarrow> ip_addr \<Rightarrow> bool" where
  "less_ip_addr a b \<longleftrightarrow> a \<le> b \<and> \<not> b \<le> a"

instance
proof
  fix x y z :: ip_addr
  show "x < y \<longleftrightarrow> x \<le> y \<and> \<not> y \<le> x" by (simp add: less_ip_addr_def)
  show "x \<le> x" by (cases x) simp_all
  show "x \<le> y \<Longrightarrow> y \<le> z \<Longrightarrow> x \<le> z" by (cases x; cases y; cases z) auto
  show "x \<le> y \<Longrightarrow> y \<le> x \<Longrightarrow> x = y" by (cases x; cases y) auto
  show "x \<le> y \<or> y \<le> x" by (cases x; cases y) auto
qed

end

text \<open>The digits of a number, most significant first.\<close>

fun be_digits :: "nat \<Rightarrow> nat \<Rightarrow> nat \<Rightarrow> nat list" where
  "be_digits base 0 n = []"
| "be_digits base (Suc k) n = be_digits base k (n div base) @ [n mod base]"

definition be_number :: "nat \<Rightarrow> nat list \<Rightarrow> nat" where
  "be_number base ds = foldl (\<lambda>acc d. base * acc + d) 0 ds"

fun octets :: "ip_addr \<Rightarrow> u8 list" where
  "octets (V4 a) = map of_nat (be_digits 256 4 (unat a))"
| "octets (V6 a) = map of_nat (be_digits 256 16 (unat a))"

fun is_ipv6 :: "ip_addr \<Rightarrow> bool" where
  "is_ipv6 (V4 _) = False"
| "is_ipv6 (V6 _) = True"

definition to_ipv4_mapped :: "128 word \<Rightarrow> u32 option" where
  "to_ipv4_mapped a = (if drop_bit 32 a = 0xFFFF then Some (ucast a) else None)"

fun is_loopback :: "ip_addr \<Rightarrow> bool" where
  "is_loopback (V4 a) = (drop_bit 24 a = 127)"
| "is_loopback (V6 a) = (a = 1)"

fun is_unspecified :: "ip_addr \<Rightarrow> bool" where
  "is_unspecified (V4 a) = (a = 0)"
| "is_unspecified (V6 a) = (a = 0)"

fun is_multicast :: "ip_addr \<Rightarrow> bool" where
  "is_multicast (V4 a) = (drop_bit 28 a = 14)"
| "is_multicast (V6 a) = (drop_bit 120 a = 255)"

fun is_broadcast :: "ip_addr \<Rightarrow> bool" where
  "is_broadcast (V4 a) = (a = - 1)"
| "is_broadcast (V6 a) = False"

section \<open>Reading an address\<close>

definition to_digit :: "nat \<Rightarrow> char \<Rightarrow> nat option" where
  "to_digit radix c =
     (let v = (if is_ascii_digit c then byte c - 48
               else if is_ascii_lowercase c then byte c - 97 + 10
               else if is_ascii_uppercase c then byte c - 65 + 10 else radix)
      in if v < radix then Some v else None)"

definition is_digit_of :: "nat \<Rightarrow> char \<Rightarrow> bool" where
  "is_digit_of radix c \<longleftrightarrow> to_digit radix c \<noteq> None"

definition read_char :: "char \<Rightarrow> str \<Rightarrow> str option" where
  "read_char c s = (case s of [] \<Rightarrow> None | x # xs \<Rightarrow> if x = c then Some xs else None)"

definition read_number :: "nat \<Rightarrow> nat \<Rightarrow> nat \<Rightarrow> bool \<Rightarrow> str \<Rightarrow> (nat \<times> str) option" where
  "read_number radix max_digits mx zero_prefix s =
     (let ds = takeWhile (is_digit_of radix) s;
          v = be_number radix (map (\<lambda>c. the (to_digit radix c)) ds)
      in if ds = [] \<or> max_digits < length ds \<or> \<not> zero_prefix \<and> hd ds = CHR ''0'' \<and> 1 < length ds \<or> mx < v then None
         else Some (v, dropWhile (is_digit_of radix) s))"

definition read_separator :: "bool \<Rightarrow> char \<Rightarrow> str \<Rightarrow> str option" where
  "read_separator first c s = (if first then Some s else read_char c s)"

fun read_octets :: "nat \<Rightarrow> bool \<Rightarrow> str \<Rightarrow> (nat list \<times> str) option" where
  "read_octets 0 first s = Some ([], s)"
| "read_octets (Suc n) first s =
     (case Option.bind (read_separator first CHR ''.'' s) (read_number 10 3 255 False) of
        None \<Rightarrow> None
      | Some (v, r) \<Rightarrow> map_option (\<lambda>(vs, r'). (v # vs, r')) (read_octets n False r))"

definition read_ipv4 :: "str \<Rightarrow> (nat list \<times> str) option" where
  "read_ipv4 s = read_octets 4 True s"

text \<open>Up to \<open>k\<close> groups; the flag says that an embedded version 4 address ended them.\<close>

fun read_groups :: "nat \<Rightarrow> bool \<Rightarrow> str \<Rightarrow> nat list \<times> bool \<times> str" where
  "read_groups 0 first s = ([], False, s)"
| "read_groups (Suc k) first s =
     (case (if k = 0 then None else Option.bind (read_separator first CHR '':'' s) read_ipv4) of
        Some (os, r) \<Rightarrow> ([be_number 256 (take 2 os), be_number 256 (drop 2 os)], True, r)
      | None \<Rightarrow>
          (case Option.bind (read_separator first CHR '':'' s) (read_number 16 4 65535 True) of
             None \<Rightarrow> ([], False, s)
           | Some (g, r) \<Rightarrow> (case read_groups k False r of (gs, v4, r') \<Rightarrow> (g # gs, v4, r'))))"

definition read_ipv6 :: "str \<Rightarrow> (nat list \<times> str) option" where
  "read_ipv6 s =
     (case read_groups 8 True s of
        (front, v4, r) \<Rightarrow>
          if length front = 8 then Some (front, r)
          else if v4 then None
          else case strip_prefix ''::'' r of
            None \<Rightarrow> None
          | Some r1 \<Rightarrow>
              (case read_groups (8 - (length front + 1)) True r1 of
                 (rear, _, r2) \<Rightarrow> Some (front @ replicate (8 - length front - length rear) 0 @ rear, r2)))"

definition parse_ip :: "str \<Rightarrow> ip_addr option" where
  "parse_ip s =
     (case (case read_ipv4 s of
              Some (os, r) \<Rightarrow> Some (V4 (of_nat (be_number 256 os)), r)
            | None \<Rightarrow> map_option (\<lambda>(gs, r). (V6 (of_nat (be_number 65536 gs)), r)) (read_ipv6 s)) of
        Some (ip, []) \<Rightarrow> Some ip
      | _ \<Rightarrow> None)"

section \<open>Printing an address\<close>

definition hex_digit :: "nat \<Rightarrow> char" where
  "hex_digit d = (if d < 10 then digit_char d else char_of (87 + d))"

fun show_hex :: "nat \<Rightarrow> str" where
  "show_hex n = (if n < 16 then [hex_digit n] else show_hex (n div 16) @ [hex_digit (n mod 16)])"

declare show_hex.simps [simp del]

definition show_ipv4 :: "u32 \<Rightarrow> str" where
  "show_ipv4 a = str_join ''.'' (map show_nat (be_digits 256 4 (unat a)))"

definition more_groups :: "nat list \<Rightarrow> str" where
  "more_groups gs = concat (map (\<lambda>g. CHR '':'' # show_hex g) gs)"

fun show_groups :: "nat list \<Rightarrow> str" where
  "show_groups [] = []"
| "show_groups (g # gs) = show_hex g @ more_groups gs"

text \<open>The first longest run of zero groups, as its start and length.\<close>

fun zero_run :: "nat \<Rightarrow> nat \<times> nat \<Rightarrow> nat \<times> nat \<Rightarrow> nat list \<Rightarrow> nat \<times> nat" where
  "zero_run i longest run [] = longest"
| "zero_run i longest run (g # gs) =
     (if g = 0 then
        let run' = (if snd run = 0 then (i, 1) else (fst run, snd run + 1)) in
        zero_run (i + 1) (if snd longest < snd run' then run' else longest) run' gs
      else zero_run (i + 1) longest (0, 0) gs)"

definition show_ipv6 :: "128 word \<Rightarrow> str" where
  "show_ipv6 a =
     (case to_ipv4_mapped a of
        Some b \<Rightarrow> ''::ffff:'' @ show_ipv4 b
      | None \<Rightarrow>
          (let gs = be_digits 65536 8 (unat a); (start, len) = zero_run 0 (0, 0) (0, 0) gs in
           if 1 < len then show_groups (take start gs) @ ''::'' @ show_groups (drop (start + len) gs)
           else show_groups gs))"

fun show_ip :: "ip_addr \<Rightarrow> str" where
  "show_ip (V4 a) = show_ipv4 a"
| "show_ip (V6 a) = show_ipv6 a"

section \<open>Ranges\<close>

fun canonical :: "ip_addr \<Rightarrow> ip_addr" where
  "canonical (V6 a) = (case to_ipv4_mapped a of Some b \<Rightarrow> V4 b | None \<Rightarrow> V6 a)"
| "canonical (V4 a) = V4 a"

definition parse_cidr :: "str \<Rightarrow> (ip_addr \<times> nat) option" where
  "parse_cidr text =
     (let (addr, prefix_text) = (case split_once CHR ''/'' text of Some (a, p) \<Rightarrow> (a, Some p) | None \<Rightarrow> (text, None)) in
      case parse_ip (str_trim addr) of
        None \<Rightarrow> None
      | Some ip \<Rightarrow>
          let mx = (if is_ipv6 ip then 128 else 32) in
          case prefix_text of
            None \<Rightarrow> Some (canonical ip, mx)
          | Some p \<Rightarrow>
              (case parse_unsigned 255 (str_trim p) of
                 None \<Rightarrow> None
               | Some len \<Rightarrow> if mx < len then None else Some (canonical ip, len)))"

text \<open>Slicing or indexing past the end panics: \<open>None\<close>.\<close>

definition prefix_matches :: "u8 list \<Rightarrow> u8 list \<Rightarrow> nat \<Rightarrow> bool option" where
  "prefix_matches network addr len =
     (let whole = len div 8; bits = len mod 8 in
      if length network < whole \<or> length addr < whole then None
      else if take whole network \<noteq> take whole addr then Some False
      else if bits = 0 then Some True
      else if length network \<le> whole \<or> length addr \<le> whole then None
      else let m = push_bit (8 - bits) 0xFF :: u8 in Some (network ! whole AND m = addr ! whole AND m))"

definition cidr_contains :: "str \<Rightarrow> ip_addr \<Rightarrow> bool option" where
  "cidr_contains cidr ip =
     (case parse_cidr cidr of
        None \<Rightarrow> Some False
      | Some (network, len) \<Rightarrow>
          (case (network, canonical ip) of
             (V4 n, V4 a) \<Rightarrow> prefix_matches (octets (V4 n)) (octets (V4 a)) len
           | (V6 n, V6 a) \<Rightarrow> prefix_matches (octets (V6 n)) (octets (V6 a)) len
           | _ \<Rightarrow> Some False))"

section \<open>Digits\<close>

lemma length_be_digits [simp]: "length (be_digits b k n) = k"
  by (induction k arbitrary: n) simp_all

lemma be_number_snoc [simp]: "be_number b (ds @ [d]) = b * be_number b ds + d"
  by (simp add: be_number_def)

lemma be_number_digits: "be_number b (be_digits b k n) = n mod b ^ k"
  by (induction k arbitrary: n) (simp_all add: mod_mult2_eq, simp add: be_number_def)

lemma be_digits_less: "0 < b \<Longrightarrow> d \<in> set (be_digits b k n) \<Longrightarrow> d < b"
  by (induction k arbitrary: n) auto

lemma be_digits_split: "be_digits b (j + k) n = be_digits b j (n div b ^ k) @ be_digits b k n"
proof (induction k arbitrary: n)
  case (Suc k)
  have "be_digits b (j + Suc k) n = be_digits b j (n div b div b ^ k) @ be_digits b k (n div b) @ [n mod b]"
    using Suc [of "n div b"] by simp
  then show ?case by (simp add: div_mult2_eq)
qed simp

lemma be_digits_eq_iff: "be_digits b k n = be_digits b k m \<longleftrightarrow> n mod b ^ k = m mod b ^ k"
proof
  assume "be_digits b k n = be_digits b k m"
  then show "n mod b ^ k = m mod b ^ k" using be_number_digits by metis
next
  have mod_digits: "be_digits b k (n mod b ^ k) = be_digits b k n" for n
  proof (induction k arbitrary: n)
    case (Suc k)
    have "n mod b ^ Suc k div b = n div b mod b ^ k" by (cases "b = 0") (simp_all add: mod_mult2_eq)
    moreover have "n mod b ^ Suc k mod b = n mod b" by (simp add: mod_mult2_eq)
    ultimately show ?case using Suc [of "n div b"] by simp
  qed simp
  assume "n mod b ^ k = m mod b ^ k"
  then show "be_digits b k n = be_digits b k m" using mod_digits by metis
qed

definition octet_list :: "nat \<Rightarrow> nat \<Rightarrow> u8 list" where
  "octet_list k n = map of_nat (be_digits 256 k n)"

lemma octets_list: "octets (V4 a) = octet_list 4 (unat a)" "octets (V6 b) = octet_list 16 (unat b)"
  by (simp_all add: octet_list_def)

lemma length_octet_list [simp]: "length (octet_list k n) = k"
  by (simp add: octet_list_def)

lemma octet_list_eq_iff: "octet_list k n = octet_list k m \<longleftrightarrow> n mod 256 ^ k = m mod 256 ^ k"
proof -
  have "inj_on (of_nat :: nat \<Rightarrow> u8) {..< 256}"
    by (rule inj_onI) (auto simp: word_of_nat_eq_iff take_bit_eq_mod)
  moreover have "set (be_digits 256 k n) \<union> set (be_digits 256 k m) \<subseteq> {..< 256}" using be_digits_less [of 256] by auto
  ultimately have "octet_list k n = octet_list k m \<longleftrightarrow> be_digits 256 k n = be_digits 256 k m"
    unfolding octet_list_def by (intro inj_on_map_eq_map) (rule inj_on_subset)
  then show ?thesis by (simp add: be_digits_eq_iff)
qed

lemma take_octet_list: "w \<le> k \<Longrightarrow> take w (octet_list k n) = octet_list w (n div 256 ^ (k - w))"
  using be_digits_split [of 256 w "k - w" n] by (simp add: octet_list_def take_map)

lemma nth_octet_list:
  assumes "w < k"
  shows "octet_list k n ! w = of_nat (n div 256 ^ (k - w - 1) mod 256)"
proof -
  have "octet_list k n ! w = take (w + 1) (octet_list k n) ! w" by simp
  also have "\<dots> = octet_list (w + 1) (n div 256 ^ (k - (w + 1))) ! w" using assms by (simp add: take_octet_list)
  finally show ?thesis by (simp add: octet_list_def nth_append)
qed

lemma drop_bit_word_eq_iff:
  fixes x y :: "'a::len word"
  shows "drop_bit s x = drop_bit s y \<longleftrightarrow> unat x div 2 ^ s = unat y div 2 ^ s"
  by (simp only: word_unat_eq_iff unat_drop_bit_eq drop_bit_eq_div [where 'a = nat])

lemma masked_eq_iff:
  fixes x y :: u8
  assumes "s \<le> 8"
  shows "x AND push_bit s 0xFF = y AND push_bit s 0xFF \<longleftrightarrow> unat x div 2 ^ s = unat y div 2 ^ s"
proof -
  have all: "(0xFF :: u8) = - 1" by simp
  have low: "z AND push_bit s (- 1) = push_bit s (drop_bit s z)" for z :: u8
    by (rule bit_eqI) (auto simp: bit_simps)
  have high: "drop_bit s (z AND push_bit s (- 1)) = drop_bit s z" for z :: u8
    by (rule bit_eqI) (auto simp: bit_simps dest: bit_imp_le_length)
  have "x AND push_bit s 0xFF = y AND push_bit s 0xFF \<longleftrightarrow> drop_bit s x = drop_bit s y"
    unfolding all using low high by metis
  then show ?thesis by (simp only: drop_bit_word_eq_iff)
qed

lemma leading_bits_step:
  fixes n m :: nat
  assumes "s \<le> 8"
  shows "n div 256 = m div 256 \<and> n mod 256 div 2 ^ s = m mod 256 div 2 ^ s \<longleftrightarrow> n div 2 ^ s = m div 2 ^ s"
proof -
  have p: "(256 :: nat) = 2 ^ s * 2 ^ (8 - s)" using assms by (simp flip: power_add)
  have hi: "n div 256 = n div 2 ^ s div 2 ^ (8 - s)" for n :: nat by (simp add: p div_mult2_eq)
  have lo: "n mod 256 div 2 ^ s = n div 2 ^ s mod 2 ^ (8 - s)" for n :: nat by (simp add: p mod_mult2_eq)
  show ?thesis unfolding hi lo by (metis div_mult_mod_eq)
qed

lemma prefix_matches_octets:
  assumes "n < 256 ^ k" "m < 256 ^ k" "len \<le> 8 * k"
  shows "prefix_matches (octet_list k n) (octet_list k m) len = Some (n div 2 ^ (8 * k - len) = m div 2 ^ (8 * k - len))"
proof -
  define w where "w = len div 8"
  define bits where "bits = len mod 8"
  have len: "len = 8 * w + bits" and bits: "bits < 8" by (simp_all add: w_def bits_def)
  have w: "w \<le> k" using assms(3) len by simp
  have whole: "take w (octet_list k n) = take w (octet_list k m) \<longleftrightarrow> n div 256 ^ (k - w) = m div 256 ^ (k - w)"
  proof -
    have "x div 256 ^ (k - w) < 256 ^ w" if "x < 256 ^ k" for x :: nat
      using that w by (simp add: less_mult_imp_div_less flip: power_add)
    then show ?thesis using assms(1,2) w by (simp add: take_octet_list octet_list_eq_iff)
  qed
  show ?thesis
  proof (cases "bits = 0")
    case True
    have "(256 :: nat) ^ (k - w) = (2 ^ 8) ^ (k - w)" by simp
    then have "(256 :: nat) ^ (k - w) = 2 ^ (8 * k - len)" using True len by (simp only: diff_mult_distrib2 add_0_right flip: power_mult)
    then show ?thesis
      unfolding prefix_matches_def Let_def w_def [symmetric] bits_def [symmetric] using w whole True by simp
  next
    case False
    have lt: "w < k" using False len assms(3) by simp
    define q where "q = k - w - 1"
    have d: "8 * k - len = 8 * q + (8 - bits)" using lt len bits by (simp add: q_def)
    have "k - w = q + 1" using lt by (simp add: q_def)
    then have hi: "x div 256 ^ (k - w) = x div 256 ^ q div 256" for x :: nat by (simp add: mult.commute flip: div_mult2_eq)
    have lo: "(octet_list k n ! w AND push_bit (8 - bits) 0xFF = octet_list k m ! w AND push_bit (8 - bits) 0xFF)
        \<longleftrightarrow> n div 256 ^ q mod 256 div 2 ^ (8 - bits) = m div 256 ^ q mod 256 div 2 ^ (8 - bits)"
      using lt by (simp add: nth_octet_list masked_eq_iff q_def unat_of_nat)
    have all: "x div 2 ^ (8 * k - len) = x div 256 ^ q div 2 ^ (8 - bits)" for x :: nat
      unfolding d by (simp add: power_add div_mult2_eq power_mult)
    show ?thesis
      unfolding prefix_matches_def Let_def w_def [symmetric] bits_def [symmetric]
      using w lt whole lo False leading_bits_step [of "8 - bits" "n div 256 ^ q" "m div 256 ^ q"] by (simp add: hi all) blast
  qed
qed

section \<open>Ranges compare leading bits\<close>

lemma parse_cidr_length: "parse_cidr c = Some (net, len) \<Longrightarrow> len \<le> 128"
  by (auto simp: parse_cidr_def Let_def split: option.splits if_splits prod.splits)

lemma octets_below: "unat (a :: u32) < 256 ^ 4" "unat (b :: 128 word) < 256 ^ 16"
  using unsigned_less [of a] unsigned_less [of b] by simp_all

lemma prefix_matches_words:
  "len \<le> 32 \<Longrightarrow> prefix_matches (octets (V4 n)) (octets (V4 a)) len = Some (drop_bit (32 - len) n = drop_bit (32 - len) a)"
  "len \<le> 128 \<Longrightarrow> prefix_matches (octets (V6 n')) (octets (V6 a')) len = Some (drop_bit (128 - len) n' = drop_bit (128 - len) a')"
  using prefix_matches_octets [OF octets_below(1) octets_below(1), of len n a]
    prefix_matches_octets [OF octets_below(2) octets_below(2), of len n' a']
  by (simp_all only: octets_list drop_bit_word_eq_iff) simp_all

lemma prefix_matches_long:
  assumes "32 < len"
  shows "prefix_matches (octets (V4 n)) (octets (V4 a)) len = (if len < 40 \<and> n \<noteq> a then Some False else None)"
proof -
  have "octets (V4 n) = octets (V4 a) \<longleftrightarrow> n = a"
    using octets_below(1) [of n] octets_below(1) [of a] by (simp only: octets_list octet_list_eq_iff word_unat_eq_iff) simp
  moreover have "4 \<le> len div 8" "len < 40 \<Longrightarrow> len div 8 = 4" "len < 40 \<Longrightarrow> len mod 8 \<noteq> 0" "40 \<le> len \<Longrightarrow> 5 \<le> len div 8"
    using assms by presburger+
  moreover have "length (octets (V4 n)) = 4" "length (octets (V4 a)) = 4" by (simp_all only: octets_list length_octet_list)
  ultimately show ?thesis by (cases "len < 40") (auto simp: prefix_matches_def Let_def simp del: octets.simps)
qed

text \<open>
  C24: An entry that reads as a network of the address's family, no longer than an address of that family,
  covers an address exactly when their leading bits agree; an entry that does not read covers nothing,
  and neither does one of the other family.
\<close>

theorem ranges_are_leading_bits:
  "cidr_contains c ip =
     (case parse_cidr c of
        None \<Rightarrow> Some False
      | Some (net, len) \<Rightarrow>
          (case (net, canonical ip) of
             (V4 n, V4 a) \<Rightarrow> if len \<le> 32 then Some (drop_bit (32 - len) n = drop_bit (32 - len) a)
                else if len < 40 \<and> n \<noteq> a then Some False else None
           | (V6 n, V6 a) \<Rightarrow> Some (drop_bit (128 - len) n = drop_bit (128 - len) a)
           | _ \<Rightarrow> Some False))"
  unfolding cidr_contains_def
  by (auto simp: prefix_matches_words prefix_matches_long parse_cidr_length simp del: octets.simps
      split: option.splits prod.splits ip_addr.splits)

section \<open>Addresses read back\<close>

lemma byte_digit_char: "d < 10 \<Longrightarrow> byte (digit_char d) = 48 + d"
  by (simp add: digit_char_def byte_char_of)

lemma to_digit_hex_digit: "d < 16 \<Longrightarrow> to_digit 16 (hex_digit d) = Some d"
  by (auto simp: to_digit_def hex_digit_def ascii_defs byte_digit_char byte_char_of Let_def)

lemma to_digit_ten: "to_digit 10 c = (if is_ascii_digit c then Some (digit_val c) else None)"
  by (auto simp: to_digit_def ascii_defs digit_val_def Let_def)

lemma digit_of_ten: "is_digit_of 10 c \<longleftrightarrow> is_ascii_digit c"
  by (simp add: is_digit_of_def to_digit_ten)

definition stops :: "nat \<Rightarrow> str \<Rightarrow> bool" where
  "stops radix r \<longleftrightarrow> r = [] \<or> \<not> is_digit_of radix (hd r)"

lemma stops_cases [simp]: "stops radix []" "stops 10 (CHR ''.'' # r)" "stops 10 (CHR '':'' # r)" "stops 16 (CHR '':'' # r)"
  by (simp_all add: stops_def is_digit_of_def to_digit_def ascii_defs byte_def)

lemma read_number_digits:
  assumes "stops radix r" "list_all (is_digit_of radix) ds" "ds \<noteq> []" "length ds \<le> max_digits"
    "be_number radix (map (\<lambda>c. the (to_digit radix c)) ds) = v" "v \<le> mx" "zero_prefix \<or> length ds = 1 \<or> hd ds \<noteq> CHR ''0''"
  shows "read_number radix max_digits mx zero_prefix (ds @ r) = Some (v, r)"
proof -
  have "takeWhile (is_digit_of radix) r = []" "dropWhile (is_digit_of radix) r = r"
    using assms(1) by (cases r; simp add: stops_def)+
  then have "takeWhile (is_digit_of radix) (ds @ r) = ds" "dropWhile (is_digit_of radix) (ds @ r) = r"
    using assms(2) by (simp_all add: takeWhile_append2 dropWhile_append2 list_all_iff)
  then show ?thesis using assms(3-7) by (auto simp: read_number_def)
qed

lemma length_show_nat: "0 < k \<Longrightarrow> n < 10 ^ k \<Longrightarrow> length (show_nat n) \<le> k"
proof (induction k arbitrary: n)
  case (Suc k)
  then show ?case by (cases "n < 10"; cases k) (simp_all add: show_nat.simps [of n])
qed simp

lemma hd_show_nat: "0 < n \<Longrightarrow> hd (show_nat n) \<noteq> CHR ''0''"
proof (induction n rule: show_nat.induct)
  case (1 n)
  have "digit_char n \<noteq> CHR ''0''" if "n < 10"
  proof -
    have "byte (digit_char n) \<noteq> byte CHR ''0''" using that 1(2) by (simp add: byte_digit_char) (simp add: byte_def)
    then show ?thesis by auto
  qed
  then show ?case using 1 by (cases "n < 10") (simp_all add: show_nat.simps [of n])
qed

lemma read_number_show_nat:
  assumes "stops 10 r" "n < 256"
  shows "read_number 10 3 255 False (show_nat n @ r) = Some (n, r)"
proof (rule read_number_digits [OF assms(1)])
  show all: "list_all (is_digit_of 10) (show_nat n)" using show_nat_digits [of n] by (simp add: digit_of_ten list_all_iff)
  have "map (\<lambda>c. the (to_digit 10 c)) (show_nat n) = map digit_val (show_nat n)"
    using show_nat_digits [of n] by (auto simp: to_digit_ten list_all_iff)
  then have "be_number 10 (map (\<lambda>c. the (to_digit 10 c)) (show_nat n)) = be_number 10 (map digit_val (show_nat n))"
    by (simp only:)
  then have "be_number 10 (map (\<lambda>c. the (to_digit 10 c)) (show_nat n)) = digits_value (show_nat n)"
    unfolding digits_value_def by (simp add: be_number_def foldl_map)
  then show "be_number 10 (map (\<lambda>c. the (to_digit 10 c)) (show_nat n)) = n" by simp
  show "length (show_nat n) \<le> 3" by (rule length_show_nat) (use assms(2) in simp_all)
  show "False \<or> length (show_nat n) = 1 \<or> hd (show_nat n) \<noteq> CHR ''0''"
    using hd_show_nat [of n] by (cases "n = 0") (simp_all add: show_nat.simps [of 0])
qed (use assms(2) in simp_all)

lemma show_hex_nonempty [simp]: "show_hex n \<noteq> []"
  by (subst show_hex.simps) simp

lemma length_show_hex: "0 < k \<Longrightarrow> n < 16 ^ k \<Longrightarrow> length (show_hex n) \<le> k"
proof (induction k arbitrary: n)
  case (Suc k)
  then show ?case by (cases "n < 16"; cases k) (simp_all add: show_hex.simps [of n])
qed simp

lemma show_hex_digits:
  "list_all (is_digit_of 16) (show_hex n) \<and> be_number 16 (map (\<lambda>c. the (to_digit 16 c)) (show_hex n)) = n"
proof (induction n rule: show_hex.induct)
  case (1 n)
  show ?case
  proof (cases "n < 16")
    case True
    then show ?thesis by (simp add: show_hex.simps [of n] is_digit_of_def to_digit_hex_digit be_number_def)
  next
    case False
    then show ?thesis using 1 by (simp add: show_hex.simps [of n] is_digit_of_def to_digit_hex_digit)
  qed
qed

lemma read_number_show_hex: "stops 16 r \<Longrightarrow> n < 65536 \<Longrightarrow> read_number 16 4 65535 True (show_hex n @ r) = Some (n, r)"
  by (rule read_number_digits) (use show_hex_digits [of n] length_show_hex [of 4 n] in simp_all)

lemma read_octets_show:
  assumes "stops 10 r" "list_all (\<lambda>d. d < 256) ds"
  shows "read_octets (length ds) False (concat (map (\<lambda>d. CHR ''.'' # show_nat d) ds) @ r) = Some (ds, r)"
  using assms(2)
proof (induction ds)
  case (Cons d ds)
  have "stops 10 (concat (map (\<lambda>d. CHR ''.'' # show_nat d) ds) @ r)" using assms(1) by (cases ds) simp_all
  then show ?case using Cons by (simp add: read_separator_def read_char_def read_number_show_nat)
qed simp

lemma read_ipv4_step:
  "read_ipv4 s =
     (case read_number 10 3 255 False s of
        None \<Rightarrow> None
      | Some (v, r) \<Rightarrow> map_option (\<lambda>(vs, r'). (v # vs, r')) (read_octets 3 False r))"
proof -
  have four: "4 = Suc 3" by simp
  show ?thesis unfolding read_ipv4_def four read_octets.simps by (simp add: read_separator_def)
qed

lemma read_ipv4_show: "stops 10 r \<Longrightarrow> read_ipv4 (show_ipv4 a @ r) = Some (be_digits 256 4 (unat a), r)"
proof -
  assume r: "stops 10 r"
  have "length (be_digits 256 4 (unat a)) = Suc (Suc (Suc (Suc 0)))" by simp
  then obtain p q u v where ds: "be_digits 256 4 (unat a) = [p, q, u, v]"
    unfolding length_Suc_conv length_0_conv by blast
  have lt: "p < 256" "q < 256" "u < 256" "v < 256" using be_digits_less [of 256 _ 4 "unat a"] by (simp_all add: ds)
  let ?rest = "concat (map (\<lambda>d. CHR ''.'' # show_nat d) [q, u, v]) @ r"
  have "read_octets 3 False ?rest = Some ([q, u, v], r)"
    using read_octets_show [OF r, of "[q, u, v]"] lt by (simp add: numeral_3_eq_3)
  moreover have "read_number 10 3 255 False (show_nat p @ ?rest) = Some (p, ?rest)"
    by (rule read_number_show_nat) (use lt in simp_all)
  moreover have "show_ipv4 a @ r = show_nat p @ ?rest" by (simp add: show_ipv4_def ds)
  ultimately show ?thesis by (simp add: read_ipv4_step ds)
qed

lemma read_ipv4_needs_dot:
  assumes "dropWhile is_ascii_digit s = [] \<or> hd (dropWhile is_ascii_digit s) \<noteq> CHR ''.''"
  shows "read_ipv4 s = None"
proof -
  have three: "3 = Suc 2" by simp
  have dots: "read_octets 3 False r = None" if "r = [] \<or> hd r \<noteq> CHR ''.''" for r
    unfolding three read_octets.simps using that by (cases r) (simp_all add: read_separator_def read_char_def)
  have "r = dropWhile is_ascii_digit s" if "read_number 10 3 255 False s = Some (v, r)" for v r
    using that by (simp add: read_number_def Let_def digit_of_ten [abs_def] split: if_splits)
  then show ?thesis using dots assms by (auto simp: read_ipv4_step split: option.splits)
qed

lemma no_dot_not_ipv4: "CHR ''.'' \<notin> set s \<Longrightarrow> read_ipv4 s = None"
  by (rule read_ipv4_needs_dot) (metis hd_in_set set_dropWhileD)

lemma hex_no_dot: "CHR ''.'' \<notin> set (show_hex n)" "CHR '':'' \<notin> set (show_hex n)"
  using show_hex_digits [of n] by (auto simp: list_all_iff is_digit_of_def to_digit_def ascii_defs byte_def)

lemma hex_not_ipv4: "r = [] \<or> hd r = CHR '':'' \<Longrightarrow> read_ipv4 (show_hex n @ r) = None"
proof (rule read_ipv4_needs_dot)
  assume r: "r = [] \<or> hd r = CHR '':''"
  have "dropWhile is_ascii_digit r = r" using r by (cases r) (auto simp: ascii_defs byte_def)
  moreover have "hd (dropWhile is_ascii_digit (show_hex n)) \<noteq> CHR ''.''" if "dropWhile is_ascii_digit (show_hex n) \<noteq> []"
    using hex_no_dot(1) [of n] hd_in_set [OF that] set_dropWhileD by metis
  moreover have "dropWhile is_ascii_digit (show_hex n @ r) =
      (if dropWhile is_ascii_digit (show_hex n) = [] then dropWhile is_ascii_digit r else dropWhile is_ascii_digit (show_hex n) @ r)"
    by (simp add: dropWhile_append)
  ultimately show "dropWhile is_ascii_digit (show_hex n @ r) = [] \<or> hd (dropWhile is_ascii_digit (show_hex n @ r)) \<noteq> CHR ''.''"
    using r by auto
qed

section \<open>Groups\<close>

definition groups_text :: "bool \<Rightarrow> nat list \<Rightarrow> str" where
  "groups_text first gs = (if first then show_groups gs else more_groups gs)"

lemma more_groups_simps [simp]: "more_groups [] = []" "more_groups (g # gs) = CHR '':'' # show_hex g @ more_groups gs"
  by (simp_all add: more_groups_def)

lemma read_group_step:
  assumes "r = [] \<or> hd r = CHR '':''" "g < 65536" "read_groups k False r = (gs, v4, r')"
  shows "read_groups (Suc k) first ((if first then [] else [CHR '':'']) @ show_hex g @ r) = (g # gs, v4, r')"
proof -
  have "stops 16 r" using assms(1) by (cases r) auto
  then have "read_number 16 4 65535 True (show_hex g @ r) = Some (g, r)" using assms(2) by (rule read_number_show_hex)
  moreover have "read_ipv4 (show_hex g @ r) = None" using assms(1) by (rule hex_not_ipv4)
  ultimately show ?thesis using assms(3) by (cases first; cases "k = 0") (simp_all add: read_separator_def read_char_def)
qed

lemma read_groups_stops: "read_groups k False [] = ([], False, [])" "read_groups k True [] = ([], False, [])"
  "read_groups k first (CHR '':'' # CHR '':'' # r) = ([], False, CHR '':'' # CHR '':'' # r)"
proof -
  have none: "read_number 16 4 65535 True [] = None" "read_number 16 4 65535 True (CHR '':'' # x) = None" for x
    by (simp_all add: read_number_def is_digit_of_def to_digit_def ascii_defs byte_def)
  have "read_ipv4 [] = None" "read_ipv4 (CHR '':'' # x) = None" for x
    by (rule read_ipv4_needs_dot; simp add: ascii_defs byte_def)+
  then show "read_groups k False [] = ([], False, [])" "read_groups k True [] = ([], False, [])"
    "read_groups k first (CHR '':'' # CHR '':'' # r) = ([], False, CHR '':'' # CHR '':'' # r)"
    using none by (cases k; cases first; simp add: read_separator_def read_char_def)+
qed

lemma more_groups_start: "r = [] \<or> hd r = CHR '':'' \<Longrightarrow> more_groups gs @ r = [] \<or> hd (more_groups gs @ r) = CHR '':''"
  by (cases gs) simp_all

lemma read_groups_text:
  assumes "r = [] \<or> (\<exists>x. r = CHR '':'' # CHR '':'' # x)" "list_all (\<lambda>g. g < 65536) gs" "length gs \<le> k"
  shows "read_groups k first (groups_text first gs @ r) = (gs, False, r)"
  using assms(2,3)
proof (induction gs arbitrary: k first)
  case Nil
  then show ?case using assms(1) read_groups_stops by (cases first) (auto simp: groups_text_def)
next
  case (Cons g gs)
  then obtain k' where k: "k = Suc k'" by (cases k) auto
  have "read_groups k' False (more_groups gs @ r) = (gs, False, r)"
    using Cons.IH [of k' False] Cons.prems k by (simp add: groups_text_def)
  moreover have "more_groups gs @ r = [] \<or> hd (more_groups gs @ r) = CHR '':''"
    using assms(1) by (intro more_groups_start) auto
  ultimately show ?case
    using read_group_step [of "more_groups gs @ r" g k' gs False r first] Cons.prems by (cases first) (simp_all add: k groups_text_def)
qed

section \<open>The run of zeros\<close>

definition zeros_at :: "nat list \<Rightarrow> nat \<times> nat \<Rightarrow> bool" where
  "zeros_at gs run \<longleftrightarrow> fst run + snd run \<le> length gs \<and> (\<forall>j < snd run. gs ! (fst run + j) = 0)"

lemma zeros_at_append: "zeros_at gs run \<Longrightarrow> zeros_at (gs @ hs) run"
  by (auto simp: zeros_at_def nth_append)

lemma zero_run_valid:
  assumes "zeros_at front longest" "zeros_at front run" "snd run = 0 \<or> fst run + snd run = length front"
  shows "zeros_at (front @ gs) (zero_run (length front) longest run gs)"
  using assms
proof (induction gs arbitrary: front longest run)
  case (Cons g gs)
  show ?case
  proof (cases "g = 0")
    case True
    let ?run = "if snd run = 0 then (length front, 1) else (fst run, snd run + 1)"
    have "zeros_at (front @ [g]) ?run" using Cons.prems True by (auto simp: zeros_at_def nth_append less_Suc_eq)
    moreover have "zeros_at (front @ [g]) longest" using Cons.prems(1) by (rule zeros_at_append)
    ultimately show ?thesis
      using Cons.IH [of "front @ [g]" "if snd longest < snd ?run then ?run else longest" ?run] Cons.prems(3) True
      by (auto simp: Let_def split: if_splits)
  next
    case False
    have "zeros_at (front @ [g]) (0, 0)" by (simp add: zeros_at_def)
    moreover have "zeros_at (front @ [g]) longest" using Cons.prems(1) by (rule zeros_at_append)
    ultimately show ?thesis using Cons.IH [of "front @ [g]" longest "(0, 0)"] False by simp
  qed
qed (simp add: assms)

lemma zero_run_split:
  assumes "zero_run 0 (0, 0) (0, 0) gs = (start, len)"
  shows "gs = take start gs @ replicate len 0 @ drop (start + len) gs \<and> start + len \<le> length gs"
proof -
  have z: "zeros_at gs (start, len)" using zero_run_valid [of "[]" "(0, 0)" "(0, 0)" gs] assms by (simp add: zeros_at_def)
  then have "take len (drop start gs) = replicate len 0" by (intro nth_equalityI) (auto simp: zeros_at_def)
  then have "gs = take start gs @ replicate len 0 @ drop len (drop start gs)" by (metis append_take_drop_id)
  then show ?thesis using z by (simp add: zeros_at_def add.commute)
qed

section \<open>The round trip\<close>

lemma groups_of_word:
  fixes a :: "128 word"
  shows "be_number 65536 (be_digits 65536 8 (unat a)) = unat a" "list_all (\<lambda>g. g < 65536) (be_digits 65536 8 (unat a))"
proof -
  have "unat a < 65536 ^ 8" using unsigned_less [of a] by simp
  then show "be_number 65536 (be_digits 65536 8 (unat a)) = unat a" by (simp only: be_number_digits mod_less)
  show "list_all (\<lambda>g. g < 65536) (be_digits 65536 8 (unat a))" using be_digits_less [of 65536] by (auto simp: list_all_iff)
qed

lemma groups_no_dot: "CHR ''.'' \<notin> set (show_groups gs)"
  using hex_no_dot(1) by (cases gs) (auto simp: more_groups_def)

lemma read_ipv6_full:
  assumes "list_all (\<lambda>g. g < 65536) gs" "length gs = 8"
  shows "read_ipv6 (show_groups gs) = Some (gs, [])"
  using read_groups_text [of "[]" gs 8 True] assms by (simp add: read_ipv6_def groups_text_def)

lemma read_ipv6_short:
  assumes "list_all (\<lambda>g. g < 65536) front" "list_all (\<lambda>g. g < 65536) rear" "length front + length rear < 8"
  shows "read_ipv6 (show_groups front @ ''::'' @ show_groups rear)
    = Some (front @ replicate (8 - length front - length rear) 0 @ rear, [])"
proof -
  have "read_groups 8 True (show_groups front @ ''::'' @ show_groups rear) = (front, False, ''::'' @ show_groups rear)"
    using read_groups_text [of "''::'' @ show_groups rear" front 8 True] assms by (simp add: groups_text_def)
  moreover have "read_groups (8 - (length front + 1)) True (show_groups rear) = (rear, False, [])"
    using read_groups_text [of "[]" rear "8 - (length front + 1)" True] assms by (simp add: groups_text_def)
  ultimately show ?thesis using assms(3) by (simp add: read_ipv6_def)
qed

lemma parse_v6_text:
  assumes "read_ipv4 s = None" "read_ipv6 s = Some (be_digits 65536 8 (unat a), [])"
  shows "parse_ip s = Some (V6 a)"
  using assms groups_of_word(1) [of a] by (simp add: parse_ip_def)

lemma parse_show_v4: "parse_ip (show_ip (V4 a)) = Some (V4 a)"
proof -
  have "be_number 256 (be_digits 256 4 (unat a)) = unat a"
    using octets_below(1) [of a] by (simp only: be_number_digits mod_less)
  then show ?thesis using read_ipv4_show [of "[]" a] by (simp add: parse_ip_def)
qed

lemma parse_show_mapped:
  assumes "to_ipv4_mapped a = Some b"
  shows "parse_ip (show_ip (V6 a)) = Some (V6 a)"
proof (rule parse_v6_text)
  have shown: "show_ip (V6 a) = ''::ffff:'' @ show_ipv4 b" using assms by (simp add: show_ipv6_def)
  show "read_ipv4 (show_ip (V6 a)) = None" by (rule read_ipv4_needs_dot) (simp add: shown ascii_defs byte_def del: show_ip.simps)
  have a: "unat a div 2 ^ 32 = 65535" and b: "unat b = unat a mod 2 ^ 32"
    using assms by (auto simp: to_ipv4_mapped_def drop_bit_eq_div word_unat_eq_iff unat_div unsigned_ucast_eq take_bit_eq_mod split: if_splits)
  let ?os = "be_digits 256 4 (unat b)"
  have "byte (char_of (102 :: nat)) = byte CHR ''f''" by (simp add: byte_def)
  then have "char_of (102 :: nat) = CHR ''f''" by (simp only: byte_eq_iff)
  then have ffff: "show_hex 65535 = ''ffff''" by (simp add: show_hex.simps hex_digit_def)
  have front: "read_groups 8 True (show_ip (V6 a)) = ([], False, show_ip (V6 a))"
    using read_groups_stops(3) [of 8 True "''ffff:'' @ show_ipv4 b"] by (simp add: shown del: show_ip.simps)
  have ip4: "read_ipv4 (show_ipv4 b) = Some (?os, [])" using read_ipv4_show [of "[]" b] by simp
  have "read_groups 6 False (CHR '':'' # show_ipv4 b) = ([be_number 256 (take 2 ?os), be_number 256 (drop 2 ?os)], True, [])"
  proof -
    have six: "6 = Suc 5" by simp
    show ?thesis unfolding six read_groups.simps by (simp add: read_separator_def read_char_def ip4)
  qed
  then have rear: "read_groups 7 True (''ffff:'' @ show_ipv4 b)
      = ([65535, be_number 256 (take 2 ?os), be_number 256 (drop 2 ?os)], True, [])"
    using read_group_step [of "CHR '':'' # show_ipv4 b" 65535 6 _ True _ True] by (simp add: ffff)
  have halves: "be_number 256 (take 2 ?os) = unat b div 65536" "be_number 256 (drop 2 ?os) = unat b mod 65536"
  proof -
    have split: "?os = be_digits 256 2 (unat b div 256 ^ 2) @ be_digits 256 2 (unat b)"
      using be_digits_split [of 256 2 2 "unat b"] by simp
    have "unat b < 2 ^ 32" using unsigned_less [of b] by simp
    then have "unat b div 65536 < 65536" by (simp add: less_mult_imp_div_less)
    then show "be_number 256 (take 2 ?os) = unat b div 65536" "be_number 256 (drop 2 ?os) = unat b mod 65536"
      unfolding split by (simp_all add: be_number_digits)
  qed
  have "be_digits 65536 8 (unat a) = [0, 0, 0, 0, 0, 65535, unat b div 65536, unat b mod 65536]"
  proof -
    have six: "(6 :: nat) = Suc (Suc (Suc (Suc (Suc (Suc 0)))))" and two: "(2 :: nat) = Suc (Suc 0)" by simp_all
    have "be_digits 65536 8 (unat a) = be_digits 65536 6 (unat a div 65536 ^ 2) @ be_digits 65536 2 (unat a)"
      using be_digits_split [of 65536 6 2 "unat a"] by simp
    moreover have "be_digits 65536 6 65535 = [0, 0, 0, 0, 0, 65535]" unfolding six by simp
    moreover have "be_digits 65536 2 (unat a) = [unat b div 65536, unat b mod 65536]"
      using mod_mult2_eq [of "unat a" 65536 65536] unfolding two by (simp add: b mod_mod_cancel)
    ultimately show ?thesis using a by simp
  qed
  moreover have "replicate 5 (0 :: nat) = [0, 0, 0, 0, 0]" by (simp add: eval_nat_numeral)
  ultimately show "read_ipv6 (show_ip (V6 a)) = Some (be_digits 65536 8 (unat a), [])"
    unfolding read_ipv6_def front using rear halves by (simp add: shown del: show_ip.simps)
qed

lemma parse_show_groups:
  assumes "to_ipv4_mapped a = None"
  shows "parse_ip (show_ip (V6 a)) = Some (V6 a)"
proof (rule parse_v6_text)
  define gs where "gs = be_digits 65536 8 (unat a)"
  obtain start len where run: "zero_run 0 (0, 0) (0, 0) gs = (start, len)" by (cases "zero_run 0 (0, 0) (0, 0) gs")
  have split: "gs = take start gs @ replicate len 0 @ drop (start + len) gs" and le: "start + len \<le> 8"
    using zero_run_split [OF run] by (auto simp: gs_def)
  have shown: "show_ip (V6 a) = (if 1 < len then show_groups (take start gs) @ ''::'' @ show_groups (drop (start + len) gs) else show_groups gs)"
    using assms run by (simp add: show_ipv6_def gs_def Let_def)
  show "read_ipv4 (show_ip (V6 a)) = None" by (rule no_dot_not_ipv4) (simp add: shown groups_no_dot del: show_ip.simps)
  have small: "list_all (\<lambda>g. g < 65536) gs" and eight: "length gs = 8" using groups_of_word(2) [of a] by (simp_all add: gs_def)
  show "read_ipv6 (show_ip (V6 a)) = Some (be_digits 65536 8 (unat a), [])"
  proof (cases "1 < len")
    case True
    have "read_ipv6 (show_groups (take start gs) @ ''::'' @ show_groups (drop (start + len) gs))
        = Some (take start gs @ replicate len 0 @ drop (start + len) gs, [])"
      using read_ipv6_short [of "take start gs" "drop (start + len) gs"] small eight le True
      by (auto simp: list_all_iff dest: in_set_takeD in_set_dropD)
    then show ?thesis using True shown split by (simp add: gs_def)
  next
    case False
    then show ?thesis using read_ipv6_full [OF small eight] shown by (simp add: gs_def)
  qed
qed

text \<open>Every address reads back from what \<open>to_string\<close> writes, also compressed and mapped ones.\<close>

lemma parse_show_ip: "parse_ip (show_ip ip) = Some ip"
  using parse_show_v4 parse_show_mapped parse_show_groups by (cases ip) (metis option.exhaust)+

section \<open>Mapped entries\<close>

definition address_char :: "char \<Rightarrow> bool" where
  "address_char c \<longleftrightarrow> is_digit_of 16 c \<or> c = CHR ''.'' \<or> c = CHR '':''"

lemma address_char_plain: "address_char c \<Longrightarrow> plain_char c \<and> c \<noteq> CHR ''/''"
  by (auto simp: address_char_def is_digit_of_def to_digit_def plain_char_def ascii_defs is_ascii_whitespace_def byte_def Let_def
      split: if_splits)

lemma show_ipv4_chars: "list_all address_char (show_ipv4 a)"
proof -
  have "list_all address_char (show_nat n)" for n
    using show_nat_digits [of n] by (auto simp: list_all_iff address_char_def is_digit_of_def to_digit_def ascii_defs Let_def split: if_splits)
  then have "set (show_ipv4 a) \<subseteq> {c. address_char c}"
    unfolding show_ipv4_def using set_str_join [of "''.''" "map show_nat (be_digits 256 4 (unat a))"]
    by (fastforce simp: list_all_iff address_char_def)
  then show ?thesis by (auto simp: list_all_iff)
qed

lemma show_hex_chars: "list_all address_char (show_hex n)"
  using show_hex_digits [of n] by (auto simp: list_all_iff address_char_def)

lemma show_groups_chars: "list_all address_char (show_groups gs)"
  using show_hex_chars by (cases gs) (auto simp: more_groups_def list_all_iff address_char_def)

lemma show_ip_chars: "list_all address_char (show_ip ip)"
proof (cases ip)
  case (V6 a)
  have "list_all address_char ''::ffff:''" "list_all address_char ''::''"
    by (simp_all add: address_char_def is_digit_of_def to_digit_def ascii_defs byte_def)
  then show ?thesis
    using V6 show_ipv4_chars show_groups_chars by (auto simp: show_ipv6_def Let_def split: option.splits prod.splits)
qed (simp add: show_ipv4_chars)

lemma show_ip_text: "str_trim (show_ip ip) = show_ip ip" "CHR ''/'' \<notin> set (show_ip ip)"
proof -
  have "list_all plain_char (show_ip ip)" "CHR ''/'' \<notin> set (show_ip ip)"
    using show_ip_chars [of ip] address_char_plain by (auto simp: list_all_iff simp del: show_ip.simps)
  then show "str_trim (show_ip ip) = show_ip ip" "CHR ''/'' \<notin> set (show_ip ip)" by (simp_all only: str_trim_plain not_False_eq_True)
qed

lemma parse_unsigned_nat: "parse_unsigned mx (show_nat n) = (if n \<le> mx then Some n else None)"
  using parse_unsigned_show_nat [of n n] parse_unsigned_show_nat [of n mx]
  by (auto simp: parse_unsigned_def Let_def split: if_splits)

lemma show_nat_trim: "str_trim (show_nat n) = show_nat n"
  using show_nat_digits [of n] by (intro str_trim_plain) (auto simp: list_all_iff plain_char_def ascii_defs is_ascii_whitespace_def)


text \<open>
  The longest prefix is taken from the address as it is spelled, the comparison from its version 4
  form: an entry that spells a version 4 address in version 6 reads as a range, and comparing it with
  any version 4 address panics.
\<close>

lemma mapped_entry_panics:
  assumes "to_ipv4_mapped m = Some n"
  shows "parse_cidr (show_ip (V6 m)) = Some (V4 n, 128)" "cidr_contains (show_ip (V6 m)) (V4 a) = None"
proof -
  have shown: "show_ip (V6 m) = ''::ffff:'' @ show_ipv4 n" using assms by (simp add: show_ipv6_def)
  have "list_all address_char (show_ip (V6 m))"
    using show_ipv4_chars [of n] by (simp add: shown address_char_def is_digit_of_def to_digit_def ascii_defs byte_def del: show_ip.simps)
  then have "list_all plain_char (show_ip (V6 m))" "CHR ''/'' \<notin> set (show_ip (V6 m))"
    using address_char_plain by (auto simp: list_all_iff simp del: show_ip.simps)
  then have "str_trim (show_ip (V6 m)) = show_ip (V6 m)" "split_once CHR ''/'' (show_ip (V6 m)) = None"
    by (simp_all only: str_trim_plain split_once_None not_False_eq_True)
  then show "parse_cidr (show_ip (V6 m)) = Some (V4 n, 128)"
    using parse_show_mapped [OF assms] assms by (simp add: parse_cidr_def Let_def del: show_ip.simps)
  then show "cidr_contains (show_ip (V6 m)) (V4 a) = None"
    by (simp add: cidr_contains_def prefix_matches_long del: show_ip.simps octets.simps)
qed

end
