(* ===== verification/Fw_Rules.thy ===== *)
theory Fw_Rules
  imports Ip_Addr Units Errors Cron_Text
begin

text \<open>
  Port rules and what the firewalls print of them (\<open>unihelm-distro/src/fw.rs\<close>): the validation of a
  rule, firewalld's rich rules, the listings of ufw and nftables, and which lines of these are the
  panel's own. The lemmas show that a rich rule reads back, and which rules a ban or a port is taken
  away by.
\<close>

section \<open>Errors\<close>

fun display_distro_error :: "distro_error \<Rightarrow> str" where
  "display_distro_error (UnsupportedDistroErr m) = ''unsupported distribution: '' @ m"
| "display_distro_error (OsRelease m) = ''could not read /etc/os-release: '' @ m"
| "display_distro_error (ProgramNotFound p) = ''`'' @ p @ ''` was not found in any trusted system directory''"
| "display_distro_error (Spawn p m) = ''could not start `'' @ p @ ''`: '' @ m"
| "display_distro_error (CommandFailedErr c s out) = ''`'' @ c @ ''` exited with status '' @ show_int s @ '': '' @ out"
| "display_distro_error (TimeoutErr c n) = ''`'' @ c @ ''` did not finish within '' @ show_word n @ ''s and was killed''"
| "display_distro_error (InvalidName m) = ''invalid name: '' @ m"
| "display_distro_error (ServiceFailed u a out) = ''service `'' @ u @ ''` failed to '' @ a @ '': '' @ out"
| "display_distro_error (PackageFailed m) = ''package operation failed: '' @ m"

definition uni_error_of_distro :: "distro_error \<Rightarrow> uni_error" where
  "uni_error_of_distro e =
     new_error
       (case e of
          UnsupportedDistroErr _ \<Rightarrow> UnsupportedDistro | OsRelease _ \<Rightarrow> UnsupportedDistro
        | ProgramNotFound _ \<Rightarrow> CommandFailed | Spawn _ _ \<Rightarrow> CommandFailed
        | CommandFailedErr _ _ _ \<Rightarrow> CommandFailed | TimeoutErr _ _ \<Rightarrow> CommandFailed
        | InvalidName _ \<Rightarrow> InvalidInput
        | ServiceFailed _ _ _ \<Rightarrow> ServiceActionFailed
        | PackageFailed _ \<Rightarrow> PackageBackendFailed)
       (display_distro_error e)"

section \<open>Rules\<close>

datatype proto = Tcp | Udp

fun proto_as_str :: "proto \<Rightarrow> str" where
  "proto_as_str Tcp = ''tcp''"
| "proto_as_str Udp = ''udp''"

definition proto_parse :: "str \<Rightarrow> proto option" where
  "proto_parse s = (if s = ''tcp'' then Some Tcp else if s = ''udp'' then Some Udp else None)"

record port_rule =
  fr_port :: u16
  fr_proto :: proto
  fr_source :: "str option"
  fr_comment :: str

definition anywhere :: "u16 \<Rightarrow> proto \<Rightarrow> str \<Rightarrow> port_rule" where
  "anywhere port proto comment = \<lparr>fr_port = port, fr_proto = proto, fr_source = None, fr_comment = comment\<rparr>"

definition validate_cidr :: "str \<Rightarrow> distro_error + unit" where
  "validate_cidr src =
     (let (addr, prefix_text) = (case split_once CHR ''/'' src of Some (a, p) \<Rightarrow> (a, Some p) | None \<Rightarrow> (src, None)) in
      case parse_ip addr of
        None \<Rightarrow> Inl (InvalidName (''`'' @ src @ ''` is not an IP address or CIDR''))
      | Some ip \<Rightarrow>
          (case prefix_text of
             None \<Rightarrow> Inr ()
           | Some p \<Rightarrow>
               let mx = (if is_ipv6 ip then 128 else 32) in
               case parse_unsigned 255 p of
                 None \<Rightarrow> Inl (InvalidName (''`'' @ src @ ''` has a non-numeric prefix length''))
               | Some len \<Rightarrow>
                   if mx < len then Inl (InvalidName (''`'' @ src @ ''` prefix length exceeds /'' @ show_nat mx)) else Inr ()))"

definition cidr_is_v6 :: "str \<Rightarrow> bool" where
  "cidr_is_v6 src =
     (let addr = (case split_once CHR ''/'' src of Some (a, _) \<Rightarrow> a | None \<Rightarrow> src) in
      case parse_ip addr of Some ip \<Rightarrow> is_ipv6 ip | None \<Rightarrow> False)"

definition validate_rule :: "port_rule \<Rightarrow> distro_error + unit" where
  "validate_rule r =
     (if fr_port r = 0 then Inl (InvalidName ''port 0 is not a valid firewall rule'')
      else r_bind (case fr_source r of None \<Rightarrow> Inr () | Some src \<Rightarrow> validate_cidr src) (\<lambda>_.
        if 128 < length (fr_comment r) \<or> list_ex is_control (str_chars (fr_comment r)) then
          Inl (InvalidName ''rule comment is too long or contains control characters'')
        else Inr ()))"

definition mark :: str where "mark = ''unihelm''"

definition marked_comment :: "port_rule \<Rightarrow> str" where
  "marked_comment r = mark @ '': '' @ fr_comment r"

section \<open>firewalld\<close>

definition quote :: str where "quote = [CHR 0x22]"

definition rich_rule :: "port_rule \<Rightarrow> str \<Rightarrow> str" where
  "rich_rule r source =
     ''rule family='' @ quote @ (if cidr_is_v6 source then ''ipv6'' else ''ipv4'') @ quote
     @ '' source address='' @ quote @ source @ quote @ '' port port='' @ quote @ show_word (fr_port r) @ quote
     @ '' protocol='' @ quote @ proto_as_str (fr_proto r) @ quote @ '' accept''"

definition quoted_field :: "str \<Rightarrow> str \<Rightarrow> str option" where
  "quoted_field key line =
     Option.bind (str_find key line) (\<lambda>at.
     Option.bind (strip_prefix quote (drop (at + length key) line)) (\<lambda>rest.
     map_option (\<lambda>e. take e rest) (str_find quote rest)))"

definition parse_rich_rule :: "str \<Rightarrow> port_rule option" where
  "parse_rich_rule line =
     (if \<not> str_contains ''accept'' line then None
      else
        Option.bind (Option.bind (quoted_field ''port port='' line) parse_u16) (\<lambda>port.
        Option.bind (Option.bind (quoted_field ''protocol='' line) proto_parse) (\<lambda>proto.
        Option.bind (quoted_field ''source address='' line) (\<lambda>source.
          if is_ok (validate_cidr source) then
            Some \<lparr>fr_port = port, fr_proto = proto, fr_source = Some source, fr_comment = []\<rparr>
          else None))))"

text \<open>\<open>list_rules\<close> on the two listings: the ports of the first, then the rich rules of the second.\<close>

definition port_token :: "str \<Rightarrow> (u16 \<times> proto) option" where
  "port_token token =
     Option.bind (split_once CHR ''/'' token) (\<lambda>(port, proto).
     Option.bind (parse_u16 port) (\<lambda>n. map_option (\<lambda>p. (n, p)) (proto_parse proto)))"

definition firewalld_rules :: "str \<Rightarrow> str \<Rightarrow> port_rule list" where
  "firewalld_rules ports rich =
     map (\<lambda>(n, p). anywhere n p []) (List.map_filter port_token (split_whitespace (str_trim ports)))
     @ List.map_filter parse_rich_rule (str_lines rich)"

section \<open>ufw\<close>

text \<open>\<open>str::split\<close> by a string, at the second part: \<open>None\<close> when there is none.\<close>

definition after_first :: "str \<Rightarrow> str \<Rightarrow> str option" where
  "after_first pat s =
     map_option (\<lambda>i. let r = drop (i + length pat) s in (case str_find pat r of Some j \<Rightarrow> take j r | None \<Rightarrow> r)) (str_find pat s)"

definition option_filter :: "('a \<Rightarrow> bool) \<Rightarrow> 'a option \<Rightarrow> 'a option" where
  "option_filter P v = (case v of Some x \<Rightarrow> if P x then Some x else None | None \<Rightarrow> None)"

definition ufw_source :: "str \<Rightarrow> str option" where
  "ufw_source body =
     option_filter (\<lambda>s. is_ok (validate_cidr s))
       (map_option (\<lambda>s. case split_whitespace s of [] \<Rightarrow> s | w # _ \<Rightarrow> w)
         (option_filter (\<lambda>s. s \<noteq> [] \<and> \<not> starts_with ''Anywhere'' s)
           (map_option str_trim (after_first ''ALLOW IN'' body))))"

definition split_comment :: "str \<Rightarrow> str \<times> str" where
  "split_comment line = (case split_once CHR ''#'' line of Some (b, c) \<Rightarrow> (b, str_trim c) | None \<Rightarrow> (line, []))"

definition ufw_status_line :: "str \<Rightarrow> port_rule option" where
  "ufw_status_line line =
     (case split_comment line of
        (body, raw) \<Rightarrow>
          if \<not> str_contains ''ALLOW'' body then None
          else case split_whitespace body of
            [] \<Rightarrow> None
          | target # _ \<Rightarrow>
              map_option (\<lambda>(n, p).
                \<lparr>fr_port = n, fr_proto = p, fr_source = ufw_source body,
                 fr_comment = (case strip_prefix (mark @ '': '') raw of Some c \<Rightarrow> c | None \<Rightarrow> raw)\<rparr>)
                (port_token target))"

definition parse_ufw_status :: "str \<Rightarrow> port_rule list" where
  "parse_ufw_status t = List.map_filter ufw_status_line (str_lines t)"

text \<open>The number of a line that is one of our bans of the address.\<close>

definition ufw_ban_index :: "ip_addr \<Rightarrow> str \<Rightarrow> u32 option" where
  "ufw_ban_index ip line =
     Option.bind (strip_prefix ''['' (str_trim_start line)) (\<lambda>rest.
     Option.bind (split_once CHR '']'' rest) (\<lambda>(number, body_text).
     Option.bind (parse_u32 (str_trim number)) (\<lambda>n.
       case split_comment body_text of
         (body, comment) \<Rightarrow>
           if \<not> str_contains ''DENY'' body \<or> comment \<noteq> mark @ '': ban'' then None
           else if list_ex (\<lambda>t. parse_ip t = Some ip) (split_whitespace body) then Some n
           else None)))"

definition ufw_ban_indices :: "str \<Rightarrow> ip_addr \<Rightarrow> u32 list" where
  "ufw_ban_indices t ip = rev (sort (List.map_filter (ufw_ban_index ip) (str_lines t)))"

definition ufw_bans :: "str \<Rightarrow> ip_addr list" where
  "ufw_bans t =
     List.map_filter (\<lambda>l. if str_contains ''DENY'' l \<and> str_contains mark l then
         (case List.map_filter parse_ip (split_whitespace l) of [] \<Rightarrow> None | ip # _ \<Rightarrow> Some ip) else None) (str_lines t)"

section \<open>nftables\<close>

fun nft_fields :: "proto option \<times> u16 option \<times> str option \<Rightarrow> str list \<Rightarrow> proto option \<times> u16 option \<times> str option" where
  "nft_fields (proto, port, source) [] = (proto, port, source)"
| "nft_fields (proto, port, source) [f] =
     (if f = ''saddr'' then (proto, port, None) else if f = ''dport'' then (proto, None, source) else (proto, port, source))"
| "nft_fields (proto, port, source) (f # g # fs) =
     (if f = ''saddr'' then nft_fields (proto, port, Some g) fs
      else if f = ''dport'' then nft_fields (proto, parse_u16 g, source) fs
      else if (f = ''tcp'' \<or> f = ''udp'') \<and> g = ''dport'' then nft_fields (proto_parse f, port, source) (g # fs)
      else nft_fields (proto, port, source) (g # fs))"

definition nft_mark :: str where
  "nft_mark = quote @ mark @ '': ''"

definition nft_rule_line :: "str \<Rightarrow> port_rule option" where
  "nft_rule_line raw =
     (let line = str_trim raw in
      if \<not> str_contains nft_mark line \<or> \<not> str_contains ''accept'' line then None
      else case nft_fields (None, None, None) (split_whitespace line) of
        (Some proto, Some port, source) \<Rightarrow>
          Some \<lparr>fr_port = port, fr_proto = proto, fr_source = option_filter (\<lambda>s. is_ok (validate_cidr s)) source,
            fr_comment = (case str_find nft_mark line of
                None \<Rightarrow> []
              | Some at \<Rightarrow> (case split_once CHR 0x22 (drop (at + length nft_mark) line) of Some (c, _) \<Rightarrow> c | None \<Rightarrow> []))\<rparr>
      | _ \<Rightarrow> None)"

definition parse_nft_rules :: "str \<Rightarrow> port_rule list" where
  "parse_nft_rules t = List.map_filter nft_rule_line (str_lines t)"

fun nft_handle_in :: "port_rule \<Rightarrow> str list \<Rightarrow> u64 option" where
  "nft_handle_in r [] = None"
| "nft_handle_in r (line # ls) =
     (case parse_nft_rules line of
        [] \<Rightarrow> nft_handle_in r ls
      | p # _ \<Rightarrow>
          if fr_port p \<noteq> fr_port r \<or> fr_proto p \<noteq> fr_proto r \<or> fr_source p \<noteq> fr_source r then nft_handle_in r ls
          else case str_find ''# handle '' line of
            None \<Rightarrow> nft_handle_in r ls
          | Some at \<Rightarrow>
              (case parse_u64 (str_trim (drop (at + length ''# handle '') line)) of
                 Some h \<Rightarrow> Some h
               | None \<Rightarrow> nft_handle_in r ls))"

definition nft_handle_for :: "str \<Rightarrow> port_rule \<Rightarrow> u64 option" where
  "nft_handle_for listing r = nft_handle_in r (str_lines listing)"

definition parse_nft_set_elements :: "str \<Rightarrow> ip_addr list" where
  "parse_nft_set_elements t =
     (case str_find ''elements'' t of
        None \<Rightarrow> []
      | Some at \<Rightarrow>
          let rest = drop at t in
          (case str_find ''{'' rest of
             None \<Rightarrow> []
           | Some start \<Rightarrow>
               (case str_find ''}'' (drop start rest) of
                  None \<Rightarrow> []
                | Some len \<Rightarrow>
                    List.map_filter (\<lambda>e. case split_whitespace e of [] \<Rightarrow> None | w # _ \<Rightarrow> parse_ip w)
                      (str_split CHR '','' (take (len - 1) (drop (start + 1) rest))))))"

section \<open>A rich rule reads back\<close>

lemma read_number_consumes:
  "read_number radix k mx z s = Some (v, r) \<Longrightarrow> \<exists>ds. s = ds @ r \<and> list_all (is_digit_of radix) ds"
  by (intro exI [of _ "takeWhile (is_digit_of radix) s"])
    (auto simp: read_number_def Let_def list_all_iff dest: set_takeWhileD split: if_splits)

lemma digit_is_address_char: "is_digit_of 10 c \<Longrightarrow> address_char c" "is_digit_of 16 c \<Longrightarrow> address_char c"
  by (auto simp: address_char_def is_digit_of_def to_digit_def Let_def split: if_splits)

definition takes_address :: "str \<Rightarrow> str \<Rightarrow> bool" where
  "takes_address s r \<longleftrightarrow> (\<exists>ds. s = ds @ r \<and> list_all address_char ds)"

lemma takes_address_trans: "takes_address s r \<Longrightarrow> takes_address r q \<Longrightarrow> takes_address s q"
  unfolding takes_address_def by (metis append.assoc list_all_append)

lemma takes_address_refl [simp]: "takes_address s s"
  by (simp add: takes_address_def)

lemma read_number_takes: "read_number radix k mx z s = Some (v, r) \<Longrightarrow> radix = 10 \<or> radix = 16 \<Longrightarrow> takes_address s r"
  using read_number_consumes [of radix k mx z s v r] digit_is_address_char
  by (auto simp: takes_address_def list_all_iff)

lemma read_separator_takes: "read_separator first c s = Some r \<Longrightarrow> c = CHR ''.'' \<or> c = CHR '':'' \<Longrightarrow> takes_address s r"
  by (auto simp: read_separator_def read_char_def takes_address_def address_char_def split: if_splits list.splits
      intro: exI [of _ "[]"] exI [of _ "[c]"])

lemma read_octets_takes: "read_octets n first s = Some (os, r) \<Longrightarrow> takes_address s r"
proof (induction n arbitrary: first s os)
  case (Suc n)
  obtain s1 v s2 os' where "read_separator first CHR ''.'' s = Some s1" "read_number 10 3 255 False s1 = Some (v, s2)"
    "read_octets n False s2 = Some (os', r)"
    using Suc.prems by (auto simp: Option.bind_eq_Some_conv split: option.splits)
  then show ?case using read_separator_takes read_number_takes Suc.IH takes_address_trans by metis
qed simp

lemma read_groups_takes: "read_groups k first s = (gs, v4, r) \<Longrightarrow> takes_address s r"
proof (induction k arbitrary: first s gs v4)
  case (Suc k)
  let ?v4 = "if k = 0 then None else Option.bind (read_separator first CHR '':'' s) read_ipv4"
  show ?case
  proof (cases ?v4)
    case (Some p)
    then obtain s1 os r1 where "read_separator first CHR '':'' s = Some s1" "read_ipv4 s1 = Some (os, r1)" "p = (os, r1)"
      by (cases p) (auto simp: Option.bind_eq_Some_conv split: if_splits)
    then show ?thesis
      using Suc.prems Some read_separator_takes read_octets_takes takes_address_trans by (auto simp: read_ipv4_def) metis
  next
    case None
    show ?thesis
    proof (cases "Option.bind (read_separator first CHR '':'' s) (read_number 16 4 65535 True)")
      case (Some p)
      then obtain s1 g r1 where step: "read_separator first CHR '':'' s = Some s1" "read_number 16 4 65535 True s1 = Some (g, r1)" "p = (g, r1)"
        by (cases p) (auto simp: Option.bind_eq_Some_conv)
      obtain gs' v4' r' where rec: "read_groups k False r1 = (gs', v4', r')" by (cases "read_groups k False r1")
      have "r' = r" using Suc.prems None Some step rec by simp
      then show ?thesis
        using step rec Suc.IH read_separator_takes read_number_takes takes_address_trans by metis
    qed (use Suc.prems None in simp)
  qed
qed simp

lemma read_ipv6_takes: "read_ipv6 s = Some (gs, r) \<Longrightarrow> takes_address s r"
proof -
  assume a: "read_ipv6 s = Some (gs, r)"
  obtain front v4 r1 where f: "read_groups 8 True s = (front, v4, r1)" by (cases "read_groups 8 True s")
  show ?thesis
  proof (cases "length front = 8")
    case True
    then show ?thesis using a f read_groups_takes [OF f] by (simp add: read_ipv6_def)
  next
    case False
    then obtain r2 rear v r3 where r2: "strip_prefix ''::'' r1 = Some r2"
      and g: "read_groups (8 - (length front + 1)) True r2 = (rear, v, r3)" and "r3 = r"
      using a f by (auto simp: read_ipv6_def split: option.splits prod.splits if_splits)
    have "takes_address r1 r2" using r2 by (auto simp: takes_address_def strip_prefix_Some address_char_def intro!: exI [of _ "''::''"])
    then show ?thesis using read_groups_takes [OF f] read_groups_takes [OF g] \<open>r3 = r\<close> takes_address_trans by blast
  qed
qed

lemma parse_ip_chars: "parse_ip s = Some ip \<Longrightarrow> list_all address_char s"
proof -
  assume a: "parse_ip s = Some ip"
  have "takes_address s []"
  proof (cases "read_ipv4 s")
    case (Some p)
    then show ?thesis using a read_octets_takes [of 4 True s] by (cases p) (auto simp: parse_ip_def read_ipv4_def split: list.splits)
  next
    case None
    then show ?thesis using a read_ipv6_takes [of s] by (auto simp: parse_ip_def split: option.splits list.splits prod.splits)
  qed
  then show ?thesis by (auto simp: takes_address_def)
qed

definition cidr_char :: "char \<Rightarrow> bool" where
  "cidr_char c \<longleftrightarrow> address_char c \<or> c = CHR ''/'' \<or> c = CHR ''+''"

lemma validate_cidr_chars: "is_ok (validate_cidr src) \<Longrightarrow> list_all cidr_char src"
proof -
  assume ok: "is_ok (validate_cidr src)"
  have digits: "list_all cidr_char p" if "parse_unsigned 255 p = Some n" for p n
    using that by (cases p) (auto simp: parse_unsigned_def Let_def list_all_iff cidr_char_def digit_is_address_char digit_of_ten
        split: if_splits)
  show ?thesis
  proof (cases "split_once CHR ''/'' src")
    case None
    then have "list_all address_char src" using ok parse_ip_chars by (auto simp: validate_cidr_def Let_def split: option.splits)
    then show ?thesis by (auto simp: list_all_iff cidr_char_def)
  next
    case (Some ap)
    then obtain a p where ap: "split_once CHR ''/'' src = Some (a, p)" by (cases ap) auto
    then have "list_all address_char a" "list_all cidr_char p"
      using ok parse_ip_chars digits by (auto simp: validate_cidr_def Let_def split: option.splits if_splits)
    moreover have "src = a @ CHR ''/'' # p" using ap by (simp add: split_once_Some)
    ultimately show ?thesis by (auto simp: list_all_iff cidr_char_def)
  qed
qed

lemma cidr_char_bytes: "cidr_char c \<Longrightarrow> c \<notin> set ''ports\"''"
  by (auto simp: cidr_char_def address_char_def is_digit_of_def to_digit_def ascii_defs byte_def Let_def split: if_splits)

lemma str_find_skip: "pat \<noteq> [] \<Longrightarrow> hd pat \<notin> set s \<Longrightarrow> str_find pat (s @ t) = map_option (\<lambda>i. length s + i) (str_find pat t)"
proof (induction s)
  case (Cons c s)
  have "\<not> prefix pat (c # s @ t)" using Cons.prems by (cases pat) auto
  then show ?case using Cons by (simp add: option.map_comp comp_def)
qed (cases "str_find pat t"; simp)

lemma str_find_here: "str_find pat (pat @ t) = Some 0"
  using prefixI [OF refl, of pat t] by (cases "pat @ t") simp_all

lemma quoted_field_found:
  assumes "str_find key line = Some (length pre)" "line = pre @ key @ quote @ v @ quote @ post" "CHR 0x22 \<notin> set v"
  shows "quoted_field key line = Some v"
proof -
  have "str_find quote (v @ quote @ post) = map_option (\<lambda>i. length v + i) (str_find quote (quote @ post))"
    using assms(3) by (intro str_find_skip) (simp_all add: quote_def)
  then have "str_find quote (v @ quote @ post) = Some (length v)" by (simp add: str_find_here)
  moreover have "drop (length pre + length key) line = quote @ v @ quote @ post" using assms(2) by simp
  moreover have "strip_prefix quote (quote @ v @ quote @ post) = Some (v @ quote @ post)" by (simp add: strip_prefix_Some)
  ultimately show ?thesis using assms(1) by (simp add: quoted_field_def)
qed

text \<open>Firewalld's form of a valid rule with a source is read as that rule, without its comment.\<close>

theorem rich_rule_reads_back:
  assumes "is_ok (validate_rule r)" "fr_source r = Some src"
  shows "parse_rich_rule (rich_rule r src) = Some (r\<lparr>fr_comment := []\<rparr>)"
proof -
  have src: "is_ok (validate_cidr src)"
    using assms by (auto simp: validate_rule_def is_ok_iff result_simps split: if_splits)
  then have plain: "CHR ''p'' \<notin> set src" "CHR ''s'' \<notin> set src" "CHR 0x22 \<notin> set src"
    using validate_cidr_chars [OF src] cidr_char_bytes by (auto simp: list_all_iff)
  have digits: "list_all is_ascii_digit (show_word (fr_port r))" by (simp add: show_word_def show_nat_digits)
  then have port: "CHR ''p'' \<notin> set (show_word (fr_port r))" "CHR 0x22 \<notin> set (show_word (fr_port r))"
    by (auto simp: list_all_iff ascii_defs byte_def)
  define fam where "fam = (if cidr_is_v6 src then ''ipv6'' else ''ipv4'')"
  define pre1 where "pre1 = ''rule family='' @ quote @ fam @ quote @ '' ''"
  define pre2 where "pre2 = pre1 @ ''source address='' @ quote @ src @ quote @ '' ''"
  define pre3 where "pre3 = pre2 @ ''port port='' @ quote @ show_word (fr_port r) @ quote @ '' ''"
  let ?line = "rich_rule r src"
  have line: "?line = pre3 @ ''protocol='' @ quote @ proto_as_str (fr_proto r) @ quote @ '' accept''"
    by (simp add: rich_rule_def pre3_def pre2_def pre1_def fam_def)
  have line1: "?line = pre1 @ ''source address='' @ quote @ src @ quote @ ('' port port='' @ quote @ show_word (fr_port r) @ quote
      @ '' protocol='' @ quote @ proto_as_str (fr_proto r) @ quote @ '' accept'')"
    and line2: "?line = pre2 @ ''port port='' @ quote @ show_word (fr_port r) @ quote
      @ ('' protocol='' @ quote @ proto_as_str (fr_proto r) @ quote @ '' accept'')"
    by (simp_all add: rich_rule_def pre2_def pre1_def fam_def)
  have "str_find ''source address='' ?line = Some (length pre1)"
    by (simp add: line pre3_def pre2_def pre1_def fam_def quote_def)
  then have source: "quoted_field ''source address='' ?line = Some src" by (rule quoted_field_found [OF _ line1 plain(3)])
  have "str_find ''port port='' ?line = Some (length pre2)"
    using plain by (simp add: line pre3_def pre2_def pre1_def fam_def quote_def str_find_skip)
  then have port_field: "quoted_field ''port port='' ?line = Some (show_word (fr_port r))"
    by (rule quoted_field_found [OF _ line2 port(2)])
  have "str_find ''protocol='' ?line = Some (length pre3)"
    using plain port by (simp add: line pre3_def pre2_def pre1_def fam_def quote_def str_find_skip)
  moreover have "CHR 0x22 \<notin> set (proto_as_str (fr_proto r))" by (cases "fr_proto r") simp_all
  ultimately have proto_field: "quoted_field ''protocol='' ?line = Some (proto_as_str (fr_proto r))"
    by (rule quoted_field_found [OF _ line])
  have "parse_u16 (show_word (fr_port r)) = Some (fr_port r)"
    using unsigned_less [where ?'a = nat, of "fr_port r"] by (simp add: parse_u16_def show_word_def parse_unsigned_show_nat)
  moreover have "proto_parse (proto_as_str (fr_proto r)) = Some (fr_proto r)" by (cases "fr_proto r") (simp_all add: proto_parse_def)
  moreover have "str_contains ''accept'' ?line"
    unfolding str_contains_iff sublist_def line
    by (intro exI [of _ "pre3 @ ''protocol='' @ quote @ proto_as_str (fr_proto r) @ quote @ '' ''"] exI [of _ "[]"]) simp
  ultimately show ?thesis using source port_field proto_field src assms(2) by (simp add: parse_rich_rule_def)
qed

section \<open>Deleting by number\<close>

text \<open>ufw numbers its rules from one, and deleting one moves those behind it up.\<close>

definition ufw_delete :: "'a list \<Rightarrow> nat \<Rightarrow> 'a list" where
  "ufw_delete rules i = take (i - 1) rules @ drop i rules"

definition our_ban :: "ip_addr \<Rightarrow> str \<Rightarrow> bool" where
  "our_ban ip body_text \<longleftrightarrow>
     (case split_comment body_text of
        (body, comment) \<Rightarrow> str_contains ''DENY'' body \<and> comment = mark @ '': ban''
          \<and> list_ex (\<lambda>t. parse_ip t = Some ip) (split_whitespace body))"

lemma delete_snoc: "i \<le> length xs \<Longrightarrow> ufw_delete (xs @ [x]) i = ufw_delete xs i @ [x]"
  by (simp add: ufw_delete_def)

lemma length_delete: "0 < i \<Longrightarrow> i \<le> length xs \<Longrightarrow> length (ufw_delete xs i) = length xs - 1"
  by (simp add: ufw_delete_def)

lemma delete_all_snoc:
  "sorted_wrt (>) ds \<Longrightarrow> list_all (\<lambda>d. 0 < d \<and> d \<le> length xs) ds \<Longrightarrow> foldl ufw_delete (xs @ [x]) ds = foldl ufw_delete xs ds @ [x]"
proof (induction ds arbitrary: xs)
  case (Cons d ds)
  have "list_all (\<lambda>e. 0 < e \<and> e \<le> length (ufw_delete xs d)) ds"
    using Cons.prems length_delete [of d xs] by (fastforce simp: list_all_iff)
  then show ?case using Cons by (simp add: delete_snoc)
qed simp

lemma sorted_filter_rev: "sorted_wrt (>) (rev (filter P [1..<n]))"
  by (simp add: sorted_wrt_rev sorted_wrt_filter flip: strict_sorted_iff)

lemma delete_numbered:
  "foldl ufw_delete rules (rev (filter (\<lambda>i. P (rules ! (i - 1))) [1..<Suc (length rules)])) = filter (\<lambda>x. \<not> P x) rules"
proof (induction rules rule: rev_induct)
  case (snoc x xs)
  let ?ds = "rev (filter (\<lambda>i. P (xs ! (i - 1))) [1..<Suc (length xs)])"
  have same: "filter (\<lambda>i. P ((xs @ [x]) ! (i - 1))) [1..<Suc (length xs)] = filter (\<lambda>i. P (xs ! (i - 1))) [1..<Suc (length xs)]"
    by (rule filter_cong) (auto simp: nth_append)
  have keep: "foldl ufw_delete (xs @ [x]) ?ds = foldl ufw_delete xs ?ds @ [x]"
    by (rule delete_all_snoc [OF sorted_filter_rev]) (auto simp: list_all_iff)
  have last_gone: "ufw_delete (xs @ [x]) (Suc (length xs)) = xs" by (simp add: ufw_delete_def)
  show ?case
  proof (cases "P x")
    case True
    then show ?thesis using snoc same last_gone by simp
  next
    case False
    then show ?thesis using snoc same keep by simp
  qed
qed (simp add: ufw_delete_def)

lemma str_trim_start_kept:
  assumes "plain_char c" "cs = [] \<or> \<not> is_continuation (hd cs)"
  shows "str_trim_start (c # cs) = c # cs"
proof -
  have "str_chars (c # cs) = [c] # str_chars cs" using assms(2) by (cases cs) simp_all
  moreover have "\<not> is_whitespace [c]" using assms(1) by (simp add: is_whitespace_single plain_char_def)
  ultimately have "dropWhile is_whitespace (str_chars (c # cs)) = str_chars (c # cs)" by (simp del: str_chars.simps)
  then have "str_trim_start (c # cs) = concat (str_chars (c # cs))" by (simp only: str_trim_start_def)
  then show ?thesis by (simp only: concat_str_chars)
qed

definition numbered_line :: "nat \<Rightarrow> str \<Rightarrow> str" where
  "numbered_line i body = ''['' @ (if i < 10 then '' '' else []) @ show_nat i @ '']'' @ body"

lemma numbered_index:
  assumes "i < 2 ^ 32"
  shows "ufw_ban_index ip (numbered_line i body) = (if our_ban ip body then Some (of_nat i) else None)"
proof -
  have digits: "list_all is_ascii_digit (show_nat i)" by (rule show_nat_digits)
  have "CHR '']'' \<notin> set ((if i < 10 then '' '' else []) @ show_nat i)"
    using digits by (auto simp: list_all_iff ascii_defs byte_def)
  then have split: "split_once CHR '']'' ((if i < 10 then '' '' else []) @ show_nat i @ '']'' @ body) = Some ((if i < 10 then '' '' else []) @ show_nat i, body)"
    by (auto simp: split_once_Some)
  have "str_trim (show_nat i) = show_nat i"
    using digits by (intro str_trim_plain) (auto simp: list_all_iff plain_char_def ascii_defs is_ascii_whitespace_def)
  moreover have "str_trim ('' '' @ show_nat i) = str_trim (show_nat i)"
  proof -
    have "ascii (show_nat i)" "ascii ('' '' @ show_nat i)"
      using digits by (auto simp: ascii_def list_all_iff ascii_defs byte_def)
    then have "str_chars ('' '' @ show_nat i) = '' '' # str_chars (show_nat i)" by (simp only: str_chars_ascii) simp
    moreover have "is_whitespace '' ''" by (simp add: is_whitespace_single is_ascii_whitespace_def byte_def)
    ultimately show ?thesis by (simp add: str_trim_def del: str_chars.simps)
  qed
  ultimately have number: "parse_u32 (str_trim ((if i < 10 then '' '' else []) @ show_nat i)) = Some (of_nat i)"
    using assms by (simp add: parse_u32_def parse_unsigned_show_nat)
  have start: "strip_prefix ''['' (str_trim_start (numbered_line i body)) = Some ((if i < 10 then '' '' else []) @ show_nat i @ '']'' @ body)"
  proof -
    have "\<not> is_continuation (hd ((if i < 10 then '' '' else []) @ show_nat i @ '']'' @ body))"
      using digits by (cases "show_nat i") (auto simp: is_continuation_def ascii_defs byte_def)
    then show ?thesis
      using str_trim_start_kept [of "CHR ''[''" "(if i < 10 then '' '' else []) @ show_nat i @ '']'' @ body"]
      by (simp add: numbered_line_def plain_char_def is_ascii_whitespace_def byte_def strip_prefix_Some)
  qed
  show ?thesis
    using start split number by (simp add: ufw_ban_index_def our_ban_def split: prod.splits)
qed

lemma map_filter_if: "List.map_filter (\<lambda>x. if P x then Some (f x) else None) xs = map f (filter P xs)"
  by (induction xs) (simp_all add: map_filter_simps)

lemma map_filter_cong_on: "(\<And>x. x \<in> set xs \<Longrightarrow> f x = g x) \<Longrightarrow> List.map_filter f xs = List.map_filter g xs"
  by (induction xs) (simp_all add: map_filter_simps split: option.splits)

lemma map_filter_append: "List.map_filter f (xs @ ys) = List.map_filter f xs @ List.map_filter f ys"
  by (induction xs) (simp_all add: map_filter_simps split: option.splits)

lemma sorted_words: "sorted xs \<Longrightarrow> list_all (\<lambda>i. i < 2 ^ LENGTH('a)) xs \<Longrightarrow> sorted (map (of_nat :: nat \<Rightarrow> 'a::len word) xs)"
proof (induction xs)
  case (Cons x xs)
  have "(of_nat x :: 'a word) \<le> of_nat y" if "y \<in> set xs" for y
    using that Cons.prems by (auto simp: list_all_iff word_le_nat_alt unat_of_nat)
  then show ?case using Cons by simp
qed simp

text \<open>
  C27: ufw lists its rules under their numbers. Deleting by the numbers that \<open>ufw_ban_indices\<close> returns, one
  after the other, takes away exactly the rules that deny the address under the panel's own mark, and
  leaves every other rule where it was, also one of the operator's that denies the same address.
\<close>

theorem unban_deletes_only_our_denies:
  assumes "str_lines t = header @ map (\<lambda>i. numbered_line i (rules ! (i - 1))) [1..<Suc (length rules)]"
    "list_all (\<lambda>l. ufw_ban_index ip l = None) header" "length rules < 2 ^ 32 - 1"
  shows "foldl ufw_delete rules (map unat (ufw_ban_indices t ip)) = filter (\<lambda>body. \<not> our_ban ip body) rules"
proof -
  let ?is = "filter (\<lambda>i. our_ban ip (rules ! (i - 1))) [1..<Suc (length rules)]"
  have head: "List.map_filter (ufw_ban_index ip) header = []"
    using assms(2) by (induction header) (simp_all add: map_filter_simps)
  have "List.map_filter (ufw_ban_index ip) (map (\<lambda>i. numbered_line i (rules ! (i - 1))) [1..<Suc (length rules)])
      = List.map_filter (\<lambda>i. ufw_ban_index ip (numbered_line i (rules ! (i - 1)))) [1..<Suc (length rules)]"
    by (simp add: map_filter_def filter_map comp_def del: upt_Suc)
  also have "\<dots> = List.map_filter (\<lambda>i. if our_ban ip (rules ! (i - 1)) then Some (of_nat i) else None) [1..<Suc (length rules)]"
    using assms(3) by (intro map_filter_cong_on numbered_index) auto
  finally have body: "List.map_filter (ufw_ban_index ip) (str_lines t) = (map of_nat ?is :: u32 list)"
    by (simp only: assms(1) map_filter_append head map_filter_if append_Nil)
  have small: "list_all (\<lambda>i. i < 2 ^ 32) ?is" using assms(3) by (auto simp: list_all_iff simp del: upt_Suc)
  have "sorted (map of_nat ?is :: u32 list)"
    using small by (intro sorted_words) (simp_all add: sorted_wrt_filter del: upt_Suc)
  then have "ufw_ban_indices t ip = rev (map of_nat ?is)" unfolding ufw_ban_indices_def body by (simp only: sorted_sort_id)
  moreover have "map unat (rev (map of_nat ?is :: u32 list)) = rev ?is"
    using small by (auto simp: rev_map list_all_iff unat_of_nat intro!: map_idI simp del: upt_Suc)
  ultimately show ?thesis using delete_numbered [of rules "our_ban ip"] by simp
qed

text \<open>
  What nftables is told to delete is a rule under the panel's mark with the very port, protocol and
  source of the rule to close, by the handle that the listing gives it.
\<close>

theorem closing_deletes_the_same_rule:
  assumes "nft_handle_for listing r = Some h"
  shows "\<exists>line \<in> set (str_lines listing). \<exists>p raw at. raw \<in> set (str_lines line) \<and> nft_rule_line raw = Some p \<and> str_contains nft_mark (str_trim raw)
    \<and> fr_port p = fr_port r \<and> fr_proto p = fr_proto r \<and> fr_source p = fr_source r
    \<and> str_find ''# handle '' line = Some at \<and> parse_u64 (str_trim (drop (at + 9) line)) = Some h"
proof -
  have parsed: "\<exists>raw \<in> set (str_lines line). nft_rule_line raw = Some p \<and> str_contains nft_mark (str_trim raw)"
    if "parse_nft_rules line = p # ps" for line p ps
  proof -
    have "p \<in> set (List.map_filter nft_rule_line (str_lines line))" using that by (simp add: parse_nft_rules_def)
    then obtain raw where "raw \<in> set (str_lines line)" "nft_rule_line raw = Some p" by (auto simp: map_filter_def)
    then show ?thesis by (auto simp: nft_rule_line_def Let_def split: if_splits)
  qed
  have "\<exists>line \<in> set ls. \<exists>p ps at. parse_nft_rules line = p # ps \<and> fr_port p = fr_port r \<and> fr_proto p = fr_proto r \<and> fr_source p = fr_source r
      \<and> str_find ''# handle '' line = Some at \<and> parse_u64 (str_trim (drop (at + 9) line)) = Some h" if "nft_handle_in r ls = Some h" for ls
    using that
  proof (induction ls)
    case (Cons l ls)
    show ?case
    proof (cases "nft_handle_in r ls = Some h")
      case True
      then show ?thesis using Cons.IH by auto
    next
      case False
      then show ?thesis using Cons.prems by (auto simp: eval_nat_numeral split: list.splits if_splits option.splits)
    qed
  qed simp
  then show ?thesis using assms parsed unfolding nft_handle_for_def by meson
qed

text \<open>
  Only \<open>ALLOW IN\<close> is looked for when the source is read, but any line with \<open>ALLOW\<close> is a rule. So a rule
  that lets the host itself out is listed as a port open to everyone.
\<close>

lemma outbound_rules_are_listed:
  "ufw_status_line ''25/tcp ALLOW OUT Anywhere'' = Some (anywhere 25 Tcp [])"
proof -
  have words: "split_whitespace ''25/tcp ALLOW OUT Anywhere'' = [''25/tcp'', ''ALLOW'', ''OUT'', ''Anywhere'']"
    using split_whitespace_join(1) [of "[''25/tcp'', ''ALLOW'', ''OUT'', ''Anywhere'']"]
    by (simp add: plain_char_def is_ascii_whitespace_def byte_def)
  have "port_token ''25/tcp'' = Some (25, Tcp)"
    by (simp add: port_token_def proto_parse_def parse_u16_def parse_unsigned_def digits_value_def digit_val_def ascii_defs byte_def)
  moreover have "str_contains ''ALLOW'' ''25/tcp ALLOW OUT Anywhere''" "after_first ''ALLOW IN'' ''25/tcp ALLOW OUT Anywhere'' = None"
    by (simp_all add: str_contains_def after_first_def)
  ultimately show ?thesis
    by (simp add: ufw_status_line_def split_comment_def words ufw_source_def option_filter_def anywhere_def mark_def)
qed

section \<open>Instances\<close>

lemma digits_parse: "parse_ip (show_ip (V4 a)) = Some (V4 a)"
  by (rule parse_show_v4)

theorem rich_rule_reads_back_witness:
  "parse_rich_rule (rich_rule \<lparr>fr_port = 3306, fr_proto = Tcp, fr_source = Some (show_ip (V4 0x0A000005)), fr_comment = ''db''\<rparr> (show_ip (V4 0x0A000005)))
     = Some \<lparr>fr_port = 3306, fr_proto = Tcp, fr_source = Some (show_ip (V4 0x0A000005)), fr_comment = []\<rparr>"
proof -
  have "CHR ''/'' \<notin> set (show_ip (V4 a))" for a
    using show_ipv4_chars [of a] address_char_plain by (auto simp: list_all_iff)
  then have "split_once CHR ''/'' (show_ip (V4 a)) = None" for a by (simp only: split_once_None not_False_eq_True)
  then have "is_ok (validate_rule \<lparr>fr_port = 3306, fr_proto = Tcp, fr_source = Some (show_ip (V4 0x0A000005)), fr_comment = ''db''\<rparr>)"
    using digits_parse
    by (simp add: validate_rule_def validate_cidr_def Let_def is_control_def is_ascii_control_def is_continuation_def byte_def del: show_ip.simps)
  then show ?thesis using rich_rule_reads_back by fastforce
qed

definition one_ban :: str where
  "one_ban = ''Anywhere DENY IN '' @ show_ip (V4 0xC6336409) @ '' # unihelm: ban''"

theorem unban_deletes_only_our_denies_witness:
  "foldl ufw_delete [''22/tcp ALLOW IN Anywhere'', one_ban]
     (map unat (ufw_ban_indices (numbered_line 1 ''22/tcp ALLOW IN Anywhere'' @ newline @ numbered_line 2 one_ban @ newline) (V4 0xC6336409)))
   = filter (\<lambda>body. \<not> our_ban (V4 0xC6336409) body) [''22/tcp ALLOW IN Anywhere'', one_ban]"
proof -
  have digits: "one_line (show_nat n)" for n
    using show_nat_digits [of n] by (auto simp: one_line_def list_all_iff ascii_defs byte_def)
  have "one_line (show_ipv4 a)" for a
  proof -
    have "\<not> address_char CHR 0x0A" "\<not> address_char CHR 0x0D"
      by (simp_all add: address_char_def is_digit_of_def to_digit_def ascii_defs byte_def)
    then show ?thesis using show_ipv4_chars [of a] by (auto simp: one_line_def list_all_iff)
  qed
  then have "one_line (numbered_line 1 ''22/tcp ALLOW IN Anywhere'')" "one_line (numbered_line 2 one_ban)"
    using digits by (simp_all add: numbered_line_def one_ban_def)
  then have lines: "str_lines (numbered_line 1 ''22/tcp ALLOW IN Anywhere'' @ newline @ numbered_line 2 one_ban @ newline)
      = [numbered_line 1 ''22/tcp ALLOW IN Anywhere'', numbered_line 2 one_ban]"
    using str_lines_concat [of "[numbered_line 1 ''22/tcp ALLOW IN Anywhere'', numbered_line 2 one_ban]" "[]"] by simp
  have "[1..<Suc (length [''22/tcp ALLOW IN Anywhere'', one_ban])] = [1, 2]" by (simp add: upt_rec)
  then show ?thesis
    by (intro unban_deletes_only_our_denies [where header = "[]"]) (simp_all only: lines append_Nil list.map, simp_all)
qed

end
