(* ===== verification/Commands.thy ===== *)
theory Commands
  imports Units Errors Cron_Text "HOL-Library.Sublist"
begin

text \<open>
  Running programs: \<open>unihelm-distro/src/exec.rs\<close> (finding the binary, what a finished command says)
  and the operations on systemd units of \<open>unihelm-distro/src/svc.rs\<close>. A script
  passes a state on, and on the host that state is the list of the commands that were run so far; what
  the machine answers to the last one of a history is a parameter. The lemmas are the rules by which the scripts of other theories are reasoned about: which
  commands they run, and in which order.
\<close>

named_theorems script_simps \<open>unfolding of scripts, command by command\<close>

section \<open>Finding a program\<close>

definition trusted_bin_dirs :: "str list" where
  "trusted_bin_dirs = [''/usr/sbin'', ''/usr/bin'', ''/sbin'', ''/bin'', ''/usr/local/sbin'', ''/usr/local/bin'']"

text \<open>\<open>PathBuf::join\<close> with a name that has no slash.\<close>

definition join_name :: "str \<Rightarrow> str \<Rightarrow> str" where
  "join_name dir name = dir @ ''/'' @ name"

fun first_existing :: "(str \<Rightarrow> bool) \<Rightarrow> str \<Rightarrow> str list \<Rightarrow> distro_error + str" where
  "first_existing ex program [] = Inl (ProgramNotFound program)"
| "first_existing ex program (dir # dirs) =
     (if ex (join_name dir program) then Inr (join_name dir program) else first_existing ex program dirs)"

definition resolve_program :: "(str \<Rightarrow> bool) \<Rightarrow> str \<Rightarrow> distro_error + str" where
  "resolve_program ex program =
     (if CHR ''/'' \<in> set program then
        if starts_with ''/'' program \<and> ex program then Inr program else Inl (ProgramNotFound program)
      else first_existing ex program trusted_bin_dirs)"

definition program_available :: "(str \<Rightarrow> bool) \<Rightarrow> str \<Rightarrow> bool" where
  "program_available ex program \<longleftrightarrow> is_ok (resolve_program ex program)"

section \<open>Commands and what they say\<close>

type_synonym argv = "str list"

record cmd_output =
  co_status :: int
  co_stdout :: str
  co_stderr :: str

definition co_success :: "cmd_output \<Rightarrow> bool" where
  "co_success out \<longleftrightarrow> co_status out = 0"

definition trimmed_stdout :: "cmd_output \<Rightarrow> str" where
  "trimmed_stdout out = str_trim (co_stdout out)"

definition failure_text :: "cmd_output \<Rightarrow> str" where
  "failure_text out = (let e = str_trim (co_stderr out) in if e = [] then str_trim (co_stdout out) else e)"

text \<open>Display only: the words with single spaces between.\<close>

definition display_cmd :: "argv \<Rightarrow> str" where
  "display_cmd cmd = str_join '' '' cmd"

section \<open>Scripts\<close>

type_synonym answers = "argv list \<Rightarrow> distro_error + cmd_output"
type_synonym ('s, 'e, 'a) script = "'s \<Rightarrow> 's \<times> ('e + 'a)"
type_synonym ('e, 'a) host = "(argv list, 'e, 'a) script"

definition sc_ret :: "'a \<Rightarrow> ('s, 'e, 'a) script" where
  "sc_ret x h = (h, Inr x)"

definition sc_fail :: "'e \<Rightarrow> ('s, 'e, 'a) script" where
  "sc_fail e h = (h, Inl e)"

definition sc_of :: "'e + 'a \<Rightarrow> ('s, 'e, 'a) script" where
  "sc_of r h = (h, r)"

definition sc_bind :: "('s, 'e, 'a) script \<Rightarrow> ('a \<Rightarrow> ('s, 'e, 'b) script) \<Rightarrow> ('s, 'e, 'b) script" where
  "sc_bind m f h = (case m h of (h1, Inl e) \<Rightarrow> (h1, Inl e) | (h1, Inr x) \<Rightarrow> f x h1)"

text \<open>The result as a value, for the calls whose error the code looks at or drops.\<close>

definition sc_try :: "('s, 'e, 'a) script \<Rightarrow> ('s, 'd, 'e + 'a) script" where
  "sc_try m h = (case m h of (h1, r) \<Rightarrow> (h1, Inr r))"

definition sc_map_err :: "('e \<Rightarrow> 'd) \<Rightarrow> ('s, 'e, 'a) script \<Rightarrow> ('s, 'd, 'a) script" where
  "sc_map_err g m h = (case m h of (h1, r) \<Rightarrow> (h1, r_map_err g r))"

fun sc_each :: "('a \<Rightarrow> ('s, 'e, unit) script) \<Rightarrow> 'a list \<Rightarrow> ('s, 'e, unit) script" where
  "sc_each f [] = sc_ret ()"
| "sc_each f (x # xs) = sc_bind (f x) (\<lambda>_. sc_each f xs)"

definition run_cmd :: "answers \<Rightarrow> argv \<Rightarrow> (distro_error, cmd_output) host" where
  "run_cmd ans c h = (h @ [c], ans (h @ [c]))"

definition run_checked :: "answers \<Rightarrow> argv \<Rightarrow> (distro_error, cmd_output) host" where
  "run_checked ans c =
     sc_bind (run_cmd ans c) (\<lambda>out.
       if co_success out then sc_ret out
       else sc_fail (CommandFailedErr (display_cmd c) (co_status out) (failure_text out)))"

section \<open>systemd\<close>

definition svc_fails :: "unit_name \<Rightarrow> str \<Rightarrow> cmd_output \<Rightarrow> distro_error" where
  "svc_fails u verb out = ServiceFailed (unit_name_as_str u) verb (failure_text out)"

definition svc_call :: "answers \<Rightarrow> argv \<Rightarrow> unit_name \<Rightarrow> str \<Rightarrow> (distro_error, unit) host" where
  "svc_call ans c u verb =
     sc_bind (run_cmd ans c) (\<lambda>out. if co_success out then sc_ret () else sc_fail (svc_fails u verb out))"

definition svc_run_action :: "answers \<Rightarrow> unit_name \<Rightarrow> svc_action \<Rightarrow> (distro_error, unit) host" where
  "svc_run_action ans u a =
     svc_call ans [''systemctl'', svc_action_as_str a, ''--'', unit_name_as_str u] u (svc_action_as_str a)"

definition svc_enable :: "answers \<Rightarrow> unit_name \<Rightarrow> bool \<Rightarrow> (distro_error, unit) host" where
  "svc_enable ans u start_now =
     svc_call ans ([''systemctl'', ''enable''] @ (if start_now then [''--now''] else []) @ [''--'', unit_name_as_str u]) u ''enable''"

definition svc_disable :: "answers \<Rightarrow> unit_name \<Rightarrow> bool \<Rightarrow> (distro_error, unit) host" where
  "svc_disable ans u stop_now =
     svc_call ans ([''systemctl'', ''disable''] @ (if stop_now then [''--now''] else []) @ [''--'', unit_name_as_str u]) u ''disable''"

definition svc_daemon_reload :: "answers \<Rightarrow> (distro_error, unit) host" where
  "svc_daemon_reload ans = sc_bind (run_checked ans [''systemctl'', ''daemon-reload'']) (\<lambda>_. sc_ret ())"

definition show_properties :: "str list" where
  "show_properties =
     [''--property=LoadState'', ''--property=ActiveState'', ''--property=SubState'', ''--property=UnitFileState'',
      ''--property=MainPID'', ''--property=MemoryCurrent'', ''--property=ControlGroup'', ''--property=ActiveEnterTimestamp'']"

definition read_memory_stat :: "(str \<Rightarrow> str option) \<Rightarrow> str \<Rightarrow> str option" where
  "read_memory_stat read_file cgroup = Option.bind (memory_stat_path cgroup) read_file"

definition svc_status :: "answers \<Rightarrow> (str \<Rightarrow> str option) \<Rightarrow> unit_name \<Rightarrow> (distro_error, unit_status) host" where
  "svc_status ans read_file u =
     sc_bind (run_cmd ans (''systemctl'' # ''show'' # show_properties @ [''--'', unit_name_as_str u])) (\<lambda>out.
       sc_ret (apply_memory_stat (parse_systemctl_show (unit_name_as_str u) (co_stdout out))
         (Option.bind (show_property (str_lines (co_stdout out)) ''ControlGroup'') (read_memory_stat read_file))))"

definition svc_journal_tail :: "answers \<Rightarrow> unit_name \<Rightarrow> u32 \<Rightarrow> (distro_error, str list) host" where
  "svc_journal_tail ans u n =
     sc_bind (run_cmd ans [''journalctl'', ''--no-pager'', ''--output=short-iso'', ''-n'', show_word (max 1 (min n 10000)), ''-u'',
         unit_name_as_str u]) (\<lambda>out. sc_ret (str_lines (co_stdout out)))"

section \<open>Which commands a script runs\<close>

definition emits :: "(argv \<Rightarrow> bool) \<Rightarrow> ('e, 'a) host \<Rightarrow> bool" where
  "emits P m \<longleftrightarrow> (\<forall>h. \<exists>cs. fst (m h) = h @ cs \<and> list_all P cs)"

lemma emits_ret [intro!]: "emits P (sc_ret x)" "emits P (sc_fail e)" "emits P (sc_of r)"
  by (auto simp: emits_def sc_ret_def sc_fail_def sc_of_def)

lemma emits_bind [intro]:
  assumes "emits P m" "\<And>x. emits P (f x)"
  shows "emits P (sc_bind m f)"
  unfolding emits_def
proof
  fix h
  obtain cs where cs: "fst (m h) = h @ cs" "list_all P cs" using assms(1) by (auto simp: emits_def)
  show "\<exists>cs. fst (sc_bind m f h) = h @ cs \<and> list_all P cs"
  proof (cases "snd (m h)")
    case (Inl e)
    then show ?thesis using cs by (auto simp: sc_bind_def split: prod.splits)
  next
    case (Inr x)
    obtain ds where "fst (f x (h @ cs)) = (h @ cs) @ ds" "list_all P ds" using assms(2) [of x] unfolding emits_def by blast
    then show ?thesis using Inr cs by (intro exI [of _ "cs @ ds"]) (auto simp: sc_bind_def split: prod.splits)
  qed
qed

lemma emits_run [intro]: "P c \<Longrightarrow> emits P (run_cmd ans c)"
  by (auto simp: emits_def run_cmd_def)

lemma emits_checked [intro]: "P c \<Longrightarrow> emits P (run_checked ans c)"
  unfolding run_checked_def by (intro emits_bind emits_run) (auto split: if_splits)

lemma emits_try [intro]: "emits P m \<Longrightarrow> emits P (sc_try m)"
  by (auto simp: emits_def sc_try_def split: prod.splits) (metis fst_conv)

lemma emits_map_err [intro]: "emits P m \<Longrightarrow> emits P (sc_map_err g m)"
  by (auto simp: emits_def sc_map_err_def split: prod.splits) (metis fst_conv)

lemma emits_each [intro]: "(\<And>x. x \<in> set xs \<Longrightarrow> emits P (f x)) \<Longrightarrow> emits P (sc_each f xs)"
  by (induction xs) auto

lemma emits_mono: "emits P m \<Longrightarrow> (\<And>c. P c \<Longrightarrow> Q c) \<Longrightarrow> emits Q m"
  unfolding emits_def by (metis (mono_tags, lifting) list_all_iff)

lemma emits_grows: "emits P m \<Longrightarrow> prefix h (fst (m h))"
  by (auto simp: emits_def prefix_def)

lemma emits_new: "emits P m \<Longrightarrow> c \<in> set (drop (length h) (fst (m h))) \<Longrightarrow> P c"
  by (auto simp: emits_def list_all_iff dest!: spec [of _ h])

text \<open>One step of a script, by the result of its first part.\<close>

lemma sc_bind_Inr: "m h = (h1, Inr x) \<Longrightarrow> sc_bind m f h = f x h1"
  by (simp add: sc_bind_def)

lemma sc_bind_Inl: "m h = (h1, Inl e) \<Longrightarrow> sc_bind m f h = (h1, Inl e)"
  by (simp add: sc_bind_def)

lemma sc_bind_ok:
  "sc_bind m f h = (h2, Inr y) \<longleftrightarrow> (\<exists>h1 x. m h = (h1, Inr x) \<and> f x h1 = (h2, Inr y))"
  by (auto simp: sc_bind_def split: prod.splits sum.splits)

lemma run_checked_ok:
  "run_checked ans c h = (h1, Inr out) \<longleftrightarrow> h1 = h @ [c] \<and> ans h1 = Inr out \<and> co_success out"
  by (auto simp: run_checked_def run_cmd_def sc_bind_def sc_ret_def sc_fail_def split: sum.splits if_splits)

lemmas script_defs = sc_ret_def sc_fail_def sc_of_def sc_bind_def sc_try_def sc_map_err_def run_cmd_def

declare sc_ret_def [script_simps] sc_fail_def [script_simps] sc_of_def [script_simps] sc_bind_def [script_simps]
  sc_try_def [script_simps] sc_map_err_def [script_simps] run_cmd_def [script_simps]

section \<open>Where programs come from\<close>

lemma first_existing_Inr:
  "first_existing ex program dirs = Inr p \<Longrightarrow> ex p \<and> (\<exists>d \<in> set dirs. p = join_name d program)"
  by (induction dirs) (auto split: if_splits)

text \<open>
  A program is only run from one of the fixed directories, or by its absolute path, and it is there. So
  what lies in the working directory or in the \<open>PATH\<close> of the panel is never run.
\<close>

lemma programs_are_trusted:
  assumes "resolve_program ex program = Inr p"
  shows "ex p \<and> starts_with ''/'' p \<and> (p = program \<or> (\<exists>d \<in> set trusted_bin_dirs. p = d @ ''/'' @ program) \<and> CHR ''/'' \<notin> set program)"
proof (cases "CHR ''/'' \<in> set program")
  case True
  then show ?thesis using assms by (auto simp: resolve_program_def split: if_splits)
next
  case False
  then have "ex p \<and> (\<exists>d \<in> set trusted_bin_dirs. p = join_name d program)"
    using assms by (intro first_existing_Inr) (simp add: resolve_program_def)
  then show ?thesis using False by (auto simp: join_name_def trusted_bin_dirs_def starts_with_def)
qed

end
