(* ===== verification/Fw_Backends.thy ===== *)
theory Fw_Backends
  imports Fw_Rules Commands
begin

text \<open>
  The firewall backends of \<open>unihelm-distro/src/fw.rs\<close>: firewalld, ufw, nftables and a host without a
  firewall, each as the scripts of commands it runs, behind one interface that the operations use. The
  lemmas show what the commands of a call can contain, that invalid rules reach no firewall, which ban
  survives the next one, and which rule a call deletes.
\<close>

section \<open>Names\<close>

definition nft_table :: str where "nft_table = ''unihelm''"
definition ban_set_v4 :: str where "ban_set_v4 = ''unihelm_bans''"
definition ban_set_v6 :: str where "ban_set_v6 = ''unihelm_bans6''"

definition ban_set_for :: "ip_addr \<Rightarrow> str" where
  "ban_set_for ip = (if is_ipv6 ip then ban_set_v6 else ban_set_v4)"

section \<open>firewalld\<close>

text \<open>
  \<open>run_tolerating\<close> compares the lowered text. The texts it looks for are ASCII and none of them ends in a
  letter that another one lowers to, so lowering the ASCII letters is enough.
\<close>

definition run_tolerating :: "answers \<Rightarrow> argv \<Rightarrow> str list \<Rightarrow> (distro_error, unit) host" where
  "run_tolerating ans c tolerated =
     sc_bind (run_cmd ans c) (\<lambda>out.
       if co_success out then sc_ret ()
       else if list_ex (\<lambda>t. str_contains t (to_ascii_lowercase (failure_text out))) tolerated then sc_ret ()
       else sc_fail (CommandFailedErr (display_cmd c) (co_status out) (failure_text out)))"

definition firewall_cmd :: "str list \<Rightarrow> argv" where
  "firewall_cmd args = ''firewall-cmd'' # args"

definition fd_reload :: "answers \<Rightarrow> (distro_error, unit) host" where
  "fd_reload ans = sc_bind (run_checked ans (firewall_cmd [''--reload''])) (\<lambda>_. sc_ret ())"

definition fd_is_active :: "answers \<Rightarrow> (distro_error, bool) host" where
  "fd_is_active ans =
     sc_bind (sc_try (run_cmd ans (firewall_cmd [''--state'']))) (\<lambda>r.
       sc_ret (case r of Inl _ \<Rightarrow> False | Inr out \<Rightarrow> co_success out \<and> trimmed_stdout out = ''running''))"

definition port_text :: "port_rule \<Rightarrow> str" where
  "port_text r = show_word (fr_port r) @ ''/'' @ proto_as_str (fr_proto r)"

definition fd_open_port :: "answers \<Rightarrow> port_rule \<Rightarrow> (distro_error, unit) host" where
  "fd_open_port ans r =
     sc_bind (sc_of (validate_rule r)) (\<lambda>_.
     sc_bind (run_tolerating ans (firewall_cmd [''--permanent'',
         case fr_source r of None \<Rightarrow> ''--add-port='' @ port_text r | Some src \<Rightarrow> ''--add-rich-rule='' @ rich_rule r src])
       [''already_enabled'', ''already enabled'']) (\<lambda>_. fd_reload ans))"

definition fd_close_port :: "answers \<Rightarrow> port_rule \<Rightarrow> (distro_error, unit) host" where
  "fd_close_port ans r =
     sc_bind (sc_of (validate_rule r)) (\<lambda>_.
     sc_bind (run_tolerating ans (firewall_cmd [''--permanent'',
         case fr_source r of None \<Rightarrow> ''--remove-port='' @ port_text r | Some src \<Rightarrow> ''--remove-rich-rule='' @ rich_rule r src])
       [''not_enabled'', ''not enabled'']) (\<lambda>_. fd_reload ans))"

definition fd_list_rules :: "answers \<Rightarrow> (distro_error, port_rule list) host" where
  "fd_list_rules ans =
     sc_bind (run_checked ans (firewall_cmd [''--permanent'', ''--list-ports''])) (\<lambda>ports.
     sc_bind (run_checked ans (firewall_cmd [''--permanent'', ''--list-rich-rules''])) (\<lambda>rich.
       sc_ret (firewalld_rules (co_stdout ports) (co_stdout rich))))"

definition fd_new_set :: "answers \<Rightarrow> str \<times> str \<Rightarrow> (distro_error, unit) host" where
  "fd_new_set ans sf =
     (case sf of (set_name, fam) \<Rightarrow>
       sc_bind (run_tolerating ans (firewall_cmd [''--permanent'', ''--new-ipset='' @ set_name, ''--type=hash:ip'',
           ''--option=family='' @ fam, ''--option=timeout=0'', ''--option=maxelem=65536''])
         [''already exists'', ''name_conflict'']) (\<lambda>_.
       run_tolerating ans (firewall_cmd [''--permanent'',
           ''--add-rich-rule=rule source ipset='' @ quote @ set_name @ quote @ '' drop''])
         [''already_enabled'', ''already enabled'']))"

definition fd_ensure_ban_sets :: "answers \<Rightarrow> (distro_error, unit) host" where
  "fd_ensure_ban_sets ans =
     sc_bind (sc_each (fd_new_set ans) [(ban_set_v4, ''inet''), (ban_set_v6, ''inet6'')]) (\<lambda>_. fd_reload ans)"

definition fd_get_entries :: "str \<Rightarrow> argv" where
  "fd_get_entries set_name = firewall_cmd [''--ipset='' @ set_name, ''--get-entries'']"

definition fd_ban_set_present :: "answers \<Rightarrow> str \<Rightarrow> (distro_error, bool) host" where
  "fd_ban_set_present ans set_name =
     sc_bind (sc_try (run_cmd ans (fd_get_entries set_name))) (\<lambda>r.
       sc_ret (case r of Inl _ \<Rightarrow> False | Inr out \<Rightarrow> co_success out))"

definition fd_add_entry :: "ip_addr \<Rightarrow> u32 option \<Rightarrow> argv" where
  "fd_add_entry ip ttl =
     firewall_cmd ([''--ipset='' @ ban_set_for ip, ''--add-entry='' @ show_ip ip]
       @ (case ttl of None \<Rightarrow> [] | Some t \<Rightarrow> [''--timeout='' @ show_word t]))"

definition fd_ban_ip :: "answers \<Rightarrow> ip_addr \<Rightarrow> u32 option \<Rightarrow> (distro_error, unit) host" where
  "fd_ban_ip ans ip ttl =
     sc_bind (fd_ban_set_present ans (ban_set_for ip)) (\<lambda>here.
     sc_bind (if here then sc_ret () else fd_ensure_ban_sets ans) (\<lambda>_.
       run_tolerating ans (fd_add_entry ip ttl) [''already_enabled'', ''already enabled'']))"

definition fd_unban_ip :: "answers \<Rightarrow> ip_addr \<Rightarrow> (distro_error, unit) host" where
  "fd_unban_ip ans ip =
     run_tolerating ans (firewall_cmd [''--ipset='' @ ban_set_for ip, ''--remove-entry='' @ show_ip ip])
       [''not_enabled'', ''not enabled'', ''invalid_ipset'']"

fun sc_collect :: "('b \<Rightarrow> ('s, 'e, 'a list) script) \<Rightarrow> 'b list \<Rightarrow> ('s, 'e, 'a list) script" where
  "sc_collect f [] = sc_ret []"
| "sc_collect f (x # xs) = sc_bind (f x) (\<lambda>a. sc_bind (sc_collect f xs) (\<lambda>b. sc_ret (a @ b)))"

definition fd_list_bans :: "answers \<Rightarrow> (distro_error, ip_addr list) host" where
  "fd_list_bans ans =
     sc_collect (\<lambda>s. sc_bind (run_cmd ans (fd_get_entries s)) (\<lambda>out.
       sc_ret (if co_success out then List.map_filter parse_ip (split_whitespace (co_stdout out)) else []))) [ban_set_v4, ban_set_v6]"

section \<open>ufw\<close>

definition ufw_match :: "port_rule \<Rightarrow> str list" where
  "ufw_match r =
     (case fr_source r of None \<Rightarrow> [] | Some src \<Rightarrow> [''from'', src])
     @ [''proto'', proto_as_str (fr_proto r), ''to'', ''any'', ''port'', show_word (fr_port r)]"

definition ufw_is_active :: "answers \<Rightarrow> (distro_error, bool) host" where
  "ufw_is_active ans =
     sc_bind (run_cmd ans [''ufw'', ''status'']) (\<lambda>out. sc_ret (co_success out \<and> str_contains ''Status: active'' (co_stdout out)))"

definition ufw_allow :: "port_rule \<Rightarrow> argv" where
  "ufw_allow r = [''ufw'', ''allow''] @ ufw_match r @ [''comment'', marked_comment r]"

definition ufw_open_port :: "answers \<Rightarrow> port_rule \<Rightarrow> (distro_error, unit) host" where
  "ufw_open_port ans r =
     sc_bind (sc_of (validate_rule r)) (\<lambda>_. sc_bind (run_checked ans (ufw_allow r)) (\<lambda>_. sc_ret ()))"

definition fails_unless :: "argv \<Rightarrow> str \<Rightarrow> cmd_output \<Rightarrow> (distro_error, unit) host" where
  "fails_unless c excused out =
     (if co_success out \<or> (excused \<noteq> [] \<and> str_contains excused (failure_text out)) then sc_ret ()
      else sc_fail (CommandFailedErr (display_cmd c) (co_status out) (failure_text out)))"

definition ufw_close_port :: "answers \<Rightarrow> port_rule \<Rightarrow> (distro_error, unit) host" where
  "ufw_close_port ans r =
     (let c = [''ufw'', ''--force'', ''delete'', ''allow''] @ ufw_match r in
      sc_bind (sc_of (validate_rule r)) (\<lambda>_. sc_bind (run_cmd ans c) (fails_unless c ''non-existent'')))"

definition ufw_list_rules :: "answers \<Rightarrow> (distro_error, port_rule list) host" where
  "ufw_list_rules ans =
     sc_bind (run_checked ans [''ufw'', ''status'', ''verbose'']) (\<lambda>out. sc_ret (parse_ufw_status (co_stdout out)))"

definition ufw_ban_ip :: "answers \<Rightarrow> ip_addr \<Rightarrow> u32 option \<Rightarrow> (distro_error, unit) host" where
  "ufw_ban_ip ans ip ttl =
     sc_bind (run_checked ans [''ufw'', ''insert'', ''1'', ''deny'', ''from'', show_ip ip, ''comment'', mark @ '': ban'']) (\<lambda>_. sc_ret ())"

definition ufw_delete_cmd :: "u32 \<Rightarrow> argv" where
  "ufw_delete_cmd n = [''ufw'', ''--force'', ''delete'', show_word n]"

definition ufw_unban_ip :: "answers \<Rightarrow> ip_addr \<Rightarrow> (distro_error, unit) host" where
  "ufw_unban_ip ans ip =
     sc_bind (run_checked ans [''ufw'', ''status'', ''numbered'']) (\<lambda>listing.
       sc_each (\<lambda>n. sc_bind (run_cmd ans (ufw_delete_cmd n)) (fails_unless (ufw_delete_cmd n) []))
         (ufw_ban_indices (co_stdout listing) ip))"

definition ufw_list_bans :: "answers \<Rightarrow> (distro_error, ip_addr list) host" where
  "ufw_list_bans ans =
     sc_bind (run_checked ans [''ufw'', ''status'', ''verbose'']) (\<lambda>out. sc_ret (ufw_bans (co_stdout out)))"

section \<open>nftables\<close>

definition nft_own :: "str list \<Rightarrow> str list \<Rightarrow> argv" where
  "nft_own verb rest = ''nft'' # verb @ [''inet'', nft_table] @ rest"

definition nft_checked :: "answers \<Rightarrow> argv \<Rightarrow> (distro_error, unit) host" where
  "nft_checked ans c = sc_bind (run_checked ans c) (\<lambda>_. sc_ret ())"

definition nft_drop_rule :: "str \<Rightarrow> str \<Rightarrow> argv" where
  "nft_drop_rule fam set_name = nft_own [''add'', ''rule''] [''input'', fam, ''saddr'', ''@'' @ set_name, ''drop'']"

definition nft_ensure_table :: "answers \<Rightarrow> (distro_error, unit) host" where
  "nft_ensure_table ans =
     sc_bind (nft_checked ans (nft_own [''add'', ''table''] [])) (\<lambda>_.
     sc_bind (nft_checked ans (nft_own [''add'', ''chain''] [''input'', ''{ type filter hook input priority -5 ; policy accept ; }''])) (\<lambda>_.
     sc_bind (sc_each (\<lambda>(s, ty). nft_checked ans (nft_own [''add'', ''set''] [s, ''{ type '' @ ty @ '' ; flags timeout ; }'']))
       [(ban_set_v4, ''ipv4_addr''), (ban_set_v6, ''ipv6_addr'')]) (\<lambda>_.
     sc_bind (run_checked ans (nft_own [''list'', ''chain''] [''input''])) (\<lambda>listing.
     sc_bind (if str_contains ban_set_v4 (co_stdout listing) then sc_ret () else nft_checked ans (nft_drop_rule ''ip'' ban_set_v4)) (\<lambda>_.
       if str_contains ban_set_v6 (co_stdout listing) then sc_ret () else nft_checked ans (nft_drop_rule ''ip6'' ban_set_v6))))))"

definition nft_listing :: argv where
  "nft_listing = nft_own [''-a'', ''list'', ''chain''] [''input'']"

definition nft_find_handle :: "answers \<Rightarrow> port_rule \<Rightarrow> (distro_error, u64 option) host" where
  "nft_find_handle ans r =
     sc_bind (run_checked ans nft_listing) (\<lambda>listing. sc_ret (nft_handle_for (co_stdout listing) r))"

definition nft_is_active :: "(str \<Rightarrow> bool) \<Rightarrow> answers \<Rightarrow> (distro_error, bool) host" where
  "nft_is_active ex ans =
     (if program_available ex ''nft'' then
        sc_bind (run_cmd ans [''nft'', ''list'', ''ruleset'']) (\<lambda>out. sc_ret (co_success out))
      else sc_ret False)"

definition nft_accept_rule :: "port_rule \<Rightarrow> argv" where
  "nft_accept_rule r =
     nft_own [''add'', ''rule'']
       (''input'' # (case fr_source r of None \<Rightarrow> [] | Some src \<Rightarrow> [if cidr_is_v6 src then ''ip6'' else ''ip'', ''saddr'', src])
        @ [proto_as_str (fr_proto r), ''dport'', show_word (fr_port r), ''accept'', ''comment'', quote @ marked_comment r @ quote])"

definition nft_open_port :: "answers \<Rightarrow> port_rule \<Rightarrow> (distro_error, unit) host" where
  "nft_open_port ans r =
     sc_bind (sc_of (validate_rule r)) (\<lambda>_.
     sc_bind (nft_ensure_table ans) (\<lambda>_.
     sc_bind (nft_find_handle ans r) (\<lambda>found.
       if found \<noteq> None then sc_ret () else nft_checked ans (nft_accept_rule r))))"

definition nft_delete_rule :: "u64 \<Rightarrow> argv" where
  "nft_delete_rule handle = nft_own [''delete'', ''rule''] [''input'', ''handle'', show_word handle]"

definition nft_close_port :: "answers \<Rightarrow> port_rule \<Rightarrow> (distro_error, unit) host" where
  "nft_close_port ans r =
     sc_bind (sc_of (validate_rule r)) (\<lambda>_.
     sc_bind (sc_try (nft_find_handle ans r)) (\<lambda>found.
       case (case found of Inl _ \<Rightarrow> None | Inr v \<Rightarrow> v) of
         None \<Rightarrow> sc_ret ()
       | Some handle \<Rightarrow> nft_checked ans (nft_delete_rule handle)))"

definition nft_list_rules :: "answers \<Rightarrow> (distro_error, port_rule list) host" where
  "nft_list_rules ans =
     sc_bind (run_cmd ans (nft_own [''list'', ''chain''] [''input''])) (\<lambda>out.
       sc_ret (if co_success out then parse_nft_rules (co_stdout out) else []))"

definition nft_ban_ip :: "answers \<Rightarrow> ip_addr \<Rightarrow> u32 option \<Rightarrow> (distro_error, unit) host" where
  "nft_ban_ip ans ip ttl =
     sc_bind (nft_ensure_table ans) (\<lambda>_.
       nft_checked ans (nft_own [''add'', ''element''] [ban_set_for ip,
         case ttl of Some t \<Rightarrow> ''{ '' @ show_ip ip @ '' timeout '' @ show_word t @ ''s }'' | None \<Rightarrow> ''{ '' @ show_ip ip @ '' }'']))"

definition nft_unban_ip :: "answers \<Rightarrow> ip_addr \<Rightarrow> (distro_error, unit) host" where
  "nft_unban_ip ans ip =
     (let c = nft_own [''delete'', ''element''] [ban_set_for ip, ''{ '' @ show_ip ip @ '' }'']
      in sc_bind (run_cmd ans c) (fails_unless c ''No such file''))"

definition nft_list_bans :: "answers \<Rightarrow> (distro_error, ip_addr list) host" where
  "nft_list_bans ans =
     sc_collect (\<lambda>s. sc_bind (run_cmd ans (nft_own [''list'', ''set''] [s])) (\<lambda>out.
       sc_ret (if co_success out then parse_nft_set_elements (co_stdout out) else []))) [ban_set_v4, ban_set_v6]"

section \<open>No firewall, and the choice\<close>

definition no_firewall :: "str \<Rightarrow> distro_error" where
  "no_firewall op =
     CommandFailedErr (''firewall::'' @ op) (- 1)
       ''no firewall is installed on this host (looked for firewalld, ufw and nft), so there is nothing to change''"

record fw_backend =
  fb_name :: str
  fb_is_active :: "(distro_error, bool) host"
  fb_open_port :: "port_rule \<Rightarrow> (distro_error, unit) host"
  fb_close_port :: "port_rule \<Rightarrow> (distro_error, unit) host"
  fb_list_rules :: "(distro_error, port_rule list) host"
  fb_ban_ip :: "ip_addr \<Rightarrow> u32 option \<Rightarrow> (distro_error, unit) host"
  fb_unban_ip :: "ip_addr \<Rightarrow> (distro_error, unit) host"
  fb_list_bans :: "(distro_error, ip_addr list) host"

definition firewalld_backend :: "answers \<Rightarrow> fw_backend" where
  "firewalld_backend ans =
     \<lparr>fb_name = ''firewalld'', fb_is_active = fd_is_active ans, fb_open_port = fd_open_port ans, fb_close_port = fd_close_port ans,
      fb_list_rules = fd_list_rules ans, fb_ban_ip = fd_ban_ip ans, fb_unban_ip = fd_unban_ip ans, fb_list_bans = fd_list_bans ans\<rparr>"

definition ufw_backend :: "answers \<Rightarrow> fw_backend" where
  "ufw_backend ans =
     \<lparr>fb_name = ''ufw'', fb_is_active = ufw_is_active ans, fb_open_port = ufw_open_port ans, fb_close_port = ufw_close_port ans,
      fb_list_rules = ufw_list_rules ans, fb_ban_ip = ufw_ban_ip ans, fb_unban_ip = ufw_unban_ip ans, fb_list_bans = ufw_list_bans ans\<rparr>"

definition nftables_backend :: "(str \<Rightarrow> bool) \<Rightarrow> answers \<Rightarrow> fw_backend" where
  "nftables_backend ex ans =
     \<lparr>fb_name = ''nftables'', fb_is_active = nft_is_active ex ans, fb_open_port = nft_open_port ans, fb_close_port = nft_close_port ans,
      fb_list_rules = nft_list_rules ans, fb_ban_ip = nft_ban_ip ans, fb_unban_ip = nft_unban_ip ans, fb_list_bans = nft_list_bans ans\<rparr>"

definition unmanaged_backend :: fw_backend where
  "unmanaged_backend =
     \<lparr>fb_name = ''none'', fb_is_active = sc_ret False,
      fb_open_port = (\<lambda>r. sc_bind (sc_of (validate_rule r)) (\<lambda>_. sc_fail (no_firewall ''open_port''))),
      fb_close_port = (\<lambda>r. sc_bind (sc_of (validate_rule r)) (\<lambda>_. sc_fail (no_firewall ''close_port''))),
      fb_list_rules = sc_ret [], fb_ban_ip = (\<lambda>_ _. sc_fail (no_firewall ''ban_ip'')),
      fb_unban_ip = (\<lambda>_. sc_fail (no_firewall ''unban_ip'')), fb_list_bans = sc_ret []\<rparr>"

fun preference :: "family \<Rightarrow> str list" where
  "preference Rhel = [''firewalld'', ''ufw'', ''nft'']"
| "preference Debian = [''ufw'', ''nft'', ''firewalld'']"

fun first_choice :: "(str \<Rightarrow> bool) \<Rightarrow> answers \<Rightarrow> str list \<Rightarrow> fw_backend" where
  "first_choice ex ans [] = unmanaged_backend"
| "first_choice ex ans (p # ps) =
     (if p = ''firewalld'' \<and> program_available ex ''firewall-cmd'' then firewalld_backend ans
      else if p = ''ufw'' \<and> program_available ex ''ufw'' then ufw_backend ans
      else if p = ''nft'' \<and> program_available ex ''nft'' then nftables_backend ex ans
      else first_choice ex ans ps)"

definition detect_firewall :: "(str \<Rightarrow> bool) \<Rightarrow> answers \<Rightarrow> family \<Rightarrow> fw_backend" where
  "detect_firewall ex ans fam = first_choice ex ans (preference fam)"

section \<open>The contract of a backend\<close>

text \<open>
  What the operations rely on: an invalid rule is refused before anything is run, every call only adds
  commands to those that were run before, and it never fails with a validation error of its own for a
  valid rule unless the firewall said so.
\<close>

locale fw_contract =
  fixes b :: fw_backend
  assumes open_invalid: "validate_rule r = Inl e \<Longrightarrow> fb_open_port b r h = (h, Inl e)"
    and close_invalid: "validate_rule r = Inl e \<Longrightarrow> fb_close_port b r h = (h, Inl e)"
    and active_grows: "emits (\<lambda>_. True) (fb_is_active b)"
    and open_grows: "emits (\<lambda>_. True) (fb_open_port b r)"
    and close_grows: "emits (\<lambda>_. True) (fb_close_port b r)"
    and rules_grow: "emits (\<lambda>_. True) (fb_list_rules b)"
    and bans_grow: "emits (\<lambda>_. True) (fb_list_bans b)"
begin

lemma opened_is_valid: "fb_open_port b r h = (h1, Inr x) \<Longrightarrow> is_ok (validate_rule r)"
  using open_invalid [of r] by (cases "validate_rule r") auto

lemma closed_is_valid: "fb_close_port b r h = (h1, Inr x) \<Longrightarrow> is_ok (validate_rule r)"
  using close_invalid [of r] by (cases "validate_rule r") auto

lemma keeps_history:
  "prefix h (fst (fb_open_port b r h))" "prefix h (fst (fb_close_port b r h))" "prefix h (fst (fb_is_active b h))"
  "prefix h (fst (fb_list_rules b h))" "prefix h (fst (fb_list_bans b h))"
  using emits_grows [OF open_grows] emits_grows [OF close_grows] emits_grows [OF active_grows] emits_grows [OF rules_grow]
    emits_grows [OF bans_grow] by blast+

end

lemma emits_if [intro]: "(c \<Longrightarrow> emits P m) \<Longrightarrow> (\<not> c \<Longrightarrow> emits P n) \<Longrightarrow> emits P (if c then m else n)"
  by simp

lemma emits_tolerating [intro]: "P c \<Longrightarrow> emits P (run_tolerating ans c ts)"
  unfolding run_tolerating_def by (intro emits_bind emits_run emits_if emits_ret) simp_all

lemma emits_unless [intro]: "emits P (fails_unless c t out)"
  unfolding fails_unless_def by (intro emits_if emits_ret)

lemma emits_nft_checked [intro]: "P c \<Longrightarrow> emits P (nft_checked ans c)"
  unfolding nft_checked_def by (intro emits_bind emits_checked emits_ret) simp

lemma emits_collect [intro]: "(\<And>x. x \<in> set xs \<Longrightarrow> emits P (f x)) \<Longrightarrow> emits P (sc_collect f xs)"
  by (induction xs) auto

lemma emits_option [intro]: "emits P m \<Longrightarrow> (\<And>x. emits P (f x)) \<Longrightarrow> emits P (case v of None \<Rightarrow> m | Some x \<Rightarrow> f x)"
  by (cases v) simp_all

lemma emits_pair [intro]: "(\<And>x y. emits P (f x y)) \<Longrightarrow> emits P (case v of (x, y) \<Rightarrow> f x y)"
  by (cases v) simp

lemmas emits_intros = emits_bind emits_run emits_checked emits_each emits_collect emits_try emits_ret emits_if emits_tolerating
  emits_nft_checked emits_unless emits_option emits_pair emits_map_err

lemmas backend_defs = fd_reload_def fd_is_active_def fd_open_port_def fd_close_port_def fd_list_rules_def fd_list_bans_def
  ufw_is_active_def ufw_open_port_def ufw_close_port_def ufw_list_rules_def ufw_list_bans_def
  nft_is_active_def nft_open_port_def nft_close_port_def nft_list_rules_def nft_list_bans_def nft_find_handle_def nft_ensure_table_def

lemma checked_first [simp]: "sc_bind (sc_of (Inl e)) f h = (h, Inl e)" "sc_bind (sc_of (Inr x)) f h = f x h"
  by (simp_all add: script_simps)

lemma backends_grow:
  "emits (\<lambda>_. True) (fd_is_active ans)" "emits (\<lambda>_. True) (fd_open_port ans r)" "emits (\<lambda>_. True) (fd_close_port ans r)"
  "emits (\<lambda>_. True) (fd_list_rules ans)" "emits (\<lambda>_. True) (fd_list_bans ans)"
  "emits (\<lambda>_. True) (ufw_is_active ans)" "emits (\<lambda>_. True) (ufw_open_port ans r)" "emits (\<lambda>_. True) (ufw_close_port ans r)"
  "emits (\<lambda>_. True) (ufw_list_rules ans)" "emits (\<lambda>_. True) (ufw_list_bans ans)"
  "emits (\<lambda>_. True) (nft_is_active ex ans)" "emits (\<lambda>_. True) (nft_open_port ans r)" "emits (\<lambda>_. True) (nft_close_port ans r)"
  "emits (\<lambda>_. True) (nft_list_rules ans)" "emits (\<lambda>_. True) (nft_list_bans ans)"
  unfolding backend_defs Let_def by (intro emits_intros TrueI)+

interpretation fd: fw_contract "firewalld_backend ans"
  by unfold_locales (simp_all add: firewalld_backend_def backends_grow, simp_all add: fd_open_port_def fd_close_port_def)

interpretation ufw: fw_contract "ufw_backend ans"
  by unfold_locales (simp_all add: ufw_backend_def backends_grow, simp_all add: ufw_open_port_def ufw_close_port_def Let_def)

interpretation nft: fw_contract "nftables_backend ex ans"
  by unfold_locales (simp_all add: nftables_backend_def backends_grow, simp_all add: nft_open_port_def nft_close_port_def)

interpretation unmanaged: fw_contract unmanaged_backend
  by unfold_locales (simp_all add: unmanaged_backend_def emits_ret emits_bind)

section \<open>Bans\<close>

lemma run_tolerating_cases:
  "run_tolerating ans c ts h = (h @ [c], Inr ()) \<or> (\<exists>e. run_tolerating ans c ts h = (h @ [c], Inl e))"
  by (cases "ans (h @ [c])") (auto simp: run_tolerating_def script_simps)

lemma run_tolerating_ok: "run_tolerating ans c ts h = (h1, Inr x) \<Longrightarrow> h1 = h @ [c]"
  using run_tolerating_cases [of ans c ts h] by auto

definition new_set_commands :: "str \<times> str \<Rightarrow> argv list" where
  "new_set_commands sf =
     [firewall_cmd [''--permanent'', ''--new-ipset='' @ fst sf, ''--type=hash:ip'', ''--option=family='' @ snd sf,
        ''--option=timeout=0'', ''--option=maxelem=65536''],
      firewall_cmd [''--permanent'', ''--add-rich-rule=rule source ipset='' @ quote @ fst sf @ quote @ '' drop'']]"

lemma fd_new_set_ok: "fd_new_set ans sf h = (h1, Inr x) \<Longrightarrow> h1 = h @ new_set_commands sf"
  by (cases sf) (auto simp: fd_new_set_def sc_bind_ok new_set_commands_def dest!: run_tolerating_ok)

definition set_commands :: "argv list" where
  "set_commands = new_set_commands (ban_set_v4, ''inet'') @ new_set_commands (ban_set_v6, ''inet6'')"

lemma ensure_sets_cases:
  "case fd_ensure_ban_sets ans h of
     (h1, Inr _) \<Rightarrow> h1 = h @ set_commands @ [firewall_cmd [''--reload'']]
   | (h1, Inl _) \<Rightarrow> prefix h h1"
proof -
  have "prefix h (fst (fd_ensure_ban_sets ans h))"
    unfolding fd_ensure_ban_sets_def fd_new_set_def fd_reload_def
    by (intro emits_grows [where P = "\<lambda>_. True"] emits_intros) simp_all
  moreover have "h1 = h @ set_commands @ [firewall_cmd [''--reload'']]" if "fd_ensure_ban_sets ans h = (h1, Inr x)" for h1 x
    using that
    by (auto simp: fd_ensure_ban_sets_def fd_reload_def sc_bind_ok run_checked_ok sc_ret_def set_commands_def dest!: fd_new_set_ok)
  ultimately show ?thesis by (auto split: prod.splits sum.splits)
qed

text \<open>
  C28: Reloading firewalld throws away all bans in force, as they are not permanent. A ban reads the entries
  of its set first: when that works, the only other command adds the address, and no reload happens.
  Otherwise a ban that succeeds has created both sets and reloaded before it added the address.
\<close>

theorem bans_outlive_the_next_ban:
  "let look = fd_get_entries (ban_set_for ip);
       here = (case ans (h @ [look]) of Inr out \<Rightarrow> co_success out | Inl _ \<Rightarrow> False)
   in case fd_ban_ip ans ip ttl h of
        (h1, Inr _) \<Rightarrow> h1 = h @ [look] @ (if here then [] else set_commands @ [firewall_cmd [''--reload'']]) @ [fd_add_entry ip ttl]
      | (h1, Inl _) \<Rightarrow> if here then h1 = h @ [look, fd_add_entry ip ttl] else prefix (h @ [look]) h1"
proof -
  let ?look = "fd_get_entries (ban_set_for ip)"
  define here where "here = (case ans (h @ [?look]) of Inr out \<Rightarrow> co_success out | Inl _ \<Rightarrow> False)"
  have present: "fd_ban_set_present ans (ban_set_for ip) h = (h @ [?look], Inr here)"
    by (auto simp: fd_ban_set_present_def script_simps here_def split: sum.splits)
  show ?thesis
  proof (cases here)
    case True
    then have "fd_ban_ip ans ip ttl h = run_tolerating ans (fd_add_entry ip ttl) [''already_enabled'', ''already enabled''] (h @ [?look])"
      by (simp add: fd_ban_ip_def sc_bind_def present sc_ret_def)
    then show ?thesis
      using True run_tolerating_cases [of ans "fd_add_entry ip ttl" "[''already_enabled'', ''already enabled'']" "h @ [?look]"]
      unfolding here_def [symmetric] Let_def by auto
  next
    case False
    then have "fd_ban_ip ans ip ttl h = sc_bind (fd_ensure_ban_sets ans)
        (\<lambda>_. run_tolerating ans (fd_add_entry ip ttl) [''already_enabled'', ''already enabled'']) (h @ [?look])"
      by (simp add: fd_ban_ip_def sc_bind_def present)
    then show ?thesis
      using False ensure_sets_cases [where ans = ans and h = "h @ [?look]"]
        run_tolerating_cases [of ans "fd_add_entry ip ttl" "[''already_enabled'', ''already enabled'']" "fst (fd_ensure_ban_sets ans (h @ [?look]))"]
      unfolding here_def [symmetric] Let_def
      by (auto simp: sc_bind_def split: prod.splits sum.splits)
  qed
qed

section \<open>Which rules are deleted\<close>

definition listed_as_ours :: "str \<Rightarrow> port_rule \<Rightarrow> u64 \<Rightarrow> bool" where
  "listed_as_ours listing r n \<longleftrightarrow>
     (\<exists>line \<in> set (str_lines listing). \<exists>p raw at. raw \<in> set (str_lines line) \<and> nft_rule_line raw = Some p \<and> str_contains nft_mark (str_trim raw)
        \<and> fr_port p = fr_port r \<and> fr_proto p = fr_proto r \<and> fr_source p = fr_source r
        \<and> str_find ''# handle '' line = Some at \<and> parse_u64 (str_trim (drop (at + 9) line)) = Some n)"

text \<open>
  Closing a port under nftables deletes at most one rule: one that the listing of the panel's chain
  shows under the panel's mark with the very port, protocol and source, by the handle it has there.
\<close>

theorem nft_closes_only_its_rule:
  "let h1 = fst (nft_close_port ans r h) in
   h1 = h \<or> h1 = h @ [nft_listing]
   \<or> (\<exists>n out. h1 = h @ [nft_listing, nft_delete_rule n] \<and> ans (h @ [nft_listing]) = Inr out \<and> co_success out \<and> listed_as_ours (co_stdout out) r n)"
proof (cases "validate_rule r")
  case (Inl e)
  then show ?thesis by (simp add: nft_close_port_def)
next
  case (Inr u)
  show ?thesis
  proof (cases "\<exists>out n. ans (h @ [nft_listing]) = Inr out \<and> co_success out \<and> nft_handle_for (co_stdout out) r = Some n")
    case True
    then obtain out n where at: "ans (h @ [nft_listing]) = Inr out" "co_success out" "nft_handle_for (co_stdout out) r = Some n" by blast
    then have "fst (nft_close_port ans r h) = h @ [nft_listing, nft_delete_rule n]"
      using Inr by (auto simp: nft_close_port_def nft_find_handle_def nft_checked_def run_checked_def script_simps split: sum.splits)
    moreover have "listed_as_ours (co_stdout out) r n"
      unfolding listed_as_ours_def by (rule closing_deletes_the_same_rule [OF at(3)])
    ultimately show ?thesis using at unfolding Let_def by blast
  next
    case False
    then have "fst (nft_close_port ans r h) = h @ [nft_listing]"
      using Inr by (auto simp: nft_close_port_def nft_find_handle_def run_checked_def script_simps split: sum.splits option.splits)
    then show ?thesis by (simp add: Let_def)
  qed
qed

text \<open>
  A listing that fails for whatever reason is taken for a chain that does not exist: the call succeeds
  and the rule, if there is one, stays.
\<close>

lemma failed_listing_reads_as_closed:
  assumes "validate_rule r = Inr ()" "ans (h @ [nft_listing]) = Inl e"
  shows "nft_close_port ans r h = (h @ [nft_listing], Inr ())"
  using assms by (simp add: nft_close_port_def nft_find_handle_def run_checked_def script_simps)

text \<open>
  Opening a port under nftables adds at most one accept rule, as the last command, and none when the
  listing already has one of the panel's for the same port, protocol and source.
\<close>

lemma nft_opens_once:
  assumes "validate_rule r = Inr ()" "nft_ensure_table ans h = (h1, Inr ())" "ans (h1 @ [nft_listing]) = Inr out" "co_success out"
  shows "fst (nft_open_port ans r h) = h1 @ [nft_listing] @ (if nft_handle_for (co_stdout out) r = None then [nft_accept_rule r] else [])"
  using assms
  by (auto simp: nft_open_port_def nft_find_handle_def nft_checked_def run_checked_def sc_bind_def sc_of_def sc_ret_def sc_fail_def run_cmd_def
      split: sum.splits)

text \<open>
  The name of the set for IPv4 is the beginning of the other set's. So a chain that only has the rule
  for IPv6 never gets the rule for IPv4 back, and the bans of IPv4 addresses drop nothing.
\<close>

lemma v6_rule_hides_v4: "str_contains ban_set_v6 l \<Longrightarrow> str_contains ban_set_v4 l"
proof -
  have "ban_set_v6 = ban_set_v4 @ ''6''" by (simp add: ban_set_v4_def ban_set_v6_def)
  then show "str_contains ban_set_v6 l \<Longrightarrow> str_contains ban_set_v4 l"
    unfolding str_contains_iff by (metis sublist_append_rightI sublist_order.order_trans)
qed

text \<open>
  A comment may hold a quote. Between the quotes of the nft rule it then ends the string, and what
  follows is read as more of the ruleset; the same comment is reported back cut off at the quote.
\<close>

definition quoting_rule :: port_rule where
  "quoting_rule = \<lparr>fr_port = 80, fr_proto = Tcp, fr_source = None, fr_comment = ''x'' @ quote @ '' ; flush ruleset ; '' @ quote\<rparr>"

lemma comments_can_end_the_string:
  "validate_rule quoting_rule = Inr ()"
  "last (nft_accept_rule quoting_rule) = quote @ ''unihelm: x'' @ quote @ '' ; flush ruleset ; '' @ quote @ quote"
  by (simp_all add: validate_rule_def quoting_rule_def quote_def is_control_def is_ascii_control_def is_continuation_def byte_def
      nft_accept_rule_def nft_own_def marked_comment_def mark_def)

section \<open>Lifting a ban under ufw\<close>

text \<open>
  The rules are deleted by the numbers of the listing, the highest first, and the first deletion that
  fails is the last one that is tried.
\<close>

lemma deletes_in_order:
  "\<exists>k. fst (sc_each (\<lambda>n. sc_bind (run_cmd ans (ufw_delete_cmd n)) (fails_unless (ufw_delete_cmd n) [])) ns h) = h @ map ufw_delete_cmd (take k ns)
     \<and> (snd (sc_each (\<lambda>n. sc_bind (run_cmd ans (ufw_delete_cmd n)) (fails_unless (ufw_delete_cmd n) [])) ns h) = Inr () \<longrightarrow> length ns \<le> k)"
proof (induction ns arbitrary: h)
  case (Cons n ns)
  let ?one = "\<lambda>n. sc_bind (run_cmd ans (ufw_delete_cmd n)) (fails_unless (ufw_delete_cmd n) [])"
  have one: "fst (?one n h) = h @ [ufw_delete_cmd n]"
    by (auto simp: fails_unless_def script_simps split: sum.splits)
  show ?case
  proof (cases "snd (?one n h)")
    case (Inl e)
    then show ?thesis using one by (intro exI [of _ 1]) (cases "?one n h", simp add: sc_bind_Inl)
  next
    case (Inr x)
    obtain k where k: "fst (sc_each ?one ns (h @ [ufw_delete_cmd n])) = (h @ [ufw_delete_cmd n]) @ map ufw_delete_cmd (take k ns)"
      "snd (sc_each ?one ns (h @ [ufw_delete_cmd n])) = Inr () \<longrightarrow> length ns \<le> k"
      using Cons.IH [of "h @ [ufw_delete_cmd n]"] by blast
    have "sc_each ?one (n # ns) h = sc_each ?one ns (h @ [ufw_delete_cmd n])"
      using one Inr by (cases "?one n h") (simp add: sc_bind_Inr)
    then show ?thesis using k by (intro exI [of _ "Suc k"]) simp
  qed
qed (simp add: sc_ret_def)

lemma sorted_indices: "sorted_wrt (\<ge>) (ufw_ban_indices t ip)"
  unfolding ufw_ban_indices_def by (simp add: sorted_wrt_rev)

theorem ufw_unban_goes_downwards:
  "let look = [''ufw'', ''status'', ''numbered'']; h1 = fst (ufw_unban_ip ans ip h) in
   h1 = h @ [look]
   \<or> (\<exists>out ns. ans (h @ [look]) = Inr out \<and> co_success out \<and> h1 = h @ [look] @ map ufw_delete_cmd ns \<and> sorted_wrt (\<ge>) ns
        \<and> (if snd (ufw_unban_ip ans ip h) = Inr () then ns = ufw_ban_indices (co_stdout out) ip else prefix ns (ufw_ban_indices (co_stdout out) ip)))"
proof (cases "\<exists>out. ans (h @ [[''ufw'', ''status'', ''numbered'']]) = Inr out \<and> co_success out")
  case True
  let ?look = "[''ufw'', ''status'', ''numbered'']"
  let ?one = "\<lambda>n. sc_bind (run_cmd ans (ufw_delete_cmd n)) (fails_unless (ufw_delete_cmd n) [])"
  obtain out where out: "ans (h @ [?look]) = Inr out" "co_success out" using True by blast
  let ?ns = "ufw_ban_indices (co_stdout out) ip"
  have "run_checked ans ?look h = (h @ [?look], Inr out)" using out by (simp add: run_checked_ok)
  then have run: "ufw_unban_ip ans ip h = sc_each ?one ?ns (h @ [?look])"
    unfolding ufw_unban_ip_def by (simp add: sc_bind_def)
  obtain k where k: "fst (sc_each ?one ?ns (h @ [?look])) = (h @ [?look]) @ map ufw_delete_cmd (take k ?ns)"
    "snd (sc_each ?one ?ns (h @ [?look])) = Inr () \<longrightarrow> length ?ns \<le> k"
    using deletes_in_order by blast
  have "sorted_wrt (\<ge>) (take k ?ns)" using sorted_indices by (rule sorted_wrt_take)
  then show ?thesis
    unfolding Let_def run using out k by (intro disjI2 exI [of _ out] exI [of _ "take k ?ns"]) (auto simp: take_is_prefix)
next
  case False
  then show ?thesis by (auto simp: ufw_unban_ip_def run_checked_def script_simps split: sum.splits)
qed

section \<open>The choice of the firewall\<close>

text \<open>
  A host gets the backend of a program it has, and none only when it has none of the three; the family
  of the distribution decides between several.
\<close>

lemma firewall_is_what_is_installed:
  "fb_name (detect_firewall ex ans fam) =
     (let fd = program_available ex ''firewall-cmd''; u = program_available ex ''ufw''; n = program_available ex ''nft'' in
      if fam = Rhel \<and> fd then ''firewalld'' else if u then ''ufw'' else if n then ''nftables'' else if fd then ''firewalld'' else ''none'')"
  by (cases fam) (simp_all add: detect_firewall_def Let_def firewalld_backend_def ufw_backend_def nftables_backend_def unmanaged_backend_def)

end
