(* ===== verification/Fw_Ports.thy ===== *)
theory Fw_Ports
  imports Fw_Backends Models "HOL-Library.Product_Lexorder"
begin

text \<open>
  The panel's own record of the firewall (\<open>unihelm-db/src/firewall.rs\<close>) and the operations on single
  ports (\<open>unihelm-ops/src/fwops.rs\<close>): opening and closing a port, the rule for the local mail server, and
  the merge of what the firewall enforces with what was recorded. The state is the commands run on the
  host and the table of rules. The lemmas show that the table follows the firewall, which ports cannot be
  opened or closed, and what the merge reports.
\<close>

section \<open>The table of rules\<close>

record fw_rule_row =
  fwr_id :: int
  fwr_port :: int
  fwr_proto :: str
  fwr_source :: "str option"
  fwr_comment :: str
  fwr_created_at :: str

record fw_rule_record =
  fwc_id :: int
  fwc_port :: u16
  fwc_proto :: str
  fwc_source :: "str option"
  fwc_comment :: str
  fwc_created_at :: int

definition fw_record_of_row :: "'j codec \<Rightarrow> fw_rule_row \<Rightarrow> fw_rule_record db_res" where
  "fw_record_of_row c r =
     (if fwr_port r < 0 \<or> 2 ^ 16 \<le> fwr_port r then
        Inl (Corrupt ''fw_rules.port'' (''`'' @ show_int (fwr_port r) @ ''` is not a port number''))
      else r_bind (from_sql_time c (fwr_created_at r)) (\<lambda>created.
        Inr \<lparr>fwc_id = fwr_id r, fwc_port = of_int (fwr_port r), fwc_proto = fwr_proto r, fwc_source = fwr_source r,
             fwc_comment = fwr_comment r, fwc_created_at = created\<rparr>))"

record fw_table =
  ft_rows :: "fw_rule_row list"
  ft_seq :: int

text \<open>\<open>COALESCE(source, '')\<close>\<close>

definition text_or_empty :: "str option \<Rightarrow> str" where
  "text_or_empty s = (case s of None \<Rightarrow> [] | Some t \<Rightarrow> t)"

definition fw_row_key :: "fw_rule_row \<Rightarrow> int \<times> str \<times> str" where
  "fw_row_key r = (fwr_port r, fwr_proto r, text_or_empty (fwr_source r))"

text \<open>Insert, or on a conflict of the unique index set the comment of the row that is there.\<close>

definition record_fw_rule :: "'j codec \<Rightarrow> int \<Rightarrow> u16 \<Rightarrow> str \<Rightarrow> str option \<Rightarrow> str \<Rightarrow> fw_table \<Rightarrow> fw_table" where
  "record_fw_rule c now port proto source comment db =
     (let k = (uint port, proto, text_or_empty source) in
      if list_ex (\<lambda>r. fw_row_key r = k) (ft_rows db) then
        db\<lparr>ft_rows := map (\<lambda>r. if fw_row_key r = k then r\<lparr>fwr_comment := comment\<rparr> else r) (ft_rows db)\<rparr>
      else
        \<lparr>ft_rows = ft_rows db @ [\<lparr>fwr_id = ft_seq db + 1, fwr_port = uint port, fwr_proto = proto, fwr_source = source,
           fwr_comment = comment, fwr_created_at = to_sql_time c now\<rparr>], ft_seq = ft_seq db + 1\<rparr>)"

definition forget_fw_rule :: "u16 \<Rightarrow> str \<Rightarrow> str option \<Rightarrow> fw_table \<Rightarrow> fw_table \<times> nat" where
  "forget_fw_rule port proto source db =
     (let hit = (\<lambda>r. fw_row_key r = (uint port, proto, text_or_empty source)) in
      (db\<lparr>ft_rows := filter (\<lambda>r. \<not> hit r) (ft_rows db)\<rparr>, length (filter hit (ft_rows db))))"

definition fw_rules :: "'j codec \<Rightarrow> fw_table \<Rightarrow> fw_rule_record list db_res" where
  "fw_rules c db = collect_results (map (fw_record_of_row c) (sort_key fw_row_key (ft_rows db)))"

section \<open>The merge\<close>

record merged_rule =
  mg_port :: u16
  mg_proto :: str
  mg_source :: "str option"
  mg_comment :: str
  mg_in_panel :: bool
  mg_in_backend :: bool
  mg_drift :: "str option"

definition drift_missing :: str where "drift_missing = ''missing_from_backend''"
definition drift_unrecorded :: str where "drift_unrecorded = ''unrecorded''"

type_synonym rule_id = "u16 \<times> str \<times> str"

definition rule_key :: "u16 \<Rightarrow> str \<Rightarrow> str option \<Rightarrow> rule_id" where
  "rule_key port proto source =
     (port, to_ascii_lowercase proto, text_or_empty (option_filter (\<lambda>s. s \<noteq> []) (map_option str_trim source)))"

text \<open>A \<open>BTreeMap\<close>: its entries in the order of the keys.\<close>

fun tree_insert :: "'k::linorder \<Rightarrow> 'v \<Rightarrow> ('k \<times> 'v) list \<Rightarrow> ('k \<times> 'v) list" where
  "tree_insert k v [] = [(k, v)]"
| "tree_insert k v ((l, w) # m) =
     (if k = l then (k, v) # m else if k < l then (k, v) # (l, w) # m else (l, w) # tree_insert k v m)"

definition merge_intent :: "(rule_id \<times> merged_rule) list \<Rightarrow> fw_rule_record \<Rightarrow> (rule_id \<times> merged_rule) list" where
  "merge_intent m r =
     tree_insert (rule_key (fwc_port r) (fwc_proto r) (fwc_source r))
       \<lparr>mg_port = fwc_port r, mg_proto = to_ascii_lowercase (fwc_proto r), mg_source = fwc_source r, mg_comment = fwc_comment r,
        mg_in_panel = True, mg_in_backend = False, mg_drift = Some drift_missing\<rparr> m"

definition live_key :: "port_rule \<Rightarrow> rule_id" where
  "live_key r = rule_key (fr_port r) (proto_as_str (fr_proto r)) (fr_source r)"

definition merge_live :: "(rule_id \<times> merged_rule) list \<Rightarrow> port_rule \<Rightarrow> (rule_id \<times> merged_rule) list" where
  "merge_live m r =
     (case map_of m (live_key r) of
        Some existing \<Rightarrow> tree_insert (live_key r) (existing\<lparr>mg_in_backend := True, mg_drift := None\<rparr>) m
      | None \<Rightarrow> tree_insert (live_key r)
          \<lparr>mg_port = fr_port r, mg_proto = proto_as_str (fr_proto r), mg_source = fr_source r, mg_comment = fr_comment r,
           mg_in_panel = False, mg_in_backend = True, mg_drift = Some drift_unrecorded\<rparr> m)"

definition merge_tree :: "port_rule list \<Rightarrow> fw_rule_record list \<Rightarrow> (rule_id \<times> merged_rule) list" where
  "merge_tree backend intent = foldl merge_live (foldl merge_intent [] intent) backend"

definition merge_rules :: "port_rule list \<Rightarrow> fw_rule_record list \<Rightarrow> merged_rule list" where
  "merge_rules backend intent = map snd (merge_tree backend intent)"

section \<open>The operations\<close>

definition port_rule_of :: "u16 \<Rightarrow> str \<Rightarrow> str option \<Rightarrow> str \<Rightarrow> port_rule res" where
  "port_rule_of port proto source comment =
     r_bind (ok_or (with_field (new_error InvalidInput ''proto must be `tcp` or `udp`'') ''proto'') (proto_parse proto)) (\<lambda>p.
     let r = \<lparr>fr_port = port, fr_proto = p, fr_source = option_filter (\<lambda>s. s \<noteq> []) (map_option str_trim source), fr_comment = comment\<rparr>
     in r_bind (r_map_err uni_error_of_distro (validate_rule r)) (\<lambda>_. Inr r))"

definition mta_port :: u16 where "mta_port = 25"
definition mta_rule_comment :: str where "mta_rule_comment = ''unihelm mail from containers''"

definition mta_world_open_refusal :: "port_rule \<Rightarrow> bool \<Rightarrow> str option" where
  "mta_world_open_refusal r mta_is_ours =
     (if fr_port r \<noteq> mta_port \<or> fr_proto r \<noteq> Tcp \<or> \<not> mta_is_ours then None
      else if (case fr_source r of None \<Rightarrow> True | Some s \<Rightarrow> str_trim s \<in> {''0.0.0.0/0'', ''::/0'', ''[::]/0''}) then
        Some (show_word mta_port @ ''/tcp is this server's own mail transfer agent, and the panel will not open it to the internet. ''
          @ ''It relays only for this machine's loopback and its Docker networks, so opening it wider buys nothing and puts an SMTP ''
          @ ''service in front of the world that this server does not need. `mail.mta.install` opens it from the Docker subnets, ''
          @ ''which is the only source that needs it.'')
      else None)"

record 'j fw_env =
  fe_codec :: "'j codec"
  fe_now :: int
  fe_backend :: fw_backend
  fe_mta_ours :: bool
  fe_listen :: str

record fw_state =
  fs_commands :: "argv list"
  fs_rules :: fw_table

type_synonym 'a fw_op = "fw_state \<Rightarrow> fw_state \<times> 'a res"

definition on_host :: "(distro_error, 'a) host \<Rightarrow> 'a fw_op" where
  "on_host m s = (case m (fs_commands s) of (h, r) \<Rightarrow> (s\<lparr>fs_commands := h\<rparr>, r_map_err uni_error_of_distro r))"

definition on_table :: "(fw_table \<Rightarrow> fw_table) \<Rightarrow> unit fw_op" where
  "on_table f s = (s\<lparr>fs_rules := f (fs_rules s)\<rparr>, Inr ())"

definition record_rule :: "'j fw_env \<Rightarrow> port_rule \<Rightarrow> unit fw_op" where
  "record_rule env r =
     on_table (record_fw_rule (fe_codec env) (fe_now env) (fr_port r) (proto_as_str (fr_proto r)) (fr_source r) (fr_comment r))"

record port_input =
  pi_port :: u16
  pi_proto :: str
  pi_source :: "str option"
  pi_comment :: "str option"

record port_output =
  po_port :: u16
  po_proto :: str
  po_source :: "str option"
  po_comment :: str
  po_backend :: str

definition port_output_of :: "'j fw_env \<Rightarrow> port_rule \<Rightarrow> port_output" where
  "port_output_of env r =
     \<lparr>po_port = fr_port r, po_proto = proto_as_str (fr_proto r), po_source = fr_source r, po_comment = fr_comment r,
      po_backend = fb_name (fe_backend env)\<rparr>"

definition input_rule :: "port_input \<Rightarrow> port_rule res" where
  "input_rule i = port_rule_of (pi_port i) (pi_proto i) (pi_source i) (text_or_empty (pi_comment i))"

definition fw_port_open :: "'j fw_env \<Rightarrow> port_input \<Rightarrow> port_output fw_op" where
  "fw_port_open env i =
     sc_bind (sc_of (input_rule i)) (\<lambda>r.
     sc_bind (sc_of (case mta_world_open_refusal r (fe_mta_ours env) of
         Some d \<Rightarrow> Inl (with_field (new_error Conflict d) ''source'') | None \<Rightarrow> Inr ())) (\<lambda>_.
     sc_bind (on_host (fb_open_port (fe_backend env) r)) (\<lambda>_.
     sc_bind (record_rule env r) (\<lambda>_. sc_ret (port_output_of env r)))))"

subsection \<open>The panel's own port\<close>

text \<open>\<open>SocketAddr\<close> from a text: an address, a colon and a port; IPv6 in brackets, with an optional scope.\<close>

definition default_panel_port :: u16 where "default_panel_port = 8088"

definition read_port :: "str \<Rightarrow> u16 option" where
  "read_port s =
     Option.bind (read_char CHR '':'' s) (\<lambda>r.
       case read_number 10 (length r) (2 ^ 16 - 1) True r of Some (n, []) \<Rightarrow> Some (of_nat n) | _ \<Rightarrow> None)"

definition skip_scope :: "str \<Rightarrow> str option" where
  "skip_scope s =
     (case read_char CHR ''%'' s of None \<Rightarrow> Some s
      | Some r \<Rightarrow> map_option snd (read_number 10 (length r) (2 ^ 32 - 1) True r))"

definition parse_socket_addr :: "str \<Rightarrow> (ip_addr \<times> u16) option" where
  "parse_socket_addr s =
     (case Option.bind (read_ipv4 s) (\<lambda>(os, r). map_option (\<lambda>p. (V4 (of_nat (be_number 256 os)), p)) (read_port r)) of
        Some a \<Rightarrow> Some a
      | None \<Rightarrow>
          Option.bind (read_char CHR ''['' s) (\<lambda>r0. Option.bind (read_ipv6 r0) (\<lambda>(gs, r1).
          Option.bind (skip_scope r1) (\<lambda>r2. Option.bind (read_char CHR '']'' r2) (\<lambda>r3.
            map_option (\<lambda>p. (V6 (of_nat (be_number (2 ^ 16) gs)), p)) (read_port r3))))))"

definition reachable_port :: "str \<Rightarrow> u16 option" where
  "reachable_port listen =
     (case parse_socket_addr listen of
        Some (ip, port) \<Rightarrow> if is_loopback ip then None else Some port
      | None \<Rightarrow> Some default_panel_port)"

definition panel_port_refusal :: "u16 \<Rightarrow> uni_error" where
  "panel_port_refusal p =
     with_field (new_error Conflict (show_word p @ ''/tcp is the port this panel is served on. Closing it would lock you out of ''
       @ ''the panel '' @ [CHR 0xE2, CHR 0x80, CHR 0x94] @ '' and not visibly, because the browser tab you sent this from would keep ''
       @ ''working off its existing connection until you reloaded it. To move the panel elsewhere, change `panel.listen` in the ''
       @ ''configuration first; this port follows it.'')) ''port''"

definition fw_port_close :: "'j fw_env \<Rightarrow> port_input \<Rightarrow> port_output fw_op" where
  "fw_port_close env i =
     sc_bind (sc_of (input_rule i)) (\<lambda>r.
     sc_bind (sc_of (case reachable_port (fe_listen env) of
         Some p \<Rightarrow> if fr_port r = p \<and> fr_proto r = Tcp then Inl (panel_port_refusal p) else Inr () | None \<Rightarrow> Inr ())) (\<lambda>_.
     sc_bind (on_host (fb_close_port (fe_backend env) r)) (\<lambda>_.
     sc_bind (on_table (fst \<circ> forget_fw_rule (fr_port r) (proto_as_str (fr_proto r)) (fr_source r))) (\<lambda>_.
       sc_ret (port_output_of env r)))))"

record rules_output =
  ro_backend :: str
  ro_active :: bool
  ro_rules :: "merged_rule list"

definition active_or_false :: "'j fw_env \<Rightarrow> bool fw_op" where
  "active_or_false env =
     sc_bind (sc_try (on_host (fb_is_active (fe_backend env)))) (\<lambda>r. sc_ret (case r of Inl _ \<Rightarrow> False | Inr v \<Rightarrow> v))"

definition stored_rules :: "'j fw_env \<Rightarrow> fw_rule_record list fw_op" where
  "stored_rules env s = (s, r_map_err uni_error_from (fw_rules (fe_codec env) (fs_rules s)))"

definition fw_rules_op :: "'j fw_env \<Rightarrow> rules_output fw_op" where
  "fw_rules_op env =
     sc_bind (on_host (fb_list_rules (fe_backend env))) (\<lambda>live.
     sc_bind (stored_rules env) (\<lambda>intent.
     sc_bind (active_or_false env) (\<lambda>active.
       sc_ret \<lparr>ro_backend = fb_name (fe_backend env), ro_active = active, ro_rules = merge_rules live intent\<rparr>)))"

subsection \<open>The port of the local mail server\<close>

record mta_exposure =
  me_backend :: str
  me_active :: "bool option"
  me_allowed_from :: "str list"
  me_open_to_the_world :: bool

definition mta_admits :: "mta_exposure \<Rightarrow> str list \<Rightarrow> bool" where
  "mta_admits e subnets \<longleftrightarrow>
     me_active e \<noteq> Some True \<or> me_open_to_the_world e \<or> list_all (\<lambda>s. s \<in> set (me_allowed_from e)) subnets"

definition mta_port_exposure :: "'j fw_env \<Rightarrow> mta_exposure fw_op" where
  "mta_port_exposure env =
     sc_bind (sc_try (on_host (fb_list_rules (fe_backend env)))) (\<lambda>live.
     let ours = filter (\<lambda>r. fr_port r = mta_port \<and> fr_proto r = Tcp) (case live of Inl _ \<Rightarrow> [] | Inr rs \<Rightarrow> rs) in
     sc_bind (sc_try (on_host (fb_is_active (fe_backend env)))) (\<lambda>active.
       sc_ret \<lparr>me_backend = fb_name (fe_backend env), me_active = (case active of Inl _ \<Rightarrow> None | Inr v \<Rightarrow> Some v),
         me_allowed_from = List.map_filter fr_source ours, me_open_to_the_world = list_ex (\<lambda>r. fr_source r = None) ours\<rparr>))"

text \<open>\<open>trim_start_matches('[')\<close> and then the first \<open>]/\<close> becomes \<open>/\<close>.\<close>

definition firewall_spelling :: "str \<Rightarrow> str" where
  "firewall_spelling subnet =
     (let t = dropWhile (\<lambda>c. c = CHR ''['') subnet
      in case str_find '']/'' t of None \<Rightarrow> t | Some at \<Rightarrow> take at t @ ''/'' @ drop (at + length '']/'') t)"

definition allow_one :: "'j fw_env \<Rightarrow> str \<Rightarrow> str list fw_op" where
  "allow_one env subnet =
     (let source = firewall_spelling subnet in
      case port_rule_of mta_port ''tcp'' (Some source) mta_rule_comment of
        Inl _ \<Rightarrow> sc_ret []
      | Inr r \<Rightarrow>
          sc_bind (sc_try (on_host (fb_open_port (fe_backend env) r))) (\<lambda>opened.
            case opened of
              Inl _ \<Rightarrow> sc_ret []
            | Inr _ \<Rightarrow> sc_bind (on_table (record_fw_rule (fe_codec env) (fe_now env) (fr_port r) (proto_as_str (fr_proto r)) (Some source)
                (fr_comment r))) (\<lambda>_. sc_ret [source])))"

definition allow_mta_from :: "'j fw_env \<Rightarrow> str list \<Rightarrow> str list fw_op" where
  "allow_mta_from env subnets =
     (if fb_name (fe_backend env) = ''none'' then sc_ret [] else sc_collect (allow_one env) subnets)"

section \<open>The merge reports every hole once\<close>

lemma keys_tree_insert: "set (map fst (tree_insert k v m)) = insert k (set (map fst m))"
  by (induction k v m rule: tree_insert.induct) auto

lemma sorted_tree_insert:
  "sorted_wrt (\<lambda>a b. a < b) (map fst m) \<Longrightarrow> sorted_wrt (\<lambda>a b. a < b) (map fst (tree_insert k v m))"
proof (induction k v m rule: tree_insert.induct)
  case (2 k v l w m)
  then show ?case using keys_tree_insert [of k v m] by (auto simp: not_less)
qed simp

lemma map_of_tree_insert:
  "sorted_wrt (\<lambda>a b. a < b) (map fst m) \<Longrightarrow> map_of (tree_insert k v m) = (map_of m)(k \<mapsto> v)"
proof (induction k v m rule: tree_insert.induct)
  case (2 k v l w m)
  have "k < l \<Longrightarrow> k \<noteq> l" by simp
  then show ?case using 2 by (auto simp: fun_upd_twist)
qed simp

lemma fst_image_map: "fst ` set m = set (map fst m)"
  by simp

lemma sorted_merge_tree: "sorted_wrt (\<lambda>a b. a < b) (map fst (merge_tree backend intent))"
proof -
  have "sorted_wrt (\<lambda>a b. a < b) (map fst m) \<Longrightarrow> sorted_wrt (\<lambda>a b. a < b) (map fst (foldl merge_intent m intent))" for m
    by (induction intent arbitrary: m) (simp_all add: merge_intent_def sorted_tree_insert)
  moreover have "sorted_wrt (\<lambda>a b. a < b) (map fst m) \<Longrightarrow> sorted_wrt (\<lambda>a b. a < b) (map fst (foldl merge_live m backend))" for m
    by (induction backend arbitrary: m) (simp_all add: merge_live_def sorted_tree_insert split: option.split)
  ultimately show ?thesis by (simp add: merge_tree_def)
qed

definition intent_key :: "fw_rule_record \<Rightarrow> rule_id" where
  "intent_key r = rule_key (fwc_port r) (fwc_proto r) (fwc_source r)"

text \<open>What the merge has to say of one hole: the last record of it, the live rules of it, and whether they agree.\<close>

definition merged_entry :: "fw_rule_record option \<Rightarrow> port_rule list \<Rightarrow> merged_rule option" where
  "merged_entry recorded live =
     (case (recorded, live) of
        (None, []) \<Rightarrow> None
      | (None, r # rs) \<Rightarrow>
          Some \<lparr>mg_port = fr_port r, mg_proto = proto_as_str (fr_proto r), mg_source = fr_source r, mg_comment = fr_comment r,
            mg_in_panel = False, mg_in_backend = True, mg_drift = (if rs = [] then Some drift_unrecorded else None)\<rparr>
      | (Some i, rs) \<Rightarrow>
          Some \<lparr>mg_port = fwc_port i, mg_proto = to_ascii_lowercase (fwc_proto i), mg_source = fwc_source i, mg_comment = fwc_comment i,
            mg_in_panel = True, mg_in_backend = rs \<noteq> [], mg_drift = (if rs = [] then Some drift_missing else None)\<rparr>)"

lemma map_of_merge_intent:
  "sorted_wrt (\<lambda>a b. a < b) (map fst m) \<Longrightarrow>
     map_of (merge_intent m i) k = (if intent_key i = k then merged_entry (Some i) [] else map_of m k)"
  by (simp add: merge_intent_def map_of_tree_insert intent_key_def merged_entry_def)

lemma intent_entries:
  "map_of (foldl merge_intent [] intent) k = merged_entry (find (\<lambda>i. intent_key i = k) (rev intent)) []"
proof (induction intent rule: rev_induct)
  case (snoc i rs)
  have "sorted_wrt (\<lambda>a b. a < b) (map fst (foldl merge_intent [] rs))"
    using sorted_merge_tree [of "[]" rs] by (simp add: merge_tree_def)
  then show ?case using snoc by (simp add: map_of_merge_intent)
qed (simp add: merged_entry_def)

lemma live_entries:
  "map_of (merge_tree backend intent) k
     = merged_entry (find (\<lambda>i. intent_key i = k) (rev intent)) (filter (\<lambda>r. live_key r = k) backend)"
proof (induction backend rule: rev_induct)
  case Nil
  then show ?case by (simp add: merge_tree_def intent_entries)
next
  case (snoc r rs)
  let ?m = "merge_tree rs intent" and ?i = "find (\<lambda>i. intent_key i = k) (rev intent)"
  have step: "merge_tree (rs @ [r]) intent = merge_live ?m r" by (simp add: merge_tree_def)
  show ?case
  proof (cases "live_key r = k")
    case True
    then show ?thesis
      unfolding step merge_live_def using snoc
      by (cases ?i; cases "filter (\<lambda>r. live_key r = k) rs")
        (simp_all add: map_of_tree_insert sorted_merge_tree merged_entry_def)
  next
    case False
    then show ?thesis
      unfolding step merge_live_def using snoc
      by (simp add: map_of_tree_insert sorted_merge_tree split: option.split)
  qed
qed

text \<open>What the page should say of a hole: whether the panel recorded it, whether the firewall has it, and where they differ.\<close>

definition differs :: "bool \<Rightarrow> bool \<Rightarrow> str option" where
  "differs recorded enforced =
     (if recorded = enforced then None else if recorded then Some drift_missing else Some drift_unrecorded)"

lemma merged_entry_says:
  assumes "merged_entry recorded live = Some e"
  shows "mg_in_panel e \<longleftrightarrow> recorded \<noteq> None" "mg_in_backend e \<longleftrightarrow> live \<noteq> []"
    "recorded \<noteq> None \<or> length live \<le> 1 \<Longrightarrow> mg_drift e = differs (recorded \<noteq> None) (live \<noteq> [])"
    "(mg_port e, mg_proto e, mg_source e, mg_comment e) =
       (case recorded of
          Some i \<Rightarrow> (fwc_port i, to_ascii_lowercase (fwc_proto i), fwc_source i, fwc_comment i)
        | None \<Rightarrow> (fr_port (hd live), proto_as_str (fr_proto (hd live)), fr_source (hd live), fr_comment (hd live)))"
  using assms by (auto simp: merged_entry_def differs_def split: option.splits list.splits if_splits)

lemma merged_entry_none: "merged_entry recorded live = None \<longleftrightarrow> recorded = None \<and> live = []"
  by (auto simp: merged_entry_def split: option.splits list.splits)

lemma tree_lookup: "(k, e) \<in> set (merge_tree backend intent) \<longleftrightarrow> map_of (merge_tree backend intent) k = Some e"
proof -
  have "distinct (map fst (merge_tree backend intent))"
    using sorted_merge_tree [of backend intent] strict_sorted_iff by blast
  then show ?thesis by simp
qed

lemma recorded_iff: "find (\<lambda>i. intent_key i = k) (rev intent) \<noteq> None \<longleftrightarrow> k \<in> intent_key ` set intent"
  by (auto simp: find_None_iff)

lemma enforced_iff: "filter (\<lambda>r. live_key r = k) backend \<noteq> [] \<longleftrightarrow> k \<in> live_key ` set backend"
  by (auto simp: filter_empty_conv)

text \<open>
  C26: The merged view lists exactly the holes that were recorded or are live, each once and in the order
  of port, protocol and source. Of each it says whether it is recorded and whether it is live, with the
  text of its last record or else of its first live rule, and it reports a drift exactly where the two
  differ: missing from the firewall, or never recorded. The last is claimed of a hole that is recorded or
  that the firewall lists once; what an unrecorded hole listed twice does is shown below.
\<close>

theorem merge_is_exact:
  "sorted_wrt (\<lambda>a b. a < b) (map fst (merge_tree backend intent))
   \<and> merge_rules backend intent = map snd (merge_tree backend intent)
   \<and> set (map fst (merge_tree backend intent)) = intent_key ` set intent \<union> live_key ` set backend
   \<and> list_all (\<lambda>(k, e).
        (mg_in_panel e \<longleftrightarrow> k \<in> intent_key ` set intent) \<and> (mg_in_backend e \<longleftrightarrow> k \<in> live_key ` set backend)
        \<and> (k \<in> intent_key ` set intent \<or> length (filter (\<lambda>r. live_key r = k) backend) \<le> 1 \<longrightarrow>
             mg_drift e = differs (k \<in> intent_key ` set intent) (k \<in> live_key ` set backend))
        \<and> (mg_port e, mg_proto e, mg_source e, mg_comment e) =
            (case find (\<lambda>i. intent_key i = k) (rev intent) of
               Some i \<Rightarrow> (fwc_port i, to_ascii_lowercase (fwc_proto i), fwc_source i, fwc_comment i)
             | None \<Rightarrow> (let r = hd (filter (\<lambda>r. live_key r = k) backend)
                        in (fr_port r, proto_as_str (fr_proto r), fr_source r, fr_comment r))))
      (merge_tree backend intent)"
proof (intro conjI)
  show "sorted_wrt (\<lambda>a b. a < b) (map fst (merge_tree backend intent))" by (rule sorted_merge_tree)
  show "merge_rules backend intent = map snd (merge_tree backend intent)" by (simp add: merge_rules_def)
  let ?rec = "\<lambda>k. find (\<lambda>i. intent_key i = k) (rev intent)" and ?live = "\<lambda>k. filter (\<lambda>r. live_key r = k) backend"
  have "k \<in> set (map fst (merge_tree backend intent)) \<longleftrightarrow> ?rec k \<noteq> None \<or> ?live k \<noteq> []" for k
  proof -
    have "k \<in> set (map fst (merge_tree backend intent)) \<longleftrightarrow> map_of (merge_tree backend intent) k \<noteq> None"
      by (simp add: map_of_eq_None_iff)
    then show ?thesis by (simp add: live_entries merged_entry_none)
  qed
  then show "set (map fst (merge_tree backend intent)) = intent_key ` set intent \<union> live_key ` set backend"
    unfolding recorded_iff enforced_iff by blast
  have entry: "merged_entry (?rec k) (?live k) = Some e" if "(k, e) \<in> set (merge_tree backend intent)" for k e
    using that by (simp only: tree_lookup live_entries)
  show "list_all (\<lambda>(k, e).
        (mg_in_panel e \<longleftrightarrow> k \<in> intent_key ` set intent) \<and> (mg_in_backend e \<longleftrightarrow> k \<in> live_key ` set backend)
        \<and> (k \<in> intent_key ` set intent \<or> length (?live k) \<le> 1 \<longrightarrow>
             mg_drift e = differs (k \<in> intent_key ` set intent) (k \<in> live_key ` set backend))
        \<and> (mg_port e, mg_proto e, mg_source e, mg_comment e) =
            (case ?rec k of
               Some i \<Rightarrow> (fwc_port i, to_ascii_lowercase (fwc_proto i), fwc_source i, fwc_comment i)
             | None \<Rightarrow> (let r = hd (?live k) in (fr_port r, proto_as_str (fr_proto r), fr_source r, fr_comment r))))
      (merge_tree backend intent)"
    unfolding list_all_iff Let_def recorded_iff [symmetric] enforced_iff [symmetric]
    using merged_entry_says [OF entry] by blast
qed

text \<open>A hole recorded and lost, one that nobody recorded, and one on which the two agree.\<close>

definition three_holes :: "fw_rule_record list \<times> port_rule list" where
  "three_holes =
     ([\<lparr>fwc_id = 1, fwc_port = 80, fwc_proto = ''TCP'', fwc_source = None, fwc_comment = ''web'', fwc_created_at = 0\<rparr>,
       \<lparr>fwc_id = 2, fwc_port = 443, fwc_proto = ''tcp'', fwc_source = None, fwc_comment = ''web'', fwc_created_at = 0\<rparr>],
      [\<lparr>fr_port = 443, fr_proto = Tcp, fr_source = None, fr_comment = []\<rparr>, \<lparr>fr_port = 25, fr_proto = Tcp, fr_source = None, fr_comment = []\<rparr>])"

lemma merge_is_exact_witness:
  "let view = merge_tree (snd three_holes) (fst three_holes) in
     set (map fst view) = {(25, ''tcp'', []), (80, ''tcp'', []), (443, ''tcp'', [])}
     \<and> list_all (\<lambda>(k, e). mg_drift e = (if fst k = 25 then Some drift_unrecorded else if fst k = 80 then Some drift_missing else None)) view"
proof -
  have low: "to_ascii_lowercase ''TCP'' = ''tcp''" "to_ascii_lowercase ''tcp'' = ''tcp''" by code_simp+
  have keys: "intent_key ` set (fst three_holes) = {(80, ''tcp'', []), (443, ''tcp'', [])}"
    "map live_key (snd three_holes) = [(443, ''tcp'', []), (25, ''tcp'', [])]"
    by (simp_all add: three_holes_def intent_key_def live_key_def rule_key_def low text_or_empty_def option_filter_def)
  have live: "live_key ` set (snd three_holes) = {(443, ''tcp'', []), (25, ''tcp'', [])}"
    using arg_cong [OF keys(2), of set] by simp
  have once: "length (filter (\<lambda>r. live_key r = k) (snd three_holes)) \<le> 1" for k
  proof -
    have "length (filter (\<lambda>r. live_key r = k) (snd three_holes)) = length (filter (\<lambda>l. l = k) (map live_key (snd three_holes)))"
      by (simp add: filter_map comp_def)
    then show ?thesis unfolding keys(2) by auto
  qed
  define view where "view = merge_tree (snd three_holes) (fst three_holes)"
  note exact = merge_is_exact [of "snd three_holes" "fst three_holes", folded view_def, unfolded keys(1) live]
  have holes: "set (map fst view) = {(25, ''tcp'', []), (80, ''tcp'', []), (443, ''tcp'', [])}"
    using conjunct1 [OF conjunct2 [OF conjunct2 [OF exact]]] by blast
  note entry = bspec [OF conjunct2 [OF conjunct2 [OF conjunct2 [OF exact]], unfolded list_all_iff], unfolded prod.case]
  have "mg_drift e = (if fst k = 25 then Some drift_unrecorded else if fst k = 80 then Some drift_missing else None)"
    if e: "(k, e) \<in> set view" for k e
  proof -
    have "k \<in> {(25, ''tcp'', []), (80, ''tcp'', []), (443, ''tcp'', [])}" using holes e by force
    moreover have "mg_drift e = differs (k \<in> {(80, ''tcp'', []), (443, ''tcp'', [])}) (k \<in> {(443, ''tcp'', []), (25, ''tcp'', [])})"
      using conjunct1 [OF conjunct2 [OF conjunct2 [OF entry [OF e, unfolded prod.case]]]] once [of k] by blast
    ultimately show ?thesis by (auto simp: differs_def)
  qed
  then have "list_all (\<lambda>(k, e). mg_drift e = (if fst k = 25 then Some drift_unrecorded else if fst k = 80 then Some drift_missing else None)) view"
    unfolding list_all_iff by blast
  then show ?thesis using holes unfolding view_def [symmetric] Let_def by blast
qed

text \<open>
  Two live rules for the same hole, as ufw lists one for each address family, hide that nobody recorded
  it: the second sets the drift back to none.
\<close>

lemma listed_twice_hides_drift:
  "merge_rules [r, r] [] = [\<lparr>mg_port = fr_port r, mg_proto = proto_as_str (fr_proto r), mg_source = fr_source r, mg_comment = fr_comment r,
     mg_in_panel = False, mg_in_backend = True, mg_drift = None\<rparr>]"
  by (simp add: merge_rules_def merge_tree_def merge_live_def)

section \<open>The table follows the firewall\<close>

definition table_ok :: "fw_table \<Rightarrow> bool" where
  "table_ok db \<longleftrightarrow>
     distinct (map fw_row_key (ft_rows db)) \<and> distinct (map fwr_id (ft_rows db))
     \<and> list_all (\<lambda>r. 0 < fwr_port r \<and> fwr_port r < 2 ^ 16 \<and> fwr_proto r \<in> {''tcp'', ''udp''} \<and> fwr_id r \<le> ft_seq db) (ft_rows db)"

lemma table_ok_record:
  assumes "table_ok db" "port \<noteq> 0" "proto \<in> {''tcp'', ''udp''}"
  shows "table_ok (record_fw_rule c now port proto source comment db)"
proof (cases "list_ex (\<lambda>r. fw_row_key r = (uint port, proto, text_or_empty source)) (ft_rows db)")
  case True
  let ?set = "\<lambda>r. if fw_row_key r = (uint port, proto, text_or_empty source) then r\<lparr>fwr_comment := comment\<rparr> else r"
  have keep: "fw_row_key \<circ> ?set = fw_row_key" "fwr_id \<circ> ?set = fwr_id" by (simp_all add: fun_eq_iff fw_row_key_def)
  have "record_fw_rule c now port proto source comment db = db\<lparr>ft_rows := map ?set (ft_rows db)\<rparr>"
    using True by (simp add: record_fw_rule_def Let_def)
  then show ?thesis using assms(1) by (simp add: table_ok_def list_all_iff keep) auto
next
  case False
  have "0 < uint port" using assms(2) by (metis uint_0_iff uint_ge_0 order.not_eq_order_implies_strict)
  moreover have "uint port < 2 ^ 16" using uint_lt2p [of port] by simp
  moreover have "fwr_id r \<noteq> ft_seq db + 1 \<and> fwr_id r \<le> ft_seq db + 1" if "r \<in> set (ft_rows db)" for r
    using that assms(1) by (auto simp: table_ok_def list_all_iff)
  moreover have "fw_row_key r \<noteq> (uint port, proto, text_or_empty source)" if "r \<in> set (ft_rows db)" for r
    using that False by (auto simp: list_ex_iff)
  moreover define new where "new = \<lparr>fwr_id = ft_seq db + 1, fwr_port = uint port, fwr_proto = proto, fwr_source = source,
      fwr_comment = comment, fwr_created_at = to_sql_time c now\<rparr>"
  moreover have "record_fw_rule c now port proto source comment db = \<lparr>ft_rows = ft_rows db @ [new], ft_seq = ft_seq db + 1\<rparr>"
    using False by (simp add: record_fw_rule_def Let_def new_def)
  moreover have "fw_row_key new = (uint port, proto, text_or_empty source)" "fwr_id new = ft_seq db + 1" "fwr_port new = uint port" "fwr_proto new = proto"
    by (simp_all add: new_def fw_row_key_def)
  ultimately show ?thesis using assms unfolding table_ok_def list_all_iff
    by (simp only: fw_table.simps map_append list.map distinct_append distinct.simps set_append list.set set_map) (fastforce simp: image_iff)
qed

lemma table_ok_forget: "table_ok db \<Longrightarrow> table_ok (fst (forget_fw_rule port proto source db))"
  by (auto simp: forget_fw_rule_def Let_def table_ok_def list_all_iff intro: distinct_map_filter)

lemma on_host_cases:
  "on_host m s = (case m (fs_commands s) of (h, Inl e) \<Rightarrow> (s\<lparr>fs_commands := h\<rparr>, Inl (uni_error_of_distro e)) | (h, Inr x) \<Rightarrow> (s\<lparr>fs_commands := h\<rparr>, Inr x))"
  by (auto simp: on_host_def split: prod.splits sum.splits)

lemma input_rule_valid: "input_rule i = Inr r \<Longrightarrow> is_ok (validate_rule r) \<and> fr_port r \<noteq> 0"
  by (cases "validate_rule r")
    (auto simp: input_rule_def port_rule_of_def Let_def ok_or_def validate_rule_def result_simps split: option.splits if_splits)

lemma fw_port_open_cases:
  "fw_port_open env i s =
     (case input_rule i of
        Inl e \<Rightarrow> (s, Inl e)
      | Inr r \<Rightarrow>
          (case mta_world_open_refusal r (fe_mta_ours env) of
             Some d \<Rightarrow> (s, Inl (with_field (new_error Conflict d) ''source''))
           | None \<Rightarrow>
               (case fb_open_port (fe_backend env) r (fs_commands s) of
                  (h, Inl e) \<Rightarrow> (s\<lparr>fs_commands := h\<rparr>, Inl (uni_error_of_distro e))
                | (h, Inr _) \<Rightarrow>
                    (s\<lparr>fs_commands := h, fs_rules := record_fw_rule (fe_codec env) (fe_now env) (fr_port r) (proto_as_str (fr_proto r))
                         (fr_source r) (fr_comment r) (fs_rules s)\<rparr>, Inr (port_output_of env r)))))"
  by (auto simp: fw_port_open_def on_host_cases record_rule_def on_table_def script_simps split: sum.splits option.splits prod.splits)

lemma fw_port_close_cases:
  "fw_port_close env i s =
     (case input_rule i of
        Inl e \<Rightarrow> (s, Inl e)
      | Inr r \<Rightarrow>
          if fr_proto r = Tcp \<and> reachable_port (fe_listen env) = Some (fr_port r) then (s, Inl (panel_port_refusal (fr_port r)))
          else
            (case fb_close_port (fe_backend env) r (fs_commands s) of
               (h, Inl e) \<Rightarrow> (s\<lparr>fs_commands := h\<rparr>, Inl (uni_error_of_distro e))
             | (h, Inr _) \<Rightarrow>
                 (s\<lparr>fs_commands := h, fs_rules := fst (forget_fw_rule (fr_port r) (proto_as_str (fr_proto r)) (fr_source r) (fs_rules s))\<rparr>,
                  Inr (port_output_of env r))))"
  by (auto simp: fw_port_close_def on_host_cases on_table_def script_simps split: sum.splits option.splits prod.splits)

text \<open>
  The firewall first, the record second: a port is recorded exactly when the firewall took the rule, and
  it is the rule that the firewall took. An attempt that fails leaves the table as it was. While the mail
  server on port 25 is the panel's, neither a rule without a source nor one of the three spellings of
  everybody is handed to the firewall for it.
\<close>

theorem opened_before_recorded:
  "case fw_port_open env i s of
     (s', Inl e) \<Rightarrow> fs_rules s' = fs_rules s
   | (s', Inr out) \<Rightarrow>
       \<exists>r. input_rule i = Inr r \<and> fb_open_port (fe_backend env) r (fs_commands s) = (fs_commands s', Inr ())
         \<and> mta_world_open_refusal r (fe_mta_ours env) = None
         \<and> fs_rules s' = record_fw_rule (fe_codec env) (fe_now env) (fr_port r) (proto_as_str (fr_proto r)) (fr_source r) (fr_comment r) (fs_rules s)
         \<and> out = port_output_of env r"
  by (auto simp: fw_port_open_cases split: prod.splits sum.splits option.splits)


section \<open>Both operations keep the table\<close>

theorem rule_table_is_kept:
  assumes "table_ok (fs_rules s)"
  shows "table_ok (fs_rules (fst (fw_port_open env i s))) \<and> table_ok (fs_rules (fst (fw_port_close env i s)))"
proof -
  have proto: "proto_as_str p \<in> {''tcp'', ''udp''}" for p by (cases p) simp_all
  have "table_ok (fs_rules (fst (fw_port_open env i s)))"
    using assms input_rule_valid [of i] table_ok_record [OF assms _ proto]
    by (auto simp: fw_port_open_cases split: sum.splits option.splits prod.splits)
  moreover have "table_ok (fs_rules (fst (fw_port_close env i s)))"
    using assms table_ok_forget by (auto simp: fw_port_close_cases split: sum.splits prod.splits)
  ultimately show ?thesis ..
qed

text \<open>
  The refusal for port 25 compares three spellings. Another range without a fixed bit is valid, is not
  refused, and contains every address of its family.
\<close>

definition wide_rule :: port_rule where
  "wide_rule = \<lparr>fr_port = 25, fr_proto = Tcp, fr_source = Some ''1.0.0.0/0'', fr_comment = []\<rparr>"

lemma wide_range_passes: "mta_world_open_refusal wide_rule True = None"
proof -
  have "list_all plain_char ''1.0.0.0/0''" by (simp add: plain_char_def is_ascii_whitespace_def byte_def)
  then have "str_trim ''1.0.0.0/0'' = ''1.0.0.0/0''" by (rule str_trim_plain)
  then show ?thesis by (simp add: mta_world_open_refusal_def wide_rule_def mta_port_def)
qed

lemma wide_range_reads:
  "parse_ip ''1.0.0.0'' = Some (V4 0x01000000)" "parse_unsigned mx ''0'' = Some 0"
  "str_trim ''1.0.0.0'' = ''1.0.0.0''" "str_trim ''0'' = ''0''"
proof -
  have four: "(4 :: nat) = Suc (Suc (Suc (Suc 0)))" by simp
  have "be_digits 256 4 16777216 = [1, 0, 0, 0]" unfolding four by simp
  moreover have "show_nat 0 = ''0''" "show_nat 1 = ''1''" by (simp_all add: show_nat.simps digit_char_def char_of_def bit_iff_odd)
  ultimately have "show_ip (V4 0x01000000) = ''1.0.0.0''" by (simp add: show_ipv4_def)
  then show "parse_ip ''1.0.0.0'' = Some (V4 0x01000000)" using parse_show_v4 [of "0x01000000"] by (simp del: show_ip.simps)
  show "parse_unsigned mx ''0'' = Some 0" by (simp add: parse_unsigned_def digits_value_def digit_val_def ascii_defs byte_def)
  have "list_all plain_char ''1.0.0.0''" "list_all plain_char ''0''" by (simp_all add: plain_char_def is_ascii_whitespace_def byte_def)
  then show "str_trim ''1.0.0.0'' = ''1.0.0.0''" "str_trim ''0'' = ''0''" by (simp_all only: str_trim_plain)
qed

lemma wide_range_is_valid: "validate_rule wide_rule = Inr ()"
  by (simp add: validate_rule_def wide_rule_def validate_cidr_def wide_range_reads)

lemma wide_range_holds_everyone: "cidr_contains ''1.0.0.0/0'' (V4 a) = Some True"
proof -
  have "parse_cidr ''1.0.0.0/0'' = Some (V4 0x01000000, 0)" by (simp add: parse_cidr_def wide_range_reads)
  moreover have "prefix_matches xs ys 0 = Some True" for xs ys by (simp add: prefix_matches_def)
  ultimately show ?thesis by (simp add: cidr_contains_def del: octets.simps)
qed

end
