(* ===== verification/Sentinel.thy ===== *)
theory Sentinel
  imports Ip_Addr Sessions Audit_Trail Cron_Text
begin

text \<open>
  Sentinel, the defence against password guessing (\<open>unihelm-ops/src/fwops.rs\<close>) with its table of bans
  (\<open>unihelm-db/src/firewall.rs\<close>): the settings, the addresses that must not be banned, what a journal
  line says, the threshold, the scan and the operations on bans. The firewall's answers, the journal
  and the clock are arguments; \<open>None\<close> as a result is a panic. The lemmas show who is banned and who is
  not, that a user name cannot choose the address, and which bans a scan lifts.
\<close>

section \<open>Settings\<close>

record sentinel_settings =
  se_enabled :: bool
  se_ssh_threshold :: u32
  se_window_minutes :: u32
  se_ban_minutes :: u32
  se_allowlist :: "str list"

definition default_settings :: sentinel_settings where
  "default_settings =
     \<lparr>se_enabled = False, se_ssh_threshold = 6, se_window_minutes = 10, se_ban_minutes = 60, se_allowlist = []\<rparr>"

definition bad_setting :: "str \<Rightarrow> str \<Rightarrow> 'a res" where
  "bad_setting f d = Inl (with_field (new_error InvalidInput d) f)"

definition validate_settings :: "sentinel_settings \<Rightarrow> unit res" where
  "validate_settings s =
     (if se_ssh_threshold s = 0 then
        bad_setting ''ssh_threshold'' ''a threshold of 0 would ban every address in the log, including yours''
      else if se_window_minutes s < 1 \<or> 1440 < se_window_minutes s then
        bad_setting ''window_minutes'' ''the scan window must be between 1 minute and 24 hours''
      else if se_ban_minutes s < 1 \<or> 525600 < se_ban_minutes s then
        bad_setting ''ban_minutes'' ''a ban must last between 1 minute and a year''
      else case find (\<lambda>entry. parse_cidr entry = None) (se_allowlist s) of
          Some entry \<Rightarrow> bad_setting ''allowlist'' (''`'' @ entry @ ''` is not an IP address or CIDR'')
        | None \<Rightarrow> Inr ())"

text \<open>Spans are in seconds.\<close>

definition window :: "sentinel_settings \<Rightarrow> int" where
  "window s = int (unat (se_window_minutes s)) * 60"

definition ban_duration :: "sentinel_settings \<Rightarrow> int" where
  "ban_duration s = int (unat (se_ban_minutes s)) * 60"

text \<open>The five keys of the settings table; a key that is absent or unreadable is \<open>None\<close>.\<close>

record stored_settings =
  st_enabled :: "bool option"
  st_ssh_threshold :: "u32 option"
  st_window_minutes :: "u32 option"
  st_ban_minutes :: "u32 option"
  st_allowlist :: "str list option"

definition setting_or :: "'a option \<Rightarrow> 'a \<Rightarrow> 'a" where
  "setting_or v d = (case v of Some x \<Rightarrow> x | None \<Rightarrow> d)"

definition load_settings :: "stored_settings \<Rightarrow> sentinel_settings" where
  "load_settings st =
     (let d = default_settings in
      \<lparr>se_enabled = setting_or (st_enabled st) (se_enabled d),
       se_ssh_threshold = setting_or (st_ssh_threshold st) (se_ssh_threshold d),
       se_window_minutes = setting_or (st_window_minutes st) (se_window_minutes d),
       se_ban_minutes = setting_or (st_ban_minutes st) (se_ban_minutes d),
       se_allowlist = setting_or (st_allowlist st) (se_allowlist d)\<rparr>)"

definition store_settings :: "sentinel_settings \<Rightarrow> stored_settings \<Rightarrow> stored_settings \<times> unit res" where
  "store_settings s st =
     (case validate_settings s of
        Inl e \<Rightarrow> (st, Inl e)
      | Inr _ \<Rightarrow>
          (\<lparr>st_enabled = Some (se_enabled s), st_ssh_threshold = Some (se_ssh_threshold s),
            st_window_minutes = Some (se_window_minutes s), st_ban_minutes = Some (se_ban_minutes s),
            st_allowlist = Some (se_allowlist s)\<rparr>, Inr ()))"

section \<open>Who must not be banned\<close>

record ban_guard =
  bg_client_ip :: "ip_addr option"
  bg_local :: "ip_addr list"
  bg_allowlist :: "str list"

definition for_request :: "ip_addr option \<Rightarrow> ip_addr list \<Rightarrow> sentinel_settings \<Rightarrow> ban_guard" where
  "for_request client_ip local_addresses s =
     \<lparr>bg_client_ip = client_ip, bg_local = local_addresses, bg_allowlist = se_allowlist s\<rparr>"

definition is_unspecified_or_wildcard :: "ip_addr \<Rightarrow> bool" where
  "is_unspecified_or_wildcard ip \<longleftrightarrow> is_unspecified ip \<or> is_multicast ip \<or> is_broadcast ip"

fun first_covering :: "ip_addr \<Rightarrow> str list \<Rightarrow> str option option" where
  "first_covering ip [] = Some None"
| "first_covering ip (entry # entries) =
     (case cidr_contains entry ip of
        None \<Rightarrow> None
      | Some True \<Rightarrow> Some (Some entry)
      | Some False \<Rightarrow> first_covering ip entries)"

definition refusal_reason :: "ip_addr \<Rightarrow> ban_guard \<Rightarrow> str option option" where
  "refusal_reason addr g =
     (let ip = canonical addr in
      if is_loopback ip then
        Some (Some (show_ip ip @ '' is a loopback address; banning it would cut the panel off from itself''))
      else if map_option canonical (bg_client_ip g) = Some ip then
        Some (Some (show_ip ip @ '' is the address this request came from; banning it would lock you out''))
      else if list_ex (\<lambda>l. l = ip) (map canonical (bg_local g)) then
        Some (Some (show_ip ip @ '' is one of this server's own addresses; banning it would cut off its own traffic''))
      else case first_covering ip (bg_allowlist g) of
          None \<Rightarrow> None
        | Some (Some entry) \<Rightarrow> Some (Some (show_ip ip @ '' is covered by the allowlist entry `'' @ entry @ ''`''))
        | Some None \<Rightarrow>
            if is_unspecified_or_wildcard ip then
              Some (Some (show_ip ip @ '' is not a host address; banning it would drop far more than intended''))
            else Some None)"

section \<open>What the journal says\<close>

text \<open>\<open>String::from_utf8_lossy\<close>: each maximal ill-formed part becomes one replacement character.\<close>

definition replacement :: str where
  "replacement = bytes_of [239, 191, 189]"

text \<open>The bytes of the ill-formed part at the start, or of the character when \<open>True\<close>.\<close>

definition utf8_step :: "str \<Rightarrow> nat \<times> bool" where
  "utf8_step s =
     (let at = (\<lambda>i. if i < length s then byte (s ! i) else 0);
          cont = (\<lambda>i lo hi. lo \<le> at i \<and> at i \<le> hi);
          a = at 0;
          lo = (if a = 224 then 160 else if a = 240 then 144 else 128);
          hi = (if a = 237 then 159 else if a = 244 then 143 else 191) in
      if a < 128 then (1, True)
      else if 194 \<le> a \<and> a \<le> 223 then (if cont 1 128 191 then (2, True) else (1, False))
      else if 224 \<le> a \<and> a \<le> 239 then
        (if \<not> cont 1 lo hi then (1, False) else if cont 2 128 191 then (3, True) else (2, False))
      else if 240 \<le> a \<and> a \<le> 244 then
        (if \<not> cont 1 lo hi then (1, False) else if \<not> cont 2 128 191 then (2, False)
         else if cont 3 128 191 then (4, True) else (3, False))
      else (1, False))"

function from_utf8_lossy :: "str \<Rightarrow> str" where
  "from_utf8_lossy s =
     (if s = [] then []
      else case utf8_step s of (n, ok) \<Rightarrow> (if ok then take n s else replacement) @ from_utf8_lossy (drop n s))"
  by pat_completeness auto
termination
  by (relation "measure length") (auto simp: utf8_step_def Let_def split: if_splits)

declare from_utf8_lossy.simps [simp del]

fun json_get :: "str \<Rightarrow> json \<Rightarrow> json option" where
  "json_get k (JObj kvs) = map_of kvs k"
| "json_get k _ = None"

fun as_u64 :: "json \<Rightarrow> nat option" where
  "as_u64 (JNum t) = (if list_all is_ascii_digit t then parse_unsigned (2 ^ 64 - 1) t else None)"
| "as_u64 _ = None"

text \<open>\<open>str::parse\<close> at a signed type of the given largest value.\<close>

definition parse_signed :: "nat \<Rightarrow> str \<Rightarrow> int option" where
  "parse_signed mx t =
     (case t of
        [] \<Rightarrow> None
      | c # cs \<Rightarrow>
          if c = CHR ''-'' then
            (if cs \<noteq> [] \<and> list_all is_ascii_digit cs \<and> digits_value cs \<le> mx + 1 then Some (- int (digits_value cs)) else None)
          else map_option int (parse_unsigned mx t))"

definition journal_message :: "json \<Rightarrow> str option" where
  "journal_message record =
     (case json_get ''MESSAGE'' record of
        Some (JStr s) \<Rightarrow> Some s
      | Some (JArr bs) \<Rightarrow> Some (from_utf8_lossy (map (\<lambda>b. char_of (case as_u64 b of Some n \<Rightarrow> n | None \<Rightarrow> 0)) bs))
      | _ \<Rightarrow> None)"

text \<open>The instant in nanoseconds; \<open>OffsetDateTime\<close> holds the years from \<open>-9999\<close> to \<open>9999\<close>.\<close>

definition journal_time :: "json \<Rightarrow> int option" where
  "journal_time record =
     Option.bind
       (case json_get ''__REALTIME_TIMESTAMP'' record of
          Some (JStr s) \<Rightarrow> parse_signed (2 ^ 127 - 1) s
        | Some (JNum t) \<Rightarrow> if t \<noteq> [] \<and> hd t = CHR ''+'' then None else parse_signed (2 ^ 63 - 1) t
        | _ \<Rightarrow> None)
       (\<lambda>micros. let nanos = micros * 1000 in
          if - 377705116800 * 10 ^ 9 \<le> nanos \<and> nanos < 253402300800 * 10 ^ 9 then Some nanos else None)"

definition ssh_failure_openings :: "str list" where
  "ssh_failure_openings =
     [''Failed '', ''Invalid user'', ''maximum authentication attempts exceeded'',
      ''Connection closed by authenticating user'', ''Connection reset by authenticating user'']"

fun strip_first :: "str list \<Rightarrow> str \<Rightarrow> str" where
  "strip_first [] message = message"
| "strip_first (p # ps) message =
     (case strip_prefix p message of Some rest \<Rightarrow> str_trim_start rest | None \<Rightarrow> strip_first ps message)"

definition strip_sshd_severity :: "str \<Rightarrow> str" where
  "strip_sshd_severity message = strip_first [''error: '', ''fatal: '', ''warning: ''] message"

text \<open>The loop over the words: the last \<open>address port number\<close> triple wins.\<close>

fun last_pair :: "ip_addr option \<Rightarrow> str list \<Rightarrow> ip_addr option" where
  "last_pair found (a # k # p # ts) =
     last_pair
       (if k \<noteq> ''port'' \<or> parse_u16 (str_trim_end_matches CHR '':'' p) = None then found
        else case parse_ip a of Some ip \<Rightarrow> Some (canonical ip) | None \<Rightarrow> found)
       (k # p # ts)"
| "last_pair found _ = found"

definition parse_ssh_failure :: "str \<Rightarrow> ip_addr option" where
  "parse_ssh_failure raw =
     (let message = strip_sshd_severity (str_trim raw) in
      if \<not> list_ex (\<lambda>opening. starts_with opening message) ssh_failure_openings then None
      else last_pair None (split_whitespace message))"

record auth_failure =
  af_ip :: ip_addr
  af_at :: int

definition journal_line :: "(str \<Rightarrow> json option) \<Rightarrow> str \<Rightarrow> auth_failure option" where
  "journal_line from_str raw =
     (let l = str_trim raw in
      if l = [] then None
      else Option.bind (from_str l) (\<lambda>record.
        Option.bind (journal_message record) (\<lambda>message.
        Option.bind (journal_time record) (\<lambda>at.
          map_option (\<lambda>ip. \<lparr>af_ip = ip, af_at = at\<rparr>) (parse_ssh_failure message)))))"

definition parse_journal :: "(str \<Rightarrow> json option) \<Rightarrow> str \<Rightarrow> auth_failure list" where
  "parse_journal from_str t = List.map_filter (journal_line from_str) (str_lines t)"

section \<open>The threshold\<close>

record offender =
  of_ip :: ip_addr
  of_failures :: u32

definition failures_of :: "ip_addr \<Rightarrow> int \<Rightarrow> auth_failure list \<Rightarrow> nat" where
  "failures_of ip cutoff events = length (filter (\<lambda>e. cutoff * 10 ^ 9 \<le> af_at e \<and> canonical (af_ip e) = ip) events)"

text \<open>Counts wrap at 32 bits; the map iterates in the order of the addresses, the sort is stable.\<close>

definition offenders :: "auth_failure list \<Rightarrow> int \<Rightarrow> int \<Rightarrow> u32 \<Rightarrow> offender list" where
  "offenders events now span threshold =
     (let cutoff = now - span;
          ips = sort (remdups (map (\<lambda>e. canonical (af_ip e)) (filter (\<lambda>e. cutoff * 10 ^ 9 \<le> af_at e) events)));
          counts = map (\<lambda>ip. \<lparr>of_ip = ip, of_failures = of_nat (failures_of ip cutoff events)\<rparr>) ips
      in sort_key (\<lambda>f. - int (unat (of_failures f))) (filter (\<lambda>f. threshold \<le> of_failures f) counts))"

section \<open>The table of bans\<close>

record ban_row =
  bn_id :: int
  bn_ip :: str
  bn_reason :: str
  bn_banned_at :: str
  bn_expires_at :: "str option"
  bn_lifted_at :: "str option"

record sentinel_ban =
  sb_id :: int
  sb_ip :: str
  sb_reason :: str
  sb_banned_at :: int
  sb_expires_at :: "int option"
  sb_lifted_at :: "int option"

definition ban_of_row :: "'j codec \<Rightarrow> ban_row \<Rightarrow> sentinel_ban db_res" where
  "ban_of_row c r =
     r_bind (from_sql_time c (bn_banned_at r)) (\<lambda>banned.
     r_bind (from_sql_time_opt c (bn_expires_at r)) (\<lambda>expires.
     r_bind (from_sql_time_opt c (bn_lifted_at r)) (\<lambda>lifted.
       Inr \<lparr>sb_id = bn_id r, sb_ip = bn_ip r, sb_reason = bn_reason r, sb_banned_at = banned, sb_expires_at = expires,
            sb_lifted_at = lifted\<rparr>)))"

record bans_table =
  bt_rows :: "ban_row list"
  bt_seq :: int

definition record_ban :: "'j codec \<Rightarrow> int \<Rightarrow> str \<Rightarrow> str \<Rightarrow> int option \<Rightarrow> bans_table \<Rightarrow> bans_table" where
  "record_ban c now ip reason expires_at db =
     \<lparr>bt_rows = bt_rows db @ [\<lparr>bn_id = bt_seq db + 1, bn_ip = ip, bn_reason = reason, bn_banned_at = to_sql_time c now,
        bn_expires_at = map_option (to_sql_time c) expires_at, bn_lifted_at = None\<rparr>],
      bt_seq = bt_seq db + 1\<rparr>"

definition lift_bans_for :: "'j codec \<Rightarrow> int \<Rightarrow> str \<Rightarrow> bans_table \<Rightarrow> bans_table \<times> nat" where
  "lift_bans_for c now ip db =
     (case sql_update (\<lambda>r. bn_ip r = ip \<and> bn_lifted_at r = None) (\<lambda>r. r\<lparr>bn_lifted_at := Some (to_sql_time c now)\<rparr>) (bt_rows db) of
        (rows, n) \<Rightarrow> (db\<lparr>bt_rows := rows\<rparr>, n))"

definition bans_newest_first :: "ban_row list \<Rightarrow> ban_row list" where
  "bans_newest_first rows = rev (sort_key (\<lambda>r. bn_banned_at r) (sort_key bn_id rows))"

definition active_bans :: "'j codec \<Rightarrow> bans_table \<Rightarrow> sentinel_ban list db_res" where
  "active_bans c db = collect_results (map (ban_of_row c) (bans_newest_first (filter (\<lambda>r. bn_lifted_at r = None) (bt_rows db))))"

definition recent_bans :: "'j codec \<Rightarrow> int \<Rightarrow> bans_table \<Rightarrow> sentinel_ban list db_res" where
  "recent_bans c limit db =
     collect_results (map (ban_of_row c) (take (nat (max 1 (min 500 limit))) (bans_newest_first (bt_rows db))))"

definition holds_at :: "'j codec \<Rightarrow> int \<Rightarrow> ban_row \<Rightarrow> bool" where
  "holds_at c now r \<longleftrightarrow> bn_lifted_at r = None \<and> (case bn_expires_at r of None \<Rightarrow> True | Some t \<Rightarrow> to_sql_time c now < t)"

definition is_banned :: "'j codec \<Rightarrow> int \<Rightarrow> str \<Rightarrow> bans_table \<Rightarrow> bool" where
  "is_banned c now ip db \<longleftrightarrow> 0 < length (filter (\<lambda>r. bn_ip r = ip \<and> holds_at c now r) (bt_rows db))"

definition has_expired :: "'j codec \<Rightarrow> int \<Rightarrow> ban_row \<Rightarrow> bool" where
  "has_expired c now r \<longleftrightarrow> bn_lifted_at r = None \<and> (case bn_expires_at r of None \<Rightarrow> False | Some t \<Rightarrow> t \<le> to_sql_time c now)"

definition expired_bans :: "'j codec \<Rightarrow> int \<Rightarrow> bans_table \<Rightarrow> sentinel_ban list db_res" where
  "expired_bans c now db =
     collect_results (map (ban_of_row c) (sort_key (\<lambda>r. the (bn_expires_at r)) (filter (has_expired c now) (bt_rows db))))"

section \<open>The scan\<close>

datatype fw_call = BanIp ip_addr "u32 option" | UnbanIp ip_addr

text \<open>The state: the bans, the audit trail, and the calls the firewall has had.\<close>

record sentinel_state =
  ss_bans :: bans_table
  ss_audit :: audit_table
  ss_calls :: "fw_call list"

text \<open>The firewall answers a call knowing all before it.\<close>

record sentinel_env =
  sv_codec :: "json codec"
  sv_now :: int
  sv_settings :: stored_settings
  sv_local :: "ip_addr list"
  sv_journal :: "int \<Rightarrow> str res"
  sv_from_str :: "str \<Rightarrow> json option"
  sv_attempts :: attempts_table
  sv_fw :: "fw_call list \<Rightarrow> unit res"
  sv_audit_ok :: bool
  sv_request_id :: str

definition call_fw :: "sentinel_env \<Rightarrow> fw_call \<Rightarrow> sentinel_state \<Rightarrow> sentinel_state \<times> unit res" where
  "call_fw env k s = (let ks = ss_calls s @ [k] in (s\<lparr>ss_calls := ks\<rparr>, sv_fw env ks))"

definition lift_expired :: "sentinel_env \<Rightarrow> sentinel_ban \<Rightarrow> sentinel_state \<Rightarrow> sentinel_state" where
  "lift_expired env b s =
     (let s1 = (case parse_ip (sb_ip b) of None \<Rightarrow> s | Some ip \<Rightarrow> fst (call_fw env (UnbanIp ip) s))
      in s1\<lparr>ss_bans := fst (lift_bans_for (sv_codec env) (sv_now env) (sb_ip b) (ss_bans s1))\<rparr>)"

definition login_events :: "int \<Rightarrow> (str \<times> int) list \<Rightarrow> auth_failure list" where
  "login_events now counts =
     concat (map (\<lambda>(ip, n).
       case parse_ip ip of
         None \<Rightarrow> []
       | Some a \<Rightarrow> replicate (nat (max 0 (min (2 ^ 32 - 1) n))) \<lparr>af_ip = a, af_at = now * 10 ^ 9\<rparr>) counts)"

definition ban_reason :: "sentinel_settings \<Rightarrow> offender \<Rightarrow> str" where
  "ban_reason st f = show_word (of_failures f) @ '' failed authentications in '' @ show_word (se_window_minutes st) @ '' minutes''"

definition ban_ttl :: "sentinel_settings \<Rightarrow> u32" where
  "ban_ttl st = (if ban_duration st < 2 ^ 32 then of_int (ban_duration st) else - 1)"

definition ban_audit :: "sentinel_env \<Rightarrow> sentinel_settings \<Rightarrow> offender \<Rightarrow> new_audit_entry" where
  "ban_audit env st f =
     \<lparr>na_actor_user_id = None, na_actor_username = ''sentinel'', na_impersonator_id = None,
      na_ip = Some (show_ip (of_ip f)), na_action = ''sentinel.ban'', na_target = Some (show_ip (of_ip f)),
      na_detail = JObj [(''failures'', JNum (show_word (of_failures f))),
        (''window_minutes'', JNum (show_word (se_window_minutes st))), (''ban_minutes'', JNum (show_word (se_ban_minutes st)))],
      na_request_id = Some (sv_request_id env), na_subscription_id = None\<rparr>"

text \<open>One offender: what the counts of banned and spared become.\<close>

definition judge ::
  "sentinel_env \<Rightarrow> sentinel_settings \<Rightarrow> offender \<Rightarrow> nat \<times> nat \<times> sentinel_state \<Rightarrow> (nat \<times> nat \<times> sentinel_state) option" where
  "judge env st f acc =
     (case acc of (banned, spared, s) \<Rightarrow>
        let ip = show_ip (of_ip f); c = sv_codec env; now = sv_now env in
        case refusal_reason (of_ip f) (for_request None (sv_local env) st) of
          None \<Rightarrow> None
        | Some (Some _) \<Rightarrow> Some (banned, spared + 1, s)
        | Some None \<Rightarrow>
            if is_banned c now ip (ss_bans s) then Some (banned, spared, s)
            else
              (case call_fw env (BanIp (of_ip f) (Some (ban_ttl st))) s of
                 (s1, Inl _) \<Rightarrow> Some (banned, spared, s1)
               | (s1, Inr _) \<Rightarrow>
                   let s2 = s1\<lparr>ss_bans := record_ban c now ip (ban_reason st f) (Some (now + ban_duration st)) (ss_bans s1)\<rparr> in
                   Some (banned + 1, spared, s2\<lparr>ss_audit := fst (record_audit c (sv_audit_ok env) now (ban_audit env st f) (ss_audit s2))\<rparr>)))"

fun judge_all ::
  "sentinel_env \<Rightarrow> sentinel_settings \<Rightarrow> offender list \<Rightarrow> nat \<times> nat \<times> sentinel_state \<Rightarrow> nat \<times> nat \<times> sentinel_state \<times> bool" where
  "judge_all env st [] (banned, spared, s) = (banned, spared, s, True)"
| "judge_all env st (f # fs) (banned, spared, s) =
     (case judge env st f (banned, spared, s) of
        None \<Rightarrow> (banned, spared, s, False)
      | Some acc \<Rightarrow> judge_all env st fs acc)"

definition tick_notes :: "nat \<Rightarrow> nat \<Rightarrow> nat \<Rightarrow> str" where
  "tick_notes lifted banned spared =
     str_join '', '' ((if 0 < lifted then [''lifted '' @ show_nat lifted @ '' expired ban(s)''] else [])
       @ (if 0 < banned then [''banned '' @ show_nat banned @ '' address(es)''] else [])
       @ (if 0 < spared then [''spared '' @ show_nat spared @ '' protected address(es)''] else []))"

definition sentinel_events :: "sentinel_env \<Rightarrow> sentinel_settings \<Rightarrow> str \<Rightarrow> auth_failure list" where
  "sentinel_events env st journal =
     parse_journal (sv_from_str env) journal
     @ login_events (sv_now env) (failed_logins_since (sv_codec env) (sv_now env - window st) (sv_attempts env))"

definition sentinel_tick :: "sentinel_env \<Rightarrow> sentinel_state \<Rightarrow> sentinel_state \<times> str res option" where
  "sentinel_tick env s =
     (let st = load_settings (sv_settings env); now = sv_now env in
      case expired_bans (sv_codec env) now (ss_bans s) of
        Inl e \<Rightarrow> (s, Some (Inl (uni_error_from e)))
      | Inr expired \<Rightarrow>
          let s1 = fold (lift_expired env) expired s in
          if \<not> se_enabled st then (s1, Some (Inr (tick_notes (length expired) 0 0)))
          else case sv_journal env (now - window st) of
            Inl e \<Rightarrow> (s1, Some (Inl e))
          | Inr journal \<Rightarrow>
              (case judge_all env st (offenders (sentinel_events env st journal) now (window st) (se_ssh_threshold st)) (0, 0, s1) of
                 (banned, spared, s2, finished) \<Rightarrow>
                   (s2, if finished then Some (Inr (tick_notes (length expired) banned spared)) else None)))"

section \<open>The operations\<close>

definition parse_ip_input :: "str \<Rightarrow> str \<Rightarrow> ip_addr res" where
  "parse_ip_input t f =
     (case parse_ip (str_trim t) of
        Some ip \<Rightarrow> Inr (canonical ip)
      | None \<Rightarrow> Inl (with_field (new_error InvalidInput (''`'' @ t @ ''` is not an IP address'')) f))"

record ban_input =
  bi_ip :: str
  bi_minutes :: "u32 option"
  bi_reason :: "str option"
  bi_client_ip :: "str option"

record ban_output =
  bo_ip :: str
  bo_expires_at :: "str option"

definition live_client :: "str option \<Rightarrow> ip_addr option" where
  "live_client t = (case t of None \<Rightarrow> None | Some s \<Rightarrow> if str_trim s = [] then None else parse_ip (str_trim s))"

definition fw_ban :: "sentinel_env \<Rightarrow> ban_input \<Rightarrow> sentinel_state \<Rightarrow> sentinel_state \<times> ban_output res option" where
  "fw_ban env input s =
     (case parse_ip_input (bi_ip input) ''ip'' of
        Inl e \<Rightarrow> (s, Some (Inl e))
      | Inr ip \<Rightarrow>
          let st = load_settings (sv_settings env); c = sv_codec env; now = sv_now env in
          case refusal_reason ip (for_request (live_client (bi_client_ip input)) (sv_local env) st) of
            None \<Rightarrow> (s, None)
          | Some (Some reason) \<Rightarrow> (s, Some (Inl (with_field (new_error Conflict reason) ''ip'')))
          | Some None \<Rightarrow>
              let minutes = (case bi_minutes input of Some m \<Rightarrow> m | None \<Rightarrow> se_ban_minutes st);
                  expires = (if 0 < minutes then Some (now + int (unat minutes) * 60) else None);
                  ttl = (if 0 < minutes then Some (if unat minutes * 60 < 2 ^ 32 then minutes * 60 else - 1) else None) in
              (case call_fw env (BanIp ip ttl) s of
                 (s1, Inl e) \<Rightarrow> (s1, Some (Inl e))
               | (s1, Inr _) \<Rightarrow>
                   let reason = (case bi_reason input of Some r \<Rightarrow> if str_trim r = [] then ''banned by an operator'' else r
                                 | None \<Rightarrow> ''banned by an operator'') in
                   (s1\<lparr>ss_bans := record_ban c now (show_ip ip) reason expires (ss_bans s1)\<rparr>,
                    Some (Inr \<lparr>bo_ip = show_ip ip, bo_expires_at = map_option (to_sql_time c) expires\<rparr>))))"

definition fw_unban :: "sentinel_env \<Rightarrow> str \<Rightarrow> sentinel_state \<Rightarrow> sentinel_state \<times> (str \<times> nat) res" where
  "fw_unban env t s =
     (case parse_ip_input t ''ip'' of
        Inl e \<Rightarrow> (s, Inl e)
      | Inr ip \<Rightarrow>
          (case call_fw env (UnbanIp ip) s of
             (s1, Inl e) \<Rightarrow> (s1, Inl e)
           | (s1, Inr _) \<Rightarrow>
               (case lift_bans_for (sv_codec env) (sv_now env) (show_ip ip) (ss_bans s1) of
                  (db, n) \<Rightarrow> (s1\<lparr>ss_bans := db\<rparr>, Inr (show_ip ip, n)))))"

text \<open>\<open>fw.bans\<close>: each row with whether the firewall holds it, and what it holds without an open row.\<close>

definition fw_bans :: "sentinel_env \<Rightarrow> ip_addr list res \<Rightarrow> int option \<Rightarrow> sentinel_state \<Rightarrow> ((sentinel_ban \<times> bool) list \<times> str list) res" where
  "fw_bans env listed limit s =
     r_bind listed (\<lambda>held.
     r_bind (r_map_err uni_error_from (recent_bans (sv_codec env) (case limit of Some n \<Rightarrow> n | None \<Rightarrow> 200) (ss_bans s))) (\<lambda>rows.
       let live = map canonical held;
           addr = (\<lambda>b. map_option canonical (parse_ip (sb_ip b)));
           open_ips = List.map_filter (\<lambda>b. if sb_lifted_at b = None then addr b else None) rows in
       Inr (map (\<lambda>b. (b, (case addr b of Some ip \<Rightarrow> ip \<in> set live | None \<Rightarrow> False))) rows,
            map show_ip (filter (\<lambda>ip. ip \<notin> set open_ips) live))))"

section \<open>Who is banned\<close>

lemma canonical_idem [simp]: "canonical (canonical ip) = canonical ip"
  by (cases ip) (auto split: option.splits)

lemma first_covering_none: "first_covering ip es = Some None \<longleftrightarrow> list_all (\<lambda>e. cidr_contains e ip = Some False) es"
  by (induction es) (auto split: option.splits bool.splits)

definition bannable :: "ip_addr \<Rightarrow> ban_guard \<Rightarrow> bool" where
  "bannable ip g \<longleftrightarrow> \<not> is_loopback ip \<and> map_option canonical (bg_client_ip g) \<noteq> Some ip \<and> ip \<notin> canonical ` set (bg_local g)
     \<and> list_all (\<lambda>e. cidr_contains e ip = Some False) (bg_allowlist g) \<and> \<not> is_unspecified_or_wildcard ip"

lemma refusal_reason_none: "refusal_reason ip g = Some None \<longleftrightarrow> bannable (canonical ip) g"
  by (auto simp: refusal_reason_def Let_def bannable_def list_ex_iff simp flip: first_covering_none split: if_splits option.splits)

lemma offender_counted:
  assumes "f \<in> set (offenders events now span threshold)"
  shows "canonical (of_ip f) = of_ip f" "unat threshold \<le> failures_of (of_ip f) (now - span) events"
proof -
  have ok: "of_failures f = of_nat (failures_of (of_ip f) (now - span) events)" "threshold \<le> of_failures f"
    and "of_ip f \<in> canonical ` af_ip ` set events"
    using assms by (auto simp: offenders_def Let_def)
  then show "canonical (of_ip f) = of_ip f" by auto
  have "unat (of_failures f) \<le> failures_of (of_ip f) (now - span) events" unfolding ok(1) by (simp add: unat_of_nat)
  then show "unat threshold \<le> failures_of (of_ip f) (now - span) events" using ok(2) by (simp add: word_le_nat_alt)
qed

text \<open>The open row a ban of this scan leaves: the address, when the ban ends, and not lifted.\<close>

definition is_record_of :: "sentinel_env \<Rightarrow> sentinel_settings \<Rightarrow> ip_addr \<Rightarrow> ban_row \<Rightarrow> bool" where
  "is_record_of env st ip r \<longleftrightarrow> bn_ip r = show_ip ip \<and> bn_lifted_at r = None
     \<and> bn_expires_at r = Some (to_sql_time (sv_codec env) (sv_now env + ban_duration st))"

lemma judge_step:
  assumes "judge env st f (b, p, s) = Some (b', p', s')" and k: "k = BanIp (of_ip f) (Some (ban_ttl st))"
  shows "(ss_calls s' = ss_calls s \<and> ss_bans s' = ss_bans s)
    \<or> (ss_calls s' = ss_calls s @ [k] \<and> bannable (canonical (of_ip f)) (for_request None (sv_local env) st)
        \<and> (ss_bans s' = ss_bans s
           \<or> (sv_fw env (ss_calls s @ [k]) = Inr ()
              \<and> (\<exists>r. bt_rows (ss_bans s') = bt_rows (ss_bans s) @ [r] \<and> is_record_of env st (of_ip f) r))))"
  using assms(1)
  by (auto simp: judge_def Let_def call_fw_def k record_ban_def is_record_of_def simp flip: refusal_reason_none
      split: option.splits if_splits sum.splits prod.splits)

text \<open>The calls of the loop over the offenders, and the rows it adds: each for a ban the firewall reported done.\<close>

lemma judge_all_calls:
  assumes "judge_all env st fs (b, p, s) = (b', p', s', finished)"
  shows "\<exists>bans new. ss_calls s' = ss_calls s @ bans \<and> bt_rows (ss_bans s') = bt_rows (ss_bans s) @ new
    \<and> list_all (\<lambda>k. \<exists>f \<in> set fs. k = BanIp (of_ip f) (Some (ban_ttl st)) \<and> bannable (canonical (of_ip f)) (for_request None (sv_local env) st)) bans
    \<and> list_all (\<lambda>r. \<exists>ip pre post. bans = pre @ BanIp ip (Some (ban_ttl st)) # post
         \<and> sv_fw env (ss_calls s @ pre @ [BanIp ip (Some (ban_ttl st))]) = Inr () \<and> is_record_of env st ip r) new"
  using assms
proof (induction fs arbitrary: b p s)
  case (Cons f fs)
  let ?k = "\<lambda>ip. BanIp ip (Some (ban_ttl st))"
  let ?good = "\<lambda>fs k. \<exists>f \<in> set fs. k = ?k (of_ip f) \<and> bannable (canonical (of_ip f)) (for_request None (sv_local env) st)"
  let ?rec = "\<lambda>s bans r. \<exists>ip pre post. bans = pre @ ?k ip # post \<and> sv_fw env (ss_calls s @ pre @ [?k ip]) = Inr () \<and> is_record_of env st ip r"
  show ?case
  proof (cases "judge env st f (b, p, s)")
    case None
    then show ?thesis using Cons.prems by auto
  next
    case (Some acc)
    then obtain b1 p1 s1 where j: "judge env st f (b, p, s) = Some (b1, p1, s1)" by (cases acc) auto
    obtain bans new where tail: "ss_calls s' = ss_calls s1 @ bans" "bt_rows (ss_bans s') = bt_rows (ss_bans s1) @ new"
      "list_all (?good fs) bans" "list_all (?rec s1 bans) new"
      using Cons.IH [of b1 p1 s1] Cons.prems j by auto
    from judge_step [OF j refl] consider (spared) "ss_calls s1 = ss_calls s" "ss_bans s1 = ss_bans s"
      | (asked) "ss_calls s1 = ss_calls s @ [?k (of_ip f)]" "bannable (canonical (of_ip f)) (for_request None (sv_local env) st)"
        "ss_bans s1 = ss_bans s \<or> (sv_fw env (ss_calls s @ [?k (of_ip f)]) = Inr ()
           \<and> (\<exists>r. bt_rows (ss_bans s1) = bt_rows (ss_bans s) @ [r] \<and> is_record_of env st (of_ip f) r))"
      by blast
    then show ?thesis
    proof cases
      case spared
      then show ?thesis using tail by (intro exI [of _ bans] exI [of _ new]) (auto simp: list_all_iff)
    next
      case asked
      note calls = asked(1) and ok = asked(2)
      have "?rec s (?k (of_ip f) # bans) r" if rec: "?rec s1 bans r" for r
      proof -
        obtain ip pre post where "bans = pre @ ?k ip # post" "sv_fw env (ss_calls s1 @ pre @ [?k ip]) = Inr ()" "is_record_of env st ip r"
          using rec by blast
        then show ?thesis using calls by (intro exI [of _ ip] exI [of _ "?k (of_ip f) # pre"] exI [of _ post]) simp
      qed
      then have later: "list_all (?rec s (?k (of_ip f) # bans)) new" using tail(4) by (simp add: list_all_iff)
      have good: "list_all (?good (f # fs)) (?k (of_ip f) # bans)" using tail(3) ok by (auto simp: list_all_iff)
      from asked(3) show ?thesis
      proof (elim disjE conjE exE)
        assume "ss_bans s1 = ss_bans s"
        then show ?thesis
          using tail(1,2) calls good later by (intro exI [of _ "?k (of_ip f) # bans"] exI [of _ new]) simp
      next
        fix r
        assume reported: "sv_fw env (ss_calls s @ [?k (of_ip f)]) = Inr ()"
          and r: "bt_rows (ss_bans s1) = bt_rows (ss_bans s) @ [r]" "is_record_of env st (of_ip f) r"
        have "?rec s (?k (of_ip f) # bans) r"
          using reported r(2) by (intro exI [of _ "of_ip f"] exI [of _ "[]"] exI [of _ bans]) simp
        then show ?thesis
          using tail(1,2) calls good later r(1) by (intro exI [of _ "?k (of_ip f) # bans"] exI [of _ "r # new"]) simp
      qed
    qed
  qed
qed simp

lemma lift_one_rows:
  "map (\<lambda>r. r\<lparr>bn_lifted_at := None\<rparr>) (bt_rows (ss_bans (lift_expired env b s))) = map (\<lambda>r. r\<lparr>bn_lifted_at := None\<rparr>) (bt_rows (ss_bans s))"
  by (auto simp: lift_expired_def lift_bans_for_def sql_update_def call_fw_def Let_def comp_def split: option.splits)

lemma lift_all_calls:
  "\<exists>lifts. ss_calls (fold (lift_expired env) es s) = ss_calls s @ lifts \<and> list_all (\<lambda>k. \<exists>ip. k = UnbanIp ip) lifts
    \<and> map (\<lambda>r. r\<lparr>bn_lifted_at := None\<rparr>) (bt_rows (ss_bans (fold (lift_expired env) es s)))
      = map (\<lambda>r. r\<lparr>bn_lifted_at := None\<rparr>) (bt_rows (ss_bans s))"
proof (induction es arbitrary: s)
  case (Cons b es)
  obtain one where one: "ss_calls (lift_expired env b s) = ss_calls s @ one" "list_all (\<lambda>k. \<exists>ip. k = UnbanIp ip) one"
    by (cases "parse_ip (sb_ip b)") (auto simp: lift_expired_def call_fw_def Let_def)
  obtain lifts where "ss_calls (fold (lift_expired env) es (lift_expired env b s)) = ss_calls (lift_expired env b s) @ lifts"
    "list_all (\<lambda>k. \<exists>ip. k = UnbanIp ip) lifts"
    "map (\<lambda>r. r\<lparr>bn_lifted_at := None\<rparr>) (bt_rows (ss_bans (fold (lift_expired env) es (lift_expired env b s))))
      = map (\<lambda>r. r\<lparr>bn_lifted_at := None\<rparr>) (bt_rows (ss_bans (lift_expired env b s)))"
    using Cons.IH by blast
  then show ?case using one lift_one_rows [of env b s] by (intro exI [of _ "one @ lifts"]) simp
qed simp

text \<open>
  C20: Whatever the journal holds, a scan asks the firewall to lift bans and then to ban only addresses that
  reached the threshold within the window, and of these none that is a loopback address, one of this
  server's own, covered by an entry of the allowlist or no single host; each ban has its end. While
  Sentinel is off nobody is banned. The table of bans keeps its rows, of which the scan changes at most
  the column that says when they were lifted, and every row it adds is the open row of one of these bans
  that the firewall reported done.
\<close>

theorem sentinel_bans_only_offenders:
  "let st = load_settings (sv_settings env); since = sv_now env - window st; s' = fst (sentinel_tick env s) in
   \<exists>lifts bans old new. ss_calls s' = ss_calls s @ lifts @ bans
     \<and> list_all (\<lambda>k. \<exists>ip. k = UnbanIp ip) lifts
     \<and> list_all (\<lambda>k. \<exists>ip journal. k = BanIp ip (Some (ban_ttl st)) \<and> se_enabled st \<and> sv_journal env since = Inr journal
          \<and> unat (se_ssh_threshold st) \<le> failures_of ip since (sentinel_events env st journal)
          \<and> bannable ip (for_request None (sv_local env) st)) bans
     \<and> bt_rows (ss_bans s') = old @ new
     \<and> map (\<lambda>r. r\<lparr>bn_lifted_at := None\<rparr>) old = map (\<lambda>r. r\<lparr>bn_lifted_at := None\<rparr>) (bt_rows (ss_bans s))
     \<and> list_all (\<lambda>r. \<exists>ip pre post. bans = pre @ BanIp ip (Some (ban_ttl st)) # post
          \<and> sv_fw env (ss_calls s @ lifts @ pre @ [BanIp ip (Some (ban_ttl st))]) = Inr () \<and> is_record_of env st ip r) new"
proof -
  define st where "st = load_settings (sv_settings env)"
  let ?good = "\<lambda>k. \<exists>ip journal. k = BanIp ip (Some (ban_ttl st)) \<and> se_enabled st \<and> sv_journal env (sv_now env - window st) = Inr journal
      \<and> unat (se_ssh_threshold st) \<le> failures_of ip (sv_now env - window st) (sentinel_events env st journal)
      \<and> bannable ip (for_request None (sv_local env) st)"
  let ?rec = "\<lambda>lifts bans r. \<exists>ip pre post. bans = pre @ BanIp ip (Some (ban_ttl st)) # post
          \<and> sv_fw env (ss_calls s @ lifts @ pre @ [BanIp ip (Some (ban_ttl st))]) = Inr () \<and> is_record_of env st ip r"
  let ?bare = "map (\<lambda>r. r\<lparr>bn_lifted_at := None\<rparr>)"
  have "\<exists>lifts bans old new. ss_calls (fst (sentinel_tick env s)) = ss_calls s @ lifts @ bans
      \<and> list_all (\<lambda>k. \<exists>ip. k = UnbanIp ip) lifts \<and> list_all ?good bans
      \<and> bt_rows (ss_bans (fst (sentinel_tick env s))) = old @ new \<and> ?bare old = ?bare (bt_rows (ss_bans s))
      \<and> list_all (?rec lifts bans) new"
  proof (cases "expired_bans (sv_codec env) (sv_now env) (ss_bans s)")
    case (Inl e)
    then have "fst (sentinel_tick env s) = s" by (simp add: sentinel_tick_def Let_def)
    then show ?thesis
      by (intro exI [of _ "[]"] exI [of _ "[]"] exI [of _ "bt_rows (ss_bans s)"] exI [of _ "[]"]) simp
  next
    case (Inr es)
    let ?s1 = "fold (lift_expired env) es s"
    obtain lifts where lifts: "ss_calls ?s1 = ss_calls s @ lifts" "list_all (\<lambda>k. \<exists>ip. k = UnbanIp ip) lifts"
      "?bare (bt_rows (ss_bans ?s1)) = ?bare (bt_rows (ss_bans s))"
      using lift_all_calls by blast
    show ?thesis
    proof (cases "se_enabled st \<and> is_ok (sv_journal env (sv_now env - window st))")
      case False
      then have "fst (sentinel_tick env s) = ?s1"
        using Inr by (auto simp: sentinel_tick_def Let_def st_def is_ok_iff split: sum.splits)
      then show ?thesis
        using lifts by (intro exI [of _ lifts] exI [of _ "[]"] exI [of _ "bt_rows (ss_bans ?s1)"]) simp
    next
      case True
      then obtain journal where on: "se_enabled st" and j: "sv_journal env (sv_now env - window st) = Inr journal" by (auto simp: is_ok_iff)
      let ?fs = "offenders (sentinel_events env st journal) (sv_now env) (window st) (se_ssh_threshold st)"
      obtain b p s2 finished where all: "judge_all env st ?fs (0, 0, ?s1) = (b, p, s2, finished)"
        by (cases "judge_all env st ?fs (0, 0, ?s1)") auto
      obtain bans new where bans: "ss_calls s2 = ss_calls ?s1 @ bans" "bt_rows (ss_bans s2) = bt_rows (ss_bans ?s1) @ new"
        "list_all (\<lambda>k. \<exists>f \<in> set ?fs. k = BanIp (of_ip f) (Some (ban_ttl st)) \<and> bannable (canonical (of_ip f)) (for_request None (sv_local env) st)) bans"
        "list_all (?rec lifts bans) new"
        using judge_all_calls [OF all] unfolding lifts(1) append_assoc by blast
      have "?good (BanIp (of_ip f) (Some (ban_ttl st)))"
        if "f \<in> set ?fs" "bannable (canonical (of_ip f)) (for_request None (sv_local env) st)" for f
        using that offender_counted [OF that(1)] on j by (intro exI [of _ "of_ip f"] exI [of _ journal]) simp
      then have "list_all ?good bans" using bans(3) by (auto simp: list_all_iff)
      moreover have "fst (sentinel_tick env s) = s2" using Inr on j all by (simp add: sentinel_tick_def Let_def st_def)
      ultimately show ?thesis
        using bans(1,2,4) lifts by (intro exI [of _ lifts] exI [of _ bans] exI [of _ "bt_rows (ss_bans ?s1)"] exI [of _ new]) simp
    qed
  qed
  then show ?thesis by (simp only: Let_def st_def)
qed

section \<open>Whose address a line names\<close>

definition starts_clean :: "str \<Rightarrow> bool" where
  "starts_clean s \<longleftrightarrow> s = [] \<or> \<not> is_continuation (hd s)"

lemma wf_chars_append:
  "wf_chars xs \<Longrightarrow> wf_chars ys \<Longrightarrow> ys = [] \<or> \<not> is_continuation (hd (hd ys)) \<Longrightarrow> wf_chars (xs @ ys)"
proof (induction xs)
  case (Cons x xs)
  then show ?case by (cases xs; cases ys) auto
qed simp

lemma hd_str_chars: "s \<noteq> [] \<Longrightarrow> hd (hd (str_chars s)) = hd s"
  by (cases s) simp_all

lemma str_chars_append_clean: "starts_clean t \<Longrightarrow> str_chars (s @ t) = str_chars s @ str_chars t"
proof -
  assume "starts_clean t"
  then have "wf_chars (str_chars s @ str_chars t)"
    using hd_str_chars [of t] by (intro wf_chars_append) (auto simp: starts_clean_def)
  then show ?thesis using str_chars_concat [of "str_chars s @ str_chars t"] by simp
qed

lemma chunks_append_sep: "P x \<Longrightarrow> chunks P (xs @ x # ys) = chunks P xs @ chunks P ys"
proof (induction xs)
  case (Cons a xs)
  then show ?case using chunks_nonempty [of P xs] by (cases "chunks P xs") (auto simp del: chunks_nonempty)
qed simp

lemma split_whitespace_space:
  assumes "starts_clean t"
  shows "split_whitespace (s @ CHR '' '' # t) = split_whitespace s @ split_whitespace t"
proof -
  have sp: "is_whitespace [CHR '' '']" by (simp add: is_whitespace_single is_ascii_whitespace_def byte_def)
  have "starts_clean (CHR '' '' # t)" by (simp add: starts_clean_def is_continuation_def byte_def)
  then have "str_chars (s @ CHR '' '' # t) = str_chars s @ str_chars (CHR '' '' # t)" by (rule str_chars_append_clean)
  moreover have "str_chars (CHR '' '' # t) = [CHR '' ''] # str_chars t"
    using assms by (cases t) (simp_all add: starts_clean_def)
  ultimately show ?thesis using sp by (simp add: split_whitespace_def chunks_append_sep)
qed

definition plain_word :: "str \<Rightarrow> bool" where
  "plain_word w \<longleftrightarrow> w \<noteq> [] \<and> list_all plain_char w"

lemma plain_word_starts: "plain_word w \<Longrightarrow> starts_clean (w @ t)"
  by (cases w) (auto simp: plain_word_def starts_clean_def plain_char_def is_continuation_def)

lemma split_whitespace_words:
  assumes "list_all plain_word (w # ws)"
  shows "split_whitespace (w @ concat (map (\<lambda>x. CHR '' '' # x) ws)) = w # ws"
  using assms
proof (induction ws arbitrary: w)
  case Nil
  then show ?case using split_whitespace_join(1) [of "[w]"] by (simp add: plain_word_def)
next
  case (Cons x ws)
  have "starts_clean (x @ concat (map (\<lambda>x. CHR '' '' # x) ws))" using Cons.prems by (intro plain_word_starts) simp
  then have "split_whitespace (w @ CHR '' '' # x @ concat (map (\<lambda>x. CHR '' '' # x) ws))
      = split_whitespace w @ split_whitespace (x @ concat (map (\<lambda>x. CHR '' '' # x) ws))"
    by (rule split_whitespace_space)
  moreover have "split_whitespace w = [w]"
    using split_whitespace_join(1) [of "[w]"] Cons.prems by (simp add: plain_word_def)
  ultimately show ?case using Cons.IH [of x] Cons.prems by simp
qed

lemma last_pair_no_port: "''port'' \<notin> set (tl ts) \<Longrightarrow> last_pair found ts = found"
proof (induction found ts rule: last_pair.induct)
  case (1 found a k p ts)
  then show ?case by (cases "k = ''port''") simp_all
qed simp_all

lemma last_pair_decides:
  assumes "parse_ip a = Some ip" "parse_u16 (str_trim_end_matches CHR '':'' p) \<noteq> None" "''port'' \<notin> set (p # ws)"
  shows "last_pair found (pre @ a # ''port'' # p # ws) = Some (canonical ip)"
proof (induction pre arbitrary: found)
  case Nil
  show ?case using assms last_pair_no_port [of "''port'' # p # ws"] by (auto simp del: not_None_eq)
next
  case (Cons b pre)
  obtain k q ts where rest: "pre @ a # ''port'' # p # ws = k # q # ts"
    by (cases pre; cases "tl pre") auto
  show ?case using Cons rest by simp
qed

lemma show_word_plain: "plain_word (show_word n)" "''port'' \<noteq> show_word n"
proof -
  have d: "list_all is_ascii_digit (show_word n)" by (simp add: show_word_def show_nat_digits)
  then show "plain_word (show_word n)"
    by (auto simp: plain_word_def show_word_def list_all_iff plain_char_def ascii_defs is_ascii_whitespace_def)
  show "''port'' \<noteq> show_word n"
  proof
    assume "''port'' = show_word n"
    then have "list_all is_ascii_digit ''port''" using d by simp
    then show False by (simp add: ascii_defs byte_def)
  qed
qed

lemma parse_port_word: "parse_u16 (str_trim_end_matches CHR '':'' (show_word (n :: u16))) = Some n"
proof -
  have d: "list_all is_ascii_digit (show_word n)" by (simp add: show_word_def show_nat_digits)
  have "dropWhile (\<lambda>d. d = CHR '':'') (rev (show_word n)) = rev (show_word n)"
    using d by (cases "rev (show_word n)") (auto simp: list_all_iff ascii_defs byte_def dest!: arg_cong [of _ _ set])
  then have "str_trim_end_matches CHR '':'' (show_word n) = show_word n" by (simp add: str_trim_end_matches_def)
  moreover have "unat n \<le> 65535" using unsigned_less [where ?'a = nat, of n] by simp
  ultimately show ?thesis
    by (simp add: parse_u16_def show_word_def parse_unsigned_show_nat)
qed

lemma show_ip_nonempty: "show_ip ip \<noteq> []"
proof
  assume e: "show_ip ip = []"
  have "read_ipv4 [] = None" by (rule read_ipv4_needs_dot) simp
  moreover have "read_ipv6 [] = None" by (simp add: read_ipv6_def read_groups_stops)
  ultimately have "parse_ip [] = None" by (simp add: parse_ip_def)
  then show False using e parse_show_v4 parse_show_mapped parse_show_groups by (cases ip) (metis option.distinct(1) option.exhaust)+
qed

lemma show_ip_plain: "plain_word (show_ip ip)"
  using show_ip_chars [of ip] address_char_plain show_ip_nonempty by (auto simp: plain_word_def list_all_iff)

definition words_text :: "str list \<Rightarrow> str" where
  "words_text ws = concat (map (\<lambda>w. CHR '' '' # w) ws)"

lemma words_text_end: "ws \<noteq> [] \<Longrightarrow> list_all plain_word ws \<Longrightarrow> words_text ws \<noteq> [] \<and> plain_char (last (words_text ws))"
proof (induction ws rule: rev_induct)
  case (snoc w ws)
  then show ?case by (auto simp: words_text_def plain_word_def list_all_iff)
qed simp

lemma words_text_ascii: "list_all plain_word ws \<Longrightarrow> ascii (words_text ws)"
  by (induction ws) (auto simp: words_text_def plain_word_def ascii_def list_all_iff plain_char_def byte_def)

lemma str_trim_words:
  assumes "plain_char c" "plain_char d" "ws \<noteq> []" "list_all plain_word ws"
  shows "str_trim (c # d # r @ words_text ws) = c # d # r @ words_text ws"
    "str_trim_start (c # d # r @ words_text ws) = c # d # r @ words_text ws"
proof -
  let ?s = "c # d # r @ words_text ws"
  have "starts_clean (words_text ws)"
    using assms(3) by (cases ws) (simp_all add: words_text_def starts_clean_def is_continuation_def byte_def)
  then have chars: "str_chars ?s = str_chars (c # d # r) @ map (\<lambda>c. [c]) (words_text ws)"
    using str_chars_append_clean [of "words_text ws" "c # d # r"] words_text_ascii [OF assms(4)] by (simp add: str_chars_ascii)
  have "\<not> is_continuation d" using assms(2) by (simp add: plain_char_def is_continuation_def)
  then have head: "str_chars (c # d # r) = [c] # str_chars (d # r)" by simp
  have nows: "\<not> is_whitespace [c]" "\<not> is_whitespace [last (words_text ws)]"
    using assms(1) words_text_end [OF assms(3,4)] by (simp_all add: is_whitespace_single plain_char_def)
  have ends: "hd (str_chars ?s) = [c]" "last (str_chars ?s) = [last (words_text ws)]"
    using words_text_end [OF assms(3,4)] by (simp_all only: chars head) (simp_all add: last_map)
  have "trim_list is_whitespace (str_chars ?s) = str_chars ?s"
    using nows ends by (intro trim_list_id) (simp del: str_chars.simps)
  then have "str_trim ?s = concat (str_chars ?s)" by (simp only: str_trim_alt)
  then show "str_trim ?s = ?s" by (simp only: concat_str_chars)
  have "dropWhile is_whitespace (str_chars ?s) = str_chars ?s"
    using nows(1) ends(1) by (cases "str_chars ?s") (simp_all del: str_chars.simps)
  then have "str_trim_start ?s = concat (str_chars ?s)" by (simp only: str_trim_start_def)
  then show "str_trim_start ?s = ?s" by (simp only: concat_str_chars)
qed

lemma split_whitespace_text:
  assumes "list_all plain_word ws"
  shows "split_whitespace (s @ words_text ws) = split_whitespace s @ ws"
proof (cases ws)
  case (Cons w us)
  have "starts_clean (w @ words_text us)" using assms Cons by (intro plain_word_starts) simp
  then have "split_whitespace (s @ CHR '' '' # w @ words_text us) = split_whitespace s @ split_whitespace (w @ words_text us)"
    by (rule split_whitespace_space)
  then show ?thesis using split_whitespace_words [of w us] assms Cons by (simp add: words_text_def)
qed (simp add: words_text_def)

lemma failure_words:
  assumes "severity \<in> set ['''', ''error: '', ''fatal: '', ''warning: '']" "opening \<in> set ssh_failure_openings"
    "ws \<noteq> []" "list_all plain_word ws"
  shows "parse_ssh_failure (severity @ opening @ user @ words_text ws) = last_pair None (split_whitespace (opening @ user) @ ws)"
proof -
  let ?m = "opening @ user @ words_text ws"
  have two: "\<exists>c d r. opening = c # d # r \<and> plain_char c \<and> plain_char d"
    and clean: "strip_sshd_severity ?m = ?m"
    using assms(2) by (auto simp: ssh_failure_openings_def strip_sshd_severity_def plain_char_def is_ascii_whitespace_def byte_def)
  then obtain c d r where op: "opening = c # d # r" "plain_char c" "plain_char d" by blast
  have "\<exists>c d r. severity @ opening = c # d # r \<and> plain_char c \<and> plain_char d"
    using assms(1) op by (auto simp: plain_char_def is_ascii_whitespace_def byte_def)
  then obtain c' d' r' where sv: "severity @ opening = c' # d' # r'" "plain_char c'" "plain_char d'" by blast
  have "severity @ ?m = (severity @ opening) @ user @ words_text ws" by simp
  also have "\<dots> = c' # d' # (r' @ user) @ words_text ws" unfolding sv(1) by simp
  finally have e: "severity @ ?m = c' # d' # (r' @ user) @ words_text ws" .
  have trimmed: "str_trim (severity @ ?m) = severity @ ?m"
    unfolding e by (rule str_trim_words(1) [OF sv(2,3) assms(3,4)])
  have "str_trim_start ?m = ?m" using str_trim_words(2) [OF op(2,3) assms(3,4), of "r @ user"] op(1) by simp
  then have "strip_sshd_severity (severity @ ?m) = ?m"
    using assms(1) clean by (cases "severity = []") (auto simp: strip_sshd_severity_def)
  moreover have "list_ex (\<lambda>p. starts_with p ?m) ssh_failure_openings"
    using assms(2) by (auto simp: list_ex_iff starts_with_def intro!: bexI [of _ "opening"])
  moreover have "split_whitespace ?m = split_whitespace (opening @ user) @ ws"
    using split_whitespace_text [OF assms(4), of "opening @ user"] by simp
  ultimately show ?thesis by (simp add: parse_ssh_failure_def trimmed Let_def)
qed

text \<open>
  C23: The last address that a port follows is the one a failure line names. So a line of sshd that ends in
  its address, its port and words other than \<open>port\<close> names that address, whatever user name is in
  front of it; and if such a pair follows in text that the peer chose, that pair's address is named.
\<close>

theorem user_names_choose_no_address:
  assumes "severity \<in> set ['''', ''error: '', ''fatal: '', ''warning: '']" "opening \<in> set ssh_failure_openings"
    "list_all (\<lambda>w. plain_word w \<and> w \<noteq> ''port'') ws"
  shows "parse_ssh_failure (severity @ opening @ user @ words_text (show_ip ip # ''port'' # show_word (n :: u16) # ws)) = Some (canonical ip)"
    (is "?line = _")
proof -
  have "plain_word ''port''" by (simp add: plain_word_def plain_char_def is_ascii_whitespace_def byte_def)
  then have "list_all plain_word (show_ip ip # ''port'' # show_word n # ws)"
    using assms(3) show_ip_plain show_word_plain(1) by (auto simp: list_all_iff)
  then have "?line = last_pair None (split_whitespace (opening @ user) @ show_ip ip # ''port'' # show_word n # ws)"
    by (intro failure_words assms(1,2)) simp_all
  also have "\<dots> = Some (canonical ip)"
  proof (rule last_pair_decides)
    show "parse_ip (show_ip ip) = Some ip"
      using parse_show_v4 parse_show_mapped parse_show_groups by (cases ip) (metis option.exhaust)+
    show "''port'' \<notin> set (show_word n # ws)" using assms(3) show_word_plain(2) [of n] by (auto simp: list_all_iff)
  qed (simp add: parse_port_word)
  finally show ?thesis .
qed

section \<open>Which bans a scan lifts\<close>

definition lift_row :: "json codec \<Rightarrow> int \<Rightarrow> str set \<Rightarrow> ban_row \<Rightarrow> ban_row" where
  "lift_row c now ips r = (if bn_ip r \<in> ips \<and> bn_lifted_at r = None then r\<lparr>bn_lifted_at := Some (to_sql_time c now)\<rparr> else r)"

lemma lift_row_simps [simp]: "bn_ip (lift_row c now ips r) = bn_ip r" "lift_row c now {} = id"
  by (simp_all add: lift_row_def fun_eq_iff)

lemma lift_row_twice: "lift_row c now ips (lift_row c now js r) = lift_row c now (ips \<union> js) r"
  by (simp add: lift_row_def)

lemma lift_bans_rows: "bt_rows (fst (lift_bans_for c now ip db)) = map (lift_row c now {ip}) (bt_rows db)"
  by (simp add: lift_bans_for_def sql_update_def lift_row_def split: prod.splits)

lemma lift_expired_rows:
  "bt_rows (ss_bans (lift_expired env b s)) = map (lift_row (sv_codec env) (sv_now env) {sb_ip b}) (bt_rows (ss_bans s))"
  by (simp add: lift_expired_def Let_def call_fw_def lift_bans_rows split: option.splits)

lemma lift_all_rows:
  "bt_rows (ss_bans (fold (lift_expired env) es s)) = map (lift_row (sv_codec env) (sv_now env) (sb_ip ` set es)) (bt_rows (ss_bans s))"
proof (induction es arbitrary: s)
  case (Cons b es)
  then show ?case by (simp add: lift_expired_rows lift_row_twice insert_commute Un_commute)
qed simp

lemma judge_rows:
  "judge env st f (b, p, s) = Some (b', p', s') \<Longrightarrow> \<exists>new. bt_rows (ss_bans s') = bt_rows (ss_bans s) @ new"
  by (auto simp: judge_def Let_def call_fw_def record_ban_def split: option.splits if_splits sum.splits prod.splits)

lemma judge_all_rows:
  "judge_all env st fs (b, p, s) = (b', p', s', finished) \<Longrightarrow> \<exists>new. bt_rows (ss_bans s') = bt_rows (ss_bans s) @ new"
proof (induction fs arbitrary: b p s)
  case (Cons f fs)
  show ?case
  proof (cases "judge env st f (b, p, s)")
    case (Some acc)
    then obtain b1 p1 s1 where j: "judge env st f (b, p, s) = Some (b1, p1, s1)" by (cases acc) auto
    then show ?thesis using Cons.IH [of b1 p1 s1] Cons.prems judge_rows [OF j] by auto
  qed (use Cons.prems in auto)
qed simp

lemma expired_addresses:
  "expired_bans c now db = Inr es \<Longrightarrow> sb_ip ` set es = bn_ip ` {r \<in> set (bt_rows db). has_expired c now r}"
proof -
  assume e: "expired_bans c now db = Inr es"
  have "sb_ip b = bn_ip r" if "ban_of_row c r = Inr b" for r b
    using that by (auto simp: ban_of_row_def result_simps)
  then have "map sb_ip bs = map bn_ip rs" if "collect_results (map (ban_of_row c) rs) = Inr bs" for rs bs
    using that by (auto simp: collect_results_Inr list_eq_iff_nth_eq)
  then have "map sb_ip es = map bn_ip (sort_key (\<lambda>r. the (bn_expires_at r)) (filter (has_expired c now) (bt_rows db)))"
    using e by (simp add: expired_bans_def)
  then have "set (map sb_ip es) = set (map bn_ip (sort_key (\<lambda>r. the (bn_expires_at r)) (filter (has_expired c now) (bt_rows db))))"
    by (rule arg_cong)
  then show ?thesis by simp
qed

text \<open>
  A scan goes through the bans by address: where one ban of an address has run out, every open ban of
  that address is lifted, and all others stay as they are. New bans come behind. When a row does not
  decode, the scan ends before it does anything.
\<close>

theorem expiry_goes_by_address:
  "let c = sv_codec env; now = sv_now env; s' = fst (sentinel_tick env s) in
   (case expired_bans c now (ss_bans s) of
      Inl _ \<Rightarrow> s' = s
    | Inr _ \<Rightarrow> \<exists>new. bt_rows (ss_bans s') =
        map (lift_row c now (bn_ip ` {r \<in> set (bt_rows (ss_bans s)). has_expired c now r})) (bt_rows (ss_bans s)) @ new)"
proof (cases "expired_bans (sv_codec env) (sv_now env) (ss_bans s)")
  case (Inl e)
  then show ?thesis by (simp add: sentinel_tick_def Let_def)
next
  case (Inr es)
  let ?st = "load_settings (sv_settings env)"
  let ?s1 = "fold (lift_expired env) es s"
  have "\<exists>new. bt_rows (ss_bans (fst (sentinel_tick env s))) = bt_rows (ss_bans ?s1) @ new"
  proof (cases "se_enabled ?st")
    case True
    then show ?thesis
      using Inr judge_all_rows [of env ?st _ 0 0 ?s1] by (fastforce simp: sentinel_tick_def Let_def split: sum.splits prod.splits)
  qed (use Inr in \<open>simp add: sentinel_tick_def Let_def\<close>)
  then show ?thesis using Inr expired_addresses [OF Inr] by (simp add: Let_def lift_all_rows)
qed

lemma expiry_lifts_a_permanent_ban:
  assumes "expired_bans (sv_codec env) (sv_now env) (ss_bans s) = Inr es"
    "q \<in> set (bt_rows (ss_bans s))" "has_expired (sv_codec env) (sv_now env) q"
    "r \<in> set (bt_rows (ss_bans s))" "bn_ip r = bn_ip q" "bn_lifted_at r = None" "bn_expires_at r = None"
  shows "r\<lparr>bn_lifted_at := Some (to_sql_time (sv_codec env) (sv_now env))\<rparr> \<in> set (bt_rows (ss_bans (fold (lift_expired env) es s)))"
proof -
  have "bn_ip r \<in> sb_ip ` set es" using assms(2,3,5) expired_addresses [OF assms(1)] by auto
  then have "lift_row (sv_codec env) (sv_now env) (sb_ip ` set es) r = r\<lparr>bn_lifted_at := Some (to_sql_time (sv_codec env) (sv_now env))\<rparr>"
    using assms(6) by (simp add: lift_row_def)
  then show ?thesis using assms(4) by (metis image_eqI image_set lift_all_rows)
qed

section \<open>Every offender is banned\<close>

definition times_sort :: "'j codec \<Rightarrow> bool" where
  "times_sort c \<longleftrightarrow> (\<forall>s t. enc_time c s < enc_time c t \<longleftrightarrow> s < t)"

lemma is_banned_more: "bt_rows db' = bt_rows db @ new \<Longrightarrow> is_banned c now ip db \<Longrightarrow> is_banned c now ip db'"
  by (simp add: is_banned_def)

lemma judge_bans:
  assumes "times_sort (sv_codec env)" "\<And>ks. is_ok (sv_fw env ks)" "0 < ban_duration st"
    "bannable (canonical (of_ip f)) (for_request None (sv_local env) st)" "judge env st f (b, p, s) = Some (b', p', s')"
  shows "is_banned (sv_codec env) (sv_now env) (show_ip (of_ip f)) (ss_bans s')"
proof -
  have "refusal_reason (of_ip f) (for_request None (sv_local env) st) = Some None" using assms(4) by (simp add: refusal_reason_none)
  moreover obtain u where "sv_fw env (ss_calls s @ [BanIp (of_ip f) (Some (ban_ttl st))]) = Inr u"
    using assms(2) by (auto simp: is_ok_iff)
  ultimately show ?thesis
    using assms(5,1,3) by (auto simp: judge_def Let_def call_fw_def record_ban_def is_banned_def holds_at_def to_sql_time_def times_sort_def split: if_splits)
qed

lemma judge_all_bans:
  assumes "times_sort (sv_codec env)" "\<And>ks. is_ok (sv_fw env ks)" "0 < ban_duration st"
    "judge_all env st fs (b, p, s) = (b', p', s', True)" "f \<in> set fs"
    "bannable (canonical (of_ip f)) (for_request None (sv_local env) st)"
  shows "is_banned (sv_codec env) (sv_now env) (show_ip (of_ip f)) (ss_bans s')"
  using assms(4,5)
proof (induction fs arbitrary: b p s)
  case (Cons g fs)
  then obtain b1 p1 s1 where j: "judge env st g (b, p, s) = Some (b1, p1, s1)" and rest: "judge_all env st fs (b1, p1, s1) = (b', p', s', True)"
    by (cases "judge env st g (b, p, s)") auto
  show ?case
  proof (cases "f = g")
    case True
    then have "is_banned (sv_codec env) (sv_now env) (show_ip (of_ip f)) (ss_bans s1)"
      using judge_bans [OF assms(1-3) _ j] assms(6) by simp
    then show ?thesis using judge_all_rows [OF rest] is_banned_more by blast
  qed (use Cons.IH [OF rest] Cons.prems in simp)
qed simp

lemma first_covering_total: "(\<And>e. e \<in> set es \<Longrightarrow> cidr_contains e ip \<noteq> None) \<Longrightarrow> first_covering ip es \<noteq> None"
proof (induction es)
  case (Cons e es)
  then obtain v where "cidr_contains e ip = Some v" by (metis list.set_intros(1) not_None_eq)
  then show ?case using Cons by (cases v) simp_all
qed simp

lemma judge_all_total:
  assumes "\<And>e ip. e \<in> set (se_allowlist st) \<Longrightarrow> cidr_contains e ip \<noteq> None"
  shows "\<exists>b' p' s'. judge_all env st fs (b, p, s) = (b', p', s', True)"
proof (induction fs arbitrary: b p s)
  case (Cons f fs)
  have "refusal_reason (of_ip f) (for_request None (sv_local env) st) \<noteq> None"
    using first_covering_total [of "se_allowlist st" "canonical (of_ip f)"] assms
    by (auto simp: refusal_reason_def Let_def for_request_def split: option.splits)
  then obtain acc where "judge env st f (b, p, s) = Some acc"
    by (fastforce simp: judge_def Let_def split: option.splits sum.splits prod.splits if_splits)
  then show ?case using Cons by (cases acc) simp
qed simp

lemma offender_listed:
  assumes "canonical ip = ip" "unat threshold \<le> failures_of ip (now - span) events" "0 < threshold" "failures_of ip (now - span) events < 2 ^ 32"
  shows "\<exists>f \<in> set (offenders events now span threshold). of_ip f = ip"
proof -
  have "0 < failures_of ip (now - span) events" using assms(2,3) by (simp add: word_less_nat_alt)
  then have "\<exists>e \<in> set events. (now - span) * 10 ^ 9 \<le> af_at e \<and> canonical (af_ip e) = ip"
    unfolding failures_of_def by (metis (mono_tags, lifting) filter_False length_0_conv less_numeral_extra(3))
  moreover have "threshold \<le> of_nat (failures_of ip (now - span) events)"
    using assms(2,4) by (simp add: word_le_nat_alt unat_of_nat)
  ultimately show ?thesis
    by (intro bexI [of _ "\<lparr>of_ip = ip, of_failures = of_nat (failures_of ip (now - span) events)\<rparr>"]) (auto simp: offenders_def Let_def image_iff)
qed

text \<open>
  C21: While Sentinel is on, the firewall takes what it is given and no entry of the allowlist makes a
  comparison panic, every address at the threshold that may be banned has a ban after the scan.
\<close>

theorem offenders_are_banned:
  assumes "times_sort (sv_codec env)" "\<And>ks. is_ok (sv_fw env ks)" "st = load_settings (sv_settings env)" "is_ok (validate_settings st)"
    "se_enabled st" "\<And>e a. e \<in> set (se_allowlist st) \<Longrightarrow> cidr_contains e a \<noteq> None"
    "is_ok (expired_bans (sv_codec env) (sv_now env) (ss_bans s))" "sv_journal env (sv_now env - window st) = Inr journal"
    "canonical ip = ip" "bannable ip (for_request None (sv_local env) st)"
    "unat (se_ssh_threshold st) \<le> failures_of ip (sv_now env - window st) (sentinel_events env st journal)"
    "failures_of ip (sv_now env - window st) (sentinel_events env st journal) < 2 ^ 32"
  shows "is_banned (sv_codec env) (sv_now env) (show_ip ip) (ss_bans (fst (sentinel_tick env s)))"
proof -
  obtain es where es: "expired_bans (sv_codec env) (sv_now env) (ss_bans s) = Inr es" using assms(7) by (auto simp: is_ok_iff)
  let ?fs = "offenders (sentinel_events env st journal) (sv_now env) (window st) (se_ssh_threshold st)"
  have "se_ssh_threshold st \<noteq> 0" "\<not> se_ban_minutes st < 1"
    using assms(4) by (auto simp: validate_settings_def bad_setting_def split: if_splits)
  then have bounds: "0 < se_ssh_threshold st" "0 < ban_duration st"
  proof -
    assume m: "\<not> se_ban_minutes st < 1" and t: "se_ssh_threshold st \<noteq> 0"
    show "0 < se_ssh_threshold st" using t by (simp add: word_gt_0)
    have "se_ban_minutes st \<noteq> 0" using m by auto
    then have "0 < unat (se_ban_minutes st)" by (simp add: unat_gt_0)
    then show "0 < ban_duration st" unfolding ban_duration_def by linarith
  qed
  obtain b p s2 where all: "judge_all env st ?fs (0, 0, fold (lift_expired env) es s) = (b, p, s2, True)"
    using judge_all_total assms(6) by blast
  obtain f where f: "f \<in> set ?fs" "of_ip f = ip" using offender_listed [OF assms(9,11) bounds(1) assms(12)] by blast
  have "is_banned (sv_codec env) (sv_now env) (show_ip (of_ip f)) (ss_bans s2)"
    using judge_all_bans [OF assms(1,2) bounds(2) all f(1)] f(2) assms(9,10) by simp
  moreover have "fst (sentinel_tick env s) = s2"
    using es assms(5,8) all unfolding assms(3) by (simp add: sentinel_tick_def Let_def)
  ultimately show ?thesis using f(2) by simp
qed

section \<open>The operator's own bans\<close>

text \<open>
  C22: \<open>fw.ban\<close> either leaves everything as it was and fails, or hands the firewall one address that may be
  banned, and that is neither a loopback address nor the caller's own; only what the firewall took is
  recorded, as an open ban behind the others.
\<close>

theorem operators_cannot_ban_themselves:
  "let (s', r) = fw_ban env input s in
   (s' = s \<and> (r = None \<or> (\<exists>e. r = Some (Inl e))))
   \<or> (\<exists>ip ttl. parse_ip_input (bi_ip input) ''ip'' = Inr ip \<and> ss_calls s' = ss_calls s @ [BanIp ip ttl]
        \<and> bannable ip (for_request (live_client (bi_client_ip input)) (sv_local env) (load_settings (sv_settings env)))
        \<and> ((\<exists>e. r = Some (Inl e) \<and> ss_bans s' = ss_bans s)
            \<or> (\<exists>out row. r = Some (Inr out) \<and> bo_ip out = show_ip ip \<and> bt_rows (ss_bans s') = bt_rows (ss_bans s) @ [row]
                 \<and> bn_ip row = show_ip ip \<and> bn_lifted_at row = None)))"
proof (cases "parse_ip_input (bi_ip input) ''ip''")
  case (Inl e)
  then show ?thesis by (simp add: fw_ban_def)
next
  case (Inr ip)
  let ?g = "for_request (live_client (bi_client_ip input)) (sv_local env) (load_settings (sv_settings env))"
  have ip: "canonical ip = ip" using Inr by (auto simp: parse_ip_input_def split: option.splits)
  show ?thesis
  proof (cases "refusal_reason ip ?g = Some None")
    case True
    then have "bannable ip ?g" using ip by (simp add: refusal_reason_none)
    then show ?thesis
      using Inr True by (auto simp: fw_ban_def Let_def call_fw_def record_ban_def split: sum.splits prod.splits)
  next
    case False
    then show ?thesis using Inr by (auto simp: fw_ban_def Let_def split: option.splits)
  qed
qed

section \<open>Two settings and a view that go wrong\<close>

text \<open>An entry that \<open>validate_settings\<close> accepts and that stops every ban of a version 4 address.\<close>

lemma mapped_entry_stops_bans:
  assumes "to_ipv4_mapped m = Some n" "is_ok (validate_settings st)"
  shows "is_ok (validate_settings (st\<lparr>se_allowlist := [show_ip (V6 m)]\<rparr>))
    \<and> (\<not> is_loopback (V4 a) \<longrightarrow> V4 a \<notin> canonical ` set local_addresses
        \<longrightarrow> refusal_reason (V4 a) (for_request None local_addresses (st\<lparr>se_allowlist := [show_ip (V6 m)]\<rparr>)) = None)"
  using assms(2) mapped_entry_panics [OF assms(1)]
  by (auto simp: validate_settings_def bad_setting_def refusal_reason_def Let_def for_request_def list_ex_iff image_iff
      simp del: show_ip.simps is_loopback.simps split: if_splits option.splits)

text \<open>A ban whose open row is not among the rows asked for is shown as one without a record.\<close>

definition two_bans :: sentinel_state where
  "two_bans =
     \<lparr>ss_bans = \<lparr>bt_rows = [\<lparr>bn_id = 1, bn_ip = show_ip (V4 0x01010101), bn_reason = ''a'', bn_banned_at = sample_enc_time 0,
          bn_expires_at = None, bn_lifted_at = None\<rparr>,
        \<lparr>bn_id = 2, bn_ip = show_ip (V4 0x02020202), bn_reason = ''b'', bn_banned_at = sample_enc_time 0,
          bn_expires_at = None, bn_lifted_at = None\<rparr>], bt_seq = 2\<rparr>,
      ss_audit = \<lparr>au_rows = [], au_seq = 0\<rparr>, ss_calls = []\<rparr>"

definition quiet_env :: sentinel_env where
  "quiet_env =
     \<lparr>sv_codec = sample_json_codec, sv_now = 1000,
      sv_settings = \<lparr>st_enabled = Some True, st_ssh_threshold = Some 1, st_window_minutes = None, st_ban_minutes = None,
        st_allowlist = None\<rparr>,
      sv_local = [], sv_journal = (\<lambda>_. Inr []), sv_from_str = (\<lambda>_. None),
      sv_attempts = \<lparr>at_rows = [\<lparr>la_id = 1, la_at = sample_enc_time 990, la_ip = show_ip (V4 0xC6336409), la_username = ''root'',
        la_success = 0\<rparr>], at_seq = 1\<rparr>,
      sv_fw = (\<lambda>_. Inr ()), sv_audit_ok = True, sv_request_id = ''r''\<rparr>"

lemma short_list_hides_records:
  "\<exists>bans. fw_bans quiet_env (Inr [V4 0x01010101]) (Some 1) two_bans = Inr (bans, [show_ip (V4 0x01010101)])
     \<and> list_ex (\<lambda>r. bn_ip r = show_ip (V4 0x01010101) \<and> bn_lifted_at r = None) (bt_rows (ss_bans two_bans))"
proof -
  have t: "from_sql_time sample_json_codec (sample_enc_time 0) = Inr 0"
    by (simp add: from_sql_time_def sample_json_codec_def sample_dec_time_def sample_enc_time_def)
  have ip: "parse_ip (show_ip (V4 n)) = Some (V4 n)" for n by (rule parse_show_v4)
  show ?thesis
    by (simp add: fw_bans_def two_bans_def quiet_env_def recent_bans_def bans_newest_first_def ban_of_row_def t from_sql_time_opt_def ip
        map_filter_simps del: show_ip.simps)
qed

section \<open>Instances\<close>

lemma json_codec_times: "times_sort sample_json_codec"
  using codec_okD(2) [OF sample_codec_ok] by (simp add: times_sort_def sample_json_codec_def sample_codec_def)

theorem offenders_are_banned_witness:
  "is_banned sample_json_codec 1000 (show_ip (V4 0xC6336409)) (ss_bans (fst (sentinel_tick quiet_env two_bans)))"
proof -
  define st where "st = load_settings (sv_settings quiet_env)"
  have st: "st = \<lparr>se_enabled = True, se_ssh_threshold = 1, se_window_minutes = 10, se_ban_minutes = 60, se_allowlist = []\<rparr>"
    by (simp add: st_def quiet_env_def load_settings_def default_settings_def setting_or_def)
  have le: "sample_enc_time 400 \<le> sample_enc_time 990"
    using json_codec_times by (auto simp: times_sort_def sample_json_codec_def le_less)
  have events: "sentinel_events quiet_env st [] = [\<lparr>af_ip = V4 0xC6336409, af_at = 1000 * 10 ^ 9\<rparr>]"
    using le by (simp add: sentinel_events_def quiet_env_def st parse_journal_def str_lines_def map_filter_simps login_events_def failed_logins_since_def
        window_def to_sql_time_def sample_json_codec_def parse_show_v4 del: show_ip.simps)
  have count: "failures_of (V4 0xC6336409) 400 (sentinel_events quiet_env st []) = 1"
    by (simp add: failures_of_def events)
  have "is_banned (sv_codec quiet_env) (sv_now quiet_env) (show_ip (V4 0xC6336409)) (ss_bans (fst (sentinel_tick quiet_env two_bans)))"
  proof (rule offenders_are_banned [OF _ _ st_def])
    show "times_sort (sv_codec quiet_env)" using json_codec_times by (simp add: quiet_env_def)
    show "is_ok (sv_fw quiet_env ks)" for ks by (simp add: quiet_env_def)
    show "is_ok (validate_settings st)" by (simp add: st validate_settings_def)
    show "is_ok (expired_bans (sv_codec quiet_env) (sv_now quiet_env) (ss_bans two_bans))"
      by (simp add: expired_bans_def two_bans_def has_expired_def)
    show "sv_journal quiet_env (sv_now quiet_env - window st) = Inr []" by (simp add: quiet_env_def)
    show "bannable (V4 0xC6336409) (for_request None (sv_local quiet_env) st)"
      by (simp add: bannable_def for_request_def quiet_env_def st is_unspecified_or_wildcard_def)
    have "sv_now quiet_env - window st = 400" by (simp add: quiet_env_def st window_def)
    then show "unat (se_ssh_threshold st) \<le> failures_of (V4 0xC6336409) (sv_now quiet_env - window st) (sentinel_events quiet_env st [])"
      "failures_of (V4 0xC6336409) (sv_now quiet_env - window st) (sentinel_events quiet_env st []) < 2 ^ 32"
      using count by (simp_all add: st)
  qed (simp_all add: st)
  then show ?thesis by (simp add: quiet_env_def)
qed

theorem user_names_choose_no_address_witness:
  "parse_ssh_failure (''error: '' @ ''Invalid user'' @ '' from 203.0.113.1 port 22'' @ words_text [show_ip (V4 0xC6336409), ''port'', show_word (22 :: u16), ''ssh2''])
     = Some (V4 0xC6336409)"
  using user_names_choose_no_address [of "''error: ''" "''Invalid user''" "[''ssh2'']" "'' from 203.0.113.1 port 22''" "V4 0xC6336409" 22]
  by (simp add: ssh_failure_openings_def plain_word_def plain_char_def is_ascii_whitespace_def byte_def del: show_ip.simps)

end
