(* ===== verification/Fw_Enable.thy ===== *)
theory Fw_Enable
  imports Fw_Ports Sentinel
begin

text \<open>
  Switching the firewall on and off (\<open>unihelm-ops/src/fwops.rs\<close>): how a backend is started, which ports
  sshd listens on, what the rules that are about to be enforced admit, and the guards that keep the ways
  in open. The lemmas show what is true of the ways in at the moment the firewall is switched on, and
  that a guard that refuses has changed nothing.
\<close>

section \<open>How a backend is switched\<close>

datatype lifecycle = LcUfw | LcFirewalld | Unsupported str

definition lifecycle_for :: "str \<Rightarrow> lifecycle" where
  "lifecycle_for backend =
     (if backend = ''ufw'' then LcUfw
      else if backend = ''firewalld'' then LcFirewalld
      else if backend = ''nftables'' then
        Unsupported (''nftables has no service the panel owns. Starting one would load /etc/nftables.conf, a file Unihelm has never ''
          @ ''read, and stopping it would flush rules Unihelm did not add '' @ [CHR 0xE2, CHR 0x80, CHR 0x94]
          @ '' so this is a change to make from a shell, where you can see the whole ruleset first.'')
      else if backend = ''none'' then
        Unsupported ''no firewall is installed on this host (looked for firewalld, ufw and nft), so there is nothing to start or stop''
      else Unsupported (''the `'' @ backend @ ''` firewall backend has no start or stop the panel can drive''))"

fun lifecycle_refusal :: "lifecycle \<Rightarrow> uni_error option" where
  "lifecycle_refusal (Unsupported reason) = Some (new_error NotImplemented reason)"
| "lifecycle_refusal _ = None"

section \<open>The ports of sshd\<close>

definition default_ssh_port :: u16 where "default_ssh_port = 22"

datatype ssh_port_source = SshdT | SshFiles | SshDefault

fun describe_source :: "ssh_port_source \<Rightarrow> str" where
  "describe_source SshdT = ''reported by `sshd -T`''"
| "describe_source SshFiles = ''read from sshd_config and its drop-ins''"
| "describe_source SshDefault = ''OpenSSH's default, because nothing sets `Port`''"

datatype ssh_facts = SshPorts "u16 list" ssh_port_source | SshAbsent | SshUnknown str

definition add_port :: "u16 list \<Rightarrow> u16 option \<Rightarrow> u16 list" where
  "add_port ports p =
     (case p of None \<Rightarrow> ports | Some n \<Rightarrow> if n \<noteq> 0 \<and> n \<notin> set ports then ports @ [n] else ports)"

definition sshd_line :: "u16 list \<Rightarrow> str \<Rightarrow> u16 list" where
  "sshd_line ports line =
     (case split_whitespace line of
        k # rest \<Rightarrow> if k = ''port'' then add_port ports (case rest of [] \<Rightarrow> None | v # _ \<Rightarrow> parse_u16 v) else ports
      | [] \<Rightarrow> ports)"

definition parse_sshd_ports :: "str \<Rightarrow> u16 list" where
  "parse_sshd_ports t = foldl sshd_line [] (str_lines t)"

text \<open>\<open>splitn(2, char::is_whitespace)\<close>: the first word and what follows the one space behind it.\<close>

definition first_word :: "str \<Rightarrow> str \<times> str option" where
  "first_word s =
     (let cs = str_chars s; w = takeWhile (\<lambda>c. \<not> is_whitespace c) cs
      in (concat w, case drop (length w) cs of [] \<Rightarrow> None | _ # r \<Rightarrow> Some (concat r)))"

definition config_line :: "bool \<times> u16 list \<Rightarrow> str \<Rightarrow> bool \<times> u16 list" where
  "config_line acc raw =
     (case acc of (in_match, ports) \<Rightarrow>
       let line = str_trim (case split_once CHR ''#'' raw of Some (b, _) \<Rightarrow> b | None \<Rightarrow> raw) in
       if line = [] then acc
       else case first_word line of
         (k, rest) \<Rightarrow>
           let key = to_ascii_lowercase k in
           if key = ''match'' then (True, ports)
           else if in_match \<or> key \<noteq> ''port'' then acc
           else (in_match, add_port ports (Option.bind rest (\<lambda>v. parse_u16 (str_trim v)))))"

definition parse_sshd_config_ports :: "(str \<times> str) list \<Rightarrow> u16 list" where
  "parse_sshd_config_ports ordered =
     foldl (\<lambda>ports (_, contents). snd (foldl config_line (False, ports) (str_lines contents))) [] ordered"

section \<open>What ufw was told\<close>

definition ufw_ssh_aliases :: "str list" where
  "ufw_ssh_aliases = [''ssh'', ''openssh'']"

definition validate_source :: "str \<Rightarrow> bool" where
  "validate_source s \<longleftrightarrow> parse_cidr s \<noteq> None"

record ufw_words =
  uw_source :: "str option"
  uw_port :: "u16 option"
  uw_proto :: "proto option"

definition ufw_token :: "str \<Rightarrow> ufw_words \<Rightarrow> ufw_words" where
  "ufw_token token w =
     (if uw_port w \<noteq> None then w
      else
        let (number, spelled) = (case split_once CHR ''/'' token of Some (n, p) \<Rightarrow> (n, proto_parse p) | None \<Rightarrow> (token, None)) in
        case parse_u16 number of
          Some n \<Rightarrow> w\<lparr>uw_port := Some n, uw_proto := (case spelled of Some p \<Rightarrow> Some p | None \<Rightarrow> uw_proto w)\<rparr>
        | None \<Rightarrow>
            if to_ascii_lowercase token \<in> set ufw_ssh_aliases then w\<lparr>uw_port := Some default_ssh_port, uw_proto := Some Tcp\<rparr> else w)"

definition ufw_keyword :: "str \<Rightarrow> str option \<Rightarrow> ufw_words \<Rightarrow> ufw_words" where
  "ufw_keyword k v w =
     (if k = ''from'' then w\<lparr>uw_source := v\<rparr>
      else if k = ''port'' then w\<lparr>uw_port := Option.bind v parse_u16\<rparr>
      else w\<lparr>uw_proto := Option.bind v proto_parse\<rparr>)"

fun ufw_body :: "str list \<Rightarrow> ufw_words \<Rightarrow> ufw_words" where
  "ufw_body [] w = w"
| "ufw_body [t] w =
     (if t \<in> {''from'', ''port'', ''proto''} then ufw_keyword t None w
      else if t \<in> {''to'', ''any'', ''in''} then w else ufw_token t w)"
| "ufw_body (t # u # ts) w =
     (if t \<in> {''from'', ''port'', ''proto''} then ufw_body ts (ufw_keyword t (Some u) w)
      else if t \<in> {''to'', ''any'', ''in''} then ufw_body (u # ts) w else ufw_body (u # ts) (ufw_token t w))"

fun after_ufw :: "str list \<Rightarrow> str list option" where
  "after_ufw [] = None"
| "after_ufw (t # ts) = (if t = ''ufw'' then Some ts else after_ufw ts)"

definition ufw_added_line :: "str \<Rightarrow> port_rule option" where
  "ufw_added_line line =
     (case after_ufw (split_whitespace line) of
        None \<Rightarrow> None
      | Some ts \<Rightarrow>
          (case takeWhile (\<lambda>t. t \<noteq> ''comment'') ts of
             [] \<Rightarrow> None
           | action # body \<Rightarrow>
               if list_ex (\<lambda>t. t \<in> {''route'', ''out'', ''on''}) (action # body) \<or> action \<notin> {''allow'', ''limit''} then None
               else
                 let w = ufw_body body \<lparr>uw_source = None, uw_port = None, uw_proto = None\<rparr> in
                 map_option (\<lambda>p. \<lparr>fr_port = p, fr_proto = (case uw_proto w of Some q \<Rightarrow> q | None \<Rightarrow> Tcp),
                     fr_source = option_filter validate_source (uw_source w), fr_comment = []\<rparr>)
                   (option_filter (\<lambda>p. p \<noteq> 0) (uw_port w))))"

definition parse_ufw_added :: "str \<Rightarrow> port_rule list" where
  "parse_ufw_added t = List.map_filter ufw_added_line (str_lines t)"

section \<open>What is admitted\<close>

text \<open>Comparing with a range can panic: \<open>None\<close>.\<close>

fun ssh_reachable :: "port_rule list \<Rightarrow> u16 \<Rightarrow> ip_addr option \<Rightarrow> bool option" where
  "ssh_reachable [] port client = Some False"
| "ssh_reachable (r # rs) port client =
     (if fr_port r \<noteq> port \<or> fr_proto r \<noteq> Tcp then ssh_reachable rs port client
      else case fr_source r of
        None \<Rightarrow> Some True
      | Some cidr \<Rightarrow>
          (case client of
             None \<Rightarrow> ssh_reachable rs port client
           | Some ip \<Rightarrow>
               (case cidr_contains cidr ip of
                  None \<Rightarrow> None
                | Some True \<Rightarrow> Some True
                | Some False \<Rightarrow> ssh_reachable rs port client)))"

fun unprotected_ssh_ports :: "port_rule list \<Rightarrow> u16 list \<Rightarrow> ip_addr option \<Rightarrow> u16 list option" where
  "unprotected_ssh_ports rs [] client = Some []"
| "unprotected_ssh_ports rs (p # ps) client =
     Option.bind (ssh_reachable rs p client) (\<lambda>here.
       map_option (\<lambda>rest. if here then rest else p # rest) (unprotected_ssh_ports rs ps client))"

record admitting_view =
  av_rules :: "port_rule list"
  av_opaque :: "str list"

definition view_is_complete :: "admitting_view \<Rightarrow> bool" where
  "view_is_complete v \<longleftrightarrow> av_opaque v = []"

definition port_tokens :: "str \<Rightarrow> port_rule list" where
  "port_tokens t =
     List.map_filter (\<lambda>token. Option.bind (port_token token) (\<lambda>(n, p). if n \<noteq> 0 then Some (anywhere n p []) else None))
       (split_whitespace t)"

text \<open>\<open>strip_prefix\<close> of the quote and the text before the next one, or all of it.\<close>

definition rule_attribute :: "str \<Rightarrow> str \<Rightarrow> str option" where
  "rule_attribute key line =
     Option.bind (str_find key line) (\<lambda>at.
       map_option (\<lambda>rest. case split_once CHR 0x22 rest of Some (v, _) \<Rightarrow> v | None \<Rightarrow> rest)
         (strip_prefix quote (drop (at + length key) line)))"

definition parse_firewalld_rich_rule :: "str \<Rightarrow> port_rule option" where
  "parse_firewalld_rich_rule line =
     (if \<not> ends_with ''accept'' line then None
      else
        Option.bind (Option.bind (rule_attribute ''port port='' line) parse_u16) (\<lambda>port.
        Option.bind (Option.bind (rule_attribute ''protocol='' line) proto_parse) (\<lambda>proto.
          Some \<lparr>fr_port = port, fr_proto = proto, fr_source = option_filter validate_source (rule_attribute ''source address='' line),
            fr_comment = []\<rparr>)))"

definition zone_line :: "admitting_view \<times> str list \<Rightarrow> str \<Rightarrow> admitting_view \<times> str list" where
  "zone_line acc raw =
     (case acc of (view, services) \<Rightarrow>
       let line = str_trim raw in
       case strip_prefix ''ports:'' line of
         Some rest \<Rightarrow> (view\<lparr>av_rules := av_rules view @ port_tokens rest\<rparr>, services)
       | None \<Rightarrow>
           (case strip_prefix ''services:'' line of
              Some rest \<Rightarrow> (view, services @ split_whitespace rest)
            | None \<Rightarrow>
                if starts_with ''rule '' line then
                  (case parse_firewalld_rich_rule line of
                     Some r \<Rightarrow> (view\<lparr>av_rules := av_rules view @ [r]\<rparr>, services)
                   | None \<Rightarrow> if ends_with ''accept'' line then (view\<lparr>av_opaque := av_opaque view @ [line]\<rparr>, services) else acc)
                else acc))"

definition parse_firewalld_zone :: "str \<Rightarrow> admitting_view \<times> str list" where
  "parse_firewalld_zone t = foldl zone_line (\<lparr>av_rules = [], av_opaque = []\<rparr>, []) (str_lines t)"

section \<open>The operations\<close>

text \<open>A comparison with a range may panic, so a call ends in one of two ways besides its result.\<close>

datatype stop = Panicked | Failed uni_error

type_synonym 'a guard = "(fw_state, stop, 'a) script"

definition lift_op :: "'a fw_op \<Rightarrow> 'a guard" where
  "lift_op m = sc_map_err Failed m"

definition or_panic :: "'a option \<Rightarrow> 'a guard" where
  "or_panic v = sc_of (case v of None \<Rightarrow> Inl Panicked | Some x \<Rightarrow> Inr x)"

record 'j enable_env =
  ee_fw :: "'j fw_env"
  ee_answers :: answers
  ee_family :: family
  ee_read_file :: "str \<Rightarrow> str option"
  ee_sshd_files :: "(str \<times> str) list"
  ee_sshd_exists :: bool
  ee_sshd_config :: str

definition run_on_host :: "'j enable_env \<Rightarrow> argv \<Rightarrow> cmd_output fw_op" where
  "run_on_host env c = on_host (run_cmd (ee_answers env) c)"

definition must_succeed :: "'j enable_env \<Rightarrow> argv \<Rightarrow> cmd_output fw_op" where
  "must_succeed env c =
     sc_bind (run_on_host env c) (\<lambda>out.
       if co_success out then sc_ret out
       else sc_fail (new_error CommandFailed (''`'' @ display_cmd c @ ''` failed: '' @ failure_text out)))"

definition firewalld_offline :: "'j enable_env \<Rightarrow> str list \<Rightarrow> str fw_op" where
  "firewalld_offline env args = sc_bind (must_succeed env (''firewall-offline-cmd'' # args)) (\<lambda>out. sc_ret (co_stdout out))"

definition ssh_facts_op :: "'j enable_env \<Rightarrow> ssh_facts fw_op" where
  "ssh_facts_op env =
     sc_bind (sc_try (run_on_host env [''sshd'', ''-T''])) (\<lambda>r.
       let settled = (case r of Inl _ \<Rightarrow> [] | Inr out \<Rightarrow> if co_success out then parse_sshd_ports (co_stdout out) else []) in
       sc_ret
         (if settled \<noteq> [] then SshPorts settled SshdT
          else if ee_sshd_files env = [] then
            if ee_sshd_exists env then SshUnknown (''`sshd -T` did not run and '' @ ee_sshd_config env @ '' could not be read'') else SshAbsent
          else case parse_sshd_config_ports (ee_sshd_files env) of
            [] \<Rightarrow> SshPorts [default_ssh_port] SshDefault
          | ports \<Rightarrow> SshPorts ports SshFiles))"

definition service_rules :: "'j enable_env \<Rightarrow> admitting_view \<Rightarrow> str \<Rightarrow> admitting_view fw_op" where
  "service_rules env view name =
     sc_bind (sc_try (firewalld_offline env [''--service='' @ name, ''--get-ports''])) (\<lambda>r.
       sc_ret (case r of Inr ports \<Rightarrow> view\<lparr>av_rules := av_rules view @ port_tokens ports\<rparr>
         | Inl _ \<Rightarrow> view\<lparr>av_opaque := av_opaque view @ [name]\<rparr>))"

fun all_services :: "'j enable_env \<Rightarrow> admitting_view \<Rightarrow> str list \<Rightarrow> admitting_view fw_op" where
  "all_services env view [] = sc_ret view"
| "all_services env view (n # ns) = sc_bind (service_rules env view n) (\<lambda>v. all_services env v ns)"

fun admitting_view_op :: "'j enable_env \<Rightarrow> lifecycle \<Rightarrow> admitting_view fw_op" where
  "admitting_view_op env LcUfw =
     sc_bind (must_succeed env [''ufw'', ''show'', ''added'']) (\<lambda>out. sc_ret \<lparr>av_rules = parse_ufw_added (co_stdout out), av_opaque = []\<rparr>)"
| "admitting_view_op env LcFirewalld =
     sc_bind (firewalld_offline env [''--list-all'']) (\<lambda>t.
       case parse_firewalld_zone t of (view, services) \<Rightarrow> all_services env view services)"
| "admitting_view_op env (Unsupported reason) = sc_fail (new_error NotImplemented reason)"

fun open_before_start :: "'j enable_env \<Rightarrow> lifecycle \<Rightarrow> port_rule \<Rightarrow> unit fw_op" where
  "open_before_start env LcFirewalld r =
     sc_bind (firewalld_offline env [''--add-port='' @ port_text r]) (\<lambda>_. sc_ret ())"
| "open_before_start env _ r = on_host (fb_open_port (fe_backend (ee_fw env)) r)"

text \<open>Open from anywhere, then record.\<close>

definition open_and_record :: "'j enable_env \<Rightarrow> lifecycle \<Rightarrow> u16 \<Rightarrow> str \<Rightarrow> unit fw_op" where
  "open_and_record env lc port comment =
     sc_bind (open_before_start env lc (anywhere port Tcp comment)) (\<lambda>_. record_rule (ee_fw env) (anywhere port Tcp comment))"

definition list_ports :: "u16 list \<Rightarrow> str" where
  "list_ports ps = str_join '', '' (map (\<lambda>p. show_word p @ ''/tcp'') ps)"

definition ssh_closed_detail :: "admitting_view \<Rightarrow> u16 list \<Rightarrow> ssh_port_source \<Rightarrow> str" where
  "ssh_closed_detail view shut source =
     (if view_is_complete view then
        ''refusing to start the firewall: no rule in it would accept an SSH connection to '' @ list_ports shut @ '' ('' @ describe_source source
          @ '') from where you are, and its default policy for incoming traffic is deny. Open that port first, or ask again with ''
          @ ''`allow_ssh` to have the panel open it before starting.''
      else
        ''refusing to start the firewall: nothing the panel could read would accept an SSH connection to '' @ list_ports shut @ '' (''
          @ describe_source source @ ''), and it could not read all of this ruleset '' @ [CHR 0xE2, CHR 0x80, CHR 0x94] @ '' ''
          @ str_join '', '' (av_opaque view) @ '' is undecoded, and may be exactly what holds SSH open. Check that part by hand, or ask ''
          @ ''again with `allow_ssh` to have the panel open the port before starting.'')"

definition ensure_ssh_reachable ::
  "'j enable_env \<Rightarrow> lifecycle \<Rightarrow> admitting_view \<Rightarrow> ssh_facts \<Rightarrow> ip_addr option \<Rightarrow> bool \<Rightarrow> u16 list guard" where
  "ensure_ssh_reachable env lc view ssh client allow =
     (case ssh of
        SshAbsent \<Rightarrow> sc_ret []
      | SshUnknown reason \<Rightarrow>
          sc_fail (Failed (new_error Conflict (''refusing to start the firewall: this host runs sshd and the panel could not work out which ''
            @ ''port it listens on ('' @ reason @ ''). Bringing up a default-deny firewall without a rule for that port ends every SSH ''
            @ ''session to this server and every one after it.'')))
      | SshPorts ports source \<Rightarrow>
          sc_bind (or_panic (unprotected_ssh_ports (av_rules view) ports client)) (\<lambda>shut.
            if shut = [] then sc_ret []
            else if \<not> allow then sc_fail (Failed (with_field (new_error Conflict (ssh_closed_detail view shut source)) ''allow_ssh''))
            else sc_bind (sc_each (\<lambda>p. lift_op (open_and_record env lc p ''ssh'')) shut) (\<lambda>_. sc_ret shut)))"

definition panel_rule_comment :: str where "panel_rule_comment = ''unihelm panel''"

definition ensure_panel_reachable :: "'j enable_env \<Rightarrow> lifecycle \<Rightarrow> admitting_view \<Rightarrow> u16 list guard" where
  "ensure_panel_reachable env lc view =
     (case reachable_port (fe_listen (ee_fw env)) of
        None \<Rightarrow> sc_ret []
      | Some port \<Rightarrow>
          sc_bind (or_panic (unprotected_ssh_ports (av_rules view) [port] None)) (\<lambda>shut.
            if port \<notin> set shut then sc_ret []
            else sc_bind (lift_op (open_and_record env lc port panel_rule_comment)) (\<lambda>_. sc_ret [port])))"

definition web_ports :: "(u16 \<times> str) list" where
  "web_ports = [(80, ''http''), (443, ''https'')]"

definition unit_runs :: "'j enable_env \<Rightarrow> managed_unit \<Rightarrow> bool fw_op" where
  "unit_runs env u =
     sc_bind (sc_try (on_host (svc_status (ee_answers env) (ee_read_file env) (managed_unit_name u (ee_family env))))) (\<lambda>r.
       sc_ret (case r of Inl _ \<Rightarrow> False | Inr st \<Rightarrow> us_is_active st))"

definition serving_the_web :: "'j enable_env \<Rightarrow> bool fw_op" where
  "serving_the_web env =
     sc_bind (unit_runs env Nginx) (\<lambda>nginx.
       if nginx then sc_ret True
       else sc_bind (unit_runs env Apache) (\<lambda>apache. sc_ret (apache \<or> reachable_port (fe_listen (ee_fw env)) = None)))"

definition open_web_port :: "'j enable_env \<Rightarrow> lifecycle \<Rightarrow> admitting_view \<Rightarrow> u16 \<times> str \<Rightarrow> u16 list guard" where
  "open_web_port env lc view pw =
     sc_bind (or_panic (unprotected_ssh_ports (av_rules view) [fst pw] None)) (\<lambda>shut.
       if fst pw \<notin> set shut then sc_ret []
       else sc_bind (lift_op (open_and_record env lc (fst pw) (snd pw))) (\<lambda>_. sc_ret [fst pw]))"

definition ensure_web_reachable :: "'j enable_env \<Rightarrow> lifecycle \<Rightarrow> admitting_view \<Rightarrow> u16 list guard" where
  "ensure_web_reachable env lc view =
     sc_bind (lift_op (serving_the_web env)) (\<lambda>serves.
       if serves then sc_collect (open_web_port env lc view) web_ports else sc_ret [])"

definition ufw_switch_cmd :: "bool \<Rightarrow> argv" where
  "ufw_switch_cmd on = ''ufw'' # (if on then [''--force'', ''enable''] else [''disable''])"

definition ufw_switch :: "'j enable_env \<Rightarrow> bool \<Rightarrow> unit fw_op" where
  "ufw_switch env on = sc_bind (must_succeed env (ufw_switch_cmd on)) (\<lambda>_. sc_ret ())"

definition firewalld_unit :: str where "firewalld_unit = ''firewalld.service''"

definition firewalld_switch :: "'j enable_env \<Rightarrow> bool \<Rightarrow> unit fw_op" where
  "firewalld_switch env on =
     (case unit_name_parse firewalld_unit of
        Inl e \<Rightarrow> sc_fail (uni_error_of_distro e)
      | Inr u \<Rightarrow> on_host (if on then svc_enable (ee_answers env) u True else svc_disable (ee_answers env) u True))"

fun switch_firewall :: "'j enable_env \<Rightarrow> lifecycle \<Rightarrow> bool \<Rightarrow> unit fw_op" where
  "switch_firewall env LcUfw on = ufw_switch env on"
| "switch_firewall env _ on = firewalld_switch env on"

record enable_input =
  en_allow_ssh :: bool
  en_client_ip :: "str option"

record enable_output =
  eo_backend :: str
  eo_active :: bool
  eo_ssh :: ssh_facts
  eo_opened :: "u16 list"

definition refuse_unsupported :: "lifecycle \<Rightarrow> unit guard" where
  "refuse_unsupported lc = sc_of (case lifecycle_refusal lc of Some e \<Rightarrow> Inl (Failed e) | None \<Rightarrow> Inr ())"

definition enable_result :: "'j enable_env \<Rightarrow> bool \<Rightarrow> ssh_facts \<Rightarrow> u16 list \<Rightarrow> enable_output" where
  "enable_result env runs ssh opened_ports =
     \<lparr>eo_backend = fb_name (fe_backend (ee_fw env)), eo_active = runs, eo_ssh = ssh, eo_opened = opened_ports\<rparr>"

text \<open>The guards, the switch and the look afterwards, for a firewall that does not run yet.\<close>

definition start_firewall :: "'j enable_env \<Rightarrow> lifecycle \<Rightarrow> ssh_facts \<Rightarrow> ip_addr option \<Rightarrow> bool \<Rightarrow> enable_output guard" where
  "start_firewall env lc ssh client allow =
     sc_bind (lift_op (admitting_view_op env lc)) (\<lambda>view.
     sc_bind (ensure_ssh_reachable env lc view ssh client allow) (\<lambda>o1.
     sc_bind (ensure_web_reachable env lc view) (\<lambda>o2.
     sc_bind (ensure_panel_reachable env lc view) (\<lambda>o3.
     sc_bind (lift_op (switch_firewall env lc True)) (\<lambda>_.
     sc_bind (lift_op (active_or_false (ee_fw env))) (\<lambda>runs.
       if runs then sc_ret (enable_result env runs ssh (o1 @ o2 @ o3))
       else sc_fail (Failed (new_error CommandFailed (fb_name (fe_backend (ee_fw env)) @ '' reported that it started and then said it is not ''
         @ ''running; nothing is being enforced'')))))))))"

definition fw_enable :: "'j enable_env \<Rightarrow> enable_input \<Rightarrow> enable_output guard" where
  "fw_enable env i =
     (let lc = lifecycle_for (fb_name (fe_backend (ee_fw env))); client = map_option canonical (live_client (en_client_ip i)) in
      sc_bind (refuse_unsupported lc) (\<lambda>_.
      sc_bind (lift_op (ssh_facts_op env)) (\<lambda>ssh.
      sc_bind (lift_op (active_or_false (ee_fw env))) (\<lambda>running.
        if running then sc_ret (enable_result env True ssh []) else start_firewall env lc ssh client (en_allow_ssh i)))))"

record disable_output =
  do_backend :: str
  do_active :: bool
  do_rules_unenforced :: nat
  do_bans_unenforced :: nat

definition count_or_zero :: "(distro_error, 'a list) host \<Rightarrow> nat fw_op" where
  "count_or_zero m = sc_bind (sc_try (on_host m)) (\<lambda>r. sc_ret (case r of Inl _ \<Rightarrow> 0 | Inr xs \<Rightarrow> length xs))"

definition fw_disable :: "'j enable_env \<Rightarrow> disable_output guard" where
  "fw_disable env =
     (let b = fe_backend (ee_fw env); lc = lifecycle_for (fb_name b) in
      sc_bind (refuse_unsupported lc) (\<lambda>_.
      sc_bind (lift_op (active_or_false (ee_fw env))) (\<lambda>running.
        if \<not> running then sc_ret \<lparr>do_backend = fb_name b, do_active = False, do_rules_unenforced = 0, do_bans_unenforced = 0\<rparr>
        else
          sc_bind (lift_op (count_or_zero (fb_list_rules b))) (\<lambda>rules.
          sc_bind (lift_op (count_or_zero (fb_list_bans b))) (\<lambda>bans.
          sc_bind (lift_op (switch_firewall env lc False)) (\<lambda>_.
          sc_bind (lift_op (active_or_false (ee_fw env))) (\<lambda>active.
            sc_ret \<lparr>do_backend = fb_name b, do_active = active, do_rules_unenforced = rules, do_bans_unenforced = bans\<rparr>)))))))"

section \<open>Scripts of the operations\<close>

definition runs_only :: "(argv \<Rightarrow> bool) \<Rightarrow> (fw_state, 'e, 'a) script \<Rightarrow> bool" where
  "runs_only P m \<longleftrightarrow> (\<forall>s. \<exists>cs. fs_commands (fst (m s)) = fs_commands s @ cs \<and> list_all P cs)"

lemma runs_ret: "runs_only P (sc_ret x)" "runs_only P (sc_fail e)" "runs_only P (sc_of r)" "runs_only P (or_panic v)"
  by (auto simp: runs_only_def sc_ret_def sc_fail_def sc_of_def or_panic_def)

lemma runs_bind:
  assumes "runs_only P m" "\<And>x. runs_only P (f x)"
  shows "runs_only P (sc_bind m f)"
  unfolding runs_only_def
proof
  fix s
  obtain cs where cs: "fs_commands (fst (m s)) = fs_commands s @ cs" "list_all P cs" using assms(1) unfolding runs_only_def by blast
  show "\<exists>cs. fs_commands (fst (sc_bind m f s)) = fs_commands s @ cs \<and> list_all P cs"
  proof (cases "snd (m s)")
    case (Inl e)
    then show ?thesis using cs by (intro exI [of _ cs]) (cases "m s", simp add: sc_bind_Inl)
  next
    case (Inr x)
    obtain ds where "fs_commands (fst (f x (fst (m s)))) = fs_commands (fst (m s)) @ ds" "list_all P ds"
      using assms(2) [of x] unfolding runs_only_def by blast
    then show ?thesis using Inr cs by (intro exI [of _ "cs @ ds"]) (cases "m s", simp add: sc_bind_Inr)
  qed
qed

lemma runs_try: "runs_only P m \<Longrightarrow> runs_only P (sc_try m)"
  by (simp add: runs_only_def sc_try_def split: prod.splits) (metis fst_conv)

lemma runs_lift: "runs_only P m \<Longrightarrow> runs_only P (lift_op m)"
  by (simp add: runs_only_def lift_op_def sc_map_err_def split: prod.splits) (metis fst_conv)

lemma runs_host: "emits P m \<Longrightarrow> runs_only P (on_host m)"
  by (simp add: runs_only_def emits_def on_host_def split: prod.splits) (metis fst_conv)

lemma runs_table: "runs_only P (on_table f)" "runs_only P (record_rule env r)"
  by (simp_all add: runs_only_def on_table_def record_rule_def)

lemma runs_if: "(c \<Longrightarrow> runs_only P m) \<Longrightarrow> (\<not> c \<Longrightarrow> runs_only P n) \<Longrightarrow> runs_only P (if c then m else n)"
  by simp

lemma runs_each: "(\<And>x. runs_only P (f x)) \<Longrightarrow> runs_only P (sc_each f xs)"
  by (induction xs) (simp_all add: runs_ret runs_bind)

lemma runs_collect: "(\<And>x. runs_only P (f x)) \<Longrightarrow> runs_only P (sc_collect f xs)"
  by (induction xs) (simp_all add: runs_ret runs_bind)

lemma runs_host_cmd: "P c \<Longrightarrow> runs_only P (run_on_host env c)"
  unfolding run_on_host_def by (intro runs_host emits_run)

lemma runs_must: "P c \<Longrightarrow> runs_only P (must_succeed env c)"
  unfolding must_succeed_def by (intro runs_bind runs_host_cmd runs_if runs_ret)

lemma runs_offline: "P (''firewall-offline-cmd'' # args) \<Longrightarrow> runs_only P (firewalld_offline env args)"
  unfolding firewalld_offline_def by (intro runs_bind runs_must runs_ret)

lemma runs_pair: "(\<And>x y. runs_only P (f x y)) \<Longrightarrow> runs_only P (case v of (x, y) \<Rightarrow> f x y)"
  by (cases v) simp

lemma runs_option: "runs_only P m \<Longrightarrow> (\<And>x. runs_only P (f x)) \<Longrightarrow> runs_only P (case v of None \<Rightarrow> m | Some x \<Rightarrow> f x)"
  by (cases v) simp_all

lemma runs_facts: "(\<And>ps q. runs_only P (f ps q)) \<Longrightarrow> runs_only P m \<Longrightarrow> (\<And>d. runs_only P (g d)) \<Longrightarrow>
    runs_only P (case v of SshPorts ps q \<Rightarrow> f ps q | SshAbsent \<Rightarrow> m | SshUnknown d \<Rightarrow> g d)"
  by (cases v) simp_all

lemmas runs_intros = runs_bind runs_ret runs_try runs_lift runs_table runs_if runs_each runs_collect runs_host_cmd runs_must
  runs_offline runs_pair runs_option runs_facts

lemma runs_grows: "runs_only P m \<Longrightarrow> m s = (s1, r) \<Longrightarrow> prefix (fs_commands s) (fs_commands s1)"
  unfolding runs_only_def prefix_def by (metis fst_conv)

section \<open>Nothing but the last step switches the firewall\<close>

definition switch_cmd :: "lifecycle \<Rightarrow> argv" where
  "switch_cmd lc = (if lc = LcUfw then ufw_switch_cmd True else [''systemctl'', ''enable'', ''--now'', ''--'', firewalld_unit])"

definition not_switch :: "argv \<Rightarrow> bool" where
  "not_switch c \<longleftrightarrow> c \<noteq> switch_cmd LcUfw \<and> c \<noteq> switch_cmd LcFirewalld"

lemma not_switch_simps:
  "p \<notin> {''ufw'', ''systemctl''} \<Longrightarrow> not_switch (p # args)"
  "a \<notin> {''--force''} \<Longrightarrow> not_switch (''ufw'' # a # args)"
  "a \<notin> {''enable''} \<Longrightarrow> not_switch (''systemctl'' # a # args)"
  by (simp_all add: not_switch_def switch_cmd_def ufw_switch_cmd_def firewalld_unit_def)

definition panel_env :: "(str \<Rightarrow> bool) \<Rightarrow> 'j enable_env \<Rightarrow> 'j enable_env" where
  "panel_env ex env =
     env\<lparr>ee_fw := (ee_fw env)\<lparr>fe_backend := detect_firewall ex (ee_answers env) (ee_family env)\<rparr>\<rparr>"

lemma first_choice_cases:
  "first_choice ex ans ps \<in> {firewalld_backend ans, ufw_backend ans, nftables_backend ex ans, unmanaged_backend}"
  by (induction ps) auto

lemma backends_do_not_switch:
  "emits not_switch (fd_is_active ans)" "emits not_switch (fd_open_port ans r)"
  "emits not_switch (ufw_is_active ans)" "emits not_switch (ufw_open_port ans r)"
  "emits not_switch (nft_is_active ex ans)" "emits not_switch (nft_open_port ans r)"
  unfolding backend_defs Let_def
  by (intro emits_intros; simp add: not_switch_simps firewall_cmd_def nft_own_def nft_listing_def nft_accept_rule_def nft_drop_rule_def ufw_allow_def)+

lemma panel_backend_does_not_switch:
  "emits not_switch (fb_is_active (fe_backend (ee_fw (panel_env ex env))))"
  "emits not_switch (fb_open_port (fe_backend (ee_fw (panel_env ex env))) r)"
  using first_choice_cases [of ex "ee_answers env" "preference (ee_family env)"] backends_do_not_switch
  by (auto simp: panel_env_def detect_firewall_def firewalld_backend_def ufw_backend_def nftables_backend_def unmanaged_backend_def
      intro!: emits_intros)

lemma svc_status_not_switch: "emits not_switch (svc_status ans read_file u)"
  unfolding svc_status_def by (intro emits_intros) (simp add: not_switch_simps)

section \<open>The ways in\<close>

text \<open>
  A port was opened from everywhere by a call that succeeded and whose commands are among these; a guard
  passes such a port, or one that the rules of the view admit from where the client is.
\<close>

definition opened :: "'j enable_env \<Rightarrow> lifecycle \<Rightarrow> argv list \<Rightarrow> u16 \<Rightarrow> bool" where
  "opened env lc cs p \<longleftrightarrow>
     (\<exists>comment s0 s1. open_before_start env lc (anywhere p Tcp comment) s0 = (s1, Inr ()) \<and> prefix (fs_commands s1) cs)"

definition passes :: "'j enable_env \<Rightarrow> lifecycle \<Rightarrow> admitting_view \<Rightarrow> ip_addr option \<Rightarrow> argv list \<Rightarrow> u16 \<Rightarrow> bool" where
  "passes env lc view client cs p \<longleftrightarrow> ssh_reachable (av_rules view) p client = Some True \<or> opened env lc cs p"

definition was_asked :: "'a fw_op \<Rightarrow> argv list \<Rightarrow> 'a \<Rightarrow> bool" where
  "was_asked m cs x \<longleftrightarrow> (\<exists>s0 s1. m s0 = (s1, Inr x) \<and> prefix (fs_commands s1) cs)"

text \<open>
  What the guards let through, for the facts about sshd and the view of the rules that were found out before:
  every port of sshd for the client, 80 and 443 for everybody when the host serves the web, and so the
  panel's own port while the network reaches it.
\<close>

definition guards_passed :: "'j enable_env \<Rightarrow> lifecycle \<Rightarrow> ip_addr option \<Rightarrow> argv list \<Rightarrow> bool" where
  "guards_passed env lc client cs \<longleftrightarrow>
     (\<exists>ssh view serves.
        was_asked (ssh_facts_op env) cs ssh \<and> was_asked (admitting_view_op env lc) cs view \<and> was_asked (serving_the_web env) cs serves
        \<and> (case ssh of SshPorts ports _ \<Rightarrow> list_all (passes env lc view client cs) ports | SshAbsent \<Rightarrow> True | SshUnknown _ \<Rightarrow> False)
        \<and> (if serves then list_all (passes env lc view None cs) [80, 443] else True)
        \<and> (case reachable_port (fe_listen (ee_fw env)) of None \<Rightarrow> serves | Some p \<Rightarrow> passes env lc view None cs p))"

lemma opened_mono: "opened env lc cs p \<Longrightarrow> prefix cs ds \<Longrightarrow> opened env lc ds p"
  unfolding opened_def using prefix_order.order_trans by blast

lemma passes_mono: "passes env lc view client cs p \<Longrightarrow> prefix cs ds \<Longrightarrow> passes env lc view client ds p"
  unfolding passes_def using opened_mono by blast

lemma was_asked_mono: "was_asked m cs x \<Longrightarrow> prefix cs ds \<Longrightarrow> was_asked m ds x"
  unfolding was_asked_def using prefix_order.order_trans by blast

lemma asked_now: "lift_op m s = (s1, Inr x) \<Longrightarrow> was_asked m (fs_commands s1) x"
  by (auto simp: was_asked_def lift_op_def sc_map_err_def result_simps split: prod.splits sum.splits)

lemma unprotected_Some:
  "unprotected_ssh_ports rs ps client = Some shut \<Longrightarrow> p \<in> set ps \<Longrightarrow> p \<notin> set shut \<Longrightarrow> ssh_reachable rs p client = Some True"
  by (induction ps arbitrary: shut) (auto split: if_splits simp: bind_eq_Some_conv)

lemma serving_without_panel_port:
  "serving_the_web env s = (s1, Inr b) \<Longrightarrow> reachable_port (fe_listen (ee_fw env)) = None \<Longrightarrow> b"
  by (auto simp: serving_the_web_def sc_bind_ok sc_ret_def split: if_splits)

locale quiet_backend =
  fixes env :: "'j enable_env"
  assumes active_quiet: "emits not_switch (fb_is_active (fe_backend (ee_fw env)))"
    and open_quiet: "emits not_switch (fb_open_port (fe_backend (ee_fw env)) r)"
begin

lemma open_before_quiet: "runs_only not_switch (open_before_start env lc r)"
  by (cases lc) (auto intro!: runs_intros runs_host open_quiet simp: not_switch_simps)

lemma open_record_quiet: "runs_only not_switch (open_and_record env lc p comment)"
  unfolding open_and_record_def by (intro runs_intros open_before_quiet)

lemma facts_quiet: "runs_only not_switch (ssh_facts_op env)"
  unfolding ssh_facts_op_def Let_def by (intro runs_intros) (simp add: not_switch_simps)

lemma running_quiet: "runs_only not_switch (active_or_false (ee_fw env))"
  unfolding active_or_false_def by (intro runs_intros runs_host active_quiet)

lemma services_quiet: "runs_only not_switch (all_services env view ns)"
  by (induction ns arbitrary: view) (auto simp: service_rules_def not_switch_simps intro!: runs_intros)

lemma view_quiet: "runs_only not_switch (admitting_view_op env lc)"
  by (cases lc) (auto intro!: runs_intros services_quiet simp: not_switch_simps)

lemma serving_quiet: "runs_only not_switch (serving_the_web env)"
  unfolding serving_the_web_def unit_runs_def by (intro runs_intros runs_host svc_status_not_switch)

lemma ssh_quiet: "runs_only not_switch (ensure_ssh_reachable env lc view ssh client allow)"
  unfolding ensure_ssh_reachable_def by (intro runs_intros open_record_quiet)

lemma web_quiet: "runs_only not_switch (ensure_web_reachable env lc view)"
  unfolding ensure_web_reachable_def open_web_port_def by (intro runs_intros open_record_quiet serving_quiet)

lemma panel_quiet: "runs_only not_switch (ensure_panel_reachable env lc view)"
  unfolding ensure_panel_reachable_def by (intro runs_intros open_record_quiet)

lemma open_record_opens:
  assumes "lift_op (open_and_record env lc p comment) s = (s1, Inr u)"
  shows "opened env lc (fs_commands s1) p"
proof -
  have "open_and_record env lc p comment s = (s1, Inr ())"
    using assms by (auto simp: lift_op_def sc_map_err_def split: prod.splits) (metis old.unit.exhaust result_simps r_map_err.elims Inr_inject sum.distinct(1))
  then obtain s2 where "open_before_start env lc (anywhere p Tcp comment) s = (s2, Inr ())" "record_rule (ee_fw env) (anywhere p Tcp comment) s2 = (s1, Inr ())"
    unfolding open_and_record_def sc_bind_ok by auto
  then show ?thesis unfolding opened_def by (auto simp: record_rule_def on_table_def intro!: exI)
qed

lemma each_opened:
  "sc_each (\<lambda>p. lift_op (open_and_record env lc p comment)) ps s = (s1, Inr u) \<Longrightarrow> p \<in> set ps \<Longrightarrow> opened env lc (fs_commands s1) p"
proof (induction ps arbitrary: s)
  case (Cons q qs)
  obtain s2 v where one: "lift_op (open_and_record env lc q comment) s = (s2, Inr v)"
    "sc_each (\<lambda>p. lift_op (open_and_record env lc p comment)) qs s2 = (s1, Inr u)"
    using Cons.prems(1) by (auto simp: sc_bind_ok)
  have "prefix (fs_commands s2) (fs_commands s1)"
    using one(2) by (rule runs_grows [where P = not_switch, rotated]) (intro runs_intros open_record_quiet)
  then show ?case using Cons one open_record_opens [OF one(1)] opened_mono by auto
qed simp

lemma ssh_ways:
  assumes "ensure_ssh_reachable env lc view ssh client allow s = (s1, Inr o1)"
  shows "case ssh of SshPorts ports _ \<Rightarrow> list_all (passes env lc view client (fs_commands s1)) ports | SshAbsent \<Rightarrow> True | SshUnknown _ \<Rightarrow> False"
proof (cases ssh)
  case (SshPorts ports source)
  then obtain shut where shut: "unprotected_ssh_ports (av_rules view) ports client = Some shut"
    "shut = [] \<or> (\<exists>u. sc_each (\<lambda>p. lift_op (open_and_record env lc p ''ssh'')) shut s = (s1, Inr u))"
    using assms by (auto simp: ensure_ssh_reachable_def sc_bind_ok or_panic_def sc_of_def sc_ret_def sc_fail_def split: option.splits if_splits)
  have "passes env lc view client (fs_commands s1) p" if "p \<in> set ports" for p
  proof (cases "p \<in> set shut")
    case True
    then show ?thesis using shut(2) each_opened [where comment = "''ssh''" and ps = shut] by (auto simp: passes_def)
  next
    case False
    then show ?thesis using unprotected_Some [OF shut(1) that] by (simp add: passes_def)
  qed
  then show ?thesis using SshPorts by (simp add: list_all_iff)
qed (use assms in \<open>auto simp: ensure_ssh_reachable_def sc_fail_def\<close>)

lemma web_way:
  assumes "open_web_port env lc view pw s = (s1, Inr o1)"
  shows "passes env lc view None (fs_commands s1) (fst pw)"
  using assms unprotected_Some [of "av_rules view" "[fst pw]" None _ "fst pw"] open_record_opens
  by (auto simp: open_web_port_def sc_bind_ok or_panic_def sc_of_def sc_ret_def passes_def split: option.splits if_splits)

lemma panel_way:
  assumes "ensure_panel_reachable env lc view s = (s1, Inr o1)" "reachable_port (fe_listen (ee_fw env)) = Some p"
  shows "passes env lc view None (fs_commands s1) p"
  using assms unprotected_Some [of "av_rules view" "[p]" None _ p] open_record_opens
  by (auto simp: ensure_panel_reachable_def sc_bind_ok or_panic_def sc_of_def sc_ret_def passes_def split: option.splits if_splits)

lemma web_ways:
  assumes "ensure_web_reachable env lc view s = (s1, Inr o1)"
  shows "\<exists>serves. was_asked (serving_the_web env) (fs_commands s1) serves \<and> (reachable_port (fe_listen (ee_fw env)) = None \<longrightarrow> serves)
    \<and> (if serves then list_all (passes env lc view None (fs_commands s1)) [80, 443] else True)"
proof -
  obtain s2 serves where two: "lift_op (serving_the_web env) s = (s2, Inr serves)"
    "(if serves then sc_collect (open_web_port env lc view) web_ports else sc_ret []) s2 = (s1, Inr o1)"
    using assms unfolding ensure_web_reachable_def sc_bind_ok by blast
  have asked: "was_asked (serving_the_web env) (fs_commands s2) serves" using asked_now [OF two(1)] .
  have grow: "prefix (fs_commands s2) (fs_commands s1)"
    using two(2) by (rule runs_grows [where P = not_switch, rotated]) (auto simp: open_web_port_def intro!: runs_intros open_record_quiet)
  have "list_all (passes env lc view None (fs_commands s1)) [80, 443]" if yes: serves
  proof -
    obtain s3 a b where three: "open_web_port env lc view (80, ''http'') s2 = (s3, Inr a)" "open_web_port env lc view (443, ''https'') s3 = (s1, Inr b)"
      using two(2) yes by (auto simp: web_ports_def sc_bind_ok sc_ret_def)
    have "prefix (fs_commands s3) (fs_commands s1)"
      using three(2) by (rule runs_grows [where P = not_switch, rotated]) (auto simp: open_web_port_def intro!: runs_intros open_record_quiet)
    then show ?thesis using web_way [OF three(1)] web_way [OF three(2)] passes_mono by auto
  qed
  moreover have "reachable_port (fe_listen (ee_fw env)) = None \<longrightarrow> serves"
    using asked serving_without_panel_port unfolding was_asked_def by blast
  moreover have "was_asked (serving_the_web env) (fs_commands s1) serves" by (rule was_asked_mono [OF asked grow])
  ultimately show ?thesis by (intro exI [of _ serves]) (simp split: if_split)
qed

end

text \<open>Either the firewall is not switched on, or what must hold holds of the commands before the switch.\<close>

definition guarded :: "argv \<Rightarrow> (argv list \<Rightarrow> bool) \<Rightarrow> 'a guard \<Rightarrow> fw_state \<Rightarrow> bool" where
  "guarded sw W m s \<longleftrightarrow>
     (\<exists>cs. fs_commands (fst (m s)) = fs_commands s @ cs \<and> list_all not_switch cs)
     \<or> (\<exists>cs post. fs_commands (fst (m s)) = fs_commands s @ cs @ sw # post \<and> W (fs_commands s @ cs))"

lemma guarded_quiet: "runs_only not_switch m \<Longrightarrow> guarded sw W m s"
  unfolding guarded_def runs_only_def by blast

lemma guarded_bind:
  assumes "runs_only not_switch m" "\<And>s1 x. m s = (s1, Inr x) \<Longrightarrow> guarded sw W (f x) s1"
  shows "guarded sw W (sc_bind m f) s"
proof -
  obtain cs where cs: "fs_commands (fst (m s)) = fs_commands s @ cs" "list_all not_switch cs"
    using assms(1) unfolding runs_only_def by blast
  show ?thesis
  proof (cases "snd (m s)")
    case (Inl e)
    then have "fst (sc_bind m f s) = fst (m s)" by (cases "m s") (simp add: sc_bind_Inl)
    then show ?thesis using cs unfolding guarded_def by auto
  next
    case (Inr x)
    then have run: "m s = (fst (m s), Inr x)" by (cases "m s") simp
    then have same: "sc_bind m f s = f x (fst (m s))" by (rule sc_bind_Inr)
    from assms(2) [OF run] show ?thesis
    proof (unfold guarded_def same, elim disjE exE conjE)
      fix ds
      assume "fs_commands (fst (f x (fst (m s)))) = fs_commands (fst (m s)) @ ds" "list_all not_switch ds"
      then show "(\<exists>cs. fs_commands (fst (f x (fst (m s)))) = fs_commands s @ cs \<and> list_all not_switch cs)
          \<or> (\<exists>cs post. fs_commands (fst (f x (fst (m s)))) = fs_commands s @ cs @ sw # post \<and> W (fs_commands s @ cs))"
        using cs by (intro disjI1 exI [of _ "cs @ ds"]) simp
    next
      fix ds post
      assume "fs_commands (fst (f x (fst (m s)))) = fs_commands (fst (m s)) @ ds @ sw # post" "W (fs_commands (fst (m s)) @ ds)"
      then show "(\<exists>cs. fs_commands (fst (f x (fst (m s)))) = fs_commands s @ cs \<and> list_all not_switch cs)
          \<or> (\<exists>cs post. fs_commands (fst (f x (fst (m s)))) = fs_commands s @ cs @ sw # post \<and> W (fs_commands s @ cs))"
        using cs by (intro disjI2 exI [of _ "cs @ ds"] exI [of _ post]) simp
    qed
  qed
qed

lemma firewalld_unit_parses: "unit_name_parse firewalld_unit = Inr (UnitName firewalld_unit)"
proof -
  have "valid_unit_name firewalld_unit"
    by (simp add: firewalld_unit_def valid_unit_name_def unit_suffixes_def unit_char_def ascii_defs byte_def ends_with_def suffix_def
        str_contains_iff [symmetric] str_contains_def)
  then show ?thesis by (simp add: unit_name_parse_iff trim_unit_name)
qed

lemma must_succeed_commands: "fs_commands (fst (must_succeed env c s)) = fs_commands s @ [c]"
  by (auto simp: must_succeed_def run_on_host_def on_host_def script_simps split: prod.splits sum.splits if_splits)

lemma svc_call_commands: "fst (svc_call ans c u verb h) = h @ [c]"
  by (auto simp: svc_call_def script_simps split: prod.splits sum.splits if_splits)

lemma lift_commands: "fs_commands (fst (lift_op m s)) = fs_commands (fst (m s))"
  by (simp add: lift_op_def sc_map_err_def split: prod.splits)

lemma on_host_commands: "fs_commands (fst (on_host m s)) = fst (m (fs_commands s))"
  by (simp add: on_host_def split: prod.splits)

lemma switch_commands:
  assumes "lc = LcUfw \<or> lc = LcFirewalld"
  shows "fs_commands (fst (lift_op (switch_firewall env lc True) s)) = fs_commands s @ [switch_cmd lc]"
proof -
  have "fs_commands (fst (ufw_switch env True s)) = fs_commands s @ [switch_cmd LcUfw]"
    using must_succeed_commands [of env "ufw_switch_cmd True" s]
    by (auto simp: ufw_switch_def sc_bind_def sc_ret_def switch_cmd_def split: prod.splits sum.splits)
  moreover have "fs_commands (fst (firewalld_switch env True s)) = fs_commands s @ [switch_cmd LcFirewalld]"
    by (simp add: firewalld_switch_def firewalld_unit_parses on_host_commands svc_enable_def svc_call_commands switch_cmd_def)
  ultimately show ?thesis using assms by (auto simp: lift_commands)
qed

lemma guarded_switch:
  assumes "lc = LcUfw \<or> lc = LcFirewalld" "W (fs_commands s)" "\<And>x. runs_only (\<lambda>_. True) (f x)"
  shows "guarded (switch_cmd lc) W (sc_bind (lift_op (switch_firewall env lc True)) f) s"
proof -
  let ?m = "lift_op (switch_firewall env lc True)"
  have sw: "fs_commands (fst (?m s)) = fs_commands s @ [switch_cmd lc]" using assms(1) by (rule switch_commands)
  have "\<exists>post. fs_commands (fst (sc_bind ?m f s)) = fs_commands s @ switch_cmd lc # post"
  proof (cases "snd (?m s)")
    case (Inl e)
    then show ?thesis using sw by (cases "?m s") (simp add: sc_bind_Inl)
  next
    case (Inr x)
    obtain ds where "fs_commands (fst (f x (fst (?m s)))) = fs_commands (fst (?m s)) @ ds" using assms(3) [of x] unfolding runs_only_def by blast
    then show ?thesis using Inr sw by (cases "?m s") (simp add: sc_bind_Inr)
  qed
  then show ?thesis unfolding guarded_def using assms(2) by (metis append.right_neutral append_Nil)
qed

context quiet_backend begin

lemma running_grows: "runs_only (\<lambda>_. True) (active_or_false (ee_fw env))"
  using running_quiet unfolding runs_only_def list_all_iff by blast

lemma start_guarded:
  assumes lc: "lc = LcUfw \<or> lc = LcFirewalld" and ssh: "was_asked (ssh_facts_op env) (fs_commands s) ssh"
  shows "guarded (switch_cmd lc) (guards_passed env lc client) (start_firewall env lc ssh client allow) s"
  unfolding start_firewall_def
proof (intro guarded_bind [OF runs_lift [OF view_quiet]] guarded_bind [OF ssh_quiet] guarded_bind [OF web_quiet] guarded_bind [OF panel_quiet]
    guarded_switch [OF lc])
  fix s1 view s2 o1 s3 o2 s4 o3
  assume view: "lift_op (admitting_view_op env lc) s = (s1, Inr view)"
    and ways: "ensure_ssh_reachable env lc view ssh client allow s1 = (s2, Inr o1)" "ensure_web_reachable env lc view s2 = (s3, Inr o2)"
      "ensure_panel_reachable env lc view s3 = (s4, Inr o3)"
  have 1: "prefix (fs_commands s) (fs_commands s1)" using view by (rule runs_grows [OF runs_lift [OF view_quiet]])
  have 2: "prefix (fs_commands s1) (fs_commands s2)" using ways(1) by (rule runs_grows [OF ssh_quiet])
  have 3: "prefix (fs_commands s2) (fs_commands s3)" using ways(2) by (rule runs_grows [OF web_quiet])
  have 4: "prefix (fs_commands s3) (fs_commands s4)" using ways(3) by (rule runs_grows [OF panel_quiet])
  have 24: "prefix (fs_commands s2) (fs_commands s4)" using 3 4 by (rule prefix_order.order_trans)
  have 14: "prefix (fs_commands s1) (fs_commands s4)" using 2 24 by (rule prefix_order.order_trans)
  have "was_asked (ssh_facts_op env) (fs_commands s4) ssh" by (rule was_asked_mono [OF was_asked_mono [OF ssh 1] 14])
  moreover have "was_asked (admitting_view_op env lc) (fs_commands s4) view" using asked_now [OF view] 14 by (rule was_asked_mono)
  moreover have "case ssh of SshPorts ports _ \<Rightarrow> list_all (passes env lc view client (fs_commands s4)) ports | SshAbsent \<Rightarrow> True | SshUnknown _ \<Rightarrow> False"
  proof (cases ssh)
    case (SshPorts ports source)
    then have "list_all (passes env lc view client (fs_commands s2)) ports" using ssh_ways [OF ways(1)] by simp
    then have "list_all (passes env lc view client (fs_commands s4)) ports"
      by (rule list.pred_mono_strong) (rule passes_mono [OF _ 24])
    then show ?thesis using SshPorts by simp
  qed (use ssh_ways [OF ways(1)] in simp_all)
  moreover obtain serves where serves: "was_asked (serving_the_web env) (fs_commands s3) serves"
    "reachable_port (fe_listen (ee_fw env)) = None \<longrightarrow> serves" "if serves then list_all (passes env lc view None (fs_commands s3)) [80, 443] else True"
    using web_ways [OF ways(2)] by (elim exE conjE)
  moreover have "was_asked (serving_the_web env) (fs_commands s4) serves" using serves(1) 4 by (rule was_asked_mono)
  moreover have "if serves then list_all (passes env lc view None (fs_commands s4)) [80, 443] else True"
    using serves(3) by (cases serves) (simp_all add: passes_mono [OF _ 4])
  moreover have "case reachable_port (fe_listen (ee_fw env)) of None \<Rightarrow> serves | Some p \<Rightarrow> passes env lc view None (fs_commands s4) p"
    using serves(2) panel_way [OF ways(3)] by (auto split: option.split)
  ultimately show "guards_passed env lc client (fs_commands s4)" unfolding guards_passed_def by (intro exI conjI)
qed (intro runs_bind runs_lift running_grows runs_if runs_ret)

lemma enable_guarded:
  "guarded (switch_cmd (lifecycle_for (fb_name (fe_backend (ee_fw env)))))
     (guards_passed env (lifecycle_for (fb_name (fe_backend (ee_fw env)))) (map_option canonical (live_client (en_client_ip i)))) (fw_enable env i) s"
  unfolding fw_enable_def Let_def
proof (rule guarded_bind, goal_cases)
  case 1
  show ?case by (simp add: refuse_unsupported_def runs_ret)
next
  case (2 s1 u)
  let ?lc = "lifecycle_for (fb_name (fe_backend (ee_fw env)))" and ?client = "map_option canonical (live_client (en_client_ip i))"
  have lc: "?lc = LcUfw \<or> ?lc = LcFirewalld" using 2 by (cases ?lc) (auto simp: refuse_unsupported_def sc_of_def)
  show ?case
  proof (intro guarded_bind [OF runs_lift [OF facts_quiet]] guarded_bind [OF runs_lift [OF running_quiet]])
  fix s2 ssh s3 running
  assume facts: "lift_op (ssh_facts_op env) s1 = (s2, Inr ssh)" and run: "lift_op (active_or_false (ee_fw env)) s2 = (s3, Inr running)"
  have "prefix (fs_commands s2) (fs_commands s3)"
    using run by (rule runs_grows [OF runs_lift [OF running_quiet]])
  then have "was_asked (ssh_facts_op env) (fs_commands s3) ssh" by (rule was_asked_mono [OF asked_now [OF facts]])
  then show "guarded (switch_cmd ?lc) (guards_passed env ?lc ?client)
      (if running then sc_ret (enable_result env True ssh []) else start_firewall env ?lc ssh ?client (en_allow_ssh i)) s3"
    by (cases running) (simp_all only: if_True if_False guarded_quiet [OF runs_ret(1)] start_guarded [OF lc])
  qed
qed

end

interpretation quiet: quiet_backend "panel_env ex env"
  by unfold_locales (rule panel_backend_does_not_switch)+

section \<open>What the listing says\<close>

text \<open>
  The ruleset as the host shows it, piece by piece: a line of \<open>ufw show added\<close>, a line of firewalld's zone,
  the ports of one of the zone's services. A piece names a source when it restricts who is admitted,
  whatever the panel makes of that; \<open>from any\<close> does not.
\<close>

datatype shown = UfwLine str | ZoneLine str | ServicePorts str

fun shown_rules :: "shown \<Rightarrow> port_rule list" where
  "shown_rules (UfwLine l) = (case ufw_added_line l of None \<Rightarrow> [] | Some r \<Rightarrow> [r])"
| "shown_rules (ZoneLine l) = av_rules (fst (zone_line (\<lparr>av_rules = [], av_opaque = []\<rparr>, []) l))"
| "shown_rules (ServicePorts t) = port_tokens t"

definition ufw_rule_words :: "str \<Rightarrow> str list" where
  "ufw_rule_words l = (case after_ufw (split_whitespace l) of None \<Rightarrow> [] | Some ts \<Rightarrow> takeWhile (\<lambda>t. t \<noteq> ''comment'') ts)"

fun from_somebody :: "str list \<Rightarrow> bool" where
  "from_somebody [] = False"
| "from_somebody (t # ts) = (t = ''from'' \<and> (ts = [] \<or> hd ts \<noteq> ''any'') \<or> from_somebody ts)"

fun names_source :: "shown \<Rightarrow> bool" where
  "names_source (UfwLine l) = from_somebody (ufw_rule_words l)"
| "names_source (ZoneLine l) = str_contains '' source '' (str_trim l)"
| "names_source (ServicePorts t) = False"

fun spells_source :: "shown \<Rightarrow> str \<Rightarrow> bool" where
  "spells_source (UfwLine l) c = sublist [''from'', c] (ufw_rule_words l)"
| "spells_source (ZoneLine l) c = str_contains (''source address='' @ quote @ c) (str_trim l)"
| "spells_source (ServicePorts t) c = False"

definition was_shown :: "'j enable_env \<Rightarrow> lifecycle \<Rightarrow> argv list \<Rightarrow> shown \<Rightarrow> bool" where
  "was_shown env lc cs piece \<longleftrightarrow>
     (case piece of
        UfwLine l \<Rightarrow> lc = LcUfw \<and> (\<exists>out. was_asked (must_succeed env [''ufw'', ''show'', ''added'']) cs out \<and> l \<in> set (str_lines (co_stdout out)))
      | ZoneLine l \<Rightarrow> lc = LcFirewalld \<and> (\<exists>t. was_asked (firewalld_offline env [''--list-all'']) cs t \<and> l \<in> set (str_lines t))
      | ServicePorts t \<Rightarrow> lc = LcFirewalld \<and> (\<exists>name. was_asked (firewalld_offline env [''--service='' @ name, ''--get-ports'']) cs t))"

text \<open>
  A piece admits a client to a port of TCP: it has a rule for the port, and either it names no source, or a
  source it spells is an address or a range with the client in it.
\<close>

definition admits :: "shown \<Rightarrow> u16 \<Rightarrow> ip_addr option \<Rightarrow> bool" where
  "admits piece p client \<longleftrightarrow>
     list_ex (\<lambda>r. fr_port r = p \<and> fr_proto r = Tcp) (shown_rules piece)
     \<and> (names_source piece \<longrightarrow> (\<exists>c ip. spells_source piece c \<and> client = Some ip \<and> cidr_contains c ip = Some True))"

text \<open>The panel dropped the source the piece names, because it cannot read it.\<close>

definition source_dropped :: "shown \<Rightarrow> bool" where
  "source_dropped piece \<longleftrightarrow> names_source piece \<and> list_ex (\<lambda>r. fr_source r = None) (shown_rules piece)"

definition way_in :: "'j enable_env \<Rightarrow> lifecycle \<Rightarrow> ip_addr option \<Rightarrow> argv list \<Rightarrow> u16 \<Rightarrow> bool" where
  "way_in env lc client cs p \<longleftrightarrow> (\<exists>piece. was_shown env lc cs piece \<and> admits piece p client) \<or> opened env lc cs p"

text \<open>
  What must hold when the firewall is switched on, for the facts about sshd that were found out before: every
  port of sshd is a way in for the client, 80 and 443 are for everybody when the host serves the web, and
  so is the panel's own port while the network reaches it.
\<close>

definition ways_in_open :: "'j enable_env \<Rightarrow> lifecycle \<Rightarrow> ip_addr option \<Rightarrow> argv list \<Rightarrow> bool" where
  "ways_in_open env lc client cs \<longleftrightarrow>
     (\<exists>ssh serves.
        was_asked (ssh_facts_op env) cs ssh \<and> was_asked (serving_the_web env) cs serves
        \<and> (case ssh of SshPorts ports _ \<Rightarrow> list_all (way_in env lc client cs) ports | SshAbsent \<Rightarrow> True | SshUnknown _ \<Rightarrow> False)
        \<and> (if serves then list_all (way_in env lc None cs) [80, 443] else True)
        \<and> (case reachable_port (fe_listen (ee_fw env)) of None \<Rightarrow> serves | Some p \<Rightarrow> way_in env lc None cs p))"

lemma ssh_reachable_rule:
  "ssh_reachable rs p client = Some True \<Longrightarrow>
     \<exists>r \<in> set rs. fr_port r = p \<and> fr_proto r = Tcp
       \<and> (fr_source r = None \<or> (\<exists>c ip. fr_source r = Some c \<and> client = Some ip \<and> cidr_contains c ip = Some True))"
  by (induction rs) (auto split: if_splits option.splits bool.splits)

lemma ufw_body_source:
  "uw_source (ufw_body ts w) = Some c \<Longrightarrow> uw_source w = Some c \<or> sublist [''from'', c] ts"
proof (induction ts w rule: ufw_body.induct)
  case (2 t w)
  then show ?case by (auto simp: ufw_keyword_def ufw_token_def Let_def split: if_splits option.splits prod.splits)
next
  case (3 t u ts w)
  have token: "uw_source (ufw_token t w) = uw_source w" by (simp add: ufw_token_def Let_def split: option.splits prod.splits)
  consider (pair) "t \<in> {''from'', ''port'', ''proto''}" | (skip) "t \<notin> {''from'', ''port'', ''proto''}" by blast
  then show ?case
  proof cases
    case pair
    then have "uw_source (ufw_keyword t (Some u) w) = Some c \<or> sublist [''from'', c] ts" using 3 by simp
    then show ?thesis using pair by (auto simp: ufw_keyword_def sublist_Cons_right split: if_splits)
  next
    case skip
    then have "uw_source w = Some c \<or> sublist [''from'', c] (u # ts)" using 3 token by (cases "t \<in> {''to'', ''any'', ''in''}") simp_all
    then show ?thesis by (auto simp: sublist_Cons_right)
  qed
qed simp

lemma rule_attribute_spelled:
  assumes "rule_attribute key line = Some c"
  shows "str_contains (key @ quote @ c) line"
proof -
  obtain at rest where f: "str_find key line = Some at" and r: "strip_prefix quote (drop (at + length key) line) = Some rest"
    and c: "c = (case split_once CHR 0x22 rest of Some (v, _) \<Rightarrow> v | None \<Rightarrow> rest)"
    using assms by (auto simp: rule_attribute_def bind_eq_Some_conv)
  have "take (length key) (drop at line) = key" using f by (rule str_find_Some)
  then have "drop at line = key @ drop (at + length key) line"
    by (metis add.commute append_take_drop_id drop_drop)
  moreover have "drop (at + length key) line = quote @ rest" using r by (simp add: strip_prefix_Some)
  moreover have "prefix c rest" using c by (auto simp: split_once_Some split: option.splits)
  ultimately obtain more where "drop at line = (key @ quote @ c) @ more" by (auto simp: prefix_def)
  then have "line = take at line @ (key @ quote @ c) @ more" by (metis append_take_drop_id)
  then show ?thesis unfolding str_contains_iff sublist_def by blast
qed

text \<open>The source the panel keeps for a rule is one that the piece spells.\<close>

lemma kept_source_spelled:
  assumes "r \<in> set (shown_rules piece)" "fr_source r = Some c"
  shows "spells_source piece c"
proof (cases piece)
  case (UfwLine l)
  then have line: "ufw_added_line l = Some r" using assms(1) by (auto split: option.splits)
  then obtain ts act body where ts: "after_ufw (split_whitespace l) = Some ts" "takeWhile (\<lambda>t. t \<noteq> ''comment'') ts = act # body"
    by (auto simp: ufw_added_line_def split: option.splits list.splits)
  define w where "w = ufw_body body \<lparr>uw_source = None, uw_port = None, uw_proto = None\<rparr>"
  have kept: "(if A then None else X) = Some r \<Longrightarrow> X = Some r" for A X by (cases A) simp_all
  have "\<exists>p. r = \<lparr>fr_port = p, fr_proto = (case uw_proto w of Some q \<Rightarrow> q | None \<Rightarrow> Tcp),
      fr_source = option_filter validate_source (uw_source w), fr_comment = []\<rparr>"
    using line unfolding ufw_added_line_def ts option.case list.case Let_def w_def [symmetric]
    by (elim kept [elim_format] map_option_eq_Some [THEN iffD1, elim_format]) blast
  then have "fr_source r = option_filter validate_source (uw_source w)" by auto
  then have "uw_source w = Some c" using assms(2) by (auto simp: option_filter_def split: option.splits if_splits)
  then have "sublist [''from'', c] body" using ufw_body_source [of body _ c] unfolding w_def by fastforce
  then show ?thesis using UfwLine ts by (simp add: ufw_rule_words_def sublist_Cons_right)
next
  case (ZoneLine l)
  then have "parse_firewalld_rich_rule (str_trim l) = Some r"
    using assms by (auto simp: zone_line_def Let_def port_tokens_def anywhere_def map_filter_def bind_eq_Some_conv
        split: option.splits if_splits prod.splits)
  then have "rule_attribute ''source address='' (str_trim l) = Some c"
    using assms(2) by (auto simp: parse_firewalld_rich_rule_def bind_eq_Some_conv option_filter_def split: if_splits option.splits)
  then show ?thesis using ZoneLine rule_attribute_spelled [of "''source address=''" "str_trim l" c] by simp
next
  case (ServicePorts t)
  then show ?thesis using assms by (auto simp: port_tokens_def anywhere_def map_filter_def bind_eq_Some_conv split: if_splits)
qed

lemma zone_line_rules: "av_rules (fst (zone_line (v, ss) l)) = av_rules v @ shown_rules (ZoneLine l)"
  by (simp add: zone_line_def Let_def split: option.split)

lemma zone_rules:
  "r \<in> set (av_rules (fst (foldl zone_line acc ls))) \<Longrightarrow>
     r \<in> set (av_rules (fst acc)) \<or> (\<exists>l \<in> set ls. r \<in> set (shown_rules (ZoneLine l)))"
proof (induction ls arbitrary: acc)
  case (Cons l ls)
  have "av_rules (fst (zone_line acc l)) = av_rules (fst acc) @ shown_rules (ZoneLine l)"
    using zone_line_rules [of "fst acc" "snd acc" l] by simp
  then show ?case using Cons.IH [of "zone_line acc l"] Cons.prems by (auto simp del: shown_rules.simps)
qed simp

lemma services_rules:
  assumes "all_services env view ns s = (s1, Inr v)" "r \<in> set (av_rules v)"
  shows "r \<in> set (av_rules view) \<or>
    (\<exists>name t. was_asked (firewalld_offline env [''--service='' @ name, ''--get-ports'']) (fs_commands s1) t \<and> r \<in> set (port_tokens t))"
  using assms(1)
proof (induction ns arbitrary: view s)
  case Nil
  then show ?case using assms(2) by (simp add: sc_ret_def)
next
  case (Cons n ns)
  let ?m = "firewalld_offline env [''--service='' @ n, ''--get-ports'']"
  obtain s2 v2 where two: "service_rules env view n s = (s2, Inr v2)" "all_services env v2 ns s2 = (s1, Inr v)"
    using Cons.prems by (auto simp: sc_bind_ok)
  have "runs_only (\<lambda>_. True) (all_services env v2 ns)"
    by (induction ns arbitrary: v2) (auto simp: service_rules_def intro!: runs_intros)
  then have grow: "prefix (fs_commands s2) (fs_commands s1)" using two(2) by (rule runs_grows)
  obtain x where m: "?m s = (s2, x)" "v2 = (case x of Inr ports \<Rightarrow> view\<lparr>av_rules := av_rules view @ port_tokens ports\<rparr>
      | Inl _ \<Rightarrow> view\<lparr>av_opaque := av_opaque view @ [n]\<rparr>)"
    using two(1) by (auto simp: service_rules_def sc_bind_ok sc_try_def sc_ret_def split: prod.splits)
  have "r \<in> set (av_rules view) \<or> (\<exists>name t. was_asked (firewalld_offline env [''--service='' @ name, ''--get-ports'']) (fs_commands s1) t
      \<and> r \<in> set (port_tokens t))" if "r \<in> set (av_rules v2)"
  proof (cases x)
    case (Inl e)
    then show ?thesis using that m(2) by simp
  next
    case (Inr ports)
    then have "was_asked ?m (fs_commands s1) ports" using m(1) grow by (auto simp: was_asked_def)
    then show ?thesis using that m(2) Inr by auto
  qed
  then show ?case using Cons.IH [OF two(2)] by blast
qed

text \<open>Every rule of the view is the rule of a piece the host showed.\<close>

lemma view_shown:
  assumes "was_asked (admitting_view_op env lc) cs view" "r \<in> set (av_rules view)"
  shows "\<exists>piece. was_shown env lc cs piece \<and> r \<in> set (shown_rules piece)"
proof -
  obtain s0 s1 where run: "admitting_view_op env lc s0 = (s1, Inr view)" and pre: "prefix (fs_commands s1) cs"
    using assms(1) by (auto simp: was_asked_def)
  show ?thesis
  proof (cases lc)
    case LcUfw
    then obtain out where out: "must_succeed env [''ufw'', ''show'', ''added''] s0 = (s1, Inr out)" "av_rules view = parse_ufw_added (co_stdout out)"
      using run by (auto simp: sc_bind_ok sc_ret_def)
    then obtain l where "l \<in> set (str_lines (co_stdout out))" "ufw_added_line l = Some r"
      using assms(2) by (auto simp: parse_ufw_added_def map_filter_def)
    then show ?thesis using LcUfw out(1) pre by (intro exI [of _ "UfwLine l"]) (auto simp: was_shown_def was_asked_def)
  next
    case LcFirewalld
    then obtain t s2 where two: "firewalld_offline env [''--list-all''] s0 = (s2, Inr t)"
      "(case parse_firewalld_zone t of (view, services) \<Rightarrow> all_services env view services) s2 = (s1, Inr view)"
      using run by (auto simp: sc_bind_ok)
    obtain zone services where z: "parse_firewalld_zone t = (zone, services)" by (cases "parse_firewalld_zone t")
    have more: "all_services env zone services s2 = (s1, Inr view)" using two(2) z by simp
    have "runs_only (\<lambda>_. True) (all_services env v ns)" for v ns
      by (induction ns arbitrary: v) (auto simp: service_rules_def intro!: runs_intros)
    then have grow: "prefix (fs_commands s2) (fs_commands s1)" using more by (rule runs_grows)
    from services_rules [OF more assms(2)] show ?thesis
    proof (elim disjE exE conjE)
      assume "r \<in> set (av_rules zone)"
      then obtain l where "l \<in> set (str_lines t)" "r \<in> set (shown_rules (ZoneLine l))"
        using z zone_rules [of r "(\<lparr>av_rules = [], av_opaque = []\<rparr>, [])" "str_lines t"] by (auto simp: parse_firewalld_zone_def simp del: shown_rules.simps)
      moreover have "was_asked (firewalld_offline env [''--list-all'']) cs t"
        using two(1) prefix_order.order_trans [OF grow pre] by (auto simp: was_asked_def)
      ultimately show ?thesis using LcFirewalld by (intro exI [of _ "ZoneLine l"]) (auto simp: was_shown_def simp del: shown_rules.simps)
    next
      fix name ports
      assume "was_asked (firewalld_offline env [''--service='' @ name, ''--get-ports'']) (fs_commands s1) ports" "r \<in> set (port_tokens ports)"
      then have "was_asked (firewalld_offline env [''--service='' @ name, ''--get-ports'']) cs ports" "r \<in> set (shown_rules (ServicePorts ports))"
        using was_asked_mono [OF _ pre] by simp_all
      then have "was_shown env lc cs (ServicePorts ports)" using LcFirewalld unfolding was_shown_def shown.case by blast
      then show ?thesis using \<open>r \<in> set (shown_rules (ServicePorts ports))\<close> by blast
    qed
  next
    case (Unsupported reason)
    then show ?thesis using run by (simp add: sc_fail_def)
  qed
qed

lemma passed_is_way_in:
  assumes "was_asked (admitting_view_op env lc) cs view" "passes env lc view client cs p"
    "\<And>piece. was_shown env lc cs piece \<Longrightarrow> \<not> source_dropped piece"
  shows "way_in env lc client cs p"
proof (cases "opened env lc cs p")
  case False
  then obtain r where r: "r \<in> set (av_rules view)" "fr_port r = p" "fr_proto r = Tcp"
    "fr_source r = None \<or> (\<exists>c ip. fr_source r = Some c \<and> client = Some ip \<and> cidr_contains c ip = Some True)"
    using assms(2) ssh_reachable_rule [of "av_rules view" p client] unfolding passes_def by blast
  obtain piece where piece: "was_shown env lc cs piece" "r \<in> set (shown_rules piece)" using view_shown [OF assms(1) r(1)] by blast
  then have "\<not> (names_source piece \<and> fr_source r = None)" using assms(3) by (auto simp: source_dropped_def list_ex_iff)
  then have "admits piece p client"
    using r(2-4) piece(2) kept_source_spelled [OF piece(2)] by (auto simp: admits_def list_ex_iff)
  then show ?thesis using piece(1) by (auto simp: way_in_def)
qed (simp add: way_in_def)

lemma guards_leave_ways_in:
  assumes "guards_passed env lc client cs"
  shows "ways_in_open env lc client cs \<or> (\<exists>piece. was_shown env lc cs piece \<and> source_dropped piece)"
proof (cases "\<exists>piece. was_shown env lc cs piece \<and> source_dropped piece")
  case False
  obtain ssh view serves where asked: "was_asked (ssh_facts_op env) cs ssh" "was_asked (admitting_view_op env lc) cs view" "was_asked (serving_the_web env) cs serves"
    and ways: "case ssh of SshPorts ports _ \<Rightarrow> list_all (passes env lc view client cs) ports | SshAbsent \<Rightarrow> True | SshUnknown _ \<Rightarrow> False"
      "if serves then list_all (passes env lc view None cs) [80, 443] else True"
      "case reachable_port (fe_listen (ee_fw env)) of None \<Rightarrow> serves | Some p \<Rightarrow> passes env lc view None cs p"
    using assms unfolding guards_passed_def by blast
  have way: "passes env lc view c cs p \<Longrightarrow> way_in env lc c cs p" for c p
    using passed_is_way_in [OF asked(2)] False by blast
  have "case ssh of SshPorts ports _ \<Rightarrow> list_all (way_in env lc client cs) ports | SshAbsent \<Rightarrow> True | SshUnknown _ \<Rightarrow> False"
    using ways(1) way by (auto simp: list_all_iff split: ssh_facts.splits)
  moreover have "if serves then list_all (way_in env lc None cs) [80, 443] else True" using ways(2) way by auto
  moreover have "case reachable_port (fe_listen (ee_fw env)) of None \<Rightarrow> serves | Some p \<Rightarrow> way_in env lc None cs p"
    using ways(3) way by (auto split: option.splits)
  ultimately show ?thesis using asked(1,3) unfolding ways_in_open_def by blast
qed simp


text \<open>
  Without \<open>allow_ssh\<close> the guard for SSH runs nothing and records nothing: it lets through or it
  refuses. It lets through only when every port of sshd is admitted.
\<close>

theorem ssh_guard_opens_nothing_unasked:
  "fst (ensure_ssh_reachable env lc view ssh client False s) = s
   \<and> (case snd (ensure_ssh_reachable env lc view ssh client False s) of
        Inl _ \<Rightarrow> ssh \<noteq> SshAbsent
      | Inr ports \<Rightarrow> ports = [] \<and> (case ssh of SshPorts ps _ \<Rightarrow> list_all (\<lambda>p. ssh_reachable (av_rules view) p client = Some True) ps
          | SshAbsent \<Rightarrow> True | SshUnknown _ \<Rightarrow> False))"
proof (cases ssh)
  case (SshPorts ps source)
  show ?thesis
  proof (cases "unprotected_ssh_ports (av_rules view) ps client")
    case None
    then show ?thesis using SshPorts by (simp add: ensure_ssh_reachable_def or_panic_def)
  next
    case (Some shut)
    then show ?thesis
      using SshPorts unprotected_Some [OF Some]
      by (simp add: ensure_ssh_reachable_def or_panic_def sc_ret_def sc_fail_def) (simp add: list_all_iff)
  qed
qed (simp_all add: ensure_ssh_reachable_def sc_ret_def sc_fail_def)

section \<open>Sources that cannot be read\<close>

text \<open>
  A source that is not a plain range is dropped from the rule, and a rule without a source admits
  everybody. So a rich rule for one set of addresses counts as a way in from anywhere, although the
  comment of \<open>validate_source\<close> says that such a source must not cover the operator.
\<close>

definition ipset_rule :: str where
  "ipset_rule = ''rule family='' @ quote @ ''ipv4'' @ quote @ '' source ipset='' @ quote @ ''office'' @ quote @ '' port port='' @ quote @ ''22''
     @ quote @ '' protocol='' @ quote @ ''tcp'' @ quote @ '' accept''"

lemma unread_sources_admit_everybody:
  "parse_firewalld_rich_rule ipset_rule = Some (anywhere 22 Tcp [])"
  "ssh_reachable [anywhere 22 Tcp []] 22 client = Some True"
proof -
  have "rule_attribute ''port port='' ipset_rule = Some ''22''" "rule_attribute ''protocol='' ipset_rule = Some ''tcp''"
    "rule_attribute ''source address='' ipset_rule = None" "ends_with ''accept'' ipset_rule"
    by (simp_all add: rule_attribute_def ipset_rule_def quote_def ends_with_def suffix_def)
  moreover have "parse_u16 ''22'' = Some 22"
    by (simp add: parse_u16_def parse_unsigned_def digits_value_def digit_val_def ascii_defs byte_def)
  ultimately show "parse_firewalld_rich_rule ipset_rule = Some (anywhere 22 Tcp [])"
    by (simp add: parse_firewalld_rich_rule_def proto_parse_def option_filter_def anywhere_def)
  show "ssh_reachable [anywhere 22 Tcp []] 22 client = Some True" by (simp add: anywhere_def)
qed

end
