(* ===== verification/Spec2Isabelle.thy ===== *)
theory Spec2Isabelle
  imports Units Web_Auth Revisions Terminal Pgp Tenant_Files Cron_Jobs Backup_Schedule Scheduler Ipc_Client Fw_Enable
begin

text \<open>
  Unihelm is a hosting panel. A web process authenticates people (\<open>unihelm-web\<close>) and passes what they
  ask for over a Unix socket (\<open>unihelm-ipc\<close>) to an agent that runs as root (\<open>unihelm-agentd\<close>). The agent
  checks again who asks and whether they may, and runs one of the registered operations
  (\<open>unihelm-ops\<close>), at once or as a task of its own. Operations change rows (\<open>unihelm-db\<close>), files through
  the apply engine (\<open>unihelm-config\<close>), and services, packages and the firewall
  (\<open>unihelm-distro\<close>). All exchange the values of \<open>unihelm-core\<close>. Paths below are under \<open>src/crates/\<close>.

  Conventions. A string is the list of its UTF-8 bytes (\<open>Prelude\<close>), machine integers are words, and
  what SQLite, SHA-256, Argon2, the clock, the random numbers, JSON and the templates do is a
  parameter: a \<open>codec\<close> (\<open>Models\<close>), an environment record, or an argument. The named hypotheses on a
  codec are that encoding followed by decoding is the identity and that times compare as their texts;
  a concrete codec shows in the witnesses that they can hold. Tables are lists of rows with the
  last number given; a query is a filter, an ordering and the conversion of rows, which can fail. An
  error is the left half of a sum, a panic is \<open>None\<close> where the code can panic, and a loop that need
  not end carries fuel or is a relation. Steps of concurrent code are relations, and what is claimed
  of them holds in every reachable state.

  Values and rights. \<open>Errors\<close> is \<open>unihelm-core/src/error.rs\<close>: every code with its number and status.
  \<open>Newtypes\<close> is \<open>newtypes.rs\<close>: each text that comes from outside is parsed once, and the lemmas say
  what the accepted ones look like; a path of a tenant, for one, has no parent component. \<open>Rbac\<close>
  (\<open>rbac.rs\<close>) and \<open>Plans\<close> (\<open>plan.rs\<close>) hold permissions, scopes and the limits of a plan.

  The database. \<open>Models\<close> converts rows and maps errors, and \<open>Users\<close>, \<open>Sessions\<close>, \<open>Audit_Trail\<close>,
  \<open>Tasks\<close>, \<open>Subscriptions\<close>, \<open>Revisions\<close> follow the files of \<open>unihelm-db/src\<close>. Their lemmas are
  invariants that every statement keeps, what a scoped query can return, and that the history of a
  file refines a map from paths to the content in force.

  Changing files. \<open>Managed\<close> is the header by which the panel recognises its own files, and \<open>Apply\<close>
  (\<open>unihelm-config/src/apply.rs\<close>) is the engine over a disk that can fail at any call: nothing is
  loaded that did not validate, and a change that fails is undone. \<open>Revisions\<close> connects it with the
  history.

  Requests. \<open>Frames\<close> (\<open>unihelm-ipc/src\<close>) cuts a stream of bytes into messages and runs the loops of a
  connection; \<open>Ipc_Client\<close> is the other end, whose callers, writer and reader interleave.
  \<open>Registry\<close> (\<open>unihelm-ops/src/registry.rs\<close>) lists every operation, and \<open>Dispatch\<close>
  (\<open>unihelm-agentd/src/handler.rs\<close>) goes from a frame to an operation. \<open>Tasks\<close> also runs what was
  queued. \<open>Web_Auth\<close> is the sign-in, its throttle and the identity of a request.

  Tenants. \<open>Terminal\<close> decides who gets a shell. \<open>Tenant_Files\<close> is the helper of the file manager on a
  tree with symbolic links: requests stay in the home, and a copy returns (its fuel is shown to be
  enough) unless it goes into itself. \<open>Cron_Text\<close> and \<open>Cron_Jobs\<close> are the tenants' cron jobs, as
  text and as a table with a file per user. \<open>Units\<close> names units, containers and slices.

  Time. \<open>Backup_Schedule\<close> parses the schedule of a backup into bit masks, agrees with a reading by
  sets of values, and always returns. \<open>Scheduler\<close> is the table of the agent's own jobs and the loop
  that claims them: two passes of a job never overlap, and no outcome stops it.

  The host. \<open>Commands\<close> (\<open>unihelm-distro/src/exec.rs\<close>, \<open>svc.rs\<close>) passes the list of commands run so far
  through scripts; what the host answers is a function of that list. \<open>Fw_Rules\<close> and \<open>Fw_Backends\<close>
  (\<open>fw.rs\<close>) are the rules of a firewall, what the programs print of them, and the four backends behind
  the interface \<open>fw_contract\<close>, which each of them interprets. \<open>Ip_Addr\<close> reads and prints addresses and
  compares them with ranges. \<open>Fw_Ports\<close> (\<open>unihelm-ops/src/fwops.rs\<close>, \<open>unihelm-db/src/firewall.rs\<close>) is the
  table of recorded rules, opening and closing a port, the port of the mail server, and the view that merges
  the record with the live rules. \<open>Fw_Enable\<close> switches the firewall on and off: the interface
  \<open>quiet_backend\<close>, interpreted on the four backends, gives that nothing but the last step switches it, so
  that the guards for SSH, the web and the panel come first. \<open>Sentinel\<close> (\<open>unihelm-ops/src/fwops.rs\<close>, \<open>unihelm-db/src/firewall.rs\<close>)
  reads the journal and bans who guesses passwords. \<open>Pgp\<close> (\<open>pgp.rs\<close>) walks the packets of a key file and
  compares fingerprints with the pinned ones.

  Not modelled. The bodies of most operations (sites, certificates, databases, containers, DNS, mail,
  imports, WordPress): they drive outside programs, and what is decided in the panel itself is in
  the parts above. Package managers and the detection of the distribution. The
  routes of the web process besides the sign-in, the command line, the metrics and the user
  interface. Log lines, the reservation of memory, and the time that a call takes.
\<close>

end
